(* ===== verification/Gows_Prelude.thy ===== *)
theory Gows_Prelude
  imports Main "HOL-Library.Word"
begin

text \<open>
  The prelude of the gows development: the types every component shares (bytes, wire words,
  Go's signed 64-bit integers), the part of Go's \<^verbatim>\<open>encoding/binary\<close> and \<^verbatim>\<open>bytes\<close> packages that
  the sources call, and the generic lemmas on lists and words that carry the component proofs.

  Conventions: a Go \<^verbatim>\<open>[]byte\<close> is a list of 8-bit words; \<^verbatim>\<open>int\<close> and \<^verbatim>\<open>int64\<close> values are
  \<^typ>\<open>int\<close>, with \<open>i64\<close> written out where an addition can leave the 64-bit range; \<^verbatim>\<open>uint16\<close>,
  \<^verbatim>\<open>uint32\<close> and \<^verbatim>\<open>uint64\<close> are words of that width; a function that returns an error returns a sum,
  with \<^const>\<open>Inl\<close> for the error.
\<close>

unbundle bit_operations_syntax

type_synonym byte = "8 word"
type_synonym bytes = "byte list"

named_theorems wire_simps \<open>rewrites for the encoding of words as bytes\<close>
named_theorems byte_bounds \<open>bounds of single bytes as natural numbers\<close>

section \<open>Byte literals\<close>

text \<open>A Go string literal is its bytes; all the literals of the sources are ASCII.\<close>

definition B :: "string \<Rightarrow> bytes" where
  "B s = map of_char s"

lemma B_Nil [simp]: "B [] = []"
  by (simp add: B_def)

lemma B_Cons [simp]: "B (c # s) = of_char c # B s"
  by (simp add: B_def)

lemma B_append [simp]: "B (s @ t) = B s @ B t"
  by (simp add: B_def)

lemma length_B [simp]: "length (B s) = length s"
  by (simp add: B_def)

section \<open>Signed 64-bit arithmetic\<close>

text \<open>Go's \<^verbatim>\<open>int64\<close> addition wraps around: the result is reduced to 64 bits, two's complement.\<close>

definition i64 :: "int \<Rightarrow> int" where
  "i64 x = signed_take_bit 63 x"

definition int64_range :: "int \<Rightarrow> bool" where
  "int64_range x \<longleftrightarrow> - (2 ^ 63) \<le> x \<and> x < 2 ^ 63"

lemma i64_id: "int64_range x \<Longrightarrow> i64 x = x"
  by (simp add: int64_range_def i64_def signed_take_bit_int_eq_self)

lemma i64_in_range: "int64_range (i64 x)"
  unfolding i64_def int64_range_def
  using signed_take_bit_int_greater_eq_minus_exp [of 63 x] signed_take_bit_int_less_exp [of 63 x]
  by simp

lemma i64_wrap: "2 ^ 63 \<le> x \<Longrightarrow> x < 2 ^ 64 \<Longrightarrow> i64 x = x - 2 ^ 64"
proof -
  assume x: "2 ^ 63 \<le> x" "x < 2 ^ 64"
  have "(x + 2 ^ 63) mod 2 ^ 64 = ((x - 2 ^ 63) + 2 ^ 64) mod 2 ^ 64"
    by (rule arg_cong [where f = "\<lambda>y. y mod 2 ^ 64"]) simp
  also have "\<dots> = x - 2 ^ 63"
    unfolding mod_add_self2 using x by (intro mod_pos_pos_trivial) auto
  finally show ?thesis
    unfolding i64_def by (simp add: signed_take_bit_eq_take_bit_shift take_bit_eq_mod)
qed

section \<open>Bytes as numbers\<close>

lemma unat_byte_less [byte_bounds]: "unat (b :: byte) < 256"
  using unsigned_less [of b] by simp

lemma byte_less_256 [byte_bounds]: "uint (b :: byte) < 256"
  using unsigned_less [of b] by simp

lemma byte_eq_iff_unat: "(a :: byte) = b \<longleftrightarrow> unat a = unat b"
  by (simp add: word_unat_eq_iff)

section \<open>encoding/binary\<close>

text \<open>
  Little- and big-endian fixed-size integers: \<^verbatim>\<open>binary.LittleEndian.Uint32/Uint64\<close> and their
  \<^verbatim>\<open>Put\<close> forms, \<^verbatim>\<open>binary.BigEndian.Uint16/Uint64\<close> and theirs. The width is the type's.
\<close>

primrec le_word :: "bytes \<Rightarrow> 'a::len word" where
  "le_word [] = 0"
| "le_word (b # bs) = ucast b OR push_bit 8 (le_word bs)"

definition be_word :: "bytes \<Rightarrow> 'a::len word" where
  "be_word bs = le_word (rev bs)"

definition put_le :: "nat \<Rightarrow> 'a::len word \<Rightarrow> bytes" where
  "put_le n w = map (\<lambda>i. ucast (drop_bit (8 * i) w)) [0..<n]"

definition put_be :: "nat \<Rightarrow> 'a::len word \<Rightarrow> bytes" where
  "put_be n w = rev (put_le n w)"

lemma length_put_le [simp, wire_simps]: "length (put_le n w) = n"
  by (simp add: put_le_def)

lemma length_put_be [simp, wire_simps]: "length (put_be n w) = n"
  by (simp add: put_be_def)

lemma nth_put_le: "i < n \<Longrightarrow> put_le n w ! i = ucast (drop_bit (8 * i) w)"
  by (simp add: put_le_def)

lemma bit_le_word:
  "bit (le_word bs :: 'a::len word) i \<longleftrightarrow>
     i < LENGTH('a) \<and> i div 8 < length bs \<and> bit (bs ! (i div 8)) (i mod 8)"
proof (induction bs arbitrary: i)
  case Nil
  then show ?case by simp
next
  case (Cons b bs)
  show ?case
  proof (cases "i < 8")
    case True
    then show ?thesis by (auto simp: bit_simps dest: bit_imp_le_length)
  next
    case False
    then have "i div 8 = Suc ((i - 8) div 8)" and "i mod 8 = (i - 8) mod 8"
      by (auto simp: le_div_geq le_mod_geq)
    moreover have "\<not> bit b i" using False bit_imp_le_length [of b i] by auto
    ultimately show ?thesis using False Cons.IH [of "i - 8"]
      by (auto simp: bit_simps)
  qed
qed

lemma le_word_put_le [wire_simps]:
  fixes w :: "'a::len word"
  assumes "8 * n = LENGTH('a)"
  shows "le_word (put_le n w) = w"
proof (rule bit_word_eqI)
  fix i assume i: "i < LENGTH('a)"
  with assms have "i div 8 < n" by auto
  moreover have "8 * (i div 8) + i mod 8 = i" by simp
  ultimately show "bit (le_word (put_le n w) :: 'a word) i \<longleftrightarrow> bit w i"
    using i by (simp add: bit_le_word nth_put_le bit_simps)
qed

lemma be_word_put_be [wire_simps]:
  fixes w :: "'a::len word"
  assumes "8 * n = LENGTH('a)"
  shows "be_word (put_be n w) = w"
  using le_word_put_le [OF assms] by (simp add: be_word_def put_be_def)

lemma put_le_le_word [wire_simps]:
  assumes "8 * n = LENGTH('a::len)" and "length bs = n"
  shows "put_le n (le_word bs :: 'a word) = bs"
proof (rule nth_equalityI)
  show "length (put_le n (le_word bs :: 'a word)) = length bs"
    using assms by simp
  fix i assume "i < length (put_le n (le_word bs :: 'a word))"
  then have i: "i < n" by simp
  show "put_le n (le_word bs :: 'a word) ! i = bs ! i"
  proof (rule bit_word_eqI)
    fix j assume "j < LENGTH(8)"
    then have j: "j < 8" by simp
    then have "(8 * i + j) div 8 = i" and "(8 * i + j) mod 8 = j" by auto
    moreover have "8 * i + j < LENGTH('a)" using i j assms by linarith
    ultimately show "bit (put_le n (le_word bs :: 'a word) ! i) j \<longleftrightarrow> bit (bs ! i) j"
      using i j assms by (simp add: nth_put_le bit_simps bit_le_word)
  qed
qed

lemma put_be_be_word [wire_simps]:
  assumes "8 * n = LENGTH('a::len)" and "length bs = n"
  shows "put_be n (be_word bs :: 'a word) = bs"
  using put_le_le_word [OF assms(1), of "rev bs"] assms(2)
  by (simp add: be_word_def put_be_def)

section \<open>Searching a byte slice\<close>

text \<open>
  \<^verbatim>\<open>bytes.IndexByte(b, c)\<close>: the first position of \<open>c\<close>, \<^const>\<open>None\<close> for \<^verbatim>\<open>-1\<close>;
  \<^verbatim>\<open>bytes.Cut(b, []byte{c})\<close>: the parts before and after it.
\<close>

fun indexByte :: "bytes \<Rightarrow> byte \<Rightarrow> nat option" where
  "indexByte [] c = None"
| "indexByte (x # xs) c = (if x = c then Some 0 else map_option Suc (indexByte xs c))"

lemma indexByte_None_iff: "indexByte b c = None \<longleftrightarrow> c \<notin> set b"
  by (induction b) auto

lemma indexByte_append:
  "c \<notin> set xs \<Longrightarrow> indexByte (xs @ c # ys) c = Some (length xs)"
  by (induction xs) auto

lemma indexByte_Some_split:
  "indexByte b c = Some i \<Longrightarrow> i < length b \<and> b ! i = c \<and> c \<notin> set (take i b)"
proof (induction b arbitrary: i)
  case Nil
  then show ?case by simp
next
  case (Cons x xs)
  then show ?case by (cases i) (auto split: if_splits)
qed

definition bytesCut :: "bytes \<Rightarrow> byte \<Rightarrow> bytes \<times> bytes \<times> bool" where
  "bytesCut b c = (case indexByte b c of
     None \<Rightarrow> (b, [], False)
   | Some i \<Rightarrow> (take i b, drop (Suc i) b, True))"

lemma bytesCut_append [simp]: "c \<notin> set xs \<Longrightarrow> bytesCut (xs @ c # ys) c = (xs, ys, True)"
  by (simp add: bytesCut_def indexByte_append)

lemma bytesCut_None [simp]: "c \<notin> set b \<Longrightarrow> bytesCut b c = (b, [], False)"
  by (simp add: bytesCut_def indexByte_None_iff [THEN iffD2])

text \<open>Replacing the bytes at \<open>off\<close>: \<^verbatim>\<open>copy(b[off:], p)\<close> where \<open>p\<close> fits.\<close>

definition copyAt :: "bytes \<Rightarrow> nat \<Rightarrow> bytes \<Rightarrow> bytes" where
  "copyAt b off p = take off b @ p @ drop (off + length p) b"

lemma length_copyAt [simp]: "off + length p \<le> length b \<Longrightarrow> length (copyAt b off p) = length b"
  by (simp add: copyAt_def)

lemma copyAt_Nil [simp]: "copyAt b off [] = b"
  by (simp add: copyAt_def)

end
