(* ===== verification/Frame.thy ===== *)
theory Frame
  imports Gows_Prelude
begin

text \<open>
  The frame codec, \<^verbatim>\<open>src/frame.go\<close>: opcodes, the frame header and its encoder and decoder, the
  table-driven decoder the connection uses, and the body of a Close frame.

  The header's \<^verbatim>\<open>Length\<close> is Go's \<^verbatim>\<open>int64\<close>, an \<^typ>\<open>int\<close> here; conversions between widths are
  written out. The lemmas show that the encoder and the decoder are inverse to one another in both
  directions, that the table-driven decoder agrees with the plain decoder followed by the RSV and
  mask-role checks, and that the outcome of a decode never changes when more bytes arrive.
\<close>

section \<open>Opcodes\<close>

type_synonym Opcode = byte

definition OpcodeContinuation :: Opcode where "OpcodeContinuation = 0x0"
definition OpcodeText :: Opcode where "OpcodeText = 0x1"
definition OpcodeBinary :: Opcode where "OpcodeBinary = 0x2"
definition OpcodeClose :: Opcode where "OpcodeClose = 0x8"
definition OpcodePing :: Opcode where "OpcodePing = 0x9"
definition OpcodePong :: Opcode where "OpcodePong = 0xA"

lemmas opcode_defs = OpcodeContinuation_def OpcodeText_def OpcodeBinary_def
  OpcodeClose_def OpcodePing_def OpcodePong_def

definition IsControl :: "Opcode \<Rightarrow> bool" where
  "IsControl op \<longleftrightarrow> op AND 0x8 \<noteq> 0"

definition IsData :: "Opcode \<Rightarrow> bool" where
  "IsData op \<longleftrightarrow> op = OpcodeText \<or> op = OpcodeBinary"

definition RSV1 :: byte where "RSV1 = 0x4"
definition RSV2 :: byte where "RSV2 = 0x2"
definition RSV3 :: byte where "RSV3 = 0x1"

section \<open>The frame header\<close>

record Header =
  h_Fin :: bool
  h_Rsv :: byte
  h_Opcode :: Opcode
  h_Masked :: bool
  h_MaskKey :: "32 word"
  h_Length :: int

definition MaxHeaderSize :: nat where "MaxHeaderSize = 14"

text \<open>The sentinel errors of the file.\<close>

datatype frameErr =
    ErrShortHeader
  | ErrReservedOpcode
  | ErrNonMinimalLength
  | ErrReservedLengthBit
  | ErrControlFrameFragmented
  | ErrControlFrameTooLong
  | ErrShortCloseBody

primrec frameErrText :: "frameErr \<Rightarrow> bytes" where
  "frameErrText ErrShortHeader = B ''gows: short frame header''"
| "frameErrText ErrReservedOpcode = B ''gows: reserved opcode''"
| "frameErrText ErrNonMinimalLength = B ''gows: non-minimal length encoding''"
| "frameErrText ErrReservedLengthBit = B ''gows: reserved length bit set''"
| "frameErrText ErrControlFrameFragmented = B ''gows: fragmented control frame''"
| "frameErrText ErrControlFrameTooLong = B ''gows: control frame payload exceeds 125 bytes''"
| "frameErrText ErrShortCloseBody = B ''gows: close body too short for a close code''"

definition AppendHeader :: "bytes \<Rightarrow> Header \<Rightarrow> bytes" where
  "AppendHeader dst h = (let
     b0 = (h_Opcode h AND 0x0f) OR push_bit 4 (h_Rsv h AND 0x7);
     b0 = (if h_Fin h then b0 OR 0x80 else b0);
     b1 = (if h_Masked h then 0x80 else 0);
     (b1, ext) =
       (if h_Length h \<le> 125 then (b1 OR word_of_int (h_Length h), [])
        else if h_Length h \<le> 0xffff then (b1 OR 126, put_be 2 (word_of_int (h_Length h) :: 16 word))
        else (b1 OR 127, put_be 8 (word_of_int (h_Length h) :: 64 word)));
     key = (if h_Masked h then put_le 4 (h_MaskKey h) else [])
   in dst @ [b0, b1] @ ext @ key)"

text \<open>The test both decoders make on the opcode: \<^verbatim>\<open>op >= 0x3 && op <= 0x7 || op >= 0xB\<close>.\<close>

definition reservedOpcode :: "Opcode \<Rightarrow> bool" where
  "reservedOpcode op \<longleftrightarrow> 0x3 \<le> op \<and> op \<le> 0x7 \<or> 0xB \<le> op"

definition DecodeHeader :: "bytes \<Rightarrow> frameErr + Header \<times> nat" where
  "DecodeHeader b =
    (if length b < 2 then Inl ErrShortHeader else
     let b0 = b ! 0; b1 = b ! 1;
         fin = (b0 AND 0x80 \<noteq> 0);
         rsv = drop_bit 4 b0 AND 0x7;
         op = b0 AND 0x0f;
         masked = (b1 AND 0x80 \<noteq> 0);
         lengthCode = b1 AND 0x7f in
     if reservedOpcode op then Inl ErrReservedOpcode else
     let extLen = (if lengthCode = 126 then 2 else if lengthCode = 127 then 8 else 0);
         maskLen = (if masked then 4 else 0);
         need = 2 + extLen + maskLen in
     if length b < need then Inl ErrShortHeader else
     let lenRes =
       (if lengthCode = 126 then
          let v = (be_word (take 2 (drop 2 b)) :: 16 word) in
          if v \<le> 125 then Inl ErrNonMinimalLength else Inr (uint v)
        else if lengthCode = 127 then
          let v = (be_word (take 8 (drop 2 b)) :: 64 word) in
          if v AND push_bit 63 1 \<noteq> 0 then Inl ErrReservedLengthBit
          else if v \<le> 0xffff then Inl ErrNonMinimalLength else Inr (sint v)
        else Inr (uint lengthCode)) in
     case lenRes of
       Inl e \<Rightarrow> Inl e
     | Inr len \<Rightarrow>
       let key = (if masked then le_word (take 4 (drop (2 + extLen) b)) else 0) in
       if IsControl op \<and> \<not> fin then Inl ErrControlFrameFragmented
       else if IsControl op \<and> len > 125 then Inl ErrControlFrameTooLong
       else Inr (\<lparr>h_Fin = fin, h_Rsv = rsv, h_Opcode = op, h_Masked = masked,
                  h_MaskKey = key, h_Length = len\<rparr>, need))"

section \<open>The table-driven decoder\<close>

record headerClass =
  hc_opcode :: Opcode
  hc_rsv :: byte
  hc_fin :: bool
  hc_control :: bool
  hc_reserved :: bool
  hc_rsvBad :: bool

datatype hdrReject =
    rejectShort
  | rejectReservedOpcode
  | rejectNonMinimalLength
  | rejectReservedLengthBit
  | rejectControlFragmented
  | rejectControlTooLong
  | rejectRSV
  | rejectMask

primrec closeMessage :: "hdrReject \<Rightarrow> bool \<Rightarrow> bytes" where
  "closeMessage rejectShort client = []"
| "closeMessage rejectReservedOpcode client =
     B ''malformed frame header: '' @ frameErrText ErrReservedOpcode"
| "closeMessage rejectNonMinimalLength client =
     B ''malformed frame header: '' @ frameErrText ErrNonMinimalLength"
| "closeMessage rejectReservedLengthBit client =
     B ''malformed frame header: '' @ frameErrText ErrReservedLengthBit"
| "closeMessage rejectControlFragmented client =
     B ''malformed frame header: '' @ frameErrText ErrControlFrameFragmented"
| "closeMessage rejectControlTooLong client =
     B ''malformed frame header: '' @ frameErrText ErrControlFrameTooLong"
| "closeMessage rejectRSV client = B ''invalid RSV bit for the negotiated extension set''"
| "closeMessage rejectMask client =
     (if client then B ''masked frame received by client''
      else B ''unmasked frame received by server'')"

definition classifyHeaderByte :: "byte \<Rightarrow> bool \<Rightarrow> headerClass" where
  "classifyHeaderByte b0 compression = (let
     op = b0 AND 0x0f;
     rsv = drop_bit 4 b0 AND 0x7;
     control = IsControl op;
     rsv1OK = (compression \<and> rsv = RSV1 \<and> \<not> control \<and> op \<noteq> OpcodeContinuation)
   in \<lparr>hc_opcode = op, hc_rsv = rsv, hc_fin = (b0 AND 0x80 \<noteq> 0), hc_control = control,
       hc_reserved = reservedOpcode op, hc_rsvBad = (rsv \<noteq> 0 \<and> \<not> rsv1OK)\<rparr>)"

type_synonym headerTable = "headerClass list"

definition headerTables :: "bool \<Rightarrow> headerTable" where
  "headerTables compression = map (\<lambda>b0. classifyHeaderByte (word_of_nat b0) compression) [0..<256]"

definition headerTableFor :: "bool \<Rightarrow> bool \<Rightarrow> headerTable \<times> byte" where
  "headerTableFor client compression = (headerTables compression, if client then 0 else 0x80)"

text \<open>
  The result \<^verbatim>\<open>(Header, int, hdrReject)\<close>: a rejection other than \<^verbatim>\<open>rejectNone\<close> is \<^const>\<open>Inl\<close>.
\<close>

definition decodeFrameHeaderFast ::
    "headerTable \<Rightarrow> byte \<Rightarrow> bytes \<Rightarrow> hdrReject + Header \<times> nat" where
  "decodeFrameHeaderFast tbl maskBit b =
    (if length b < 2 then Inl rejectShort else
     let e = tbl ! unat (b ! 0) in
     if hc_reserved e then Inl rejectReservedOpcode else
     let b1 = b ! 1;
         lengthCode = b1 AND 0x7f;
         masked = (b1 AND 0x80 \<noteq> 0);
         extLen = (if lengthCode = 126 then 2 else if lengthCode = 127 then 8 else 0);
         need = 2 + extLen;
         need = (if masked then need + 4 else need) in
     if length b < need then Inl rejectShort else
     let lenRes =
       (if lengthCode = 126 then
          let v = (be_word (take 2 (drop 2 b)) :: 16 word) in
          if v \<le> 125 then Inl rejectNonMinimalLength else Inr (uint v)
        else if lengthCode = 127 then
          let v = (be_word (take 8 (drop 2 b)) :: 64 word) in
          if v AND push_bit 63 1 \<noteq> 0 then Inl rejectReservedLengthBit
          else if v \<le> 0xffff then Inl rejectNonMinimalLength else Inr (sint v)
        else Inr (uint lengthCode)) in
     case lenRes of
       Inl r \<Rightarrow> Inl r
     | Inr len \<Rightarrow>
       if hc_control e \<and> \<not> hc_fin e then Inl rejectControlFragmented
       else if hc_control e \<and> len > 125 then Inl rejectControlTooLong
       else if hc_rsvBad e then Inl rejectRSV
       else if b1 AND 0x80 \<noteq> maskBit then Inl rejectMask
       else let maskKey = (if masked then le_word (take 4 (drop (2 + extLen) b)) else 0) in
         Inr (\<lparr>h_Fin = hc_fin e, h_Rsv = hc_rsv e, h_Opcode = hc_opcode e, h_Masked = masked,
               h_MaskKey = maskKey, h_Length = len\<rparr>, need))"

section \<open>Close codes and the Close body\<close>

type_synonym CloseCode = "16 word"

definition CloseNormalClosure :: CloseCode where "CloseNormalClosure = 1000"
definition CloseGoingAway :: CloseCode where "CloseGoingAway = 1001"
definition CloseProtocolError :: CloseCode where "CloseProtocolError = 1002"
definition CloseUnsupportedData :: CloseCode where "CloseUnsupportedData = 1003"
definition CloseNoStatusReceived :: CloseCode where "CloseNoStatusReceived = 1005"
definition CloseAbnormalClosure :: CloseCode where "CloseAbnormalClosure = 1006"
definition CloseInvalidFramePayloadData :: CloseCode where "CloseInvalidFramePayloadData = 1007"
definition ClosePolicyViolation :: CloseCode where "ClosePolicyViolation = 1008"
definition CloseMessageTooBig :: CloseCode where "CloseMessageTooBig = 1009"
definition CloseMandatoryExtension :: CloseCode where "CloseMandatoryExtension = 1010"
definition CloseInternalServerErr :: CloseCode where "CloseInternalServerErr = 1011"
definition CloseServiceRestart :: CloseCode where "CloseServiceRestart = 1012"
definition CloseTryAgainLater :: CloseCode where "CloseTryAgainLater = 1013"
definition CloseBadGateway :: CloseCode where "CloseBadGateway = 1014"
definition CloseTLSHandshake :: CloseCode where "CloseTLSHandshake = 1015"

lemmas close_code_defs = CloseNormalClosure_def CloseGoingAway_def CloseProtocolError_def
  CloseUnsupportedData_def CloseNoStatusReceived_def CloseAbnormalClosure_def
  CloseInvalidFramePayloadData_def ClosePolicyViolation_def CloseMessageTooBig_def
  CloseMandatoryExtension_def CloseInternalServerErr_def CloseServiceRestart_def
  CloseTryAgainLater_def CloseBadGateway_def CloseTLSHandshake_def

definition ValidCloseCode :: "CloseCode \<Rightarrow> bool" where
  "ValidCloseCode c \<longleftrightarrow>
     (if 3000 \<le> c \<and> c \<le> 4999 then True
      else if 1000 \<le> c \<and> c \<le> 1003 then True
      else if 1007 \<le> c \<and> c \<le> 1014 then True
      else False)"

definition AppendCloseBody :: "bytes \<Rightarrow> CloseCode \<Rightarrow> bytes \<Rightarrow> bytes" where
  "AppendCloseBody dst code reason = dst @ put_be 2 code @ reason"

definition ParseCloseBody :: "bytes \<Rightarrow> frameErr + CloseCode \<times> bytes" where
  "ParseCloseBody b =
     (if length b = 0 then Inr (CloseNoStatusReceived, [])
      else if length b = 1 then Inl ErrShortCloseBody
      else Inr (be_word (take 2 b), drop 2 b))"

section \<open>Bits of the first two bytes\<close>

lemma byte_eqI8:
  fixes a b :: byte
  assumes "bit a 0 = bit b 0" "bit a 1 = bit b 1" "bit a 2 = bit b 2" "bit a 3 = bit b 3"
    "bit a 4 = bit b 4" "bit a 5 = bit b 5" "bit a 6 = bit b 6" "bit a 7 = bit b 7"
  shows "a = b"
proof (rule bit_word_eqI)
  fix n assume "n < LENGTH(8)"
  then have "n \<in> {0, 1, 2, 3, 4, 5, 6, 7}" by auto
  then show "bit a n = bit b n" using assms by blast
qed

lemma and_80_nonzero: "(b :: byte) AND 0x80 \<noteq> 0 \<longleftrightarrow> bit b 7"
proof
  assume "b AND 0x80 \<noteq> 0"
  moreover have "\<not> bit b 7 \<Longrightarrow> b AND 0x80 = 0" by (rule byte_eqI8) (simp_all add: bit_simps)
  ultimately show "bit b 7" by blast
next
  assume "bit b 7"
  then have "bit (b AND 0x80) 7" by (simp add: bit_simps)
  then show "b AND 0x80 \<noteq> 0" by auto
qed

lemma and_80_cases: "(b :: byte) AND 0x80 = (if bit b 7 then 0x80 else 0)"
  by (rule byte_eqI8) (simp_all add: bit_simps)

text \<open>The first byte of an encoded header, and what the decoders read back from it.\<close>

definition firstByte :: "Header \<Rightarrow> byte" where
  "firstByte h = (h_Opcode h AND 0x0f) OR push_bit 4 (h_Rsv h AND 0x7) OR
     (if h_Fin h then 0x80 else 0)"

lemma firstByte_fin: "firstByte h AND 0x80 \<noteq> 0 \<longleftrightarrow> h_Fin h"
  unfolding and_80_nonzero firstByte_def by (simp add: bit_simps)

lemma firstByte_rsv: "drop_bit 4 (firstByte h) AND 0x7 = h_Rsv h AND 0x7"
  by (rule byte_eqI8) (simp_all add: firstByte_def bit_simps)

lemma firstByte_opcode: "firstByte h AND 0x0f = h_Opcode h AND 0x0f"
  by (rule byte_eqI8) (simp_all add: firstByte_def bit_simps)

lemma firstByte_of_byte:
  "(b0 AND 0x0f) OR push_bit 4 ((drop_bit 4 b0 AND 0x7) AND 0x7) OR
     (if b0 AND 0x80 \<noteq> 0 then 0x80 else 0) = (b0 :: byte)"
  unfolding and_80_nonzero by (rule byte_eqI8) (simp_all add: bit_simps)

text \<open>The second byte: the mask bit and the 7-bit length code.\<close>

definition lengthCodeOf :: "int \<Rightarrow> byte" where
  "lengthCodeOf l = (if l \<le> 125 then word_of_int l else if l \<le> 0xffff then 126 else 127)"

definition secondByte :: "Header \<Rightarrow> byte" where
  "secondByte h = (if h_Masked h then 0x80 else 0) OR lengthCodeOf (h_Length h)"

definition extBytes :: "int \<Rightarrow> bytes" where
  "extBytes l = (if l \<le> 125 then [] else if l \<le> 0xffff then put_be 2 (word_of_int l :: 16 word)
     else put_be 8 (word_of_int l :: 64 word))"

definition keyBytes :: "Header \<Rightarrow> bytes" where
  "keyBytes h = (if h_Masked h then put_le 4 (h_MaskKey h) else [])"

lemma AppendHeader_parts:
  "AppendHeader dst h = dst @ firstByte h # secondByte h # extBytes (h_Length h) @ keyBytes h"
  by (simp add: AppendHeader_def firstByte_def secondByte_def extBytes_def keyBytes_def
      lengthCodeOf_def Let_def or.assoc)

lemma small_len_bit7:
  assumes "0 \<le> l" "l \<le> 125"
  shows "\<not> bit (word_of_int l :: byte) 7"
proof -
  have "l div 128 = 0" using assms by simp
  then have "\<not> bit l 7" by (simp add: bit_iff_odd)
  then show ?thesis by (simp add: bit_word_of_int_iff)
qed

lemma lengthCodeOf_bit7: "0 \<le> l \<Longrightarrow> \<not> bit (lengthCodeOf l) 7"
  by (simp add: lengthCodeOf_def small_len_bit7)

lemma secondByte_masked: "0 \<le> h_Length h \<Longrightarrow> secondByte h AND 0x80 \<noteq> 0 \<longleftrightarrow> h_Masked h"
  unfolding and_80_nonzero secondByte_def by (simp add: bit_simps lengthCodeOf_bit7)

lemma secondByte_lengthCode:
  assumes "0 \<le> h_Length h"
  shows "secondByte h AND 0x7f = lengthCodeOf (h_Length h)"
  using lengthCodeOf_bit7 [OF assms]
  by (intro byte_eqI8) (simp_all add: secondByte_def bit_simps)

lemma secondByte_of_byte:
  "(if b1 AND 0x80 \<noteq> 0 then 0x80 else 0) OR (b1 AND 0x7f) = (b1 :: byte)"
  unfolding and_80_nonzero by (rule byte_eqI8) (simp_all add: bit_simps)

lemma lengthCodeOf_small: "0 \<le> l \<Longrightarrow> l \<le> 125 \<Longrightarrow> uint (lengthCodeOf l) = l"
  by (simp add: lengthCodeOf_def unsigned_of_int take_bit_int_eq_self)

lemma lengthCodeOf_small_ne:
  assumes "0 \<le> l" "l \<le> 125"
  shows "lengthCodeOf l \<noteq> 126" "lengthCodeOf l \<noteq> 127"
proof -
  have "uint (lengthCodeOf l) \<noteq> uint (126 :: byte)" "uint (lengthCodeOf l) \<noteq> uint (127 :: byte)"
    using lengthCodeOf_small [OF assms] assms by simp_all
  then show "lengthCodeOf l \<noteq> 126" "lengthCodeOf l \<noteq> 127" by metis+
qed

section \<open>Encoding then decoding\<close>

text \<open>
  The headers the encoder is specified for: a defined opcode, three RSV bits, a non-negative
  length that fits \<^verbatim>\<open>int64\<close>, the control-frame limits of RFC 6455 section 5.5, and no key on an
  unmasked frame.
\<close>

definition wfHeader :: "Header \<Rightarrow> bool" where
  "wfHeader h \<longleftrightarrow> h_Opcode h AND 0x0f = h_Opcode h \<and> \<not> reservedOpcode (h_Opcode h) \<and>
     h_Rsv h AND 0x7 = h_Rsv h \<and> 0 \<le> h_Length h \<and> h_Length h < 2 ^ 63 \<and>
     (IsControl (h_Opcode h) \<longrightarrow> h_Fin h \<and> h_Length h \<le> 125) \<and>
     (\<not> h_Masked h \<longrightarrow> h_MaskKey h = 0)"

lemma ext16:
  assumes "125 < l" "l \<le> 0xffff"
  shows "uint (word_of_int l :: 16 word) = l" "\<not> (word_of_int l :: 16 word) \<le> 125"
proof -
  show u: "uint (word_of_int l :: 16 word) = l"
    using assms by (simp add: unsigned_of_int take_bit_int_eq_self)
  show "\<not> (word_of_int l :: 16 word) \<le> 125"
    using assms by (simp add: word_le_def u)
qed

lemma top_bit_zero: "(w :: 64 word) AND push_bit 63 1 = 0 \<longleftrightarrow> \<not> bit w 63"
  unfolding push_bit_eq_mult mult_1 by (rule and_exp_eq_0_iff_not_bit)

lemma ext64:
  assumes "0xffff < l" "l < 2 ^ 63"
  shows "sint (word_of_int l :: 64 word) = l" "(word_of_int l :: 64 word) AND push_bit 63 1 = 0"
    "\<not> (word_of_int l :: 64 word) \<le> 0xffff"
proof -
  have u: "uint (word_of_int l :: 64 word) = l"
    using assms by (simp add: unsigned_of_int take_bit_int_eq_self)
  show "sint (word_of_int l :: 64 word) = l"
    using assms by (simp add: signed_of_int signed_take_bit_int_eq_self)
  have "l div 2 ^ 63 = 0" using assms by simp
  then have "\<not> bit l 63" by (simp add: bit_iff_odd)
  then have "\<not> bit (word_of_int l :: 64 word) 63" by (simp add: bit_word_of_int_iff)
  then show "(word_of_int l :: 64 word) AND push_bit 63 1 = 0"
    by (simp only: top_bit_zero simp_thms)
  show "\<not> (word_of_int l :: 64 word) \<le> 0xffff"
    using assms by (simp add: word_le_def u)
qed

lemma length_AppendHeader:
  "length (AppendHeader [] h) =
     2 + (if h_Length h \<le> 125 then 0 else if h_Length h \<le> 0xffff then 2 else 8) +
     (if h_Masked h then 4 else 0)"
  by (simp add: AppendHeader_parts extBytes_def keyBytes_def)

text \<open>Both decoders in terms of the first two bytes and the rest of the buffer.\<close>

definition extLenOf :: "byte \<Rightarrow> nat" where
  "extLenOf lc = (if lc = 126 then 2 else if lc = 127 then 8 else 0)"

definition decodeLength :: "byte \<Rightarrow> bytes \<Rightarrow> frameErr + int" where
  "decodeLength lc r =
     (if lc = 126 then
        (if (be_word (take 2 r) :: 16 word) \<le> 125 then Inl ErrNonMinimalLength
         else Inr (uint (be_word (take 2 r) :: 16 word)))
      else if lc = 127 then
        (if bit (be_word (take 8 r) :: 64 word) 63 then Inl ErrReservedLengthBit
         else if (be_word (take 8 r) :: 64 word) \<le> 0xffff then Inl ErrNonMinimalLength
         else Inr (sint (be_word (take 8 r) :: 64 word)))
      else Inr (uint lc))"

definition controlCheck :: "Opcode \<Rightarrow> bool \<Rightarrow> int \<Rightarrow> frameErr option" where
  "controlCheck op fin len =
     (if IsControl op \<and> \<not> fin then Some ErrControlFrameFragmented
      else if IsControl op \<and> len > 125 then Some ErrControlFrameTooLong else None)"

definition maskLenOf :: "byte \<Rightarrow> nat" where
  "maskLenOf b1 = (if bit b1 7 then 4 else 0)"

definition headerOf :: "byte \<Rightarrow> byte \<Rightarrow> bytes \<Rightarrow> int \<Rightarrow> Header" where
  "headerOf b0 b1 r len =
     \<lparr>h_Fin = bit b0 7, h_Rsv = drop_bit 4 b0 AND 0x7, h_Opcode = b0 AND 0x0f, h_Masked = bit b1 7,
      h_MaskKey = (if bit b1 7 then le_word (take 4 (drop (extLenOf (b1 AND 0x7f)) r)) else 0),
      h_Length = len\<rparr>"

lemma DecodeHeader_short: "length b < 2 \<Longrightarrow> DecodeHeader b = Inl ErrShortHeader"
  by (simp add: DecodeHeader_def)

lemma DecodeHeader_Cons2:
  "DecodeHeader (b0 # b1 # r) =
     (if reservedOpcode (b0 AND 0x0f) then Inl ErrReservedOpcode
      else if length r < extLenOf (b1 AND 0x7f) + maskLenOf b1 then Inl ErrShortHeader
      else case decodeLength (b1 AND 0x7f) r of
        Inl e \<Rightarrow> Inl e
      | Inr len \<Rightarrow> (case controlCheck (b0 AND 0x0f) (bit b0 7) len of
          Some e \<Rightarrow> Inl e
        | None \<Rightarrow> Inr (headerOf b0 b1 r len, 2 + extLenOf (b1 AND 0x7f) + maskLenOf b1)))"
  unfolding DecodeHeader_def and_80_nonzero top_bit_zero
  by (simp add: Let_def extLenOf_def decodeLength_def maskLenOf_def controlCheck_def headerOf_def
      split: sum.split)

lemma buffer_cases:
  obtains (short) "length (b :: bytes) < 2" | (two) b0 b1 r where "b = b0 # b1 # r"
  by (cases b; cases "tl b") auto

lemma DecodeHeader_AppendHeader_aux:
  assumes "wfHeader h"
  shows "DecodeHeader (AppendHeader [] h @ rest) = Inr (h, length (AppendHeader [] h))"
proof -
  note wf = assms [unfolded wfHeader_def]
  let ?r = "extBytes (h_Length h) @ keyBytes h @ rest" and ?lc = "lengthCodeOf (h_Length h)"
  have bytes: "bit (firstByte h) 7 = h_Fin h" "bit (secondByte h) 7 = h_Masked h"
    "secondByte h AND 0x7f = ?lc" "firstByte h AND 0x0f = h_Opcode h"
    "drop_bit 4 (firstByte h) AND 0x7 = h_Rsv h"
    using wf firstByte_fin [of h] secondByte_masked [of h]
    by (simp_all add: secondByte_lengthCode firstByte_opcode firstByte_rsv and_80_nonzero)
  have ext: "extLenOf ?lc = length (extBytes (h_Length h))"
    using wf lengthCodeOf_small_ne [of "h_Length h"]
    by (simp add: extLenOf_def extBytes_def) (simp add: lengthCodeOf_def)
  have len: "decodeLength ?lc ?r = Inr (h_Length h)"
    using wf lengthCodeOf_small_ne [of "h_Length h"] lengthCodeOf_small [of "h_Length h"]
      ext16 [of "h_Length h"] ext64 [of "h_Length h"] unfolding top_bit_zero
    by (cases "h_Length h \<le> 125"; cases "h_Length h \<le> 0xffff")
      (simp_all add: decodeLength_def lengthCodeOf_def extBytes_def be_word_put_be)
  have mask: "maskLenOf (secondByte h) = length (keyBytes h)"
    by (simp add: maskLenOf_def bytes keyBytes_def)
  have hdr: "headerOf (firstByte h) (secondByte h) ?r (h_Length h) = h"
    using wf unfolding headerOf_def bytes ext by (simp add: keyBytes_def le_word_put_le)
  have "controlCheck (h_Opcode h) (h_Fin h) (h_Length h) = None"
    using wf by (auto simp: controlCheck_def)
  then show ?thesis
    using wf by (simp add: AppendHeader_parts DecodeHeader_Cons2 bytes ext len mask hdr)
qed

section \<open>Decoding then encoding\<close>

lemma sint_of_nonneg64:
  fixes v :: "64 word"
  assumes "\<not> bit v 63"
  shows "sint v = uint v" "uint v < 2 ^ 63"
proof -
  have t: "uint v = take_bit 63 (uint v)"
  proof (rule bit_eqI)
    fix n
    have "bit v n \<Longrightarrow> n < 63" using assms bit_imp_le_length [of v n]
      by (cases "n = 63") auto
    then show "bit (uint v) n = bit (take_bit 63 (uint v)) n"
      by (auto simp: bit_uint_iff bit_take_bit_iff)
  qed
  show "uint v < 2 ^ 63" using take_bit_int_less_exp [of 63 "uint v"] t by simp
  show "sint v = uint v"
    using t assms by (simp add: sint_uint signed_take_bit_eq_if_positive bit_uint_iff)
qed

lemma decodeLength_extBytes:
  assumes "decodeLength lc r = Inr l" "bit lc 7 = False" "extLenOf lc \<le> length r"
  shows "extBytes l = take (extLenOf lc) r \<and> lengthCodeOf l = lc \<and> 0 \<le> l \<and> l < 2 ^ 63"
proof -
  consider "lc = 126" | "lc = 127" | "lc \<noteq> 126" "lc \<noteq> 127" by blast
  then show ?thesis
  proof cases
    case 1
    let ?v = "be_word (take 2 r) :: 16 word"
    have v: "\<not> ?v \<le> 125" "l = uint ?v" using assms 1 by (auto simp: decodeLength_def split: if_splits)
    then have "125 < l" "l \<le> 0xffff" "0 \<le> l"
      using uint_lt2p [of ?v] by (auto simp: word_le_def)
    then show ?thesis using assms v 1
      by (simp add: extBytes_def extLenOf_def lengthCodeOf_def put_be_be_word)
  next
    case 2
    let ?v = "be_word (take 8 r) :: 64 word"
    have v: "\<not> bit ?v 63" "\<not> ?v \<le> 0xffff" "l = sint ?v"
      using assms 2 by (auto simp: decodeLength_def split: if_splits)
    note u = sint_of_nonneg64 [OF v(1)]
    have l: "65535 < l" "l < 2 ^ 63" using v u by (auto simp: word_le_def)
    have "put_be 8 ?v = take 8 r" using assms 2 by (simp add: extLenOf_def put_be_be_word)
    then show ?thesis using l v(3) 2 by (simp add: extBytes_def extLenOf_def lengthCodeOf_def)
  next
    case 3
    then have l: "l = uint lc" using assms by (simp add: decodeLength_def)
    have "uint lc < 128"
    proof -
      have "lc = take_bit 7 lc"
        using assms(2) by (intro byte_eqI8) (simp_all add: bit_simps)
      then have "uint lc = take_bit 7 (uint lc)" by (metis unsigned_take_bit_eq)
      moreover have "take_bit 7 (uint lc) < 2 ^ 7" by (rule take_bit_int_less_exp)
      ultimately show ?thesis by simp
    qed
    moreover have "uint lc \<noteq> 126" "uint lc \<noteq> 127"
      using 3 by (metis of_int_numeral word_of_int_uint)+
    ultimately have "l \<le> 125" "0 \<le> l" using l by auto
    then show ?thesis using l 3 by (simp add: extBytes_def extLenOf_def lengthCodeOf_def)
  qed
qed

lemma DecodeHeader_canonical:
  assumes "DecodeHeader b = Inr (h, n)"
  shows "wfHeader h \<and> n \<le> length b \<and> AppendHeader [] h = take n b"
proof (cases b rule: buffer_cases)
  case short
  then show ?thesis using assms by (simp add: DecodeHeader_short)
next
  case (two b0 b1 r)
  let ?lc = "b1 AND 0x7f"
  obtain l where l: "decodeLength ?lc r = Inr l" "h = headerOf b0 b1 r l"
    "n = 2 + extLenOf ?lc + maskLenOf b1" "controlCheck (b0 AND 0x0f) (bit b0 7) l = None"
    and r: "extLenOf ?lc + maskLenOf b1 \<le> length r" "\<not> reservedOpcode (b0 AND 0x0f)"
    using assms two by (auto simp: DecodeHeader_Cons2 not_less split: if_splits sum.splits option.splits)
  have "bit ?lc 7 = False" by (simp add: bit_simps)
  note e = decodeLength_extBytes [OF l(1) this]
  then have ext: "extBytes l = take (extLenOf ?lc) r" "lengthCodeOf l = ?lc" "0 \<le> l" "l < 2 ^ 63"
    using r(1) by simp_all
  have "firstByte h = b0"
    using firstByte_of_byte [of b0] unfolding firstByte_def l(2) headerOf_def and_80_nonzero
    by (simp add: and.assoc)
  moreover have "secondByte h = b1"
    using secondByte_of_byte [of b1] unfolding secondByte_def l(2) headerOf_def and_80_nonzero
    by (simp add: ext)
  moreover have "keyBytes h = take (maskLenOf b1) (drop (extLenOf ?lc) r)"
    using r(1) unfolding keyBytes_def l(2) headerOf_def
    by (simp add: maskLenOf_def put_le_le_word split: if_splits)
  moreover have "h_Length h = l" by (simp add: l(2) headerOf_def)
  ultimately have "AppendHeader [] h = take n b"
    using two l(3) by (simp add: AppendHeader_parts ext(1) take_add)
  moreover have "wfHeader h"
    using ext(3,4) l(4) r(2) unfolding wfHeader_def l(2) headerOf_def controlCheck_def
    by (auto simp: and.assoc split: if_splits)
  ultimately show ?thesis using two l(3) r(1) by simp
qed

lemma DecodeHeader_extend:
  assumes "DecodeHeader b \<noteq> Inl ErrShortHeader"
  shows "DecodeHeader (b @ xs) = DecodeHeader b"
proof (cases b rule: buffer_cases)
  case short
  then show ?thesis using assms by (simp add: DecodeHeader_short)
next
  case (two b0 b1 r)
  show ?thesis
  proof (cases "reservedOpcode (b0 AND 0x0f)")
    case True
    then show ?thesis using two by (simp add: DecodeHeader_Cons2)
  next
    case False
    then have r: "extLenOf (b1 AND 0x7f) + maskLenOf b1 \<le> length r"
      using assms two by (auto simp: DecodeHeader_Cons2 not_less split: if_splits)
    then have "decodeLength (b1 AND 0x7f) (r @ xs) = decodeLength (b1 AND 0x7f) r"
      by (auto simp: decodeLength_def extLenOf_def split: if_splits)
    moreover have "headerOf b0 b1 (r @ xs) l = headerOf b0 b1 r l" for l
      using r by (auto simp: headerOf_def maskLenOf_def)
    ultimately show ?thesis using two r
      by (simp add: DecodeHeader_Cons2 split: sum.split option.split)
  qed
qed

lemma DecodeHeader_long:
  assumes "MaxHeaderSize \<le> length b"
  shows "DecodeHeader b \<noteq> Inl ErrShortHeader"
proof (cases b rule: buffer_cases)
  case short
  then show ?thesis using assms by (simp add: MaxHeaderSize_def)
next
  case (two b0 b1 r)
  then have "extLenOf (b1 AND 0x7f) + maskLenOf b1 \<le> length r"
    using assms by (auto simp: MaxHeaderSize_def extLenOf_def maskLenOf_def)
  moreover have "decodeLength (b1 AND 0x7f) r \<noteq> Inl ErrShortHeader"
    by (simp add: decodeLength_def)
  ultimately show ?thesis using two
    by (auto simp: DecodeHeader_Cons2 controlCheck_def split: sum.split)
qed

section \<open>The table-driven decoder against the two-step one\<close>

lemma headerTables_nth: "headerTables compression ! unat b0 = classifyHeaderByte b0 compression"
  using unat_byte_less [of b0] by (simp add: headerTables_def)

definition rejectOf :: "frameErr \<Rightarrow> hdrReject" where
  "rejectOf e = (case e of
     ErrReservedOpcode \<Rightarrow> rejectReservedOpcode
   | ErrNonMinimalLength \<Rightarrow> rejectNonMinimalLength
   | ErrReservedLengthBit \<Rightarrow> rejectReservedLengthBit
   | ErrControlFrameFragmented \<Rightarrow> rejectControlFragmented
   | ErrControlFrameTooLong \<Rightarrow> rejectControlTooLong
   | _ \<Rightarrow> rejectShort)"

text \<open>
  The two-step formulation the table replaces: decode, then the RSV rule of RFC 7692 section 6.1
  (\<open>rsvAllowed\<close>), then the role's mask rule of RFC 6455 section 5.1.
\<close>

definition rsvAllowed :: "bool \<Rightarrow> Header \<Rightarrow> bool" where
  "rsvAllowed compression h \<longleftrightarrow> h_Rsv h = 0 \<or>
     compression \<and> h_Rsv h = RSV1 \<and> \<not> IsControl (h_Opcode h) \<and> h_Opcode h \<noteq> OpcodeContinuation"

definition decodeAndCheck :: "bool \<Rightarrow> bool \<Rightarrow> bytes \<Rightarrow> hdrReject + Header \<times> nat" where
  "decodeAndCheck client compression b =
     (case DecodeHeader b of
        Inl e \<Rightarrow> Inl (rejectOf e)
      | Inr (h, n) \<Rightarrow>
          if \<not> rsvAllowed compression h then Inl rejectRSV
          else if h_Masked h = client then Inl rejectMask
          else Inr (h, n))"

text \<open>The decoder as a connection of a given role and compression state calls it.\<close>

definition decodeFor :: "bool \<Rightarrow> bool \<Rightarrow> bytes \<Rightarrow> hdrReject + Header \<times> nat" where
  "decodeFor client compression b =
     (case headerTableFor client compression of (tbl, maskBit) \<Rightarrow>
        decodeFrameHeaderFast tbl maskBit b)"

lemma fast_Cons2:
  "decodeFor client compression (b0 # b1 # r) =
     (if reservedOpcode (b0 AND 0x0f) then Inl rejectReservedOpcode
      else if length r < extLenOf (b1 AND 0x7f) + maskLenOf b1 then Inl rejectShort
      else case decodeLength (b1 AND 0x7f) r of
        Inl e \<Rightarrow> Inl (rejectOf e)
      | Inr len \<Rightarrow> (case controlCheck (b0 AND 0x0f) (bit b0 7) len of
          Some e \<Rightarrow> Inl (rejectOf e)
        | None \<Rightarrow>
          if \<not> rsvAllowed compression (headerOf b0 b1 r len) then Inl rejectRSV
          else if bit b1 7 = client then Inl rejectMask
          else Inr (headerOf b0 b1 r len, 2 + extLenOf (b1 AND 0x7f) + maskLenOf b1)))"
  unfolding decodeFor_def headerTableFor_def decodeFrameHeaderFast_def and_80_nonzero top_bit_zero
  by (cases "b1 AND 0x7f = 126"; cases "b1 AND 0x7f = 127"; cases "bit b1 7"; cases client)
    (simp_all add: Let_def headerTables_nth classifyHeaderByte_def extLenOf_def decodeLength_def
      maskLenOf_def controlCheck_def headerOf_def rsvAllowed_def rejectOf_def and_80_cases)

lemma decodeFor_decodeAndCheck: "decodeFor client compression b = decodeAndCheck client compression b"
proof (cases b rule: buffer_cases)
  case short
  then show ?thesis
    by (simp add: decodeFor_def headerTableFor_def decodeFrameHeaderFast_def decodeAndCheck_def
        DecodeHeader_short rejectOf_def)
next
  case (two b0 b1 r)
  have "h_Masked (headerOf b0 b1 r len) = bit b1 7" for len by (simp add: headerOf_def)
  moreover have "rejectOf ErrReservedOpcode = rejectReservedOpcode"
    "rejectOf ErrShortHeader = rejectShort" by (simp_all add: rejectOf_def)
  ultimately show ?thesis unfolding two fast_Cons2 decodeAndCheck_def DecodeHeader_Cons2
    by (cases "decodeLength (b1 AND 0x7f) r"; cases "reservedOpcode (b0 AND 0x0f)";
        cases "length r < extLenOf (b1 AND 0x7f) + maskLenOf b1")
      (simp_all split: option.split)
qed

lemma decodeFor_accepts:
  assumes "decodeFor client compression b = Inr (h, n)"
  shows "DecodeHeader b = Inr (h, n) \<and> rsvAllowed compression h \<and> h_Masked h = (\<not> client)"
  using assms unfolding decodeFor_decodeAndCheck decodeAndCheck_def
  by (auto split: sum.splits if_splits)

lemma rejectOf_short: "rejectOf e = rejectShort \<Longrightarrow> e = ErrShortHeader \<or> e = ErrShortCloseBody"
  by (cases e) (auto simp: rejectOf_def)

lemma DecodeHeader_not_close: "DecodeHeader b \<noteq> Inl ErrShortCloseBody"
proof (cases b rule: buffer_cases)
  case short
  then show ?thesis by (simp add: DecodeHeader_short)
next
  case (two b0 b1 r)
  have "decodeLength lc r \<noteq> Inl ErrShortCloseBody" for lc by (simp add: decodeLength_def)
  then show ?thesis using two
    by (auto simp: DecodeHeader_Cons2 controlCheck_def split: sum.split)
qed

lemma decodeFor_short_iff:
  "decodeFor client compression b = Inl rejectShort \<longleftrightarrow> DecodeHeader b = Inl ErrShortHeader"
  using rejectOf_short DecodeHeader_not_close [of b]
  unfolding decodeFor_decodeAndCheck decodeAndCheck_def
  by (auto simp: rejectOf_def split: sum.splits if_splits frameErr.splits)

lemma decodeFor_extend:
  assumes "decodeFor client compression b \<noteq> Inl rejectShort"
  shows "decodeFor client compression (b @ xs) = decodeFor client compression b"
  using assms DecodeHeader_extend [of b xs] decodeFor_short_iff [of client compression b]
  unfolding decodeFor_decodeAndCheck decodeAndCheck_def by simp

lemma decodeFor_long: "MaxHeaderSize \<le> length b \<Longrightarrow> decodeFor client compression b \<noteq> Inl rejectShort"
  using DecodeHeader_long decodeFor_short_iff by blast

lemma decodeFor_AppendHeader:
  assumes "wfHeader h" "rsvAllowed compression h" "h_Masked h = (\<not> client)"
  shows "decodeFor client compression (AppendHeader [] h @ rest) =
    Inr (h, length (AppendHeader [] h))"
  using assms by (simp add: decodeFor_decodeAndCheck decodeAndCheck_def
      DecodeHeader_AppendHeader_aux)

lemma decodeFor_consumed:
  assumes "decodeFor client compression b = Inr (h, n)"
  shows "2 \<le> n \<and> n \<le> length b \<and> n \<le> MaxHeaderSize \<and> wfHeader h"
proof -
  have d: "DecodeHeader b = Inr (h, n)" using decodeFor_accepts [OF assms] by blast
  note c = DecodeHeader_canonical [OF d]
  then have "n = length (AppendHeader [] h)" by (metis length_take min.absorb2)
  then have "2 \<le> n" "n \<le> MaxHeaderSize"
    unfolding length_AppendHeader MaxHeaderSize_def by simp_all
  then show ?thesis using c by blast
qed

section \<open>Close codes and bodies\<close>

lemma ParseCloseBody_AppendCloseBody:
  "ParseCloseBody (AppendCloseBody [] code reason) = Inr (code, reason)"
  by (simp add: ParseCloseBody_def AppendCloseBody_def be_word_put_be)

lemma AppendCloseBody_ParseCloseBody:
  assumes "ParseCloseBody b = Inr (code, reason)" "b \<noteq> []"
  shows "AppendCloseBody [] code reason = b"
proof -
  have "length b \<noteq> 0" "length b \<noteq> 1" "code = be_word (take 2 b)" "reason = drop 2 b"
    using assms by (auto simp: ParseCloseBody_def split: if_splits)
  moreover from this have "2 \<le> length b" by linarith
  ultimately show ?thesis by (simp add: AppendCloseBody_def put_be_be_word)
qed

section \<open>Properties of the codec\<close>

text \<open>C31: Every well-formed header survives the wire. Whatever bytes follow it, decoding what
  \<open>AppendHeader\<close> wrote gives the same header back and consumes exactly the bytes written,
  whatever the buffer already held.\<close>

theorem header_roundtrip:
  assumes "wfHeader h"
  shows "\<exists>enc. AppendHeader dst h = dst @ enc \<and> length enc \<le> MaxHeaderSize \<and>
    DecodeHeader (enc @ rest) = Inr (h, length enc)"
proof (intro exI conjI)
  show "AppendHeader dst h = dst @ AppendHeader [] h" by (simp add: AppendHeader_parts)
  show "length (AppendHeader [] h) \<le> MaxHeaderSize"
    by (simp add: length_AppendHeader MaxHeaderSize_def)
  show "DecodeHeader (AppendHeader [] h @ rest) = Inr (h, length (AppendHeader [] h))"
    using assms by (rule DecodeHeader_AppendHeader_aux)
qed

theorem header_roundtrip_witness:
  "\<exists>enc. AppendHeader [1, 2] \<lparr>h_Fin = True, h_Rsv = 4, h_Opcode = 1, h_Masked = True,
      h_MaskKey = 0x04030201, h_Length = 70000\<rparr> = [1, 2] @ enc \<and> length enc \<le> MaxHeaderSize \<and>
    DecodeHeader (enc @ [9]) = Inr (\<lparr>h_Fin = True, h_Rsv = 4, h_Opcode = 1, h_Masked = True,
      h_MaskKey = 0x04030201, h_Length = 70000\<rparr>, length enc)"
  by (rule header_roundtrip) (simp add: wfHeader_def reservedOpcode_def IsControl_def word_le_def)

text \<open>The decoder accepts canonical encodings only. When \<open>DecodeHeader\<close> accepts, the header
  satisfies every wire rule of RFC 6455 sections 5.2 and 5.5 and re-encoding it gives exactly the
  bytes it was decoded from; so no two byte strings decode to the same header.\<close>

theorem header_canonical:
  assumes "DecodeHeader b = Inr (h, n)"
  shows "wfHeader h \<and> n \<le> length b \<and> AppendHeader [] h = take n b"
  using assms by (rule DecodeHeader_canonical)

theorem header_canonical_witness:
  "wfHeader \<lparr>h_Fin = True, h_Rsv = 0, h_Opcode = 2, h_Masked = False, h_MaskKey = 0,
      h_Length = 126\<rparr> \<and> 4 \<le> length [0x82, 126, 0, 126, 7 :: byte] \<and>
   AppendHeader [] \<lparr>h_Fin = True, h_Rsv = 0, h_Opcode = 2, h_Masked = False, h_MaskKey = 0,
      h_Length = 126\<rparr> = take 4 [0x82, 126, 0, 126, 7]"
  by (rule header_canonical)
    (simp add: DecodeHeader_def Let_def reservedOpcode_def IsControl_def be_word_def)

text \<open>C32: The table-driven decoder is the two-step decoder. For either role and with or without
  compression, the single-pass decoder over the precomputed tables returns the same header and
  count, or the same first violation, as \<open>DecodeHeader\<close> followed by the RSV check and the
  mask-role check.\<close>

theorem fast_decoder_equivalent:
  "decodeFrameHeaderFast (fst (headerTableFor client compression))
     (snd (headerTableFor client compression)) b =
   (case DecodeHeader b of
      Inl e \<Rightarrow> Inl (rejectOf e)
    | Inr (h, n) \<Rightarrow>
        if \<not> rsvAllowed compression h then Inl rejectRSV
        else if h_Masked h = client then Inl rejectMask
        else Inr (h, n))"
  using decodeFor_decodeAndCheck [of client compression b]
  by (simp add: decodeFor_def decodeAndCheck_def case_prod_beta)

text \<open>Decoding is resumable. An outcome other than "more bytes needed" is final: no bytes that
  arrive later change it; and fourteen bytes always decide.\<close>

theorem header_decode_resumable:
  assumes "MaxHeaderSize \<le> length b \<or> DecodeHeader b \<noteq> Inl ErrShortHeader"
  shows "DecodeHeader b \<noteq> Inl ErrShortHeader \<and> DecodeHeader (b @ xs) = DecodeHeader b"
  using assms DecodeHeader_extend [of b xs] DecodeHeader_long [of b] by blast

theorem header_decode_resumable_witness:
  "DecodeHeader [0x81, 0x05] \<noteq> Inl ErrShortHeader \<and>
   DecodeHeader ([0x81, 0x05] @ [104, 101]) = DecodeHeader [0x81, 0x05]"
  by (rule header_decode_resumable)
    (simp add: DecodeHeader_def Let_def reservedOpcode_def IsControl_def word_le_def)

text \<open>A Close body and its code and reason determine each other: parsing an encoded body gives
  the code and reason back, and every non-empty body that parses is the encoding of its parts.\<close>

theorem close_body_roundtrip:
  "ParseCloseBody (AppendCloseBody [] code reason) = Inr (code, reason) \<and>
   (case ParseCloseBody b of
      Inl e \<Rightarrow> e = ErrShortCloseBody \<and> length b = 1
    | Inr (c, r) \<Rightarrow> if b = [] then c = CloseNoStatusReceived else AppendCloseBody [] c r = b)"
proof (intro conjI)
  show "ParseCloseBody (AppendCloseBody [] code reason) = Inr (code, reason)"
    by (rule ParseCloseBody_AppendCloseBody)
  show "case ParseCloseBody b of
      Inl e \<Rightarrow> e = ErrShortCloseBody \<and> length b = 1
    | Inr (c, r) \<Rightarrow> if b = [] then c = CloseNoStatusReceived else AppendCloseBody [] c r = b"
    using AppendCloseBody_ParseCloseBody [of b]
    by (cases "ParseCloseBody b") (auto simp: ParseCloseBody_def split: if_splits)
qed

end
