(* ===== verification/Masking.thy ===== *)
theory Masking
  imports Gows_Prelude
begin

text \<open>
  Payload masking, \<^verbatim>\<open>src/internal/mask\<close>: the portable word loop, the SSE2, AVX2, AVX-512 and NEON
  kernels, and the size and CPU dispatch of the three builds. A kernel masks a slice in place and
  returns the key to resume with; here it returns the masked bytes and that key.

  The interface is the locale \<open>masker\<close>: masking XORs byte \<open>i\<close> with byte \<open>i mod 4\<close> of the
  little-endian key and returns the key rotated by the bytes consumed. Every build interprets it,
  and what the connection relies on (resumption across chunks, unmasking undoes masking, the length
  is kept) is proved once, inside it.
\<close>

section \<open>The loops\<close>

text \<open>The per-byte tail, \<^verbatim>\<open>for i := range b\<close>: XOR with the key's low byte, then rotate the key.\<close>

primrec maskTail :: "bytes \<Rightarrow> 32 word \<Rightarrow> bytes \<times> 32 word" where
  "maskTail [] key = ([], key)"
| "maskTail (x # xs) key =
     (let (ys, key') = maskTail xs (word_rotr 8 key) in ((x XOR ucast key) # ys, key'))"

text \<open>
  \<open>xorWords K m b\<close>: load \<open>m\<close> consecutive little-endian words (or vectors) of \<open>K\<close>'s width, XOR each
  with \<open>K\<close> and store it back; the result is the stored bytes and the rest of \<open>b\<close>.
\<close>

primrec xorWords :: "'a::len word \<Rightarrow> nat \<Rightarrow> bytes \<Rightarrow> bytes \<times> bytes" where
  "xorWords K 0 b = ([], b)"
| "xorWords K (Suc m) b =
     (let n = LENGTH('a) div 8;
          (ys, r) = xorWords K m (drop n b)
      in (put_le n (le_word (take n b) XOR K) @ ys, r))"

text \<open>\<open>xorLoop K m b\<close>: repeat that while a whole block of \<open>m\<close> words is left.\<close>

lemma xorWords_rest: "snd (xorWords (K :: 'a::len word) m b) = drop (m * (LENGTH('a) div 8)) b"
  by (induction m arbitrary: b) (simp_all add: Let_def case_prod_beta add.commute)

function xorLoop :: "'a::len word \<Rightarrow> nat \<Rightarrow> bytes \<Rightarrow> bytes \<times> bytes" where
  "xorLoop K m b =
     (if 0 < m * (LENGTH('a) div 8) \<and> m * (LENGTH('a) div 8) \<le> length b then
        let (ys, r) = xorWords K m b; (zs, r') = xorLoop K m r in (ys @ zs, r')
      else ([], b))"
  by pat_completeness auto
termination
proof (relation "measure (\<lambda>(K, m, b). length b)", simp, goal_cases)
  case (1 K m b p ys r)
  then have "r = drop (m * (LENGTH('a) div 8)) b"
    using xorWords_rest [of K m b] by (metis snd_conv)
  moreover have "length (drop k xs) < length xs" if "0 < k" "k \<le> length xs" for k and xs :: bytes
    using that by simp
  ultimately show ?case using 1(1) by simp
qed

declare xorLoop.simps [simp del]

definition key64Of :: "32 word \<Rightarrow> 64 word" where
  "key64Of key = ucast key OR push_bit 32 (ucast key)"

text \<open>The key in every 32-bit lane of a vector register (\<^verbatim>\<open>PSHUFD $0\<close>, \<^verbatim>\<open>VPBROADCASTD\<close>, \<^verbatim>\<open>VDUP\<close>).\<close>

definition broadcast :: "32 word \<Rightarrow> 'a::len word" where
  "broadcast key = le_word (concat (replicate (LENGTH('a) div 32) (put_le 4 key)))"

section \<open>The kernels\<close>

definition maskGeneric :: "bytes \<Rightarrow> 32 word \<Rightarrow> bytes \<times> 32 word" where
  "maskGeneric b key =
    (let (o1, b) =
       (if 8 \<le> length b then
          let key64 = key64Of key;
              (o128, b) = xorLoop key64 16 b;
              (o64, b) = (if 64 \<le> length b then xorWords key64 8 b else ([], b));
              (o32, b) = (if 32 \<le> length b then xorWords key64 4 b else ([], b));
              (o16, b) = (if 16 \<le> length b then xorWords key64 2 b else ([], b));
              (o8, b) = (if 8 \<le> length b then xorWords key64 1 b else ([], b))
          in (o128 @ o64 @ o32 @ o16 @ o8, b)
        else ([], b));
       (o2, key) = maskTail b key
     in (o1 @ o2, key))"

definition maskSSE2 :: "bytes \<Rightarrow> 32 word \<Rightarrow> bytes \<times> 32 word" where
  "maskSSE2 b key =
    (let (o64, b) = xorLoop (broadcast key :: 128 word) 4 b;
         (o16, b) = xorLoop (broadcast key :: 128 word) 1 b;
         (o8, b) = xorLoop (key64Of key) 1 b;
         (o1, key) = maskTail b key
     in (o64 @ o16 @ o8 @ o1, key))"

definition maskAVX2 :: "bytes \<Rightarrow> 32 word \<Rightarrow> bytes \<times> 32 word" where
  "maskAVX2 b key =
    (let (o128, b) = xorLoop (broadcast key :: 256 word) 4 b;
         (o32, b) = xorLoop (broadcast key :: 256 word) 1 b;
         (o16, b) = xorLoop (broadcast key :: 128 word) 1 b;
         (o8, b) = xorLoop (key64Of key) 1 b;
         (o1, key) = maskTail b key
     in (o128 @ o32 @ o16 @ o8 @ o1, key))"

definition maskAVX512 :: "bytes \<Rightarrow> 32 word \<Rightarrow> bytes \<times> 32 word" where
  "maskAVX512 b key =
    (let (o256, b) = xorLoop (broadcast key :: 512 word) 4 b;
         (o64, b) = xorLoop (broadcast key :: 512 word) 1 b;
         (o16, b) = xorLoop (broadcast key :: 128 word) 1 b;
         (o8, b) = xorLoop (key64Of key) 1 b;
         (o1, key) = maskTail b key
     in (o256 @ o64 @ o16 @ o8 @ o1, key))"

definition maskNEON :: "bytes \<Rightarrow> 32 word \<Rightarrow> bytes \<times> 32 word" where
  "maskNEON b key =
    (let (o64, b) = xorLoop (broadcast key :: 128 word) 4 b;
         (o16, b) = xorLoop (broadcast key :: 128 word) 1 b;
         (o8, b) = xorLoop (key64Of key) 1 b;
         (o1, key) = maskTail b key
     in (o64 @ o16 @ o8 @ o1, key))"

section \<open>The dispatch\<close>

definition thresholdSIMD :: nat where "thresholdSIMD = 64"
definition thresholdYMM :: nat where "thresholdYMM = 128"
definition thresholdZMM :: nat where "thresholdZMM = 4096"
definition thresholdZMMMax :: nat where "thresholdZMMMax = 65536"
definition thresholdNEON :: nat where "thresholdNEON = 32"

text \<open>The amd64 build; the flags are \<^verbatim>\<open>cpu.X86.HasAVX2\<close> and \<^verbatim>\<open>cpu.X86.HasAVX512\<close>.\<close>

definition Mask_amd64 :: "bool \<Rightarrow> bool \<Rightarrow> bytes \<Rightarrow> 32 word \<Rightarrow> bytes \<times> 32 word" where
  "Mask_amd64 hasAVX2 hasAVX512 b key =
    (let n = length b in
     if n < thresholdSIMD then maskGeneric b key
     else if hasAVX512 \<and> thresholdZMM \<le> n \<and> n < thresholdZMMMax then maskAVX512 b key
     else if hasAVX2 \<and> thresholdYMM \<le> n then maskAVX2 b key
     else maskSSE2 b key)"

definition Mask_arm64 :: "bool \<Rightarrow> bytes \<Rightarrow> 32 word \<Rightarrow> bytes \<times> 32 word" where
  "Mask_arm64 hasNEON b key =
    (if thresholdNEON \<le> length b \<and> hasNEON then maskNEON b key else maskGeneric b key)"

text \<open>The build without assembly, which the connection's model calls.\<close>

definition Mask :: "bytes \<Rightarrow> 32 word \<Rightarrow> bytes \<times> 32 word" where
  "Mask b key = maskGeneric b key"

section \<open>The key stream\<close>

text \<open>Byte \<open>i\<close> of the key stream: \<^verbatim>\<open>byte(key >> (8*(i%4)))\<close>.\<close>

definition keyByte :: "32 word \<Rightarrow> nat \<Rightarrow> byte" where
  "keyByte key i = ucast (drop_bit (8 * (i mod 4)) key)"

text \<open>What masking means: the reference every kernel is compared with.\<close>

definition maskSpec :: "bytes \<Rightarrow> 32 word \<Rightarrow> bytes \<times> 32 word" where
  "maskSpec b key = (map (\<lambda>i. b ! i XOR keyByte key i) [0..<length b], word_rotr (8 * length b) key)"

lemma bit_keyByte: "bit (keyByte key i) j \<longleftrightarrow> j < 8 \<and> bit key (8 * (i mod 4) + j)"
  by (simp add: keyByte_def bit_simps)

lemma bit_rotr: "bit (word_rotr n w) i \<longleftrightarrow> i < LENGTH('a) \<and> bit w ((i + n) mod LENGTH('a))"
  for w :: "'a::len word"
  by (simp add: bit_word_rotr_iff)

lemma rotr_add: "word_rotr m (word_rotr n (w :: 'a::len word)) = word_rotr (m + n) w"
  by (rule bit_word_eqI) (simp add: bit_rotr mod_simps add.assoc)

lemma rotr_period: "word_rotr n (w :: 32 word) = word_rotr (n mod 32) w"
  by (rule bit_word_eqI) (simp add: bit_rotr mod_simps)

lemma rotr_multiple: "n mod 32 = 0 \<Longrightarrow> word_rotr n (w :: 32 word) = w"
  by (rule bit_word_eqI) (use mod_add_right_eq [of _ n 32] in \<open>simp add: bit_rotr\<close>)

lemma mod32_split: "j < 8 \<Longrightarrow> (8 * m + j) mod 32 = 8 * (m mod 4) + (j :: nat)"
  using mod_mult2_eq [of "8 * m + j" 8 4] by simp

lemma keyByte_rotr: "keyByte (word_rotr (8 * n) key) i = keyByte key (i + n)"
proof (rule bit_word_eqI)
  fix j assume "j < LENGTH(8)"
  then have j: "j < 8" by simp
  have "(8 * (i mod 4) + j + 8 * n) mod 32 = 8 * ((i + n) mod 4) + j"
  proof -
    have "8 * (i mod 4) + j + 8 * n = 8 * (i mod 4 + n) + j" by simp
    moreover have "(i mod 4 + n) mod 4 = (i + n) mod 4" by (simp add: mod_simps)
    ultimately show ?thesis using mod32_split [OF j, of "i mod 4 + n"] by metis
  qed
  then show "bit (keyByte (word_rotr (8 * n) key) i) j = bit (keyByte key (i + n)) j"
    using j by (auto simp: bit_keyByte bit_rotr)
qed

lemma keyByte_mod: "keyByte key (i + n) = keyByte key i" if "n mod 4 = 0"
proof -
  have "(i + n) mod 4 = i mod 4" using that mod_add_right_eq [of i n 4] by simp
  then show ?thesis by (simp add: keyByte_def)
qed

lemma maskTail_Spec: "maskTail b key = maskSpec b key"
proof (induction b arbitrary: key)
  case Nil
  then show ?case by (simp add: maskSpec_def rotr_multiple)
next
  case (Cons x xs)
  have "keyByte (word_rotr 8 key) i = keyByte key (Suc i)" for i
    using keyByte_rotr [of 1 key i] by simp
  moreover have "keyByte key 0 = ucast key" by (simp add: keyByte_def)
  moreover have "[0..<length (x # xs)] = 0 # map Suc [0..<length xs]"
    by (simp add: map_Suc_upt upt_conv_Cons del: upt_Suc)
  ultimately show ?case
    by (simp add: Cons maskSpec_def rotr_add add.commute del: upt_Suc)
qed

lemma maskSpec_append:
  "maskSpec (a @ b) key =
     (fst (maskSpec a key) @ fst (maskSpec b (snd (maskSpec a key))),
      snd (maskSpec b (snd (maskSpec a key))))"
proof -
  have 1: "map (\<lambda>i. (a @ b) ! i XOR keyByte key i) [length a..<length a + length b] =
      map (\<lambda>i. b ! i XOR keyByte (word_rotr (8 * length a) key) i) [0..<length b]"
    by (rule nth_equalityI) (simp_all add: add.commute nth_append keyByte_rotr)
  have 2: "map (\<lambda>i. (a @ b) ! i XOR keyByte key i) [0..<length a] =
      map (\<lambda>i. a ! i XOR keyByte key i) [0..<length a]"
    by (simp add: nth_append)
  have "[0..<length a + length b] = [0..<length a] @ [length a..<length a + length b]"
    by (rule upt_add_eq_append) simp
  then have "map (\<lambda>i. (a @ b) ! i XOR keyByte key i) [0..<length (a @ b)] =
      map (\<lambda>i. a ! i XOR keyByte key i) [0..<length a] @
      map (\<lambda>i. b ! i XOR keyByte (word_rotr (8 * length a) key) i) [0..<length b]"
    by (simp only: length_append map_append 1 2)
  then show ?thesis by (simp add: maskSpec_def rotr_add add.commute algebra_simps)
qed

lemma maskSpec_block:
  "length a mod 4 = 0 \<Longrightarrow> snd (maskSpec a key) = key"
  unfolding maskSpec_def by simp (rule rotr_multiple, presburger)

text \<open>A word that repeats the key masks four bytes at a time.\<close>

definition repeatsKey :: "'a::len word \<Rightarrow> 32 word \<Rightarrow> bool" where
  "repeatsKey K key \<longleftrightarrow> LENGTH('a) mod 32 = 0 \<and> (\<forall>i < LENGTH('a). bit K i = bit key (i mod 32))"

lemma put_le_xor:
  fixes K :: "'a::len word"
  assumes "repeatsKey K key" "length b = LENGTH('a) div 8"
  shows "put_le (LENGTH('a) div 8) (le_word b XOR K) = fst (maskSpec b key)"
proof (rule nth_equalityI)
  let ?n = "LENGTH('a) div 8"
  show "length (put_le ?n (le_word b XOR K)) = length (fst (maskSpec b key))"
    using assms by (simp add: maskSpec_def)
  fix i assume "i < length (put_le ?n (le_word b XOR K))"
  then have i: "i < ?n" by simp
  show "put_le ?n (le_word b XOR K) ! i = fst (maskSpec b key) ! i"
  proof (rule bit_word_eqI)
    fix j assume "j < LENGTH(8)"
    then have j: "j < 8" by simp
    then have "8 * i + j < LENGTH('a)" using i by linarith
    moreover have "(8 * i + j) div 8 = i" "(8 * i + j) mod 8 = j" using j by auto
    ultimately show "bit (put_le ?n (le_word b XOR K) ! i) j = bit (fst (maskSpec b key) ! i) j"
      using i j assms mod32_split [OF j, of i]
      by (auto simp: nth_put_le bit_simps bit_le_word maskSpec_def bit_keyByte repeatsKey_def)
  qed
qed

section \<open>The loops mask a prefix\<close>

text \<open>
  \<open>maskedPrefix key b (ys, r)\<close>: \<open>ys\<close> is a masked prefix of \<open>b\<close>, a whole number of keys long, and
  \<open>r\<close> is what is left.
\<close>

definition maskedPrefix :: "32 word \<Rightarrow> bytes \<Rightarrow> bytes \<times> bytes \<Rightarrow> bool" where
  "maskedPrefix key b res \<longleftrightarrow>
     (\<exists>p. b = p @ snd res \<and> length p mod 4 = 0 \<and> fst res = fst (maskSpec p key))"

lemma maskedPrefix_none [intro]: "maskedPrefix key b ([], b)"
  by (simp add: maskedPrefix_def maskSpec_def)

lemma maskedPrefix_trans:
  assumes "maskedPrefix key b (ys, r)" "maskedPrefix key r (zs, r')"
  shows "maskedPrefix key b (ys @ zs, r')"
proof -
  obtain p q where "b = p @ r" "length p mod 4 = 0" "ys = fst (maskSpec p key)"
    "r = q @ r'" "length q mod 4 = 0" "zs = fst (maskSpec q key)"
    using assms by (auto simp: maskedPrefix_def)
  moreover have "(length p + length q) mod 4 = 0"
    using calculation(2,5) mod_add_eq [of "length p" 4 "length q"] by simp
  ultimately show ?thesis unfolding maskedPrefix_def
    by (intro exI [of _ "p @ q"]) (simp add: maskSpec_append maskSpec_block)
qed

lemma maskedPrefix_tail:
  assumes "maskedPrefix key b (ys, r)"
  shows "(let (zs, k) = maskTail r key in (ys @ zs, k)) = maskSpec b key"
  using assms unfolding maskedPrefix_def maskTail_Spec
  by (auto simp: maskSpec_append maskSpec_block case_prod_beta)

lemma maskedPrefix_xorWords:
  fixes K :: "'a::len word"
  assumes "repeatsKey K key" "m * (LENGTH('a) div 8) \<le> length b"
  shows "maskedPrefix key b (xorWords K m b)"
  using assms(2)
proof (induction m arbitrary: b)
  case 0
  then show ?case by (simp add: maskedPrefix_none)
next
  case (Suc m)
  let ?n = "LENGTH('a) div 8"
  obtain ys r where w: "xorWords K m (drop ?n b) = (ys, r)" by fastforce
  have n: "?n \<le> length b" "m * ?n \<le> length (drop ?n b)" using Suc.prems by auto
  have "LENGTH('a) mod 32 = 0" using assms(1) by (simp add: repeatsKey_def)
  then have "?n mod 4 = 0" by presburger
  then have "maskedPrefix key b (put_le ?n (le_word (take ?n b) XOR K), drop ?n b)"
    unfolding maskedPrefix_def using put_le_xor [OF assms(1), of "take ?n b"] n(1)
    by (intro exI [of _ "take ?n b"]) (simp add: min_absorb2)
  moreover have "maskedPrefix key (drop ?n b) (ys, r)" using Suc.IH [OF n(2)] w by simp
  ultimately show ?case using w maskedPrefix_trans by (simp add: Let_def)
qed

lemma maskedPrefix_xorLoop:
  fixes K :: "'a::len word"
  assumes "repeatsKey K key"
  shows "maskedPrefix key b (xorLoop K m b)"
  using assms
proof (induction K m b rule: xorLoop.induct)
  case (1 K m b)
  show ?case
  proof (cases "0 < m * (LENGTH('a) div 8) \<and> m * (LENGTH('a) div 8) \<le> length b")
    case True
    obtain ys r zs r' where w: "xorWords K m b = (ys, r)" "xorLoop K m r = (zs, r')" by fastforce
    have "maskedPrefix key b (ys, r)" using maskedPrefix_xorWords [OF 1(2)] True w by metis
    moreover have "maskedPrefix key r (zs, r')" using 1 True w by metis
    ultimately show ?thesis using True w maskedPrefix_trans by (subst xorLoop.simps) simp
  next
    case False
    then have "xorLoop K m b = ([], b)" by (subst xorLoop.simps) (simp only: if_False)
    then show ?thesis by (simp add: maskedPrefix_none)
  qed
qed

lemma repeatsKey_64: "repeatsKey (key64Of key) key"
proof -
  have "bit (key64Of key) i = bit key (i mod 32)" if "i < 64" for i
  proof (cases "i < 32")
    case True
    then show ?thesis by (simp add: key64Of_def bit_simps)
  next
    case False
    then have "i mod 32 = i - 32" using that by (simp add: mod_if)
    then show ?thesis using False that bit_imp_le_length [of key i]
      by (auto simp: key64Of_def bit_simps)
  qed
  then show ?thesis by (simp add: repeatsKey_def)
qed

lemma nth_concat_replicate:
  "i < n * length xs \<Longrightarrow> concat (replicate n xs) ! i = xs ! (i mod length xs)"
proof (induction n arbitrary: i)
  case (Suc n)
  then show ?case by (cases "i < length xs") (simp_all add: nth_append le_mod_geq)
qed simp

lemma repeatsKey_broadcast:
  assumes "LENGTH('a::len) mod 32 = 0"
  shows "repeatsKey (broadcast key :: 'a word) key"
proof -
  have "bit (broadcast key :: 'a word) i = bit key (i mod 32)" if i: "i < LENGTH('a)" for i
  proof -
    have l: "length (concat (replicate n xs)) = n * length xs" for n and xs :: bytes
      by (induction n) simp_all
    have "LENGTH('a) = 32 * (LENGTH('a) div 32)" using assms by presburger
    then have "i div 8 < LENGTH('a) div 32 * 4" using i by linarith
    moreover have "8 * (i div 8 mod 4) + i mod 8 = i mod 32" using mod_mult2_eq [of i 8 4] by simp
    ultimately show ?thesis
      using i by (simp add: broadcast_def bit_le_word l nth_concat_replicate nth_put_le bit_simps)
  qed
  then show ?thesis using assms by (simp add: repeatsKey_def)
qed

section \<open>Every kernel computes the reference\<close>

lemmas maskedPrefix_words = maskedPrefix_xorWords [OF repeatsKey_64]
lemmas maskedPrefix_loops = maskedPrefix_xorLoop [OF repeatsKey_64]
  maskedPrefix_xorLoop [OF repeatsKey_broadcast [where 'a = 128]]
  maskedPrefix_xorLoop [OF repeatsKey_broadcast [where 'a = 256]]
  maskedPrefix_xorLoop [OF repeatsKey_broadcast [where 'a = 512]]

lemma maskedPrefix_if:
  "(c \<Longrightarrow> maskedPrefix key b x) \<Longrightarrow> maskedPrefix key b (if c then x else ([], b))"
  by (simp add: maskedPrefix_none)

lemma maskGeneric_Spec: "maskGeneric b key = maskSpec b key"
proof (cases "8 \<le> length b")
  case False
  then show ?thesis by (simp add: maskGeneric_def maskTail_Spec case_prod_beta)
next
  case True
  let ?K = "key64Of key"
  obtain o1 b1 where 1: "xorLoop ?K 16 b = (o1, b1)" by fastforce
  obtain o2 b2 where 2: "(if 64 \<le> length b1 then xorWords ?K 8 b1 else ([], b1)) = (o2, b2)"
    by fastforce
  obtain o3 b3 where 3: "(if 32 \<le> length b2 then xorWords ?K 4 b2 else ([], b2)) = (o3, b3)"
    by fastforce
  obtain o4 b4 where 4: "(if 16 \<le> length b3 then xorWords ?K 2 b3 else ([], b3)) = (o4, b4)"
    by fastforce
  obtain o5 b5 where 5: "(if 8 \<le> length b4 then xorWords ?K 1 b4 else ([], b4)) = (o5, b5)"
    by fastforce
  have "maskedPrefix key b (o1, b1)" using maskedPrefix_loops(1) 1 by metis
  moreover have "maskedPrefix key b1 (o2, b2)" unfolding 2 [symmetric]
    by (intro maskedPrefix_if maskedPrefix_words) simp
  moreover have "maskedPrefix key b2 (o3, b3)" unfolding 3 [symmetric]
    by (intro maskedPrefix_if maskedPrefix_words) simp
  moreover have "maskedPrefix key b3 (o4, b4)" unfolding 4 [symmetric]
    by (intro maskedPrefix_if maskedPrefix_words) simp
  moreover have "maskedPrefix key b4 (o5, b5)" unfolding 5 [symmetric]
    by (intro maskedPrefix_if maskedPrefix_words) simp
  ultimately have "maskedPrefix key b (o1 @ o2 @ o3 @ o4 @ o5, b5)"
    by (intro maskedPrefix_trans [of key b o1 b1] maskedPrefix_trans [of key b1 o2 b2]
        maskedPrefix_trans [of key b2 o3 b3] maskedPrefix_trans [of key b3 o4 b4])
  from maskedPrefix_tail [OF this] show ?thesis
    unfolding maskGeneric_def Let_def
    by (simp only: 1 2 3 4 5 True if_True prod.case append_assoc)
qed

text \<open>The vector kernels: a first loop, any number of narrower loops, then the bytes.\<close>

lemma mask_three_loops:
  assumes "\<And>b. maskedPrefix key b (f b)" "\<And>b. maskedPrefix key b (g b)"
    "\<And>b. maskedPrefix key b (h b)"
  shows "(let (o1, b) = f b; (o2, b) = g b; (o3, b) = h b; (o4, key) = maskTail b key
     in (o1 @ o2 @ o3 @ o4, key)) = maskSpec b key"
proof -
  obtain o1 b1 o2 b2 o3 b3 where f: "f b = (o1, b1)" "g b1 = (o2, b2)" "h b2 = (o3, b3)" by fastforce
  then have "maskedPrefix key b (o1 @ o2 @ o3, b3)"
    using assms maskedPrefix_trans by metis
  from maskedPrefix_tail [OF this] show ?thesis by (simp add: f case_prod_beta)
qed

lemma mask_four_loops:
  assumes "\<And>b. maskedPrefix key b (e b)" "\<And>b. maskedPrefix key b (f b)"
    "\<And>b. maskedPrefix key b (g b)" "\<And>b. maskedPrefix key b (h b)"
  shows "(let (o0, b) = e b; (o1, b) = f b; (o2, b) = g b; (o3, b) = h b; (o4, key) = maskTail b key
     in (o0 @ o1 @ o2 @ o3 @ o4, key)) = maskSpec b key"
proof -
  obtain o0 b0 where e: "e b = (o0, b0)" by fastforce
  have "maskSpec b key = (o0 @ fst (maskSpec b0 key), snd (maskSpec b0 key))"
    using assms(1) [of b] e by (auto simp: maskedPrefix_def maskSpec_append maskSpec_block)
  then show ?thesis using mask_three_loops [OF assms(2-4), of b0, symmetric] e
    by (simp add: case_prod_beta)
qed

lemma maskSSE2_Spec: "maskSSE2 b key = maskSpec b key"
  unfolding maskSSE2_def by (rule mask_three_loops) (simp_all add: maskedPrefix_loops)

lemma maskNEON_Spec: "maskNEON b key = maskSpec b key"
  unfolding maskNEON_def by (rule mask_three_loops) (simp_all add: maskedPrefix_loops)

lemma maskAVX2_Spec: "maskAVX2 b key = maskSpec b key"
  unfolding maskAVX2_def by (rule mask_four_loops) (simp_all add: maskedPrefix_loops)

lemma maskAVX512_Spec: "maskAVX512 b key = maskSpec b key"
  unfolding maskAVX512_def by (rule mask_four_loops) (simp_all add: maskedPrefix_loops)

lemmas kernel_Specs = maskGeneric_Spec maskSSE2_Spec maskNEON_Spec maskAVX2_Spec maskAVX512_Spec

section \<open>The contract of a masker\<close>

locale masker =
  fixes mask :: "bytes \<Rightarrow> 32 word \<Rightarrow> bytes \<times> 32 word"
  assumes length_masked: "length (fst (mask b key)) = length b"
    and nth_masked: "i < length b \<Longrightarrow> fst (mask b key) ! i = b ! i XOR keyByte key i"
    and resume_key: "snd (mask b key) = word_rotr (8 * length b) key"
begin

lemma masked_bytes: "fst (mask b key) = map (\<lambda>i. b ! i XOR keyByte key i) [0..<length b]"
  by (rule nth_equalityI) (simp_all add: length_masked nth_masked)

lemma meets_Spec: "mask b key = maskSpec b key"
  by (rule prod_eqI) (simp_all add: maskSpec_def masked_bytes resume_key)

lemma resumable:
  "mask (a @ b) key =
     (let (a', key') = mask a key; (b', key'') = mask b key' in (a' @ b', key''))"
  by (simp add: meets_Spec maskSpec_append case_prod_beta)

lemma involution: "fst (mask (fst (mask b key)) key) = b"
  by (rule nth_equalityI) (simp_all add: length_masked nth_masked xor.assoc)

lemma zero_key: "fst (mask b 0) = b"
  by (rule nth_equalityI) (simp_all add: length_masked nth_masked keyByte_def)

end

lemma masker_Spec: "masker maskSpec"
  by unfold_locales (simp_all add: maskSpec_def)

interpretation amd64: masker "Mask_amd64 hasAVX2 hasAVX512" for hasAVX2 hasAVX512
  by unfold_locales (simp_all add: Mask_amd64_def Let_def kernel_Specs maskSpec_def)

interpretation arm64: masker "Mask_arm64 hasNEON" for hasNEON
  by unfold_locales (simp_all add: Mask_arm64_def kernel_Specs maskSpec_def)

interpretation purego: masker Mask
  by unfold_locales (simp_all add: Mask_def kernel_Specs maskSpec_def)

section \<open>Properties of masking\<close>

text \<open>C33: Every build masks the same way. The portable loop, the amd64 dispatch under any CPU
  features and the arm64 dispatch all XOR byte \<open>i\<close> with byte \<open>i mod 4\<close> of the key and return the key
  rotated right by eight bits per byte.\<close>

theorem mask_builds_agree:
  "Mask_amd64 hasAVX2 hasAVX512 b key = maskSpec b key \<and>
   Mask_arm64 hasNEON b key = maskSpec b key \<and> Mask b key = maskSpec b key"
  by (simp add: amd64.meets_Spec arm64.meets_Spec purego.meets_Spec)

text \<open>Masking resumes across chunks. Masking a payload in two pieces, the second with the key
  the first returned, gives the bytes and the key of masking it whole, in the portable build and in
  the amd64 build.\<close>

theorem mask_resumable:
  "Mask (a @ b) key = (let (a', key') = Mask a key; (b', key'') = Mask b key' in (a' @ b', key'')) \<and>
   Mask_amd64 hasAVX2 hasAVX512 (a @ b) key =
     (let (a', key') = Mask_amd64 hasAVX2 hasAVX512 a key;
          (b', key'') = Mask_amd64 hasAVX2 hasAVX512 b key' in (a' @ b', key''))"
  by (intro conjI purego.resumable amd64.resumable)

text \<open>Unmasking undoes masking: with the same key, masking twice gives the payload back, also
  when the two ends run different builds.\<close>

theorem mask_involution:
  "fst (Mask (fst (Mask b key)) key) = b \<and>
   fst (Mask_arm64 hasNEON (fst (Mask_amd64 hasAVX2 hasAVX512 b key)) key) = b"
  using purego.involution [of b key]
  by (simp add: purego.meets_Spec amd64.meets_Spec arm64.meets_Spec)

end
