(* ===== verification/Utf8x.thy ===== *)
theory Utf8x
  imports Gows_Prelude
begin

text \<open>
  Incremental UTF-8 validation, \<^verbatim>\<open>src/internal/utf8x/valid.go\<close> and the no-op bulk validator of
  \<^verbatim>\<open>valid_simd_generic.go\<close>. The validator is a byte-level automaton with an ASCII word fast path and
  an optional bulk validator; the locale \<open>bulk_validator\<close> states what \<^verbatim>\<open>Feed\<close> relies on in the
  latter, and the properties hold for every function that keeps it.

  The lemmas show that \<^verbatim>\<open>Feed\<close> computes the automaton whatever fast paths engage, that cutting a
  message into chunks never changes the verdict, and that the accepted strings are exactly the
  concatenations of shortest-form encodings of Unicode scalar values.
\<close>

section \<open>The automaton\<close>

datatype dfaState =
    accept | reject | want1 | want2 | want2AfterE0 | want2AfterED
  | want3 | want3AfterF0 | want3AfterF4

definition asciiHighBits :: "64 word" where
  "asciiHighBits = 0x8080808080808080"

fun step :: "dfaState \<Rightarrow> byte \<Rightarrow> dfaState" where
  "step accept b =
     (if b < 0x80 then accept
      else if b < 0xC2 then reject
      else if b < 0xE0 then want1
      else if b = 0xE0 then want2AfterE0
      else if b < 0xED then want2
      else if b = 0xED then want2AfterED
      else if b < 0xF0 then want2
      else if b = 0xF0 then want3AfterF0
      else if b < 0xF4 then want3
      else if b = 0xF4 then want3AfterF4
      else reject)"
| "step want1 b = (if b < 0x80 \<or> b > 0xBF then reject else accept)"
| "step want2 b = (if b < 0x80 \<or> b > 0xBF then reject else want1)"
| "step want2AfterE0 b = (if b < 0xA0 \<or> b > 0xBF then reject else want1)"
| "step want2AfterED b = (if b < 0x80 \<or> b > 0x9F then reject else want1)"
| "step want3 b = (if b < 0x80 \<or> b > 0xBF then reject else want2)"
| "step want3AfterF0 b = (if b < 0x90 \<or> b > 0xBF then reject else want2)"
| "step want3AfterF4 b = (if b < 0x80 \<or> b > 0x8F then reject else want2)"
| "step reject b = reject"

declare step.simps [simp del]

lemma step_reject [simp]: "step reject b = reject"
  by (simp add: step.simps)

lemma step_ascii [simp]: "b < 0x80 \<Longrightarrow> step accept b = accept"
  by (simp add: step.simps)

section \<open>The validator\<close>

text \<open>The struct \<^verbatim>\<open>Validator\<close> holds the automaton state and nothing else.\<close>

record Validator =
  v_state :: dfaState

definition newValidator :: Validator where
  "newValidator = \<lparr>v_state = accept\<rparr>"

text \<open>The ASCII word fast path: skip eight bytes at a time while no byte has its high bit set.\<close>

function skipASCII :: "bytes \<Rightarrow> bytes" where
  "skipASCII b =
     (if 8 \<le> length b \<and> (le_word (take 8 b) :: 64 word) AND asciiHighBits = 0
      then skipASCII (drop 8 b) else b)"
  by pat_completeness auto
termination by (relation "measure length") auto

declare skipASCII.simps [simp del]

lemma length_skipASCII: "length (skipASCII b) \<le> length b"
  by (induction b rule: skipASCII.induct) (subst skipASCII.simps, auto)

text \<open>
  The loop of \<^verbatim>\<open>Feed\<close> on the bytes from \<^verbatim>\<open>i\<close> on; the result is the state left behind and what
  \<^verbatim>\<open>Feed\<close> returns. \<open>simdBulk\<close> is the build's bulk validator.
\<close>

function feedLoop :: "(bytes \<Rightarrow> int) \<Rightarrow> dfaState \<Rightarrow> bytes \<Rightarrow> dfaState \<times> bool" where
  "feedLoop simdBulk st b =
     (if b = [] then (st, True)
      else
        let b' = (if st = accept then skipASCII b else b) in
        if b' = [] then (st, True)
        else
          let n = (if st = accept then simdBulk b' else 0) in
          if n < 0 then (reject, False)
          else if n > 0 then feedLoop simdBulk st (drop (nat n) b')
          else
            let st' = step st (hd b') in
            if st' = reject then (reject, False)
            else feedLoop simdBulk st' (tl b'))"
  by pat_completeness auto
termination
proof (relation "measure (\<lambda>(_, _, b). length b)", simp_all, goal_cases)
  case (1 simdBulk st b)
  then show ?case using length_skipASCII [of b]
    by (cases "st = accept") (auto intro!: less_le_trans [OF diff_less])
next
  case (2 simdBulk st b)
  then show ?case using length_skipASCII [of b]
    by (cases "st = accept") (auto intro!: less_le_trans [OF diff_less])
qed

declare feedLoop.simps [simp del]

definition Feed :: "(bytes \<Rightarrow> int) \<Rightarrow> Validator \<Rightarrow> bytes \<Rightarrow> Validator \<times> bool" where
  "Feed simdBulk v b =
     (if v_state v = reject then (v, False)
      else let (st, ok) = feedLoop simdBulk (v_state v) b in (v\<lparr>v_state := st\<rparr>, ok))"

definition Done :: "Validator \<Rightarrow> bool" where
  "Done v \<longleftrightarrow> v_state v = accept"

definition Reset :: "Validator \<Rightarrow> Validator" where
  "Reset v = v\<lparr>v_state := accept\<rparr>"

definition Valid :: "(bytes \<Rightarrow> int) \<Rightarrow> bytes \<Rightarrow> bool" where
  "Valid simdBulk b = (let (v, ok) = Feed simdBulk newValidator b in ok \<and> Done v)"

text \<open>The bulk validator of builds without a kernel: it never engages.\<close>

definition simdBulk_generic :: "bytes \<Rightarrow> int" where
  "simdBulk_generic b = 0"

section \<open>Runs of the automaton\<close>

definition run :: "dfaState \<Rightarrow> bytes \<Rightarrow> dfaState" where
  "run st b = foldl step st b"

lemma run_Nil [simp]: "run st [] = st"
  by (simp add: run_def)

lemma run_Cons [simp]: "run st (x # xs) = run (step st x) xs"
  by (simp add: run_def)

lemma run_append: "run st (a @ b) = run (run st a) b"
  by (simp add: run_def)

lemma run_reject [simp]: "run reject b = reject"
  by (induction b) simp_all

lemma run_ascii: "(\<forall>x \<in> set b. x < 0x80) \<Longrightarrow> run accept b = accept"
  by (induction b) simp_all

lemma bit_asciiHighBits: "i < 64 \<Longrightarrow> bit asciiHighBits i \<longleftrightarrow> i mod 8 = 7"
proof -
  have "\<forall>i \<in> set [0..<64]. bit asciiHighBits i \<longleftrightarrow> i mod 8 = 7"
    by (simp add: asciiHighBits_def upt_rec)
  then show "i < 64 \<Longrightarrow> bit asciiHighBits i \<longleftrightarrow> i mod 8 = 7" by simp
qed

lemma byte_ascii_iff: "(x :: byte) < 0x80 \<longleftrightarrow> \<not> bit x 7"
proof -
  have "bit x 7 \<longleftrightarrow> odd (uint x div 128)"
    using bit_uint_iff [of x 7] bit_iff_odd [of "uint x" 7] by simp
  moreover have "uint x div 128 = 0 \<longleftrightarrow> uint x < 128" "uint x div 128 = 0 \<or> uint x div 128 = 1"
    using byte_less_256 [of x] by auto
  moreover have "x < 0x80 \<longleftrightarrow> uint x < 128" by (simp add: word_less_def)
  ultimately show ?thesis by auto
qed

lemma ascii_word:
  assumes "length b = 8" "(le_word b :: 64 word) AND asciiHighBits = 0"
  shows "\<forall>x \<in> set b. x < 0x80"
proof (intro ballI, unfold byte_ascii_iff, rule notI)
  fix x assume "x \<in> set b" and x: "bit x 7"
  then obtain i where i: "i < 8" "b ! i = x" using assms(1) by (metis in_set_conv_nth)
  have "(8 * i + 7) div 8 = i" "(8 * i + 7) mod 8 = 7" "8 * i + 7 < 64" using i(1) by auto
  then have "bit ((le_word b :: 64 word) AND asciiHighBits) (8 * i + 7)"
    using i x assms(1) by (simp add: bit_simps bit_le_word bit_asciiHighBits)
  then show False using assms(2) by simp
qed

lemma run_skipASCII: "run accept (skipASCII b) = run accept b"
proof (induction b rule: skipASCII.induct)
  case (1 b)
  show ?case
  proof (cases "8 \<le> length b \<and> (le_word (take 8 b) :: 64 word) AND asciiHighBits = 0")
    case True
    then have "run accept (take 8 b) = accept" by (intro run_ascii ascii_word) simp_all
    then have "run accept (drop 8 b) = run accept b"
      using run_append [of accept "take 8 b" "drop 8 b"] by simp
    then show ?thesis using True 1 by (subst skipASCII.simps) simp
  next
    case False
    then have "skipASCII b = b" by (subst skipASCII.simps) (simp only: if_False)
    then show ?thesis by simp
  qed
qed

section \<open>The contract of a bulk validator\<close>

text \<open>
  What \<^verbatim>\<open>Feed\<close> relies on, from a sequence boundary: a negative answer only for bytes no valid text
  starts with, and a positive answer \<open>n\<close> only when the first \<open>n\<close> bytes are whole sequences.
\<close>

locale bulk_validator =
  fixes bulk :: "bytes \<Rightarrow> int"
  assumes bulk_rejects: "bulk b < 0 \<Longrightarrow> run accept b = reject"
    and bulk_advances: "0 < bulk b \<Longrightarrow> run accept (take (nat (bulk b)) b) = accept"
begin

lemma feedLoop_run:
  "st \<noteq> reject \<Longrightarrow> feedLoop bulk st b = (run st b, run st b \<noteq> reject)"
proof (induction "length b" arbitrary: st b rule: less_induct)
  case less
  define b' where "b' = (if st = accept then skipASCII b else b)"
  define n where "n = (if st = accept then bulk b' else 0)"
  have b': "run st b' = run st b" "length b' \<le> length b"
    by (simp_all add: b'_def run_skipASCII length_skipASCII)
  have unfold: "feedLoop bulk st b =
     (if b = [] then (st, True) else if b' = [] then (st, True)
      else if n < 0 then (reject, False)
      else if n > 0 then feedLoop bulk st (drop (nat n) b')
      else if step st (hd b') = reject then (reject, False)
      else feedLoop bulk (step st (hd b')) (tl b'))"
    unfolding feedLoop.simps [of bulk st b] Let_def b'_def [symmetric] n_def [symmetric] ..
  consider "b = [] \<or> b' = []" | "b' \<noteq> []" "b \<noteq> []" "n < 0" | "b' \<noteq> []" "b \<noteq> []" "n > 0"
    | "b' \<noteq> []" "b \<noteq> []" "n = 0" by linarith
  then show ?case
  proof cases
    case 1
    then show ?thesis using unfold b' less.prems by (cases "b = []") (auto simp: b'_def)
  next
    case 2
    then have "run st b' = reject" using bulk_rejects by (simp add: n_def split: if_splits)
    then show ?thesis using 2 unfold b' by simp
  next
    case 3
    then have st: "st = accept" "run accept (take (nat n) b') = accept"
      using bulk_advances [of b'] by (auto simp: n_def split: if_splits)
    have "run st (drop (nat n) b') = run st b'"
      using run_append [of accept "take (nat n) b'" "drop (nat n) b'"] st by simp
    moreover have "length (drop (nat n) b') < length b"
      using 3 b'(2) by (simp add: less_le_trans [OF diff_less])
    ultimately show ?thesis using 3 unfold less.hyps [of "drop (nat n) b'" st] less.prems b'(1) by simp
  next
    case 4
    then obtain x xs where x: "b' = x # xs" by (cases b') auto
    then have "length xs < length b" using b'(2) by simp
    then show ?thesis using 4 x unfold less.hyps [of xs "step st x"] b'(1) by auto
  qed
qed

lemma Feed_run:
  "v_state v \<noteq> reject \<Longrightarrow> Feed bulk v b = (v\<lparr>v_state := run (v_state v) b\<rparr>, run (v_state v) b \<noteq> reject)"
  using feedLoop_run [of "v_state v" b] by (simp add: Feed_def)

lemma Feed_general:
  "Feed bulk v b = (v\<lparr>v_state := run (v_state v) b\<rparr>, run (v_state v) b \<noteq> reject)"
proof (cases "v_state v = reject")
  case True
  then show ?thesis by (simp add: Feed_def)
qed (rule Feed_run)

lemma Feed_append:
  "Feed bulk v (a @ b) = (let (v', ok) = Feed bulk v a; (v'', ok') = Feed bulk v' b in (v'', ok \<and> ok'))"
  by (auto simp: Feed_general run_append)

lemma Valid_run: "Valid bulk b \<longleftrightarrow> run accept b = accept"
  by (auto simp: Valid_def Feed_general Done_def newValidator_def)

end

interpretation generic: bulk_validator simdBulk_generic
  by unfold_locales (simp_all add: simdBulk_generic_def)

section \<open>Unicode scalar values\<close>

text \<open>
  A scalar value is a code point that is no surrogate; \<open>encodeRune\<close> is its shortest-form encoding
  (RFC 3629 section 3).
\<close>

definition scalar :: "nat \<Rightarrow> bool" where
  "scalar c \<longleftrightarrow> c < 0xD800 \<or> 0xE000 \<le> c \<and> c < 0x110000"

definition encodeRune :: "nat \<Rightarrow> bytes" where
  "encodeRune c =
     map word_of_nat
      (if c < 0x80 then [c]
       else if c < 0x800 then [0xC0 + c div 64, 0x80 + c mod 64]
       else if c < 0x10000 then [0xE0 + c div 4096, 0x80 + c div 64 mod 64, 0x80 + c mod 64]
       else [0xF0 + c div 262144, 0x80 + c div 4096 mod 64, 0x80 + c div 64 mod 64, 0x80 + c mod 64])"

lemma unat_byte: "n < 256 \<Longrightarrow> unat (word_of_nat n :: byte) = n"
  by (simp add: unat_of_nat)

lemma byte_less_iff: "n < 256 \<Longrightarrow> (word_of_nat n :: byte) < b \<longleftrightarrow> n < unat b"
  "n < 256 \<Longrightarrow> b < (word_of_nat n :: byte) \<longleftrightarrow> unat b < n"
  by (simp_all add: word_less_nat_alt unat_byte)

lemma byte_eq_iff: "n < 256 \<Longrightarrow> (word_of_nat n :: byte) = b \<longleftrightarrow> n = unat b"
  by (auto simp: unat_byte)

text \<open>The automaton on byte values.\<close>

lemma step_nat:
  assumes "n < 256"
  shows "step accept (word_of_nat n) =
     (if n < 128 then accept else if n < 194 then reject else if n < 224 then want1
      else if n = 224 then want2AfterE0 else if n < 237 then want2 else if n = 237 then want2AfterED
      else if n < 240 then want2 else if n = 240 then want3AfterF0 else if n < 244 then want3
      else if n = 244 then want3AfterF4 else reject)"
    "step want1 (word_of_nat n) = (if 128 \<le> n \<and> n < 192 then accept else reject)"
    "step want2 (word_of_nat n) = (if 128 \<le> n \<and> n < 192 then want1 else reject)"
    "step want2AfterE0 (word_of_nat n) = (if 160 \<le> n \<and> n < 192 then want1 else reject)"
    "step want2AfterED (word_of_nat n) = (if 128 \<le> n \<and> n < 160 then want1 else reject)"
    "step want3 (word_of_nat n) = (if 128 \<le> n \<and> n < 192 then want2 else reject)"
    "step want3AfterF0 (word_of_nat n) = (if 144 \<le> n \<and> n < 192 then want2 else reject)"
    "step want3AfterF4 (word_of_nat n) = (if 128 \<le> n \<and> n < 144 then want2 else reject)"
  using assms by (auto simp: step.simps byte_less_iff byte_eq_iff)

lemma run_encodeRune:
  assumes "scalar c"
  shows "run accept (encodeRune c) = accept"
proof -
  consider "c < 128" | "128 \<le> c" "c < 2048" | "2048 \<le> c" "c < 65536" "c < 55296 \<or> 57344 \<le> c"
    | "65536 \<le> c" "c < 1114112"
    using assms unfolding scalar_def by linarith
  then show ?thesis
  proof cases
    case 1
    then show ?thesis by (simp add: encodeRune_def step_nat del: of_nat_add)
  next
    case 2
    then have "2 \<le> c div 64" "c div 64 < 32" by (auto simp: less_mult_imp_div_less div_less_mono)
    then show ?thesis using 2 by (simp add: encodeRune_def step_nat del: of_nat_add)
  next
    case 3
    have d: "c div 4096 = c div 64 div 64" using div_mult2_eq [of c 64 64] by simp
    have "c div 64 = c div 64 div 64 * 64 + c div 64 mod 64" by simp
    moreover have "32 \<le> c div 64" "c div 64 < 1024" "c div 64 < 864 \<or> 896 \<le> c div 64"
      using 3 by linarith+
    ultimately have "c div 64 div 64 < 16" "c div 64 div 64 = 0 \<Longrightarrow> 32 \<le> c div 64 mod 64"
      "c div 64 div 64 = 13 \<Longrightarrow> c div 64 mod 64 < 32"
      by linarith+
    moreover have "c div 64 mod 64 < 64" "c mod 64 < 64" by simp_all
    ultimately show ?thesis using 3 unfolding encodeRune_def d
      by (simp add: step_nat div_greater_zero_iff del: of_nat_add)
  next
    case 4
    have d: "c div 262144 = c div 4096 div 64" using div_mult2_eq [of c 4096 64] by simp
    have "c div 4096 = c div 4096 div 64 * 64 + c div 4096 mod 64" by simp
    moreover have "16 \<le> c div 4096" "c div 4096 < 272" using 4 by linarith+
    ultimately have "c div 4096 div 64 < 5" "c div 4096 div 64 = 0 \<Longrightarrow> 16 \<le> c div 4096 mod 64"
      "c div 4096 div 64 = 4 \<Longrightarrow> c div 4096 mod 64 < 16"
      by linarith+
    moreover have "c div 4096 mod 64 < 64" "c div 64 mod 64 < 64" "c mod 64 < 64" by simp_all
    ultimately show ?thesis using 4 unfolding encodeRune_def d
      by (simp add: step_nat div_greater_zero_iff del: of_nat_add)
  qed
qed

lemma run_encodeRunes: "(\<forall>c \<in> set cs. scalar c) \<Longrightarrow> run accept (concat (map encodeRune cs)) = accept"
  by (induction cs) (simp_all add: run_append run_encodeRune)

lemma byte_nat_cases: obtains n where "(x :: byte) = word_of_nat n" "n < 256"
proof
  show "x = word_of_nat (unat x)" "unat x < 256" using unat_byte_less [of x] by simp_all
qed

text \<open>One continuation byte is owed: it comes, with six payload bits.\<close>

lemma run_step_accept:
  assumes "run st b = accept" "st \<noteq> accept"
  obtains n r where "b = word_of_nat n # r" "n < 256" "run (step st (word_of_nat n)) r = accept"
proof (cases b)
  case Nil
  then show ?thesis using assms by simp
next
  case (Cons x r)
  then show ?thesis using assms that byte_nat_cases [of x] by (metis run_Cons)
qed

lemma cont_byte: "128 \<le> n \<Longrightarrow> n < 192 \<Longrightarrow> \<exists>y < 64. n = 128 + (y :: nat)"
  by (intro exI [of _ "n - 128"]) auto

lemma run_want1:
  assumes "run want1 b = accept"
  shows "\<exists>y r. b = word_of_nat (128 + y) # r \<and> y < 64 \<and> run accept r = accept"
proof -
  obtain n r where n: "b = word_of_nat n # r" "n < 256" "run (step want1 (word_of_nat n)) r = accept"
    using run_step_accept [OF assms] by blast
  then show ?thesis using cont_byte [of n] by (auto simp: step_nat simp del: of_nat_add split: if_splits)
qed

lemma run_want2:
  assumes "run want2 b = accept"
  shows "\<exists>y z r. b = word_of_nat (128 + y) # word_of_nat (128 + z) # r \<and> y < 64 \<and> z < 64 \<and>
    run accept r = accept"
proof -
  obtain n r where n: "b = word_of_nat n # r" "n < 256" "run (step want2 (word_of_nat n)) r = accept"
    using run_step_accept [OF assms] by blast
  then have "128 \<le> n" "n < 192" "run want1 r = accept" by (auto simp: step_nat split: if_splits)
  then show ?thesis using n(1) cont_byte [of n] run_want1 [of r] by blast
qed

text \<open>The encodings of each length, as the automaton reads them.\<close>

lemma join64: "y < 64 \<Longrightarrow> (q * 64 + y) div 64 = (q :: nat)" "y < 64 \<Longrightarrow> (q * 64 + y) mod 64 = y"
  by simp_all

lemma encodeRune2:
  assumes "2 \<le> a" "a < 32" "y < 64"
  shows "\<exists>c. scalar c \<and> encodeRune c = [word_of_nat (192 + a), word_of_nat (128 + y)]"
proof (intro exI conjI)
  have c: "(a * 64 + y) div 64 = a" "(a * 64 + y) mod 64 = y" using assms by (simp_all only: join64)
  show "scalar (a * 64 + y)" using assms by (simp add: scalar_def)
  show "encodeRune (a * 64 + y) = [word_of_nat (192 + a), word_of_nat (128 + y)]"
    unfolding encodeRune_def c using assms by simp
qed

lemma encodeRune3:
  assumes "a < 16" "y < 64" "z < 64" "a = 0 \<Longrightarrow> 32 \<le> y" "a = 13 \<Longrightarrow> y < 32"
  shows "\<exists>c. scalar c \<and>
    encodeRune c = [word_of_nat (224 + a), word_of_nat (128 + y), word_of_nat (128 + z)]"
proof (intro exI conjI)
  let ?c = "(a * 64 + y) * 64 + z"
  have c: "?c div 64 = a * 64 + y" "?c mod 64 = z" "(a * 64 + y) mod 64 = y" "(a * 64 + y) div 64 = a"
    using assms by (simp_all only: join64)
  have d: "?c div 4096 = a" using div_mult2_eq [of ?c 64 64] c by simp
  show "scalar ?c" using assms by (cases "a < 13"; cases "a = 13") (auto simp: scalar_def)
  have "2048 \<le> ?c" "?c < 65536" using assms(1-4) by (cases "a = 0"; auto)+
  then show "encodeRune ?c = [word_of_nat (224 + a), word_of_nat (128 + y), word_of_nat (128 + z)]"
    unfolding encodeRune_def c d by simp
qed

lemma encodeRune4:
  assumes "a < 5" "y < 64" "z < 64" "u < 64" "a = 0 \<Longrightarrow> 16 \<le> y" "a = 4 \<Longrightarrow> y < 16"
  shows "\<exists>c. scalar c \<and> encodeRune c =
    [word_of_nat (240 + a), word_of_nat (128 + y), word_of_nat (128 + z), word_of_nat (128 + u)]"
proof (intro exI conjI)
  let ?c = "((a * 64 + y) * 64 + z) * 64 + u"
  have c: "?c div 64 = (a * 64 + y) * 64 + z" "?c mod 64 = u"
    "((a * 64 + y) * 64 + z) mod 64 = z" "((a * 64 + y) * 64 + z) div 64 = a * 64 + y"
    "(a * 64 + y) mod 64 = y" "(a * 64 + y) div 64 = a"
    using assms by (simp_all only: join64)
  have d: "?c div 4096 = a * 64 + y" using div_mult2_eq [of ?c 64 64] c by simp
  have e: "?c div 262144 = a" using div_mult2_eq [of ?c 4096 64] c d by simp
  have r: "65536 \<le> ?c" "?c < 1114112" using assms by (cases "a = 0"; cases "a = 4"; simp)+
  then show "scalar ?c" by (simp add: scalar_def)
  show "encodeRune ?c = [word_of_nat (240 + a), word_of_nat (128 + y), word_of_nat (128 + z),
      word_of_nat (128 + u)]"
    using r unfolding encodeRune_def c d e by simp
qed

text \<open>The first sequence of an accepted text.\<close>

lemma lead3:
  assumes "run (step accept (word_of_nat n)) xs = accept" "224 \<le> n" "n < 240"
  shows "\<exists>c r. scalar c \<and> word_of_nat n # xs = encodeRune c @ r \<and> run accept r = accept"
proof -
  have st: "step accept (word_of_nat n) =
      (if n = 224 then want2AfterE0 else if n = 237 then want2AfterED else want2)"
    using assms(2,3) by (subst step_nat) auto
  obtain m r where m: "xs = word_of_nat m # r" "m < 256"
    "run (step (step accept (word_of_nat n)) (word_of_nat m)) r = accept"
    by (rule run_step_accept [OF assms(1)]) (simp_all add: st)
  have rng: "128 \<le> m \<and> m < 192 \<and> (n = 224 \<longrightarrow> 160 \<le> m) \<and> (n = 237 \<longrightarrow> m < 160) \<and> run want1 r = accept"
    using m(3) unfolding st
    by (cases "n = 224"; cases "n = 237") (auto simp: step_nat(3-5) [OF m(2)] split: if_splits)
  define a where "a = n - 224"
  then have a: "n = 224 + a" "a < 16" "a = 0 \<longleftrightarrow> n = 224" "a = 13 \<longleftrightarrow> n = 237"
    using assms(2,3) by auto
  obtain y z r' where y: "m = 128 + y" "y < 64" "r = word_of_nat (128 + z) # r'" "z < 64"
    "run accept r' = accept" and ya: "a = 0 \<Longrightarrow> 32 \<le> y" "a = 13 \<Longrightarrow> y < 32"
    using cont_byte [of m] run_want1 [of r] rng a(3,4) by force
  from encodeRune3 [OF a(2) y(2) y(4) ya] show ?thesis
    using a(1) m y by (metis append_Cons append_Nil)
qed

lemma lead4:
  assumes "run (step accept (word_of_nat n)) xs = accept" "240 \<le> n" "n < 245"
  shows "\<exists>c r. scalar c \<and> word_of_nat n # xs = encodeRune c @ r \<and> run accept r = accept"
proof -
  have st: "step accept (word_of_nat n) =
      (if n = 240 then want3AfterF0 else if n = 244 then want3AfterF4 else want3)"
    using assms(2,3) by (subst step_nat) auto
  obtain m r where m: "xs = word_of_nat m # r" "m < 256"
    "run (step (step accept (word_of_nat n)) (word_of_nat m)) r = accept"
    by (rule run_step_accept [OF assms(1)]) (simp_all add: st)
  have rng: "128 \<le> m \<and> m < 192 \<and> (n = 240 \<longrightarrow> 144 \<le> m) \<and> (n = 244 \<longrightarrow> m < 144) \<and> run want2 r = accept"
    using m(3) unfolding st
    by (cases "n = 240"; cases "n = 244") (auto simp: step_nat(6-8) [OF m(2)] split: if_splits)
  define a where "a = n - 240"
  then have a: "n = 240 + a" "a < 5" "a = 0 \<longleftrightarrow> n = 240" "a = 4 \<longleftrightarrow> n = 244"
    using assms(2,3) by auto
  obtain y z u r' where y: "m = 128 + y" "y < 64"
    "r = word_of_nat (128 + z) # word_of_nat (128 + u) # r'" "z < 64" "u < 64"
    "run accept r' = accept" and ya: "a = 0 \<Longrightarrow> 16 \<le> y" "a = 4 \<Longrightarrow> y < 16"
    using cont_byte [of m] run_want2 [of r] rng a(3,4) by force
  from encodeRune4 [OF a(2) y(2) y(4,5) ya] show ?thesis
    using a(1) m y by (metis append_Cons append_Nil)
qed

lemma first_rune:
  assumes "run accept b = accept" "b \<noteq> []"
  shows "\<exists>c r. scalar c \<and> b = encodeRune c @ r \<and> run accept r = accept"
proof -
  obtain x xs where b: "b = x # xs" using assms(2) by (cases b) auto
  obtain n where n: "x = word_of_nat n" "n < 256" by (rule byte_nat_cases)
  have r: "run (step accept (word_of_nat n)) xs = accept" using assms(1) b n by simp
  then have "step accept (word_of_nat n) \<noteq> reject" by auto
  then consider "n < 128" | "194 \<le> n" "n < 224" | "224 \<le> n" "n < 240" | "240 \<le> n" "n < 245"
    using n(2) by (auto simp: step_nat split: if_splits)
  then show ?thesis
  proof cases
    case 1
    then have "scalar n" "encodeRune n = [x]" using n by (simp_all add: scalar_def encodeRune_def)
    moreover have "run accept xs = accept" using r 1 n by (simp add: step_nat)
    ultimately show ?thesis using b by auto
  next
    case 2
    obtain a where a: "n = 192 + a" "2 \<le> a" "a < 32" using 2 le_Suc_ex by fastforce
    have "run want1 xs = accept" using r 2 n by (simp add: step_nat)
    then obtain y r' where y: "xs = word_of_nat (128 + y) # r'" "y < 64" "run accept r' = accept"
      using run_want1 by blast
    from encodeRune2 [OF a(2,3) y(2)] show ?thesis
      using a b n y by (metis append_Cons append_Nil)
  next
    case 3
    then show ?thesis using lead3 [OF r] b n by simp
  next
    case 4
    then show ?thesis using lead4 [OF r] b n by simp
  qed
qed

lemma run_accept_runes:
  "run accept b = accept \<Longrightarrow> \<exists>cs. (\<forall>c \<in> set cs. scalar c) \<and> b = concat (map encodeRune cs)"
proof (induction "length b" arbitrary: b rule: less_induct)
  case less
  show ?case
  proof (cases "b = []")
    case True
    then show ?thesis by (intro exI [of _ "[]"]) simp
  next
    case False
    then obtain c r where c: "scalar c" "b = encodeRune c @ r" "run accept r = accept"
      using first_rune less.prems by blast
    moreover have "length r < length b" using c(2) by (simp add: encodeRune_def)
    ultimately obtain cs where "\<forall>c \<in> set cs. scalar c" "r = concat (map encodeRune cs)"
      using less.hyps by blast
    then show ?thesis using c by (intro exI [of _ "c # cs"]) simp
  qed
qed

section \<open>Properties of the validator\<close>

text \<open>C34: Feeding is the automaton, whatever fast paths engage. For every bulk validator that keeps
  the contract of \<open>bulk_validator\<close>, \<open>Feed\<close> leaves the state the byte-at-a-time automaton reaches and
  returns false exactly when that state is the rejecting one.\<close>

theorem feed_is_automaton:
  assumes "bulk_validator simdBulk"
  shows "Feed simdBulk v b = (v\<lparr>v_state := run (v_state v) b\<rparr>, run (v_state v) b \<noteq> reject)"
  using assms by (rule bulk_validator.Feed_general)

theorem feed_is_automaton_witness:
  "Feed simdBulk_generic \<lparr>v_state = accept\<rparr> [0x41, 0xC3] = (\<lparr>v_state = want1\<rparr>, True)"
  using feed_is_automaton [OF generic.bulk_validator_axioms, of "\<lparr>v_state = accept\<rparr>" "[0x41, 0xC3]"]
  by (simp add: step.simps)

text \<open>Fragmentation never changes the verdict. Feeding a message in two pieces leaves the same
  state as feeding it whole, and is accepted so far exactly when both pieces are; a rejection sticks
  until \<open>Reset\<close>.\<close>

theorem feed_chunking:
  "Feed simdBulk_generic v (a @ b) =
     (let (v', ok) = Feed simdBulk_generic v a; (v'', ok') = Feed simdBulk_generic v' b
      in (v'', ok \<and> ok')) \<and>
   (let (v', ok) = Feed simdBulk_generic v a in
      ok = (v_state v' \<noteq> reject) \<and> (ok \<or> Feed simdBulk_generic v' b = (v', False)) \<and>
      Feed simdBulk_generic (Reset v') b = Feed simdBulk_generic (Reset v) b)"
  using generic.Feed_append [of v a b]
  by (auto simp: generic.Feed_general Reset_def)

text \<open>C35: The validator accepts UTF-8 and nothing else. A byte string is valid exactly when it is the
  concatenation of shortest-form encodings of Unicode scalar values, so overlong forms, surrogates,
  values beyond U+10FFFF, stray and missing continuation bytes are all refused.\<close>

theorem valid_iff_scalar_values:
  "Valid simdBulk_generic b \<longleftrightarrow>
     (\<exists>cs. list_all scalar cs \<and> b = concat (map encodeRune cs))"
  unfolding generic.Valid_run list_all_iff using run_accept_runes run_encodeRunes by blast

end
