(* ===== verification/Pool.thy ===== *)
theory Pool
  imports Gows_Prelude
begin

text \<open>
  The size-classed buffer pool, \<^verbatim>\<open>src/internal/pool/pool.go\<close>. A pooled buffer is its backing array
  (of the class's capacity); one \<^verbatim>\<open>sync.Pool\<close> per class is a list of them. \<^verbatim>\<open>sync.Pool\<close> may hand out
  any item it holds, or none (it may drop items at any time), so \<open>Get\<close> takes that choice as an
  argument and the properties hold for every choice. The \<^verbatim>\<open>wrapperPool\<close> recycles the pointers the
  buffers travel in and holds no buffer, so it does not appear.

  The interface the library relies on is the locale \<open>buffer_pool\<close>.
\<close>

section \<open>Size classes\<close>

definition minClassShift :: nat where "minClassShift = 7"
definition maxClassShift :: nat where "maxClassShift = 18"
definition minClassSize :: int where "minClassSize = 2 ^ minClassShift"
definition maxClassSize :: int where "maxClassSize = 2 ^ maxClassShift"
definition numClasses :: nat where "numClasses = maxClassShift - minClassShift + 1"

lemmas pool_consts = minClassShift_def maxClassShift_def minClassSize_def maxClassSize_def
  numClasses_def

text \<open>\<^verbatim>\<open>bits.Len\<close>: the number of bits needed to write \<open>n\<close>.\<close>

fun bitsLen :: "nat \<Rightarrow> nat" where
  "bitsLen n = (if n = 0 then 0 else Suc (bitsLen (n div 2)))"

declare bitsLen.simps [simp del]

text \<open>\<^const>\<open>None\<close> is \<^verbatim>\<open>ok == false\<close>: the request is larger than the largest class.\<close>

definition classIndex :: "int \<Rightarrow> nat option" where
  "classIndex n =
     (if n > maxClassSize then None
      else if n \<le> minClassSize then Some 0
      else let shift = bitsLen (nat (n - 1)) in Some (shift - minClassShift))"

section \<open>Buffers and the pool\<close>

text \<open>A slice: its length and its backing array, whose length is the capacity.\<close>

record buffer =
  b_len :: nat
  b_array :: bytes

abbreviation b_cap :: "buffer \<Rightarrow> nat" where
  "b_cap b \<equiv> length (b_array b)"

type_synonym pools = "buffer list list"

definition emptyPools :: pools where
  "emptyPools = replicate numClasses []"

definition makeSlice :: "nat \<Rightarrow> buffer" where
  "makeSlice c = \<lparr>b_len = 0, b_array = replicate c 0\<rparr>"

text \<open>
  \<open>choice\<close> is what \<^verbatim>\<open>classes[idx].Get()\<close> does: \<^const>\<open>None\<close> for a nil result, otherwise the position of
  the item handed out (a position past the end also counts as nil).
\<close>

definition Get :: "nat option \<Rightarrow> pools \<Rightarrow> int \<Rightarrow> buffer \<times> pools" where
  "Get choice ps n =
     (case classIndex n of
        None \<Rightarrow> (makeSlice (nat n), ps)
      | Some idx \<Rightarrow>
          let fresh = (makeSlice (2 ^ (minClassShift + idx)), ps) in
          (case choice of
             None \<Rightarrow> fresh
           | Some i \<Rightarrow>
               if i < length (ps ! idx) then
                 ((ps ! idx ! i)\<lparr>b_len := 0\<rparr>,
                  ps[idx := take i (ps ! idx) @ drop (Suc i) (ps ! idx)])
               else fresh))"

definition Put :: "pools \<Rightarrow> buffer \<Rightarrow> pools" where
  "Put ps b =
     (let c = int (b_cap b) in
      if c < minClassSize \<or> c > maxClassSize \<or> c AND (c - 1) \<noteq> 0 then ps
      else let idx = bitsLen (nat c) - 1 - minClassShift in
        ps[idx := b\<lparr>b_len := b_cap b\<rparr> # (ps ! idx)])"

section \<open>The length of a binary number\<close>

lemma bitsLen_0 [simp]: "bitsLen 0 = 0"
  by (simp add: bitsLen.simps)

lemma bitsLen_bounds: "0 < n \<Longrightarrow> 2 ^ (bitsLen n - 1) \<le> n \<and> n < 2 ^ bitsLen n \<and> 0 < bitsLen n"
proof (induction n rule: bitsLen.induct)
  case (1 n)
  show ?case
  proof (cases "n div 2 = 0")
    case True
    then have "n = 1" using 1(2) by auto
    moreover have "bitsLen (Suc 0) = Suc 0" by (subst bitsLen.simps) simp
    ultimately show ?thesis by simp
  next
    case False
    then have ih: "2 ^ (bitsLen (n div 2) - 1) \<le> n div 2" "n div 2 < 2 ^ bitsLen (n div 2)"
      "0 < bitsLen (n div 2)" using 1 by auto
    obtain k where k: "bitsLen (n div 2) = Suc k" using ih(3) by (cases "bitsLen (n div 2)") auto
    have "bitsLen n = Suc (Suc k)" using 1(2) k by (subst bitsLen.simps) simp
    then show ?thesis using ih k by auto
  qed
qed

lemma bitsLen_unique: "2 ^ k \<le> n \<Longrightarrow> n < 2 ^ Suc k \<Longrightarrow> bitsLen n = Suc k"
proof -
  assume a: "2 ^ k \<le> n" "n < 2 ^ Suc k"
  then have b: "2 ^ (bitsLen n - 1) \<le> n" "n < 2 ^ bitsLen n" "0 < bitsLen n"
    using bitsLen_bounds [of n] by (auto intro: less_le_trans [of 0 "2 ^ k"])
  have "(2::nat) ^ k < 2 ^ bitsLen n" "(2::nat) ^ (bitsLen n - 1) < 2 ^ Suc k"
    using a b by linarith+
  then have "k < bitsLen n" "bitsLen n - 1 < Suc k" by (simp_all only: power_strict_increasing_iff)
  then show ?thesis using b(3) by linarith
qed

text \<open>\<^verbatim>\<open>c&(c-1) == 0\<close> tests for a power of two.\<close>

lemma and_pred_power: "(2 :: int) ^ k AND (2 ^ k - 1) = 0"
  by (rule bit_eqI) (auto simp: bit_simps simp flip: mask_eq_exp_minus_1)

lemma power_of_and_pred:
  assumes "0 < n" "int n AND (int n - 1) = 0"
  shows "n = 2 ^ (bitsLen n - 1)"
proof (rule ccontr)
  let ?k = "bitsLen n - 1"
  note b = bitsLen_bounds [OF assms(1)]
  assume "n \<noteq> 2 ^ ?k"
  then have l: "2 ^ ?k \<le> n - 1" "n - 1 < 2 ^ Suc ?k" "2 ^ ?k \<le> n" "n < 2 ^ Suc ?k" using b by auto
  have top: "bit m ?k" if "2 ^ ?k \<le> m" "m < 2 ^ Suc ?k" for m :: nat
  proof -
    have "m div 2 ^ ?k = 1" using that by (intro div_nat_eqI) auto
    then show ?thesis by (simp add: bit_iff_odd)
  qed
  have "bit (int n) ?k" "bit (int (n - 1)) ?k"
    using top [OF l(3,4)] top [OF l(1,2)] by (simp_all only: bit_of_nat_iff possible_bit_int simp_thms)
  moreover have "int (n - 1) = int n - 1" using assms(1) by simp
  ultimately have "bit (int n AND (int n - 1)) ?k" by (simp only: bit_and_iff simp_thms)
  then show False using assms(2) by simp
qed

section \<open>The class of a request\<close>

definition classCap :: "nat \<Rightarrow> nat" where
  "classCap idx = 2 ^ (minClassShift + idx)"

lemma classIndex_range:
  assumes "classIndex n = Some idx"
  shows "idx < numClasses \<and> n \<le> int (classCap idx) \<and>
    (\<forall>j < idx. int (classCap j) < n)"
proof (cases "n \<le> minClassSize")
  case True
  then have "idx = 0" using assms by (auto simp: classIndex_def split: if_splits)
  then show ?thesis using True by (simp add: pool_consts classCap_def)
next
  case False
  define m where "m = nat (n - 1)"
  have m: "128 \<le> m" "m < 262144" "int m = n - 1" "idx = bitsLen m - 7"
    using False assms by (auto simp: classIndex_def pool_consts m_def Let_def split: if_splits)
  note b = bitsLen_bounds [of m]
  have "(2::nat) ^ 7 < 2 ^ bitsLen m" "(2::nat) ^ (bitsLen m - 1) < 2 ^ 18" using b m by auto
  then have "7 < bitsLen m" "bitsLen m - 1 < 18" by (simp_all only: power_strict_increasing_iff)
  then have i: "7 + idx = bitsLen m" "idx < 12" "0 < idx" using m by auto
  have "int (classCap j) < n" if "j < idx" for j
  proof -
    have "(2::nat) ^ (7 + j) \<le> 2 ^ (bitsLen m - 1)" using that i by (intro power_increasing) auto
    then have "2 ^ (7 + j) \<le> m" using b m(1) by linarith
    then have "int (2 ^ (7 + j)) \<le> int m" by (simp only: of_nat_le_iff)
    then show ?thesis using m(3) by (simp add: classCap_def pool_consts)
  qed
  moreover have "int m < int (classCap idx)"
    using b m(1) i(1) by (simp add: classCap_def pool_consts)
  ultimately show ?thesis using i m(3) by (simp add: pool_consts)
qed

lemma classIndex_None: "classIndex n = None \<longleftrightarrow> maxClassSize < n"
  by (simp add: classIndex_def Let_def)

section \<open>The pool invariant\<close>

text \<open>Every buffer a class holds has exactly that class's capacity.\<close>

definition poolsOk :: "pools \<Rightarrow> bool" where
  "poolsOk ps \<longleftrightarrow> length ps = numClasses \<and>
     (\<forall>idx < numClasses. \<forall>b \<in> set (ps ! idx). b_cap b = classCap idx)"

lemma poolsOk_empty: "poolsOk emptyPools"
  by (simp add: poolsOk_def emptyPools_def)

lemma poolsOk_update:
  "poolsOk ps \<Longrightarrow> idx < numClasses \<Longrightarrow> (\<forall>b \<in> set bs. b_cap b = classCap idx) \<Longrightarrow> poolsOk (ps[idx := bs])"
  by (auto simp: poolsOk_def nth_list_update)

lemma poolsOk_Get: "poolsOk ps \<Longrightarrow> poolsOk (snd (Get choice ps n))"
  using classIndex_range [of n]
  by (auto simp: Get_def Let_def poolsOk_def nth_list_update split: option.splits
      dest: in_set_takeD in_set_dropD)

lemma Put_class:
  assumes "minClassSize \<le> int (b_cap b)" "int (b_cap b) \<le> maxClassSize"
    "int (b_cap b) AND (int (b_cap b) - 1) = 0"
  shows "bitsLen (b_cap b) - 1 - minClassShift < numClasses \<and>
    b_cap b = classCap (bitsLen (b_cap b) - 1 - minClassShift)"
proof -
  let ?c = "b_cap b"
  have c: "128 \<le> ?c" "?c \<le> 262144" using assms(1,2) by (simp_all add: pool_consts)
  then have "0 < ?c" by linarith
  then have e: "?c = 2 ^ (bitsLen ?c - 1)" using power_of_and_pred assms(3) by blast
  then have "(2::nat) ^ 7 \<le> 2 ^ (bitsLen ?c - 1)" "(2::nat) ^ (bitsLen ?c - 1) \<le> 2 ^ 18"
    using c by auto
  then have "7 \<le> bitsLen ?c - 1" "bitsLen ?c - 1 \<le> 18" by (simp_all only: power_increasing_iff)
  then show ?thesis using e by (simp add: pool_consts classCap_def)
qed

lemma poolsOk_Put: "poolsOk ps \<Longrightarrow> poolsOk (Put ps b)"
  using Put_class [of b]
  by (auto simp: Put_def Let_def poolsOk_def nth_list_update not_less)

lemma Get_buffer:
  assumes "poolsOk ps"
  shows "b_len (fst (Get choice ps n)) = 0 \<and> n \<le> int (b_cap (fst (Get choice ps n))) \<and>
    (case classIndex n of None \<Rightarrow> b_cap (fst (Get choice ps n)) = nat n
     | Some idx \<Rightarrow> b_cap (fst (Get choice ps n)) = classCap idx)"
  using assms classIndex_range [of n] classIndex_None [of n]
  by (auto simp: Get_def Let_def makeSlice_def poolsOk_def classCap_def pool_consts split: option.splits)

section \<open>The contract of a buffer pool\<close>

datatype poolOp = PoolGet "nat option" int | PoolPut buffer

text \<open>The requests a sequence of operations served, each with the buffer it was given.\<close>

primrec served :: "(nat option \<Rightarrow> 's \<Rightarrow> int \<Rightarrow> buffer \<times> 's) \<Rightarrow> ('s \<Rightarrow> buffer \<Rightarrow> 's) \<Rightarrow> 's \<Rightarrow>
    poolOp list \<Rightarrow> (int \<times> buffer) list" where
  "served get put s [] = []"
| "served get put s (x # xs) =
     (case x of
        PoolGet c n \<Rightarrow> (n, fst (get c s n)) # served get put (snd (get c s n)) xs
      | PoolPut b \<Rightarrow> served get put (put s b) xs)"

text \<open>
  What users of the pool rely on, whatever they put back: a state predicate every operation keeps,
  and a buffer large enough for the request.
\<close>

locale buffer_pool =
  fixes empty :: "'s"
    and get :: "nat option \<Rightarrow> 's \<Rightarrow> int \<Rightarrow> buffer \<times> 's"
    and put :: "'s \<Rightarrow> buffer \<Rightarrow> 's"
    and ok :: "'s \<Rightarrow> bool"
  assumes empty_ok: "ok empty"
    and get_ok: "ok s \<Longrightarrow> ok (snd (get c s n))"
    and put_ok: "ok s \<Longrightarrow> ok (put s b)"
    and get_fits: "ok s \<Longrightarrow> b_len (fst (get c s n)) = 0 \<and> n \<le> int (b_cap (fst (get c s n)))"
begin

lemma served_fits_from:
  "ok s \<Longrightarrow> (n, b) \<in> set (served get put s xs) \<Longrightarrow> b_len b = 0 \<and> n \<le> int (b_cap b)"
proof (induction xs arbitrary: s)
  case (Cons x xs)
  show ?case
  proof (cases x)
    case (PoolGet c m)
    then show ?thesis using Cons.IH [of "snd (get c s m)"] Cons.prems get_fits get_ok by auto
  next
    case (PoolPut d)
    then show ?thesis using Cons.IH [of "put s d"] Cons.prems put_ok by auto
  qed
qed simp

lemma served_fits: "(n, b) \<in> set (served get put empty xs) \<Longrightarrow> b_len b = 0 \<and> n \<le> int (b_cap b)"
  using served_fits_from [OF empty_ok] by blast

end

interpretation gows_pool: buffer_pool emptyPools Get Put poolsOk
  by unfold_locales (simp_all add: poolsOk_empty poolsOk_Get poolsOk_Put Get_buffer)

section \<open>Properties of the pool\<close>

text \<open>The pool never hands out a buffer that is too small. Whatever buffers are put back and
  whichever pooled item \<open>Get\<close> picks, every request of any sequence of operations gets an empty
  buffer of at least the requested capacity.\<close>

theorem pool_requests_fit:
  "list_all (\<lambda>(n, b). b_len b = 0 \<and> n \<le> int (b_cap b)) (served Get Put emptyPools xs)"
  using gows_pool.served_fits by (auto simp: list_all_iff)

text \<open>The pool wastes no more than it must. A request up to 256 KiB gets a buffer of the smallest
  class that holds it, whether recycled or fresh, and the operations keep every pooled buffer in the
  class of its capacity; a larger request is allocated exactly and leaves the pool alone.\<close>

theorem pool_smallest_class:
  assumes "poolsOk ps"
  shows "poolsOk (snd (Get choice ps n)) \<and> poolsOk (Put ps b) \<and>
    (if n \<le> 2 ^ 18 then \<exists>idx < 12. b_cap (fst (Get choice ps n)) = 2 ^ (7 + idx) \<and>
       n \<le> 2 ^ (7 + idx) \<and> (\<forall>j < idx. 2 ^ (7 + j) < n)
     else Get choice ps n = (makeSlice (nat n), ps))"
proof -
  have "\<exists>idx < 12. b_cap (fst (Get choice ps n)) = 2 ^ (7 + idx) \<and>
       n \<le> 2 ^ (7 + idx) \<and> (\<forall>j < idx. 2 ^ (7 + j) < n)" if le: "n \<le> 2 ^ 18"
  proof -
    obtain idx where i: "classIndex n = Some idx"
      using le classIndex_None [of n] by (force simp: pool_consts)
    then show ?thesis using classIndex_range [OF i] Get_buffer [OF assms, of choice n]
      by (intro exI [of _ idx]) (simp add: classCap_def pool_consts)
  qed
  moreover have "Get choice ps n = (makeSlice (nat n), ps)" if "\<not> n \<le> 2 ^ 18"
    using that classIndex_None [of n] by (simp add: Get_def pool_consts)
  ultimately show ?thesis using assms by (simp add: poolsOk_Get poolsOk_Put)
qed

theorem pool_smallest_class_witness:
  "poolsOk (snd (Get (Some 0) emptyPools 300)) \<and> poolsOk (Put emptyPools (makeSlice 512)) \<and>
    (if (300::int) \<le> 2 ^ 18 then \<exists>idx < 12. b_cap (fst (Get (Some 0) emptyPools 300)) = 2 ^ (7 + idx) \<and>
       (300::int) \<le> 2 ^ (7 + idx) \<and> (\<forall>j < idx. 2 ^ (7 + j) < (300::int))
     else Get (Some 0) emptyPools 300 = (makeSlice (nat 300), emptyPools))"
  by (rule pool_smallest_class) (rule poolsOk_empty)

text \<open>A returned buffer is reused. A buffer \<open>Get\<close> handed out for a pooled size, once put back, is
  the one the next request of the same class can be given, whatever the pool held before.\<close>

theorem pool_reuse:
  assumes "poolsOk ps" "n \<le> 2 ^ 18"
  shows "Get (Some 0) (Put ps (fst (Get choice ps n))) n = (fst (Get choice ps n), ps)"
proof -
  let ?b = "fst (Get choice ps n)"
  obtain idx where i: "classIndex n = Some idx"
    using assms(2) classIndex_None [of n] by (force simp: pool_consts)
  note r = classIndex_range [OF i]
  have cap: "b_cap ?b = classCap idx" "b_len ?b = 0" using Get_buffer [OF assms(1), of choice n] i by auto
  have "bitsLen (classCap idx) = Suc (minClassShift + idx)"
    unfolding classCap_def by (rule bitsLen_unique) simp_all
  moreover have "(2::int) ^ 7 \<le> 2 ^ (7 + idx)" "(2::int) ^ (7 + idx) \<le> 2 ^ 18"
    using r by (intro power_increasing; simp add: pool_consts)+
  ultimately have "Put ps ?b = ps[idx := ?b\<lparr>b_len := b_cap ?b\<rparr> # (ps ! idx)]"
    using and_pred_power [of "minClassShift + idx"]
    by (simp add: Put_def Let_def cap classCap_def pool_consts nat_power_eq)
  then show ?thesis using i r cap assms(1)
    by (simp add: Get_def poolsOk_def)
qed

theorem pool_reuse_witness:
  "Get (Some 0) (Put emptyPools (fst (Get None emptyPools 300))) 300 =
     (fst (Get None emptyPools 300), emptyPools)"
  by (rule pool_reuse) (simp_all add: poolsOk_empty)

end
