(* ===== verification/Httpx.thy ===== *)
theory Httpx
  imports Gows_Prelude
begin

text \<open>
  The HTTP/1.1 primitives of the handshake, \<^verbatim>\<open>src/internal/httpx\<close>: request and status lines, the
  header scanner, tokens and case folding, and the key and accept values with the base64 encoding
  and SHA-1 digest of Go's standard library.

  The lemmas characterise each primitive and show that a header block is read back line by line as
  it was written, whatever follows it.
\<close>

section \<open>Bytes of the grammar\<close>

abbreviation HT :: byte where "HT \<equiv> 9"
abbreviation LF :: byte where "LF \<equiv> 10"
abbreviation CR :: byte where "CR \<equiv> 13"
abbreviation SP :: byte where "SP \<equiv> 32"
abbreviation COLON :: byte where "COLON \<equiv> 58"
abbreviation COMMA :: byte where "COMMA \<equiv> 44"

abbreviation CRLF :: bytes where "CRLF \<equiv> [CR, LF]"

definition isOWS :: "byte \<Rightarrow> bool" where
  "isOWS c \<longleftrightarrow> c = SP \<or> c = HT"

datatype httpErr =
    ErrMissingCRLF
  | ErrMalformedRequestLine
  | ErrNotGet
  | ErrNotHTTP11
  | ErrMalformedHeaderLine
  | ErrObsoleteLineFolding
  | ErrMalformedStatusLine

section \<open>Splitting and trimming\<close>

text \<open>\<^const>\<open>None\<close> is \<^verbatim>\<open>ok == false\<close>.\<close>

definition cutCRLF :: "bytes \<Rightarrow> (bytes \<times> bytes) option" where
  "cutCRLF b =
     (case indexByte b LF of
        None \<Rightarrow> None
      | Some i \<Rightarrow> if i = 0 \<or> b ! (i - 1) \<noteq> CR then None else Some (take (i - 1) b, drop (i + 1) b))"

definition cutByte :: "bytes \<Rightarrow> byte \<Rightarrow> (bytes \<times> bytes) option" where
  "cutByte b c =
     (case indexByte b c of None \<Rightarrow> None | Some i \<Rightarrow> Some (take i b, drop (i + 1) b))"

definition TrimOWS :: "bytes \<Rightarrow> bytes" where
  "TrimOWS b = rev (dropWhile isOWS (rev (dropWhile isOWS b)))"

definition isTchar :: "byte \<Rightarrow> bool" where
  "isTchar c \<longleftrightarrow> 97 \<le> c \<and> c \<le> 122 \<or> 65 \<le> c \<and> c \<le> 90 \<or> 48 \<le> c \<and> c \<le> 57 \<or>
     c \<in> set [33, 35, 36, 37, 38, 39, 42, 43, 45, 46, 94, 95, 96, 124, 126]"

definition IsToken :: "bytes \<Rightarrow> bool" where
  "IsToken s \<longleftrightarrow> s \<noteq> [] \<and> list_all isTchar s"

text \<open>The loop of \<^verbatim>\<open>EqualFold\<close> over two slices of the same length.\<close>

fun equalFoldLoop :: "bytes \<Rightarrow> bytes \<Rightarrow> bool" where
  "equalFoldLoop (c # cs) (l # ls) =
     (let c = (if 65 \<le> c \<and> c \<le> 90 then c + 32 else c) in
      if c \<noteq> l then False else equalFoldLoop cs ls)"
| "equalFoldLoop _ _ = True"

definition EqualFold :: "bytes \<Rightarrow> bytes \<Rightarrow> bool" where
  "EqualFold b lower = (if length b \<noteq> length lower then False else equalFoldLoop b lower)"

function ContainsToken :: "bytes \<Rightarrow> bytes \<Rightarrow> bool" where
  "ContainsToken b lower =
     (if b = [] then False
      else let (tok, rest) = (case indexByte b COMMA of
                 Some i \<Rightarrow> (take i b, drop (i + 1) b)
               | None \<Rightarrow> (b, [])) in
        if EqualFold (TrimOWS tok) lower then True else ContainsToken rest lower)"
  by pat_completeness auto
termination
  by (relation "measure (length \<circ> fst)") (auto split: option.splits)

declare ContainsToken.simps [simp del]

section \<open>Request and status lines\<close>

record RequestLine =
  rl_Method :: bytes
  rl_Target :: bytes
  rl_Version :: bytes

text \<open>On an error other than a missing CRLF the source still returns the bytes consumed.\<close>

definition ParseRequestLine :: "bytes \<Rightarrow> (httpErr + RequestLine) \<times> nat" where
  "ParseRequestLine b =
     (case cutCRLF b of
        None \<Rightarrow> (Inl ErrMissingCRLF, 0)
      | Some (raw, _) \<Rightarrow>
          let n = length raw + 2 in
          (case cutByte raw SP of
             None \<Rightarrow> (Inl ErrMalformedRequestLine, n)
           | Some (meth, remainder) \<Rightarrow>
               (case cutByte remainder SP of
                  None \<Rightarrow> (Inl ErrMalformedRequestLine, n)
                | Some (target, version) \<Rightarrow>
                    if meth \<noteq> B ''GET'' then (Inl ErrNotGet, n)
                    else if version \<noteq> B ''HTTP/1.1'' then (Inl ErrNotHTTP11, n)
                    else (Inr \<lparr>rl_Method = meth, rl_Target = target, rl_Version = version\<rparr>, n))))"

record StatusLine =
  sl_Version :: bytes
  sl_Code :: bytes
  sl_Reason :: bytes

definition ParseStatusLine :: "bytes \<Rightarrow> (httpErr + StatusLine) \<times> nat" where
  "ParseStatusLine b =
     (case cutCRLF b of
        None \<Rightarrow> (Inl ErrMissingCRLF, 0)
      | Some (raw, _) \<Rightarrow>
          let n = length raw + 2 in
          (case cutByte raw SP of
             None \<Rightarrow> (Inl ErrMalformedStatusLine, n)
           | Some (version, remainder) \<Rightarrow>
               (case cutByte remainder SP of
                  None \<Rightarrow> (Inl ErrMalformedStatusLine, n)
                | Some (code, reason) \<Rightarrow>
                    (Inr \<lparr>sl_Version = version, sl_Code = code, sl_Reason = reason\<rparr>, n))))"

section \<open>The header scanner\<close>

record HeaderScanner =
  hs_b :: bytes
  hs_key :: bytes
  hs_val :: bytes
  hs_err :: "httpErr option"

definition NewHeaderScanner :: "bytes \<Rightarrow> HeaderScanner" where
  "NewHeaderScanner b = \<lparr>hs_b = b, hs_key = [], hs_val = [], hs_err = None\<rparr>"

definition HeaderNext :: "HeaderScanner \<Rightarrow> HeaderScanner \<times> bool" where
  "HeaderNext s =
     (if hs_err s \<noteq> None then (s, False)
      else if 2 \<le> length (hs_b s) \<and> hs_b s ! 0 = CR \<and> hs_b s ! 1 = LF then (s, False)
      else case cutCRLF (hs_b s) of
        None \<Rightarrow> (s\<lparr>hs_err := Some ErrMissingCRLF\<rparr>, False)
      | Some (line, rest) \<Rightarrow>
          if line \<noteq> [] \<and> (line ! 0 = SP \<or> line ! 0 = HT)
          then (s\<lparr>hs_err := Some ErrObsoleteLineFolding\<rparr>, False)
          else case cutByte line COLON of
            None \<Rightarrow> (s\<lparr>hs_err := Some ErrMalformedHeaderLine\<rparr>, False)
          | Some (key, val) \<Rightarrow> (s\<lparr>hs_key := key, hs_val := TrimOWS val, hs_b := rest\<rparr>, True))"

section \<open>Accept and key values\<close>

text \<open>
  \<^verbatim>\<open>base64.StdEncoding\<close>: three bytes to four characters, with padding.
\<close>

definition base64Char :: "nat \<Rightarrow> byte" where
  "base64Char n =
     (if n < 26 then word_of_nat (65 + n) else if n < 52 then word_of_nat (97 + (n - 26))
      else if n < 62 then word_of_nat (48 + (n - 52)) else if n = 62 then 43 else 47)"

fun base64Encode :: "bytes \<Rightarrow> bytes" where
  "base64Encode [] = []"
| "base64Encode [a] =
     (let n = unat a * 16 in [base64Char (n div 64), base64Char (n mod 64), 61, 61])"
| "base64Encode [a, b] =
     (let n = (unat a * 256 + unat b) * 4 in
      [base64Char (n div 4096), base64Char (n div 64 mod 64), base64Char (n mod 64), 61])"
| "base64Encode (a # b # c # r) =
     (let n = (unat a * 256 + unat b) * 256 + unat c in
      [base64Char (n div 262144), base64Char (n div 4096 mod 64), base64Char (n div 64 mod 64),
       base64Char (n mod 64)] @ base64Encode r)"

text \<open>\<^verbatim>\<open>sha1.Sum\<close> (FIPS 180-4): padding, the message schedule and the eighty rounds of a block.\<close>

definition sha1Pad :: "bytes \<Rightarrow> bytes" where
  "sha1Pad m = m @ [0x80] @ replicate ((119 - length m mod 64) mod 64) 0 @
     put_be 8 (word_of_nat (8 * length m) :: 64 word)"

text \<open>The schedule is kept newest first.\<close>

primrec sha1Extend :: "nat \<Rightarrow> 32 word list \<Rightarrow> 32 word list" where
  "sha1Extend 0 ws = ws"
| "sha1Extend (Suc k) ws =
     sha1Extend k (word_rotl 1 (ws ! 2 XOR ws ! 7 XOR ws ! 13 XOR ws ! 15) # ws)"

type_synonym sha1State = "32 word \<times> 32 word \<times> 32 word \<times> 32 word \<times> 32 word"

definition sha1Round :: "sha1State \<Rightarrow> nat \<times> 32 word \<Rightarrow> sha1State" where
  "sha1Round st tw =
     (case st of (a, b, c, d, e) \<Rightarrow> case tw of (t, w) \<Rightarrow>
        let (f, k) =
          (if t < 20 then ((b AND c) OR (NOT b AND d), 0x5A827999)
           else if t < 40 then (b XOR c XOR d, 0x6ED9EBA1)
           else if t < 60 then ((b AND c) OR (b AND d) OR (c AND d), 0x8F1BBCDC)
           else (b XOR c XOR d, 0xCA62C1D6))
        in (word_rotl 5 a + f + e + k + w, a, word_rotl 30 b, c, d))"

fun chunks :: "nat \<Rightarrow> 'a list \<Rightarrow> 'a list list" where
  "chunks n xs = (if n = 0 \<or> xs = [] then [] else take n xs # chunks n (drop n xs))"

declare chunks.simps [simp del]

definition sha1Block :: "sha1State \<Rightarrow> bytes \<Rightarrow> sha1State" where
  "sha1Block st blk =
     (case st of (a, b, c, d, e) \<Rightarrow>
      let ws = rev (sha1Extend 64 (rev (map be_word (chunks 4 blk))));
          (a', b', c', d', e') = foldl sha1Round st (zip [0..<80] ws)
      in (a + a', b + b', c + c', d + d', e + e'))"

definition sha1Sum :: "bytes \<Rightarrow> bytes" where
  "sha1Sum m =
     (case foldl sha1Block (0x67452301, 0xEFCDAB89, 0x98BADCFE, 0x10325476, 0xC3D2E1F0)
             (chunks 64 (sha1Pad m)) of
        (a, b, c, d, e) \<Rightarrow> put_be 4 a @ put_be 4 b @ put_be 4 c @ put_be 4 d @ put_be 4 e)"

definition acceptGUID :: bytes where
  "acceptGUID = B ''258EAFA5-E914-47DA-95CA-C5AB0DC85B11''"

definition acceptKeyLen :: nat where "acceptKeyLen = 24"

text \<open>\<^verbatim>\<open>copy(scratch[:24], key)\<close> truncates a longer key and leaves zero bytes after a shorter one.\<close>

definition AppendAccept :: "bytes \<Rightarrow> bytes \<Rightarrow> bytes" where
  "AppendAccept dst key =
     (let scratch = take acceptKeyLen (key @ replicate acceptKeyLen 0) @ acceptGUID
      in dst @ base64Encode (sha1Sum scratch))"

text \<open>The sixteen random bytes are an argument.\<close>

definition AppendKey :: "bytes \<Rightarrow> bytes \<Rightarrow> bytes" where
  "AppendKey nonce dst = dst @ base64Encode nonce"

section \<open>Splitting and trimming\<close>

lemma cutCRLF_line:
  assumes "LF \<notin> set line" "CR \<notin> set line"
  shows "cutCRLF (line @ CRLF @ rest) = Some (line, rest)"
proof -
  have "indexByte (line @ CRLF @ rest) LF = Some (length line + 1)"
    using indexByte_append [of LF "line @ [CR]" rest] assms by simp
  then show ?thesis by (simp add: cutCRLF_def nth_append)
qed

lemma cutCRLF_shorter:
  assumes "cutCRLF b = Some (line, rest)"
  shows "b = line @ CRLF @ rest \<and> LF \<notin> set line"
proof -
  obtain i where i: "indexByte b LF = Some i" "0 < i" "b ! (i - 1) = CR"
    "line = take (i - 1) b" "rest = drop (i + 1) b"
    using assms by (auto simp: cutCRLF_def split: option.splits if_splits)
  have l: "i < length b" "b ! i = LF" "LF \<notin> set (take i b)" using indexByte_Some_split [OF i(1)] by auto
  obtain j where j: "i = Suc j" using i(2) by (cases i) auto
  have "b = take j b @ b ! j # b ! Suc j # drop (Suc (Suc j)) b"
    using l(1) j by (metis Cons_nth_drop_Suc Suc_lessD append_take_drop_id)
  moreover have "LF \<notin> set (take j b)" using l(3) j by (meson in_set_takeD set_take_subset_set_take
        le_SucI order_refl subsetD)
  ultimately show ?thesis using i l j by auto
qed

lemma cutByte_append: "c \<notin> set xs \<Longrightarrow> cutByte (xs @ c # ys) c = Some (xs, ys)"
  by (simp add: cutByte_def indexByte_append)

lemma cutByte_none: "c \<notin> set b \<Longrightarrow> cutByte b c = None"
  by (simp add: cutByte_def indexByte_None_iff [THEN iffD2])

lemma cutByte_split: "cutByte b c = Some (xs, ys) \<Longrightarrow> b = xs @ c # ys \<and> c \<notin> set xs"
  by (auto simp: cutByte_def split: option.splits dest!: indexByte_Some_split)
    (metis Cons_nth_drop_Suc append_take_drop_id)

lemma TrimOWS_sub: "\<exists>l r. b = l @ TrimOWS b @ r \<and> list_all isOWS l \<and> list_all isOWS r"
proof -
  define d where "d = dropWhile isOWS b"
  have "b = takeWhile isOWS b @ d" "rev d = takeWhile isOWS (rev d) @ dropWhile isOWS (rev d)"
    by (simp_all add: d_def)
  then have "b = takeWhile isOWS b @ TrimOWS b @ rev (takeWhile isOWS (rev d))"
    unfolding TrimOWS_def d_def [symmetric] by (metis rev_append rev_rev_ident)
  moreover have "list_all isOWS (takeWhile isOWS b)" "list_all isOWS (rev (takeWhile isOWS (rev d)))"
    by (auto simp: list_all_iff dest: set_takeWhileD)
  ultimately show ?thesis by blast
qed

lemma TrimOWS_id:
  assumes "b = [] \<or> \<not> isOWS (hd b) \<and> \<not> isOWS (last b)"
  shows "TrimOWS b = b"
proof (cases "b = []")
  case False
  then have h: "\<not> isOWS (hd b)" "\<not> isOWS (hd (rev b))" using assms by (simp_all add: hd_rev)
  have "dropWhile isOWS xs = xs" if "\<not> isOWS (hd xs)" for xs using that by (cases xs) simp_all
  then show ?thesis using h by (simp add: TrimOWS_def)
qed (simp add: TrimOWS_def)

lemma TrimOWS_Nil [simp]: "TrimOWS [] = []"
  by (simp add: TrimOWS_def)

lemma TrimOWS_SP: "TrimOWS (SP # b) = TrimOWS b"
  by (simp add: TrimOWS_def isOWS_def)

lemma TrimOWS_set: "set (TrimOWS b) \<subseteq> set b"
  by (metis TrimOWS_def set_dropWhileD set_rev subsetI)

text \<open>A byte of a token is no delimiter.\<close>

lemma isTchar_not: "isTchar c \<Longrightarrow> c \<notin> set [HT, LF, CR, SP, COLON, COMMA, 34, 59, 61, 92]"
  by (auto simp: isTchar_def word_le_def)

lemma token_no:
  assumes "IsToken s"
  shows "HT \<notin> set s" "LF \<notin> set s" "CR \<notin> set s" "SP \<notin> set s" "COLON \<notin> set s" "COMMA \<notin> set s"
    "34 \<notin> set s" "59 \<notin> set s" "61 \<notin> set s" "92 \<notin> set s"
  using assms isTchar_not unfolding IsToken_def list_all_iff by fastforce+

lemma TrimOWS_token: "IsToken s \<Longrightarrow> TrimOWS s = s"
  using token_no [of s] hd_in_set [of s] last_in_set [of s]
  by (intro TrimOWS_id) (unfold isOWS_def IsToken_def, metis)

definition foldByte :: "byte \<Rightarrow> byte" where
  "foldByte c = (if 65 \<le> c \<and> c \<le> 90 then c + 32 else c)"

lemma EqualFold_map: "EqualFold b lower \<longleftrightarrow> map foldByte b = lower"
proof -
  have "length b = length lower \<Longrightarrow> equalFoldLoop b lower \<longleftrightarrow> map foldByte b = lower"
    by (induction b lower rule: equalFoldLoop.induct) (auto simp: foldByte_def)
  then show ?thesis by (auto simp: EqualFold_def)
qed

section \<open>Reading a header block\<close>

lemma HeaderNext_shorter:
  assumes "HeaderNext s = (s', True)"
  shows "length (hs_b s') < length (hs_b s) \<and> hs_err s' = None"
proof -
  obtain line where "cutCRLF (hs_b s) = Some (line, hs_b s')" "hs_err s' = None"
    using assms by (auto simp: HeaderNext_def split: if_splits option.splits)
  from cutCRLF_shorter [OF this(1)] this(2) show ?thesis by simp
qed

text \<open>
  The loop \<^verbatim>\<open>for sc.Next() { ... }\<close> over a scanner, with the loop body as a function of the state it
  updates, the key and the value; the result is the final state and \<^verbatim>\<open>sc.Err()\<close>.
\<close>

function scanFold :: "('a \<Rightarrow> bytes \<Rightarrow> bytes \<Rightarrow> 'a) \<Rightarrow> 'a \<Rightarrow> HeaderScanner \<Rightarrow> 'a \<times> httpErr option" where
  "scanFold body acc s =
     (case HeaderNext s of
        (s', True) \<Rightarrow> scanFold body (body acc (hs_key s') (hs_val s')) s'
      | (s', False) \<Rightarrow> (acc, hs_err s'))"
  by pat_completeness auto
termination
  by (relation "measure (\<lambda>(_, _, s). length (hs_b s))") (auto dest!: HeaderNext_shorter [OF sym])

declare scanFold.simps [simp del]

definition fieldLine :: "bytes \<times> bytes \<Rightarrow> bytes" where
  "fieldLine h = fst h @ [COLON, SP] @ snd h @ CRLF"

text \<open>A field that can be written: a token for a name, a value without CR or LF.\<close>

definition fieldOk :: "bytes \<times> bytes \<Rightarrow> bool" where
  "fieldOk h \<longleftrightarrow> IsToken (fst h) \<and> CR \<notin> set (snd h) \<and> LF \<notin> set (snd h)"

lemma HeaderNext_field:
  assumes "fieldOk h" "hs_err s = None" "hs_b s = fieldLine h @ rest"
  shows "HeaderNext s = (s\<lparr>hs_key := fst h, hs_val := TrimOWS (snd h), hs_b := rest\<rparr>, True)"
proof -
  let ?line = "fst h @ COLON # SP # snd h"
  note t = token_no [of "fst h"]
  obtain c cs where n: "fst h = c # cs" using assms(1) by (cases "fst h") (auto simp: fieldOk_def IsToken_def)
  have c: "c \<noteq> CR" "c \<noteq> SP" "c \<noteq> HT" using t assms(1) n by (auto simp: fieldOk_def)
  have "cutCRLF (?line @ CRLF @ rest) = Some (?line, rest)"
    using assms(1) t by (intro cutCRLF_line) (auto simp: fieldOk_def)
  moreover have "hs_b s = ?line @ CRLF @ rest" using assms(3) by (simp add: fieldLine_def)
  moreover have "cutByte ?line COLON = Some (fst h, SP # snd h)"
    using assms(1) t by (intro cutByte_append) (simp add: fieldOk_def)
  ultimately show ?thesis using assms(2) n c by (simp add: HeaderNext_def TrimOWS_SP)
qed

lemma HeaderNext_end:
  "hs_err s = None \<Longrightarrow> hs_b s = CRLF @ rest \<Longrightarrow> HeaderNext s = (s, False)"
  by (simp add: HeaderNext_def)

lemma scanFold_fields:
  assumes "list_all fieldOk hs" "hs_err s = None" "hs_b s = concat (map fieldLine hs) @ CRLF @ rest"
  shows "scanFold body acc s = (foldl (\<lambda>a h. body a (fst h) (TrimOWS (snd h))) acc hs, None)"
  using assms
proof (induction hs arbitrary: s acc)
  case Nil
  then show ?case by (subst scanFold.simps) (simp add: HeaderNext_end [of s rest])
next
  case (Cons h hs)
  let ?s = "s\<lparr>hs_key := fst h, hs_val := TrimOWS (snd h),
    hs_b := concat (map fieldLine hs) @ CRLF @ rest\<rparr>"
  have "HeaderNext s = (?s, True)" using Cons.prems by (intro HeaderNext_field) simp_all
  then show ?case using Cons.IH [of ?s] Cons.prems by (subst scanFold.simps) simp
qed

section \<open>Properties of the HTTP primitives\<close>

text \<open>A header block is read back as it was written, and nothing can be smuggled into it. For any
  list of fields whose names are tokens and whose values hold neither CR nor LF, the scanner yields
  exactly those names and values (trimmed of blanks) in order and stops at the blank line, whatever
  bytes follow.\<close>

theorem header_block_roundtrip:
  assumes "list_all fieldOk hs"
  shows "scanFold (\<lambda>fs key val. fs @ [(key, val)]) []
      (NewHeaderScanner (concat (map fieldLine hs) @ CRLF @ rest)) =
    (map (\<lambda>h. (fst h, TrimOWS (snd h))) hs, None)"
proof -
  have "foldl (\<lambda>fs h. fs @ [(fst h, TrimOWS (snd h))]) acc hs = acc @ map (\<lambda>h. (fst h, TrimOWS (snd h))) hs"
    for acc by (induction hs arbitrary: acc) simp_all
  then show ?thesis
    by (subst scanFold_fields [OF assms, of _ rest]) (simp_all add: NewHeaderScanner_def)
qed

theorem header_block_roundtrip_witness:
  "scanFold (\<lambda>fs key val. fs @ [(key, val)]) []
      (NewHeaderScanner (concat (map fieldLine [(B ''Host'', B ''example.com''), (B ''X'', B '' y '')]) @
        CRLF @ B ''Evil: 1'')) =
    (map (\<lambda>h. (fst h, TrimOWS (snd h))) [(B ''Host'', B ''example.com''), (B ''X'', B '' y '')], None)"
  by (rule header_block_roundtrip) (simp add: fieldOk_def IsToken_def isTchar_def word_le_def)

end
