(* ===== verification/Extension.thy ===== *)
theory Extension
  imports Httpx
begin

text \<open>
  The extension header, \<^verbatim>\<open>src/internal/extension\<close>: the scanners of \<^verbatim>\<open>extension.go\<close> for lists of
  extension elements and of their parameters (with quoted strings), and the permessage-deflate layer
  of \<^verbatim>\<open>deflate.go\<close>, which parses offers, prints responses and validates responses against an offer.

  The lemmas show that every parameter set the parser accepts is in range, and that a printed
  response is read back as it was printed.
\<close>

section \<open>Quoted strings\<close>

text \<open>
  \<open>splitQuoted inQuotes sep b\<close> is the loop of \<^verbatim>\<open>splitOutsideQuotes\<close>: the bytes before and after the
  first \<open>sep\<close> outside quotes, \<^const>\<open>None\<close> when there is none. Inside quotes a backslash hides the byte
  after it.
\<close>

fun splitQuoted :: "bool \<Rightarrow> byte \<Rightarrow> bytes \<Rightarrow> (bytes \<times> bytes) option" where
  "splitQuoted q sep [] = None"
| "splitQuoted q sep (c # cs) =
     (if q \<and> c = 92 \<and> cs \<noteq> [] then
        map_option (\<lambda>(x, y). (c # hd cs # x, y)) (splitQuoted q sep (tl cs))
      else if c = 34 then map_option (\<lambda>(x, y). (c # x, y)) (splitQuoted (\<not> q) sep cs)
      else if \<not> q \<and> c = sep then Some ([], cs)
      else map_option (\<lambda>(x, y). (c # x, y)) (splitQuoted q sep cs))"

definition splitOutsideQuotes :: "bytes \<Rightarrow> byte \<Rightarrow> bytes \<times> bytes \<times> bool" where
  "splitOutsideQuotes b sep =
     (case splitQuoted False sep b of
        Some (before, after) \<Rightarrow> (before, after, True)
      | None \<Rightarrow> (b, [], False))"

text \<open>The unescaping loop: a backslash that is not the last byte is dropped, the byte after it kept.\<close>

fun unescape :: "bytes \<Rightarrow> bytes" where
  "unescape [] = []"
| "unescape (c # cs) = (if c = 92 \<and> cs \<noteq> [] then hd cs # unescape (tl cs) else c # unescape cs)"

definition unquoteToken :: "bytes \<Rightarrow> bytes option" where
  "unquoteToken v =
     (if length v = 0 then None
      else if v ! 0 \<noteq> 34 then (if \<not> IsToken v then None else Some v)
      else if length v < 2 \<or> v ! (length v - 1) \<noteq> 34 then None
      else
        let inner = take (length v - 2) (drop 1 v) in
        if indexByte inner 92 = None then (if \<not> IsToken inner then None else Some inner)
        else let buf = unescape inner in if \<not> IsToken buf then None else Some buf)"

section \<open>The scanners\<close>

record OfferScanner =
  os_b :: bytes
  os_name :: bytes
  os_params :: bytes

definition NewOfferScanner :: "bytes \<Rightarrow> OfferScanner" where
  "NewOfferScanner b = \<lparr>os_b = b, os_name = [], os_params = []\<rparr>"

lemma splitQuoted_shorter: "splitQuoted q sep b = Some (x, y) \<Longrightarrow> length y < length b"
  by (induction q sep b arbitrary: x rule: splitQuoted.induct)
    (auto split: if_splits simp: less_Suc_eq)

lemma splitOutsideQuotes_shorter:
  "b \<noteq> [] \<Longrightarrow> length (fst (snd (splitOutsideQuotes b sep))) < length b"
  by (auto simp: splitOutsideQuotes_def split: option.split dest: splitQuoted_shorter)

text \<open>The body of the loops takes one element off the list; \<open>after\<close> is empty when there was no separator.\<close>

function OfferNext :: "OfferScanner \<Rightarrow> OfferScanner \<times> bool" where
  "OfferNext s =
     (if os_b s = [] then (s, False)
      else
        let (raw, rest, _) = splitOutsideQuotes (os_b s) COMMA;
            s = s\<lparr>os_b := rest\<rparr>;
            raw = TrimOWS raw in
        if length raw = 0 then OfferNext s
        else
          let (name, params, _) = splitOutsideQuotes raw 59;
              name = TrimOWS name in
          if length name = 0 then OfferNext s
          else (s\<lparr>os_name := name, os_params := TrimOWS params\<rparr>, True))"
  by pat_completeness auto
termination
  by (relation "measure (\<lambda>s. length (os_b s))")
    (auto, (metis fst_conv snd_conv splitOutsideQuotes_shorter)+)

declare OfferNext.simps [simp del]

datatype extErr = ErrMalformedExtensionParam

record ParamScanner =
  ps_b :: bytes
  ps_name :: bytes
  ps_value :: "bytes option"
  ps_err :: "extErr option"

definition Params :: "OfferScanner \<Rightarrow> ParamScanner" where
  "Params s = \<lparr>ps_b = os_params s, ps_name = [], ps_value = None, ps_err = None\<rparr>"

text \<open>A bare parameter has no value (nil in the source); an accepted value is never empty.\<close>

function ParamNext :: "ParamScanner \<Rightarrow> ParamScanner \<times> bool" where
  "ParamNext s =
     (if ps_err s \<noteq> None then (s, False)
      else if ps_b s = [] then (s, False)
      else
        let (raw, rest, _) = splitOutsideQuotes (ps_b s) 59;
            s = s\<lparr>ps_b := rest\<rparr>;
            raw = TrimOWS raw in
        if length raw = 0 then ParamNext s
        else case bytesCut raw 61 of
          (name, rawValue, True) \<Rightarrow>
            let name = TrimOWS name in
            if \<not> IsToken name then (s\<lparr>ps_err := Some ErrMalformedExtensionParam\<rparr>, False)
            else (case unquoteToken (TrimOWS rawValue) of
                    None \<Rightarrow> (s\<lparr>ps_err := Some ErrMalformedExtensionParam\<rparr>, False)
                  | Some v \<Rightarrow> (s\<lparr>ps_name := name, ps_value := Some v\<rparr>, True))
        | (_, _, False) \<Rightarrow>
            if \<not> IsToken raw then (s\<lparr>ps_err := Some ErrMalformedExtensionParam\<rparr>, False)
            else (s\<lparr>ps_name := raw, ps_value := None\<rparr>, True))"
  by pat_completeness auto
termination
  by (relation "measure (\<lambda>s. length (ps_b s))")
    (auto, metis fst_conv snd_conv splitOutsideQuotes_shorter)

declare ParamNext.simps [simp del]

section \<open>permessage-deflate parameters\<close>

definition DeflateExtensionName :: bytes where
  "DeflateExtensionName = B ''permessage-deflate''"

definition minWindowBits :: int where "minWindowBits = 8"
definition maxWindowBits :: int where "maxWindowBits = 15"

datatype deflateErr =
    ErrDeflateInvalidResponse
  | ErrDeflateUnrequestedClientMaxWindowBits
  | ErrDeflateServerMaxWindowBitsTooLarge

definition ClientMaxWindowBitsBare :: int where "ClientMaxWindowBitsBare = - 1"

record DeflateParams =
  ServerNoContextTakeover :: bool
  ClientNoContextTakeover :: bool
  ServerMaxWindowBits :: int
  ClientMaxWindowBits :: int

text \<open>The zero value \<^verbatim>\<open>DeflateParams{}\<close>.\<close>

definition noDeflateParams :: DeflateParams where
  "noDeflateParams = \<lparr>ServerNoContextTakeover = False, ClientNoContextTakeover = False,
     ServerMaxWindowBits = 0, ClientMaxWindowBits = 0\<rparr>"

definition HasClientMaxWindowBits :: "DeflateParams \<Rightarrow> bool" where
  "HasClientMaxWindowBits p \<longleftrightarrow> ClientMaxWindowBits p \<noteq> 0"

definition ClientMaxWindowBitsIsBare :: "DeflateParams \<Rightarrow> bool" where
  "ClientMaxWindowBitsIsBare p \<longleftrightarrow> ClientMaxWindowBits p = ClientMaxWindowBitsBare"

definition ClientMaxWindowBitsValue :: "DeflateParams \<Rightarrow> int" where
  "ClientMaxWindowBitsValue p =
     (if ClientMaxWindowBits p < minWindowBits \<or> ClientMaxWindowBits p > maxWindowBits then 0
      else ClientMaxWindowBits p)"

text \<open>\<open>windowDigits n v\<close>: the digit loop of \<^verbatim>\<open>parseWindowBits\<close>.\<close>

primrec windowDigits :: "int \<Rightarrow> bytes \<Rightarrow> int option" where
  "windowDigits n [] = Some n"
| "windowDigits n (c # cs) =
     (if c < 48 \<or> c > 57 then None else windowDigits (n * 10 + uint (c - 48)) cs)"

definition parseWindowBits :: "bytes option \<Rightarrow> int option" where
  "parseWindowBits mv =
     (let v = (case mv of None \<Rightarrow> [] | Some v \<Rightarrow> v) in
      if length v = 0 \<or> length v > 2 \<or> v ! 0 = 48 then None
      else case windowDigits 0 v of
        None \<Rightarrow> None
      | Some n \<Rightarrow> if n < minWindowBits \<or> n > maxWindowBits then None else Some n)"

lemma ParamNext_shorter: "ParamNext s = (s', True) \<Longrightarrow> length (ps_b s') < length (ps_b s)"
proof (induction s rule: ParamNext.induct)
  case (1 s)
  show ?case
  proof (cases "ps_err s \<noteq> None \<or> ps_b s = []")
    case True
    then have "ParamNext s = (s, False)" by (subst ParamNext.simps) (auto simp del: Let_def)
    then show ?thesis using 1(2) by simp
  next
    case False
    obtain raw rest f where sp: "splitOutsideQuotes (ps_b s) 59 = (raw, rest, f)" by (metis surj_pair)
    have l: "length rest < length (ps_b s)"
      using splitOutsideQuotes_shorter [of "ps_b s" 59] False sp by simp
    show ?thesis
    proof (cases "length (TrimOWS raw) = 0")
      case True
      then have "ParamNext s = ParamNext (s\<lparr>ps_b := rest\<rparr>)"
        using False sp by (subst ParamNext.simps) simp
      then show ?thesis using 1 False sp True l by fastforce
    next
      case nonempty: False
      then show ?thesis using 1(2) False sp l
        by (subst (asm) ParamNext.simps) (auto simp: Let_def split: prod.splits bool.splits if_splits option.splits)
    qed
  qed
qed

text \<open>The parameters seen so far, \<^verbatim>\<open>haveServerNCT\<close> to \<^verbatim>\<open>haveClientBits\<close>.\<close>

record deflateSeen =
  haveServerNCT :: bool
  haveClientNCT :: bool
  haveServerBits :: bool
  haveClientBits :: bool

definition deflateParam ::
    "deflateSeen \<times> DeflateParams \<Rightarrow> bytes \<Rightarrow> bytes option \<Rightarrow> (deflateSeen \<times> DeflateParams) option" where
  "deflateParam st name val =
     (case st of (h, p) \<Rightarrow>
      if EqualFold name (B ''server_no_context_takeover'') then
        (if haveServerNCT h \<or> val \<noteq> None then None
         else Some (h\<lparr>haveServerNCT := True\<rparr>, p\<lparr>ServerNoContextTakeover := True\<rparr>))
      else if EqualFold name (B ''client_no_context_takeover'') then
        (if haveClientNCT h \<or> val \<noteq> None then None
         else Some (h\<lparr>haveClientNCT := True\<rparr>, p\<lparr>ClientNoContextTakeover := True\<rparr>))
      else if EqualFold name (B ''server_max_window_bits'') then
        (if haveServerBits h then None
         else case parseWindowBits val of
           None \<Rightarrow> None
         | Some bits \<Rightarrow> Some (h\<lparr>haveServerBits := True\<rparr>, p\<lparr>ServerMaxWindowBits := bits\<rparr>))
      else if EqualFold name (B ''client_max_window_bits'') then
        (if haveClientBits h then None
         else if val = None then
           Some (h\<lparr>haveClientBits := True\<rparr>, p\<lparr>ClientMaxWindowBits := ClientMaxWindowBitsBare\<rparr>)
         else case parseWindowBits val of
           None \<Rightarrow> None
         | Some bits \<Rightarrow> Some (h\<lparr>haveClientBits := True\<rparr>, p\<lparr>ClientMaxWindowBits := bits\<rparr>))
      else None)"

function deflateLoop :: "deflateSeen \<times> DeflateParams \<Rightarrow> ParamScanner \<Rightarrow> DeflateParams option" where
  "deflateLoop st params =
     (case ParamNext params of
        (params', True) \<Rightarrow>
          (case deflateParam st (ps_name params') (ps_value params') of
             None \<Rightarrow> None
           | Some st' \<Rightarrow> deflateLoop st' params')
      | (params', False) \<Rightarrow> if ps_err params' \<noteq> None then None else Some (snd st))"
  by pat_completeness auto
termination
  by (relation "measure (\<lambda>(_, s). length (ps_b s))") (auto dest!: ParamNext_shorter [OF sym])

declare deflateLoop.simps [simp del]

definition parseDeflateParams :: "ParamScanner \<Rightarrow> DeflateParams option" where
  "parseDeflateParams params =
     deflateLoop (\<lparr>haveServerNCT = False, haveClientNCT = False, haveServerBits = False,
       haveClientBits = False\<rparr>, noDeflateParams) params"

definition ParseDeflateOfferParams :: "ParamScanner \<Rightarrow> DeflateParams option" where
  "ParseDeflateOfferParams params = parseDeflateParams params"

text \<open>\<^verbatim>\<open>strconv.AppendInt(dst, n, 10)\<close> for a non-negative number.\<close>

fun decimal :: "nat \<Rightarrow> bytes" where
  "decimal n = (if n < 10 then [word_of_nat (48 + n)]
     else decimal (n div 10) @ [word_of_nat (48 + n mod 10)])"

declare decimal.simps [simp del]

definition AppendDeflateResponse :: "bytes \<Rightarrow> DeflateParams \<Rightarrow> bytes" where
  "AppendDeflateResponse dst agreed =
     dst @ DeflateExtensionName @
     (if ServerNoContextTakeover agreed then B ''; server_no_context_takeover'' else []) @
     (if ClientNoContextTakeover agreed then B ''; client_no_context_takeover'' else []) @
     (if minWindowBits \<le> ServerMaxWindowBits agreed \<and> ServerMaxWindowBits agreed \<le> maxWindowBits
      then B ''; server_max_window_bits='' @ decimal (nat (ServerMaxWindowBits agreed)) else []) @
     (let v = ClientMaxWindowBitsValue agreed in
      if v \<noteq> 0 then B ''; client_max_window_bits='' @ decimal (nat v) else [])"

lemma OfferNext_shorter: "OfferNext s = (s', True) \<Longrightarrow> length (os_b s') < length (os_b s)"
proof (induction s rule: OfferNext.induct)
  case (1 s)
  show ?case
  proof (cases "os_b s = []")
    case True
    then show ?thesis using 1(3) by (subst (asm) OfferNext.simps) simp
  next
    case False
    obtain raw rest f where sp: "splitOutsideQuotes (os_b s) COMMA = (raw, rest, f)" by (metis surj_pair)
    obtain name params g where np: "splitOutsideQuotes (TrimOWS raw) 59 = (name, params, g)"
      by (metis surj_pair)
    have l: "length rest < length (os_b s)"
      using splitOutsideQuotes_shorter [of "os_b s" COMMA] False sp by simp
    show ?thesis
    proof (cases "length (TrimOWS raw) = 0 \<or> length (TrimOWS name) = 0")
      case True
      then have "OfferNext s = OfferNext (s\<lparr>os_b := rest\<rparr>)"
        using False sp np by (subst OfferNext.simps) (auto simp: Let_def)
      then show ?thesis using 1 False sp np True l by fastforce
    next
      case nonempty: False
      then show ?thesis using 1(3) False sp np l by (subst (asm) OfferNext.simps) (auto simp: Let_def)
    qed
  qed
qed

function responseLoop :: "DeflateParams \<Rightarrow> OfferScanner \<Rightarrow> deflateErr + DeflateParams" where
  "responseLoop offered sc =
     (case OfferNext sc of
        (sc', False) \<Rightarrow> Inl ErrDeflateInvalidResponse
      | (sc', True) \<Rightarrow>
          if \<not> EqualFold (os_name sc') DeflateExtensionName then responseLoop offered sc'
          else case parseDeflateParams (Params sc') of
            None \<Rightarrow> Inl ErrDeflateInvalidResponse
          | Some params \<Rightarrow>
              if ClientMaxWindowBitsIsBare params then Inl ErrDeflateInvalidResponse
              else if HasClientMaxWindowBits params \<and> \<not> HasClientMaxWindowBits offered
              then Inl ErrDeflateUnrequestedClientMaxWindowBits
              else if ServerMaxWindowBits params \<noteq> 0 \<and> ServerMaxWindowBits offered \<noteq> 0 \<and>
                ServerMaxWindowBits params > ServerMaxWindowBits offered
              then Inl ErrDeflateServerMaxWindowBitsTooLarge
              else Inr params)"
  by pat_completeness auto
termination
  by (relation "measure (\<lambda>(_, s). length (os_b s))") (auto dest!: OfferNext_shorter [OF sym])

declare responseLoop.simps [simp del]

definition ValidateDeflateResponse :: "DeflateParams \<Rightarrow> bytes \<Rightarrow> deflateErr + DeflateParams" where
  "ValidateDeflateResponse offered response = responseLoop offered (NewOfferScanner response)"

section \<open>Scanning what was printed\<close>

lemma splitQuoted_at:
  "34 \<notin> set x \<Longrightarrow> sep \<notin> set x \<Longrightarrow> sep \<noteq> 34 \<Longrightarrow> splitQuoted False sep (x @ sep # y) = Some (x, y)"
  by (induction x) auto

lemma splitQuoted_none: "34 \<notin> set x \<Longrightarrow> sep \<notin> set x \<Longrightarrow> splitQuoted False sep x = None"
  by (induction x) auto

text \<open>One parameter: a name, alone or with a value, both tokens.\<close>

definition paramOk :: "bytes \<times> bytes option \<Rightarrow> bool" where
  "paramOk e \<longleftrightarrow> IsToken (fst e) \<and> (case snd e of None \<Rightarrow> True | Some v \<Rightarrow> IsToken v)"

definition paramText :: "bytes \<times> bytes option \<Rightarrow> bytes" where
  "paramText e = fst e @ (case snd e of None \<Rightarrow> [] | Some v \<Rightarrow> 61 # v)"

primrec paramsTail :: "(bytes \<times> bytes option) list \<Rightarrow> bytes" where
  "paramsTail [] = []"
| "paramsTail (e # es) = 59 # SP # paramText e @ paramsTail es"

lemma paramText_no:
  assumes "paramOk e"
  shows "34 \<notin> set (paramText e)" "59 \<notin> set (paramText e)" "44 \<notin> set (paramText e)"
    "paramText e \<noteq> []" "\<not> isOWS (hd (paramText e))" "\<not> isOWS (last (paramText e))"
proof -
  note t = token_no [of "fst e"]
  have n: "IsToken (fst e)" using assms by (simp add: paramOk_def)
  show "34 \<notin> set (paramText e)" "59 \<notin> set (paramText e)" "44 \<notin> set (paramText e)"
    using assms token_no t by (auto simp: paramOk_def paramText_def split: option.splits)
  show ne: "paramText e \<noteq> []" using n by (auto simp: paramText_def IsToken_def)
  have "SP \<notin> set (paramText e)" "HT \<notin> set (paramText e)"
    using assms token_no t by (auto simp: paramOk_def paramText_def split: option.splits)
  then show "\<not> isOWS (hd (paramText e))" "\<not> isOWS (last (paramText e))"
    using hd_in_set [OF ne] last_in_set [OF ne] unfolding isOWS_def by metis+
qed

lemma TrimOWS_paramText:
  assumes "paramOk e"
  shows "TrimOWS (paramText e) = paramText e" "TrimOWS (SP # paramText e) = paramText e"
  using paramText_no [OF assms] by (simp_all add: TrimOWS_id TrimOWS_SP)

lemma unquoteToken_token: "IsToken v \<Longrightarrow> unquoteToken v = Some v"
  using token_no(7) [of v] by (cases v) (auto simp: unquoteToken_def IsToken_def)

lemma split_params:
  assumes "paramOk e" "b = paramText e @ paramsTail es \<or> b = SP # paramText e @ paramsTail es"
  shows "\<exists>raw f. splitOutsideQuotes b 59 =
      (raw, (case es of [] \<Rightarrow> [] | d # ds \<Rightarrow> SP # paramText d @ paramsTail ds), f) \<and>
    TrimOWS raw = paramText e"
proof -
  obtain x where x: "b = x @ paramsTail es" "x = paramText e \<or> x = SP # paramText e"
    using assms(2) by (metis append_Cons)
  then have no: "34 \<notin> set x" "59 \<notin> set x" "TrimOWS x = paramText e"
    using paramText_no [OF assms(1)] TrimOWS_paramText [OF assms(1)] by auto
  show ?thesis
  proof (cases es)
    case Nil
    then show ?thesis using x no
      by (intro exI [of _ x] exI [of _ False]) (simp add: splitOutsideQuotes_def splitQuoted_none)
  next
    case (Cons d ds)
    then show ?thesis using x no
      by (intro exI [of _ x] exI [of _ True]) (simp add: splitOutsideQuotes_def splitQuoted_at)
  qed
qed

lemma ParamNext_param:
  assumes "paramOk e" "ps_err s = None"
    "ps_b s = paramText e @ paramsTail es \<or> ps_b s = SP # paramText e @ paramsTail es"
  shows "ParamNext s = (s\<lparr>ps_name := fst e, ps_value := snd e,
    ps_b := (case es of [] \<Rightarrow> [] | d # ds \<Rightarrow> SP # paramText d @ paramsTail ds)\<rparr>, True)"
proof -
  obtain raw f where sp: "splitOutsideQuotes (ps_b s) 59 =
      (raw, (case es of [] \<Rightarrow> [] | d # ds \<Rightarrow> SP # paramText d @ paramsTail ds), f)"
    "TrimOWS raw = paramText e" using split_params [OF assms(1,3)] by blast
  have t: "IsToken (fst e)" "61 \<notin> set (fst e)"
    using assms(1) token_no(9) [of "fst e"] by (auto simp: paramOk_def)
  have ne: "ps_b s \<noteq> []" "paramText e \<noteq> []" using assms(3) paramText_no(4) [OF assms(1)] by auto
  have cut: "bytesCut (paramText e) 61 = (case snd e of None \<Rightarrow> (paramText e, [], False)
      | Some v \<Rightarrow> (fst e, v, True))"
    using t by (auto simp: paramText_def split: option.split)
  show ?thesis
  proof (cases "snd e")
    case None
    then show ?thesis using assms(2) sp ne cut t
      by (subst ParamNext.simps) (simp add: paramText_def)
  next
    case (Some v)
    then have "IsToken v" using assms(1) by (simp add: paramOk_def)
    then show ?thesis using assms(2) sp ne cut t Some
      by (subst ParamNext.simps) (simp add: TrimOWS_token unquoteToken_token)
  qed
qed

text \<open>The parameters in turn, as the parser meets them.\<close>

primrec deflateFold :: "deflateSeen \<times> DeflateParams \<Rightarrow> (bytes \<times> bytes option) list \<Rightarrow>
    DeflateParams option" where
  "deflateFold st [] = Some (snd st)"
| "deflateFold st (e # es) =
     (case deflateParam st (fst e) (snd e) of None \<Rightarrow> None | Some st' \<Rightarrow> deflateFold st' es)"

lemma deflateLoop_end: "ps_err s = None \<Longrightarrow> ps_b s = [] \<Longrightarrow> deflateLoop st s = Some (snd st)"
proof -
  assume "ps_err s = None" "ps_b s = []"
  then have "ParamNext s = (s, False)" by (subst ParamNext.simps) simp
  then show "deflateLoop st s = Some (snd st)" using \<open>ps_err s = None\<close>
    by (subst deflateLoop.simps) simp
qed

lemma deflateLoop_params:
  assumes "list_all paramOk (e # es)" "ps_err s = None"
    "ps_b s = paramText e @ paramsTail es \<or> ps_b s = SP # paramText e @ paramsTail es"
  shows "deflateLoop st s = deflateFold st (e # es)"
  using assms
proof (induction es arbitrary: st s e)
  case Nil
  let ?s = "s\<lparr>ps_name := fst e, ps_value := snd e, ps_b := []\<rparr>"
  have "ParamNext s = (?s, True)" using ParamNext_param [of e s "[]"] Nil.prems by simp
  then show ?case using deflateLoop_end [of ?s] Nil.prems(2)
    by (subst deflateLoop.simps) (simp split: option.split)
next
  case (Cons d ds)
  let ?s = "s\<lparr>ps_name := fst e, ps_value := snd e, ps_b := SP # paramText d @ paramsTail ds\<rparr>"
  have "ParamNext s = (?s, True)" using ParamNext_param [of e s "d # ds"] Cons.prems by simp
  moreover have "deflateLoop st' ?s = deflateFold st' (d # ds)" for st'
    using Cons.IH [of d ?s st'] Cons.prems by simp
  ultimately show ?case by (subst deflateLoop.simps) (simp split: option.split)
qed

section \<open>Parameters in range\<close>

text \<open>The values an accepted parameter set can have.\<close>

definition paramsInRange :: "DeflateParams \<Rightarrow> bool" where
  "paramsInRange p \<longleftrightarrow>
     (ServerMaxWindowBits p = 0 \<or> 8 \<le> ServerMaxWindowBits p \<and> ServerMaxWindowBits p \<le> 15) \<and>
     (ClientMaxWindowBits p = 0 \<or> ClientMaxWindowBits p = ClientMaxWindowBitsBare \<or>
      8 \<le> ClientMaxWindowBits p \<and> ClientMaxWindowBits p \<le> 15)"

lemma parseWindowBits_range: "parseWindowBits v = Some n \<Longrightarrow> 8 \<le> n \<and> n \<le> 15"
  by (auto simp: parseWindowBits_def minWindowBits_def maxWindowBits_def Let_def
      split: if_splits option.splits)

lemma deflateParam_range:
  "deflateParam st name val = Some st' \<Longrightarrow> paramsInRange (snd st) \<Longrightarrow> paramsInRange (snd st')"
  by (auto simp: deflateParam_def paramsInRange_def split: prod.splits if_splits option.splits
      dest!: parseWindowBits_range)

lemma deflateLoop_range:
  "deflateLoop st ps = Some p \<Longrightarrow> paramsInRange (snd st) \<Longrightarrow> paramsInRange p"
proof (induction st ps rule: deflateLoop.induct)
  case (1 st ps)
  obtain ps' ok where n: "ParamNext ps = (ps', ok)" by fastforce
  show ?case
  proof (cases ok)
    case True
    then obtain st' where "deflateParam st (ps_name ps') (ps_value ps') = Some st'"
      "deflateLoop st' ps' = Some p"
      using 1(2) n by (subst (asm) deflateLoop.simps) (auto split: option.splits)
    then show ?thesis using 1(1) [OF n [symmetric]] 1(3) True deflateParam_range by blast
  next
    case False
    then show ?thesis using 1(2,3) n by (subst (asm) deflateLoop.simps) (auto split: if_splits)
  qed
qed

lemma parseDeflateParams_range: "parseDeflateParams ps = Some p \<Longrightarrow> paramsInRange p"
  unfolding parseDeflateParams_def
  by (erule deflateLoop_range) (simp add: paramsInRange_def noDeflateParams_def)

section \<open>Responses read back\<close>

text \<open>The parameters of a response, in the order they are printed.\<close>

definition responseParams :: "DeflateParams \<Rightarrow> (bytes \<times> bytes option) list" where
  "responseParams p =
     (if ServerNoContextTakeover p then [(B ''server_no_context_takeover'', None)] else []) @
     (if ClientNoContextTakeover p then [(B ''client_no_context_takeover'', None)] else []) @
     (if 8 \<le> ServerMaxWindowBits p \<and> ServerMaxWindowBits p \<le> 15
      then [(B ''server_max_window_bits'', Some (decimal (nat (ServerMaxWindowBits p))))] else []) @
     (if 8 \<le> ClientMaxWindowBits p \<and> ClientMaxWindowBits p \<le> 15
      then [(B ''client_max_window_bits'', Some (decimal (nat (ClientMaxWindowBits p))))] else [])"

lemma paramsTail_append: "paramsTail (xs @ ys) = paramsTail xs @ paramsTail ys"
  by (induction xs) simp_all

lemma AppendDeflateResponse_text:
  "AppendDeflateResponse dst p = dst @ DeflateExtensionName @ paramsTail (responseParams p)"
  by (simp add: AppendDeflateResponse_def responseParams_def paramsTail_append paramText_def
      ClientMaxWindowBitsValue_def minWindowBits_def maxWindowBits_def)

lemma decimal_window:
  assumes "8 \<le> n" "n \<le> 15"
  shows "IsToken (decimal (nat n))" "parseWindowBits (Some (decimal (nat n))) = Some n"
proof -
  have "n \<in> {8, 9, 10, 11, 12, 13, 14, 15}" using assms by auto
  then show "IsToken (decimal (nat n))" "parseWindowBits (Some (decimal (nat n))) = Some n"
    unfolding insert_iff empty_iff
    by (elim disjE FalseE; simp add: decimal.simps IsToken_def isTchar_def parseWindowBits_def
        minWindowBits_def maxWindowBits_def word_le_def word_less_def)+
qed

lemma EqualFold_names:
  "EqualFold (B ''server_no_context_takeover'') (B ''server_no_context_takeover'')"
  "EqualFold (B ''client_no_context_takeover'') (B ''client_no_context_takeover'')"
  "EqualFold (B ''server_max_window_bits'') (B ''server_max_window_bits'')"
  "EqualFold (B ''client_max_window_bits'') (B ''client_max_window_bits'')"
  "\<not> EqualFold (B ''client_no_context_takeover'') (B ''server_no_context_takeover'')"
  "\<not> EqualFold (B ''server_max_window_bits'') (B ''server_no_context_takeover'')"
  "\<not> EqualFold (B ''server_max_window_bits'') (B ''client_no_context_takeover'')"
  "\<not> EqualFold (B ''client_max_window_bits'') (B ''server_no_context_takeover'')"
  "\<not> EqualFold (B ''client_max_window_bits'') (B ''client_no_context_takeover'')"
  "\<not> EqualFold (B ''client_max_window_bits'') (B ''server_max_window_bits'')"
  "EqualFold DeflateExtensionName DeflateExtensionName"
  by (simp_all add: EqualFold_map foldByte_def word_le_def DeflateExtensionName_def)

lemma responseParams_ok: "list_all paramOk (responseParams p)"
  using decimal_window
  by (simp add: responseParams_def paramOk_def IsToken_def isTchar_def word_le_def)

lemma paramsTail_last:
  assumes "list_all paramOk es" "es \<noteq> []"
  shows "\<not> isOWS (last (paramsTail es))"
proof -
  have ne: "xs \<noteq> [] \<Longrightarrow> paramsTail xs \<noteq> []" for xs by (cases xs) simp_all
  have "last (paramsTail es) = last (paramText (last es))"
    using assms paramText_no(4) by (induction es) (auto simp: ne)
  then show ?thesis using assms paramText_no(6) by (simp add: list_all_iff)
qed

text \<open>The header value of a single element: its name and its parameters come out.\<close>

lemma OfferNext_response:
  assumes "list_all paramOk es" "IsToken name"
  shows "\<exists>s. OfferNext (NewOfferScanner (name @ paramsTail es)) = (s, True) \<and> os_b s = [] \<and>
    os_name s = name \<and> os_params s = TrimOWS (drop 1 (paramsTail es))"
proof -
  have no: "34 \<notin> set (paramsTail es)" "44 \<notin> set (paramsTail es)"
    using assms(1) paramText_no by (induction es) auto
  note t = token_no [OF assms(2)]
  have ne: "name \<noteq> []" using assms(2) by (simp add: IsToken_def)
  have ends: "\<not> isOWS (hd (name @ paramsTail es))" "\<not> isOWS (last (name @ paramsTail es))"
  proof -
    note paramsTail_last [OF assms(1)]
    moreover have "\<not> isOWS (last name)" "\<not> isOWS (hd name)"
      using t(1,4) ne hd_in_set [of name] last_in_set [of name] unfolding isOWS_def by metis+
    ultimately show "\<not> isOWS (hd (name @ paramsTail es))" "\<not> isOWS (last (name @ paramsTail es))"
      using ne by (cases es; simp)+
  qed
  have "splitOutsideQuotes (name @ paramsTail es) COMMA = (name @ paramsTail es, [], False)"
    using no t by (simp add: splitOutsideQuotes_def splitQuoted_none)
  moreover have "TrimOWS (name @ paramsTail es) = name @ paramsTail es" using ends by (intro TrimOWS_id) auto
  moreover have "\<exists>f. splitOutsideQuotes (name @ paramsTail es) 59 = (name, drop 1 (paramsTail es), f)"
  proof (cases es)
    case Nil
    then show ?thesis using t
      by (intro exI [of _ False]) (simp add: splitOutsideQuotes_def splitQuoted_none)
  next
    case (Cons d ds)
    then show ?thesis using t
      by (intro exI [of _ True]) (simp add: splitOutsideQuotes_def splitQuoted_at)
  qed
  ultimately show ?thesis using ne TrimOWS_token [OF assms(2)]
    by (subst OfferNext.simps) (auto simp: NewOfferScanner_def)
qed

lemma parse_responseParams:
  assumes "paramsInRange p" "\<not> ClientMaxWindowBitsIsBare p"
  shows "deflateFold (\<lparr>haveServerNCT = False, haveClientNCT = False, haveServerBits = False,
       haveClientBits = False\<rparr>, noDeflateParams) (responseParams p) = Some p"
proof -
  obtain a b c d where p: "p = \<lparr>ServerNoContextTakeover = a, ClientNoContextTakeover = b,
    ServerMaxWindowBits = c, ClientMaxWindowBits = d\<rparr>" by (cases p)
  show ?thesis
    using assms decimal_window unfolding p
    by (cases a; cases b; cases "8 \<le> c \<and> c \<le> 15"; cases "8 \<le> d \<and> d \<le> 15")
      (simp_all add: responseParams_def deflateParam_def EqualFold_names noDeflateParams_def
        paramsInRange_def ClientMaxWindowBitsIsBare_def del: B_Cons)
qed

lemma parse_response_element:
  assumes "os_params s = TrimOWS (drop 1 (paramsTail (responseParams p)))"
    "paramsInRange p" "\<not> ClientMaxWindowBitsIsBare p"
  shows "parseDeflateParams (Params s) = Some p"
proof (cases "responseParams p")
  case Nil
  then have "noDeflateParams = p" using parse_responseParams [OF assms(2,3)] by simp
  then show ?thesis using Nil assms(1)
    by (simp add: parseDeflateParams_def Params_def deflateLoop_end)
next
  case (Cons e es)
  have ok: "list_all paramOk (e # es)" using responseParams_ok [of p] Cons by simp
  have "TrimOWS (SP # paramText e @ paramsTail es) = paramText e @ paramsTail es"
    unfolding TrimOWS_SP using ok paramText_no [of e] paramsTail_last [of es]
    by (intro TrimOWS_id) (cases es; simp)
  then have "os_params s = paramText e @ paramsTail es" using assms(1) Cons by simp
  then show ?thesis
    using deflateLoop_params [OF ok, of "Params s"] parse_responseParams [OF assms(2,3)] Cons
    by (simp add: parseDeflateParams_def Params_def)
qed

text \<open>What the client makes of a printed response, whatever it offered.\<close>

lemma Validate_Append:
  assumes "paramsInRange p" "\<not> ClientMaxWindowBitsIsBare p"
  shows "ValidateDeflateResponse offered (AppendDeflateResponse [] p) =
    (if HasClientMaxWindowBits p \<and> \<not> HasClientMaxWindowBits offered
     then Inl ErrDeflateUnrequestedClientMaxWindowBits
     else if ServerMaxWindowBits p \<noteq> 0 \<and> ServerMaxWindowBits offered \<noteq> 0 \<and>
       ServerMaxWindowBits p > ServerMaxWindowBits offered
     then Inl ErrDeflateServerMaxWindowBitsTooLarge else Inr p)"
proof -
  have "IsToken DeflateExtensionName"
    by (simp add: DeflateExtensionName_def IsToken_def isTchar_def word_le_def)
  then obtain s where s: "OfferNext (NewOfferScanner (DeflateExtensionName @ paramsTail (responseParams p))) = (s, True)"
    "os_name s = DeflateExtensionName" "os_params s = TrimOWS (drop 1 (paramsTail (responseParams p)))"
    using OfferNext_response [OF responseParams_ok] by blast
  from parse_response_element [OF s(3) assms] show ?thesis
    unfolding ValidateDeflateResponse_def AppendDeflateResponse_text append_Nil
    using assms(2) by (subst responseLoop.simps) (simp add: s EqualFold_names)
qed

lemma responseLoop_accepts:
  "responseLoop offered sc = Inr p \<Longrightarrow> paramsInRange p \<and> \<not> ClientMaxWindowBitsIsBare p \<and>
      \<not> (HasClientMaxWindowBits p \<and> \<not> HasClientMaxWindowBits offered) \<and>
      \<not> (ServerMaxWindowBits p \<noteq> 0 \<and> ServerMaxWindowBits offered \<noteq> 0 \<and>
         ServerMaxWindowBits p > ServerMaxWindowBits offered)"
proof (induction offered sc rule: responseLoop.induct)
  case (1 offered sc)
  obtain sc' ok where n: "OfferNext sc = (sc', ok)" by fastforce
  note e = 1(2) [unfolded responseLoop.simps [of offered sc] n]
  show ?case
  proof (cases "ok \<and> \<not> EqualFold (os_name sc') DeflateExtensionName")
    case True
    then show ?thesis using 1(1) [OF n [symmetric]] e by simp
  next
    case False
    then show ?thesis using e
      by (auto split: bool.splits if_splits option.splits dest: parseDeflateParams_range)
  qed
qed

section \<open>Properties of the extension layer\<close>

text \<open>Only parameters in range are ever accepted. Whatever bytes an offer or a response carries,
  parameters that parse have \<open>server_max_window_bits\<close> absent or between 8 and 15, and
  \<open>client_max_window_bits\<close> absent, bare or between 8 and 15; in a validated response it is never bare,
  never unrequested, and the server's window never exceeds the offer's.\<close>

theorem deflate_params_in_range:
  "(case ParseDeflateOfferParams ps of None \<Rightarrow> True | Some p \<Rightarrow> paramsInRange p) \<and>
   (case ValidateDeflateResponse offered response of
      Inl _ \<Rightarrow> True
    | Inr p \<Rightarrow> paramsInRange p \<and> ClientMaxWindowBits p \<noteq> ClientMaxWindowBitsBare \<and>
        (if HasClientMaxWindowBits offered then True else ClientMaxWindowBits p = 0) \<and>
        (if ServerMaxWindowBits offered \<le> 0 then True
         else ServerMaxWindowBits p \<le> ServerMaxWindowBits offered))"
proof (intro conjI)
  show "case ParseDeflateOfferParams ps of None \<Rightarrow> True | Some p \<Rightarrow> paramsInRange p"
    by (simp add: ParseDeflateOfferParams_def parseDeflateParams_range split: option.split)
  note responseLoop_accepts [of offered "NewOfferScanner response"]
  then show "case ValidateDeflateResponse offered response of
      Inl _ \<Rightarrow> True
    | Inr p \<Rightarrow> paramsInRange p \<and> ClientMaxWindowBits p \<noteq> ClientMaxWindowBitsBare \<and>
        (if HasClientMaxWindowBits offered then True else ClientMaxWindowBits p = 0) \<and>
        (if ServerMaxWindowBits offered \<le> 0 then True
         else ServerMaxWindowBits p \<le> ServerMaxWindowBits offered)"
    unfolding ValidateDeflateResponse_def
    by (auto simp: ClientMaxWindowBitsIsBare_def HasClientMaxWindowBits_def paramsInRange_def
        split: sum.split)
qed

text \<open>A response is understood as it was meant. A response printed from parameters in range is
  accepted by a client that offered \<open>client_max_window_bits\<close> (if the response uses it) and no smaller
  server window, and gives exactly those parameters back.\<close>

theorem deflate_response_roundtrip:
  assumes "paramsInRange p" "ClientMaxWindowBits p \<noteq> ClientMaxWindowBitsBare"
    "ClientMaxWindowBits p = 0 \<or> HasClientMaxWindowBits offered"
    "ServerMaxWindowBits offered = 0 \<or> ServerMaxWindowBits p \<le> ServerMaxWindowBits offered"
  shows "ValidateDeflateResponse offered (AppendDeflateResponse [] p) = Inr p"
  using assms by (auto simp: Validate_Append ClientMaxWindowBitsIsBare_def HasClientMaxWindowBits_def)

theorem deflate_response_roundtrip_witness:
  "ValidateDeflateResponse
     \<lparr>ServerNoContextTakeover = False, ClientNoContextTakeover = False, ServerMaxWindowBits = 12,
      ClientMaxWindowBits = - 1\<rparr>
     (AppendDeflateResponse [] \<lparr>ServerNoContextTakeover = True, ClientNoContextTakeover = False,
       ServerMaxWindowBits = 11, ClientMaxWindowBits = 10\<rparr>) =
   Inr \<lparr>ServerNoContextTakeover = True, ClientNoContextTakeover = False, ServerMaxWindowBits = 11,
     ClientMaxWindowBits = 10\<rparr>"
  by (rule deflate_response_roundtrip)
    (simp_all add: paramsInRange_def ClientMaxWindowBitsBare_def HasClientMaxWindowBits_def)

end
