(* ===== verification/Negotiation.thy ===== *)
theory Negotiation
  imports Extension
begin

text \<open>
  Negotiating permessage-deflate: the server's choice among a client's offers
  (\<^verbatim>\<open>negotiateDeflateWithHint\<close> of \<^verbatim>\<open>src/upgrader.go\<close>), the client's offer (\<^verbatim>\<open>deflateOffer\<close> of
  \<^verbatim>\<open>src/dialer.go\<close>) and its check of the response (\<^verbatim>\<open>ParseCompression\<close> of \<^verbatim>\<open>src/negotiation.go\<close>).
  The window size of the process's active backend (\<^verbatim>\<open>currentDeflateWindowBits()\<close>) is an argument.

  The lemmas show that the two sides always agree: whatever offers a client sends, the response the
  server prints is one the client accepts, with the parameters the server uses.
\<close>

definition deflateWindowBits :: int where "deflateWindowBits = 15"
definition minDeflateWindowBits :: int where "minDeflateWindowBits = 8"

record CompressionParams =
  cp_ServerContextTakeover :: bool
  cp_ClientContextTakeover :: bool
  cp_ServerMaxWindowBits :: int
  cp_ClientMaxWindowBits :: int
  cp_ClientMaxWindowBitsHint :: int

definition noCompressionParams :: CompressionParams where
  "noCompressionParams = \<lparr>cp_ServerContextTakeover = False, cp_ClientContextTakeover = False,
     cp_ServerMaxWindowBits = 0, cp_ClientMaxWindowBits = 0, cp_ClientMaxWindowBitsHint = 0\<rparr>"

definition compressionParamsFromDeflate :: "DeflateParams \<Rightarrow> CompressionParams" where
  "compressionParamsFromDeflate p =
     \<lparr>cp_ServerContextTakeover = (\<not> ServerNoContextTakeover p),
      cp_ClientContextTakeover = (\<not> ClientNoContextTakeover p),
      cp_ServerMaxWindowBits = ServerMaxWindowBits p,
      cp_ClientMaxWindowBits = ClientMaxWindowBitsValue p,
      cp_ClientMaxWindowBitsHint = 0\<rparr>"

section \<open>The server's side\<close>

record deflateNegotiatePolicy =
  pol_negotiateWindowBits :: bool
  pol_allowContextTakeover :: bool
  pol_clientWindowBits :: int

text \<open>The response to one acceptable offer.\<close>

definition agreeTo :: "int \<Rightarrow> deflateNegotiatePolicy \<Rightarrow> DeflateParams \<Rightarrow> DeflateParams" where
  "agreeTo activeBits policy params =
     (let agreed = noDeflateParams\<lparr>ServerNoContextTakeover := True, ClientNoContextTakeover := True\<rparr>;
          agreed = (if pol_allowContextTakeover policy
            then agreed\<lparr>ServerNoContextTakeover := ServerNoContextTakeover params,
                        ClientNoContextTakeover := ClientNoContextTakeover params\<rparr>
            else agreed);
          agreed = (if ServerMaxWindowBits params \<noteq> 0 \<or> activeBits < deflateWindowBits
            then agreed\<lparr>ServerMaxWindowBits := activeBits\<rparr> else agreed)
      in if pol_clientWindowBits policy \<noteq> 0 \<and> HasClientMaxWindowBits params then
           let v = ClientMaxWindowBitsValue params in
           agreed\<lparr>ClientMaxWindowBits :=
             (if v \<noteq> 0 \<and> v < pol_clientWindowBits policy then v else pol_clientWindowBits policy)\<rparr>
         else agreed)"

function negotiateLoop :: "int \<Rightarrow> deflateNegotiatePolicy \<Rightarrow> OfferScanner \<Rightarrow>
    (DeflateParams \<times> int) option" where
  "negotiateLoop activeBits policy sc =
     (case OfferNext sc of
        (sc', False) \<Rightarrow> None
      | (sc', True) \<Rightarrow>
          if \<not> EqualFold (os_name sc') DeflateExtensionName then negotiateLoop activeBits policy sc'
          else case ParseDeflateOfferParams (Params sc') of
            None \<Rightarrow> negotiateLoop activeBits policy sc'
          | Some params \<Rightarrow>
              if ServerMaxWindowBits params \<noteq> 0 \<and> ServerMaxWindowBits params < activeBits
              then negotiateLoop activeBits policy sc'
              else Some (agreeTo activeBits policy params, ClientMaxWindowBitsValue params))"
  by pat_completeness auto
termination
  by (relation "measure (\<lambda>(_, _, s). length (os_b s))") (auto dest!: OfferNext_shorter [OF sym])

declare negotiateLoop.simps [simp del]

definition negotiateDeflateWithHint :: "int \<Rightarrow> bytes \<Rightarrow> deflateNegotiatePolicy \<Rightarrow>
    (DeflateParams \<times> int) option" where
  "negotiateDeflateWithHint currentBits extensions policy =
     (let activeBits = (if pol_negotiateWindowBits policy then currentBits else deflateWindowBits)
      in negotiateLoop activeBits policy (NewOfferScanner extensions))"

text \<open>\<^verbatim>\<open>true\<close> is a nil error, \<^verbatim>\<open>false\<close> is \<^verbatim>\<open>ErrInvalidWindowBits\<close>.\<close>

definition validateClientWindowBits :: "int \<Rightarrow> bool" where
  "validateClientWindowBits clientWindowBits \<longleftrightarrow>
     \<not> (clientWindowBits \<noteq> 0 \<and>
        (clientWindowBits < minDeflateWindowBits \<or> clientWindowBits > deflateWindowBits))"

section \<open>The client's side\<close>

record deflateOfferConfig =
  off_AllowContextTakeover :: bool
  off_WindowBits :: int
  off_OfferClientMaxWindowBits :: bool
  off_ServerWindowBits :: int

definition deflateOffer :: "deflateOfferConfig \<Rightarrow> bytes" where
  "deflateOffer d =
     DeflateExtensionName @
     (if \<not> off_AllowContextTakeover d
      then B ''; server_no_context_takeover; client_no_context_takeover'' else []) @
     (if off_WindowBits d \<noteq> 0
      then B ''; client_max_window_bits='' @ decimal (nat (off_WindowBits d))
      else if off_OfferClientMaxWindowBits d then B ''; client_max_window_bits'' else []) @
     (if off_ServerWindowBits d \<noteq> 0
      then B ''; server_max_window_bits='' @ decimal (nat (off_ServerWindowBits d)) else [])"

text \<open>\<^verbatim>\<open>ErrInvalidCompressionResponse\<close>, alone or wrapping the reason of the last offer tried.\<close>

datatype negotiationErr = ErrInvalidCompressionResponse "deflateErr option"

text \<open>The first loop: every element of the response must be permessage-deflate, and there is at most one.\<close>

function responseElements :: "bool \<Rightarrow> OfferScanner \<Rightarrow> bool option" where
  "responseElements found sc =
     (case OfferNext sc of
        (sc', False) \<Rightarrow> Some found
      | (sc', True) \<Rightarrow>
          if found \<or> \<not> EqualFold (os_name sc') DeflateExtensionName then None
          else responseElements True sc')"
  by pat_completeness auto
termination
  by (relation "measure (\<lambda>(_, s). length (os_b s))") (auto dest!: OfferNext_shorter [OF sym])

declare responseElements.simps [simp del]

text \<open>
  The second loop, on the elements of one offer line: the parameters agreed on, or the error of the
  last element tried.
\<close>

function offerElements :: "bytes \<Rightarrow> deflateErr \<Rightarrow> OfferScanner \<Rightarrow> deflateErr + DeflateParams" where
  "offerElements response lastErr sc =
     (case OfferNext sc of
        (sc', False) \<Rightarrow> Inl lastErr
      | (sc', True) \<Rightarrow>
          if \<not> EqualFold (os_name sc') DeflateExtensionName then offerElements response lastErr sc'
          else case ParseDeflateOfferParams (Params sc') of
            None \<Rightarrow> offerElements response lastErr sc'
          | Some offered \<Rightarrow>
            (case ValidateDeflateResponse offered response of
               Inl err \<Rightarrow> offerElements response err sc'
             | Inr agreed \<Rightarrow>
                 if ServerNoContextTakeover offered \<and> \<not> ServerNoContextTakeover agreed \<or>
                    ServerMaxWindowBits offered \<noteq> 0 \<and> ServerMaxWindowBits agreed = 0
                 then offerElements response ErrDeflateInvalidResponse sc'
                 else Inr agreed))"
  by pat_completeness auto
termination
  by (relation "measure (\<lambda>(_, _, s). length (os_b s))") (auto dest!: OfferNext_shorter [OF sym])

declare offerElements.simps [simp del]

primrec offerLines :: "bytes \<Rightarrow> deflateErr \<Rightarrow> bytes list \<Rightarrow> deflateErr + DeflateParams" where
  "offerLines response lastErr [] = Inl lastErr"
| "offerLines response lastErr (line # rest) =
     (case offerElements response lastErr (NewOfferScanner line) of
        Inr agreed \<Rightarrow> Inr agreed
      | Inl err \<Rightarrow> offerLines response err rest)"

text \<open>\<^verbatim>\<open>strings.Join(lines, ",")\<close>.\<close>

fun joinComma :: "bytes list \<Rightarrow> bytes" where
  "joinComma [] = []"
| "joinComma [x] = x"
| "joinComma (x # y # r) = x @ COMMA # joinComma (y # r)"

definition ParseCompression :: "bytes list \<Rightarrow> bytes list \<Rightarrow>
    negotiationErr + CompressionParams \<times> bool" where
  "ParseCompression offer response =
     (let responseBytes = joinComma response in
      case responseElements False (NewOfferScanner responseBytes) of
        None \<Rightarrow> Inl (ErrInvalidCompressionResponse None)
      | Some found \<Rightarrow>
          if \<not> found then Inr (noCompressionParams, False)
          else case offerLines responseBytes ErrDeflateInvalidResponse offer of
            Inr agreed \<Rightarrow> Inr (compressionParamsFromDeflate agreed, True)
          | Inl lastErr \<Rightarrow> Inl (ErrInvalidCompressionResponse (Some lastErr)))"

section \<open>Both sides agree\<close>

lemma agreeTo_fields:
  "ServerMaxWindowBits (agreeTo bits policy p) =
     (if ServerMaxWindowBits p \<noteq> 0 \<or> bits < 15 then bits else 0)"
  "ServerNoContextTakeover (agreeTo bits policy p) =
     (pol_allowContextTakeover policy \<longrightarrow> ServerNoContextTakeover p)"
  "ClientMaxWindowBits (agreeTo bits policy p) =
     (if pol_clientWindowBits policy \<noteq> 0 \<and> HasClientMaxWindowBits p then
        let v = ClientMaxWindowBitsValue p in
        if v \<noteq> 0 \<and> v < pol_clientWindowBits policy then v else pol_clientWindowBits policy
      else 0)"
  by (simp_all add: agreeTo_def Let_def noDeflateParams_def deflateWindowBits_def)

lemma ClientMaxWindowBitsValue_range:
  "ClientMaxWindowBitsValue p = 0 \<or> 8 \<le> ClientMaxWindowBitsValue p \<and> ClientMaxWindowBitsValue p \<le> 15"
  by (simp add: ClientMaxWindowBitsValue_def minWindowBits_def maxWindowBits_def)

lemma agreeTo_in_range:
  assumes "8 \<le> bits" "bits \<le> 15" "validateClientWindowBits (pol_clientWindowBits policy)"
  shows "paramsInRange (agreeTo bits policy p) \<and> \<not> ClientMaxWindowBitsIsBare (agreeTo bits policy p)"
  using assms ClientMaxWindowBitsValue_range [of p]
  by (auto simp: paramsInRange_def ClientMaxWindowBitsIsBare_def agreeTo_fields Let_def
      validateClientWindowBits_def minDeflateWindowBits_def deflateWindowBits_def
      ClientMaxWindowBitsBare_def)

lemma response_single_element:
  assumes "IsToken name" "list_all paramOk es" "EqualFold name DeflateExtensionName"
  shows "responseElements False (NewOfferScanner (name @ paramsTail es)) = Some True"
proof -
  obtain s where s: "OfferNext (NewOfferScanner (name @ paramsTail es)) = (s, True)" "os_b s = []"
    "os_name s = name" using OfferNext_response [OF assms(2,1)] by blast
  have "OfferNext s = (s, False)" using s(2) by (subst OfferNext.simps) simp
  then have "responseElements True s = Some True" by (subst responseElements.simps) simp
  then show ?thesis using s assms(3) by (subst responseElements.simps) simp
qed

text \<open>An offer the server accepts is one against which its response validates.\<close>

lemma accepted_validates:
  assumes "8 \<le> bits" "bits \<le> 15" "validateClientWindowBits (pol_clientWindowBits policy)"
    "\<not> (ServerMaxWindowBits p \<noteq> 0 \<and> ServerMaxWindowBits p < bits)"
  shows "ValidateDeflateResponse p (AppendDeflateResponse [] (agreeTo bits policy p)) =
      Inr (agreeTo bits policy p)"
  using assms(4) agreeTo_in_range [OF assms(1-3), of p] assms(1)
  by (auto simp: Validate_Append agreeTo_fields HasClientMaxWindowBits_def)

lemma negotiateLoop_agreeTo:
  "negotiateLoop bits policy sc = Some (agreed, hint) \<Longrightarrow>
    \<exists>p. agreed = agreeTo bits policy p \<and> hint = ClientMaxWindowBitsValue p \<and> paramsInRange p \<and>
      \<not> (ServerMaxWindowBits p \<noteq> 0 \<and> ServerMaxWindowBits p < bits)"
proof (induction bits policy sc rule: negotiateLoop.induct)
  case (1 bits policy sc)
  obtain sc' ok where n: "OfferNext sc = (sc', ok)" by fastforce
  note e = 1(4) [unfolded negotiateLoop.simps [of bits policy sc] n]
  then show ?case using 1(1-3) [OF n [symmetric]]
    by (auto simp: ParseDeflateOfferParams_def split: bool.splits if_splits option.splits
        dest: parseDeflateParams_range)
qed

lemma Validate_only:
  assumes "paramsInRange p" "\<not> ClientMaxWindowBitsIsBare p"
    "ValidateDeflateResponse offered (AppendDeflateResponse [] p) = Inr q"
  shows "q = p"
  using assms by (simp add: Validate_Append split: if_splits)

text \<open>
  Earlier offers, which the server declined, never change the outcome: either the client's check
  passes them over too, or it accepts the same response.
\<close>

lemma offerElements_agree:
  assumes "8 \<le> bits" "bits \<le> 15" "validateClientWindowBits (pol_clientWindowBits policy)"
    "negotiateLoop bits policy sc = Some (agreed, hint)"
  shows "offerElements (AppendDeflateResponse [] agreed) err sc = Inr agreed"
  using assms
proof (induction bits policy sc arbitrary: err rule: negotiateLoop.induct)
  case (1 bits policy sc)
  obtain sc' ok where n: "OfferNext sc = (sc', ok)" by fastforce
  note e = 1(7) [unfolded negotiateLoop.simps [of bits policy sc] n]
  have ok: "ok" using e by (cases ok) simp_all
  consider (skip) "\<not> EqualFold (os_name sc') DeflateExtensionName \<or>
      ParseDeflateOfferParams (Params sc') = None"
    | (tried) p where "EqualFold (os_name sc') DeflateExtensionName"
      "ParseDeflateOfferParams (Params sc') = Some p" by (meson not_None_eq)
  then show ?case
  proof cases
    case skip
    then have "offerElements (AppendDeflateResponse [] agreed) err sc' = Inr agreed"
      using e 1(1,2) [OF n [symmetric]] 1(4-6) ok by (auto split: option.splits)
    then show ?thesis using skip n ok by (subst offerElements.simps) auto
  next
    case (tried p)
    show ?thesis
    proof (cases "ServerMaxWindowBits p \<noteq> 0 \<and> ServerMaxWindowBits p < bits")
      case True
      then have "offerElements (AppendDeflateResponse [] agreed) err' sc' = Inr agreed" for err'
        using e 1(3) [OF n [symmetric], of p] 1(4-6) ok tried by auto
      moreover have "ValidateDeflateResponse p (AppendDeflateResponse [] agreed) = Inr q \<Longrightarrow> q = agreed" for q
        using negotiateLoop_agreeTo [OF 1(7)] agreeTo_in_range [OF 1(4-6)] Validate_only by metis
      ultimately show ?thesis using tried n ok
        by (subst offerElements.simps) (auto split: sum.split)
    next
      case False
      then have a: "agreed = agreeTo bits policy p" using e ok tried by (auto split: if_splits)
      have "ValidateDeflateResponse p (AppendDeflateResponse [] agreed) = Inr agreed"
        unfolding a using 1(4-6) False by (intro accepted_validates)
      then show ?thesis using tried n ok a 1(4,5) False
        by (subst offerElements.simps) (auto simp: agreeTo_fields)
    qed
  qed
qed

lemma joinComma_single: "joinComma [x] = x"
  by simp

lemma isToken_deflate: "IsToken DeflateExtensionName"
  by (simp add: DeflateExtensionName_def IsToken_def isTchar_def word_le_def)

lemma ParseCompression_agrees:
  assumes "8 \<le> bits" "bits \<le> 15" "validateClientWindowBits (pol_clientWindowBits policy)"
    "negotiateDeflateWithHint bits ext policy = Some (agreed, hint)"
  shows "ParseCompression [ext] [AppendDeflateResponse [] agreed] =
    Inr (compressionParamsFromDeflate agreed, True)"
proof -
  let ?bits = "if pol_negotiateWindowBits policy then bits else deflateWindowBits"
  have b: "8 \<le> ?bits" "?bits \<le> 15" using assms(1,2) by (simp_all add: deflateWindowBits_def)
  have n: "negotiateLoop ?bits policy (NewOfferScanner ext) = Some (agreed, hint)"
    using assms(4) by (simp add: negotiateDeflateWithHint_def Let_def)
  have "responseElements False (NewOfferScanner (AppendDeflateResponse [] agreed)) = Some True"
    unfolding AppendDeflateResponse_text append_Nil
    by (intro response_single_element isToken_deflate responseParams_ok EqualFold_names)
  then show ?thesis using offerElements_agree [OF b assms(3) n]
    by (simp add: ParseCompression_def)
qed

text \<open>A plain offer under the default policy.\<close>

lemma negotiate_example:
  "negotiateDeflateWithHint 15 (B ''permessage-deflate'') \<lparr>pol_negotiateWindowBits = False,
      pol_allowContextTakeover = False, pol_clientWindowBits = 0\<rparr> =
    Some (\<lparr>ServerNoContextTakeover = True, ClientNoContextTakeover = True,
        ServerMaxWindowBits = 0, ClientMaxWindowBits = 0\<rparr>, 0)"
  by code_simp

section \<open>Properties of the negotiation\<close>

text \<open>C30: Server and client always agree on compression. Whatever the client's extension header says,
  when the server accepts one of its offers, the client's check of the printed response succeeds and
  yields exactly the parameters the server will use; with any valid policy and any backend window.\<close>

theorem compression_negotiation_agrees:
  assumes "8 \<le> bits" "bits \<le> 15" "validateClientWindowBits (pol_clientWindowBits policy)"
    "negotiateDeflateWithHint bits ext policy = Some (agreed, hint)"
  shows "ParseCompression [ext] [AppendDeflateResponse [] agreed] =
    Inr (compressionParamsFromDeflate agreed, True)"
  using assms by (rule ParseCompression_agrees)

theorem compression_negotiation_agrees_witness:
  "ParseCompression [B ''permessage-deflate'']
     [AppendDeflateResponse [] \<lparr>ServerNoContextTakeover = True, ClientNoContextTakeover = True,
        ServerMaxWindowBits = 0, ClientMaxWindowBits = 0\<rparr>] =
   Inr (compressionParamsFromDeflate \<lparr>ServerNoContextTakeover = True, ClientNoContextTakeover = True,
        ServerMaxWindowBits = 0, ClientMaxWindowBits = 0\<rparr>, True)"
  by (rule compression_negotiation_agrees [OF _ _ _ negotiate_example])
    (simp_all add: validateClientWindowBits_def)

text \<open>The server keeps within what was offered. An accepted offer is answered with parameters in
  range, with the server's window at most what the offer allowed, and with \<open>client_max_window_bits\<close>
  only if the offer mentioned it and then at most its value; without the context-takeover policy both
  directions reset their context.\<close>

theorem negotiation_within_offer:
  assumes "8 \<le> bits" "bits \<le> 15" "validateClientWindowBits (pol_clientWindowBits policy)"
    "negotiateDeflateWithHint bits ext policy = Some (agreed, hint)"
  shows "paramsInRange agreed \<and>
    (\<exists>p. paramsInRange p \<and> hint = ClientMaxWindowBitsValue p \<and>
      (ServerMaxWindowBits p = 0 \<or> ServerMaxWindowBits agreed \<le> ServerMaxWindowBits p) \<and>
      (ClientMaxWindowBits agreed = 0 \<or> HasClientMaxWindowBits p) \<and>
      (ClientMaxWindowBitsValue p = 0 \<or> ClientMaxWindowBits agreed \<le> ClientMaxWindowBitsValue p)) \<and>
    (pol_allowContextTakeover policy \<or>
      ServerNoContextTakeover agreed \<and> ClientNoContextTakeover agreed)"
proof -
  let ?bits = "if pol_negotiateWindowBits policy then bits else deflateWindowBits"
  have b: "8 \<le> ?bits" "?bits \<le> 15" using assms(1,2) by (simp_all add: deflateWindowBits_def)
  have n: "negotiateLoop ?bits policy (NewOfferScanner ext) = Some (agreed, hint)"
    using assms(4) by (simp add: negotiateDeflateWithHint_def Let_def)
  obtain p where p: "agreed = agreeTo ?bits policy p" "hint = ClientMaxWindowBitsValue p"
    "paramsInRange p" "\<not> (ServerMaxWindowBits p \<noteq> 0 \<and> ServerMaxWindowBits p < ?bits)"
    using negotiateLoop_agreeTo [OF n] by blast
  have "ClientMaxWindowBits agreed \<le> ClientMaxWindowBitsValue p" if "ClientMaxWindowBitsValue p \<noteq> 0"
    using that ClientMaxWindowBitsValue_range [of p] by (simp add: p(1) agreeTo_fields Let_def)
  moreover have "pol_allowContextTakeover policy \<or>
      ServerNoContextTakeover agreed \<and> ClientNoContextTakeover agreed"
    by (simp add: p(1) agreeTo_def Let_def noDeflateParams_def)
  moreover have "ServerMaxWindowBits p = 0 \<or> ServerMaxWindowBits agreed \<le> ServerMaxWindowBits p"
    using p(4) by (auto simp: p(1) agreeTo_fields)
  moreover have "ClientMaxWindowBits agreed = 0 \<or> HasClientMaxWindowBits p"
    by (simp add: p(1) agreeTo_fields)
  moreover have "paramsInRange agreed" using agreeTo_in_range [OF b assms(3), of p] p(1) by simp
  ultimately show ?thesis using p(2,3) by blast
qed

theorem negotiation_within_offer_witness:
  "paramsInRange \<lparr>ServerNoContextTakeover = True, ClientNoContextTakeover = True,
        ServerMaxWindowBits = 0, ClientMaxWindowBits = 0\<rparr>"
  using negotiation_within_offer [OF _ _ _ negotiate_example]
  by (simp add: validateClientWindowBits_def)

end
