(* ===== verification/Transport.thy ===== *)
theory Transport
  imports Gows_Prelude
begin

text \<open>
  The network connection under a \<^verbatim>\<open>Conn\<close> (\<^verbatim>\<open>net.Conn\<close>): what its \<^verbatim>\<open>Read\<close> calls will deliver and how its
  \<^verbatim>\<open>Write\<close> calls will end are scripts, so that every theorem ranges over all ways the bytes can be
  cut into reads, over all errors and over all short or failed writes.

  A read script item is what one arrival offers: some bytes, possibly with an error. A \<^verbatim>\<open>Read\<close> takes at
  most as many bytes as its buffer holds and leaves the rest for the next one. When the script is
  used up, every \<^verbatim>\<open>Read\<close> returns the script's final error. A write script item says how many bytes the
  next \<^verbatim>\<open>Write\<close> accepts and the error it returns with them, if any; where it says nothing, or when it is
  used up, the write accepts everything.
\<close>

datatype ioErr = EOF | UnexpectedEOF | NoProgress | ShortWrite | NetClosed | DeadlineExceeded | OtherIO nat

record transport =
  t_reads :: "(bytes \<times> ioErr option) list"
  t_end :: ioErr
  t_writes :: "(nat \<times> ioErr option) option list"
  t_sent :: "bytes list"
  t_closes :: nat

definition tRead :: "nat \<Rightarrow> transport \<Rightarrow> (bytes \<times> ioErr option) \<times> transport" where
  "tRead k t =
     (if 0 < t_closes t then (([], Some NetClosed), t)
      else case t_reads t of
        [] \<Rightarrow> (([], Some (t_end t)), t)
      | (c, e) # r \<Rightarrow>
          if k < length c then ((take k c, None), t\<lparr>t_reads := (drop k c, e) # r\<rparr>)
          else ((c, e), t\<lparr>t_reads := r\<rparr>))"

text \<open>The number of bytes accepted and the error; what was accepted is on the wire.\<close>

definition tWrite :: "bytes \<Rightarrow> transport \<Rightarrow> (nat \<times> ioErr option) \<times> transport" where
  "tWrite p t =
     (if 0 < t_closes t then ((0, Some NetClosed), t)
      else case t_writes t of
        Some (k, e) # r \<Rightarrow>
          ((min k (length p), e), t\<lparr>t_writes := r, t_sent := t_sent t @ [take k p]\<rparr>)
      | _ \<Rightarrow> ((length p, None), t\<lparr>t_writes := tl (t_writes t), t_sent := t_sent t @ [p]\<rparr>))"

definition tClose :: "transport \<Rightarrow> transport" where
  "tClose t = t\<lparr>t_closes := Suc (t_closes t)\<rparr>"

section \<open>What is still to be read\<close>

definition unread :: "transport \<Rightarrow> nat" where
  "unread t = sum_list (map (length \<circ> fst) (t_reads t))"

text \<open>The bytes the reads will deliver, in order, however they are cut.\<close>

definition incoming :: "transport \<Rightarrow> bytes" where
  "incoming t = concat (map fst (t_reads t))"

text \<open>The bytes on the wire, in order.\<close>

definition wire :: "transport \<Rightarrow> bytes" where
  "wire t = concat (t_sent t)"

text \<open>A well-behaved peer: every arrival brings at least one byte and no error before the end.\<close>

definition steady :: "transport \<Rightarrow> bool" where
  "steady t \<longleftrightarrow> t_closes t = 0 \<and> list_all (\<lambda>(c, e). c \<noteq> [] \<and> e = None) (t_reads t)"

definition writesOk :: "transport \<Rightarrow> bool" where
  "writesOk t \<longleftrightarrow> t_closes t = 0 \<and> list_all (\<lambda>w. w = None) (t_writes t)"

lemma unread_incoming: "unread t = length (incoming t)"
  by (simp add: unread_def incoming_def length_concat comp_def)

lemma tRead_unread:
  assumes "tRead k t = ((b, e), t')"
  shows "unread t' + length b = unread t" "length b \<le> k"
    "t_sent t' = t_sent t" "t_writes t' = t_writes t" "t_closes t' = t_closes t" "t_end t' = t_end t"
  using assms by (auto simp: tRead_def unread_def split: if_splits list.splits)

lemma tRead_incoming:
  assumes "tRead k t = ((b, e), t')"
  shows "incoming t = b @ incoming t'"
  using assms by (auto simp: tRead_def incoming_def split: if_splits list.splits)

lemma tRead_steady:
  assumes "steady t" "0 < k" "tRead k t = ((b, e), t')"
  shows "steady t'" "if incoming t = [] then b = [] \<and> e = Some (t_end t) \<and> t' = t else b \<noteq> [] \<and> e = None"
  using assms
  by (auto simp: tRead_def steady_def incoming_def split: if_splits list.splits)

lemma tWrite_ok:
  assumes "writesOk t"
  shows "tWrite p t = ((length p, None), t\<lparr>t_writes := tl (t_writes t), t_sent := t_sent t @ [p]\<rparr>)"
  using assms by (cases "t_writes t") (auto simp: tWrite_def writesOk_def)

lemma tWrite_reads:
  "t_reads (snd (tWrite p t)) = t_reads t" "t_closes (snd (tWrite p t)) = t_closes t"
  "t_end (snd (tWrite p t)) = t_end t"
  by (auto simp: tWrite_def split: list.split option.split)

lemma writesOk_tl: "writesOk t \<Longrightarrow> writesOk (t\<lparr>t_writes := tl (t_writes t), t_sent := s\<rparr>)"
  by (cases "t_writes t") (auto simp: writesOk_def)

end
