(* ===== verification/Compress.thy ===== *)
theory Compress
  imports Negotiation Transport
begin

text \<open>
  permessage-deflate on a connection, \<^verbatim>\<open>src/compress.go\<close>. The DEFLATE compressor and decompressor are
  third-party code behind the interfaces \<^verbatim>\<open>DeflateWriter\<close> and \<^verbatim>\<open>DeflateReader\<close> of \<^verbatim>\<open>src/options.go\<close>; here
  they are the record \<open>DeflateBackend\<close>, an argument of every definition that uses them. A writer is a
  state with the bytes each call appends to its sink; a reader opened on a stream and a preset
  dictionary is the script of what its \<^verbatim>\<open>Read\<close> calls will return.

  The lemmas show that the sliding dictionary is always the most recent plaintext, that the tail
  reader serves the message followed by the nine tail bytes however it is read, and that inflating a
  message never yields more than the read limit.
\<close>

definition inflateChunkSize :: int where "inflateChunkSize = 4096"

definition deflateFlushTail :: bytes where "deflateFlushTail = [0x00, 0x00, 0xff, 0xff]"

definition deflateReadTail :: bytes where
  "deflateReadTail = [0x00, 0x00, 0xff, 0xff, 0x01, 0x00, 0x00, 0xff, 0xff]"

section \<open>Backends\<close>

record 'w DeflateBackend =
  be_NewWriter :: "int \<Rightarrow> int \<Rightarrow> 'w option"
  be_Reset :: "'w \<Rightarrow> 'w"
  be_Write :: "'w \<Rightarrow> bytes \<Rightarrow> ('w \<times> bytes) \<times> ioErr option"
  be_Flush :: "'w \<Rightarrow> ('w \<times> bytes) \<times> ioErr option"
  be_OpenReader :: "int \<Rightarrow> bytes \<Rightarrow> bytes \<Rightarrow> ioErr + (bytes \<times> ioErr option) list"
  be_MinLevel :: int
  be_MaxLevel :: int
  be_MinWindowBits :: int
  be_MaxWindowBits :: int

record 'w deflateConfig =
  cfg_backend :: "'w DeflateBackend"
  cfg_level :: int
  cfg_windowBits :: int

text \<open>A rejected installation leaves the active configuration as it was.\<close>

datatype backendErr = LevelOutsideRange | WindowBitsOutsideRange

definition SetDeflateBackend :: "'w DeflateBackend \<Rightarrow> int \<Rightarrow> int \<Rightarrow> 'w deflateConfig \<Rightarrow>
    backendErr option \<times> 'w deflateConfig" where
  "SetDeflateBackend b level windowBits active =
     (if level < be_MinLevel b \<or> level > be_MaxLevel b then (Some LevelOutsideRange, active)
      else if windowBits < be_MinWindowBits b \<or> windowBits > be_MaxWindowBits b
      then (Some WindowBitsOutsideRange, active)
      else (None, \<lparr>cfg_backend = b, cfg_level = level, cfg_windowBits = windowBits\<rparr>))"

definition currentDeflateWindowBits :: "'w deflateConfig \<Rightarrow> int" where
  "currentDeflateWindowBits active = cfg_windowBits active"

definition effectiveWindowBits :: "int \<Rightarrow> int" where
  "effectiveWindowBits v =
     (if v \<ge> minDeflateWindowBits \<and> v \<le> deflateWindowBits then v else deflateWindowBits)"

text \<open>True is a nil error, false is \<^verbatim>\<open>ErrUnsupportedWindowBits\<close>.\<close>

definition checkWindowBitsSupported :: "'w deflateConfig \<Rightarrow> int \<Rightarrow> bool" where
  "checkWindowBitsSupported cfg bits =
     (let ceil = effectiveWindowBits bits in
      if ceil \<ge> deflateWindowBits then True
      else \<not> (cfg_windowBits cfg > ceil \<and> be_MinWindowBits (cfg_backend cfg) > ceil))"

section \<open>The state of a connection's compression\<close>

record 'w deflateState =
  ds_outgoing :: "'w option"
  ds_incomingDict :: "bytes option"
  ds_incomingWindowBits :: int
  ds_outgoingTakeover :: bool
  ds_outgoingDisabled :: bool

text \<open>\<^const>\<open>Inl\<close> is the panic on a backend whose \<^verbatim>\<open>NewWriter\<close> refuses parameters in its own range.\<close>

definition deflateStateFor :: "'w deflateConfig \<Rightarrow> bool \<Rightarrow> bool \<Rightarrow> int \<Rightarrow> int \<Rightarrow>
    unit + 'w deflateState option" where
  "deflateStateFor cfg outgoingTakeover incomingTakeover outCeil inBits =
    (let needSubCeilWriter = outCeil < cfg_windowBits cfg in
     if \<not> outgoingTakeover \<and> \<not> incomingTakeover \<and> \<not> needSubCeilWriter then Inr None
     else
       let ds = \<lparr>ds_outgoing = None, ds_incomingDict = (if incomingTakeover then Some [] else None),
                 ds_incomingWindowBits = inBits, ds_outgoingTakeover = False,
                 ds_outgoingDisabled = False\<rparr> in
       if outgoingTakeover \<or> needSubCeilWriter then
         let w = min (cfg_windowBits cfg) outCeil in
         if w < be_MinWindowBits (cfg_backend cfg) then Inr (Some (ds\<lparr>ds_outgoingDisabled := True\<rparr>))
         else case be_NewWriter (cfg_backend cfg) (cfg_level cfg) w of
           None \<Rightarrow> Inl ()
         | Some writer \<Rightarrow>
             Inr (Some (ds\<lparr>ds_outgoing := Some (be_Reset (cfg_backend cfg) writer),
                           ds_outgoingTakeover := outgoingTakeover\<rparr>))
       else Inr (Some ds))"

definition newDeflateState :: "'w deflateConfig \<Rightarrow> bool \<Rightarrow> CompressionParams \<Rightarrow>
    unit + 'w deflateState option" where
  "newDeflateState cfg client p =
    (let (outgoingTakeover, incomingTakeover) =
           (if client then (cp_ClientContextTakeover p, cp_ServerContextTakeover p)
            else (cp_ServerContextTakeover p, cp_ClientContextTakeover p));
         (outField, inField) =
           (if client then (cp_ClientMaxWindowBits p, cp_ServerMaxWindowBits p)
            else (cp_ServerMaxWindowBits p,
              if cp_ClientMaxWindowBits p = 0 \<and>
                 cp_ClientMaxWindowBitsHint p \<ge> minDeflateWindowBits \<and>
                 cp_ClientMaxWindowBitsHint p \<le> deflateWindowBits
              then cp_ClientMaxWindowBitsHint p else cp_ClientMaxWindowBits p));
         outCeil = effectiveWindowBits outField;
         inBits = effectiveWindowBits inField in
     deflateStateFor cfg outgoingTakeover incomingTakeover outCeil inBits)"

definition slideWindow :: "bytes \<Rightarrow> bytes \<Rightarrow> nat \<Rightarrow> bytes" where
  "slideWindow dict add maxlength =
     (if length add \<ge> maxlength then drop (length add - maxlength) add
      else
        let total = length dict + length add in
        if total \<le> maxlength then dict @ add
        else let drp = total - maxlength in drop drp dict @ add)"

section \<open>The tail reader\<close>

record tailReader =
  tr_b :: bytes
  tr_tailPos :: nat

text \<open>\<^verbatim>\<open>Read(p)\<close> with room for \<open>k\<close> bytes.\<close>

definition tailRead :: "nat \<Rightarrow> tailReader \<Rightarrow> (bytes \<times> ioErr option) \<times> tailReader" where
  "tailRead k r =
     (if length (tr_b r) > 0 then
        ((take k (tr_b r), None), r\<lparr>tr_b := drop k (tr_b r)\<rparr>)
      else if tr_tailPos r < length deflateReadTail then
        let p = take k (drop (tr_tailPos r) deflateReadTail) in
        ((p, None), r\<lparr>tr_tailPos := tr_tailPos r + length p\<rparr>)
      else (([], Some EOF), r))"

section \<open>Compressing\<close>

datatype compressErr = CompressWrite ioErr | CompressFlush ioErr | CompressShort | NewWriterPanic

text \<open>
  \<open>writeAndFlush be w sink p\<close>: write, flush, strip the four marker bytes off the sink. The writer and
  the sink after the call come with the result.
\<close>

definition writeAndFlush :: "'w DeflateBackend \<Rightarrow> 'w \<Rightarrow> bytes \<Rightarrow> bytes \<Rightarrow>
    (compressErr + bytes) \<times> 'w \<times> bytes" where
  "writeAndFlush be w sink p =
     (case be_Write be w p of
        ((w, o1), Some e) \<Rightarrow> (Inl (CompressWrite e), w, sink @ o1)
      | ((w, o1), None) \<Rightarrow>
        (case be_Flush be w of
           ((w, o2), Some e) \<Rightarrow> (Inl (CompressFlush e), w, sink @ o1 @ o2)
         | ((w, o2), None) \<Rightarrow>
             let out = sink @ o1 @ o2 in
             if length out < length deflateFlushTail then (Inl CompressShort, w, out)
             else (Inr (take (length out - length deflateFlushTail) out), w, out)))"

text \<open>
  A pooled writer is reset before use, which discards whatever state it had (the documented contract
  of \<^verbatim>\<open>Reset\<close>), so it is a new one.
\<close>

definition compressPayloadWithConfig :: "'w deflateConfig \<Rightarrow> bytes \<Rightarrow> compressErr + bytes" where
  "compressPayloadWithConfig cfg p =
     (case be_NewWriter (cfg_backend cfg) (cfg_level cfg) (cfg_windowBits cfg) of
        None \<Rightarrow> Inl NewWriterPanic
      | Some w \<Rightarrow> fst (writeAndFlush (cfg_backend cfg) (be_Reset (cfg_backend cfg) w) [] p))"

text \<open>
  \<^verbatim>\<open>acquireCompressor\<close>: the writer to use and whether it must be reset first; \<open>Refused\<close> when the pooled
  backend's window exceeds the negotiated ceiling. \<open>perConn\<close> says that the writer belongs to the
  connection and keeps its state.
\<close>

datatype 'w acquired = Acquired (acq_w: 'w) (acq_reset: bool) (acq_perConn: bool) | Refused | AcquirePanic

definition acquireCompressor :: "'w deflateConfig \<Rightarrow> 'w deflateState option \<Rightarrow> int \<Rightarrow> 'w acquired" where
  "acquireCompressor cfg dso ceil =
     (let pooled =
        (if ceil < deflateWindowBits \<and> cfg_windowBits cfg > ceil then Refused
         else case be_NewWriter (cfg_backend cfg) (cfg_level cfg) (cfg_windowBits cfg) of
           None \<Rightarrow> AcquirePanic
         | Some w \<Rightarrow> Acquired w True False) in
      case dso of
        None \<Rightarrow> pooled
      | Some ds \<Rightarrow> (case ds_outgoing ds of
          None \<Rightarrow> pooled
        | Some w \<Rightarrow> Acquired w (\<not> ds_outgoingTakeover ds) True))"

text \<open>
  \<^verbatim>\<open>compressMessage\<close>: \<open>Inr None\<close> is \<^verbatim>\<open>ok == false\<close>, nothing was compressed. The connection's own writer
  is updated in the returned state.
\<close>

definition compressMessage :: "'w deflateConfig \<Rightarrow> 'w deflateState option \<Rightarrow> int \<Rightarrow> bytes \<Rightarrow>
    (compressErr + bytes option) \<times> 'w deflateState option" where
  "compressMessage cfg dso ceil p =
     (case acquireCompressor cfg dso ceil of
        Refused \<Rightarrow> (Inr None, dso)
      | AcquirePanic \<Rightarrow> (Inl NewWriterPanic, dso)
      | Acquired w reset perConn \<Rightarrow>
          let be = cfg_backend cfg;
              w = (if reset then be_Reset be w else w);
              (res, w', _) = writeAndFlush be w [] p;
              dso' = (if perConn then map_option (\<lambda>ds. ds\<lparr>ds_outgoing := Some w'\<rparr>) dso else dso)
          in (case res of Inl e \<Rightarrow> Inl e | Inr out \<Rightarrow> Inr (Some out), dso'))"

section \<open>Decompressing\<close>

text \<open>
  The outcomes of the inflating loop. \<open>InflatePanic\<close> is \<^verbatim>\<open>slices.Grow\<close> called with a negative count,
  \<open>InflateStuck\<close> a loop that reads into no space for ever.
\<close>

datatype inflated = Inflated bytes | InflatedTooLarge | InflateFailed ioErr | InflatePanic | InflateStuck

text \<open>
  The loop of \<^verbatim>\<open>decompressMessage\<close> with the bytes inflated so far, the capacity of the buffer and what the
  reader will still deliver. \<open>growCap len n\<close> is the capacity \<^verbatim>\<open>slices.Grow\<close> chooses, at least \<open>len + n\<close>.
  The arithmetic on the limit is \<^verbatim>\<open>int64\<close>.
\<close>

function inflateLoop :: "(nat \<Rightarrow> int \<Rightarrow> nat) \<Rightarrow> int \<Rightarrow> bytes \<Rightarrow> nat \<Rightarrow> (bytes \<times> ioErr option) list \<Rightarrow>
    inflated" where
  "inflateLoop growCap readLimit out cp script =
     (let full = (length out = cp);
          lim = i64 (readLimit + 1);
          grow = (if i64 (int (length out) + inflateChunkSize) > lim
                  then i64 (lim - int (length out)) else inflateChunkSize);
          cp = (if full then max (growCap (length out) grow) (nat (int (length out) + grow)) else cp);
          room = cp - length out in
      if full \<and> grow < 0 then InflatePanic
      else if room = 0 then InflateStuck
      else
        case script of
          [] \<Rightarrow> Inflated out
        | (c, e) # rest \<Rightarrow>
            let n = min room (length c);
                out' = out @ take n c in
            if n > 0 \<and> int (length out') > readLimit then InflatedTooLarge
            else if n < length c then inflateLoop growCap readLimit out' cp ((drop n c, e) # rest)
            else case e of
              None \<Rightarrow> inflateLoop growCap readLimit out' cp rest
            | Some EOF \<Rightarrow> Inflated out'
            | Some err \<Rightarrow> InflateFailed err)"
  by pat_completeness auto
termination
proof (relation "measure (\<lambda>(_, _, _, _, s). sum_list (map (Suc \<circ> length \<circ> fst) s))", goal_cases)
  case 1
  show ?case by simp
next
  case (2 growCap readLimit out cp script full lim grow cp' room x rest c e n out')
  then have "0 < n" "n < length c" by linarith+
  then show ?case using 2(8) by (simp flip: 2(9))
next
  case (3 growCap readLimit out cp script full lim grow cp' room x rest c e n out')
  show ?case using 3(8) by simp
qed

declare inflateLoop.simps [simp del]

datatype decompressErr = DecompressReset ioErr | DecompressTooLarge | DecompressIO ioErr
  | DecompressPanic

text \<open>
  \<^verbatim>\<open>decompressMessage\<close>: the pooled reader is opened on the message followed by the tail, with the
  sliding dictionary when the peer keeps its context; a clean end slides the dictionary. \<open>cp\<close> is the
  capacity of the buffer kept from earlier messages.
\<close>

definition decompressMessage :: "(nat \<Rightarrow> int \<Rightarrow> nat) \<Rightarrow> 'w deflateConfig \<Rightarrow> 'w deflateState option \<Rightarrow>
    int \<Rightarrow> nat \<Rightarrow> bytes \<Rightarrow> (decompressErr + bytes) \<times> 'w deflateState option" where
  "decompressMessage growCap cfg dso readLimit cp compressed =
     (let dict = (case dso of None \<Rightarrow> None | Some ds \<Rightarrow> ds_incomingDict ds);
          preset = (case dict of None \<Rightarrow> [] | Some d \<Rightarrow> d) in
      case be_OpenReader (cfg_backend cfg) (cfg_windowBits cfg) (compressed @ deflateReadTail) preset of
        Inl e \<Rightarrow> (Inl (DecompressReset e), dso)
      | Inr script \<Rightarrow>
        (case inflateLoop growCap readLimit [] cp script of
           Inflated out \<Rightarrow>
             (Inr out,
              case (dso, dict) of
                (Some ds, Some d) \<Rightarrow>
                  Some (ds\<lparr>ds_incomingDict := Some (slideWindow d out (2 ^ nat (ds_incomingWindowBits ds)))\<rparr>)
              | _ \<Rightarrow> dso)
         | InflatedTooLarge \<Rightarrow> (Inl DecompressTooLarge, dso)
         | InflateFailed e \<Rightarrow> (Inl (DecompressIO e), dso)
         | InflatePanic \<Rightarrow> (Inl DecompressPanic, dso)
         | InflateStuck \<Rightarrow> (Inl DecompressPanic, dso)))"

section \<open>The dictionary\<close>

lemma slideWindow_suffix:
  assumes "length dict \<le> m"
  shows "slideWindow dict add m = drop (length (dict @ add) - m) (dict @ add)"
  using assms by (auto simp: slideWindow_def Let_def)

lemma length_slideWindow: "length dict \<le> m \<Longrightarrow> length (slideWindow dict add m) \<le> m"
  by (simp add: slideWindow_suffix)

lemma slideWindow_history:
  "slideWindow (drop (length h - m) h) add m = drop (length (h @ add) - m) (h @ add)"
proof -
  have "length (drop (length h - m) h) \<le> m" by simp
  then show ?thesis
    by (cases "length h \<le> m"; cases "length add \<le> m") (simp_all add: slideWindow_suffix add.commute)
qed

text \<open>The dictionary after a sequence of messages.\<close>

definition slideAll :: "nat \<Rightarrow> bytes list \<Rightarrow> bytes" where
  "slideAll m msgs = foldl (\<lambda>d add. slideWindow d add m) [] msgs"

lemma slideAll_suffix: "slideAll m msgs = drop (length (concat msgs) - m) (concat msgs)"
proof (induction msgs rule: rev_induct)
  case (snoc x xs)
  have "slideAll m (xs @ [x]) = slideWindow (slideAll m xs) x m" by (simp add: slideAll_def)
  then show ?case using snoc slideWindow_history [of "concat xs" m x] by simp
qed (simp add: slideAll_def)

section \<open>The tail reader's stream\<close>

text \<open>Reads of the given sizes, up to the first error.\<close>

fun tailReads :: "nat list \<Rightarrow> tailReader \<Rightarrow> bytes \<times> ioErr option \<times> tailReader" where
  "tailReads [] r = ([], None, r)"
| "tailReads (k # ks) r =
     (case tailRead k r of
        ((p, Some e), r') \<Rightarrow> (p, Some e, r')
      | ((p, None), r') \<Rightarrow> (let (q, e, r'') = tailReads ks r' in (p @ q, e, r'')))"

definition tailRest :: "tailReader \<Rightarrow> bytes" where
  "tailRest r = tr_b r @ drop (tr_tailPos r) deflateReadTail"

lemma tailRead_rest:
  "case tailRead k r of ((p, e), r') \<Rightarrow> tailRest r = p @ tailRest r' \<and>
     (e = (if tailRest r = [] then Some EOF else None))"
proof (cases "tr_b r = []")
  case False
  then show ?thesis by (simp add: tailRead_def tailRest_def)
next
  case True
  let ?d = "drop (tr_tailPos r) deflateReadTail"
  have "?d = take k ?d @ drop (tr_tailPos r + length (take k ?d)) deflateReadTail"
    by (metis append_take_drop_id add.commute drop_drop append_eq_conv_conj)
  then show ?thesis using True by (simp add: tailRead_def tailRest_def Let_def)
qed

lemma tailReads_rest:
  "case tailReads ks r of (p, e, r') \<Rightarrow> tailRest r = p @ tailRest r' \<and>
     (e = None \<or> e = Some EOF \<and> tailRest r' = [])"
proof (induction ks arbitrary: r)
  case (Cons k ks)
  obtain p e r' where t: "tailRead k r = ((p, e), r')" by (metis surj_pair)
  then show ?case using tailRead_rest [where k = k and r = r] Cons [of r']
    by (cases e) (auto split: prod.splits if_splits)
qed simp

section \<open>Inflating is bounded\<close>

text \<open>What a reader delivers in all, and how it ends.\<close>

fun scriptOut :: "(bytes \<times> ioErr option) list \<Rightarrow> bytes \<times> ioErr" where
  "scriptOut [] = ([], EOF)"
| "scriptOut ((c, None) # r) = (c @ fst (scriptOut r), snd (scriptOut r))"
| "scriptOut ((c, Some e) # r) = (c, e)"

lemma scriptOut_drop:
  "n \<le> length c \<Longrightarrow> scriptOut ((c, e) # r) =
     (take n c @ fst (scriptOut ((drop n c, e) # r)), snd (scriptOut ((drop n c, e) # r)))"
  by (cases e) simp_all

definition growCount :: "int \<Rightarrow> nat \<Rightarrow> int" where
  "growCount readLimit len =
     (if i64 (int len + inflateChunkSize) > i64 (readLimit + 1)
      then i64 (i64 (readLimit + 1) - int len) else inflateChunkSize)"

lemma growCount_pos:
  assumes "0 \<le> readLimit" "readLimit < 2 ^ 63 - 1" "int len \<le> readLimit"
  shows "0 < growCount readLimit len"
proof -
  have "i64 (readLimit + 1) = readLimit + 1" "i64 (readLimit + 1 - int len) = readLimit + 1 - int len"
    using assms by (intro i64_id; simp add: int64_range_def)+
  then show ?thesis using assms by (simp add: growCount_def inflateChunkSize_def)
qed

definition inflateEnd :: "int \<Rightarrow> bytes \<Rightarrow> ioErr \<Rightarrow> inflated" where
  "inflateEnd readLimit plain e =
     (if int (length plain) > readLimit then InflatedTooLarge
      else if e = EOF then Inflated plain else InflateFailed e)"

lemma inflateLoop_total:
  assumes "0 \<le> readLimit" "readLimit < 2 ^ 63 - 1" "int (length out) \<le> readLimit" "length out \<le> cp"
  shows "inflateLoop growCap readLimit out cp script =
    inflateEnd readLimit (out @ fst (scriptOut script)) (snd (scriptOut script))"
  using assms(3,4)
proof (induction "sum_list (map (Suc \<circ> length \<circ> fst) script)" arbitrary: script out cp rule: less_induct)
  case less
  let ?grow = "growCount readLimit (length out)"
  define cp' where "cp' = (if length out = cp
    then max (growCap (length out) ?grow) (nat (int (length out) + ?grow)) else cp)"
  have g: "0 < ?grow" using growCount_pos assms(1,2) less.prems(1) by blast
  have room: "0 < cp' - length out" using g less.prems(2) by (auto simp: cp'_def max_def)
  note unfold = inflateLoop.simps [of growCap readLimit out cp script, unfolded Let_def,
      folded growCount_def, folded cp'_def]
  show ?case
  proof (cases script)
    case Nil
    then show ?thesis using unfold g room less.prems(1) by (simp add: inflateEnd_def)
  next
    case (Cons x rest)
    obtain c e where x: "x = (c, e)" by fastforce
    define n where "n = min (cp' - length out) (length c)"
    have n: "n \<le> length c" "n \<le> cp' - length out" "0 < n \<or> c = []" using room by (auto simp: n_def)
    note so = scriptOut_drop [OF n(1), of e rest]
    have un: "inflateLoop growCap readLimit out cp script =
      (if n > 0 \<and> int (length (out @ take n c)) > readLimit then InflatedTooLarge
       else if n < length c then inflateLoop growCap readLimit (out @ take n c) cp' ((drop n c, e) # rest)
       else case e of None \<Rightarrow> inflateLoop growCap readLimit (out @ take n c) cp' rest
         | Some EOF \<Rightarrow> Inflated (out @ take n c) | Some err \<Rightarrow> InflateFailed err)"
      unfolding n_def using unfold g room Cons x by simp
    consider "n > 0" "int (length (out @ take n c)) > readLimit"
      | "int (length (out @ take n c)) \<le> readLimit" "n < length c"
      | "int (length (out @ take n c)) \<le> readLimit" "n = length c"
      using n less.prems(1) by fastforce
    then show ?thesis
    proof cases
      case 1
      then show ?thesis using un Cons x so by (simp add: inflateEnd_def)
    next
      case 2
      then have "inflateLoop growCap readLimit (out @ take n c) cp' ((drop n c, e) # rest) =
        inflateEnd readLimit ((out @ take n c) @ fst (scriptOut ((drop n c, e) # rest)))
          (snd (scriptOut ((drop n c, e) # rest)))"
        using n room Cons x by (intro less.hyps) auto
      then show ?thesis using un 2 Cons x so by simp
    next
      case 3
      show ?thesis
      proof (cases e)
        case None
        have "inflateLoop growCap readLimit (out @ take n c) cp' rest =
          inflateEnd readLimit ((out @ take n c) @ fst (scriptOut rest)) (snd (scriptOut rest))"
          using n 3 room Cons x by (intro less.hyps) auto
        then show ?thesis using un 3 Cons x None by simp
      next
        case (Some err)
        then show ?thesis using un 3 Cons x by (cases err) (simp_all add: inflateEnd_def)
      qed
    qed
  qed
qed

lemma decompressMessage_result:
  assumes "0 \<le> readLimit" "readLimit < 2 ^ 63 - 1"
    "be_OpenReader (cfg_backend cfg) (cfg_windowBits cfg) (compressed @ deflateReadTail)
       (case Option.bind dso ds_incomingDict of None \<Rightarrow> [] | Some d \<Rightarrow> d) = Inr script"
    "scriptOut script = (plain, e)"
  shows "fst (decompressMessage growCap cfg dso readLimit cp compressed) =
    (if int (length plain) > readLimit then Inl DecompressTooLarge
     else if e = EOF then Inr plain else Inl (DecompressIO e))"
proof -
  have "inflateLoop growCap readLimit [] cp script = inflateEnd readLimit plain e"
    using inflateLoop_total [of readLimit "[]" cp growCap script] assms by simp
  then show ?thesis using assms(3)
    by (cases dso) (simp_all add: decompressMessage_def inflateEnd_def)
qed

text \<open>
  How a successful call moves the dictionary.
\<close>

lemma decompressMessage_dict:
  assumes "decompressMessage growCap cfg dso readLimit cp compressed = (Inr plain, dso')"
  shows "dso' = map_option (\<lambda>ds. ds\<lparr>ds_incomingDict :=
      map_option (\<lambda>d. slideWindow d plain (2 ^ nat (ds_incomingWindowBits ds))) (ds_incomingDict ds)\<rparr>) dso"
proof (cases dso)
  case None
  then show ?thesis using assms
    by (auto simp: decompressMessage_def split: sum.splits inflated.splits)
next
  case (Some ds)
  then show ?thesis using assms
    by (cases "ds_incomingDict ds")
      (auto simp: decompressMessage_def split: sum.splits inflated.splits)
qed

section \<open>A compressed message stream\<close>

text \<open>
  What the code relies on of a pair of DEFLATE implementations: \<open>hist w\<close> is the plaintext a writer may
  refer back to and \<open>win w\<close> bounds how far. A new writer in the backend's range exists and refers back
  no further than its window; \<^verbatim>\<open>Reset\<close> forgets the history; write and flush succeed and end with the sync
  marker, and a reader that is opened for at least the window of the writer and given the stripped stream, the tail
  and enough recent plaintext as its preset dictionary inflates exactly the message.
\<close>

definition deflateCodec :: "'w DeflateBackend \<Rightarrow> 'r DeflateBackend \<Rightarrow> ('w \<Rightarrow> bytes) \<Rightarrow> ('w \<Rightarrow> nat) \<Rightarrow> bool" where
  "deflateCodec be br hist win \<longleftrightarrow>
     (\<forall>level bits. be_MinLevel be \<le> level \<and> level \<le> be_MaxLevel be \<and>
        be_MinWindowBits be \<le> bits \<and> bits \<le> be_MaxWindowBits be \<longrightarrow>
        (\<exists>w. be_NewWriter be level bits = Some w)) \<and>
     (\<forall>level bits w. be_NewWriter be level bits = Some w \<longrightarrow> win w \<le> 2 ^ nat bits) \<and>
     (\<forall>w. hist (be_Reset be w) = [] \<and> win (be_Reset be w) = win w) \<and>
     (\<forall>w p. \<exists>w1 o1 w2 o2 body.
        be_Write be w p = ((w1, o1), None) \<and> be_Flush be w1 = ((w2, o2), None) \<and>
        o1 @ o2 = body @ deflateFlushTail \<and> hist w2 = hist w @ p \<and> win w2 = win w \<and>
        (\<forall>bits m. win w \<le> 2 ^ nat bits \<longrightarrow> win w \<le> m \<longrightarrow> (\<exists>script.
           be_OpenReader br bits (body @ deflateReadTail) (drop (length (hist w) - m) (hist w)) = Inr script \<and>
           scriptOut script = (p, EOF))))"

text \<open>
  One direction of a connection: every message goes through the sender's \<^verbatim>\<open>compressMessage\<close>; one it declines
  travels as it is, the others through the receiver's \<^verbatim>\<open>decompressMessage\<close>.
\<close>

fun exchange :: "(nat \<Rightarrow> int \<Rightarrow> nat) \<Rightarrow> 'w deflateConfig \<Rightarrow> 'r deflateConfig \<Rightarrow> int \<Rightarrow> int \<Rightarrow> nat \<Rightarrow>
    'w deflateState option \<Rightarrow> 'r deflateState option \<Rightarrow> bytes list \<Rightarrow> bytes list option" where
  "exchange growCap cs cr ceil readLimit cp s r [] = Some []"
| "exchange growCap cs cr ceil readLimit cp s r (m # ms) =
     (case compressMessage cs s ceil m of
        (Inr None, s') \<Rightarrow> map_option (Cons m) (exchange growCap cs cr ceil readLimit cp s' r ms)
      | (Inr (Some c), s') \<Rightarrow>
          (case decompressMessage growCap cr r readLimit cp c of
             (Inr p, r') \<Rightarrow> map_option (Cons p) (exchange growCap cs cr ceil readLimit cp s' r' ms)
           | (Inl _, _) \<Rightarrow> None)
      | (Inl _, _) \<Rightarrow> None)"

text \<open>
  Sender and receiver agree on the context: a sender that keeps its writer's history faces a
  dictionary that is the recent end of it, any other sender faces no dictionary.
\<close>

definition linked :: "('w \<Rightarrow> bytes) \<Rightarrow> ('w \<Rightarrow> nat) \<Rightarrow> 'w deflateState option \<Rightarrow> 'r deflateState option \<Rightarrow> bool" where
  "linked hist win s r \<longleftrightarrow>
     (case Option.bind s (\<lambda>ds. if ds_outgoingTakeover ds then ds_outgoing ds else None) of
        None \<Rightarrow> Option.bind r ds_incomingDict = None
      | Some w \<Rightarrow> (\<exists>dr m. r = Some dr \<and> m = 2 ^ nat (ds_incomingWindowBits dr) \<and> win w \<le> m \<and>
          ds_incomingDict dr = Some (drop (length (hist w) - m) (hist w))))"

text \<open>The connection's own writer, if it has one, needs no larger window than the receiver opens its readers for.\<close>

definition withinWindow :: "('w \<Rightarrow> nat) \<Rightarrow> int \<Rightarrow> 'w deflateState option \<Rightarrow> bool" where
  "withinWindow win bits s \<longleftrightarrow> (case Option.bind s ds_outgoing of None \<Rightarrow> True | Some w \<Rightarrow> win w \<le> 2 ^ nat bits)"

lemma window_le: "bits \<le> bits' \<Longrightarrow> (n :: nat) \<le> 2 ^ nat bits \<Longrightarrow> n \<le> 2 ^ nat bits'"
  by (erule order_trans) (simp add: nat_mono)

lemma writeAndFlush_codec:
  assumes "deflateCodec be br hist win"
  obtains body w' where "writeAndFlush be w [] p = (Inr body, w', body @ deflateFlushTail)"
    "hist w' = hist w @ p" "win w' = win w"
    "\<And>bits m. win w \<le> 2 ^ nat bits \<Longrightarrow> win w \<le> m \<Longrightarrow> \<exists>script.
       be_OpenReader br bits (body @ deflateReadTail) (drop (length (hist w) - m) (hist w)) = Inr script \<and>
       scriptOut script = (p, EOF)"
proof -
  obtain w1 o1 w2 o2 body where *: "be_Write be w p = ((w1, o1), None)" "be_Flush be w1 = ((w2, o2), None)"
      "o1 @ o2 = body @ deflateFlushTail" "hist w2 = hist w @ p" "win w2 = win w"
    and rd: "\<forall>bits m. win w \<le> 2 ^ nat bits \<longrightarrow> win w \<le> m \<longrightarrow> (\<exists>script.
       be_OpenReader br bits (body @ deflateReadTail) (drop (length (hist w) - m) (hist w)) = Inr script \<and>
       scriptOut script = (p, EOF))"
    using assms [unfolded deflateCodec_def, THEN conjunct2, THEN conjunct2, THEN conjunct2, THEN spec, of w, THEN spec, of p]
    by (elim exE conjE) (rule that; assumption)
  show ?thesis
    by (rule that [of body w2]) (use * rd in \<open>simp_all add: writeAndFlush_def Let_def\<close>)
qed

text \<open>The writer a sender uses and the state it leaves, when compression is not refused.\<close>

lemma exchange_step:
  assumes codec: "deflateCodec (cfg_backend cs) (cfg_backend cr) hist win"
    and new: "be_NewWriter (cfg_backend cs) (cfg_level cs) (cfg_windowBits cs) \<noteq> None"
    and link: "linked hist win s r"
    and window: "cfg_windowBits cs \<le> cfg_windowBits cr" "withinWindow win (cfg_windowBits cr) s"
    and lim: "0 \<le> readLimit" "readLimit < 2 ^ 63 - 1" "int (length m) \<le> readLimit"
  shows "compressMessage cs s ceil m = (Inr None, s) \<or>
    (\<exists>c s' r'. compressMessage cs s ceil m = (Inr (Some c), s') \<and>
       decompressMessage growCap cr r readLimit cp c = (Inr m, r') \<and> linked hist win s' r' \<and>
       withinWindow win (cfg_windowBits cr) s')"
proof (cases "acquireCompressor cs s ceil")
  case Refused
  then show ?thesis by (simp add: compressMessage_def)
next
  case AcquirePanic
  then show ?thesis using new
    by (auto simp: acquireCompressor_def Let_def split: option.splits if_splits)
next
  case (Acquired w0 reset perConn)
  let ?be = "cfg_backend cs"
  let ?keeps = "\<lambda>s :: 'a deflateState option.
    Option.bind s (\<lambda>ds. if ds_outgoingTakeover ds then ds_outgoing ds else None)"
  define w where "w = (if reset then be_Reset ?be w0 else w0)"
  obtain body w' where wf: "writeAndFlush ?be w [] m = (Inr body, w', body @ deflateFlushTail)"
    and w': "hist w' = hist w @ m" "win w' = win w"
    and rd: "\<And>bits k. win w \<le> 2 ^ nat bits \<Longrightarrow> win w \<le> k \<Longrightarrow> \<exists>script. be_OpenReader (cfg_backend cr) bits
        (body @ deflateReadTail) (drop (length (hist w) - k) (hist w)) = Inr script \<and> scriptOut script = (m, EOF)"
    using writeAndFlush_codec [OF codec, of w m] by metis
  define s' where "s' = (if perConn then map_option (\<lambda>ds. ds\<lparr>ds_outgoing := Some w'\<rparr>) s else s)"
  have cm: "compressMessage cs s ceil m = (Inr (Some body), s')"
    using Acquired wf by (simp add: compressMessage_def w_def s'_def Let_def)
  define preset where "preset = (case Option.bind r ds_incomingDict of None \<Rightarrow> [] | Some d \<Rightarrow> d)"
  have kept: "if reset then ?keeps s = None \<and> ?keeps s' = None
    else ?keeps s = Some w \<and> ?keeps s' = Some w'"
    using Acquired
    by (auto simp: acquireCompressor_def s'_def w_def Let_def split: option.splits if_splits)
  have "\<exists>k. win w \<le> k \<and> preset = drop (length (hist w) - k) (hist w)"
  proof (cases reset)
    case True
    then have "hist w = []" using codec by (simp add: w_def deflateCodec_def)
    then show ?thesis using kept True link by (auto simp: linked_def preset_def)
  next
    case False
    then show ?thesis using kept link by (auto simp: linked_def preset_def)
  qed
  moreover have "win w0 \<le> 2 ^ nat (cfg_windowBits cr)"
    using Acquired codec window(2) window_le [OF window(1)]
    by (fastforce simp: acquireCompressor_def withinWindow_def deflateCodec_def Let_def split: option.splits if_splits)
  then have within: "win w \<le> 2 ^ nat (cfg_windowBits cr)" using codec by (simp add: w_def deflateCodec_def)
  ultimately obtain script where "be_OpenReader (cfg_backend cr) (cfg_windowBits cr) (body @ deflateReadTail) preset
      = Inr script" "scriptOut script = (m, EOF)" using rd by metis
  then have "fst (decompressMessage growCap cr r readLimit cp body) = Inr m"
    using decompressMessage_result [of readLimit cr body r script m EOF growCap cp] lim
    by (simp add: preset_def)
  then obtain r' where dm: "decompressMessage growCap cr r readLimit cp body = (Inr m, r')"
    by (metis prod.collapse)
  have "linked hist win s' r'"
    using link kept w' decompressMessage_dict [OF dm] slideWindow_history
    by (cases reset; cases r) (auto simp: linked_def split: option.splits)
  moreover have "withinWindow win (cfg_windowBits cr) s'"
    using window(2) within w'(2) by (cases s) (simp_all add: withinWindow_def s'_def)
  ultimately show ?thesis using cm dm by blast
qed

lemma exchange_linked:
  assumes "deflateCodec (cfg_backend cs) (cfg_backend cr) hist win"
    "be_NewWriter (cfg_backend cs) (cfg_level cs) (cfg_windowBits cs) \<noteq> None"
    "0 \<le> readLimit" "readLimit < 2 ^ 63 - 1" "cfg_windowBits cs \<le> cfg_windowBits cr"
  shows "linked hist win s r \<Longrightarrow> withinWindow win (cfg_windowBits cr) s \<Longrightarrow> list_all (\<lambda>m. int (length m) \<le> readLimit) ms \<Longrightarrow>
    exchange growCap cs cr ceil readLimit cp s r ms = Some ms"
proof (induction ms arbitrary: s r)
  case (Cons m ms)
  from exchange_step [OF assms(1,2) Cons.prems(1) assms(5) Cons.prems(2) assms(3,4), of m ceil growCap cp] Cons.prems(3)
  consider "compressMessage cs s ceil m = (Inr None, s)"
    | c s' r' where "compressMessage cs s ceil m = (Inr (Some c), s')"
       "decompressMessage growCap cr r readLimit cp c = (Inr m, r')" "linked hist win s' r'"
       "withinWindow win (cfg_windowBits cr) s'" by auto
  then show ?case using Cons by cases simp_all
qed simp

text \<open>What a side's construction decides about each direction.\<close>

lemma deflateStateFor_incoming:
  assumes "deflateStateFor cfg outT inT outCeil inBits = Inr r"
  shows "if inT then \<exists>dr. r = Some dr \<and> ds_incomingDict dr = Some [] \<and> ds_incomingWindowBits dr = inBits
    else Option.bind r ds_incomingDict = None"
  using assms unfolding deflateStateFor_def Let_def
  by (simp split: if_split_asm option.split_asm) (drule sym, simp)+

lemma deflateStateFor_outgoing:
  assumes "deflateStateFor cfg outT inT outCeil inBits = Inr s"
    "Option.bind s (Some \<circ> ds_outgoingDisabled) \<noteq> Some True"
  shows "if outT then \<exists>ds w bits. s = Some ds \<and> ds_outgoingTakeover ds \<and>
      ds_outgoing ds = Some (be_Reset (cfg_backend cfg) w) \<and>
      be_NewWriter (cfg_backend cfg) (cfg_level cfg) bits = Some w \<and> bits \<le> outCeil
    else Option.bind s (\<lambda>ds. if ds_outgoingTakeover ds then ds_outgoing ds else None) = None"
  using assms unfolding deflateStateFor_def Let_def
  by (simp split: if_split_asm option.split_asm)
    (drule sym, simp; (intro impI exI conjI, rule refl, assumption, rule min.cobounded2)?)+

lemma newDeflateState_dir:
  assumes "cp_ClientMaxWindowBitsHint p = 0"
  shows "newDeflateState cfg client p = deflateStateFor cfg
    (if client then cp_ClientContextTakeover p else cp_ServerContextTakeover p)
    (if client then cp_ServerContextTakeover p else cp_ClientContextTakeover p)
    (effectiveWindowBits (if client then cp_ClientMaxWindowBits p else cp_ServerMaxWindowBits p))
    (effectiveWindowBits (if client then cp_ServerMaxWindowBits p else cp_ClientMaxWindowBits p))"
  using assms by (simp add: newDeflateState_def minDeflateWindowBits_def)

lemma deflateStateFor_window:
  assumes "deflateStateFor cfg outT inT outCeil inBits = Inr s" "Option.bind s ds_outgoing = Some w'"
  shows "\<exists>w bits. w' = be_Reset (cfg_backend cfg) w \<and> be_NewWriter (cfg_backend cfg) (cfg_level cfg) bits = Some w \<and>
    bits \<le> cfg_windowBits cfg"
proof (cases "be_NewWriter (cfg_backend cfg) (cfg_level cfg) (min (cfg_windowBits cfg) outCeil)")
  case (Some w)
  then have "w' = be_Reset (cfg_backend cfg) w"
    using assms by (auto simp: deflateStateFor_def Let_def split: if_split_asm)
  then show ?thesis using Some by (intro exI conjI) (assumption+, simp)
qed (use assms in \<open>auto simp: deflateStateFor_def Let_def split: if_split_asm\<close>)

lemma newDeflateState_within:
  assumes codec: "deflateCodec (cfg_backend cs) br hist win" and hint: "cp_ClientMaxWindowBitsHint p = 0"
    and s: "newDeflateState cs client p = Inr s" and bits: "cfg_windowBits cs \<le> bits"
  shows "withinWindow win bits s"
proof (cases "Option.bind s ds_outgoing")
  case (Some w')
  from deflateStateFor_window [OF s [unfolded newDeflateState_dir [OF hint]] Some]
  obtain w b where "w' = be_Reset (cfg_backend cs) w" "be_NewWriter (cfg_backend cs) (cfg_level cs) b = Some w" "b \<le> cfg_windowBits cs"
    by blast
  moreover from this have "win w \<le> 2 ^ nat b" using codec unfolding deflateCodec_def by blast
  ultimately show ?thesis using window_le [of b bits "win w"] bits codec Some by (simp add: withinWindow_def deflateCodec_def)
qed (simp add: withinWindow_def)

lemma newDeflateState_linked:
  assumes codec: "deflateCodec (cfg_backend cs) (cfg_backend cr) hist win"
    and hint: "cp_ClientMaxWindowBitsHint p = 0"
    and s: "newDeflateState cs client p = Inr s" "Option.bind s (Some \<circ> ds_outgoingDisabled) \<noteq> Some True"
    and r: "newDeflateState cr (\<not> client) p = Inr r"
  shows "linked hist win s r"
proof -
  define outCeil takeover where
    "outCeil = effectiveWindowBits (if client then cp_ClientMaxWindowBits p else cp_ServerMaxWindowBits p)"
    and "takeover = (if client then cp_ClientContextTakeover p else cp_ServerContextTakeover p)"
  have rdict: "if takeover then \<exists>dr. r = Some dr \<and> ds_incomingDict dr = Some [] \<and>
      ds_incomingWindowBits dr = outCeil else Option.bind r ds_incomingDict = None"
    using deflateStateFor_incoming [OF r [unfolded newDeflateState_dir [OF hint]]]
    unfolding takeover_def outCeil_def by (cases client) (simp_all cong: if_cong)
  note sw = deflateStateFor_outgoing [OF s(1) [unfolded newDeflateState_dir [OF hint]] s(2),
      folded takeover_def outCeil_def]
  show ?thesis
  proof (cases takeover)
    case True
    with sw obtain ds w bits where *: "s = Some ds" "ds_outgoingTakeover ds"
      "ds_outgoing ds = Some (be_Reset (cfg_backend cs) w)"
      "be_NewWriter (cfg_backend cs) (cfg_level cs) bits = Some w" "bits \<le> outCeil" by auto
    obtain dr where "r = Some dr" "ds_incomingDict dr = Some []" "ds_incomingWindowBits dr = outCeil"
      using rdict True by auto
    moreover have "win w \<le> 2 ^ nat outCeil"
      using codec *(4,5) power_increasing [of "nat bits" "nat outCeil" "2 :: nat"]
      by (fastforce simp: deflateCodec_def intro: order_trans nat_mono)
    moreover have "hist (be_Reset (cfg_backend cs) w) = []" "win (be_Reset (cfg_backend cs) w) = win w"
      using codec by (simp_all add: deflateCodec_def)
    ultimately show ?thesis using * by (simp add: linked_def)
  next
    case False
    then show ?thesis using sw rdict by (simp add: linked_def)
  qed
qed

section \<open>Properties\<close>

text \<open>C29: Decompressing a message is total and bounded: with a read limit below the largest
  \<^verbatim>\<open>int64\<close>, whatever chunks the decompressor delivers and whatever buffer is left over from earlier
  messages, \<^verbatim>\<open>decompressMessage\<close> returns the decompressed bytes if they fit the limit and the stream
  ended cleanly, the bomb error as soon as they do not fit, and the decompressor's error
  otherwise.\<close>

theorem decompress_bounded:
  assumes "0 \<le> readLimit" "readLimit < 2 ^ 63 - 1"
    "be_OpenReader (cfg_backend cfg) (cfg_windowBits cfg) (compressed @ deflateReadTail)
       (case Option.bind dso ds_incomingDict of None \<Rightarrow> [] | Some d \<Rightarrow> d) = Inr script"
  shows "fst (decompressMessage growCap cfg dso readLimit cp compressed) =
    (if int (length (fst (scriptOut script))) > readLimit then Inl DecompressTooLarge
     else if snd (scriptOut script) = EOF then Inr (fst (scriptOut script))
     else Inl (DecompressIO (snd (scriptOut script))))"
  by (rule decompressMessage_result [OF assms]) simp

text \<open>
  A backend without compression, for the witnesses: the writer keeps the plaintext, the stream is the
  plaintext.
\<close>

definition storeBackend :: "bytes DeflateBackend" where
  "storeBackend = \<lparr>be_NewWriter = (\<lambda>_ _. Some []), be_Reset = (\<lambda>_. []),
     be_Write = (\<lambda>w p. ((w @ p, p), None)), be_Flush = (\<lambda>w. ((w, deflateFlushTail), None)),
     be_OpenReader = (\<lambda>_ s _. Inr [(take (length s - length deflateReadTail) s, None)]),
     be_MinLevel = 0, be_MaxLevel = 9, be_MinWindowBits = 8, be_MaxWindowBits = 15\<rparr>"

definition storeConfig :: "bytes deflateConfig" where
  "storeConfig = \<lparr>cfg_backend = storeBackend, cfg_level = 1, cfg_windowBits = 10\<rparr>"

theorem decompress_bounded_witness:
  "fst (decompressMessage (\<lambda>_ _. 0) storeConfig None 2 0 [1, 2, 3]) = Inl DecompressTooLarge"
  by (subst decompress_bounded [where script = "[([1, 2, 3], None)]"])
    (simp_all add: storeConfig_def storeBackend_def)

text \<open>The read limit \<^verbatim>\<open>math.MaxInt64\<close> defeats the bound: the limit plus one wraps around, the growth
  computed from it is negative, and inflating into an empty buffer panics before the first read.\<close>

theorem maximal_limit_panics:
  "inflateLoop growCap (2 ^ 63 - 1) [] 0 script = InflatePanic"
proof -
  have "i64 (2 ^ 63) = - (2 ^ 63)" using i64_wrap [of "2 ^ 63"] by simp
  moreover have "i64 inflateChunkSize = inflateChunkSize" "i64 (- (2 ^ 63)) = - (2 ^ 63)"
    by (intro i64_id; simp add: int64_range_def inflateChunkSize_def)+
  ultimately show ?thesis
    by (simp add: inflateLoop.simps Let_def inflateChunkSize_def)
qed

text \<open>Context takeover keeps the dictionary the peer needs: after any messages the sliding window is
  the most recent plaintext, as many bytes of all that was received as the negotiated window holds.\<close>

theorem sliding_window_is_recent_plaintext:
  "foldl (\<lambda>d add. slideWindow d add m) [] msgs = drop (length (concat msgs) - m) (concat msgs)"
  using slideAll_suffix [of m msgs] by (simp add: slideAll_def)

text \<open>However the decompressor sizes its reads, the tail reader serves the compressed message followed
  by the nine tail bytes, and reports the end exactly when all of it was served.\<close>

theorem tail_reader_serves_stream:
  "case tailReads ks \<lparr>tr_b = compressed, tr_tailPos = 0\<rparr> of (p, e, r') \<Rightarrow>
     compressed @ deflateReadTail = p @ tailRest r' \<and>
     (e = None \<or> e = Some EOF \<and> p = compressed @ deflateReadTail)"
  using tailReads_rest [where ks = ks and r = "\<lparr>tr_b = compressed, tr_tailPos = 0\<rparr>"]
  by (auto simp: tailRest_def)

text \<open>C28: A compressed message stream arrives as it was sent, in either direction and with or without
  context takeover: both sides build their state from the same negotiated parameters, every message
  goes through the sender's compressor (or plainly, where its window is refused) and the receiver's
  decompressor with its sliding dictionary, and the receiver gets the sender's messages. The parameters carry no window
  hint, the sender's side has not switched its compression off for want of a small enough window, the receiver's configured window is at least the sender's,
  and the read limit is below the largest \<^verbatim>\<open>int64\<close> and admits the messages. The two DEFLATE implementations only have to be
  inverse to each other for readers that are opened for at least the window the writer was asked for.\<close>

theorem deflate_stream_roundtrip:
  assumes "deflateCodec be (cfg_backend cr) hist win"
    "SetDeflateBackend be level bits old = (None, cs)"
    "cp_ClientMaxWindowBitsHint p = 0"
    "newDeflateState cs client p = Inr s" "Option.bind s (Some \<circ> ds_outgoingDisabled) \<noteq> Some True"
    "newDeflateState cr (\<not> client) p = Inr r"
    "cfg_windowBits cs \<le> cfg_windowBits cr"
    "0 \<le> readLimit" "readLimit < 2 ^ 63 - 1" "list_all (\<lambda>m. int (length m) \<le> readLimit) ms"
  shows "exchange growCap cs cr ceil readLimit cp s r ms = Some ms"
proof -
  have cs: "cs = \<lparr>cfg_backend = be, cfg_level = level, cfg_windowBits = bits\<rparr>"
    "be_MinLevel be \<le> level" "level \<le> be_MaxLevel be" "be_MinWindowBits be \<le> bits" "bits \<le> be_MaxWindowBits be"
    using assms(2) by (auto simp: SetDeflateBackend_def split: if_splits)
  then have codec: "deflateCodec (cfg_backend cs) (cfg_backend cr) hist win" using assms(1) by simp
  have "be_NewWriter (cfg_backend cs) (cfg_level cs) (cfg_windowBits cs) \<noteq> None"
    using assms(1) cs unfolding deflateCodec_def by fastforce
  with newDeflateState_linked [OF codec assms(3-6)] newDeflateState_within [OF codec assms(3,4,7)] show ?thesis
    using exchange_linked [OF codec _ assms(8,9,7)] assms(10) by blast
qed

lemma storeBackend_codec: "deflateCodec storeBackend storeBackend (\<lambda>w. w) (\<lambda>_. 0)"
  by (simp add: deflateCodec_def storeBackend_def)

theorem deflate_stream_roundtrip_witness:
  "\<exists>s r. newDeflateState storeConfig True (noCompressionParams\<lparr>cp_ClientContextTakeover := True\<rparr>) = Inr s \<and>
     newDeflateState storeConfig False (noCompressionParams\<lparr>cp_ClientContextTakeover := True\<rparr>) = Inr r \<and>
     exchange (\<lambda>_ _. 0) storeConfig storeConfig 15 100 0 s r [[1, 2], [], [1, 2, 3]] = Some [[1, 2], [], [1, 2, 3]]"
proof -
  let ?p = "noCompressionParams\<lparr>cp_ClientContextTakeover := True\<rparr>"
  let ?s = "Some \<lparr>ds_outgoing = Some [], ds_incomingDict = None, ds_incomingWindowBits = 15,
    ds_outgoingTakeover = True, ds_outgoingDisabled = False\<rparr> :: bytes deflateState option"
  let ?r = "Some \<lparr>ds_outgoing = None, ds_incomingDict = Some [], ds_incomingWindowBits = 15,
    ds_outgoingTakeover = False, ds_outgoingDisabled = False\<rparr> :: bytes deflateState option"
  have st: "newDeflateState storeConfig True ?p = Inr ?s" "newDeflateState storeConfig False ?p = Inr ?r"
    by (simp_all add: newDeflateState_def deflateStateFor_def storeConfig_def storeBackend_def
        noCompressionParams_def effectiveWindowBits_def minDeflateWindowBits_def deflateWindowBits_def)
  have "exchange (\<lambda>_ _. 0) storeConfig storeConfig 15 100 0 ?s ?r [[1, 2], [], [1, 2, 3]] =
    Some [[1, 2], [], [1, 2, 3]]"
    by (rule deflate_stream_roundtrip [where be = storeBackend and hist = "\<lambda>w. w" and win = "\<lambda>_. 0"
          and level = 1 and bits = 10 and old = storeConfig and client = True and p = ?p])
      (use st storeBackend_codec in \<open>simp_all add: SetDeflateBackend_def storeConfig_def storeBackend_def
        noCompressionParams_def\<close>)
  then show ?thesis using st by blast
qed

end
