(* ===== verification/Connection.thy ===== *)
theory Connection
  imports Frame Masking Utf8x Pool Compress
begin

text \<open>
  The state of a connection, \<^verbatim>\<open>src/conn.go\<close>, with the mode selection and the validation of Close bodies of
  \<^verbatim>\<open>src/relay.go\<close>. The record \<open>Conn\<close> has the fields of the struct that carry state; scratch buffers
  that every use overwrites (\<^verbatim>\<open>whdr\<close>, \<^verbatim>\<open>wpay\<close>, \<^verbatim>\<open>wclose\<close>, \<^verbatim>\<open>wstage\<close>, \<^verbatim>\<open>wcomp\<close>, \<^verbatim>\<open>inflateBuf\<close>) have none. The lock
  fields are not modelled: each exported operation is one step on the state.

  A slice whose storage went back to the pool is empty. The masking keys, which the program draws from
  a random generator, are an arbitrary sequence; the process-wide DEFLATE configuration is the one the
  connection sees throughout.
\<close>

definition defaultReadBufferSize :: int where "defaultReadBufferSize = 4096"
definition defaultWriteBufferSize :: nat where "defaultWriteBufferSize = 4096"
definition defaultReadLimit :: int where "defaultReadLimit = 32 * 2 ^ 20"
definition defaultCompressMinSize :: nat where "defaultCompressMinSize = 512"
definition maxAdaptiveReadSize :: int where "maxAdaptiveReadSize = 16 * 2 ^ 10"
definition maxCoalescedWriteSize :: nat where "maxCoalescedWriteSize = 2 * 2 ^ 10"
definition maxBufferedWriteSize :: nat where "maxBufferedWriteSize = 256 * 2 ^ 10"

definition connModeMessage :: nat where "connModeMessage = 1"
definition connModeFrame :: nat where "connModeFrame = 2"

section \<open>Errors\<close>

text \<open>
  The errors the connection's operations return. \<open>GoPanic\<close> is a run-time panic (a slice grown past what
  can be allocated, a backend that breaks its own range).
\<close>

datatype connErr =
    IOErr ioErr
  | CloseError CloseCode bytes bool
  | ProtocolError CloseCode bytes
  | FrameUsageError bytes
  | ErrWriteClosed
  | ErrNetClosed
  | ErrWriterBusy
  | ErrWriterClosed
  | ErrNotDataOpcode
  | ErrConnMode
  | ErrPeerClosed
  | ErrStreamReaderStale
  | ErrInvalidCloseCode
  | ErrInvalidCloseReason
  | ErrCloseReasonTooLong
  | ErrUnsupportedWindowBits
  | ErrPreparedMessageClientRole
  | ErrCompress compressErr
  | ErrHandler nat
  | GoPanic

section \<open>The connection\<close>

record messageReader =
  mr_err :: "connErr option"
  mr_inflated :: bytes
  mr_frameRem :: int
  mr_total :: int
  mr_inflatedPos :: nat
  mr_key :: "32 word"
  mr_op :: Opcode
  mr_masked :: bool
  mr_fin :: bool
  mr_complete :: bool
  mr_compressed :: bool

record frameReadState =
  fr_active :: bool
  fr_compressed :: bool
  fr_text :: bool
  fr_total :: int

text \<open>
  A lease is a compressor, its sink and whether the compressor is the connection's own.
\<close>

record 'w compressorLease =
  l_w :: 'w
  l_sw :: bytes
  l_perConn :: bool

record 'w frameWriteState =
  fw_active :: bool
  fw_compressed :: bool
  fw_lease :: "'w compressorLease option"
  fw_err :: "connErr option"

record frameDecodeState =
  fd_active :: bool
  fd_compressed :: bool
  fd_text :: bool
  fd_total :: int
  fd_buf :: bytes
  fd_err :: "connErr option"

text \<open>
  \<open>c_msgReader\<close> and \<open>c_msgWriter\<close> stand for pointers: the streams a connection hands out are numbered,
  and a handle is current when its number is the connection's.
\<close>

record 'w Conn =
  c_conn :: transport
  c_rbuf :: bytes
  c_r0 :: nat
  c_r1 :: nat
  c_hdrTable :: headerTable
  c_hdrMaskBit :: byte
  c_readLimit :: int
  c_readErr :: "connErr option"
  c_msgReader :: "(nat \<times> messageReader) option"
  c_msgBuf :: bytes
  c_client :: bool
  c_vectored :: bool
  c_skipUTF8 :: bool
  c_msgIsText :: bool
  c_msgCompressed :: bool
  c_utf8v :: Validator
  c_wbatch :: bytes
  c_msgWriter :: "nat option"
  c_closeSent :: bool
  c_compression :: bool
  c_closeRcvd :: bool
  c_tornDown :: bool
  c_deflate :: "'w deflateState option"
  c_outgoingWindowCeil :: int
  c_mode :: nat
  c_frameStopped :: bool
  c_frameRead :: frameReadState
  c_frameWrite :: "'w frameWriteState"
  c_frameDecode :: frameDecodeState
  c_active :: "'w deflateConfig"
  c_keys :: "nat \<Rightarrow> 32 word"
  c_keyPos :: nat
  c_streams :: nat

section \<open>Construction\<close>

record connConfig =
  cc_readBufSize :: int
  cc_readLimit :: int
  cc_skipUTF8 :: bool
  cc_buffered :: bytes
  cc_compression :: bool
  cc_compressionParams :: CompressionParams

definition defaultConfig :: connConfig where
  "defaultConfig = \<lparr>cc_readBufSize = defaultReadBufferSize, cc_readLimit = defaultReadLimit,
     cc_skipUTF8 = False, cc_buffered = [], cc_compression = False,
     cc_compressionParams = noCompressionParams\<rparr>"

datatype ConnOption =
    WithReadBufferSize int
  | WithReadLimit int
  | WithSkipUTF8Validation bool
  | WithBuffered bytes
  | WithCompression bool
  | WithCompressionParams CompressionParams

primrec applyOption :: "ConnOption \<Rightarrow> connConfig \<Rightarrow> connConfig" where
  "applyOption (WithReadBufferSize n) c = (if n > 0 then c\<lparr>cc_readBufSize := n\<rparr> else c)"
| "applyOption (WithReadLimit n) c = (if n > 0 then c\<lparr>cc_readLimit := n\<rparr> else c)"
| "applyOption (WithSkipUTF8Validation skip) c = c\<lparr>cc_skipUTF8 := skip\<rparr>"
| "applyOption (WithBuffered b) c = c\<lparr>cc_buffered := b\<rparr>"
| "applyOption (WithCompression enabled) c = c\<lparr>cc_compression := enabled\<rparr>"
| "applyOption (WithCompressionParams p) c = c\<lparr>cc_compression := True, cc_compressionParams := p\<rparr>"

text \<open>
  The storage \<^verbatim>\<open>pool.Get(n)\<close> hands out, all of its capacity. What a pooled buffer holds is never read
  before it is written: the theorems on the reader hold for any contents of the read buffer.
\<close>

definition poolStorage :: "int \<Rightarrow> bytes" where
  "poolStorage n = b_array (fst (Get None emptyPools n))"

lemma length_poolStorage:
  assumes "0 \<le> n"
  shows "n \<le> int (length (poolStorage n))" "n \<le> maxClassSize \<Longrightarrow> 128 \<le> length (poolStorage n) \<and> length (poolStorage n) \<le> 2 ^ 18"
proof -
  note g = Get_buffer [OF poolsOk_empty, of None n]
  show "n \<le> int (length (poolStorage n))" using g by (simp add: poolStorage_def)
  assume "n \<le> maxClassSize"
  then obtain i where i: "classIndex n = Some i" using classIndex_None [of n] by (cases "classIndex n") auto
  then have len: "length (poolStorage n) = classCap i" using g by (simp add: poolStorage_def)
  have "i \<le> 11" using classIndex_range [of n i] i by (simp add: pool_consts)
  then have "(2 :: nat) ^ (7 + i) \<le> 2 ^ 18" by (intro power_increasing) simp_all
  moreover have "(2 :: nat) ^ 7 \<le> 2 ^ (7 + i)" by (intro power_increasing) simp_all
  ultimately show "128 \<le> length (poolStorage n) \<and> length (poolStorage n) \<le> 2 ^ 18"
    using len by (simp add: classCap_def pool_consts)
qed

text \<open>
  \<^verbatim>\<open>newConn\<close>. \<open>vectored\<close> says whether the transport is a TCP or Unix socket. \<^const>\<open>Inl\<close> is the panic of
  \<^verbatim>\<open>newDeflateState\<close>.
\<close>

definition newConn :: "transport \<Rightarrow> bool \<Rightarrow> bool \<Rightarrow> 'w deflateConfig \<Rightarrow> (nat \<Rightarrow> 32 word) \<Rightarrow>
    ConnOption list \<Rightarrow> unit + 'w Conn" where
  "newConn nc vectored client active keys opts =
     (let cfg = foldl (\<lambda>c opt. applyOption opt c) defaultConfig opts;
          size = max (cc_readBufSize cfg) (int (length (cc_buffered cfg)));
          rbuf = poolStorage size;
          (tbl, maskBit) = headerTableFor client (cc_compression cfg);
          p = cc_compressionParams cfg;
          ceil = (if \<not> cc_compression cfg then deflateWindowBits
                  else if client then effectiveWindowBits (cp_ClientMaxWindowBits p)
                  else effectiveWindowBits (cp_ServerMaxWindowBits p));
          c = \<lparr>c_conn = nc, c_rbuf = copyAt rbuf 0 (cc_buffered cfg), c_r0 = 0,
               c_r1 = length (cc_buffered cfg), c_hdrTable = tbl, c_hdrMaskBit = maskBit,
               c_readLimit = cc_readLimit cfg, c_readErr = None, c_msgReader = None, c_msgBuf = [],
               c_client = client, c_vectored = vectored, c_skipUTF8 = cc_skipUTF8 cfg,
               c_msgIsText = False, c_msgCompressed = False, c_utf8v = newValidator, c_wbatch = [],
               c_msgWriter = None, c_closeSent = False, c_compression = cc_compression cfg,
               c_closeRcvd = False, c_tornDown = False, c_deflate = None, c_outgoingWindowCeil = ceil,
               c_mode = 0, c_frameStopped = False,
               c_frameRead = \<lparr>fr_active = False, fr_compressed = False, fr_text = False, fr_total = 0\<rparr>,
               c_frameWrite = \<lparr>fw_active = False, fw_compressed = False, fw_lease = None, fw_err = None\<rparr>,
               c_frameDecode = \<lparr>fd_active = False, fd_compressed = False, fd_text = False, fd_total = 0,
                 fd_buf = [], fd_err = None\<rparr>,
               c_active = active, c_keys = keys, c_keyPos = 0, c_streams = 0\<rparr> in
      if cc_compression cfg then
        (case newDeflateState active client p of
           Inl _ \<Rightarrow> Inl ()
         | Inr ds \<Rightarrow> Inr (c\<lparr>c_deflate := ds\<rparr>))
      else Inr c)"

section \<open>Mode selection and teardown\<close>

definition selectMode :: "nat \<Rightarrow> 'w Conn \<Rightarrow> connErr option \<times> 'w Conn" where
  "selectMode mode c =
     (if c_mode c = mode then (None, c)
      else if c_mode c = 0 then (None, c\<lparr>c_mode := mode\<rparr>)
      else (Some ErrConnMode, c))"

text \<open>\<^verbatim>\<open>frameStopOnce.Do(func() { c.conn.Close() })\<close>\<close>

definition frameStop :: "'w Conn \<Rightarrow> 'w Conn" where
  "frameStop c = (if c_frameStopped c then c
     else c\<lparr>c_frameStopped := True, c_conn := tClose (c_conn c)\<rparr>)"

definition releaseFrameCompressor :: "'w Conn \<Rightarrow> 'w Conn" where
  "releaseFrameCompressor c =
     c\<lparr>c_frameWrite := (c_frameWrite c)\<lparr>fw_lease := None, fw_active := False\<rparr>\<rparr>"

definition teardown :: "'w Conn \<Rightarrow> 'w Conn" where
  "teardown c =
     (if c_tornDown c then c
      else
        let c = (if c_mode c = connModeFrame then frameStop c else c\<lparr>c_conn := tClose (c_conn c)\<rparr>);
            c = c\<lparr>c_rbuf := [], c_msgBuf := [], c_frameDecode := (c_frameDecode c)\<lparr>fd_buf := []\<rparr>,
                  c_r0 := 0, c_r1 := 0\<rparr>;
            c = (if c_mode c = connModeFrame then releaseFrameCompressor c else c)
        in c\<lparr>c_wbatch := [], c_deflate := None, c_tornDown := True\<rparr>)"

text \<open>
  \<^verbatim>\<open>adaptReadBuffer\<close>: a larger buffer from the pool, with the unread bytes moved to its front.
\<close>

definition adaptReadBuffer :: "int \<Rightarrow> 'w Conn \<Rightarrow> 'w Conn" where
  "adaptReadBuffer payloadSize c =
     (if payloadSize > c_readLimit c \<or> payloadSize \<le> int (length (c_rbuf c)) \<or>
         payloadSize > maxAdaptiveReadSize
      then c
      else
        let next = poolStorage (payloadSize + int MaxHeaderSize);
            unread = take (c_r1 c - c_r0 c) (drop (c_r0 c) (c_rbuf c))
        in c\<lparr>c_rbuf := copyAt next 0 unread, c_r0 := 0, c_r1 := length unread\<rparr>)"

section \<open>Close bodies\<close>

text \<open>\<^const>\<open>Inl\<close> holds the code and the text of the \<^verbatim>\<open>ProtocolError\<close>.\<close>

definition validateCloseBody :: "bytes \<Rightarrow> bool \<Rightarrow> (CloseCode \<times> bytes) + (CloseCode \<times> bytes)" where
  "validateCloseBody payload checkUTF8 =
     (case ParseCloseBody payload of
        Inl _ \<Rightarrow> Inl (CloseProtocolError, B ''malformed close frame body'')
      | Inr (code, reason) \<Rightarrow>
          if length payload = 0 then Inr (CloseNoStatusReceived, [])
          else if \<not> ValidCloseCode code then Inl (CloseProtocolError, B ''invalid close code'')
          else if checkUTF8 \<and> \<not> Valid simdBulk_generic reason
          then Inl (CloseInvalidFramePayloadData, B ''invalid UTF-8 in close reason'')
          else Inr (code, reason))"

definition ParseClose :: "bytes \<Rightarrow> connErr + (CloseCode \<times> bytes)" where
  "ParseClose payload =
     (case validateCloseBody payload True of
        Inl (code, reason) \<Rightarrow> Inl (ProtocolError code reason)
      | Inr r \<Rightarrow> Inr r)"

definition validateCloseArgs :: "CloseCode \<Rightarrow> bytes \<Rightarrow> connErr option" where
  "validateCloseArgs code reason =
     (if \<not> ValidCloseCode code then Some ErrInvalidCloseCode
      else if \<not> Valid simdBulk_generic reason then Some ErrInvalidCloseReason
      else if 2 + length reason > 125 then Some ErrCloseReasonTooLong
      else None)"

text \<open>\<^verbatim>\<open>maskingKey\<close> draws the next key.\<close>

definition maskingKey :: "'w Conn \<Rightarrow> 32 word \<times> 'w Conn" where
  "maskingKey c = (c_keys c (c_keyPos c), c\<lparr>c_keyPos := Suc (c_keyPos c)\<rparr>)"

end
