(* ===== verification/Writer.thy ===== *)
theory Writer
  imports Connection
begin

text \<open>
  The write side of a connection: \<^verbatim>\<open>src/writer.go\<close>, the buffered writes of \<^verbatim>\<open>src/serve.go\<close> and the prepared
  messages of \<^verbatim>\<open>src/prepared.go\<close>. Every operation returns its error, if any, and the connection after it.
\<close>

section \<open>Putting bytes on the wire\<close>

definition connWrite :: "bytes \<Rightarrow> 'w Conn \<Rightarrow> (nat \<times> ioErr option) \<times> 'w Conn" where
  "connWrite p c = (let (r, t) = tWrite p (c_conn c) in (r, c\<lparr>c_conn := t\<rparr>))"

definition writeFrameBytes :: "bytes \<Rightarrow> 'w Conn \<Rightarrow> connErr option \<times> 'w Conn" where
  "writeFrameBytes p c =
     (case connWrite p c of
        ((n, None), c) \<Rightarrow> (if n \<noteq> length p then Some (IOErr ShortWrite) else None, c)
      | ((n, Some e), c) \<Rightarrow> (Some (IOErr e), c))"

text \<open>\<^verbatim>\<open>net.Buffers.WriteTo\<close> on a socket is one scatter-gather write of both buffers.\<close>

definition writev :: "bytes \<Rightarrow> bytes \<Rightarrow> 'w Conn \<Rightarrow> connErr option \<times> 'w Conn" where
  "writev a b c =
     (case connWrite (a @ b) c of
        ((n, None), c) \<Rightarrow> (if n \<noteq> length a + length b then Some (IOErr ShortWrite) else None, c)
      | ((n, Some e), c) \<Rightarrow> (Some (IOErr e), c))"

definition stageWrite :: "bytes \<Rightarrow> bytes \<Rightarrow> 'w Conn \<Rightarrow> connErr option \<times> 'w Conn" where
  "stageWrite a b c =
     (if length a + length b \<le> maxBufferedWriteSize then writeFrameBytes (a @ b) c
      else
        let room = maxBufferedWriteSize - length a in
        case writeFrameBytes (a @ take room b) c of
          (Some e, c) \<Rightarrow> (Some e, c)
        | (None, c) \<Rightarrow> writeFrameBytes (drop room b) c)"

definition writeFrame :: "bytes \<Rightarrow> bytes \<Rightarrow> 'w Conn \<Rightarrow> connErr option \<times> 'w Conn" where
  "writeFrame a b c =
     (if length b = 0 then writeFrameBytes a c
      else if c_vectored c then writev a b c
      else stageWrite a b c)"

definition flushBufferedLocked :: "'w Conn \<Rightarrow> connErr option \<times> 'w Conn" where
  "flushBufferedLocked c =
     (if length (c_wbatch c) = 0 then (None, c)
      else if c_closeSent c \<or> c_tornDown c then (Some ErrWriteClosed, c\<lparr>c_wbatch := []\<rparr>)
      else case connWrite (c_wbatch c) c of
        ((_, e), c) \<Rightarrow> (map_option IOErr e, c\<lparr>c_wbatch := []\<rparr>))"

definition emitFrameLocked :: "Opcode \<Rightarrow> bool \<Rightarrow> byte \<Rightarrow> bytes \<Rightarrow> 'w Conn \<Rightarrow> connErr option \<times> 'w Conn" where
  "emitFrameLocked op fin rsv payload c =
     (case flushBufferedLocked c of
        (Some e, c) \<Rightarrow> (Some e, c)
      | (None, c) \<Rightarrow>
          let h = \<lparr>h_Fin = fin, h_Rsv = rsv, h_Opcode = op, h_Masked = False, h_MaskKey = 0,
                   h_Length = int (length payload)\<rparr> in
          if \<not> c_client c then
            let whdr = AppendHeader [] h in
            if length payload \<le> maxCoalescedWriteSize then writeFrameBytes (whdr @ payload) c
            else writeFrame whdr payload c
          else
            let (key, c) = maskingKey c;
                whdr = AppendHeader [] (h\<lparr>h_Masked := True, h_MaskKey := key\<rparr>);
                wpay = fst (Mask payload key)
            in writeFrame whdr wpay c)"

section \<open>Control frames\<close>

definition writeControl :: "Opcode \<Rightarrow> bytes \<Rightarrow> 'w Conn \<Rightarrow> connErr option \<times> 'w Conn" where
  "writeControl op payload c =
     (if c_closeSent c then (Some ErrWriteClosed, c) else emitFrameLocked op True 0 payload c)"

definition sendClose :: "CloseCode \<Rightarrow> bytes \<Rightarrow> 'w Conn \<Rightarrow> connErr option \<times> 'w Conn" where
  "sendClose code reason c =
     (if c_closeSent c then (None, c)
      else
        let body = (if code \<noteq> 0 then AppendCloseBody [] code reason else []);
            (err, c) = emitFrameLocked OpcodeClose True 0 body c
        in (err, c\<lparr>c_closeSent := True\<rparr>))"

section \<open>What writing a frame changes\<close>

text \<open>Emitting a frame touches the transport's write side, the batch, the keys and \<^verbatim>\<open>closeSent\<close>, nothing else.\<close>

definition wrote :: "'w Conn \<Rightarrow> 'w Conn \<Rightarrow> bool" where
  "wrote c c' \<longleftrightarrow> (\<exists>t w k s. c' = c\<lparr>c_conn := t, c_wbatch := w, c_keyPos := k, c_closeSent := s\<rparr> \<and>
     t_reads t = t_reads (c_conn c) \<and> t_end t = t_end (c_conn c) \<and> t_closes t = t_closes (c_conn c))"

lemma wrote_refl [simp]: "wrote c c"
  by (auto simp: wrote_def intro!: exI [of _ "c_conn c"] exI [of _ "c_wbatch c"] exI [of _ "c_keyPos c"]
      exI [of _ "c_closeSent c"])

lemma wrote_trans: "wrote c c1 \<Longrightarrow> wrote c1 c2 \<Longrightarrow> wrote c c2"
  unfolding wrote_def by (elim exE conjE) (simp, blast)

lemma wrote_connWrite: "wrote c (snd (connWrite p c))"
  using tWrite_reads [of p "c_conn c"]
  by (auto simp: wrote_def connWrite_def case_prod_beta intro!: exI [of _ "snd (tWrite p (c_conn c))"]
      exI [of _ "c_wbatch c"] exI [of _ "c_keyPos c"] exI [of _ "c_closeSent c"])

lemma wrote_batch: "wrote c (c\<lparr>c_wbatch := w\<rparr>)"
  by (auto simp: wrote_def intro!: exI [of _ "c_conn c"] exI [of _ w] exI [of _ "c_keyPos c"]
      exI [of _ "c_closeSent c"])

lemma wrote_key: "wrote c (snd (maskingKey c))"
  by (auto simp: wrote_def maskingKey_def intro!: exI [of _ "c_conn c"] exI [of _ "c_wbatch c"]
      exI [of _ "Suc (c_keyPos c)"] exI [of _ "c_closeSent c"])

lemma wrote_closeSent: "wrote c (c\<lparr>c_closeSent := s\<rparr>)"
  by (auto simp: wrote_def intro!: exI [of _ "c_conn c"] exI [of _ "c_wbatch c"] exI [of _ "c_keyPos c"]
      exI [of _ s])

lemma wrote_writeFrameBytes: "wrote c (snd (writeFrameBytes p c))"
  using wrote_connWrite [of c p] by (auto simp: writeFrameBytes_def split: prod.splits option.splits)

lemma wrote_writeFrame: "wrote c (snd (writeFrame a b c))"
proof -
  have "wrote c (snd (writev a b c))"
    using wrote_connWrite [of c "a @ b"] by (auto simp: writev_def split: prod.splits option.splits)
  moreover have "wrote c (snd (stageWrite a b c))"
    by (auto simp: stageWrite_def Let_def wrote_writeFrameBytes split: prod.splits option.splits)
      (metis snd_conv wrote_trans wrote_writeFrameBytes)+
  ultimately show ?thesis by (simp add: writeFrame_def wrote_writeFrameBytes)
qed

lemma wrote_flush: "wrote c (snd (flushBufferedLocked c))"
  using wrote_trans [OF wrote_connWrite [of c "c_wbatch c"] wrote_batch]
  by (auto simp: flushBufferedLocked_def wrote_batch split: prod.splits)

lemma wrote_emit: "wrote c (snd (emitFrameLocked op fin rsv payload c))"
proof -
  obtain e c1 where f: "flushBufferedLocked c = (e, c1)" by fastforce
  then have c1: "wrote c c1" using wrote_flush [of c] by simp
  have "wrote c1 (snd (writeFrame a b (snd (maskingKey c1))))" for a b
    using wrote_trans [OF wrote_key wrote_writeFrame] .
  then show ?thesis using f c1
    by (cases e) (auto simp: emitFrameLocked_def Let_def maskingKey_def
        intro: wrote_trans [OF c1] wrote_writeFrame wrote_writeFrameBytes)
qed

lemma wrote_writeControl: "wrote c (snd (writeControl op payload c))"
  by (simp add: writeControl_def wrote_emit)

lemma wrote_sendClose: "wrote c (snd (sendClose code reason c))"
  using wrote_trans [OF wrote_emit wrote_closeSent]
  by (auto simp: sendClose_def Let_def case_prod_beta)

section \<open>Whole messages\<close>

definition disableOutgoing :: "'w Conn \<Rightarrow> 'w Conn" where
  "disableOutgoing c =
     c\<lparr>c_deflate := map_option (\<lambda>ds. ds\<lparr>ds_outgoingDisabled := ds_outgoingDisabled ds \<or> ds_outgoingTakeover ds\<rparr>)
         (c_deflate c)\<rparr>"

definition outgoingDisabled :: "'w Conn \<Rightarrow> bool" where
  "outgoingDisabled c = (case c_deflate c of None \<Rightarrow> False | Some ds \<Rightarrow> ds_outgoingDisabled ds)"

definition compressFailure :: "compressErr \<Rightarrow> connErr" where
  "compressFailure e = (if e = NewWriterPanic then GoPanic else ErrCompress e)"

definition writeMessageLocked :: "Opcode \<Rightarrow> bytes \<Rightarrow> 'w Conn \<Rightarrow> connErr option \<times> 'w Conn" where
  "writeMessageLocked op p c =
     (if c_closeSent c \<or> c_tornDown c then (Some ErrWriteClosed, c)
      else if c_msgWriter c \<noteq> None then (Some ErrWriterBusy, c)
      else
        let (res, ds) =
          (if c_compression c \<and> IsData op \<and> length p \<ge> defaultCompressMinSize \<and> \<not> outgoingDisabled c
           then compressMessage (c_active c) (c_deflate c) (c_outgoingWindowCeil c) p
           else (Inr None, c_deflate c));
            c = c\<lparr>c_deflate := ds\<rparr> in
        case res of
          Inl e \<Rightarrow> (Some (compressFailure e), disableOutgoing c)
        | Inr None \<Rightarrow> emitFrameLocked op True 0 p c
        | Inr (Some compressed) \<Rightarrow>
            (case emitFrameLocked op True RSV1 compressed c of
               (None, c) \<Rightarrow> (None, c)
             | (Some e, c) \<Rightarrow> (Some e, disableOutgoing c)))"

definition WriteMessage :: "Opcode \<Rightarrow> bytes \<Rightarrow> 'w Conn \<Rightarrow> connErr option \<times> 'w Conn" where
  "WriteMessage op p c =
     (case selectMode connModeMessage c of
        (Some e, c) \<Rightarrow> (Some e, c)
      | (None, c) \<Rightarrow>
        (case flushBufferedLocked c of
           (Some e, c) \<Rightarrow> (Some e, c)
         | (None, c) \<Rightarrow>
             if c_client c \<or> c_compression c then writeMessageLocked op p c
             else if c_closeSent c \<or> c_tornDown c then (Some ErrWriteClosed, c)
             else if c_msgWriter c \<noteq> None then (Some ErrWriterBusy, c)
             else
               let whdr = AppendHeader [] \<lparr>h_Fin = True, h_Rsv = 0, h_Opcode = op, h_Masked = False,
                     h_MaskKey = 0, h_Length = int (length p)\<rparr> in
               if length p \<le> maxCoalescedWriteSize then
                 case connWrite (whdr @ p) c of ((_, e), c) \<Rightarrow> (map_option IOErr e, c)
               else writeFrame whdr p c))"

section \<open>Buffered messages\<close>

definition appendFrameLocked :: "bytes \<Rightarrow> Opcode \<Rightarrow> bytes \<Rightarrow> 'w Conn \<Rightarrow> bytes \<times> 'w Conn" where
  "appendFrameLocked dst op payload c =
     (let h = \<lparr>h_Fin = True, h_Rsv = 0, h_Opcode = op, h_Masked = False, h_MaskKey = 0,
               h_Length = int (length payload)\<rparr> in
      if \<not> c_client c then (AppendHeader dst h @ payload, c)
      else
        let (key, c) = maskingKey c in
        (AppendHeader dst (h\<lparr>h_Masked := True, h_MaskKey := key\<rparr>) @ fst (Mask payload key), c))"

definition WriteMessageBuffered :: "Opcode \<Rightarrow> bytes \<Rightarrow> 'w Conn \<Rightarrow> connErr option \<times> 'w Conn" where
  "WriteMessageBuffered op p c =
     (case selectMode connModeMessage c of
        (Some e, c) \<Rightarrow> (Some e, c)
      | (None, c) \<Rightarrow>
          if c_closeSent c \<or> c_tornDown c then (Some ErrWriteClosed, c)
          else if c_msgWriter c \<noteq> None then (Some ErrWriterBusy, c)
          else
            let (batch, c) = appendFrameLocked (c_wbatch c) op p c;
                c = c\<lparr>c_wbatch := batch\<rparr> in
            if length (c_wbatch c) \<ge> maxBufferedWriteSize then flushBufferedLocked c
            else (None, c))"

definition discardBuffered :: "'w Conn \<Rightarrow> 'w Conn" where
  "discardBuffered c = c\<lparr>c_wbatch := []\<rparr>"

definition Flush :: "'w Conn \<Rightarrow> connErr option \<times> 'w Conn" where
  "Flush c =
     (case selectMode connModeMessage c of
        (Some e, c) \<Rightarrow> (Some e, c)
      | (None, c) \<Rightarrow> flushBufferedLocked c)"

section \<open>Prepared messages\<close>

record PreparedMessage =
  pm_plain :: bytes
  pm_compressed :: bytes
  pm_prepWindowBits :: int

definition NewPreparedMessage :: "'w deflateConfig \<Rightarrow> Opcode \<Rightarrow> bytes \<Rightarrow> connErr + PreparedMessage" where
  "NewPreparedMessage active op payload =
     (let h = \<lparr>h_Fin = True, h_Rsv = 0, h_Opcode = op, h_Masked = False, h_MaskKey = 0,
               h_Length = int (length payload)\<rparr>;
          plain = AppendHeader [] h @ payload in
      if length payload \<ge> defaultCompressMinSize then
        (case compressPayloadWithConfig active payload of
           Inl e \<Rightarrow> Inl (compressFailure e)
         | Inr compressed \<Rightarrow>
             Inr \<lparr>pm_plain = plain,
                  pm_compressed = AppendHeader [] (h\<lparr>h_Rsv := RSV1, h_Length := int (length compressed)\<rparr>) @ compressed,
                  pm_prepWindowBits = cfg_windowBits active\<rparr>)
      else Inr \<lparr>pm_plain = plain, pm_compressed = [], pm_prepWindowBits = 0\<rparr>)"

definition WritePreparedMessage :: "PreparedMessage \<Rightarrow> 'w Conn \<Rightarrow> connErr option \<times> 'w Conn" where
  "WritePreparedMessage pm c =
     (case selectMode connModeMessage c of
        (Some e, c) \<Rightarrow> (Some e, c)
      | (None, c) \<Rightarrow>
          if c_client c then (Some ErrPreparedMessageClientRole, c)
          else if c_closeSent c \<or> c_tornDown c then (Some ErrWriteClosed, c)
          else if c_msgWriter c \<noteq> None then (Some ErrWriterBusy, c)
          else
            let takeover = (case c_deflate c of None \<Rightarrow> False
                            | Some ds \<Rightarrow> ds_outgoing ds \<noteq> None \<and> ds_outgoingTakeover ds);
                useCompressed = (c_compression c \<and> length (pm_compressed pm) \<noteq> 0 \<and> \<not> takeover \<and>
                  \<not> outgoingDisabled c \<and> \<not> pm_prepWindowBits pm > c_outgoingWindowCeil c);
                frame = (if useCompressed then pm_compressed pm else pm_plain pm) in
            case flushBufferedLocked c of
              (Some e, c) \<Rightarrow> (Some e, c)
            | (None, c) \<Rightarrow> writeFrameBytes frame c)"

end
