(* ===== verification/Reader.thy ===== *)
theory Reader
  imports Writer
begin

text \<open>
  The read side of a connection, \<^verbatim>\<open>src/reader.go\<close>, with the closing handshake of \<^verbatim>\<open>src/conn.go\<close> that drives it.
  The loops end because every pass consumes bytes of the read window or of the transport; \<open>avail\<close> counts
  both. Unmasking happens in place in the read buffer, as in the source.
\<close>

text \<open>What a Go slice can hold at most on a 64-bit system; growing beyond it panics.\<close>

definition maxAlloc :: int where "maxAlloc = 2 ^ 48"

section \<open>The read window\<close>

definition window :: "'w Conn \<Rightarrow> bytes" where
  "window c = take (c_r1 c - c_r0 c) (drop (c_r0 c) (c_rbuf c))"

text \<open>What the transport can still deliver: bytes, and reads that bring none.\<close>

definition deliverable :: "transport \<Rightarrow> nat" where
  "deliverable t = unread t + length (t_reads t)"

lemma tRead_deliverable:
  assumes "tRead k t = ((p, e), t')"
  shows "deliverable t' + length p \<le> deliverable t"
    and "0 < k \<Longrightarrow> p \<noteq> [] \<or> e = None \<Longrightarrow> deliverable t' < deliverable t"
  using assms by (auto simp: tRead_def deliverable_def unread_def split: if_splits list.splits)

definition avail :: "'w Conn \<Rightarrow> nat" where
  "avail c = (c_r1 c - c_r0 c) + deliverable (c_conn c)"

text \<open>\<^verbatim>\<open>fillOnce\<close> makes room first: it resets an empty window, or moves the window to the front when the
  buffer's tail is used up.\<close>

definition compactWindow :: "'w Conn \<Rightarrow> 'w Conn" where
  "compactWindow c =
     (if c_r0 c = c_r1 c then c\<lparr>c_r0 := 0, c_r1 := 0\<rparr>
      else if c_r1 c = length (c_rbuf c) then
        c\<lparr>c_rbuf := copyAt (c_rbuf c) 0 (window c), c_r0 := 0, c_r1 := length (window c)\<rparr>
      else c)"

definition fillOnce :: "'w Conn \<Rightarrow> ioErr option \<times> 'w Conn" where
  "fillOnce c =
     (let c = compactWindow c;
          ((p, e), t) = tRead (length (c_rbuf c) - c_r1 c) (c_conn c);
          c = c\<lparr>c_conn := t, c_rbuf := copyAt (c_rbuf c) (c_r1 c) p, c_r1 := c_r1 c + length p\<rparr> in
      if length p > 0 then (None, c)
      else case e of Some e \<Rightarrow> (Some e, c) | None \<Rightarrow> (Some NoProgress, c))"

lemma compactWindow_conn [simp]: "c_conn (compactWindow c) = c_conn c"
  by (simp add: compactWindow_def)

lemma fillOnce_elim:
  assumes "fillOnce c = (r, c')"
  obtains p e t where "tRead (length (c_rbuf (compactWindow c)) - c_r1 (compactWindow c)) (c_conn c) = ((p, e), t)"
    "c' = (compactWindow c)\<lparr>c_conn := t, c_rbuf := copyAt (c_rbuf (compactWindow c)) (c_r1 (compactWindow c)) p,
       c_r1 := c_r1 (compactWindow c) + length p\<rparr>"
    "r = (if p \<noteq> [] then None else case e of Some e \<Rightarrow> Some e | None \<Rightarrow> Some NoProgress)"
  using assms
  by (cases "tRead (length (c_rbuf (compactWindow c)) - c_r1 (compactWindow c)) (c_conn c)")
    (auto simp: fillOnce_def Let_def split: prod.splits if_splits option.splits)

lemma fillOnce_unread: "fillOnce c = (None, c') \<Longrightarrow> unread (c_conn c') < unread (c_conn c)"
  by (erule fillOnce_elim) (drule tRead_unread(1), simp split: if_splits option.splits, simp flip: length_greater_0_conv)

lemmas fillOnce_unread' [termination_simp] = fillOnce_unread [OF sym]

function ensure :: "nat \<Rightarrow> 'w Conn \<Rightarrow> ioErr option \<times> 'w Conn" where
  "ensure n c =
     (if c_r1 c - c_r0 c < n then
        case fillOnce c of
          (Some e, c) \<Rightarrow> (Some e, c)
        | (None, c) \<Rightarrow> ensure n c
      else (None, c))"
  by pat_completeness auto
termination
  by (relation "measure (\<lambda>(_, c). unread (c_conn c))") (simp, metis fillOnce_unread in_measure case_prod_conv)

declare ensure.simps [simp del]

section \<open>Failing the connection\<close>

definition failClose :: "CloseCode \<Rightarrow> bytes \<Rightarrow> 'w Conn \<Rightarrow> connErr \<times> 'w Conn" where
  "failClose code reason c =
     (let (_, c) = sendClose code reason c;
          err = CloseError code reason True;
          c = c\<lparr>c_readErr := Some err\<rparr>
      in (err, teardown c))"

definition ioError :: "ioErr \<Rightarrow> 'w Conn \<Rightarrow> connErr \<times> 'w Conn" where
  "ioError e c =
     (case c_readErr c of
        Some err \<Rightarrow> (err, c)
      | None \<Rightarrow> let c = c\<lparr>c_readErr := Some (IOErr e)\<rparr> in (IOErr e, teardown c))"

text \<open>Returning the error of a failing call.\<close>

definition failWith :: "connErr \<times> 'w Conn \<Rightarrow> (connErr + 'a) \<times> 'w Conn" where
  "failWith r = (Inl (fst r), snd r)"

section \<open>Frame headers\<close>

function readHeaderWithPartialEOF :: "bool \<Rightarrow> 'w Conn \<Rightarrow> (connErr + Header) \<times> 'w Conn" where
  "readHeaderWithPartialEOF promotePartialEOF c =
     (let fill =
        (case fillOnce c of
           (Some e, c) \<Rightarrow>
             let e = (if promotePartialEOF \<and> e = EOF \<and> c_r1 c - c_r0 c > 0 then UnexpectedEOF else e)
             in failWith (ioError e c)
         | (None, c) \<Rightarrow> readHeaderWithPartialEOF promotePartialEOF c) in
      if c_r1 c - c_r0 c \<ge> 2 then
        (case decodeFrameHeaderFast (c_hdrTable c) (c_hdrMaskBit c) (window c) of
           Inr (h, n) \<Rightarrow> (Inr h, c\<lparr>c_r0 := c_r0 c + n\<rparr>)
         | Inl rejectShort \<Rightarrow> fill
         | Inl reason \<Rightarrow> failWith (failClose CloseProtocolError (closeMessage reason (c_client c)) c))
      else fill)"
  by pat_completeness auto
termination
  by (relation "measure (\<lambda>(_, c). unread (c_conn c))") (simp, metis fillOnce_unread in_measure case_prod_conv)

declare readHeaderWithPartialEOF.simps [simp del]

definition readHeader :: "'w Conn \<Rightarrow> (connErr + Header) \<times> 'w Conn" where
  "readHeader = readHeaderWithPartialEOF False"

section \<open>Payloads\<close>

text \<open>Unmasking and validating one chunk: the bytes, the key to go on with, the validator, and its verdict.\<close>

definition unmaskChunk :: "bool \<Rightarrow> bytes \<Rightarrow> 32 word \<Rightarrow> bytes \<times> 32 word" where
  "unmaskChunk masked chunk key = (if masked then Mask chunk key else (chunk, key))"

definition feedChunk :: "bool \<Rightarrow> Validator \<Rightarrow> bytes \<Rightarrow> Validator \<times> bool" where
  "feedChunk validate v chunk = (if validate then Feed simdBulk_generic v chunk else (v, True))"

function contiguousLoop :: "Header \<Rightarrow> bool \<Rightarrow> nat \<Rightarrow> nat \<Rightarrow> 32 word \<Rightarrow> 'w Conn \<Rightarrow> connErr option \<times> 'w Conn" where
  "contiguousLoop h validateUTF8 n processed key c =
     (if processed < n then
        let available = min (c_r1 c - c_r0 c) n in
        if processed < available then
          let chunk = take (available - processed) (drop (c_r0 c + processed) (c_rbuf c));
              (chunk, key) = unmaskChunk (h_Masked h) chunk key;
              c = c\<lparr>c_rbuf := copyAt (c_rbuf c) (c_r0 c + processed) chunk\<rparr>;
              (v, ok) = feedChunk validateUTF8 (c_utf8v c) chunk;
              c = c\<lparr>c_utf8v := v\<rparr> in
          if \<not> ok then
            (case failClose CloseInvalidFramePayloadData (B ''invalid UTF-8 in text message'') c of
               (e, c) \<Rightarrow> (Some e, c))
          else contiguousLoop h validateUTF8 n available key c
        else
          case fillOnce c of
            (Some e, c) \<Rightarrow> (case ioError e c of (e, c) \<Rightarrow> (Some e, c))
          | (None, c) \<Rightarrow> contiguousLoop h validateUTF8 n processed key c
      else (None, c))"
  by pat_completeness auto
termination
  by (relation "measures [\<lambda>(_, _, _, _, _, c). unread (c_conn c), \<lambda>(_, _, n, processed, _, _). n - processed]")
    (auto dest: fillOnce_unread')

declare contiguousLoop.simps [simp del]

definition readContiguousPayload :: "Header \<Rightarrow> 'w Conn \<Rightarrow> (connErr + bytes) \<times> 'w Conn" where
  "readContiguousPayload h c =
     (let n = nat (h_Length h) in
      if int n > c_readLimit c
      then failWith (failClose CloseMessageTooBig (B ''message exceeds read limit'') c)
      else
        let validateUTF8 = (c_msgIsText c \<and> \<not> c_skipUTF8 c) in
        if c_r1 c - c_r0 c \<ge> n then
          let p = take n (drop (c_r0 c) (c_rbuf c));
              (p, _) = unmaskChunk (h_Masked h) p (h_MaskKey h);
              c = c\<lparr>c_rbuf := copyAt (c_rbuf c) (c_r0 c) p\<rparr>;
              (v, ok) = feedChunk validateUTF8 (c_utf8v c) p;
              c = c\<lparr>c_utf8v := v\<rparr> in
          if \<not> ok
          then failWith (failClose CloseInvalidFramePayloadData (B ''invalid UTF-8 in text message'') c)
          else if validateUTF8 \<and> \<not> Done v
          then failWith (failClose CloseInvalidFramePayloadData (B ''incomplete UTF-8 sequence at message end'') c)
          else (Inr p, c\<lparr>c_r0 := c_r0 c + n\<rparr>)
        else
          case contiguousLoop h validateUTF8 n 0 (h_MaskKey h) c of
            (Some e, c) \<Rightarrow> (Inl e, c)
          | (None, c) \<Rightarrow>
              let p = take n (drop (c_r0 c) (c_rbuf c)) in
              if validateUTF8 \<and> \<not> Done (c_utf8v c)
              then failWith (failClose CloseInvalidFramePayloadData (B ''incomplete UTF-8 sequence at message end'') c)
              else (Inr p, c\<lparr>c_r0 := c_r0 c + n\<rparr>))"

text \<open>The bytes of the window that belong to the frame go to the reassembly buffer.\<close>

definition drainWindow :: "Header \<Rightarrow> bool \<Rightarrow> 'w Conn \<Rightarrow> bool \<times> int \<times> 32 word \<times> 'w Conn" where
  "drainWindow h validate c =
     (let tk = nat (min (int (c_r1 c - c_r0 c)) (h_Length h)) in
      if h_Length h > 0 \<and> c_r0 c < c_r1 c then
        let chunk = take tk (drop (c_r0 c) (c_rbuf c));
            (chunk, key) = unmaskChunk (h_Masked h) chunk (h_MaskKey h);
            c = c\<lparr>c_rbuf := copyAt (c_rbuf c) (c_r0 c) chunk\<rparr>;
            (v, ok) = feedChunk validate (c_utf8v c) chunk;
            c = c\<lparr>c_utf8v := v\<rparr> in
        if \<not> ok then (False, h_Length h, key, c)
        else (True, h_Length h - int tk, key, c\<lparr>c_msgBuf := c_msgBuf c @ chunk, c_r0 := c_r0 c + tk\<rparr>)
      else (True, h_Length h, h_MaskKey h, c))"

text \<open>
  Processing what one \<^verbatim>\<open>Read\<close> delivered, in pieces of the read buffer's size. The size is never zero: the
  smallest buffer of the pool has 128 bytes.
\<close>

function arrivedLoop :: "bool \<Rightarrow> bool \<Rightarrow> nat \<Rightarrow> bytes \<Rightarrow> 32 word \<Rightarrow> Validator \<Rightarrow>
    bool \<times> bytes \<times> 32 word \<times> Validator" where
  "arrivedLoop masked validate chunkSize arrived key v =
     (if arrived = [] \<or> chunkSize = 0 then (True, [], key, v)
      else
        let m = min (length arrived) chunkSize;
            (sub, key) = unmaskChunk masked (take m arrived) key;
            (v, ok) = feedChunk validate v sub in
        if \<not> ok then (False, sub, key, v)
        else
          let (r, rest, key, v) = arrivedLoop masked validate chunkSize (drop m arrived) key v
          in (r, sub @ rest, key, v))"
  by pat_completeness auto
termination by (relation "measure (\<lambda>(_, _, _, arrived, _, _). length arrived)") auto

declare arrivedLoop.simps [simp del]

function directLoop :: "Header \<Rightarrow> bool \<Rightarrow> nat \<Rightarrow> 32 word \<Rightarrow> 'w Conn \<Rightarrow> connErr option \<times> 'w Conn" where
  "directLoop h validate remaining key c =
     (if remaining > 0 then
        case tRead remaining (c_conn c) of ((p, e), t) \<Rightarrow>
        let (ok, plain, key, v) = arrivedLoop (h_Masked h) validate (length (c_rbuf c)) p key (c_utf8v c);
            c = c\<lparr>c_conn := t, c_utf8v := v\<rparr> in
        if \<not> ok then
          (case failClose CloseInvalidFramePayloadData (B ''invalid UTF-8 in text message'') c of
             (e, c) \<Rightarrow> (Some e, c))
        else
          let c = c\<lparr>c_msgBuf := c_msgBuf c @ plain\<rparr> in
          if length p = 0 \<and> e \<noteq> None then
            (case ioError (the e) c of (e, c) \<Rightarrow> (Some e, c))
          else directLoop h validate (remaining - length p) key c
      else (None, c))"
  by pat_completeness auto
termination
  by (relation "measure (\<lambda>(_, _, _, _, c). deliverable (c_conn c))")
    (simp, auto dest: tRead_deliverable(2) [OF sym])

declare directLoop.simps [simp del]

definition readFramePayload :: "Header \<Rightarrow> 'w Conn \<Rightarrow> connErr option \<times> 'w Conn" where
  "readFramePayload h c =
     (if i64 (int (length (c_msgBuf c)) + h_Length h) > c_readLimit c then
        (case failClose CloseMessageTooBig (B ''message exceeds read limit'') c of (e, c) \<Rightarrow> (Some e, c))
      else
        let validate = (c_msgIsText c \<and> \<not> c_skipUTF8 c \<and> \<not> c_msgCompressed c);
            (ok, remaining, key, c) = drainWindow h validate c in
        if \<not> ok then
          (case failClose CloseInvalidFramePayloadData (B ''invalid UTF-8 in text message'') c of
             (e, c) \<Rightarrow> (Some e, c))
        else if remaining = 0 then (None, c)
        else if int (length (c_msgBuf c)) + remaining \<ge> maxAlloc then (Some GoPanic, c)
        else directLoop h validate (nat remaining) key c)"

section \<open>Control frames\<close>

definition handleClose :: "bytes \<Rightarrow> 'w Conn \<Rightarrow> connErr \<times> 'w Conn" where
  "handleClose payload c =
     (let c = c\<lparr>c_closeRcvd := True\<rparr> in
      case validateCloseBody payload (\<not> c_skipUTF8 c) of
        Inl (code, reason) \<Rightarrow> failClose code reason c
      | Inr (code, reason) \<Rightarrow>
          let (_, c) = (if code \<noteq> CloseNoStatusReceived then sendClose code [] c else sendClose 0 [] c);
              retErr = CloseError code reason False;
              c = c\<lparr>c_readErr := Some retErr\<rparr>
          in (retErr, teardown c))"

definition dispatchControl :: "Opcode \<Rightarrow> bytes \<Rightarrow> 'w Conn \<Rightarrow> connErr option \<times> 'w Conn" where
  "dispatchControl op payload c =
     (if op = OpcodePing then
        (case writeControl OpcodePong payload c of
           (Some e, c) \<Rightarrow> (if e \<noteq> ErrWriteClosed then Some e else None, c)
         | (None, c) \<Rightarrow> (None, c))
      else if op = OpcodePong then (None, c)
      else if op = OpcodeClose then (case handleClose payload c of (e, c) \<Rightarrow> (Some e, c))
      else (None, c))"

definition handleControl :: "Header \<Rightarrow> 'w Conn \<Rightarrow> connErr option \<times> 'w Conn" where
  "handleControl h c =
     (let n = nat (h_Length h) in
      case ensure n c of
        (Some e, c) \<Rightarrow> (case ioError e c of (e, c) \<Rightarrow> (Some e, c))
      | (None, c) \<Rightarrow>
          let payload = take n (drop (c_r0 c) (c_rbuf c));
              (payload, _) = unmaskChunk (h_Masked h) payload (h_MaskKey h);
              c = c\<lparr>c_rbuf := copyAt (c_rbuf c) (c_r0 c) payload, c_r0 := c_r0 c + n\<rparr>
          in dispatchControl (h_Opcode h) payload c)"

section \<open>Compressed messages\<close>

text \<open>
  The buffer the inflating loop grows has the capacity asked for: the outcome does not depend on it.
\<close>

definition exactGrow :: "nat \<Rightarrow> int \<Rightarrow> nat" where
  "exactGrow len n = nat (int len + n)"

definition finishCompressedMessage :: "'w Conn \<Rightarrow> (connErr + bytes) \<times> 'w Conn" where
  "finishCompressedMessage c =
     (let (res, ds) = decompressMessage exactGrow (c_active c) (c_deflate c) (c_readLimit c) 0 (c_msgBuf c);
          c = c\<lparr>c_deflate := ds\<rparr> in
      case res of
        Inl DecompressPanic \<Rightarrow> (Inl GoPanic, c)
      | Inl DecompressTooLarge \<Rightarrow>
          failWith (failClose CloseMessageTooBig (B ''decompressed message exceeds read limit'') c)
      | Inl _ \<Rightarrow> failWith (failClose CloseProtocolError (B ''invalid compressed message payload'') c)
      | Inr decoded \<Rightarrow>
          if c_msgIsText c \<and> \<not> c_skipUTF8 c \<and> \<not> Valid simdBulk_generic decoded
          then failWith (failClose CloseInvalidFramePayloadData (B ''invalid UTF-8 in text message'') c)
          else (Inr decoded, c))"

section \<open>Every read consumes\<close>

lemma fillOnce_avail: "fillOnce c = (r, c') \<Longrightarrow> avail c' \<le> avail c"
  by (erule fillOnce_elim) (drule tRead_deliverable(1), auto simp: avail_def compactWindow_def window_def)

lemma ensure_avail: "avail (snd (ensure n c)) \<le> avail c"
proof (induction n c rule: ensure.induct)
  case (1 n c)
  show ?case
  proof (cases "c_r1 c - c_r0 c < n")
    case True
    obtain r c' where f: "fillOnce c = (r, c')" by fastforce
    show ?thesis using True f fillOnce_avail [OF f] "1.IH" [OF True f [symmetric]]
      by (subst ensure.simps) (auto split: option.split)
  qed (simp add: ensure.simps)
qed

lemma wrote_avail: "wrote c c' \<Longrightarrow> avail c' = avail c"
  by (auto simp: wrote_def avail_def deliverable_def unread_def)

lemma teardown_avail: "avail (teardown c) \<le> avail c"
  by (auto simp: teardown_def avail_def frameStop_def releaseFrameCompressor_def tClose_def deliverable_def unread_def Let_def)

lemma dispatchControl_avail: "dispatchControl op payload c = (None, c') \<Longrightarrow> avail c' = avail c"
  using wrote_writeControl [of c OpcodePong payload]
  by (auto simp: dispatchControl_def wrote_avail split: if_splits prod.splits option.splits)

lemma handleControl_avail: "handleControl h c = (None, c') \<Longrightarrow> avail c' \<le> avail c"
  using ensure_avail [of "nat (h_Length h)" c]
  by (auto simp: handleControl_def Let_def avail_def dest!: dispatchControl_avail split: prod.splits option.splits)

lemma decodeFast_consumed:
  "decodeFrameHeaderFast tbl maskBit b = Inr (h, n) \<Longrightarrow> 2 \<le> n \<and> n \<le> length b"
  by (auto simp: decodeFrameHeaderFast_def Let_def split: if_splits sum.splits)

lemma readHeader_avail:
  "readHeaderWithPartialEOF pr c = (Inr h, c') \<Longrightarrow> avail c' < avail c"
proof (induction pr c rule: readHeaderWithPartialEOF.induct)
  case (1 pr c)
  show ?case
  proof (cases "\<exists>n. c_r1 c - c_r0 c \<ge> 2 \<and> decodeFrameHeaderFast (c_hdrTable c) (c_hdrMaskBit c) (window c) = Inr (h, n)
      \<and> c' = c\<lparr>c_r0 := c_r0 c + n\<rparr>")
    case True
    then show ?thesis using decodeFast_consumed [of "c_hdrTable c" "c_hdrMaskBit c" "window c" h]
      by (fastforce simp: avail_def window_def)
  next
    case False
    then obtain c1 where f: "fillOnce c = (None, c1)" and r: "readHeaderWithPartialEOF pr c1 = (Inr h, c')"
      using "1.prems" unfolding readHeaderWithPartialEOF.simps [of pr c]
      by (auto simp: Let_def failWith_def split: if_splits sum.splits prod.splits option.splits hdrReject.splits)
    have "avail c' < avail c1" using "1.IH" [OF f [symmetric] refl] r by blast
    then show ?thesis using fillOnce_avail [OF f] by linarith
  qed
qed

lemma directLoop_avail: "directLoop h validate k key c = (None, c') \<Longrightarrow> avail c' \<le> avail c"
proof (induction h validate k key c rule: directLoop.induct)
  case (1 h validate k key c)
  show ?case
  proof (cases "k > 0")
    case True
    obtain p e t where r: "tRead k (c_conn c) = ((p, e), t)" by (metis surj_pair)
    obtain ok plain key' v where al:
      "arrivedLoop (h_Masked h) validate (length (c_rbuf c)) p key (c_utf8v c) = (ok, plain, key', v)"
      by (metis prod_cases4)
    define c1 where "c1 = c\<lparr>c_conn := t, c_utf8v := v, c_msgBuf := c_msgBuf c @ plain\<rparr>"
    have unf: "directLoop h validate k key c = (None, c') \<Longrightarrow> ok \<and> \<not> (length p = 0 \<and> e \<noteq> None) \<and>
        directLoop h validate (k - length p) key' c1 = (None, c')"
      using True r al by (subst (asm) directLoop.simps) (auto simp: Let_def c1_def split: if_splits prod.splits)
    then have "avail c' \<le> avail c1"
      using "1.IH" [OF True r [symmetric] refl al [symmetric]] "1.prems" by (simp add: c1_def)
    then show ?thesis using tRead_deliverable(1) [OF r] by (simp add: avail_def c1_def)
  next
    case False
    then show ?thesis using "1.prems" by (simp add: directLoop.simps)
  qed
qed

lemma readFramePayload_avail:
  assumes "readFramePayload h c = (None, c')"
  shows "avail c' \<le> avail c"
proof -
  have d: "drainWindow h validate c = (ok, rem, key, c1) \<Longrightarrow> avail c1 \<le> avail c" for validate ok rem key c1
    by (auto simp: drainWindow_def Let_def avail_def split: if_splits prod.splits)
  show ?thesis using assms d directLoop_avail
    by (fastforce simp: readFramePayload_def Let_def split: if_splits prod.splits)
qed

section \<open>Reading a message\<close>

text \<open>The opening frame of a message: its kind is recorded, and the read buffer may grow.\<close>

definition isOpening :: "Header \<Rightarrow> bool" where
  "isOpening h \<longleftrightarrow> h_Opcode h = OpcodeText \<or> h_Opcode h = OpcodeBinary"

definition beginMessage :: "Header \<Rightarrow> 'w Conn \<Rightarrow> 'w Conn" where
  "beginMessage h c =
     (let c = c\<lparr>c_msgIsText := (h_Opcode h = OpcodeText), c_msgCompressed := (h_Rsv h = RSV1)\<rparr> in
      if \<not> c_msgCompressed c \<and> h_Fin h \<and> h_Length h > int (length (c_rbuf c))
      then adaptReadBuffer (h_Length h) c else c)"

lemma beginMessage_avail: "avail (beginMessage h c) \<le> avail c"
  by (simp add: beginMessage_def adaptReadBuffer_def avail_def Let_def)

text \<open>The end of a reassembled message.\<close>

definition finishMessage :: "Opcode \<Rightarrow> 'w Conn \<Rightarrow> (connErr + Opcode \<times> bytes) \<times> 'w Conn" where
  "finishMessage msgOp c =
     (if c_msgCompressed c then
        (case finishCompressedMessage c of
           (Inl e, c) \<Rightarrow> (Inl e, c)
         | (Inr decoded, c) \<Rightarrow> (Inr (msgOp, decoded), c))
      else if c_msgIsText c \<and> \<not> c_skipUTF8 c \<and> \<not> Done (c_utf8v c) then
        failWith (failClose CloseInvalidFramePayloadData (B ''incomplete UTF-8 sequence at message end'') c)
      else (Inr (msgOp, c_msgBuf c), c))"

text \<open>
  The loop of \<^verbatim>\<open>readMessageBody\<close>, with its local variables \<^verbatim>\<open>inMessage\<close> and \<^verbatim>\<open>msgOp\<close>.
\<close>

function messageLoop :: "bool \<Rightarrow> Opcode \<Rightarrow> 'w Conn \<Rightarrow> (connErr + Opcode \<times> bytes) \<times> 'w Conn" where
  "messageLoop inMessage msgOp c =
     (case readHeader c of
        (Inl e, c) \<Rightarrow> (Inl e, c)
      | (Inr h, c) \<Rightarrow>
          if IsControl (h_Opcode h) then
            (case handleControl h c of
               (Some e, c) \<Rightarrow> (Inl e, c)
             | (None, c) \<Rightarrow> messageLoop inMessage msgOp c)
          else if isOpening h \<and> inMessage then
            failWith (failClose CloseProtocolError (B ''new data frame while awaiting continuation'') c)
          else if h_Opcode h = OpcodeContinuation \<and> \<not> inMessage then
            failWith (failClose CloseProtocolError (B ''continuation frame with no message in progress'') c)
          else
            let c = (if isOpening h then beginMessage h c else c);
                msgOp = (if isOpening h then h_Opcode h else msgOp) in
            if isOpening h \<and> \<not> c_msgCompressed c \<and> h_Fin h \<and> h_Length h \<le> int (length (c_rbuf c)) then
              (case readContiguousPayload h c of
                 (Inl e, c) \<Rightarrow> (Inl e, c)
               | (Inr p, c) \<Rightarrow> (Inr (h_Opcode h, p), c))
            else
              (case readFramePayload h c of
                 (Some e, c) \<Rightarrow> (Inl e, c)
               | (None, c) \<Rightarrow>
                   if h_Fin h then finishMessage msgOp c else messageLoop True msgOp c))"
  by pat_completeness auto

termination
proof (relation "measure (\<lambda>(_, _, c). avail c)", goal_cases)
  case 1
  show ?case by simp
next
  case (2 inMessage msgOp c a c1 h b c2)
  then show ?case using readHeader_avail [of False c h c1] handleControl_avail [of h c1 c2]
    by (simp add: readHeader_def)
next
  case (3 inMessage msgOp c a c1 h c2 op b c3)
  have "avail c2 \<le> avail c1" using 3(6) beginMessage_avail [of h c1] by simp
  then show ?case using 3 readHeader_avail [of False c h c1] readFramePayload_avail [of h c2 c3]
    by (simp add: readHeader_def)
qed

declare messageLoop.simps [simp del]

definition readMessageBody :: "'w Conn \<Rightarrow> (connErr + Opcode \<times> bytes) \<times> 'w Conn" where
  "readMessageBody c = messageLoop False 0 (c\<lparr>c_msgBuf := [], c_utf8v := Reset (c_utf8v c)\<rparr>)"

section \<open>Streaming a message\<close>

text \<open>The test \<^verbatim>\<open>c.r0 == c.r1\<close> for an empty window; the bounds are always in order.\<close>

definition windowEmpty :: "'w Conn \<Rightarrow> bool" where
  "windowEmpty c \<longleftrightarrow> c_r1 c \<le> c_r0 c"

definition refill :: "'w Conn \<Rightarrow> ioErr option \<times> 'w Conn" where
  "refill c = (if windowEmpty c then fillOnce (c\<lparr>c_r0 := 0, c_r1 := 0\<rparr>) else (None, c))"

lemma refill_avail: "refill c = (r, c') \<Longrightarrow> avail c' \<le> avail c"
  using fillOnce_avail [of "c\<lparr>c_r0 := 0, c_r1 := 0\<rparr>"]
  by (fastforce simp: refill_def avail_def windowEmpty_def split: if_splits)

lemma refill_window: "refill c = (None, c') \<Longrightarrow> c_r0 c' < c_r1 c'"
  by (auto simp: refill_def windowEmpty_def compactWindow_def split: if_splits option.splits elim!: fillOnce_elim)

function skipPayload :: "int \<Rightarrow> 'w Conn \<Rightarrow> connErr option \<times> 'w Conn" where
  "skipPayload n c =
     (if n > 0 then
        case refill c of
          (Some e, c) \<Rightarrow> (case ioError e c of (e, c) \<Rightarrow> (Some e, c))
        | (None, c) \<Rightarrow>
            let tk = min (int (c_r1 c - c_r0 c)) n
            in skipPayload (n - tk) (c\<lparr>c_r0 := c_r0 c + nat tk\<rparr>)
      else (None, c))"
  by pat_completeness auto
termination
proof (relation "measure (\<lambda>(n, c). nat n)", goal_cases)
  case (2 n c a c' tk)
  then show ?case using refill_window [of c c'] by simp
qed simp

declare skipPayload.simps [simp del]

lemma skipPayload_avail: "skipPayload n c = (None, c') \<Longrightarrow> avail c' \<le> avail c"
proof (induction n c rule: skipPayload.induct)
  case (1 n c)
  obtain r c1 where f: "refill c = (r, c1)" by fastforce
  define tk where "tk = min (int (c_r1 c1 - c_r0 c1)) n"
  define c2 where "c2 = c1\<lparr>c_r0 := c_r0 c1 + nat tk\<rparr>"
  show ?case
  proof (cases "n > 0")
    case True
    then have r: "r = None" "skipPayload (n - tk) c2 = (None, c')"
      using "1.prems" f by (cases r; simp add: skipPayload.simps [of n c] Let_def tk_def c2_def split: prod.splits)+
    then have "avail c' \<le> avail c2" using "1.IH" [OF True f [symmetric] r(1) refl] by (simp add: c2_def tk_def)
    also have "\<dots> \<le> avail c1" by (simp add: c2_def avail_def)
    finally show ?thesis using refill_avail [OF f] by linarith
  next
    case False
    then show ?thesis using "1.prems" by (simp add: skipPayload.simps)
  qed
qed

text \<open>
  \<^verbatim>\<open>nextFrame\<close>: to the next continuation frame of the message, answering control frames on the way.
\<close>

function nextFrame :: "messageReader \<Rightarrow> 'w Conn \<Rightarrow> connErr option \<times> messageReader \<times> 'w Conn" where
  "nextFrame r c =
     (case readHeader c of
        (Inl e, c) \<Rightarrow> (Some e, r, c)
      | (Inr h, c) \<Rightarrow>
          if IsControl (h_Opcode h) then
            (case handleControl h c of
               (Some e, c) \<Rightarrow> (Some e, r, c)
             | (None, c) \<Rightarrow> nextFrame r c)
          else if h_Opcode h \<noteq> OpcodeContinuation then
            (case failClose CloseProtocolError (B ''new data frame while awaiting continuation'') c of
               (e, c) \<Rightarrow> (Some e, r, c))
          else if i64 (mr_total r + h_Length h) > c_readLimit c then
            (case failClose CloseMessageTooBig (B ''message exceeds read limit'') c of
               (e, c) \<Rightarrow> (Some e, r, c))
          else
            (None, r\<lparr>mr_total := i64 (mr_total r + h_Length h), mr_frameRem := h_Length h,
                     mr_key := h_MaskKey h, mr_masked := h_Masked h, mr_fin := h_Fin h\<rparr>, c))"
  by pat_completeness auto
termination
proof (relation "measure (\<lambda>(_, c). avail c)", goal_cases)
  case (2 r c a c1 h b c2)
  then show ?case using readHeader_avail [of False c h c1] handleControl_avail [of h c1 c2]
    by (simp add: readHeader_def)
qed simp

declare nextFrame.simps [simp del]

lemma nextFrame_avail: "nextFrame r c = (None, r', c') \<Longrightarrow> avail c' < avail c"
proof (induction r c rule: nextFrame.induct)
  case (1 r c)
  obtain x c1 where rh: "readHeader c = (x, c1)" by fastforce
  then obtain h where x: "x = Inr h" using "1.prems" by (cases x) (simp_all add: nextFrame.simps [of r c])
  have av: "avail c1 < avail c" using readHeader_avail [of False c h c1] rh x by (simp add: readHeader_def)
  show ?case
  proof (cases "IsControl (h_Opcode h)")
    case True
    obtain y c2 where hc: "handleControl h c1 = (y, c2)" by fastforce
    then have "y = None" "nextFrame r c2 = (None, r', c')"
      using "1.prems" rh x True by (cases y; simp add: nextFrame.simps [of r c])+
    then show ?thesis using "1.IH" [of x c1 h y c2] rh x hc True av handleControl_avail [of h c1 c2] by simp
  next
    case False
    then show ?thesis using "1.prems" rh x av
      by (simp add: nextFrame.simps [of r c] split: if_splits prod.splits)
  qed
qed

function drain :: "messageReader \<Rightarrow> 'w Conn \<Rightarrow> connErr option \<times> 'w Conn" where
  "drain r c =
     (if mr_frameRem r = 0 then
        if mr_fin r then (None, c)
        else
          case nextFrame r c of
            (Some e, _, c) \<Rightarrow> (Some e, c)
          | (None, r, c) \<Rightarrow> drain r c
      else
        case skipPayload (mr_frameRem r) c of
          (Some e, c) \<Rightarrow> (Some e, c)
        | (None, c) \<Rightarrow> drain (r\<lparr>mr_frameRem := 0\<rparr>) c)"
  by pat_completeness auto
termination
proof (relation "measures [\<lambda>(_, c). avail c, \<lambda>(r, _). if mr_frameRem r = 0 then 0 else 1]", goal_cases)
  case (2 r c a p r' c')
  then show ?case using nextFrame_avail [of r c r' c'] by (cases p) simp
next
  case (3 r c a c')
  then show ?case using skipPayload_avail [of "mr_frameRem r" c c'] by auto
qed simp

declare drain.simps [simp del]

definition discardStreamRemainder :: "'w Conn \<Rightarrow> connErr option \<times> 'w Conn" where
  "discardStreamRemainder c =
     (case c_msgReader c of
        None \<Rightarrow> (None, c)
      | Some (_, r) \<Rightarrow>
          let c = c\<lparr>c_msgReader := None\<rparr> in
          if mr_compressed r \<or> mr_complete r \<or> mr_err r \<noteq> None then (None, c)
          else drain r c)"

text \<open>\<^verbatim>\<open>applyChunk\<close> also returns the unmasked bytes, which the source leaves in place.\<close>

definition applyChunk :: "bytes \<Rightarrow> messageReader \<Rightarrow> 'w Conn \<Rightarrow> connErr option \<times> bytes \<times> messageReader \<times> 'w Conn" where
  "applyChunk chunk r c =
     (let (chunk, key) = unmaskChunk (mr_masked r) chunk (mr_key r);
          r = r\<lparr>mr_key := key\<rparr>;
          (v, ok) = feedChunk (mr_op r = OpcodeText \<and> \<not> c_skipUTF8 c) (c_utf8v c) chunk;
          c = c\<lparr>c_utf8v := v\<rparr> in
      if \<not> ok then
        (case failClose CloseInvalidFramePayloadData (B ''invalid UTF-8 in text message'') c of
           (e, c) \<Rightarrow> (Some e, chunk, r, c))
      else (None, chunk, r\<lparr>mr_frameRem := mr_frameRem r - int (length chunk)\<rparr>, c))"

text \<open>\<^verbatim>\<open>readFrameChunk\<close> with room for \<open>k\<close> bytes; the bytes it stores are the result.\<close>

definition readFrameChunk :: "nat \<Rightarrow> messageReader \<Rightarrow> 'w Conn \<Rightarrow> (connErr + bytes) \<times> messageReader \<times> 'w Conn" where
  "readFrameChunk k r c =
     (let want = nat (min (int k) (mr_frameRem r)) in
      if windowEmpty c \<and> want \<ge> length (c_rbuf c) then
        (case tRead want (c_conn c) of ((p, e), t) \<Rightarrow>
           let c = c\<lparr>c_r0 := 0, c_r1 := 0, c_conn := t\<rparr> in
           if length p = 0 \<and> e \<noteq> None then
             (case ioError (the e) c of (e, c) \<Rightarrow> (Inl e, r, c))
           else
             case applyChunk p r c of
               (Some e, _, r, c) \<Rightarrow> (Inl e, r, c)
             | (None, p, r, c) \<Rightarrow> (Inr p, r, c))
      else
        case refill c of
          (Some e, c) \<Rightarrow> (case ioError e c of (e, c) \<Rightarrow> (Inl e, r, c))
        | (None, c) \<Rightarrow>
            let tk = min (c_r1 c - c_r0 c) want;
                chunk = take tk (drop (c_r0 c) (c_rbuf c)) in
            case applyChunk chunk r c of
              (Some e, _, r, c) \<Rightarrow> (Inl e, r, c)
            | (None, chunk, r, c) \<Rightarrow>
                (Inr chunk, r, c\<lparr>c_rbuf := copyAt (c_rbuf c) (c_r0 c) chunk, c_r0 := c_r0 c + tk\<rparr>))"

lemma applyChunk_avail: "applyChunk chunk r c = (None, p, r', c') \<Longrightarrow> avail c' = avail c \<and> length p = length chunk"
  by (auto simp: applyChunk_def Let_def avail_def unmaskChunk_def purego.length_masked split: if_splits prod.splits)
    (metis fst_conv purego.length_masked)+

lemma readFrameChunk_avail:
  assumes "readFrameChunk k r c = (Inr p, r', c')" "0 < k" "0 < mr_frameRem r"
  shows "avail c' < avail c"
proof -
  define want where "want = nat (min (int k) (mr_frameRem r))"
  have want: "0 < want" using assms by (simp add: want_def)
  note unf = readFrameChunk_def [of k r c, folded want_def, unfolded Let_def]
  show ?thesis
  proof (cases "windowEmpty c \<and> want \<ge> length (c_rbuf c)")
    case True
    obtain q e t where rd: "tRead want (c_conn c) = ((q, e), t)" by (metis surj_pair)
    obtain x y r1 c1 where ac: "applyChunk q r (c\<lparr>c_r0 := 0, c_r1 := 0, c_conn := t\<rparr>) = (x, y, r1, c1)"
      by (metis prod_cases4)
    have "x = None" "c1 = c'" "\<not> (length q = 0 \<and> e \<noteq> None)"
      using assms(1) unf True rd ac by (auto split: if_splits prod.splits option.splits)
    then show ?thesis using applyChunk_avail [of q r _ y r1 c'] ac tRead_deliverable(2) [OF rd want]
      by (auto simp: avail_def)
  next
    case False
    obtain x c1 where rf: "refill c = (x, c1)" by fastforce
    define tk where "tk = min (c_r1 c1 - c_r0 c1) want"
    obtain z y r1 c2 where ac: "applyChunk (take tk (drop (c_r0 c1) (c_rbuf c1))) r c1 = (z, y, r1, c2)"
      by (metis prod_cases4)
    have eqs: "x = None" "z = None" "c' = c2\<lparr>c_rbuf := copyAt (c_rbuf c2) (c_r0 c2) y, c_r0 := c_r0 c2 + tk\<rparr>"
      using assms(1) unf False rf ac by (auto simp: tk_def split: if_splits prod.splits option.splits)
    have "c_r0 c2 = c_r0 c1" "c_r1 c2 = c_r1 c1"
      using ac eqs(2) by (auto simp: applyChunk_def Let_def split: if_splits prod.splits)
    then show ?thesis using eqs applyChunk_avail [of _ r c1 y r1 c2] ac rf refill_avail [of c x c1]
        refill_window [of c c1] want by (auto simp: avail_def tk_def)
  qed
qed

definition promoteIncompleteEOF :: "connErr \<Rightarrow> 'w Conn \<Rightarrow> connErr \<times> 'w Conn" where
  "promoteIncompleteEOF e c =
     (if e \<noteq> IOErr EOF then (e, c)
      else (IOErr UnexpectedEOF, c\<lparr>c_readErr := Some (IOErr UnexpectedEOF)\<rparr>))"

text \<open>
  The loop of a stream's \<^verbatim>\<open>Read\<close> with room for \<open>k\<close> bytes: \<^const>\<open>Inr\<close> \<^const>\<open>None\<close> is \<^verbatim>\<open>io.EOF\<close>. The frame remainder is
  never negative.
\<close>

function streamLoop :: "nat \<Rightarrow> messageReader \<Rightarrow> 'w Conn \<Rightarrow> (connErr + bytes option) \<times> messageReader \<times> 'w Conn" where
  "streamLoop k r c =
     (if mr_frameRem r \<le> 0 then
        if mr_fin r then
          if mr_op r = OpcodeText \<and> \<not> c_skipUTF8 c \<and> \<not> Done (c_utf8v c) then
            (case failClose CloseInvalidFramePayloadData (B ''incomplete UTF-8 sequence at message end'') c of
               (e, c) \<Rightarrow> (Inl e, r\<lparr>mr_err := Some e\<rparr>, c))
          else (Inr None, r\<lparr>mr_complete := True\<rparr>, c)
        else
          case nextFrame r c of
            (Some e, r, c) \<Rightarrow> (case promoteIncompleteEOF e c of (e, c) \<Rightarrow> (Inl e, r\<lparr>mr_err := Some e\<rparr>, c))
          | (None, r, c) \<Rightarrow> streamLoop k r c
      else if k = 0 then (Inr (Some []), r, c)
      else
        case readFrameChunk k r c of
          (Inl e, r, c) \<Rightarrow> (case promoteIncompleteEOF e c of (e, c) \<Rightarrow> (Inl e, r\<lparr>mr_err := Some e\<rparr>, c))
        | (Inr p, r, c) \<Rightarrow> if length p > 0 then (Inr (Some p), r, c) else streamLoop k r c)"
  by pat_completeness auto
termination
proof (relation "measure (\<lambda>(_, _, c). avail c)", goal_cases)
  case (2 k r c a p r' c')
  then show ?case using nextFrame_avail [of r c r' c'] by (cases p) simp
next
  case (3 k r c a p q r' c')
  then show ?case using readFrameChunk_avail [of k r c q r' c'] by (cases p) auto
qed simp

declare streamLoop.simps [simp del]

text \<open>\<^verbatim>\<open>messageReader.Read\<close> on the stream with the number \<open>s\<close>.\<close>

definition streamRead :: "nat \<Rightarrow> nat \<Rightarrow> 'w Conn \<Rightarrow> (connErr + bytes option) \<times> 'w Conn" where
  "streamRead s k c =
     (case c_msgReader c of
        None \<Rightarrow> (Inl ErrStreamReaderStale, c)
      | Some (cur, r) \<Rightarrow>
          if cur \<noteq> s then (Inl ErrStreamReaderStale, c)
          else case mr_err r of
            Some e \<Rightarrow> (Inl e, c)
          | None \<Rightarrow>
              if mr_complete r then (Inr None, c)
              else if mr_compressed r then
                if mr_inflatedPos r \<ge> length (mr_inflated r)
                then (Inr None, c\<lparr>c_msgReader := Some (cur, r\<lparr>mr_complete := True\<rparr>)\<rparr>)
                else
                  let p = take k (drop (mr_inflatedPos r) (mr_inflated r)) in
                  (Inr (Some p), c\<lparr>c_msgReader := Some (cur, r\<lparr>mr_inflatedPos := mr_inflatedPos r + length p\<rparr>)\<rparr>)
              else if k = 0 then (Inr (Some []), c)
              else
                case streamLoop k r c of
                  (res, r, c) \<Rightarrow> (res, c\<lparr>c_msgReader := Some (cur, r)\<rparr>))"

section \<open>Opening a stream\<close>

function readDataFrameHeader :: "'w Conn \<Rightarrow> (connErr + Header) \<times> 'w Conn" where
  "readDataFrameHeader c =
     (case readHeaderWithPartialEOF True c of
        (Inl e, c) \<Rightarrow> (Inl e, c)
      | (Inr h, c) \<Rightarrow>
          if IsControl (h_Opcode h) then
            (case handleControl h c of
               (Some e, c) \<Rightarrow> (Inl e, c)
             | (None, c) \<Rightarrow> readDataFrameHeader c)
          else if h_Opcode h = OpcodeText \<or> h_Opcode h = OpcodeBinary then (Inr h, c)
          else if h_Opcode h = OpcodeContinuation then
            failWith (failClose CloseProtocolError (B ''continuation frame with no message in progress'') c)
          else readDataFrameHeader c)"
  by pat_completeness auto
termination
proof (relation "measure avail", goal_cases)
  case (2 c a c1 h b c2)
  then show ?case using readHeader_avail [of True c h c1] handleControl_avail [of h c1 c2] by simp
next
  case (3 c a c1 h)
  then show ?case using readHeader_avail [of True c h c1] by simp
qed simp

declare readDataFrameHeader.simps [simp del]

text \<open>The inner loop of \<^verbatim>\<open>reassembleCompressed\<close>: the next continuation frame.\<close>

function nextContinuation :: "'w Conn \<Rightarrow> (connErr + Header) \<times> 'w Conn" where
  "nextContinuation c =
     (case readHeader c of
        (Inl e, c) \<Rightarrow> (Inl e, c)
      | (Inr h, c) \<Rightarrow>
          if IsControl (h_Opcode h) then
            (case handleControl h c of
               (Some e, c) \<Rightarrow> (Inl e, c)
             | (None, c) \<Rightarrow> nextContinuation c)
          else if h_Opcode h \<noteq> OpcodeContinuation then
            failWith (failClose CloseProtocolError (B ''new data frame while awaiting continuation'') c)
          else (Inr h, c))"
  by pat_completeness auto
termination
proof (relation "measure avail", goal_cases)
  case (2 c a c1 h b c2)
  then show ?case using readHeader_avail [of False c h c1] handleControl_avail [of h c1 c2]
    by (simp add: readHeader_def)
qed simp

declare nextContinuation.simps [simp del]

lemma nextContinuation_avail: "nextContinuation c = (Inr h, c') \<Longrightarrow> avail c' < avail c"
proof (induction c rule: nextContinuation.induct)
  case (1 c)
  obtain x c1 where rh: "readHeader c = (x, c1)" by fastforce
  then obtain h1 where x: "x = Inr h1" using "1.prems" by (cases x) (simp_all add: nextContinuation.simps [of c])
  have av: "avail c1 < avail c" using readHeader_avail [of False c h1 c1] rh x by (simp add: readHeader_def)
  show ?case
  proof (cases "IsControl (h_Opcode h1)")
    case True
    obtain y c2 where hc: "handleControl h1 c1 = (y, c2)" by fastforce
    then have "y = None" "nextContinuation c2 = (Inr h, c')"
      using "1.prems" rh x True by (cases y; simp add: nextContinuation.simps [of c])+
    then show ?thesis using "1.IH" [of x c1 h1 y c2] rh x hc True av handleControl_avail [of h1 c1 c2] by simp
  next
    case False
    then show ?thesis using "1.prems" rh x av
      by (simp add: nextContinuation.simps [of c] failWith_def split: if_splits prod.splits)
  qed
qed

function reassembleLoop :: "Header \<Rightarrow> 'w Conn \<Rightarrow> (connErr + bytes) \<times> 'w Conn" where
  "reassembleLoop h c =
     (case readFramePayload h c of
        (Some e, c) \<Rightarrow> (Inl e, c)
      | (None, c) \<Rightarrow>
          if h_Fin h then finishCompressedMessage c
          else case nextContinuation c of
            (Inl e, c) \<Rightarrow> (Inl e, c)
          | (Inr h, c) \<Rightarrow> reassembleLoop h c)"
  by pat_completeness auto
termination
proof (relation "measure (\<lambda>(_, c). avail c)", goal_cases)
  case (2 h c a c1 b c2 h')
  then show ?case using readFramePayload_avail [of h c c1] nextContinuation_avail [of c1 h' c2] by simp
qed simp

declare reassembleLoop.simps [simp del]

definition reassembleCompressed :: "Header \<Rightarrow> 'w Conn \<Rightarrow> (connErr + bytes) \<times> 'w Conn" where
  "reassembleCompressed first c =
     reassembleLoop first (c\<lparr>c_msgBuf := [], c_msgIsText := (h_Opcode first = OpcodeText), c_msgCompressed := True\<rparr>)"

text \<open>\<^verbatim>\<open>NextReader\<close> returns the opcode and the number of the stream.\<close>

definition NextReader :: "'w Conn \<Rightarrow> (connErr + Opcode \<times> nat) \<times> 'w Conn" where
  "NextReader c =
     (case selectMode connModeMessage c of
        (Some e, c) \<Rightarrow> (Inl e, c)
      | (None, c) \<Rightarrow>
        (case c_readErr c of
           Some e \<Rightarrow> (Inl e, c)
         | None \<Rightarrow>
             if c_tornDown c then (Inl ErrNetClosed, c)
             else case discardStreamRemainder c of
               (Some e, c) \<Rightarrow> (Inl e, c)
             | (None, c) \<Rightarrow>
                 let c = c\<lparr>c_utf8v := Reset (c_utf8v c)\<rparr> in
                 case readDataFrameHeader c of
                   (Inl e, c) \<Rightarrow> (Inl e, c)
                 | (Inr h, c) \<Rightarrow>
                     let r = \<lparr>mr_err = None, mr_inflated = [], mr_frameRem = h_Length h, mr_total = h_Length h,
                              mr_inflatedPos = 0, mr_key = h_MaskKey h, mr_op = h_Opcode h,
                              mr_masked = h_Masked h, mr_fin = h_Fin h, mr_complete = False,
                              mr_compressed = False\<rparr>;
                         start = (\<lambda>r c. (Inr (h_Opcode h, c_streams c),
                           c\<lparr>c_msgReader := Some (c_streams c, r), c_streams := Suc (c_streams c)\<rparr>)) in
                     if h_Rsv h = RSV1 then
                       (case reassembleCompressed h c of
                          (Inl e, c) \<Rightarrow> (Inl e, c)
                        | (Inr decoded, c) \<Rightarrow>
                            start (r\<lparr>mr_frameRem := 0, mr_total := 0, mr_key := 0, mr_masked := False,
                                    mr_fin := False, mr_compressed := True, mr_inflated := decoded\<rparr>) c)
                     else if h_Length h > c_readLimit c then
                       failWith (failClose CloseMessageTooBig (B ''message exceeds read limit'') c)
                     else start r c))"

section \<open>Whole messages and the closing handshake\<close>

definition ReadMessage :: "'w Conn \<Rightarrow> (connErr + Opcode \<times> bytes) \<times> 'w Conn" where
  "ReadMessage c =
     (case selectMode connModeMessage c of
        (Some e, c) \<Rightarrow> (Inl e, c)
      | (None, c) \<Rightarrow>
        (case c_readErr c of
           Some e \<Rightarrow> (Inl e, c)
         | None \<Rightarrow>
             if c_tornDown c then (Inl ErrNetClosed, c)
             else case discardStreamRemainder c of
               (Some e, c) \<Rightarrow> (Inl e, c)
             | (None, c) \<Rightarrow> readMessageBody c))"

definition readMessage :: "'w Conn \<Rightarrow> connErr option \<times> 'w Conn" where
  "readMessage c =
     (if c_tornDown c then (case c_readErr c of Some e \<Rightarrow> (Some e, c) | None \<Rightarrow> (Some ErrNetClosed, c))
      else case discardStreamRemainder c of
        (Some e, c) \<Rightarrow> (Some e, c)
      | (None, c) \<Rightarrow> (case readMessageBody c of
            (Inl e, c) \<Rightarrow> (Some e, c)
          | (Inr _, c) \<Rightarrow> (None, c)))"

definition WriteClose :: "CloseCode \<Rightarrow> bytes \<Rightarrow> 'w Conn \<Rightarrow> connErr option \<times> 'w Conn" where
  "WriteClose code reason c =
     (case selectMode connModeMessage c of
        (Some e, c) \<Rightarrow> (Some e, c)
      | (None, c) \<Rightarrow>
          if c_tornDown c then (None, c)
          else case validateCloseArgs code reason of
            Some e \<Rightarrow> (Some e, c)
          | None \<Rightarrow> sendClose code reason c)"

lemma contiguousLoop_avail: "contiguousLoop h validate n pr key c = (None, c') \<Longrightarrow> avail c' \<le> avail c"
proof (induction h validate n pr key c rule: contiguousLoop.induct)
  case (1 h validate n pr key c)
  define av where "av = min (c_r1 c - c_r0 c) n"
  consider "\<not> pr < n" | "pr < n" "pr < av" | "pr < n" "\<not> pr < av" by blast
  then show ?case
  proof cases
    case 1
    then show ?thesis using "1.prems" by (simp add: contiguousLoop.simps)
  next
    case 2
    define chunk0 where "chunk0 = take (av - pr) (drop (c_r0 c + pr) (c_rbuf c))"
    obtain chunk key' where u: "unmaskChunk (h_Masked h) chunk0 key = (chunk, key')" by fastforce
    obtain v ok where f: "feedChunk validate (c_utf8v (c\<lparr>c_rbuf := copyAt (c_rbuf c) (c_r0 c + pr) chunk\<rparr>)) chunk = (v, ok)"
      by fastforce
    define c1 where "c1 = c\<lparr>c_rbuf := copyAt (c_rbuf c) (c_r0 c + pr) chunk, c_utf8v := v\<rparr>"
    have rec: "ok" "contiguousLoop h validate n av key' c1 = (None, c')"
      using "1.prems" 2 u f unfolding contiguousLoop.simps [of h validate n pr key c]
      by (auto simp: Let_def av_def [symmetric] chunk0_def [symmetric] c1_def split: if_splits prod.splits)
    have "avail c' \<le> avail c1"
      using "1.IH"(1) [OF 2(1) av_def 2(2) chunk0_def u [symmetric] refl refl f [symmetric]] rec by (simp add: c1_def)
    then show ?thesis by (simp add: c1_def avail_def)
  next
    case 3
    obtain x c1 where f: "fillOnce c = (x, c1)" by fastforce
    have rec: "x = None" "contiguousLoop h validate n pr key c1 = (None, c')"
      using "1.prems" 3 f unfolding contiguousLoop.simps [of h validate n pr key c]
      by (auto simp: Let_def av_def [symmetric] split: if_splits prod.splits option.splits)
    then show ?thesis
      using "1.IH"(2) [OF 3(1) av_def 3(2) f [symmetric]] fillOnce_avail [OF f] by simp
  qed
qed

lemma readContiguousPayload_avail:
  assumes "readContiguousPayload h c = (Inr p, c')"
  shows "avail c' \<le> avail c"
proof -
  note loop = contiguousLoop_avail [of h "c_msgIsText c \<and> \<not> c_skipUTF8 c" "nat (h_Length h)" 0 "h_MaskKey h" c]
  show ?thesis using assms
    by (auto simp: readContiguousPayload_def failWith_def Let_def avail_def
        split: if_splits prod.splits option.splits dest!: loop)
qed

lemma finishCompressedMessage_avail: "finishCompressedMessage c = (Inr p, c') \<Longrightarrow> avail c' = avail c"
  by (auto simp: finishCompressedMessage_def failWith_def Let_def avail_def
      split: if_splits prod.splits sum.splits decompressErr.splits)

lemma finishMessage_avail: "finishMessage op c = (Inr m, c') \<Longrightarrow> avail c' = avail c"
  by (auto simp: finishMessage_def failWith_def dest: finishCompressedMessage_avail
      split: if_splits sum.splits prod.splits)

lemma messageLoop_avail: "messageLoop inMessage msgOp c = (Inr m, c') \<Longrightarrow> avail c' < avail c"
proof (induction inMessage msgOp c rule: messageLoop.induct)
  case (1 inMessage msgOp c)
  obtain x c1 where rh: "readHeader c = (x, c1)" by fastforce
  then obtain h where x: "x = Inr h" using "1.prems" by (cases x) (simp_all add: messageLoop.simps [of inMessage])
  have av: "avail c1 < avail c" using readHeader_avail [of False c h c1] rh x by (simp add: readHeader_def)
  note unf = messageLoop.simps [of inMessage msgOp c, unfolded rh x prod.case sum.case]
  show ?case
  proof (cases "IsControl (h_Opcode h)")
    case True
    obtain y c2 where hc: "handleControl h c1 = (y, c2)" by fastforce
    then have "y = None" "messageLoop inMessage msgOp c2 = (Inr m, c')"
      using "1.prems" True unfolding unf by (cases y; simp)+
    then show ?thesis
      using "1.IH"(1) [OF rh [symmetric] x True] hc av handleControl_avail [of h c1 c2] by fastforce
  next
    case False
    define c2 where "c2 = (if isOpening h then beginMessage h c1 else c1)"
    define op where "op = (if isOpening h then h_Opcode h else msgOp)"
    have c2: "avail c2 \<le> avail c1" using beginMessage_avail [of h c1] by (simp add: c2_def)
    have ok: "\<not> (isOpening h \<and> inMessage)"
      using "1.prems" False unfolding unf by (cases "isOpening h \<and> inMessage") (simp_all add: failWith_def)
    moreover have "\<not> (h_Opcode h = OpcodeContinuation \<and> \<not> inMessage)"
      using "1.prems" unfolding unf if_not_P [OF False] if_not_P [OF ok]
      by (cases "h_Opcode h = OpcodeContinuation \<and> \<not> inMessage") (simp_all add: failWith_def)
    ultimately have ok: "\<not> (isOpening h \<and> inMessage)" "\<not> (h_Opcode h = OpcodeContinuation \<and> \<not> inMessage)"
      by blast+
    note unf2 = "1.prems" [unfolded unf if_not_P [OF False] if_not_P [OF ok(1)] if_not_P [OF ok(2)] Let_def,
        folded c2_def op_def]
    show ?thesis
    proof (cases "isOpening h \<and> \<not> c_msgCompressed c2 \<and> h_Fin h \<and> h_Length h \<le> int (length (c_rbuf c2))")
      case True
      then show ?thesis using unf2 readContiguousPayload_avail [of h c2 _ c'] c2 av
        by (auto split: prod.splits sum.splits)
    next
      case nc: False
      obtain y c3 where fp: "readFramePayload h c2 = (y, c3)" by fastforce
      note unf3 = unf2 [unfolded if_not_P [OF nc] fp]
      have y: "y = None" using unf3 by (cases y) auto
      show ?thesis
      proof (cases "h_Fin h")
        case True
        then show ?thesis using unf3 fp y finishMessage_avail [of op c3 m c'] readFramePayload_avail [of h c2 c3] c2 av
          by simp
      next
        case nf: False
        then have "messageLoop True op c3 = (Inr m, c')" using unf3 y by simp
        then have "avail c' < avail c3"
          using "1.IH"(2) [OF rh [symmetric] x False ok c2_def op_def nc fp [symmetric] y nf] by blast
        then show ?thesis using readFramePayload_avail [of h c2 c3] fp y c2 av by simp
      qed
    qed
  qed
qed

lemma drain_avail: "drain r c = (None, c') \<Longrightarrow> avail c' \<le> avail c"
proof (induction r c rule: drain.induct)
  case (1 r c)
  consider "mr_frameRem r = 0" "mr_fin r" | "mr_frameRem r = 0" "\<not> mr_fin r" | "mr_frameRem r \<noteq> 0" by blast
  then show ?case
  proof cases
    case 1
    then show ?thesis using "1.prems" by (simp add: drain.simps)
  next
    case 2
    obtain y r1 c1 where nf: "nextFrame r c = (y, r1, c1)" by (metis prod_cases3)
    have "y = None" "drain r1 c1 = (None, c')"
      using "1.prems" 2 nf by (cases y; simp add: drain.simps [of r c])+
    then show ?thesis
      using "1.IH"(1) [OF 2 nf [symmetric]] nextFrame_avail [of r c r1 c1] nf by fastforce
  next
    case 3
    obtain y c1 where sp: "skipPayload (mr_frameRem r) c = (y, c1)" by fastforce
    have "y = None" "drain (r\<lparr>mr_frameRem := 0\<rparr>) c1 = (None, c')"
      using "1.prems" 3 sp by (cases y; simp add: drain.simps [of r c])+
    then show ?thesis
      using "1.IH"(2) [OF 3 sp [symmetric]] skipPayload_avail [of "mr_frameRem r" c c1] sp by fastforce
  qed
qed

lemma discardStreamRemainder_avail: "discardStreamRemainder c = (None, c') \<Longrightarrow> avail c' \<le> avail c"
  by (auto simp: discardStreamRemainder_def Let_def avail_def dest!: drain_avail split: option.splits if_splits)

lemma readMessage_avail: "readMessage c = (None, c') \<Longrightarrow> avail c' < avail c"
proof -
  assume rm: "readMessage c = (None, c')"
  obtain y c1 where d: "discardStreamRemainder c = (y, c1)" by fastforce
  then have "y = None" "\<exists>m. readMessageBody c1 = (Inr m, c')"
    using rm by (auto simp: readMessage_def split: if_splits option.splits prod.splits sum.splits)
  then show ?thesis using discardStreamRemainder_avail [of c c1] d
    by (auto simp: readMessageBody_def avail_def dest!: messageLoop_avail)
qed

text \<open>The drain of \<^verbatim>\<open>Close\<close>: messages are read and dropped until the read side fails.\<close>

function closeDrain :: "'w Conn \<Rightarrow> 'w Conn" where
  "closeDrain c =
     (case readMessage c of
        (Some _, c) \<Rightarrow> c
      | (None, c) \<Rightarrow> closeDrain c)"
  by pat_completeness auto
termination by (relation "measure avail") (simp, metis in_measure readMessage_avail)

declare closeDrain.simps [simp del]

definition Close :: "CloseCode \<Rightarrow> bytes \<Rightarrow> 'w Conn \<Rightarrow> connErr option \<times> 'w Conn" where
  "Close code reason c =
     (case selectMode connModeMessage c of
        (Some e, c) \<Rightarrow> (Some e, c)
      | (None, c) \<Rightarrow>
          if c_tornDown c then (None, c)
          else case validateCloseArgs code reason of
            Some e \<Rightarrow> (Some e, c)
          | None \<Rightarrow>
              let (sendErr, c) = sendClose code reason c;
                  c = (if \<not> c_closeRcvd c then closeDrain c else c)
              in (sendErr, teardown c))"

section \<open>Messages already in the buffer\<close>

definition bufferedMessageReady :: "'w Conn \<Rightarrow> bool" where
  "bufferedMessageReady c =
     (if c_r0 c = c_r1 c then False
      else case DecodeHeader (window c) of
        Inl _ \<Rightarrow> False
      | Inr (h, n) \<Rightarrow>
          if int (c_r1 c - c_r0 c - n) < h_Length h then False
          else h_Fin h \<and> IsData (h_Opcode h))"

end
