(* ===== verification/Reader_Spec.thy ===== *)
theory Reader_Spec
  imports Reader
begin

text \<open>
  What reading a message means, without buffers: a parser on the byte stream the peer sent. The stream
  is what is in the read window followed by what the transport will deliver; \<open>erase\<close> forgets the read
  side of a connection and keeps the rest. The refinement lemmas show, operation by operation, that the
  buffered reader of \<^verbatim>\<open>src/reader.go\<close> behaves as the parser, however the bytes are cut into reads and
  whatever the size of its buffer.
\<close>

definition pending :: "'w Conn \<Rightarrow> bytes" where
  "pending c = window c @ incoming (c_conn c)"

definition erase :: "'w Conn \<Rightarrow> 'w Conn" where
  "erase c = c\<lparr>c_rbuf := [], c_r0 := 0, c_r1 := 0, c_msgBuf := [], c_utf8v := newValidator,
     c_conn := (c_conn c)\<lparr>t_reads := []\<rparr>\<rparr>"

text \<open>A connection that can be read from: the buffer is as large as the pool's smallest, the window is
  in bounds, nothing failed yet, and the transport delivers bytes until it ends.\<close>

definition readable :: "'w Conn \<Rightarrow> bool" where
  "readable c \<longleftrightarrow> \<not> c_tornDown c \<and> c_readErr c = None \<and> c_r0 c \<le> c_r1 c \<and> c_r1 c \<le> length (c_rbuf c) \<and>
     128 \<le> length (c_rbuf c) \<and> int (length (c_rbuf c)) < maxAlloc \<and> c_mode c \<noteq> connModeFrame \<and>
     (c_hdrTable c, c_hdrMaskBit c) = headerTableFor (c_client c) (c_compression c) \<and> steady (c_conn c)"

lemma erase_fields [simp]:
  "c_readLimit (erase c) = c_readLimit c" "c_readErr (erase c) = c_readErr c" "c_client (erase c) = c_client c"
  "c_vectored (erase c) = c_vectored c" "c_skipUTF8 (erase c) = c_skipUTF8 c" "c_wbatch (erase c) = c_wbatch c"
  "c_msgIsText (erase c) = c_msgIsText c" "c_msgCompressed (erase c) = c_msgCompressed c"
  "c_closeSent (erase c) = c_closeSent c" "c_compression (erase c) = c_compression c"
  "c_closeRcvd (erase c) = c_closeRcvd c" "c_tornDown (erase c) = c_tornDown c" "c_deflate (erase c) = c_deflate c"
  "c_mode (erase c) = c_mode c" "c_active (erase c) = c_active c" "c_msgBuf (erase c) = []"
  "c_conn (erase c) = (c_conn c)\<lparr>t_reads := []\<rparr>"
  by (simp_all add: erase_def)

lemma read_side_msgBuf [simp]:
  "readable (c\<lparr>c_msgBuf := b\<rparr>) = readable c" "pending (c\<lparr>c_msgBuf := b\<rparr>) = pending c"
  "erase (c\<lparr>c_msgBuf := b\<rparr>) = erase c"
  by (simp_all add: readable_def pending_def window_def erase_def)

lemma read_side_utf8v [simp]:
  "readable (c\<lparr>c_utf8v := v\<rparr>) = readable c" "pending (c\<lparr>c_utf8v := v\<rparr>) = pending c"
  "erase (c\<lparr>c_utf8v := v\<rparr>) = erase c"
  by (simp_all add: readable_def pending_def window_def erase_def)

lemma erase_erase [simp]: "erase (erase c) = erase c"
  by (simp add: erase_def)

declare B_Cons [simp del]

section \<open>Writing does not see the read side\<close>

named_theorems erase_simps \<open>operations commute with forgetting the read side\<close>

lemma tWrite_erase: "tWrite p (t\<lparr>t_reads := r\<rparr>) = map_prod id (\<lambda>t. t\<lparr>t_reads := r\<rparr>) (tWrite p t)"
  by (auto simp: tWrite_def split: list.split option.split)

lemma connWrite_erase [erase_simps]: "connWrite p (erase c) = map_prod id erase (connWrite p c)"
  by (simp add: connWrite_def tWrite_erase case_prod_beta erase_def)

lemma writeFrameBytes_erase [erase_simps]: "writeFrameBytes p (erase c) = map_prod id erase (writeFrameBytes p c)"
  by (auto simp: writeFrameBytes_def erase_simps split: prod.splits option.splits)

lemma writev_erase [erase_simps]: "writev a b (erase c) = map_prod id erase (writev a b c)"
  by (auto simp: writev_def erase_simps split: prod.splits option.splits)

lemma stageWrite_erase [erase_simps]: "stageWrite a b (erase c) = map_prod id erase (stageWrite a b c)"
  by (auto simp: stageWrite_def Let_def erase_simps split: prod.splits option.splits)

lemma writeFrame_erase [erase_simps]: "writeFrame a b (erase c) = map_prod id erase (writeFrame a b c)"
  by (simp add: writeFrame_def erase_simps)

lemma flush_erase [erase_simps]: "flushBufferedLocked (erase c) = map_prod id erase (flushBufferedLocked c)"
  by (auto simp: flushBufferedLocked_def erase_simps split: prod.splits) (simp_all add: erase_def)

lemma maskingKey_erase [erase_simps]: "maskingKey (erase c) = map_prod id erase (maskingKey c)"
  by (simp add: maskingKey_def erase_def)

lemma emit_erase [erase_simps]:
  "emitFrameLocked op fin rsv p (erase c) = map_prod id erase (emitFrameLocked op fin rsv p c)"
  by (auto simp: emitFrameLocked_def Let_def erase_simps split: prod.splits option.splits)

lemma writeControl_erase [erase_simps]: "writeControl op p (erase c) = map_prod id erase (writeControl op p c)"
  by (simp add: writeControl_def erase_simps)

lemma sendClose_erase [erase_simps]: "sendClose code reason (erase c) = map_prod id erase (sendClose code reason c)"
  by (auto simp: sendClose_def Let_def erase_simps split: prod.splits) (simp_all add: erase_def)

lemma teardown_erase [erase_simps]: "c_mode c \<noteq> connModeFrame \<Longrightarrow> teardown (erase c) = erase (teardown c)"
  by (simp add: teardown_def erase_def Let_def tClose_def)

lemma sendClose_mode [simp]: "c_mode (snd (sendClose code reason c)) = c_mode c"
  using wrote_sendClose [of c code reason] by (auto simp: wrote_def)

lemma failClose_erase [erase_simps]:
  assumes "c_mode c \<noteq> connModeFrame"
  shows "failClose code reason (erase c) = map_prod id erase (failClose code reason c)"
proof -
  have "erase (snd (sendClose code reason c))\<lparr>c_readErr := e\<rparr> = erase ((snd (sendClose code reason c))\<lparr>c_readErr := e\<rparr>)" for e
    by (simp add: erase_def)
  then show ?thesis using assms
    by (simp add: failClose_def Let_def erase_simps case_prod_beta)
qed

lemma ioError_erase [erase_simps]:
  assumes "c_mode c \<noteq> connModeFrame"
  shows "ioError e (erase c) = map_prod id erase (ioError e c)"
proof -
  have "erase c\<lparr>c_readErr := x\<rparr> = erase (c\<lparr>c_readErr := x\<rparr>)" for x by (simp add: erase_def)
  then show ?thesis using assms
    by (simp add: ioError_def Let_def teardown_erase [symmetric] split: option.split)
qed

lemma handleClose_erase [erase_simps]:
  assumes "c_mode c \<noteq> connModeFrame"
  shows "handleClose payload (erase c) = map_prod id erase (handleClose payload c)"
proof -
  have rcvd: "erase c\<lparr>c_closeRcvd := True\<rparr> = erase (c\<lparr>c_closeRcvd := True\<rparr>)" by (simp add: erase_def)
  have err: "erase x\<lparr>c_readErr := e\<rparr> = erase (x\<lparr>c_readErr := e\<rparr>)" for x :: "'a Conn" and e
    by (simp add: erase_def)
  show ?thesis using assms
    by (auto simp: handleClose_def Let_def rcvd err erase_simps case_prod_beta split: sum.split)
qed

lemma dispatchControl_erase [erase_simps]:
  assumes "c_mode c \<noteq> connModeFrame"
  shows "dispatchControl op payload (erase c) = map_prod id erase (dispatchControl op payload c)"
  using assms by (auto simp: dispatchControl_def erase_simps split: prod.splits option.splits)

section \<open>Unmasking and validating in pieces\<close>

definition unmask :: "bool \<Rightarrow> 32 word \<Rightarrow> bytes \<Rightarrow> bytes" where
  "unmask masked key raw = (if masked then fst (maskSpec raw key) else raw)"

definition keyAfter :: "bool \<Rightarrow> 32 word \<Rightarrow> bytes \<Rightarrow> 32 word" where
  "keyAfter masked key raw = (if masked then snd (maskSpec raw key) else key)"

definition runIf :: "bool \<Rightarrow> dfaState \<Rightarrow> bytes \<Rightarrow> dfaState" where
  "runIf validate st b = (if validate then run st b else st)"

lemma unmaskChunk_eq: "unmaskChunk masked raw key = (unmask masked key raw, keyAfter masked key raw)"
  by (simp add: unmaskChunk_def unmask_def keyAfter_def purego.meets_Spec)

lemma unmask_append: "unmask masked key (a @ b) = unmask masked key a @ unmask masked (keyAfter masked key a) b"
  by (simp add: unmask_def keyAfter_def maskSpec_append)

lemma keyAfter_append: "keyAfter masked key (a @ b) = keyAfter masked (keyAfter masked key a) b"
  by (simp add: keyAfter_def maskSpec_append)

lemma length_unmask [simp]: "length (unmask masked key raw) = length raw"
  by (simp add: unmask_def maskSpec_def)

lemma unmask_Nil [simp]: "unmask masked key [] = []"
  by (simp add: unmask_def maskSpec_def)

lemma keyAfter_Nil [simp]: "keyAfter masked key [] = key"
  by (simp add: keyAfter_def maskSpec_def rotr_multiple)

lemma runIf_append: "runIf validate st (a @ b) = runIf validate (runIf validate st a) b"
  by (simp add: runIf_def run_append)

lemma runIf_reject [simp]: "runIf validate reject b = reject"
  by (simp add: runIf_def)

lemma runIf_Nil [simp]: "runIf validate st [] = st"
  by (simp add: runIf_def)

lemma feedChunk_eq:
  "v_state v \<noteq> reject \<Longrightarrow> feedChunk validate v b =
     (v\<lparr>v_state := runIf validate (v_state v) b\<rparr>, runIf validate (v_state v) b \<noteq> reject)"
  by (simp add: feedChunk_def runIf_def generic.Feed_general)

lemma arrivedLoop_eq:
  assumes "0 < chunkSize"
  shows "v_state v \<noteq> reject \<Longrightarrow>
    (let st = runIf validate (v_state v) (unmask masked key arrived) in
     if st = reject then fst (arrivedLoop masked validate chunkSize arrived key v) = False
     else arrivedLoop masked validate chunkSize arrived key v =
       (True, unmask masked key arrived, keyAfter masked key arrived, v\<lparr>v_state := st\<rparr>))"
proof (induction "length arrived" arbitrary: arrived key v rule: less_induct)
  case less
  show ?case
  proof (cases "arrived = []")
    case True
    then show ?thesis using less.prems by (simp add: arrivedLoop.simps)
  next
    case False
    define m where "m = min (length arrived) chunkSize"
    have m: "0 < m" using False assms by (simp add: m_def)
    define a b where "a = take m arrived" and "b = drop m arrived"
    have ab: "arrived = a @ b" "length b < length arrived" using m False by (simp_all add: a_def b_def)
    define v1 where "v1 = v\<lparr>v_state := runIf validate (v_state v) (unmask masked key a)\<rparr>"
    have unf: "arrivedLoop masked validate chunkSize arrived key v =
      (if v_state v1 = reject then (False, unmask masked key a, keyAfter masked key a, v1)
       else (case arrivedLoop masked validate chunkSize b (keyAfter masked key a) v1 of
         (r, rest, key', v') \<Rightarrow> (r, unmask masked key a @ rest, key', v')))"
      using False assms less.prems
      by (subst arrivedLoop.simps)
        (simp add: Let_def m_def [symmetric] a_def [symmetric] b_def [symmetric] unmaskChunk_eq feedChunk_eq v1_def)
    show ?thesis
    proof (cases "v_state v1 = reject")
      case True
      then have "runIf validate (v_state v) (unmask masked key arrived) = reject"
        by (simp add: ab(1) unmask_append runIf_append v1_def)
      then show ?thesis using unf True by simp
    next
      case ok: False
      show ?thesis using less.hyps [OF ab(2) ok, of "keyAfter masked key a"] unf ok
        by (auto simp: ab(1) unmask_append runIf_append keyAfter_append v1_def Let_def split: prod.splits if_splits)
    qed
  qed
qed

section \<open>Filling the buffer\<close>

text \<open>Reading more of the stream into the window changes nothing else.\<close>

definition refilled :: "'w Conn \<Rightarrow> 'w Conn \<Rightarrow> bool" where
  "refilled c c' \<longleftrightarrow> readable c' \<and> erase c' = erase c \<and> pending c' = pending c \<and> c_msgBuf c' = c_msgBuf c \<and>
     c_utf8v c' = c_utf8v c \<and> length (c_rbuf c') = length (c_rbuf c) \<and> (\<exists>p. window c' = window c @ p)"

lemma refilled_refl [simp]: "readable c \<Longrightarrow> refilled c c"
  by (simp add: refilled_def)

lemma refilled_trans: "refilled c c1 \<Longrightarrow> refilled c1 c2 \<Longrightarrow> refilled c c2"
  by (auto simp: refilled_def)

lemma length_window [simp]: "readable c \<Longrightarrow> length (window c) = c_r1 c - c_r0 c"
  by (auto simp: window_def readable_def)

lemma compactWindow_refilled:
  assumes "readable c"
  shows "refilled c (compactWindow c)"
    "c_r1 c - c_r0 c < length (c_rbuf c) \<Longrightarrow> c_r1 (compactWindow c) < length (c_rbuf (compactWindow c))"
    "window (compactWindow c) = window c" "c_conn (compactWindow c) = c_conn c"
proof -
  have r: "c_r0 c \<le> c_r1 c" "c_r1 c \<le> length (c_rbuf c)" "128 \<le> length (c_rbuf c)"
    using assms by (simp_all add: readable_def)
  show w: "window (compactWindow c) = window c"
    using r by (auto simp: compactWindow_def window_def copyAt_def)
  show cc: "c_conn (compactWindow c) = c_conn c" by simp
  have "readable (compactWindow c)" "length (c_rbuf (compactWindow c)) = length (c_rbuf c)"
    using assms by (auto simp: readable_def compactWindow_def copyAt_def window_def)
  then show "refilled c (compactWindow c)"
    using w cc by (auto simp: refilled_def pending_def erase_def compactWindow_def)
  show "c_r1 c - c_r0 c < length (c_rbuf c) \<Longrightarrow> c_r1 (compactWindow c) < length (c_rbuf (compactWindow c))"
    using r by (auto simp: compactWindow_def copyAt_def window_def)
qed

lemma fillOnce_steady:
  assumes "readable c" "c_r1 c - c_r0 c < length (c_rbuf c)"
  obtains c' where "incoming (c_conn c) = []" "fillOnce c = (Some (t_end (c_conn c)), c')" "refilled c c'"
      "window c' = window c"
    | c' where "incoming (c_conn c) \<noteq> []" "fillOnce c = (None, c')" "refilled c c'"
      "length (window c) < length (window c')" "unread (c_conn c') < unread (c_conn c)"
proof -
  define d where "d = compactWindow c"
  note d = compactWindow_refilled [OF assms(1), folded d_def]
  have dr: "readable d" using d(1) by (simp add: refilled_def)
  have k: "0 < length (c_rbuf d) - c_r1 d" using d(2) assms(2) by simp
  have st: "steady (c_conn c)" using assms(1) by (simp add: readable_def)
  obtain r c' where f: "fillOnce c = (r, c')" by fastforce
  then obtain p e t where rd: "tRead (length (c_rbuf d) - c_r1 d) (c_conn c) = ((p, e), t)"
    and c': "c' = d\<lparr>c_conn := t, c_rbuf := copyAt (c_rbuf d) (c_r1 d) p, c_r1 := c_r1 d + length p\<rparr>"
    and res: "r = (if p \<noteq> [] then None else case e of Some e \<Rightarrow> Some e | None \<Rightarrow> Some NoProgress)"
    unfolding d_def by (rule fillOnce_elim)
  note ts = tRead_steady [OF st k rd] and tu = tRead_unread [OF rd] and ti = tRead_incoming [OF rd]
  have w: "window c' = window d @ p"
    using dr tu(2) k by (auto simp: window_def c' readable_def copyAt_def drop_take)
  have "readable c'" using dr ts(1) tu(2,5) k by (auto simp: readable_def c' steady_def copyAt_def)
  moreover have "erase c' = erase d" using tu by (simp add: erase_def c' d(4))
  moreover have "pending c' = pending c" using w ti d(3) by (simp add: pending_def c')
  moreover have "length (c_rbuf c') = length (c_rbuf c)"
    using d(1) tu(2) k by (simp add: c' refilled_def copyAt_def)
  moreover have "c_msgBuf c' = c_msgBuf d" "c_utf8v c' = c_utf8v d" by (simp_all add: c')
  ultimately have rf: "refilled c c'"
    using d(1) w d(3) by (auto simp: refilled_def)
  show ?thesis
  proof (cases "incoming (c_conn c) = []")
    case True
    then have "p = []" "e = Some (t_end (c_conn c))" using ts(2) by simp_all
    then show ?thesis using that(1) [OF True] f res rf w d(3) by simp
  next
    case False
    then have "p \<noteq> []" using ts(2) by simp
    moreover have "unread t < unread (c_conn c)" using tu(1) \<open>p \<noteq> []\<close> by (cases p) auto
    ultimately show ?thesis using that(2) [OF False] f res rf w d(3) by (simp add: c')
  qed
qed

lemma window_consume:
  assumes "readable c" "n \<le> c_r1 c - c_r0 c"
  shows "readable (c\<lparr>c_r0 := c_r0 c + n\<rparr>)" "pending (c\<lparr>c_r0 := c_r0 c + n\<rparr>) = drop n (pending c)"
    "erase (c\<lparr>c_r0 := c_r0 c + n\<rparr>) = erase c"
proof -
  have len: "n \<le> length (window c)" using assms by simp
  have w: "window (c\<lparr>c_r0 := c_r0 c + n\<rparr>) = drop n (window c)"
    by (simp add: window_def drop_take add.commute)
  show "readable (c\<lparr>c_r0 := c_r0 c + n\<rparr>)" using assms by (auto simp: readable_def)
  show "pending (c\<lparr>c_r0 := c_r0 c + n\<rparr>) = drop n (pending c)" using w len by (simp add: pending_def)
  show "erase (c\<lparr>c_r0 := c_r0 c + n\<rparr>) = erase c" by (simp add: erase_def)
qed

section \<open>Headers\<close>

lemma readHeader_refines:
  assumes "readable c" "c_utf8v c = v" "c_msgBuf c = buf" "length (c_rbuf c) = len"
  shows "case decodeFor (c_client c) (c_compression c) (pending c) of
      Inr (h, n) \<Rightarrow> \<exists>c'. readHeader c = (Inr h, c') \<and> readable c' \<and> pending c' = drop n (pending c) \<and>
        erase c' = erase c \<and> c_utf8v c' = v \<and> c_msgBuf c' = buf \<and> length (c_rbuf c') = len
    | Inl reason \<Rightarrow> \<exists>c1. refilled c c1 \<and> readHeader c =
        failWith (if reason = rejectShort then ioError (t_end (c_conn c)) c1
          else failClose CloseProtocolError (closeMessage reason (c_client c)) c1)"
  using assms unfolding readHeader_def
proof (induction "unread (c_conn c)" arbitrary: c rule: less_induct)
  case less
  let ?dec = "decodeFor (c_client c) (c_compression c)"
  have fast: "decodeFrameHeaderFast (c_hdrTable c) (c_hdrMaskBit c) = ?dec"
    using less.prems(1) by (simp add: readable_def decodeFor_def fun_eq_iff split: prod.splits) (metis prod.inject)
  have lw: "length (window c) = c_r1 c - c_r0 c" using less.prems(1) by simp
  show ?case
  proof (cases "?dec (window c) = Inl rejectShort")
    case False
    have dec: "?dec (pending c) = ?dec (window c)" unfolding pending_def by (rule decodeFor_extend [OF False])
    have "2 \<le> length (window c)"
    proof (rule ccontr)
      assume "\<not> 2 \<le> length (window c)"
      then show False using False by (simp add: decodeFor_short_iff DecodeHeader_short)
    qed
    then have two: "2 \<le> c_r1 c - c_r0 c" using lw by simp
    show ?thesis
    proof (cases "?dec (window c)")
      case (Inl reason)
      then have "readHeaderWithPartialEOF False c =
          failWith (failClose CloseProtocolError (closeMessage reason (c_client c)) c)"
        using two False fast by (subst readHeaderWithPartialEOF.simps) (cases reason; simp)
      then show ?thesis using Inl False dec less.prems(1)
        by (auto intro!: exI [of _ c])
    next
      case (Inr hn)
      obtain h n where hn: "hn = (h, n)" by fastforce
      have "n \<le> c_r1 c - c_r0 c" using decodeFor_consumed [of "c_client c" "c_compression c" "window c" h n] Inr hn lw by simp
      note cons = window_consume [OF less.prems(1) this]
      have "readHeaderWithPartialEOF False c = (Inr h, c\<lparr>c_r0 := c_r0 c + n\<rparr>)"
        using two Inr hn fast by (subst readHeaderWithPartialEOF.simps) simp
      then show ?thesis using Inr hn dec cons less.prems by simp
    qed
  next
    case True
    have "\<not> MaxHeaderSize \<le> length (window c)" using decodeFor_long True by blast
    then have room: "c_r1 c - c_r0 c < length (c_rbuf c)"
      using less.prems(1) lw by (simp add: readable_def MaxHeaderSize_def)
    have unf: "readHeaderWithPartialEOF False c =
      (case fillOnce c of (Some e, c) \<Rightarrow> failWith (ioError e c) | (None, c) \<Rightarrow> readHeaderWithPartialEOF False c)"
      using True fast by (subst readHeaderWithPartialEOF.simps) (simp add: Let_def split: option.split prod.split)
    from less.prems(1) room show ?thesis
    proof (rule fillOnce_steady)
      fix c' assume "incoming (c_conn c) = []" "fillOnce c = (Some (t_end (c_conn c)), c')" "refilled c c'"
      then show ?thesis using unf True by (auto simp: pending_def intro!: exI [of _ c'])
    next
      fix c' assume f: "fillOnce c = (None, c')" "refilled c c'" "unread (c_conn c') < unread (c_conn c)"
      then have r: "readable c'" "pending c' = pending c" "erase c' = erase c" "c_utf8v c' = v" "c_msgBuf c' = buf"
        "length (c_rbuf c') = len"
        using less.prems by (simp_all add: refilled_def)
      have same: "c_client c' = c_client c" "c_compression c' = c_compression c" "t_end (c_conn c') = t_end (c_conn c)"
        using arg_cong [OF r(3), of c_client] arg_cong [OF r(3), of c_compression]
          arg_cong [OF r(3), of "\<lambda>x. t_end (c_conn x)"] by simp_all
      note ih = less.hyps [OF f(3) r(1,4,5,6), unfolded same r(2,3)]
      show ?thesis
      proof (cases "?dec (pending c)")
        case (Inl reason)
        with ih obtain c1 where "refilled c' c1" "readHeaderWithPartialEOF False c' =
            failWith (if reason = rejectShort then ioError (t_end (c_conn c)) c1
              else failClose CloseProtocolError (closeMessage reason (c_client c)) c1)" by auto
        then show ?thesis using Inl unf f(1) refilled_trans [OF f(2), of c1]
          by (auto intro!: exI [of _ c1])
      next
        case (Inr hn)
        then show ?thesis using ih unf f(1) by simp
      qed
    qed
  qed
qed

lemma ensure_refines:
  assumes "readable c" "n \<le> 128"
  shows "if n \<le> length (pending c) then \<exists>c'. ensure n c = (None, c') \<and> refilled c c' \<and> n \<le> c_r1 c' - c_r0 c'
    else \<exists>c'. ensure n c = (Some (t_end (c_conn c)), c') \<and> refilled c c'"
  using assms
proof (induction "unread (c_conn c)" arbitrary: c rule: less_induct)
  case less
  have lw: "length (window c) = c_r1 c - c_r0 c" using less.prems(1) by simp
  show ?case
  proof (cases "c_r1 c - c_r0 c < n")
    case False
    then show ?thesis using less.prems(1) lw by (auto simp: ensure.simps [of n c] pending_def)
  next
    case True
    have unf: "ensure n c = (case fillOnce c of (Some e, c) \<Rightarrow> (Some e, c) | (None, c) \<Rightarrow> ensure n c)"
      using True by (subst ensure.simps) simp
    have room: "c_r1 c - c_r0 c < length (c_rbuf c)" using True less.prems by (simp add: readable_def)
    from less.prems(1) room show ?thesis
    proof (rule fillOnce_steady)
      fix c' assume "incoming (c_conn c) = []" "fillOnce c = (Some (t_end (c_conn c)), c')" "refilled c c'"
      then show ?thesis using unf True lw by (simp add: pending_def)
    next
      fix c' assume f: "fillOnce c = (None, c')" "refilled c c'" "unread (c_conn c') < unread (c_conn c)"
      then have r: "readable c'" "pending c' = pending c" "erase c' = erase c"
        by (simp_all add: refilled_def)
      have same: "t_end (c_conn c') = t_end (c_conn c)"
        using arg_cong [OF r(3), of "\<lambda>x. t_end (c_conn x)"] by simp
      show ?thesis using less.hyps [OF f(3) r(1) less.prems(2)] unf f refilled_trans [OF f(2)] r(2) same
        by (auto split: if_splits)
    qed
  qed
qed

section \<open>Payloads\<close>

lemma rbuf_split:
  assumes "readable c"
  shows "c_rbuf c = take (c_r0 c) (c_rbuf c) @ window c @ drop (c_r1 c) (c_rbuf c)"
proof -
  have "c_r0 c \<le> c_r1 c" using assms by (simp add: readable_def)
  then have "drop (c_r0 c) (c_rbuf c) = window c @ drop (c_r1 c) (c_rbuf c)"
    using append_take_drop_id [of "c_r1 c - c_r0 c" "drop (c_r0 c) (c_rbuf c)"] by (simp add: window_def)
  then show ?thesis by (metis append_take_drop_id)
qed

lemma copyAt_middle:
  assumes "off + length x \<le> length b"
  shows "copyAt (a @ b @ z) (length a + off) x = a @ copyAt b off x @ z"
  using assms by (simp add: copyAt_def)

lemma window_overwrite:
  assumes "readable c" "off + length x \<le> c_r1 c - c_r0 c"
  shows "readable (c\<lparr>c_rbuf := copyAt (c_rbuf c) (c_r0 c + off) x\<rparr>)"
    "pending (c\<lparr>c_rbuf := copyAt (c_rbuf c) (c_r0 c + off) x\<rparr>) = copyAt (pending c) off x"
    "erase (c\<lparr>c_rbuf := copyAt (c_rbuf c) (c_r0 c + off) x\<rparr>) = erase c"
proof -
  have b: "c_r0 c \<le> c_r1 c" "c_r1 c \<le> length (c_rbuf c)" using assms(1) by (simp_all add: readable_def)
  have len: "off + length x \<le> length (window c)" using assms by simp
  define A Z where "A = take (c_r0 c) (c_rbuf c)" and "Z = drop (c_r1 c) (c_rbuf c)"
  have A: "length A = c_r0 c" using b by (simp add: A_def)
  have "copyAt (c_rbuf c) (c_r0 c + off) x = A @ copyAt (window c) off x @ Z"
    using copyAt_middle [OF len, of A Z] rbuf_split [OF assms(1)] A by (simp add: A_def Z_def)
  then have w: "window (c\<lparr>c_rbuf := copyAt (c_rbuf c) (c_r0 c + off) x\<rparr>) = copyAt (window c) off x"
    using len A assms(1) by (simp add: window_def [of "c\<lparr>c_rbuf := _\<rparr>"])
  show "readable (c\<lparr>c_rbuf := copyAt (c_rbuf c) (c_r0 c + off) x\<rparr>)"
    using assms b by (auto simp: readable_def)
  show "pending (c\<lparr>c_rbuf := copyAt (c_rbuf c) (c_r0 c + off) x\<rparr>) = copyAt (pending c) off x"
    using w len by (simp add: pending_def copyAt_def)
  show "erase (c\<lparr>c_rbuf := copyAt (c_rbuf c) (c_r0 c + off) x\<rparr>) = erase c" by (simp add: erase_def)
qed

lemma take_drop_window:
  assumes "readable c" "off + k \<le> c_r1 c - c_r0 c"
  shows "take k (drop (c_r0 c + off) (c_rbuf c)) = take k (drop off (pending c))"
proof -
  have "length (window c) = c_r1 c - c_r0 c" using assms(1) by simp
  moreover have "drop (c_r0 c + off) (c_rbuf c) = drop off (window c) @ drop (c_r1 c) (c_rbuf c)"
    using assms rbuf_split [OF assms(1)] \<open>length (window c) = _\<close>
    by (metis add.commute add_leE append_take_drop_id assms(2) drop_append drop_drop diff_is_0_eq drop0
        same_append_eq)
  ultimately show ?thesis using assms(2) by (simp add: pending_def)
qed

text \<open>Where the stream is kept in the window while it is processed, up to \<open>pr\<close> bytes already done.\<close>

lemma contiguousLoop_refines:
  assumes "readable c" "pr \<le> c_r1 c - c_r0 c" "pr \<le> n" "n \<le> length (c_rbuf c)" "v_state (c_utf8v c) \<noteq> reject"
    "st = runIf validate (v_state (c_utf8v c)) (unmask (h_Masked h) key (take (n - pr) (drop pr (pending c))))"
  shows "if st = reject then \<exists>c1. erase c1 = erase c \<and> contiguousLoop h validate n pr key c =
        map_prod Some id (failClose CloseInvalidFramePayloadData (B ''invalid UTF-8 in text message'') c1)
    else if length (pending c) < n then \<exists>c1. erase c1 = erase c \<and> contiguousLoop h validate n pr key c =
        map_prod Some id (ioError (t_end (c_conn c)) c1)
    else \<exists>c'. contiguousLoop h validate n pr key c = (None, c') \<and> readable c' \<and> erase c' = erase c \<and>
        n \<le> c_r1 c' - c_r0 c' \<and> v_state (c_utf8v c') = st \<and>
        pending c' = take pr (pending c) @ unmask (h_Masked h) key (take (n - pr) (drop pr (pending c))) @ drop n (pending c)"
  using assms
proof (induction h validate n pr key c arbitrary: st rule: contiguousLoop.induct)
  case (1 h validate n pr key c)
  have lw: "length (window c) = c_r1 c - c_r0 c" using "1.prems"(1) by simp
  define av where "av = min (c_r1 c - c_r0 c) n"
  consider "\<not> pr < n" | "pr < n" "pr < av" | "pr < n" "\<not> pr < av" by blast
  then show ?case
  proof cases
    case 1
    then have "n = pr" using "1.prems"(3) by simp
    moreover have "contiguousLoop h validate n pr key c = (None, c)" using 1 by (simp add: contiguousLoop.simps)
    ultimately show ?thesis using "1.prems" lw by (simp add: pending_def)
  next
    case 2
    define raw where "raw = take (av - pr) (drop pr (pending c))"
    have avw: "pr + (av - pr) \<le> c_r1 c - c_r0 c" using 2 by (simp add: av_def)
    have raw: "take (av - pr) (drop (c_r0 c + pr) (c_rbuf c)) = raw" "length raw = av - pr"
      using take_drop_window [OF "1.prems"(1) avw] avw lw by (simp_all add: raw_def pending_def)
    define x where "x = unmask (h_Masked h) key raw"
    have xw: "pr + length x \<le> c_r1 c - c_r0 c" using avw raw by (simp add: x_def)
    note ow = window_overwrite [OF "1.prems"(1) xw]
    define d where "d = c\<lparr>c_rbuf := copyAt (c_rbuf c) (c_r0 c + pr) x\<rparr>"
    define st1 where "st1 = runIf validate (v_state (c_utf8v c)) x"
    define c1 where "c1 = d\<lparr>c_utf8v := (c_utf8v c)\<lparr>v_state := st1\<rparr>\<rparr>"
    have f: "feedChunk validate (c_utf8v d) x = ((c_utf8v c)\<lparr>v_state := st1\<rparr>, st1 \<noteq> reject)"
      using "1.prems"(5) by (simp add: d_def feedChunk_eq st1_def)
    have u: "unmaskChunk (h_Masked h) raw key = (x, keyAfter (h_Masked h) key raw)"
      by (simp add: unmaskChunk_eq x_def)
    have unf: "contiguousLoop h validate n pr key c =
      (if st1 = reject then map_prod Some id (failClose CloseInvalidFramePayloadData (B ''invalid UTF-8 in text message'') c1)
       else contiguousLoop h validate n av (keyAfter (h_Masked h) key raw) c1)"
      unfolding contiguousLoop.simps [of h validate n pr key c] Let_def av_def [symmetric] raw(1) u
      using 2 f by (simp add: d_def c1_def case_prod_beta map_prod_def)
    have c1: "readable c1" "erase c1 = erase c" "pending c1 = copyAt (pending c) pr x"
      using ow by (simp_all add: c1_def d_def readable_def erase_def pending_def window_def)
    have cp: "copyAt (pending c) pr x = take pr (pending c) @ x @ drop av (pending c)"
      using 2 raw by (simp add: copyAt_def x_def)
    have prlen: "length (take pr (pending c)) = pr" using "1.prems"(2) lw by (simp add: pending_def)
    have lx: "length x = av - pr" using raw by (simp add: x_def)
    have rest: "take (n - pr) (drop pr (pending c)) = raw @ take (n - av) (drop av (pending c))"
    proof -
      have "n - pr = (av - pr) + (n - av)" using 2 by (simp add: av_def)
      then show ?thesis using 2 unfolding raw_def by (simp only: take_add drop_drop) simp
    qed
    have p1: "drop av (pending c1) = drop av (pending c)" "drop n (pending c1) = drop n (pending c)"
      "take av (pending c1) = take pr (pending c) @ x" "length (pending c1) = length (pending c)"
      using c1(3) cp prlen lx 2 avw lw by (auto simp: av_def pending_def)
    show ?thesis
    proof (cases "st1 = reject")
      case True
      then have "st = reject" using "1.prems"(6) rest by (simp add: unmask_append runIf_append st1_def x_def)
      then show ?thesis using unf True c1(2) by auto
    next
      case False
      define st' where "st' = runIf validate st1 (unmask (h_Masked h) (keyAfter (h_Masked h) key raw) (take (n - av) (drop av (pending c))))"
      have st: "st = st'" using "1.prems"(6) rest by (simp add: unmask_append runIf_append st1_def x_def st'_def)
      have pre: "readable c1" "av \<le> c_r1 c1 - c_r0 c1" "av \<le> n" "n \<le> length (c_rbuf c1)" "v_state (c_utf8v c1) \<noteq> reject"
        "st = runIf validate (v_state (c_utf8v c1)) (unmask (h_Masked h) (keyAfter (h_Masked h) key raw) (take (n - av) (drop av (pending c1))))"
        using c1(1) "1.prems"(4) False st p1(1) xw lx 2 "1.prems"(1)
        by (auto simp: c1_def d_def av_def st'_def readable_def)
      have tend: "t_end (c_conn c1) = t_end (c_conn c)" by (simp add: c1_def d_def)
      note ih = "1.IH"(1) [OF 2(1) av_def 2(2) raw(1) [symmetric] u [symmetric] refl d_def f [symmetric] refl c1_def _ pre]
      show ?thesis using ih False unf p1 c1(2) tend
        by (simp add: rest unmask_append x_def [symmetric] cong: if_cong)
    qed
  next
    case 3
    then have pr: "pr = c_r1 c - c_r0 c" using "1.prems"(2,3) by (simp add: av_def)
    have room: "c_r1 c - c_r0 c < length (c_rbuf c)" using 3 pr "1.prems"(4) by simp
    have unf: "contiguousLoop h validate n pr key c =
      (case fillOnce c of (Some e, c) \<Rightarrow> map_prod Some id (ioError e c) | (None, c) \<Rightarrow> contiguousLoop h validate n pr key c)"
      unfolding contiguousLoop.simps [of h validate n pr key c] Let_def av_def [symmetric]
      using 3 by (simp add: case_prod_beta map_prod_def cong: option.case_cong)
    from "1.prems"(1) room show ?thesis
    proof (rule fillOnce_steady)
      fix c' assume f: "incoming (c_conn c) = []" "fillOnce c = (Some (t_end (c_conn c)), c')" "refilled c c'"
      then have "drop pr (pending c) = []" "length (pending c) < n" using lw pr 3 by (simp_all add: pending_def)
      then show ?thesis using unf f(2,3) "1.prems"(5,6) by (auto simp: refilled_def)
    next
      fix c' assume f: "fillOnce c = (None, c')" "refilled c c'" "length (window c) < length (window c')"
      then have r: "readable c'" "pending c' = pending c" "erase c' = erase c" "c_utf8v c' = c_utf8v c"
        "length (c_rbuf c') = length (c_rbuf c)"
        by (simp_all add: refilled_def)
      have tend: "t_end (c_conn c') = t_end (c_conn c)"
        using arg_cong [OF r(3), of "\<lambda>x. t_end (c_conn x)"] by simp
      have pre: "pr \<le> c_r1 c' - c_r0 c'" "pr \<le> n" "n \<le> length (c_rbuf c')" "v_state (c_utf8v c') \<noteq> reject"
        "st = runIf validate (v_state (c_utf8v c')) (unmask (h_Masked h) key (take (n - pr) (drop pr (pending c'))))"
        using f(3) r lw pr 3 "1.prems" by simp_all
      note ih = "1.IH"(2) [OF 3(1) av_def 3(2) f(1) [symmetric] refl r(1) pre]
      show ?thesis using ih unf f(1) r tend by (simp cong: if_cong)
    qed
  qed
qed

lemma failWith_map: "(case map_prod Some id r of (Some e, c) \<Rightarrow> (Inl e, c) | (None, c) \<Rightarrow> f c) = failWith r"
  by (simp add: failWith_def case_prod_beta)

lemma readContiguousPayload_refines:
  assumes r: "readable c" and n: "n = nat (h_Length h)" "n \<le> length (c_rbuf c)" and v: "v_state (c_utf8v c) \<noteq> reject"
    and val: "validate = (c_msgIsText c \<and> \<not> c_skipUTF8 c)"
    and plain: "plain = unmask (h_Masked h) (h_MaskKey h) (take n (pending c))"
    and st: "st = runIf validate (v_state (c_utf8v c)) plain"
  shows "\<exists>c1. erase c1 = erase c \<and> (if int n > c_readLimit c then readContiguousPayload h c =
        failWith (failClose CloseMessageTooBig (B ''message exceeds read limit'') c1)
    else if st = reject then readContiguousPayload h c =
        failWith (failClose CloseInvalidFramePayloadData (B ''invalid UTF-8 in text message'') c1)
    else if length (pending c) < n then readContiguousPayload h c = failWith (ioError (t_end (c_conn c)) c1)
    else if validate \<and> st \<noteq> accept then readContiguousPayload h c =
        failWith (failClose CloseInvalidFramePayloadData (B ''incomplete UTF-8 sequence at message end'') c1)
    else readContiguousPayload h c = (Inr plain, c1) \<and> readable c1 \<and> pending c1 = drop n (pending c))"
proof (cases "int n > c_readLimit c")
  case True
  then show ?thesis using n(1) by (auto simp: readContiguousPayload_def)
next
  case lim: False
  show ?thesis
  proof (cases "c_r1 c - c_r0 c \<ge> n")
    case True
    then have nw: "0 + n \<le> c_r1 c - c_r0 c" by simp
    have raw: "take n (drop (c_r0 c) (c_rbuf c)) = take n (pending c)"
      using take_drop_window [OF r nw] by simp
    have len: "n \<le> length (pending c)" using True r by (simp add: pending_def)
    then have pl: "length plain = n" by (simp add: plain)
    then have "0 + length plain \<le> c_r1 c - c_r0 c" using True by simp
    note ow = window_overwrite [OF r this]
    define d where "d = c\<lparr>c_rbuf := copyAt (c_rbuf c) (c_r0 c) plain, c_utf8v := (c_utf8v c)\<lparr>v_state := st\<rparr>\<rparr>"
    have d: "readable d" "erase d = erase c" "pending d = plain @ drop n (pending c)"
      using ow pl by (simp_all add: d_def readable_def erase_def pending_def window_def copyAt_def)
    have fk: "feedChunk validate (c_utf8v (c\<lparr>c_rbuf := copyAt (c_rbuf c) (c_r0 c) plain\<rparr>)) plain =
        ((c_utf8v c)\<lparr>v_state := st\<rparr>, st \<noteq> reject)"
      using v by (simp add: feedChunk_eq st)
    have unf: "readContiguousPayload h c =
      (if st = reject then failWith (failClose CloseInvalidFramePayloadData (B ''invalid UTF-8 in text message'') d)
       else if validate \<and> st \<noteq> accept
       then failWith (failClose CloseInvalidFramePayloadData (B ''incomplete UTF-8 sequence at message end'') d)
       else (Inr plain, d\<lparr>c_r0 := c_r0 d + n\<rparr>))"
      unfolding readContiguousPayload_def Let_def n(1) [symmetric] raw val [symmetric] unmaskChunk_eq prod.case
        plain [symmetric] fk if_not_P [OF lim]
      using True by (simp add: d_def Done_def)
    have "n \<le> c_r1 d - c_r0 d" using True by (simp add: d_def)
    note cons = window_consume [OF d(1) this]
    show ?thesis
    proof (cases "st = reject \<or> validate \<and> st \<noteq> accept")
      case True
      then show ?thesis using unf d lim len by (auto intro!: exI [of _ d])
    next
      case False
      then show ?thesis using unf d lim len cons pl by (intro exI [of _ "d\<lparr>c_r0 := c_r0 d + n\<rparr>"]) auto
    qed
  next
    case False
    have unf: "readContiguousPayload h c = (case contiguousLoop h validate n 0 (h_MaskKey h) c of
        (Some e, c) \<Rightarrow> (Inl e, c)
      | (None, c) \<Rightarrow>
          if validate \<and> \<not> Done (c_utf8v c)
          then failWith (failClose CloseInvalidFramePayloadData (B ''incomplete UTF-8 sequence at message end'') c)
          else (Inr (take n (drop (c_r0 c) (c_rbuf c))), c\<lparr>c_r0 := c_r0 c + n\<rparr>))"
      unfolding readContiguousPayload_def Let_def n(1) [symmetric] val [symmetric] using lim False by simp
    have st0: "st = runIf validate (v_state (c_utf8v c))
        (unmask (h_Masked h) (h_MaskKey h) (take (n - 0) (drop 0 (pending c))))"
      by (simp add: st plain)
    note loop = contiguousLoop_refines [OF r le0 le0 n(2) v st0]
    show ?thesis
    proof (cases "st = reject \<or> length (pending c) < n")
      case True
      then show ?thesis using loop unf lim by (auto simp: failWith_map split: if_splits)
    next
      case ok: False
      then obtain c' where c': "contiguousLoop h validate n 0 (h_MaskKey h) c = (None, c')" "readable c'"
        "erase c' = erase c" "n \<le> c_r1 c' - c_r0 c'" "v_state (c_utf8v c') = st" "pending c' = plain @ drop n (pending c)"
        using loop by (auto simp: plain split: if_splits)
      have "0 + n \<le> c_r1 c' - c_r0 c'" using c'(4) by simp
      then have "take n (drop (c_r0 c') (c_rbuf c')) = plain"
        using take_drop_window [OF c'(2), of 0 n] c'(6) ok by (simp add: plain)
      then have res: "readContiguousPayload h c = (if validate \<and> st \<noteq> accept
          then failWith (failClose CloseInvalidFramePayloadData (B ''incomplete UTF-8 sequence at message end'') c')
          else (Inr plain, c'\<lparr>c_r0 := c_r0 c' + n\<rparr>))"
        using unf c' by (simp add: Done_def)
      have "length plain = n" using ok by (simp add: plain)
      then show ?thesis using res c' ok lim window_consume [OF c'(2,4)]
        by (intro exI [of _ "if validate \<and> st \<noteq> accept then c' else c'\<lparr>c_r0 := c_r0 c' + n\<rparr>"]) simp
    qed
  qed
qed

lemma directLoop_refines:
  assumes "readable c" "c_r0 c = c_r1 c" "v_state (c_utf8v c) \<noteq> reject"
    "plain = unmask (h_Masked h) key (take k (pending c))" "st = runIf validate (v_state (c_utf8v c)) plain"
  shows "\<exists>c1. erase c1 = erase c \<and> (if st = reject then directLoop h validate k key c =
        map_prod Some id (failClose CloseInvalidFramePayloadData (B ''invalid UTF-8 in text message'') c1)
    else if length (pending c) < k then directLoop h validate k key c =
        map_prod Some id (ioError (t_end (c_conn c)) c1)
    else directLoop h validate k key c = (None, c1) \<and> readable c1 \<and> pending c1 = drop k (pending c) \<and>
        c_msgBuf c1 = c_msgBuf c @ plain \<and> v_state (c_utf8v c1) = st)"
  using assms
proof (induction "k + unread (c_conn c)" arbitrary: c k key plain st rule: less_induct)
  case less
  have win: "pending c = incoming (c_conn c)" using less.prems(2) by (simp add: pending_def window_def)
  show ?case
  proof (cases "k > 0")
    case False
    then show ?thesis using less.prems directLoop.simps [of h validate 0 key c] by auto
  next
    case True
    obtain p e t where rd: "tRead k (c_conn c) = ((p, e), t)" by (metis surj_pair)
    have steady: "steady (c_conn c)" and len: "0 < length (c_rbuf c)"
      using less.prems(1) by (auto simp: readable_def)
    note ts = tRead_steady [OF steady True rd] and tu = tRead_unread [OF rd] and ti = tRead_incoming [OF rd]
    define st1 where "st1 = runIf validate (v_state (c_utf8v c)) (unmask (h_Masked h) key p)"
    obtain ok pl key1 v1 where al:
      "arrivedLoop (h_Masked h) validate (length (c_rbuf c)) p key (c_utf8v c) = (ok, pl, key1, v1)"
      by (metis prod_cases4)
    have al': "if st1 = reject then \<not> ok else ok \<and> pl = unmask (h_Masked h) key p \<and>
        key1 = keyAfter (h_Masked h) key p \<and> v1 = (c_utf8v c)\<lparr>v_state := st1\<rparr>"
      using arrivedLoop_eq [OF len less.prems(3), of validate "h_Masked h" key p] al
      by (auto simp: Let_def st1_def split: if_splits)
    define c1 where "c1 = c\<lparr>c_conn := t, c_utf8v := v1, c_msgBuf := c_msgBuf c @ pl\<rparr>"
    have unf: "directLoop h validate k key c =
      (if \<not> ok then map_prod Some id (failClose CloseInvalidFramePayloadData (B ''invalid UTF-8 in text message'')
         (c\<lparr>c_conn := t, c_utf8v := v1\<rparr>))
       else if length p = 0 \<and> e \<noteq> None then map_prod Some id (ioError (the e) c1)
       else directLoop h validate (k - length p) key1 c1)"
      using True rd al by (subst directLoop.simps) (auto simp: Let_def c1_def case_prod_beta map_prod_def)
    have er: "erase (c\<lparr>c_conn := t, c_utf8v := v1\<rparr>) = erase c" "erase c1 = erase c"
      using rd by (auto simp: erase_def c1_def tRead_def split: if_splits list.splits)
    have split: "take k (pending c) = p @ take (k - length p) (incoming t)"
      "drop k (pending c) = drop (k - length p) (incoming t)" "length (pending c) = length p + length (incoming t)"
      using ti tu(2) by (simp_all add: win)
    have st: "st = runIf validate st1 (unmask (h_Masked h) (keyAfter (h_Masked h) key p) (take (k - length p) (incoming t)))"
      using less.prems(4,5) by (simp add: split unmask_append runIf_append st1_def)
    show ?thesis
    proof (cases "st1 = reject")
      case True
      then show ?thesis using unf al' er(1) st by (auto intro!: exI [of _ "c\<lparr>c_conn := t, c_utf8v := v1\<rparr>"])
    next
      case ok1: False
      then have ok: ok "pl = unmask (h_Masked h) key p" "key1 = keyAfter (h_Masked h) key p"
        "v_state v1 = st1" using al' by auto
      show ?thesis
      proof (cases "incoming (c_conn c) = []")
        case True
        then have pe: "p = []" "e = Some (t_end (c_conn c))" "t = c_conn c" using ts(2) by simp_all
        then have "st \<noteq> reject" using True st ok1 by simp
        then show ?thesis using unf ok pe er(2) True \<open>k > 0\<close> by (auto simp: win intro!: exI [of _ c1])
      next
        case False
        then have p: "p \<noteq> []" "e = None" using ts(2) by simp_all
        have c1: "readable c1" "c_r0 c1 = c_r1 c1" "v_state (c_utf8v c1) \<noteq> reject" "pending c1 = incoming t"
          using less.prems(1,2) ts(1) ok ok1 by (auto simp: c1_def readable_def pending_def window_def)
        have "k - length p + unread (c_conn c1) < k + unread (c_conn c)"
          using p tu(1,2) by (cases p) (auto simp: c1_def)
        note ih = less.hyps [OF this c1(1-3) refl refl]
        have st1: "st = runIf validate (v_state (c_utf8v c1)) (unmask (h_Masked h) key1 (take (k - length p) (pending c1)))"
          unfolding c1(4) using st ok by (simp add: c1_def)
        have loop: "directLoop h validate k key c = directLoop h validate (k - length p) key1 c1" using unf ok p by simp
        have tend: "t_end (c_conn c) = t_end (c_conn c1)" using tu(6) by (simp add: c1_def)
        have len: "length (pending c) < k \<longleftrightarrow> length (pending c1) < k - length p" using split(3) c1(4) tu(2) by auto
        have buf: "c_msgBuf c @ plain = c_msgBuf c1 @ unmask (h_Masked h) key1 (take (k - length p) (pending c1))"
          using less.prems(4) ok c1(4) by (simp add: c1_def split unmask_append)
        show ?thesis using ih [of key1, folded st1] unfolding loop tend len buf split(2) er(2) [symmetric] c1(4) [symmetric] .
      qed
    qed
  qed
qed

lemma drainWindow_refines:
  assumes r: "readable c" and l: "0 \<le> h_Length h" and v: "v_state (c_utf8v c) \<noteq> reject"
    and n: "n = min (c_r1 c - c_r0 c) (nat (h_Length h))"
    and x: "x = unmask (h_Masked h) (h_MaskKey h) (take n (pending c))"
    and st: "st = runIf validate (v_state (c_utf8v c)) x"
  shows "if st = reject then \<exists>key c1. drainWindow h validate c = (False, h_Length h, key, c1) \<and> erase c1 = erase c
    else \<exists>c1. drainWindow h validate c =
        (True, h_Length h - int n, keyAfter (h_Masked h) (h_MaskKey h) (take n (pending c)), c1) \<and>
      erase c1 = erase c \<and> readable c1 \<and> pending c1 = drop n (pending c) \<and> c_msgBuf c1 = c_msgBuf c @ x \<and>
      v_state (c_utf8v c1) = st \<and> c_r1 c1 - c_r0 c1 = c_r1 c - c_r0 c - n"
proof (cases "h_Length h > 0 \<and> c_r0 c < c_r1 c")
  case False
  then have "n = 0" using l n by auto
  moreover have "drainWindow h validate c = (True, h_Length h, h_MaskKey h, c)" using False by (auto simp: drainWindow_def)
  ultimately show ?thesis using r v x st by simp
next
  case True
  have nw: "0 + n \<le> c_r1 c - c_r0 c" using n by simp
  have tk: "nat (min (int (c_r1 c - c_r0 c)) (h_Length h)) = n" using n l True by (auto simp: min_def)
  have raw: "take n (drop (c_r0 c) (c_rbuf c)) = take n (pending c)" using take_drop_window [OF r nw] by simp
  have "length (window c) = c_r1 c - c_r0 c" using r by simp
  then have len: "length x = n" using nw by (simp add: x pending_def)
  then have "0 + length x \<le> c_r1 c - c_r0 c" using nw by simp
  note ow = window_overwrite [OF r this]
  define d where "d = c\<lparr>c_rbuf := copyAt (c_rbuf c) (c_r0 c) x, c_utf8v := (c_utf8v c)\<lparr>v_state := st\<rparr>\<rparr>"
  have d: "readable d" "erase d = erase c" "pending d = x @ drop n (pending c)"
    using ow len by (simp_all add: d_def copyAt_def)
  have fk: "feedChunk validate (c_utf8v (c\<lparr>c_rbuf := copyAt (c_rbuf c) (c_r0 c) x\<rparr>)) x =
      ((c_utf8v c)\<lparr>v_state := st\<rparr>, st \<noteq> reject)" using v by (simp add: feedChunk_eq st)
  have unf: "drainWindow h validate c = (if st = reject then (False, h_Length h, keyAfter (h_Masked h) (h_MaskKey h) (take n (pending c)), d)
     else (True, h_Length h - int n, keyAfter (h_Masked h) (h_MaskKey h) (take n (pending c)),
       d\<lparr>c_msgBuf := c_msgBuf c @ x, c_r0 := c_r0 c + n\<rparr>))"
    unfolding drainWindow_def Let_def tk raw unmaskChunk_eq prod.case x [symmetric] fk
    using True by (simp add: d_def)
  have "n \<le> c_r1 d - c_r0 d" using nw by (simp add: d_def)
  note cons = window_consume [OF d(1) this]
  define c1 where "c1 = d\<lparr>c_msgBuf := c_msgBuf c @ x, c_r0 := c_r0 c + n\<rparr>"
  have "c1 = (d\<lparr>c_r0 := c_r0 d + n\<rparr>)\<lparr>c_msgBuf := c_msgBuf c @ x\<rparr>" by (simp add: c1_def d_def)
  then have "readable c1" "erase c1 = erase c" "pending c1 = drop n (pending c)"
    using cons d(2,3) len by simp_all
  then show ?thesis using unf d(2) by (auto simp: c1_def d_def)
qed

lemma readFramePayload_refines:
  assumes r: "readable c" and l: "0 \<le> h_Length h" and v: "v_state (c_utf8v c) \<noteq> reject"
    and small: "int (length (c_msgBuf c)) + h_Length h < maxAlloc"
    and n: "n = nat (h_Length h)" and val: "validate = (c_msgIsText c \<and> \<not> c_skipUTF8 c \<and> \<not> c_msgCompressed c)"
    and plain: "plain = unmask (h_Masked h) (h_MaskKey h) (take n (pending c))"
    and st: "st = runIf validate (v_state (c_utf8v c)) plain"
  shows "\<exists>c1. erase c1 = erase c \<and> (if int (length (c_msgBuf c)) + h_Length h > c_readLimit c
      then readFramePayload h c = map_prod Some id (failClose CloseMessageTooBig (B ''message exceeds read limit'') c1)
    else if st = reject then readFramePayload h c =
        map_prod Some id (failClose CloseInvalidFramePayloadData (B ''invalid UTF-8 in text message'') c1)
    else if length (pending c) < n then readFramePayload h c = map_prod Some id (ioError (t_end (c_conn c)) c1)
    else readFramePayload h c = (None, c1) \<and> readable c1 \<and> pending c1 = drop n (pending c) \<and>
        c_msgBuf c1 = c_msgBuf c @ plain \<and> v_state (c_utf8v c1) = st)"
proof -
  have i64: "i64 (int (length (c_msgBuf c)) + h_Length h) = int (length (c_msgBuf c)) + h_Length h"
    using small l by (intro i64_id) (simp add: int64_range_def maxAlloc_def)
  show ?thesis
  proof (cases "int (length (c_msgBuf c)) + h_Length h > c_readLimit c")
    case True
    then show ?thesis by (auto simp: readFramePayload_def i64 map_prod_def case_prod_beta)
  next
    case lim: False
    define m where "m = min (c_r1 c - c_r0 c) n"
    define x where "x = unmask (h_Masked h) (h_MaskKey h) (take m (pending c))"
    define st1 where "st1 = runIf validate (v_state (c_utf8v c)) x"
    define key where "key = keyAfter (h_Masked h) (h_MaskKey h) (take m (pending c))"
    have mn: "m \<le> n" by (simp add: m_def)
    have lw: "length (window c) = c_r1 c - c_r0 c" using r by simp
    then have mlen: "m \<le> length (pending c)" by (simp add: m_def pending_def)
    have "take n (pending c) = take m (pending c) @ take (n - m) (drop m (pending c))"
      using mn by (metis le_add_diff_inverse take_add)
    then have pl: "plain = x @ unmask (h_Masked h) key (take (n - m) (drop m (pending c)))"
      and st': "st = runIf validate st1 (unmask (h_Masked h) key (take (n - m) (drop m (pending c))))"
      using plain st by (simp_all add: unmask_append runIf_append x_def key_def st1_def)
    note dr = drainWindow_refines [OF r l v m_def [unfolded n] x_def st1_def, folded key_def]
    note unf0 = readFramePayload_def [of h c, unfolded Let_def i64 val [symmetric] if_not_P [OF lim]]
    show ?thesis
    proof (cases "st1 = reject")
      case True
      with dr obtain k c1 where "drainWindow h validate c = (False, h_Length h, k, c1)" "erase c1 = erase c" by auto
      then show ?thesis using unf0 lim st' True
        by (intro exI [of _ c1]) (simp add: map_prod_def case_prod_beta)
    next
      case False
      with dr obtain c1 where dw: "drainWindow h validate c = (True, h_Length h - int m, key, c1)"
        and c1: "erase c1 = erase c" and ok: "readable c1" "pending c1 = drop m (pending c)" "c_msgBuf c1 = c_msgBuf c @ x"
        "v_state (c_utf8v c1) = st1" "c_r1 c1 - c_r0 c1 = c_r1 c - c_r0 c - m" by auto
      have unf: "readFramePayload h c = (if h_Length h - int m = 0 then (None, c1)
         else if int (length (c_msgBuf c1)) + (h_Length h - int m) \<ge> maxAlloc then (Some GoPanic, c1)
         else directLoop h validate (nat (h_Length h - int m)) key c1)"
        using unf0 dw by simp
      show ?thesis
      proof (cases "m = n")
        case True
        then show ?thesis using unf False ok c1 lim st' pl l n mlen by (intro exI [of _ c1]) simp
      next
        case mlt: False
        have k: "nat (h_Length h - int m) = n - m" using n by simp
        have empty: "c_r0 c1 = c_r1 c1" using ok mlt mn n by (auto simp: m_def readable_def)
        have "\<not> int (length (c_msgBuf c1)) + (h_Length h - int m) \<ge> maxAlloc"
        proof -
          have "length x = m" using mlen by (simp add: x_def)
          then show ?thesis using ok small by simp
        qed
        then have unf': "readFramePayload h c = directLoop h validate (n - m) key c1"
          using unf False ok k mlt mn l n by auto
        have v1: "v_state (c_utf8v c1) \<noteq> reject" using ok False by simp
        have tend: "t_end (c_conn c1) = t_end (c_conn c)" using arg_cong [OF c1, of "\<lambda>x. t_end (c_conn x)"] by simp
        have "length (drop m (pending c)) < n - m \<longleftrightarrow> length (pending c) < n" using mlen mlt mn by auto
        moreover have "drop (n - m) (drop m (pending c)) = drop n (pending c)" using mn by simp
        ultimately show ?thesis
          using directLoop_refines [OF ok(1) empty v1 refl refl, where h = h and key = key and k = "n - m" and validate = validate] unf' ok c1 lim st' pl tend
          by (simp cong: if_cong)
      qed
    qed
  qed
qed

section \<open>Control frames and messages\<close>

lemma handleControl_refines:
  assumes r: "readable c" and l: "h_Length h \<le> 125" and n: "n = nat (h_Length h)"
  shows "\<exists>c1. erase c1 = erase c \<and> (if length (pending c) < n
      then handleControl h c = map_prod Some id (ioError (t_end (c_conn c)) c1)
    else readable c1 \<and> pending c1 = drop n (pending c) \<and> c_utf8v c1 = c_utf8v c \<and> c_msgBuf c1 = c_msgBuf c \<and>
      handleControl h c = dispatchControl (h_Opcode h) (unmask (h_Masked h) (h_MaskKey h) (take n (pending c))) c1)"
proof -
  have "n \<le> 128" using l n by simp
  note en = ensure_refines [OF r this]
  note unf = handleControl_def [of h c, unfolded Let_def n [symmetric]]
  show ?thesis
  proof (cases "length (pending c) < n")
    case True
    then obtain c1 where "ensure n c = (Some (t_end (c_conn c)), c1)" "refilled c c1" using en by auto
    then show ?thesis using unf True by (auto simp: refilled_def map_prod_def case_prod_beta intro!: exI [of _ c1])
  next
    case False
    then obtain c1 where c1: "ensure n c = (None, c1)" "refilled c c1" "0 + n \<le> c_r1 c1 - c_r0 c1" using en by auto
    then have rf: "readable c1" "pending c1 = pending c" "erase c1 = erase c" "c_utf8v c1 = c_utf8v c" "c_msgBuf c1 = c_msgBuf c"
      by (simp_all add: refilled_def)
    define x where "x = unmask (h_Masked h) (h_MaskKey h) (take n (pending c))"
    have raw: "take n (drop (c_r0 c1) (c_rbuf c1)) = take n (pending c)" using take_drop_window [OF rf(1) c1(3)] rf(2) by simp
    have xl: "length x = n" using False by (simp add: x_def)
    then have "0 + length x \<le> c_r1 c1 - c_r0 c1" using c1(3) by simp
    note ow = window_overwrite [OF rf(1) this]
    define d where "d = c1\<lparr>c_rbuf := copyAt (c_rbuf c1) (c_r0 c1 + 0) x\<rparr>"
    have "n \<le> c_r1 d - c_r0 d" using c1(3) by (simp add: d_def)
    note cons = window_consume [OF ow(1) [folded d_def] this]
    have "handleControl h c = dispatchControl (h_Opcode h) x (d\<lparr>c_r0 := c_r0 d + n\<rparr>)"
      using unf c1(1) raw by (simp add: unmaskChunk_eq x_def [symmetric] d_def)
    then show ?thesis using False cons ow rf xl
      by (intro exI [of _ "d\<lparr>c_r0 := c_r0 d + n\<rparr>"]) (simp add: d_def x_def copyAt_def)
  qed
qed

lemma wrote_readable:
  assumes "wrote c c'" "readable c"
  shows "readable c'" "pending c' = pending c" "c_utf8v c' = c_utf8v c" "c_msgBuf c' = c_msgBuf c"
  using assms by (auto simp: wrote_def readable_def pending_def window_def incoming_def steady_def)

lemma teardown_tornDown [simp]: "c_tornDown (teardown c)"
  by (simp add: teardown_def Let_def)

lemma failClose_tornDown [simp]: "c_tornDown (snd (failClose code reason c))"
  by (simp add: failClose_def Let_def case_prod_beta)

lemma ioError_tornDown: "c_readErr c = None \<Longrightarrow> c_tornDown (snd (ioError e c))"
  by (simp add: ioError_def)

lemma handleClose_tornDown [simp]: "c_tornDown (snd (handleClose payload c))"
  by (auto simp: handleClose_def Let_def case_prod_beta split: sum.split)

lemma dispatchControl_readable:
  assumes "readable c" "dispatchControl op payload c = (r, c')"
  shows "c_tornDown c' \<and> r \<noteq> None \<or> readable c' \<and> pending c' = pending c \<and> c_utf8v c' = c_utf8v c \<and> c_msgBuf c' = c_msgBuf c"
proof -
  have w: "wrote c (snd (writeControl OpcodePong payload c))" by (rule wrote_writeControl)
  show ?thesis using assms(2) wrote_readable [OF w assms(1)] assms(1) handleClose_tornDown [of payload c]
    by (auto simp: dispatchControl_def simp del: handleClose_tornDown split: if_splits prod.splits option.splits)
qed

end
