(* ===== verification/Message_Spec.thy ===== *)
theory Message_Spec
  imports Reader_Spec
begin

text \<open>
  The parser a reader implements: messages from a byte stream, frame by frame, with the control frames
  answered on the way, and the theorem that \<^verbatim>\<open>ReadMessage\<close> implements it.
\<close>

lemma adaptReadBuffer_refines:
  assumes r: "readable c" and l: "0 \<le> n"
  shows "readable (adaptReadBuffer n c)" "pending (adaptReadBuffer n c) = pending c"
    "erase (adaptReadBuffer n c) = erase c" "c_utf8v (adaptReadBuffer n c) = c_utf8v c"
    "c_msgBuf (adaptReadBuffer n c) = c_msgBuf c"
proof -
  define s where "s = poolStorage (n + int MaxHeaderSize)"
  have "readable (adaptReadBuffer n c) \<and> pending (adaptReadBuffer n c) = pending c"
  proof (cases "n > c_readLimit c \<or> n \<le> int (length (c_rbuf c)) \<or> n > maxAdaptiveReadSize")
    case True
    then show ?thesis using r by (auto simp: adaptReadBuffer_def)
  next
    case False
    then have s: "128 \<le> length s" "length s \<le> 2 ^ 18" "n + int MaxHeaderSize \<le> int (length s)"
      using l length_poolStorage [of "n + int MaxHeaderSize"]
      by (auto simp: s_def maxAdaptiveReadSize_def MaxHeaderSize_def pool_consts)
    have "length (window c) \<le> length (c_rbuf c)" by (simp add: window_def)
    then have w: "length (window c) \<le> length s" using False s(3) by simp
    have new: "adaptReadBuffer n c = c\<lparr>c_rbuf := copyAt s 0 (window c), c_r0 := 0, c_r1 := length (window c)\<rparr>"
      using False by (simp add: adaptReadBuffer_def window_def s_def)
    have "window (adaptReadBuffer n c) = window c" using w by (simp add: new window_def [of "c\<lparr>c_rbuf := _, c_r0 := _, c_r1 := _\<rparr>"] copyAt_def)
    moreover have "readable (adaptReadBuffer n c)"
      using r s w by (auto simp: new readable_def maxAlloc_def copyAt_def)
    ultimately show ?thesis by (simp add: pending_def new)
  qed
  then show "readable (adaptReadBuffer n c)" "pending (adaptReadBuffer n c) = pending c" by blast+
  show "erase (adaptReadBuffer n c) = erase c" "c_utf8v (adaptReadBuffer n c) = c_utf8v c"
    "c_msgBuf (adaptReadBuffer n c) = c_msgBuf c"
    by (simp_all add: adaptReadBuffer_def erase_def Let_def)
qed

section \<open>The parser\<close>

text \<open>
  \<open>specData h msgOp buf st ps a\<close>: the payload of a data frame with header \<open>h\<close> at the front of the stream
  \<open>ps\<close>. \<open>buf\<close> is the payload so far, \<open>st\<close> the state of its UTF-8 text, \<open>a\<close> the connection without its read
  side. \<^const>\<open>Inl\<close> is the outcome of the message with the connection and the rest of the stream, \<^const>\<open>Inr\<close> the
  payload and the text state to go on with. \<open>GoPanic\<close> marks lengths the code cannot handle: a message
  whose length leaves \<^verbatim>\<open>int64\<close>, and one within the limit that no slice can hold.
\<close>

definition specData :: "Header \<Rightarrow> Opcode \<Rightarrow> bytes \<Rightarrow> dfaState \<Rightarrow> bytes \<Rightarrow> 'w Conn \<Rightarrow>
    ((connErr + Opcode \<times> bytes) \<times> 'w Conn \<times> bytes) + bytes \<times> dfaState" where
  "specData h msgOp buf st ps a =
     (let n = nat (h_Length h);
          plain = unmask (h_Masked h) (h_MaskKey h) (take n ps);
          rest = drop n ps;
          fail = (\<lambda>r. Inl (Inl (fst r), snd r, ps));
          validate = (c_msgIsText a \<and> \<not> c_skipUTF8 a \<and> \<not> c_msgCompressed a);
          st = runIf validate st plain;
          size = int (length buf) + h_Length h in
      if size \<ge> 2 ^ 63 then Inl (Inl GoPanic, a, ps)
      else if size > c_readLimit a then
        fail (failClose CloseMessageTooBig (B ''message exceeds read limit'') a)
      else if size \<ge> maxAlloc then Inl (Inl GoPanic, a, ps)
      else if st = reject then
        fail (failClose CloseInvalidFramePayloadData (B ''invalid UTF-8 in text message'') a)
      else if length ps < n then fail (ioError (t_end (c_conn a)) a)
      else if \<not> h_Fin h then Inr (buf @ plain, st)
      else if c_msgCompressed a then
        (case finishCompressedMessage (a\<lparr>c_msgBuf := buf @ plain\<rparr>) of
           (Inl e, a) \<Rightarrow> Inl (Inl e, erase a, rest)
         | (Inr decoded, a) \<Rightarrow> Inl (Inr (msgOp, decoded), erase a, rest))
      else if validate \<and> st \<noteq> accept then
        fail (failClose CloseInvalidFramePayloadData (B ''incomplete UTF-8 sequence at message end'') a)
      else Inl (Inr (msgOp, buf @ plain), a, rest))"

text \<open>The opening frame decides the kind of the message.\<close>

definition specBegin :: "Header \<Rightarrow> 'w Conn \<Rightarrow> 'w Conn" where
  "specBegin h a = (if isOpening h
     then a\<lparr>c_msgIsText := (h_Opcode h = OpcodeText), c_msgCompressed := (h_Rsv h = RSV1)\<rparr> else a)"

function specLoop :: "bool \<Rightarrow> Opcode \<Rightarrow> bytes \<Rightarrow> dfaState \<Rightarrow> bytes \<Rightarrow> 'w Conn \<Rightarrow>
    (connErr + Opcode \<times> bytes) \<times> 'w Conn \<times> bytes" where
  "specLoop inMessage msgOp buf st ps a =
     (case decodeFor (c_client a) (c_compression a) ps of
        Inl reason \<Rightarrow>
          let r = (if reason = rejectShort then ioError (t_end (c_conn a)) a
            else failClose CloseProtocolError (closeMessage reason (c_client a)) a) in (Inl (fst r), snd r, ps)
      | Inr (h, k) \<Rightarrow>
          let ps = drop k ps;
              n = nat (h_Length h);
              fail = (\<lambda>r. (Inl (fst r), snd r, ps)) in
          if IsControl (h_Opcode h) then
            if length ps < n then fail (ioError (t_end (c_conn a)) a)
            else case dispatchControl (h_Opcode h) (unmask (h_Masked h) (h_MaskKey h) (take n ps)) a of
              (Some e, a) \<Rightarrow> (Inl e, a, drop n ps)
            | (None, a) \<Rightarrow> specLoop inMessage msgOp buf st (drop n ps) a
          else if isOpening h \<and> inMessage then
            fail (failClose CloseProtocolError (B ''new data frame while awaiting continuation'') a)
          else if h_Opcode h = OpcodeContinuation \<and> \<not> inMessage then
            fail (failClose CloseProtocolError (B ''continuation frame with no message in progress'') a)
          else
            let msgOp = (if isOpening h then h_Opcode h else msgOp) in
            case specData h msgOp buf st ps (specBegin h a) of
              Inl r \<Rightarrow> r
            | Inr (buf, st) \<Rightarrow> specLoop True msgOp buf st (drop n ps) (specBegin h a))"
  by pat_completeness auto
termination
  by (relation "measure (\<lambda>(_, _, _, _, ps, _). length ps)")
    (auto dest!: decodeFor_consumed simp: Let_def)

declare specLoop.simps [simp del]

section \<open>The reader agrees with the parser\<close>

text \<open>The connection after a call: without its read side as the parser left it, and unless it was torn
  down still readable, with the parser's rest of the stream to come.\<close>

definition agrees :: "'w Conn \<Rightarrow> 'w Conn \<Rightarrow> bytes \<Rightarrow> bool" where
  "agrees c a ps \<longleftrightarrow> erase c = a \<and> (c_tornDown c \<or> readable c \<and> pending c = ps)"

lemma erase_eq_fields:
  assumes "erase c = erase d"
  shows "c_mode c = c_mode d" "c_readErr c = c_readErr d" "c_client c = c_client d" "c_compression c = c_compression d"
    "t_end (c_conn c) = t_end (c_conn d)" "c_readLimit c = c_readLimit d" "c_skipUTF8 c = c_skipUTF8 d"
    "c_msgIsText c = c_msgIsText d" "c_msgCompressed c = c_msgCompressed d" "c_deflate c = c_deflate d" "c_active c = c_active d"
    "c_tornDown c = c_tornDown d"
  using arg_cong [OF assms, of c_mode] arg_cong [OF assms, of c_readErr] arg_cong [OF assms, of c_client]
    arg_cong [OF assms, of c_compression] arg_cong [OF assms, of "\<lambda>x. t_end (c_conn x)"]
    arg_cong [OF assms, of c_readLimit] arg_cong [OF assms, of c_skipUTF8] arg_cong [OF assms, of c_msgIsText]
    arg_cong [OF assms, of c_msgCompressed] arg_cong [OF assms, of c_deflate] arg_cong [OF assms, of c_active]
    arg_cong [OF assms, of c_tornDown] by simp_all

lemma failClose_agrees:
  assumes "erase c1 = erase c" "c_mode c \<noteq> connModeFrame"
  shows "fst (failClose code reason c1) = fst (failClose code reason (erase c))"
    "agrees (snd (failClose code reason c1)) (snd (failClose code reason (erase c))) ps"
proof -
  have "c_mode c1 \<noteq> connModeFrame" using erase_eq_fields(1) [OF assms(1)] assms(2) by simp
  then have eq: "failClose code reason (erase c) = map_prod id erase (failClose code reason c1)"
    using failClose_erase [of c1] assms(1) by simp
  show "fst (failClose code reason c1) = fst (failClose code reason (erase c))" by (simp add: eq)
  show "agrees (snd (failClose code reason c1)) (snd (failClose code reason (erase c))) ps"
    by (simp add: eq agrees_def)
qed

lemma ioError_agrees:
  assumes "erase c1 = erase c" "readable c"
  shows "fst (ioError e c1) = fst (ioError e (erase c))"
    "agrees (snd (ioError e c1)) (snd (ioError e (erase c))) ps"
proof -
  have m: "c_mode c1 \<noteq> connModeFrame" "c_readErr c1 = None"
    using erase_eq_fields [OF assms(1)] assms(2) by (simp_all add: readable_def)
  then have eq: "ioError e (erase c) = map_prod id erase (ioError e c1)"
    using ioError_erase [of c1] assms(1) by simp
  show "fst (ioError e c1) = fst (ioError e (erase c))" by (simp add: eq)
  show "agrees (snd (ioError e c1)) (snd (ioError e (erase c))) ps"
    using ioError_tornDown [OF m(2)] by (simp add: eq agrees_def)
qed

lemma finishCompressedMessage_agrees:
  assumes r: "readable c" and f: "finishCompressedMessage ((erase c)\<lparr>c_msgBuf := c_msgBuf c\<rparr>) = (res, a)"
    and res: "res \<noteq> Inl GoPanic"
  shows "\<exists>c'. finishCompressedMessage c = (res, c') \<and> agrees c' (erase a) (pending c)"
proof -
  obtain dr ds where dm: "decompressMessage exactGrow (c_active c) (c_deflate c) (c_readLimit c) 0 (c_msgBuf c) = (dr, ds)"
    by fastforce
  define c1 where "c1 = c\<lparr>c_deflate := ds\<rparr>"
  define d where "d = ((erase c)\<lparr>c_msgBuf := c_msgBuf c\<rparr>)\<lparr>c_deflate := ds\<rparr>"
  have er: "erase c1 = erase d" by (simp add: c1_def d_def erase_def)
  have m: "c_mode d \<noteq> connModeFrame" "c_mode c1 \<noteq> connModeFrame"
    using r by (simp_all add: d_def c1_def readable_def)
  have fc: "fst (failClose code reason c1) = fst (failClose code reason d)"
    "agrees (snd (failClose code reason c1)) (erase (snd (failClose code reason d))) ps" for code reason ps
    using failClose_agrees(1) [OF er m(1), of code reason] failClose_agrees(2) [OF er m(1), of code reason ps]
      failClose_erase [OF m(1), of code reason] by simp_all
  have rd: "agrees c1 (erase d) (pending c)"
    using r er by (simp add: agrees_def c1_def readable_def pending_def window_def)
  show ?thesis using f res dm fc rd m
    by (auto simp: finishCompressedMessage_def Let_def failWith_def c1_def [symmetric] d_def [symmetric]
        split: sum.splits decompressErr.splits if_splits)
      (auto simp: c1_def d_def)
qed

lemma readFramePayload_tooBig:
  assumes "int (length (c_msgBuf c)) + h_Length h > c_readLimit c" "0 \<le> h_Length h"
    "int (length (c_msgBuf c)) + h_Length h < 2 ^ 63"
  shows "readFramePayload h c = map_prod Some id (failClose CloseMessageTooBig (B ''message exceeds read limit'') c)"
proof -
  have "i64 (int (length (c_msgBuf c)) + h_Length h) = int (length (c_msgBuf c)) + h_Length h"
    using assms by (intro i64_id) (simp add: int64_range_def)
  then show ?thesis using assms(1) by (simp add: readFramePayload_def map_prod_def case_prod_beta)
qed

lemma failClose_not_panic [simp]: "fst (failClose code reason c) \<noteq> GoPanic" "GoPanic \<noteq> fst (failClose code reason c)"
  by (simp_all add: failClose_def Let_def case_prod_beta)

lemma finishMessage_fails:
  assumes "finishCompressedMessage ((erase c)\<lparr>c_msgBuf := c_msgBuf c\<rparr>) = (Inl e, d)" "c_msgCompressed c"
  shows "\<exists>e c'. finishMessage op c = (Inl e, c')"
  using assms by (auto simp: finishMessage_def finishCompressedMessage_def Let_def failWith_def
      split: sum.splits decompressErr.splits if_splits prod.splits)

text \<open>A message whose length leaves \<^verbatim>\<open>int64\<close> is never taken: the call fails or panics.\<close>

lemma readFramePayload_huge:
  assumes r: "readable c" and l: "0 \<le> h_Length h" and v: "v_state (c_utf8v c) \<noteq> reject"
    and b: "int (length (c_msgBuf c)) < maxAlloc" and huge: "2 ^ 63 \<le> int (length (c_msgBuf c)) + h_Length h"
  shows "\<exists>e c'. readFramePayload h c = (Some e, c')"
proof -
  define validate where "validate = (c_msgIsText c \<and> \<not> c_skipUTF8 c \<and> \<not> c_msgCompressed c)"
  define n where "n = min (c_r1 c - c_r0 c) (nat (h_Length h))"
  define x where "x = unmask (h_Masked h) (h_MaskKey h) (take n (pending c))"
  have len: "length (window c) = c_r1 c - c_r0 c" using r by simp
  have n: "int n < maxAlloc" using r by (auto simp: n_def readable_def)
  have "length x = n" using len by (simp add: x_def n_def pending_def)
  with drainWindow_refines [OF r l v n_def x_def refl, of validate] show ?thesis using n b huge
    by (cases "runIf validate (v_state (c_utf8v c)) x = reject")
      (auto simp: readFramePayload_def validate_def [symmetric] maxAlloc_def split: prod.split)
qed

lemma contiguous_agrees:
  assumes r: "readable c" and l: "0 \<le> h_Length h" "h_Length h \<le> int (length (c_rbuf c))"
    and v: "v_state (c_utf8v c) = st" "st \<noteq> reject" and comp: "\<not> c_msgCompressed c" and fin: "h_Fin h"
    and spec: "specData h op [] st (pending c) (erase c) = Inl (res, a, ps)"
  shows "\<exists>c'. (case readContiguousPayload h c of (Inl e, c) \<Rightarrow> (Inl e, c) | (Inr p, c) \<Rightarrow> (Inr (op, p), c)) = (res, c') \<and>
    agrees c' a ps"
proof -
  define n where "n = nat (h_Length h)"
  define validate where "validate = (c_msgIsText c \<and> \<not> c_skipUTF8 c)"
  define plain where "plain = unmask (h_Masked h) (h_MaskKey h) (take n (pending c))"
  define st' where "st' = runIf validate st plain"
  have n: "n \<le> length (c_rbuf c)" "int n = h_Length h" using l by (simp_all add: n_def)
  have small: "h_Length h < maxAlloc" using l r by (simp add: readable_def)
  have mode: "c_mode c \<noteq> connModeFrame" using r by (simp add: readable_def)
  obtain c1 where er: "erase c1 = erase c" and ref: "if int n > c_readLimit c then readContiguousPayload h c =
        failWith (failClose CloseMessageTooBig (B ''message exceeds read limit'') c1)
    else if st' = reject then readContiguousPayload h c =
        failWith (failClose CloseInvalidFramePayloadData (B ''invalid UTF-8 in text message'') c1)
    else if length (pending c) < n then readContiguousPayload h c = failWith (ioError (t_end (c_conn c)) c1)
    else if validate \<and> st' \<noteq> accept then readContiguousPayload h c =
        failWith (failClose CloseInvalidFramePayloadData (B ''incomplete UTF-8 sequence at message end'') c1)
    else readContiguousPayload h c = (Inr plain, c1) \<and> readable c1 \<and> pending c1 = drop n (pending c)"
    using readContiguousPayload_refines [OF r n_def n(1) _ validate_def plain_def, of st'] v st'_def by auto
  note fc = failClose_agrees [OF er mode] and io = ioError_agrees [OF er r]
  have sp: "specData h op [] st (pending c) (erase c) = Inl (if int n > c_readLimit c
      then (Inl (fst (failClose CloseMessageTooBig (B ''message exceeds read limit'') (erase c))),
        snd (failClose CloseMessageTooBig (B ''message exceeds read limit'') (erase c)), pending c)
    else if st' = reject
      then (Inl (fst (failClose CloseInvalidFramePayloadData (B ''invalid UTF-8 in text message'') (erase c))),
        snd (failClose CloseInvalidFramePayloadData (B ''invalid UTF-8 in text message'') (erase c)), pending c)
    else if length (pending c) < n
      then (Inl (fst (ioError (t_end (c_conn c)) (erase c))), snd (ioError (t_end (c_conn c)) (erase c)), pending c)
    else if validate \<and> st' \<noteq> accept
      then (Inl (fst (failClose CloseInvalidFramePayloadData (B ''incomplete UTF-8 sequence at message end'') (erase c))),
        snd (failClose CloseInvalidFramePayloadData (B ''incomplete UTF-8 sequence at message end'') (erase c)), pending c)
    else (Inr (op, plain), erase c, drop n (pending c)))"
    unfolding specData_def Let_def n_def [symmetric] plain_def [symmetric]
    using small fin comp n(2) by (simp add: validate_def [symmetric] st'_def [symmetric] maxAlloc_def)
  show ?thesis using ref spec [unfolded sp] er
    by (cases "int n > c_readLimit c"; cases "st' = reject"; cases "length (pending c) < n"; cases "validate \<and> st' \<noteq> accept")
      (auto simp: failWith_def fc io agrees_def [of c1])
qed

lemma finishMessage_agrees:
  assumes r: "readable c" and v: "v_state (c_utf8v c) = st"
    and spec: "(res, a, ps) = (if c_msgCompressed c then
        (case finishCompressedMessage ((erase c)\<lparr>c_msgBuf := c_msgBuf c\<rparr>) of
           (Inl e, a) \<Rightarrow> (Inl e, erase a, pending c)
         | (Inr decoded, a) \<Rightarrow> (Inr (op, decoded), erase a, pending c))
      else if c_msgIsText c \<and> \<not> c_skipUTF8 c \<and> st \<noteq> accept then
        (Inl (fst (failClose CloseInvalidFramePayloadData (B ''incomplete UTF-8 sequence at message end'') (erase c))),
         snd (failClose CloseInvalidFramePayloadData (B ''incomplete UTF-8 sequence at message end'') (erase c)), ps)
      else (Inr (op, c_msgBuf c), erase c, pending c))"
    and res: "res \<noteq> Inl GoPanic"
  shows "\<exists>c'. finishMessage op c = (res, c') \<and> agrees c' a ps"
proof (cases "c_msgCompressed c")
  case True
  obtain x d where f: "finishCompressedMessage ((erase c)\<lparr>c_msgBuf := c_msgBuf c\<rparr>) = (x, d)" by fastforce
  have eqs: "res = (case x of Inl e \<Rightarrow> Inl e | Inr dec \<Rightarrow> Inr (op, dec))" "a = erase d" "ps = pending c"
    using spec True f by (auto split: sum.splits)
  then have "x \<noteq> Inl GoPanic" using res by auto
  then obtain c' where "finishCompressedMessage c = (x, c')" "agrees c' (erase d) (pending c)"
    using finishCompressedMessage_agrees [OF r f] by blast
  then show ?thesis using True eqs by (auto simp: finishMessage_def split: sum.split)
next
  case False
  have "c_mode c \<noteq> connModeFrame" using r by (simp add: readable_def)
  note fc = failClose_agrees [OF refl this]
  show ?thesis using False spec v fc r
    by (auto simp: finishMessage_def Done_def failWith_def agrees_def split: if_splits)
qed

text \<open>
  The outcome of a call against the outcome of the parser. Where the parser reports a panic the call fails
  in some way, unless the read limit is one that no slice can hold.
\<close>

definition outcome :: "int \<Rightarrow> (connErr + Opcode \<times> bytes) \<times> 'w Conn \<Rightarrow> connErr + Opcode \<times> bytes \<Rightarrow> 'w Conn \<Rightarrow> bytes \<Rightarrow> bool" where
  "outcome limit r res a ps \<longleftrightarrow> (\<exists>c'. r = (res, c') \<and> agrees c' a ps) \<or>
     res = Inl GoPanic \<and> (limit < maxAlloc \<longrightarrow> (\<exists>e c'. r = (Inl e, c')))"

lemma outcomeI: "r = (res, c') \<Longrightarrow> agrees c' a ps \<Longrightarrow> outcome limit r res a ps"
  by (simp add: outcome_def)

lemma outcome_panic: "r = (Inl e, c') \<Longrightarrow> outcome limit r (Inl GoPanic) a ps"
  by (simp add: outcome_def)

lemma outcome_ok: "outcome limit r res a ps \<Longrightarrow> res \<noteq> Inl GoPanic \<Longrightarrow> \<exists>c'. r = (res, c') \<and> agrees c' a ps"
  by (simp add: outcome_def)

lemma outcome_error: "outcome limit r (Inl e) a ps \<Longrightarrow> limit < maxAlloc \<Longrightarrow> \<exists>e c'. r = (Inl e, c')"
  by (auto simp: outcome_def)

lemma frame_agrees:
  assumes r: "readable c" and l: "0 \<le> h_Length h" and v: "v_state (c_utf8v c) = st" "st \<noteq> reject"
    and b: "int (length (c_msgBuf c)) < maxAlloc"
    and spec: "specData h op (c_msgBuf c) st (pending c) (erase c) = x"
  shows "case x of
      Inl (res, a, ps) \<Rightarrow> outcome (c_readLimit c) (case readFramePayload h c of (Some e, c) \<Rightarrow> (Inl e, c)
        | (None, c) \<Rightarrow> if h_Fin h then finishMessage op c else k c) res a ps
    | Inr (buf, st') \<Rightarrow> st' \<noteq> reject \<and> int (length buf) < maxAlloc \<and> \<not> h_Fin h \<and> (\<exists>c'. readFramePayload h c = (None, c') \<and> readable c' \<and>
        erase c' = erase c \<and> pending c' = drop (nat (h_Length h)) (pending c) \<and> c_msgBuf c' = buf \<and> v_state (c_utf8v c') = st')"
proof -
  define n where "n = nat (h_Length h)"
  define validate where "validate = (c_msgIsText c \<and> \<not> c_skipUTF8 c \<and> \<not> c_msgCompressed c)"
  define plain where "plain = unmask (h_Masked h) (h_MaskKey h) (take n (pending c))"
  define st' where "st' = runIf validate (v_state (c_utf8v c)) plain"
  define size where "size = int (length (c_msgBuf c)) + h_Length h"
  have mode: "c_mode c \<noteq> connModeFrame" using r by (simp add: readable_def)
  have rej: "v_state (c_utf8v c) \<noteq> reject" using v by simp
  note sp = specData_def [of h op "c_msgBuf c" st "pending c" "erase c", unfolded Let_def erase_fields,
      folded n_def, folded plain_def validate_def v(1), folded st'_def size_def]
  note spec' = spec [folded v(1), unfolded sp]
  consider "size \<ge> 2 ^ 63 \<or> \<not> size > c_readLimit c \<and> size \<ge> maxAlloc" | "size < 2 ^ 63" "size > c_readLimit c"
    | "size < 2 ^ 63" "\<not> size > c_readLimit c" "size < maxAlloc" by linarith
  then show ?thesis
  proof cases
    case 1
    then have x: "x = Inl (Inl GoPanic, erase c, pending c)" using spec' by (auto split: if_splits)
    have "\<exists>e c'. readFramePayload h c = (Some e, c')" if "c_readLimit c < maxAlloc"
      using readFramePayload_huge [OF r l rej b] 1 that by (auto simp: size_def)
    then show ?thesis by (auto simp: x outcome_def)
  next
    case 2
    then show ?thesis using spec' l readFramePayload_tooBig [of c h] failClose_agrees [OF refl mode]
      by (auto simp: size_def failWith_map failWith_def outcome_def)
  next
    case 3
    from readFramePayload_refines [OF r l rej 3(3) [unfolded size_def] n_def validate_def plain_def st'_def] 3
    obtain c1 where er: "erase c1 = erase c" and ref: "if st' = reject then readFramePayload h c =
        map_prod Some id (failClose CloseInvalidFramePayloadData (B ''invalid UTF-8 in text message'') c1)
      else if length (pending c) < n then readFramePayload h c = map_prod Some id (ioError (t_end (c_conn c)) c1)
      else readFramePayload h c = (None, c1) \<and> readable c1 \<and> pending c1 = drop n (pending c) \<and>
        c_msgBuf c1 = c_msgBuf c @ plain \<and> v_state (c_utf8v c1) = st'"
      by (auto simp: size_def)
    show ?thesis
    proof (cases "st' = reject \<or> length (pending c) < n")
      case True
      then show ?thesis using spec' 3 ref failClose_agrees [OF er mode] ioError_agrees [OF er r]
        by (auto simp: failWith_map failWith_def outcome_def split: if_splits)
    next
      case ok: False
      then have c1: "readFramePayload h c = (None, c1)" "readable c1" "pending c1 = drop n (pending c)"
        "c_msgBuf c1 = c_msgBuf c @ plain" "v_state (c_utf8v c1) = st'" using ref by auto
      show ?thesis
      proof (cases "h_Fin h")
        case False
        moreover have "int (length plain) \<le> h_Length h" using l by (simp add: plain_def n_def)
        ultimately show ?thesis using spec' 3 ok c1 er by (auto simp: n_def size_def)
      next
        case fin: True
        note same = erase_eq_fields [OF er]
        obtain res a ps where x: "x = Inl (res, a, ps)" using spec' 3 ok fin by (auto split: if_splits sum.splits prod.splits)
        have "res \<noteq> Inl GoPanic \<Longrightarrow> \<exists>c'. finishMessage op c1 = (res, c') \<and> agrees c' a ps"
          by (rule finishMessage_agrees [OF c1(2,5)])
            (use spec' 3 ok fin x c1 er same in \<open>auto simp: validate_def split: if_splits sum.splits prod.splits\<close>)
        moreover have "\<exists>e c'. finishMessage op c1 = (Inl e, c')" if "res = Inl GoPanic"
        proof -
          have "c_msgCompressed c"
            using spec' 3 ok fin x that er
            by (auto simp: validate_def failClose_not_panic split: if_splits)
          then obtain e d where "finishCompressedMessage ((erase c1)\<lparr>c_msgBuf := c_msgBuf c1\<rparr>) = (Inl e, d)"
            using spec' 3 ok fin x that er c1(4) \<open>res = Inl GoPanic\<close> by (auto split: if_splits sum.splits prod.splits)
          then show ?thesis using finishMessage_fails [of c1] same \<open>c_msgCompressed c\<close> by blast
        qed
        ultimately show ?thesis using x c1(1) fin by (auto simp: outcome_def)
      qed
    qed
  qed
qed

lemma beginMessage_refines:
  assumes "readable c" "0 \<le> h_Length h" "isOpening h"
  shows "readable (beginMessage h c)" "pending (beginMessage h c) = pending c" "erase (beginMessage h c) = specBegin h (erase c)"
    "c_utf8v (beginMessage h c) = c_utf8v c" "c_msgBuf (beginMessage h c) = c_msgBuf c"
proof -
  define d where "d = c\<lparr>c_msgIsText := (h_Opcode h = OpcodeText), c_msgCompressed := (h_Rsv h = RSV1)\<rparr>"
  have d: "readable d" "pending d = pending c" "erase d = specBegin h (erase c)" "c_utf8v d = c_utf8v c" "c_msgBuf d = c_msgBuf c"
    using assms by (simp_all add: d_def readable_def pending_def window_def specBegin_def erase_def)
  have "beginMessage h c = d \<or> beginMessage h c = adaptReadBuffer (h_Length h) d"
    by (auto simp: beginMessage_def d_def Let_def)
  then show "readable (beginMessage h c)" "pending (beginMessage h c) = pending c" "erase (beginMessage h c) = specBegin h (erase c)"
    "c_utf8v (beginMessage h c) = c_utf8v c" "c_msgBuf (beginMessage h c) = c_msgBuf c"
    using d adaptReadBuffer_refines [OF d(1) assms(2)] by auto
qed

lemma dispatchControl_wrote: "dispatchControl op payload c = (None, c') \<Longrightarrow> wrote c c'"
  using wrote_writeControl [of c OpcodePong payload]
  by (auto simp: dispatchControl_def split: if_splits prod.splits option.splits)

lemma messageLoop_outcome:
  assumes "readable c" "v_state (c_utf8v c) = st" "st \<noteq> reject" "c_msgBuf c = buf" "inMessage \<or> buf = []"
    "specLoop inMessage msgOp buf st (pending c) (erase c) = (res, a, ps)" "int (length buf) < maxAlloc"
  shows "outcome (c_readLimit c) (messageLoop inMessage msgOp c) res a ps"
  using assms
proof (induction "length (pending c)" arbitrary: c inMessage msgOp buf st rule: less_induct)
  case less
  have mode: "c_mode c \<noteq> connModeFrame" using less.prems(1) by (simp add: readable_def)
  note spec = less.prems(6) [unfolded specLoop.simps [of inMessage msgOp buf st "pending c" "erase c"] erase_fields]
  note rh = readHeader_refines [OF less.prems(1) refl refl refl]
  show ?case
  proof (cases "decodeFor (c_client c) (c_compression c) (pending c)")
    case (Inl reason)
    with rh obtain c1 where er: "erase c1 = erase c" and "readHeader c =
        failWith (if reason = rejectShort then ioError (t_end (c_conn c)) c1
          else failClose CloseProtocolError (closeMessage reason (c_client c)) c1)" by (auto simp: refilled_def)
    then show ?thesis using spec Inl failClose_agrees [OF er mode] ioError_agrees [OF er less.prems(1)]
      by (auto intro!: outcomeI simp: messageLoop.simps [of inMessage msgOp c] failWith_def Let_def split: if_splits)
  next
    case (Inr hk)
    then obtain h k where hk: "decodeFor (c_client c) (c_compression c) (pending c) = Inr (h, k)" by (cases hk) auto
    note wf = decodeFor_consumed [OF hk]
    have l: "0 \<le> h_Length h" using wf by (simp add: wfHeader_def)
    define ps1 where "ps1 = drop k (pending c)"
    define n where "n = nat (h_Length h)"
    obtain c1 where c1: "readHeader c = (Inr h, c1)" "readable c1" "pending c1 = ps1" "erase c1 = erase c"
        "c_utf8v c1 = c_utf8v c" "c_msgBuf c1 = c_msgBuf c"
      using rh hk by (auto simp: ps1_def)
    note same = erase_eq_fields [OF c1(4)]
    have shorter: "length (drop n ps1) < length (pending c)" using wf by (auto simp: ps1_def)
    note unf = messageLoop.simps [of inMessage msgOp c, unfolded c1(1) prod.case sum.case]
    note spec = spec [unfolded hk sum.case prod.case Let_def, folded ps1_def, folded n_def]
    have mode1: "c_mode c1 \<noteq> connModeFrame" using mode same(1) by simp
    show ?thesis
    proof (cases "IsControl (h_Opcode h)")
      case True
      then have "h_Length h \<le> 125" using wf by (simp add: wfHeader_def)
      from handleControl_refines [OF c1(2) this n_def] obtain c2 where er: "erase c2 = erase c"
        and hc: "if length ps1 < n then handleControl h c1 = map_prod Some id (ioError (t_end (c_conn c)) c2)
          else readable c2 \<and> pending c2 = drop n ps1 \<and> c_utf8v c2 = c_utf8v c \<and> c_msgBuf c2 = c_msgBuf c \<and>
            handleControl h c1 = dispatchControl (h_Opcode h) (unmask (h_Masked h) (h_MaskKey h) (take n ps1)) c2"
        using c1 same(5) by auto
      show ?thesis
      proof (cases "length ps1 < n")
        case short: True
        then show ?thesis using spec True unf hc ioError_agrees [OF er less.prems(1)]
          by (auto intro!: outcomeI simp: failWith_map failWith_def)
      next
        case False
        define x where "x = unmask (h_Masked h) (h_MaskKey h) (take n ps1)"
        have c2: "readable c2" "pending c2 = drop n ps1" "c_utf8v c2 = c_utf8v c" "c_msgBuf c2 = c_msgBuf c"
          "handleControl h c1 = dispatchControl (h_Opcode h) x c2" using hc False by (simp_all add: x_def)
        obtain y c3 where dc: "dispatchControl (h_Opcode h) x c2 = (y, c3)" by fastforce
        have "c_mode c2 \<noteq> connModeFrame" using c2(1) by (simp add: readable_def)
        then have dca: "dispatchControl (h_Opcode h) x (erase c) = (y, erase c3)"
          using dispatchControl_erase [of c2 "h_Opcode h" x] er dc by simp
        note dr = dispatchControl_readable [OF c2(1) dc]
        show ?thesis
        proof (cases y)
          case (Some e)
          then show ?thesis using spec True False unf c2(5) dc dca dr c2(2)
            by (auto intro!: outcomeI simp: x_def [symmetric] agrees_def)
        next
          case None
          then have c3: "readable c3" "pending c3 = drop n ps1" "c_utf8v c3 = c_utf8v c" "c_msgBuf c3 = c_msgBuf c"
            using dr c2 by auto
          have "specLoop inMessage msgOp buf st (pending c3) (erase c3) = (res, a, ps)"
            using spec True False dca None c3(2) by (simp add: x_def)
          moreover have "c_readLimit c3 = c_readLimit c" 
            using dispatchControl_wrote [OF dc [unfolded None]] arg_cong [OF er, of c_readLimit] by (auto simp: wrote_def)
          ultimately have "outcome (c_readLimit c) (messageLoop inMessage msgOp c3) res a ps"
            using less.hyps [of c3 st buf inMessage msgOp] shorter c3 less.prems by simp
          then show ?thesis using unf True c2(5) dc None by simp
        qed
      qed
    next
      case False
      define op where "op = (if isOpening h then h_Opcode h else msgOp)"
      define c2 where "c2 = (if isOpening h then beginMessage h c1 else c1)"
      have c2: "readable c2" "pending c2 = ps1" "erase c2 = specBegin h (erase c)" "c_utf8v c2 = c_utf8v c" "c_msgBuf c2 = buf"
        using beginMessage_refines [OF c1(2) l] c1 less.prems(4) by (auto simp: c2_def specBegin_def)
      note fc = failClose_agrees [OF c1(4) mode]
      show ?thesis
      proof (cases "isOpening h \<and> inMessage \<or> h_Opcode h = OpcodeContinuation \<and> \<not> inMessage")
        case True
        then show ?thesis using spec False unf fc by (auto intro!: outcomeI simp: failWith_def split: if_splits)
      next
        case go: False
        note spec = spec [unfolded if_not_P [OF False], folded op_def c2(3)]
        note unf2 = unf [unfolded if_not_P [OF False] Let_def, folded op_def c2_def]
        have spec2: "(case specData h op (c_msgBuf c2) st (pending c2) (erase c2) of Inl r \<Rightarrow> r
            | Inr (buf, st) \<Rightarrow> specLoop True op buf st (drop n ps1) (erase c2)) = (res, a, ps)"
          using spec go by (auto simp: c2 split: if_splits)
        have v: "v_state (c_utf8v c2) = st" using c2(4) less.prems(2) by simp
        show ?thesis
        proof (cases "isOpening h \<and> \<not> c_msgCompressed c2 \<and> h_Fin h \<and> h_Length h \<le> int (length (c_rbuf c2))")
          case True
          then have opq: "h_Opcode h = op" by (simp add: op_def)
          have "buf = []" using True less.prems(5) go by auto
          moreover have "\<exists>r. specData h op (c_msgBuf c2) st (pending c2) (erase c2) = Inl r"
            using True by (simp add: specData_def Let_def)
          ultimately have "specData h op [] st (pending c2) (erase c2) = Inl (res, a, ps)" using spec2 c2(5) by auto
          from contiguous_agrees [OF c2(1) l _ v less.prems(3) _ _ this] True
          show ?thesis using unf2 go opq by (auto intro!: outcomeI)
        next
          case nc: False
          have b2: "int (length (c_msgBuf c2)) < maxAlloc" using c2(5) less.prems(7) by simp
          note fa = frame_agrees [OF c2(1) l v less.prems(3) b2 refl, of op "messageLoop True op"]
          have lim2: "c_readLimit c2 = c_readLimit c" using arg_cong [OF c2(3), of c_readLimit] by (simp add: specBegin_def)
          have loop: "messageLoop inMessage msgOp c = (case readFramePayload h c2 of (Some e, c) \<Rightarrow> (Inl e, c)
              | (None, c) \<Rightarrow> if h_Fin h then finishMessage op c else messageLoop True op c)"
            using unf2 go if_not_P [OF nc] by (auto split: if_splits)
          show ?thesis
          proof (cases "specData h op (c_msgBuf c2) st (pending c2) (erase c2)")
            case (Inl r)
            then show ?thesis using fa spec2 loop lim2 by (auto split: prod.splits)
          next
            case (Inr bs)
            then obtain b s where bs: "bs = (b, s)" by fastforce
            with fa Inr obtain c3 where c3: "s \<noteq> reject" "\<not> h_Fin h" "int (length b) < maxAlloc" "readFramePayload h c2 = (None, c3)" "readable c3"
              "erase c3 = erase c2" "pending c3 = drop n ps1" "c_msgBuf c3 = b" "v_state (c_utf8v c3) = s"
              by (auto simp: n_def c2(2))
            have "specLoop True op b s (pending c3) (erase c3) = (res, a, ps)" using spec2 Inr bs c3 by simp
            moreover have "c_readLimit c3 = c_readLimit c" using arg_cong [OF c3(6), of c_readLimit] lim2 by simp
            ultimately have "outcome (c_readLimit c) (messageLoop True op c3) res a ps"
              using less.hyps [of c3 s b True op] shorter c3 by simp
            then show ?thesis using loop c3 by simp
          qed
        qed
      qed
    qed
  qed
qed

lemma readMessageBody_outcome:
  assumes "readable c" "specLoop False 0 [] accept (pending c) (erase c) = (res, a, ps)"
  shows "outcome (c_readLimit c) (readMessageBody c) res a ps"
  using messageLoop_outcome [of "c\<lparr>c_msgBuf := [], c_utf8v := Reset (c_utf8v c)\<rparr>" accept "[]" False 0 res a ps] assms
  by (simp add: readMessageBody_def Reset_def maxAlloc_def)

section \<open>New connections\<close>

text \<open>A configuration the pool can serve; larger read buffers are allocated directly.\<close>

lemma newConn_readable:
  assumes "newConn nc vectored client active keys opts = Inr c" "steady nc"
    and small: "max (cc_readBufSize (foldl (\<lambda>c opt. applyOption opt c) defaultConfig opts))
      (int (length (cc_buffered (foldl (\<lambda>c opt. applyOption opt c) defaultConfig opts)))) \<le> maxClassSize"
  shows "readable c" "pending c = cc_buffered (foldl (\<lambda>c opt. applyOption opt c) defaultConfig opts) @ incoming nc"
    "c_msgReader c = None" "c_mode c = 0" "c_conn c = nc"
proof -
  define cfg where "cfg = foldl (\<lambda>c opt. applyOption opt c) defaultConfig opts"
  define s where "s = poolStorage (max (cc_readBufSize cfg) (int (length (cc_buffered cfg))))"
  have s: "128 \<le> length s" "length s \<le> 2 ^ 18" "length (cc_buffered cfg) \<le> length s"
    using length_poolStorage [of "max (cc_readBufSize cfg) (int (length (cc_buffered cfg)))"] small
    by (auto simp: s_def cfg_def)
  have c: "c_conn c = nc" "c_rbuf c = copyAt s 0 (cc_buffered cfg)" "c_r0 c = 0" "c_r1 c = length (cc_buffered cfg)"
    "\<not> c_tornDown c" "c_readErr c = None" "c_mode c = 0" "c_msgReader c = None"
    "(c_hdrTable c, c_hdrMaskBit c) = headerTableFor (c_client c) (c_compression c)"
    using assms(1) by (auto simp: newConn_def Let_def cfg_def s_def split: if_splits sum.splits prod.splits)
  have w: "window c = cc_buffered cfg" using c s by (simp add: window_def copyAt_def)
  show "readable c" using c s assms(2) by (simp add: readable_def maxAlloc_def copyAt_def connModeFrame_def)
  show "pending c = cc_buffered (foldl (\<lambda>c opt. applyOption opt c) defaultConfig opts) @ incoming nc"
    using w c(1) by (simp add: pending_def cfg_def)
  show "c_msgReader c = None" "c_mode c = 0" "c_conn c = nc" using c by simp_all
qed

section \<open>Properties of ReadMessage\<close>

text \<open>The parser for a message read through \<^verbatim>\<open>ReadMessage\<close>, which selects the message mode.\<close>

definition specMessage :: "bytes \<Rightarrow> 'w Conn \<Rightarrow> (connErr + Opcode \<times> bytes) \<times> 'w Conn \<times> bytes" where
  "specMessage ps a = specLoop False 0 [] accept ps (a\<lparr>c_mode := connModeMessage\<rparr>)"

lemma ReadMessage_outcome:
  assumes "readable c" "c_msgReader c = None" "c_mode c = 0 \<or> c_mode c = connModeMessage"
    "specMessage (pending c) (erase c) = (res, a, ps)"
  shows "outcome (c_readLimit c) (ReadMessage c) res a ps"
proof -
  define d where "d = c\<lparr>c_mode := connModeMessage\<rparr>"
  have d: "readable d" "pending d = pending c" "erase d = (erase c)\<lparr>c_mode := connModeMessage\<rparr>" "c_msgReader d = None"
    "\<not> c_tornDown d" "c_readErr d = None" "c_readLimit d = c_readLimit c"
    using assms(1,2) by (simp_all add: d_def readable_def pending_def window_def erase_def connModeFrame_def connModeMessage_def)
  have "selectMode connModeMessage c = (None, d)"
    using assms(3) by (auto simp: selectMode_def d_def connModeMessage_def)
  then have "ReadMessage c = readMessageBody d"
    using d by (simp add: ReadMessage_def discardStreamRemainder_def)
  then show ?thesis using readMessageBody_outcome [OF d(1), of res a ps] assms(4) d by (simp add: specMessage_def)
qed

lemma ReadMessage_refines:
  assumes "readable c" "c_msgReader c = None" "c_mode c = 0 \<or> c_mode c = connModeMessage"
    "specMessage (pending c) (erase c) = (res, a, ps)" "res \<noteq> Inl GoPanic"
  shows "\<exists>c'. ReadMessage c = (res, c') \<and> agrees c' a ps"
  using outcome_ok [OF ReadMessage_outcome [OF assms(1-4)] assms(5)] .

text \<open>C1: \<^verbatim>\<open>ReadMessage\<close> implements the message parser. However the peer's bytes are cut into reads and
  whatever the size of the read buffer, a call returns what the parser returns on the byte stream (the
  message, or the error of the first rule it breaks, in the order of the stream), leaves the same
  replies on the wire and the same connection state, and unless the connection was torn down the next
  byte to read is the parser's next byte.\<close>

theorem read_message_refines_parser:
  assumes "readable c" "c_msgReader c = None" "c_mode c = 0 \<or> c_mode c = connModeMessage"
    "specMessage (pending c) (erase c) = (res, a, ps)" "res \<noteq> Inl GoPanic"
  shows "\<exists>c'. ReadMessage c = (res, c') \<and> erase c' = a \<and> (c_tornDown c' \<or> readable c' \<and> pending c' = ps)"
  using ReadMessage_refines [OF assms] by (simp add: agrees_def)

definition demoTransport :: transport where
  "demoTransport = \<lparr>t_reads = [([0x81], None), ([0x02, 0x68], None), ([0x69], None)], t_end = EOF,
     t_writes = [], t_sent = [], t_closes = 0\<rparr>"

lemma demo_newConn: "\<exists>c. newConn demoTransport True True storeConfig (\<lambda>_. 0) [] = Inr c"
  by (simp add: newConn_def defaultConfig_def Let_def case_prod_beta)

lemma demo_readable:
  assumes "newConn demoTransport True True storeConfig (\<lambda>_. 0) [] = Inr c"
  shows "readable c" "pending c = [0x81, 0x02, 0x68, 0x69]" "c_msgReader c = None" "c_mode c = 0"
    "c_client c" "\<not> c_compression c" "\<not> c_skipUTF8 c" "c_readLimit c = defaultReadLimit"
proof -
  have "steady demoTransport" by (simp add: steady_def demoTransport_def)
  from newConn_readable [OF assms this]
  show "readable c" "pending c = [0x81, 0x02, 0x68, 0x69]" "c_msgReader c = None" "c_mode c = 0"
    by (simp_all add: defaultConfig_def defaultReadBufferSize_def pool_consts demoTransport_def incoming_def)
  show "c_client c" "\<not> c_compression c" "\<not> c_skipUTF8 c" "c_readLimit c = defaultReadLimit"
    using assms by (auto simp: newConn_def defaultConfig_def Let_def split: prod.splits)
qed

lemma demo_parse:
  assumes "c_client a" "\<not> c_compression a" "\<not> c_skipUTF8 a" "c_readLimit a = defaultReadLimit"
  shows "specMessage [0x81, 0x02, 0x68, 0x69] a =
    (Inr (OpcodeText, [0x68, 0x69]), a\<lparr>c_mode := connModeMessage, c_msgIsText := True, c_msgCompressed := False\<rparr>, [])"
proof -
  let ?h = "\<lparr>h_Fin = True, h_Rsv = 0, h_Opcode = OpcodeText, h_Masked = False, h_MaskKey = 0, h_Length = 2\<rparr>"
  have "AppendHeader [] ?h = [0x81, 0x02]" by (simp add: AppendHeader_def opcode_defs)
  moreover have "wfHeader ?h" by (simp add: wfHeader_def reservedOpcode_def opcode_defs IsControl_def word_le_nat_alt)
  ultimately have dec: "decodeFor True False [0x81, 0x02, 0x68, 0x69] = Inr (?h, 2)"
    using decodeFor_AppendHeader [of ?h False True "[0x68, 0x69]"] by (simp add: rsvAllowed_def)
  have "run accept [0x68, 0x69] = accept" by simp
  then show ?thesis using assms dec
    by (simp add: specMessage_def specLoop.simps [of False] specData_def specBegin_def isOpening_def runIf_def unmask_def
        opcode_defs IsControl_def RSV1_def defaultReadLimit_def maxAlloc_def)
qed

theorem read_message_refines_parser_witness:
  "\<exists>c c'. newConn demoTransport True True storeConfig (\<lambda>_. 0) [] = Inr c \<and>
     ReadMessage c = (Inr (OpcodeText, [0x68, 0x69]), c') \<and> (c_tornDown c' \<or> readable c' \<and> pending c' = [])"
proof -
  obtain c where c: "newConn demoTransport True True storeConfig (\<lambda>_. 0) [] = Inr c"
    using demo_newConn by blast
  note r = demo_readable [OF c]
  have "specMessage (pending c) (erase c) = (Inr (OpcodeText, [0x68, 0x69]),
      (erase c)\<lparr>c_mode := connModeMessage, c_msgIsText := True, c_msgCompressed := False\<rparr>, [])"
    using demo_parse [of "erase c"] r by simp
  from read_message_refines_parser [OF r(1,3) _ this] r(4) c show ?thesis by auto
qed



end
