(* ===== verification/Stream_Writer.thy ===== *)
theory Stream_Writer
  imports Writer
begin

text \<open>
  The streaming writer, the second half of \<^verbatim>\<open>src/writer.go\<close>: \<^verbatim>\<open>NextWriter\<close> hands out a \<^verbatim>\<open>messageWriter\<close> that cuts
  one message into frames of the size of its buffer. A writer is passed along with its connection; its
  number is what \<^verbatim>\<open>c.msgWriter\<close> points to while it owns the message slot.

  A compressor that belongs to the connection is shared between the lease and the connection's deflate
  state, so every change made through the lease is made to both.
\<close>

section \<open>Compressors on loan\<close>

definition shareLease :: "'w compressorLease \<Rightarrow> 'w Conn \<Rightarrow> 'w Conn" where
  "shareLease l c =
     (if l_perConn l then c\<lparr>c_deflate := map_option (\<lambda>ds. ds\<lparr>ds_outgoing := Some (l_w l)\<rparr>) (c_deflate c)\<rparr>
      else c)"

text \<open>
  \<^verbatim>\<open>acquireCompressor\<close> with what each caller does next: the sink is emptied and, when asked to, the writer
  is reset onto it. \<open>Inr None\<close> is \<^verbatim>\<open>ok == false\<close>.
\<close>

definition takeLease :: "'w Conn \<Rightarrow> (connErr + 'w compressorLease option) \<times> 'w Conn" where
  "takeLease c =
     (case acquireCompressor (c_active c) (c_deflate c) (c_outgoingWindowCeil c) of
        Refused \<Rightarrow> (Inr None, c)
      | AcquirePanic \<Rightarrow> (Inl GoPanic, c)
      | Acquired w reset perConn \<Rightarrow>
          let w = (if reset then be_Reset (cfg_backend (c_active c)) w else w);
              l = \<lparr>l_w = w, l_sw = [], l_perConn = perConn\<rparr>
          in (Inr (Some l), shareLease l c))"

definition leaseWrite :: "bytes \<Rightarrow> 'w compressorLease \<Rightarrow> 'w Conn \<Rightarrow>
    ioErr option \<times> 'w compressorLease \<times> 'w Conn" where
  "leaseWrite p l c =
     (case be_Write (cfg_backend (c_active c)) (l_w l) p of
        ((w, out), e) \<Rightarrow> let l = l\<lparr>l_w := w, l_sw := l_sw l @ out\<rparr> in (e, l, shareLease l c))"

definition leaseFlush :: "'w compressorLease \<Rightarrow> 'w Conn \<Rightarrow> ioErr option \<times> 'w compressorLease \<times> 'w Conn" where
  "leaseFlush l c =
     (case be_Flush (cfg_backend (c_active c)) (l_w l) of
        ((w, out), e) \<Rightarrow> let l = l\<lparr>l_w := w, l_sw := l_sw l @ out\<rparr> in (e, l, shareLease l c))"

text \<open>\<^verbatim>\<open>writeAndFlush\<close> through a lease.\<close>

definition leaseWriteAndFlush :: "bytes \<Rightarrow> 'w compressorLease \<Rightarrow> 'w Conn \<Rightarrow>
    (compressErr + bytes) \<times> 'w compressorLease \<times> 'w Conn" where
  "leaseWriteAndFlush p l c =
     (case writeAndFlush (cfg_backend (c_active c)) (l_w l) (l_sw l) p of
        (res, w, sink) \<Rightarrow> let l = l\<lparr>l_w := w, l_sw := sink\<rparr> in (res, l, shareLease l c))"

section \<open>The writer\<close>

record 'w messageWriter =
  mw_id :: nat
  mw_err :: "connErr option"
  mw_lease :: "'w compressorLease option"
  mw_buf :: bytes
  mw_op :: Opcode
  mw_started :: bool
  mw_closed :: bool
  mw_mayCompress :: bool
  mw_compressed :: bool
  mw_fed :: bool

text \<open>The capacity of the fragment buffer \<^verbatim>\<open>pool.Get(defaultWriteBufferSize)\<close>.\<close>

definition fragmentCap :: nat where
  "fragmentCap = length (poolStorage (int defaultWriteBufferSize))"

definition NextWriter :: "Opcode \<Rightarrow> 'w Conn \<Rightarrow> (connErr + 'w messageWriter) \<times> 'w Conn" where
  "NextWriter op c =
     (case selectMode connModeMessage c of
        (Some e, c) \<Rightarrow> (Inl e, c)
      | (None, c) \<Rightarrow>
          if \<not> IsData op then (Inl ErrNotDataOpcode, c)
          else if c_closeSent c \<or> c_tornDown c then (Inl ErrWriteClosed, c)
          else if c_msgWriter c \<noteq> None then (Inl ErrWriterBusy, c)
          else
            let w = \<lparr>mw_id = c_streams c, mw_err = None, mw_lease = None, mw_buf = [], mw_op = op,
                     mw_started = False, mw_closed = False,
                     mw_mayCompress = c_compression c \<and> \<not> outgoingDisabled c,
                     mw_compressed = False, mw_fed = False\<rparr>
            in (Inr w, c\<lparr>c_msgWriter := Some (mw_id w), c_streams := Suc (c_streams c)\<rparr>))"

section \<open>Fragments\<close>

definition disableTakeoverIfFed :: "'w messageWriter \<Rightarrow> 'w Conn \<Rightarrow> 'w Conn" where
  "disableTakeoverIfFed w c = (if \<not> mw_fed w then c else disableOutgoing c)"

definition flushLocked :: "bool \<Rightarrow> 'w messageWriter \<Rightarrow> 'w Conn \<Rightarrow>
    connErr option \<times> 'w messageWriter \<times> 'w Conn" where
  "flushLocked fin w c =
     (if c_closeSent c \<or> c_tornDown c then (Some ErrWriteClosed, w, c)
      else case emitFrameLocked (if mw_started w then OpcodeContinuation else mw_op w) fin 0 (mw_buf w) c of
        (Some e, c) \<Rightarrow> (Some e, w, c)
      | (None, c) \<Rightarrow> (None, w\<lparr>mw_started := True, mw_buf := []\<rparr>, c))"

definition emitCompressedChunkLocked :: "bytes \<Rightarrow> bool \<Rightarrow> 'w messageWriter \<Rightarrow> 'w Conn \<Rightarrow>
    connErr option \<times> 'w messageWriter \<times> 'w Conn" where
  "emitCompressedChunkLocked payload fin w c =
     (if c_closeSent c \<or> c_tornDown c then (Some ErrWriteClosed, w, c)
      else case emitFrameLocked (if mw_started w then OpcodeContinuation else mw_op w) fin
          (if mw_started w then 0 else RSV1) payload c of
        (Some e, c) \<Rightarrow> (Some e, w, c)
      | (None, c) \<Rightarrow> (None, w\<lparr>mw_started := True\<rparr>, c))"

text \<open>
  \<^verbatim>\<open>drainCompressedFragmentsLocked\<close>, on the bytes of the sink; it returns what is left of them.
\<close>

function drainFragments :: "bytes \<Rightarrow> 'w messageWriter \<Rightarrow> 'w Conn \<Rightarrow>
    connErr option \<times> bytes \<times> 'w messageWriter \<times> 'w Conn" where
  "drainFragments sink w c =
     (if length sink \<ge> defaultWriteBufferSize then
        case emitCompressedChunkLocked (take defaultWriteBufferSize sink) False w c of
          (Some e, w, c) \<Rightarrow> (Some e, sink, w, c)
        | (None, w, c) \<Rightarrow> drainFragments (drop defaultWriteBufferSize sink) w c
      else (None, sink, w, c))"
  by pat_completeness auto
termination
  by (relation "measure (\<lambda>(sink, _, _). length sink)") (auto simp: defaultWriteBufferSize_def)

declare drainFragments.simps [simp del]

definition drainCompressedFragmentsLocked :: "'w compressorLease \<Rightarrow> 'w messageWriter \<Rightarrow> 'w Conn \<Rightarrow>
    connErr option \<times> 'w messageWriter \<times> 'w Conn" where
  "drainCompressedFragmentsLocked l w c =
     (case drainFragments (l_sw l) w c of
        (e, sink, w, c) \<Rightarrow> (e, w\<lparr>mw_lease := Some (l\<lparr>l_sw := sink\<rparr>)\<rparr>, c))"

text \<open>
  \<^verbatim>\<open>engageCompression\<close>: when the pooled compressor is refused the writer stays as it is. The buffer is never
  empty here.
\<close>

definition engageCompression :: "'w messageWriter \<Rightarrow> 'w Conn \<Rightarrow>
    connErr option \<times> 'w messageWriter \<times> 'w Conn" where
  "engageCompression w c =
     (case takeLease c of
        (Inl e, c) \<Rightarrow> (Some e, w, c)
      | (Inr None, c) \<Rightarrow> (None, w, c)
      | (Inr (Some l), c) \<Rightarrow>
          let w = w\<lparr>mw_lease := Some l, mw_compressed := True\<rparr>;
              (e, l, w, c) =
                (if length (mw_buf w) > 0 then
                   case leaseWrite (mw_buf w) l c of
                     (Some e, l, c) \<Rightarrow> (Some e, l, w\<lparr>mw_lease := Some l, mw_fed := True\<rparr>, c)
                   | (None, l, c) \<Rightarrow> (None, l, w\<lparr>mw_lease := Some l, mw_fed := True, mw_buf := []\<rparr>, c)
                 else (None, l, w, c)) in
          case e of
            Some e \<Rightarrow> (Some (ErrCompress (CompressWrite e)), w, disableTakeoverIfFed w c)
          | None \<Rightarrow>
              (case drainCompressedFragmentsLocked l w c of
                 (Some e, w, c) \<Rightarrow> (Some e, w, disableTakeoverIfFed w c)
               | (None, w, c) \<Rightarrow> (None, w, c)))"

text \<open>\<^verbatim>\<open>writeCompressed\<close>, of a writer that holds the lease \<open>l\<close>; its errors are sticky.\<close>

definition writeCompressed :: "bytes \<Rightarrow> 'w compressorLease \<Rightarrow> 'w messageWriter \<Rightarrow> 'w Conn \<Rightarrow>
    (nat \<times> connErr option) \<times> 'w messageWriter \<times> 'w Conn" where
  "writeCompressed p l w c =
     (case leaseWrite p l c of
        (Some e, l, c) \<Rightarrow>
          let w = w\<lparr>mw_fed := True, mw_lease := Some l\<rparr>;
              e = ErrCompress (CompressWrite e)
          in ((0, Some e), w\<lparr>mw_err := Some e\<rparr>, disableTakeoverIfFed w c)
      | (None, l, c) \<Rightarrow>
          (case drainCompressedFragmentsLocked l (w\<lparr>mw_fed := True\<rparr>) c of
             (Some e, w, c) \<Rightarrow> ((0, Some e), w\<lparr>mw_err := Some e\<rparr>, disableTakeoverIfFed w c)
           | (None, w, c) \<Rightarrow> ((length p, None), w, c)))"

section \<open>Write\<close>

text \<open>A panic unwinds past the assignment that makes an error sticky.\<close>

definition stick :: "connErr \<Rightarrow> 'w messageWriter \<Rightarrow> 'w messageWriter" where
  "stick e w = (if e = GoPanic then w else w\<lparr>mw_err := Some e\<rparr>)"

lemma fragmentCap: "fragmentCap = 4096"
proof -
  have "classIndex 4096 = Some 5" by (simp add: classIndex_def pool_consts bitsLen.simps)
  then show ?thesis using Get_buffer [OF poolsOk_empty, of None 4096]
    by (simp add: fragmentCap_def poolStorage_def defaultWriteBufferSize_def classCap_def pool_consts)
qed

lemma flushLocked_buf: "flushLocked fin w c = (None, w', c') \<Longrightarrow> mw_buf w' = []"
  by (auto simp: flushLocked_def split: if_splits prod.splits option.splits)

text \<open>
  The loop of \<^verbatim>\<open>Write\<close>: \<open>sz\<close> is the length of the whole argument, \<open>p\<close> what is left of it. The loop never
  runs on a writer that is already in compressed mode.
\<close>

function writeLoop :: "nat \<Rightarrow> bytes \<Rightarrow> 'w messageWriter \<Rightarrow> 'w Conn \<Rightarrow>
    (nat \<times> connErr option) \<times> 'w messageWriter \<times> 'w Conn" where
  "writeLoop sz p w c =
     (if p = [] then ((sz, None), w, c)
      else
        let n = min (fragmentCap - length (mw_buf w)) (length p);
            w = w\<lparr>mw_buf := mw_buf w @ take n p\<rparr>;
            p = drop n p in
        if length (mw_buf w) < fragmentCap then writeLoop sz p w c
        else
          case (if mw_mayCompress w then engageCompression w c else (None, w, c)) of
            (Some e, w, c) \<Rightarrow> ((sz - length p, Some e), stick e w, c)
          | (None, w, c) \<Rightarrow>
              (case (if mw_compressed w then mw_lease w else None) of
                 Some l \<Rightarrow>
                   if p = [] then ((sz, None), w, c)
                   else (case writeCompressed p l w c of
                     ((nw, e), w, c) \<Rightarrow> ((sz - length p + nw, e), w, c))
               | None \<Rightarrow>
                   (case flushLocked False (w\<lparr>mw_mayCompress := False\<rparr>) c of
                      (Some e, w, c) \<Rightarrow> ((sz - length p, Some e), w\<lparr>mw_err := Some e\<rparr>, c)
                    | (None, w, c) \<Rightarrow> writeLoop sz p w c)))"
  by pat_completeness auto
termination
proof (relation "measure (\<lambda>(_, p, w, _). 2 * length p + (if fragmentCap \<le> length (mw_buf w) then 1 else 0))",
    goal_cases)
  case 1
  show ?case by simp
next
  case (2 sz p w c n w' p')
  then show ?case by (auto simp: min_def split: if_splits)
next
  case (3 sz p w c n w' p' x1 x2 w1 c1 x3 x4 w2 c2)
  then have "mw_buf w2 = []" using flushLocked_buf by metis
  then show ?case using 3 fragmentCap by (auto simp: min_def split: if_splits)
qed

declare writeLoop.simps [simp del]

definition Write :: "bytes \<Rightarrow> 'w messageWriter \<Rightarrow> 'w Conn \<Rightarrow>
    (nat \<times> connErr option) \<times> 'w messageWriter \<times> 'w Conn" where
  "Write p w c =
     (if mw_err w \<noteq> None then ((0, mw_err w), w, c)
      else if mw_closed w then ((0, Some ErrWriterClosed), w, c)
      else case (if mw_compressed w then mw_lease w else None) of
        Some l \<Rightarrow> writeCompressed p l w c
      | None \<Rightarrow> writeLoop (length p) p w c)"

section \<open>Close\<close>

definition closeLargeLocked :: "'w messageWriter \<Rightarrow> 'w Conn \<Rightarrow>
    connErr option \<times> 'w messageWriter \<times> 'w Conn" where
  "closeLargeLocked w c =
     (case takeLease c of
        (Inl e, c) \<Rightarrow> (Some e, w, c)
      | (Inr None, c) \<Rightarrow> flushLocked True w c
      | (Inr (Some l), c) \<Rightarrow>
          (case leaseWriteAndFlush (mw_buf w) l c of
             (res, l, c) \<Rightarrow>
               let w = w\<lparr>mw_lease := Some l, mw_compressed := True, mw_fed := True, mw_buf := []\<rparr> in
               case res of
                 Inl e \<Rightarrow> (Some (compressFailure e), w, disableTakeoverIfFed w c)
               | Inr out \<Rightarrow>
                   (case emitCompressedChunkLocked out True w c of
                      (Some e, w, c) \<Rightarrow> (Some e, w, disableTakeoverIfFed w c)
                    | (None, w, c) \<Rightarrow> (None, w, c))))"

definition closeCompressedLocked :: "'w compressorLease \<Rightarrow> 'w messageWriter \<Rightarrow> 'w Conn \<Rightarrow>
    connErr option \<times> 'w messageWriter \<times> 'w Conn" where
  "closeCompressedLocked l w c =
     (case leaseFlush l c of
        (Some e, l, c) \<Rightarrow>
          (Some (ErrCompress (CompressFlush e)), w\<lparr>mw_lease := Some l\<rparr>, disableTakeoverIfFed w c)
      | (None, l, c) \<Rightarrow>
          if length (l_sw l) < length deflateFlushTail then
            (Some (ErrCompress CompressShort), w\<lparr>mw_lease := Some l\<rparr>, disableTakeoverIfFed w c)
          else
            let out = take (length (l_sw l) - length deflateFlushTail) (l_sw l) in
            case emitCompressedChunkLocked out True (w\<lparr>mw_lease := Some (l\<lparr>l_sw := out\<rparr>)\<rparr>) c of
              (Some e, w, c) \<Rightarrow> (Some e, w, disableTakeoverIfFed w c)
            | (None, w, c) \<Rightarrow> (None, w, c))"

text \<open>
  \<^verbatim>\<open>Close\<close> of a writer. A pooled compressor goes back to its pool with the lease; the connection's own stays
  with the connection.
\<close>

definition CloseWriter :: "'w messageWriter \<Rightarrow> 'w Conn \<Rightarrow> connErr option \<times> 'w messageWriter \<times> 'w Conn" where
  "CloseWriter w c =
     (if mw_closed w then (mw_err w, w, c)
      else
        let w = w\<lparr>mw_closed := True\<rparr>;
            (err, w, c) =
              (case mw_err w of
                 Some e \<Rightarrow> (Some e, w, if mw_fed w then disableTakeoverIfFed w c else c)
               | None \<Rightarrow>
                   (case (if mw_compressed w then mw_lease w else None) of
                      Some l \<Rightarrow> closeCompressedLocked l w c
                    | None \<Rightarrow>
                        if mw_mayCompress w \<and> length (mw_buf w) \<ge> defaultCompressMinSize
                        then closeLargeLocked w c
                        else flushLocked True w c));
            c = (if c_msgWriter c = Some (mw_id w) then c\<lparr>c_msgWriter := None\<rparr> else c);
            w = w\<lparr>mw_buf := [], mw_lease := None, mw_err := (case err of None \<Rightarrow> mw_err w | Some e \<Rightarrow> Some e)\<rparr>
        in (err, w, c))"

end
