(* ===== verification/Writer_Spec.thy ===== *)
theory Writer_Spec
  imports Stream_Writer
begin

text \<open>
  What the write side promises, without write strategies, scratch buffers and batches: the bytes a
  connection has committed to the peer are those on the wire followed by those in its batch, and every
  operation that sends appends the frames of its message to them. The interface of an operation that
  sends one message is the locale \<open>message_sender\<close>; its instances are \<^verbatim>\<open>WriteMessage\<close>,
  \<^verbatim>\<open>WriteMessageBuffered\<close> and the streaming writer.
\<close>

definition outbox :: "'w Conn \<Rightarrow> bytes" where
  "outbox c = wire (c_conn c) @ c_wbatch c"

text \<open>A frame on the wire, masked when there is a key.\<close>

definition encFrame :: "32 word option \<Rightarrow> Opcode \<Rightarrow> bool \<Rightarrow> byte \<Rightarrow> bytes \<Rightarrow> bytes" where
  "encFrame key op fin rsv p =
     (let h = \<lparr>h_Fin = fin, h_Rsv = rsv, h_Opcode = op, h_Masked = False, h_MaskKey = 0,
               h_Length = int (length p)\<rparr> in
      case key of
        None \<Rightarrow> AppendHeader [] h @ p
      | Some k \<Rightarrow> AppendHeader [] (h\<lparr>h_Masked := True, h_MaskKey := k\<rparr>) @ fst (Mask p k))"

definition nextKey :: "'w Conn \<Rightarrow> 32 word option" where
  "nextKey c = (if c_client c then Some (c_keys c (c_keyPos c)) else None)"

definition sendable :: "'w Conn \<Rightarrow> bool" where
  "sendable c \<longleftrightarrow> writesOk (c_conn c) \<and> \<not> c_closeSent c \<and> \<not> c_tornDown c"

text \<open>\<open>c'\<close> is \<open>c\<close> after committing \<open>bs\<close> and drawing \<open>k\<close> keys.\<close>

definition committed :: "nat \<Rightarrow> bytes \<Rightarrow> 'w Conn \<Rightarrow> 'w Conn \<Rightarrow> bool" where
  "committed k bs c c' \<longleftrightarrow> wrote c c' \<and> sendable c' \<and> outbox c' = outbox c @ bs \<and> c_keyPos c' = c_keyPos c + k"

lemma wrote_fields:
  assumes "wrote c c'"
  shows "c_client c' = c_client c" "c_vectored c' = c_vectored c" "c_tornDown c' = c_tornDown c"
    "c_compression c' = c_compression c" "c_msgWriter c' = c_msgWriter c" "c_mode c' = c_mode c"
    "c_keys c' = c_keys c" "c_deflate c' = c_deflate c" "c_active c' = c_active c" "c_streams c' = c_streams c"
    "c_outgoingWindowCeil c' = c_outgoingWindowCeil c"
  using assms by (auto simp: wrote_def)

lemma committed_refl [simp]: "committed 0 [] c c \<longleftrightarrow> sendable c"
  by (auto simp: committed_def)

lemma committed_trans:
  "committed k bs c c1 \<Longrightarrow> committed k' bs' c1 c2 \<Longrightarrow> committed (k + k') (bs @ bs') c c2"
  using wrote_trans by (auto simp: committed_def)

section \<open>Writes that succeed\<close>

definition sentTransport :: "bytes \<Rightarrow> transport \<Rightarrow> transport" where
  "sentTransport p t = t\<lparr>t_writes := tl (t_writes t), t_sent := t_sent t @ [p]\<rparr>"

lemma sentTransport [simp]:
  "writesOk t \<Longrightarrow> writesOk (sentTransport p t)" "wire (sentTransport p t) = wire t @ p"
  by (simp_all add: sentTransport_def writesOk_tl wire_def)

lemma connWrite_sendable:
  "sendable c \<Longrightarrow> connWrite p c = ((length p, None), c\<lparr>c_conn := sentTransport p (c_conn c)\<rparr>)"
  by (simp add: connWrite_def sendable_def tWrite_ok sentTransport_def)

lemma sendable_conn [simp]:
  "sendable c \<Longrightarrow> writesOk t \<Longrightarrow> sendable (c\<lparr>c_conn := t\<rparr>)"
  "sendable (c\<lparr>c_wbatch := b\<rparr>) = sendable c" "sendable (c\<lparr>c_keyPos := k\<rparr>) = sendable c"
  "sendable (c\<lparr>c_mode := m\<rparr>) = sendable c" "sendable (c\<lparr>c_msgWriter := w\<rparr>) = sendable c"
  "sendable (c\<lparr>c_streams := n\<rparr>) = sendable c"
  by (simp_all add: sendable_def)

lemma sendableI: "writesOk (c_conn c) \<Longrightarrow> \<not> c_closeSent c \<Longrightarrow> \<not> c_tornDown c \<Longrightarrow> sendable c"
  by (simp add: sendable_def)

lemma sendableD [simp]:
  "sendable c \<Longrightarrow> writesOk (c_conn c)" "sendable c \<Longrightarrow> \<not> c_closeSent c" "sendable c \<Longrightarrow> \<not> c_tornDown c"
  by (simp_all add: sendable_def)

lemma writeFrameBytes_sendable:
  "sendable c \<Longrightarrow> writeFrameBytes p c = (None, c\<lparr>c_conn := sentTransport p (c_conn c)\<rparr>)"
  by (simp add: writeFrameBytes_def connWrite_sendable)

text \<open>However the frame is written, header and payload go out whole and in order.\<close>

lemma writeFrame_sendable:
  assumes "sendable c"
  shows "\<exists>c'. writeFrame a b c = (None, c') \<and> wrote c c' \<and> sendable c' \<and>
    wire (c_conn c') = wire (c_conn c) @ a @ b \<and> c_wbatch c' = c_wbatch c \<and> c_keyPos c' = c_keyPos c"
proof -
  have "wrote c (snd (writeFrame a b c))" by (rule wrote_writeFrame)
  then show ?thesis using assms
    by (cases "c_vectored c"; cases "length a + length b \<le> maxBufferedWriteSize")
      (auto simp: writeFrame_def writev_def stageWrite_def Let_def connWrite_sendable writeFrameBytes_sendable)
qed

lemma flush_sendable:
  assumes "sendable c"
  shows "\<exists>c'. flushBufferedLocked c = (None, c') \<and> committed 0 [] c c' \<and> c_wbatch c' = []"
  using assms wrote_flush [of c]
  by (auto simp: flushBufferedLocked_def connWrite_sendable committed_def outbox_def)

lemma nextKey_wrote:
  assumes "committed 0 bs c c'"
  shows "nextKey c' = nextKey c"
  using assms wrote_fields [of c c'] by (simp add: nextKey_def committed_def)

lemma emit_sendable:
  assumes "sendable c"
  shows "\<exists>c'. emitFrameLocked op fin rsv p c = (None, c') \<and> c_wbatch c' = [] \<and>
    committed (if c_client c then 1 else 0) (encFrame (nextKey c) op fin rsv p) c c'"
proof -
  obtain c1 where f: "flushBufferedLocked c = (None, c1)" "committed 0 [] c c1" "c_wbatch c1 = []"
    using flush_sendable [OF assms] by blast
  have c1: "sendable c1" "c_client c1 = c_client c" "nextKey c1 = nextKey c"
    using f(2) wrote_fields(1) [of c c1] nextKey_wrote [OF f(2)] by (simp_all add: committed_def)
  have w: "wrote c (snd (emitFrameLocked op fin rsv p c))" by (rule wrote_emit)
  have out: "outbox c = wire (c_conn c1)" "c_keyPos c1 = c_keyPos c" using f by (auto simp: committed_def outbox_def)
  have "\<exists>c'. emitFrameLocked op fin rsv p c = (None, c') \<and> c_wbatch c' = [] \<and> sendable c' \<and>
      outbox c' = outbox c @ encFrame (nextKey c) op fin rsv p \<and> c_keyPos c' = c_keyPos c + (if c_client c then 1 else 0)"
  proof (cases "c_client c")
    case False
    then show ?thesis
      using f(1,3) c1 out writeFrame_sendable [OF c1(1), of "AppendHeader [] \<lparr>h_Fin = fin, h_Rsv = rsv, h_Opcode = op,
        h_Masked = False, h_MaskKey = 0, h_Length = int (length p)\<rparr>" p]
      by (auto simp: emitFrameLocked_def Let_def writeFrameBytes_sendable encFrame_def nextKey_def outbox_def)
  next
    case True
    let ?k = "c_keys c1 (c_keyPos c1)"
    have k: "nextKey c = Some ?k" using True c1 by (simp add: nextKey_def)
    have s: "sendable (c1\<lparr>c_keyPos := Suc (c_keyPos c1)\<rparr>)" using c1 by simp
    show ?thesis
      using True f(1,3) c1 out k writeFrame_sendable [OF s, of "AppendHeader [] \<lparr>h_Fin = fin, h_Rsv = rsv, h_Opcode = op,
        h_Masked = True, h_MaskKey = ?k, h_Length = int (length p)\<rparr>" "fst (Mask p ?k)"]
      by (auto simp: emitFrameLocked_def Let_def maskingKey_def encFrame_def outbox_def)
  qed
  then show ?thesis using w by (auto simp: committed_def)
qed

section \<open>Messages\<close>

text \<open>The frames of a message from its fragments, each with its masking key.\<close>

fun encMessage :: "Opcode \<Rightarrow> (32 word option \<times> bytes) list \<Rightarrow> bytes" where
  "encMessage op [] = []"
| "encMessage op [(k, p)] = encFrame k op True 0 p"
| "encMessage op ((k, p) # f # fs) = encFrame k op False 0 p @ encMessage OpcodeContinuation (f # fs)"

definition isEncoding :: "bool \<Rightarrow> Opcode \<Rightarrow> bytes \<Rightarrow> bytes \<Rightarrow> bool" where
  "isEncoding client op p bs \<longleftrightarrow> (\<exists>fs. fs \<noteq> [] \<and> bs = encMessage op fs \<and> concat (map snd fs) = p \<and>
     list_all (\<lambda>f. (fst f \<noteq> None) = client) fs)"

lemma isEncoding_frame: "(k \<noteq> None) = client \<Longrightarrow> isEncoding client op p (encFrame k op True 0 p)"
  unfolding isEncoding_def by (rule exI [of _ "[(k, p)]"]) simp

lemma nextKey_role: "(nextKey c \<noteq> None) = c_client c"
  by (simp add: nextKey_def)

text \<open>A connection that can send a message: open, in message mode, no stream under way.\<close>

definition ready :: "'w Conn \<Rightarrow> bool" where
  "ready c \<longleftrightarrow> sendable c \<and> (c_mode c = 0 \<or> c_mode c = connModeMessage) \<and> c_msgWriter c = None \<and> \<not> c_compression c"

lemma selectMode_ready:
  "ready c \<Longrightarrow> selectMode connModeMessage c = (None, c\<lparr>c_mode := connModeMessage\<rparr>)"
  by (auto simp: ready_def selectMode_def)

lemma committed_ready:
  assumes "committed k bs (c\<lparr>c_mode := connModeMessage\<rparr>) c'" "ready c"
  shows "ready c'" "outbox c' = outbox c @ bs" "c_client c' = c_client c"
  using assms wrote_fields [of "c\<lparr>c_mode := connModeMessage\<rparr>" c']
  by (auto simp: committed_def ready_def outbox_def)

text \<open>
  An operation that sends one message. \<open>content\<close> is the opcode and the payload of the message it is asked
  to send.
\<close>

locale message_sender =
  fixes send :: "'m \<Rightarrow> 'w Conn \<Rightarrow> connErr option \<times> 'w Conn"
    and content :: "'m \<Rightarrow> Opcode \<times> bytes"
  assumes send_ready: "ready c \<Longrightarrow> IsData (fst (content m)) \<Longrightarrow> \<exists>c' bs. send m c = (None, c') \<and> ready c' \<and>
    c_client c' = c_client c \<and> outbox c' = outbox c @ bs \<and>
    isEncoding (c_client c) (fst (content m)) (snd (content m)) bs"

text \<open>A sequence of calls, up to the first that fails.\<close>

primrec sendAll :: "('m \<Rightarrow> 'w Conn \<Rightarrow> connErr option \<times> 'w Conn) \<Rightarrow> 'm list \<Rightarrow> 'w Conn \<Rightarrow>
    connErr option \<times> 'w Conn" where
  "sendAll send [] c = (None, c)"
| "sendAll send (m # ms) c =
     (case send m c of (Some e, c) \<Rightarrow> (Some e, c) | (None, c) \<Rightarrow> sendAll send ms c)"

context message_sender
begin

lemma sendAll_ready:
  assumes "ready c" "list_all (\<lambda>m. IsData (fst (content m))) ms"
  shows "\<exists>c' bss. sendAll send ms c = (None, c') \<and> ready c' \<and> outbox c' = outbox c @ concat bss \<and>
    list_all2 (\<lambda>m. isEncoding (c_client c) (fst (content m)) (snd (content m))) ms bss"
  using assms
proof (induction ms arbitrary: c)
  case (Cons m ms)
  then obtain c1 bs where s: "send m c = (None, c1)" "ready c1" "c_client c1 = c_client c"
    "outbox c1 = outbox c @ bs" "isEncoding (c_client c) (fst (content m)) (snd (content m)) bs"
    using send_ready [of c m] by auto
  from Cons.IH [OF s(2)] Cons.prems(2) obtain c' bss where "sendAll send ms c1 = (None, c')" "ready c'"
    "outbox c' = outbox c1 @ concat bss"
    "list_all2 (\<lambda>m. isEncoding (c_client c1) (fst (content m)) (snd (content m))) ms bss"
    by auto
  then show ?case using s by (intro exI [of _ c'] exI [of _ "bs # bss"]) auto
qed simp

end

section \<open>The operations that send\<close>

lemma WriteMessage_ready:
  assumes "ready c"
  shows "\<exists>c'. WriteMessage op p c = (None, c') \<and> c_wbatch c' = [] \<and>
    committed (if c_client c then 1 else 0) (encFrame (nextKey c) op True 0 p) (c\<lparr>c_mode := connModeMessage\<rparr>) c'"
proof -
  let ?d = "c\<lparr>c_mode := connModeMessage\<rparr>"
  have d: "sendable ?d" using assms by (simp add: ready_def)
  then obtain c1 where f: "flushBufferedLocked ?d = (None, c1)" "committed 0 [] ?d c1" "c_wbatch c1 = []"
    using flush_sendable by blast
  have c1: "sendable c1" "c_client c1 = c_client c" "c_compression c1 = c_compression c" "c_msgWriter c1 = None"
    "nextKey c1 = nextKey c" "c_deflate c1 = c_deflate c"
    using f(2) assms wrote_fields [of ?d c1] nextKey_wrote [OF f(2)] by (simp_all add: committed_def ready_def nextKey_def)
  have flush1: "flushBufferedLocked c1 = (None, c1)" using f(3) by (simp add: flushBufferedLocked_def)
  show ?thesis
  proof (cases "c_client c")
    case True
    obtain c' where e: "emitFrameLocked op True 0 p c1 = (None, c')" "c_wbatch c' = []"
      "committed 1 (encFrame (nextKey c1) op True 0 p) c1 c'"
      using emit_sendable [OF c1(1), of op True 0 p] True c1(2) by auto
    have "c1\<lparr>c_deflate := c_deflate c1\<rparr> = c1" by simp
    then have "WriteMessage op p c = (None, c')"
      using True f(1) c1(1-5) e(1) assms by (simp add: WriteMessage_def selectMode_ready writeMessageLocked_def ready_def)
    then show ?thesis using e(2) committed_trans [OF f(2) e(3)] True c1(5) by auto
  next
    case False
    let ?h = "AppendHeader [] \<lparr>h_Fin = True, h_Rsv = 0, h_Opcode = op, h_Masked = False, h_MaskKey = 0,
        h_Length = int (length p)\<rparr>"
    have enc: "encFrame (nextKey c) op True 0 p = ?h @ p" using False by (simp add: encFrame_def nextKey_def)
    have "\<exists>c'. WriteMessage op p c = (None, c') \<and> wrote c1 c' \<and> sendable c' \<and> wire (c_conn c') = wire (c_conn c1) @ ?h @ p \<and>
        c_wbatch c' = c_wbatch c1 \<and> c_keyPos c' = c_keyPos c1"
      using False f(1) c1 assms wrote_connWrite [of c1 "?h @ p"] writeFrame_sendable [OF c1(1), of ?h p]
      by (auto simp: WriteMessage_def selectMode_ready Let_def connWrite_sendable ready_def)
    then obtain c' where c': "WriteMessage op p c = (None, c')" "c_wbatch c' = []"
      "committed 0 (encFrame (nextKey c) op True 0 p) c1 c'" using f(3) enc by (auto simp: committed_def outbox_def)
    then show ?thesis using committed_trans [OF f(2) c'(3)] False by auto
  qed
qed

lemma WriteMessageBuffered_ready:
  assumes "ready c"
  shows "\<exists>c'. WriteMessageBuffered op p c = (None, c') \<and>
    committed (if c_client c then 1 else 0) (encFrame (nextKey c) op True 0 p) (c\<lparr>c_mode := connModeMessage\<rparr>) c'"
proof -
  let ?d = "c\<lparr>c_mode := connModeMessage\<rparr>"
  define b where "b = c_wbatch c @ encFrame (nextKey c) op True 0 p"
  define c1 where "c1 = ?d\<lparr>c_keyPos := c_keyPos c + (if c_client c then 1 else 0), c_wbatch := b\<rparr>"
  have app: "appendFrameLocked (c_wbatch c) op p ?d = (b, ?d\<lparr>c_keyPos := c_keyPos c + (if c_client c then 1 else 0)\<rparr>)"
    by (simp add: appendFrameLocked_def Let_def maskingKey_def b_def encFrame_def nextKey_def AppendHeader_def)
  have w: "wrote ?d c1"
    by (auto simp: wrote_def c1_def intro!: exI [of _ "c_conn c"] exI [of _ b] exI [of _ "c_closeSent c"]
        exI [of _ "c_keyPos c + (if c_client c then 1 else 0)"])
  have c1: "committed (if c_client c then 1 else 0) (encFrame (nextKey c) op True 0 p) ?d c1"
    using w assms by (auto simp: committed_def c1_def b_def outbox_def ready_def)
  have s: "sendable c1" using assms by (simp add: c1_def ready_def)
  have "WriteMessageBuffered op p c = (if maxBufferedWriteSize \<le> length b then flushBufferedLocked c1 else (None, c1))"
    using app assms by (auto simp: WriteMessageBuffered_def selectMode_ready ready_def c1_def Let_def)
  then show ?thesis using c1 flush_sendable [OF s] committed_trans [OF c1] by fastforce
qed

text \<open>A call that commits one frame meets the contract.\<close>

lemma one_frame_sender:
  assumes "ready c" "committed k (encFrame (nextKey c) op True 0 p) (c\<lparr>c_mode := connModeMessage\<rparr>) c'"
  shows "ready c' \<and> c_client c' = c_client c \<and> (\<exists>bs. outbox c' = outbox c @ bs \<and> isEncoding (c_client c) op p bs)"
  using committed_ready [OF assms(2,1)] isEncoding_frame [OF nextKey_role] by blast

interpretation whole: message_sender "\<lambda>m. WriteMessage (fst m) (snd m)" id
proof (unfold_locales, goal_cases)
  case (1 c m)
  then show ?case using WriteMessage_ready [OF 1(1), of "fst m" "snd m"] one_frame_sender [OF 1(1)]
    by (simp, metis)
qed

interpretation batched: message_sender "\<lambda>m. WriteMessageBuffered (fst m) (snd m)" id
proof (unfold_locales, goal_cases)
  case (1 c m)
  then show ?case using WriteMessageBuffered_ready [OF 1(1), of "fst m" "snd m"] one_frame_sender [OF 1(1)]
    by (simp, metis)
qed

section \<open>The streaming writer\<close>

text \<open>A whole message through a stream: the chunks are written one after the other, and \<^verbatim>\<open>Close\<close> runs in any case.\<close>

primrec writeChunks :: "bytes list \<Rightarrow> 'w messageWriter \<Rightarrow> 'w Conn \<Rightarrow> connErr option \<times> 'w messageWriter \<times> 'w Conn" where
  "writeChunks [] w c = (None, w, c)"
| "writeChunks (p # ps) w c =
     (case Write p w c of
        ((_, Some e), w, c) \<Rightarrow> (Some e, w, c)
      | ((_, None), w, c) \<Rightarrow> writeChunks ps w c)"

definition streamMessage :: "Opcode \<Rightarrow> bytes list \<Rightarrow> 'w Conn \<Rightarrow> connErr option \<times> 'w Conn" where
  "streamMessage op ps c =
     (case NextWriter op c of
        (Inl e, c) \<Rightarrow> (Some e, c)
      | (Inr w, c) \<Rightarrow>
        (case writeChunks ps w c of
           (e, w, c) \<Rightarrow>
             (case CloseWriter w c of (e', w, c) \<Rightarrow> (if e = None then e' else e, c))))"

text \<open>The frames before the last one.\<close>

primrec encOpen :: "Opcode \<Rightarrow> (32 word option \<times> bytes) list \<Rightarrow> bytes" where
  "encOpen op [] = []"
| "encOpen op (f # fs) = encFrame (fst f) op False 0 (snd f) @ encOpen OpcodeContinuation fs"

lemma encOpen_snoc:
  "encOpen op (fs @ [f]) = encOpen op fs @ encFrame (fst f) (if fs = [] then op else OpcodeContinuation) False 0 (snd f)"
  by (induction fs arbitrary: op) auto

lemma encMessage_snoc:
  "encMessage op (fs @ [f]) = encOpen op fs @ encFrame (fst f) (if fs = [] then op else OpcodeContinuation) True 0 (snd f)"
proof (induction fs arbitrary: op)
  case (Cons g fs)
  obtain h hs where "fs @ [f] = h # hs" by (cases "fs @ [f]") auto
  then show ?case using Cons by (cases g) auto
qed (cases f, simp)

text \<open>
  A stream under way: the fragments \<open>fs\<close> are out, each as large as the buffer, and with what the buffer
  holds they are the data \<open>d\<close> written so far. \<open>c0\<close> is the connection when the stream was opened.
\<close>

definition streaming :: "'w Conn \<Rightarrow> Opcode \<Rightarrow> (32 word option \<times> bytes) list \<Rightarrow> bytes \<Rightarrow>
    'w messageWriter \<Rightarrow> 'w Conn \<Rightarrow> bool" where
  "streaming c0 op fs d w c \<longleftrightarrow> (\<exists>k. committed k (encOpen op fs) c0 c) \<and>
     list_all (\<lambda>f. (fst f \<noteq> None) = c_client c0 \<and> length (snd f) = fragmentCap) fs \<and>
     concat (map snd fs) @ mw_buf w = d \<and> length (mw_buf w) < fragmentCap \<and>
     mw_op w = op \<and> mw_started w = (fs \<noteq> []) \<and> mw_err w = None \<and> \<not> mw_closed w \<and>
     \<not> mw_mayCompress w \<and> \<not> mw_compressed w \<and> c_msgWriter c0 = Some (mw_id w)"

lemma committed_role: "committed k bs c c' \<Longrightarrow> c_client c' = c_client c"
  by (simp add: committed_def wrote_fields)

lemma committed_sendable: "committed k bs c c' \<Longrightarrow> sendable c'"
  by (simp add: committed_def)

lemma flushLocked_streaming:
  assumes "\<exists>k. committed k (encOpen op fs) c0 c" "mw_op w = op" "mw_started w = (fs \<noteq> [])"
  shows "\<exists>c' k. flushLocked fin w c = (None, w\<lparr>mw_started := True, mw_buf := []\<rparr>, c') \<and>
    committed k (encOpen op fs @ encFrame (nextKey c) (if fs = [] then op else OpcodeContinuation) fin 0 (mw_buf w)) c0 c'"
proof -
  obtain k where k: "committed k (encOpen op fs) c0 c" using assms(1) by blast
  obtain c' where c': "emitFrameLocked (if fs = [] then op else OpcodeContinuation) fin 0 (mw_buf w) c = (None, c')"
    "committed (if c_client c then 1 else 0) (encFrame (nextKey c) (if fs = [] then op else OpcodeContinuation) fin 0 (mw_buf w)) c c'"
    using emit_sendable [OF committed_sendable [OF k]] by blast
  have "flushLocked fin w c = (None, w\<lparr>mw_started := True, mw_buf := []\<rparr>, c')"
    using committed_sendable [OF k] c'(1) assms(2,3) by (auto simp: flushLocked_def)
  then show ?thesis using committed_trans [OF k c'(2)] by blast
qed

lemma writeLoop_streaming:
  assumes "streaming c0 op fs d w c"
  shows "\<exists>fs' w' c'. writeLoop sz p w c = ((sz, None), w', c') \<and> streaming c0 op fs' (d @ p) w' c'"
  using assms
proof (induction "length p" arbitrary: p fs d w c rule: less_induct)
  case less
  let ?n = "min (fragmentCap - length (mw_buf w)) (length p)"
  let ?w = "w\<lparr>mw_buf := mw_buf w @ take ?n p\<rparr>"
  note st = less.prems [unfolded streaming_def]
  show ?case
  proof (cases "p = [] \<or> length (mw_buf w) + length p < fragmentCap")
    case True
    have "streaming c0 op fs (d @ p) (w\<lparr>mw_buf := mw_buf w @ p\<rparr>) c" if "p \<noteq> []"
      using True that st unfolding streaming_def by auto
    moreover have "w\<lparr>mw_buf := mw_buf w\<rparr> = w" by simp
    ultimately show ?thesis using True less.prems
      by (cases "p = []") (auto simp: writeLoop.simps [of sz p] writeLoop.simps [of sz "[]"] Let_def)
  next
    case False
    have n: "?n = fragmentCap - length (mw_buf w)" "0 < ?n" "?n \<le> length p" using False st by auto
    have full: "length (mw_buf ?w) = fragmentCap" using n st by simp
    obtain c' k where f: "flushLocked False (?w\<lparr>mw_mayCompress := False\<rparr>) c =
        (None, ?w\<lparr>mw_mayCompress := False, mw_started := True, mw_buf := []\<rparr>, c')"
      "committed k (encOpen op fs @ encFrame (nextKey c) (if fs = [] then op else OpcodeContinuation) False 0 (mw_buf ?w)) c0 c'"
      using flushLocked_streaming [of op fs c0 c "?w\<lparr>mw_mayCompress := False\<rparr>" False] st by auto
    have role: "(nextKey c \<noteq> None) = c_client c0" using st committed_role [of _ _ c0 c] nextKey_role [of c] by blast
    let ?w' = "?w\<lparr>mw_mayCompress := False, mw_started := True, mw_buf := []\<rparr>"
    have "streaming c0 op (fs @ [(nextKey c, mw_buf ?w)]) (d @ take ?n p) ?w' c'"
      using st f(2) full role fragmentCap unfolding streaming_def encOpen_snoc by auto
    moreover have "length (drop ?n p) < length p" using n by simp
    ultimately obtain fs' w'' c'' where "writeLoop sz (drop ?n p) ?w' c' = ((sz, None), w'', c'')"
      "streaming c0 op fs' ((d @ take ?n p) @ drop ?n p) w'' c''" using less.hyps by blast
    moreover have "writeLoop sz p w c = writeLoop sz (drop ?n p) ?w' c'"
      using False st f(1) full by (subst writeLoop.simps) (auto simp: Let_def)
    ultimately show ?thesis by auto
  qed
qed

lemma Write_streaming:
  assumes "streaming c0 op fs d w c"
  shows "\<exists>fs' w' c'. Write p w c = ((length p, None), w', c') \<and> streaming c0 op fs' (d @ p) w' c'"
  using writeLoop_streaming [OF assms, of "length p" p] assms by (simp add: Write_def streaming_def)

lemma writeChunks_streaming:
  "streaming c0 op fs d w c \<Longrightarrow>
    \<exists>fs' w' c'. writeChunks ps w c = (None, w', c') \<and> streaming c0 op fs' (d @ concat ps) w' c'"
proof (induction ps arbitrary: fs d w c)
  case (Cons p ps)
  from Write_streaming [OF Cons.prems, of p] Cons.IH show ?case by fastforce
qed auto

text \<open>The last fragment may be empty, and is the only one that is not full.\<close>

lemma CloseWriter_streaming:
  assumes "streaming c0 op fs d w c"
  shows "\<exists>w' c' k. CloseWriter w c = (None, w', c'\<lparr>c_msgWriter := None\<rparr>) \<and> mw_closed w' \<and>
    committed k (encMessage op (fs @ [(nextKey c, mw_buf w)])) c0 c'"
proof -
  note st = assms [unfolded streaming_def]
  obtain c' k where f: "flushLocked True (w\<lparr>mw_closed := True\<rparr>) c = (None, w\<lparr>mw_closed := True, mw_started := True, mw_buf := []\<rparr>, c')"
    "committed k (encOpen op fs @ encFrame (nextKey c) (if fs = [] then op else OpcodeContinuation) True 0 (mw_buf w)) c0 c'"
    using flushLocked_streaming [of op fs c0 c "w\<lparr>mw_closed := True\<rparr>" True] st by auto
  have "c_msgWriter c' = Some (mw_id w)" using f(2) st wrote_fields(5) [of c0 c'] by (simp add: committed_def)
  then have "\<exists>w'. CloseWriter w c = (None, w', c'\<lparr>c_msgWriter := None\<rparr>) \<and> mw_closed w'"
    using f(1) st by (auto simp: CloseWriter_def)
  then show ?thesis using f(2) unfolding encMessage_snoc fst_conv snd_conv by blast
qed

lemma streamMessage_ready:
  assumes "ready c" "IsData op"
  shows "\<exists>c' k fs l. streamMessage op ps c = (None, c'\<lparr>c_msgWriter := None\<rparr>) \<and>
    committed k (encMessage op (fs @ [l])) (c\<lparr>c_mode := connModeMessage, c_msgWriter := Some (c_streams c), c_streams := Suc (c_streams c)\<rparr>) c' \<and>
    concat (map snd (fs @ [l])) = concat ps \<and> list_all (\<lambda>f. length (snd f) = fragmentCap) fs \<and> length (snd l) < fragmentCap \<and>
    list_all (\<lambda>f. (fst f \<noteq> None) = c_client c) (fs @ [l])"
proof -
  define c0 where "c0 = c\<lparr>c_mode := connModeMessage, c_msgWriter := Some (c_streams c), c_streams := Suc (c_streams c)\<rparr>"
  define w :: "'a messageWriter" where "w = \<lparr>mw_id = c_streams c, mw_err = None, mw_lease = None, mw_buf = [], mw_op = op,
     mw_started = False, mw_closed = False, mw_mayCompress = False, mw_compressed = False, mw_fed = False\<rparr>"
  have n: "NextWriter op c = (Inr w, c0)"
    using assms selectMode_ready [OF assms(1)] by (simp add: NextWriter_def c0_def w_def ready_def)
  have "sendable c0" using assms by (simp add: c0_def ready_def)
  then have s: "streaming c0 op [] [] w c0"
    by (auto simp: streaming_def c0_def w_def fragmentCap intro!: exI [of _ 0])
  obtain fs w1 c1 where wr: "writeChunks ps w c0 = (None, w1, c1)" "streaming c0 op fs (concat ps) w1 c1"
    using writeChunks_streaming [OF s, of ps] by auto
  note st = wr(2) [unfolded streaming_def]
  obtain w' c' k where cl: "CloseWriter w1 c1 = (None, w', c'\<lparr>c_msgWriter := None\<rparr>)"
    "committed k (encMessage op (fs @ [(nextKey c1, mw_buf w1)])) c0 c'"
    using CloseWriter_streaming [OF wr(2)] by blast
  have c0: "c_client c0 = c_client c" by (simp add: c0_def)
  moreover have "c_client c1 = c_client c0" using st committed_role [of _ _ c0 c1] by blast
  ultimately have role: "list_all (\<lambda>f. (fst f \<noteq> None) = c_client c) (fs @ [(nextKey c1, mw_buf w1)])"
    using st nextKey_role [of c1] by (auto simp: list_all_iff)
  have "list_all (\<lambda>f. length (snd f) = fragmentCap) fs" using st by (simp add: list_all_iff)
  moreover have "streamMessage op ps c = (None, c'\<lparr>c_msgWriter := None\<rparr>)"
    using n wr(1) cl(1) by (simp add: streamMessage_def)
  ultimately show ?thesis using cl(2) role st unfolding c0_def by fastforce
qed

interpretation streamed: message_sender "\<lambda>m. streamMessage (fst m) (snd m)" "\<lambda>m. (fst m, concat (snd m))"
proof (unfold_locales, goal_cases)
  case (1 c m)
  obtain c' k fs l where s: "streamMessage (fst m) (snd m) c = (None, c'\<lparr>c_msgWriter := None\<rparr>)"
    "committed k (encMessage (fst m) (fs @ [l])) (c\<lparr>c_mode := connModeMessage, c_msgWriter := Some (c_streams c), c_streams := Suc (c_streams c)\<rparr>) c'"
    "concat (map snd (fs @ [l])) = concat (snd m)" "list_all (\<lambda>f. (fst f \<noteq> None) = c_client c) (fs @ [l])"
    using streamMessage_ready [of c "fst m" "snd m"] 1 by auto
  have "ready (c'\<lparr>c_msgWriter := None\<rparr>)" "outbox (c'\<lparr>c_msgWriter := None\<rparr>) = outbox c @ encMessage (fst m) (fs @ [l])"
    "c_client c' = c_client c"
    using s(2) wrote_fields [of "c\<lparr>c_mode := connModeMessage, c_msgWriter := Some (c_streams c), c_streams := Suc (c_streams c)\<rparr>" c'] 1(1)
    by (simp_all add: committed_def ready_def outbox_def)
  moreover have "isEncoding (c_client c) (fst m) (concat (snd m)) (encMessage (fst m) (fs @ [l]))"
    using s(3,4) unfolding isEncoding_def by (intro exI [of _ "fs @ [l]"]) simp
  ultimately show ?case using s(1) by auto
qed

section \<open>Any of them\<close>

text \<open>A program's calls that send, freely mixed.\<close>

datatype sendCall = SendWhole Opcode bytes | SendBuffered Opcode bytes | SendStream Opcode "bytes list"

fun performCall :: "sendCall \<Rightarrow> 'w Conn \<Rightarrow> connErr option \<times> 'w Conn" where
  "performCall (SendWhole op p) c = WriteMessage op p c"
| "performCall (SendBuffered op p) c = WriteMessageBuffered op p c"
| "performCall (SendStream op ps) c = streamMessage op ps c"

fun callContent :: "sendCall \<Rightarrow> Opcode \<times> bytes" where
  "callContent (SendWhole op p) = (op, p)"
| "callContent (SendBuffered op p) = (op, p)"
| "callContent (SendStream op ps) = (op, concat ps)"

interpretation calls: message_sender performCall callContent
proof (unfold_locales, goal_cases)
  case (1 c m)
  then show ?case using whole.send_ready [OF 1(1)] batched.send_ready [OF 1(1)] streamed.send_ready [OF 1(1)]
    by (cases m) auto
qed

lemma Flush_ready:
  assumes "ready c"
  shows "\<exists>c'. Flush c = (None, c') \<and> ready c' \<and> outbox c' = outbox c \<and> wire (c_conn c') = outbox c'"
proof -
  have "sendable (c\<lparr>c_mode := connModeMessage\<rparr>)" using assms by (simp add: ready_def)
  from flush_sendable [OF this] obtain c' where c': "flushBufferedLocked (c\<lparr>c_mode := connModeMessage\<rparr>) = (None, c')"
    "committed 0 [] (c\<lparr>c_mode := connModeMessage\<rparr>) c'" "c_wbatch c' = []" by blast
  then show ?thesis using selectMode_ready [OF assms] committed_ready [OF c'(2) assms]
    by (auto simp: Flush_def outbox_def)
qed

end
