(* ===== verification/Session.thy ===== *)
theory Session
  imports Message_Spec Writer_Spec
begin

text \<open>
  Two connections talking: what one sends, the other reads. The lemmas run the parser of a receiving
  connection over the frames the operations of a sending one commit.
\<close>

section \<open>Decoding an encoded frame\<close>

definition frameHeader :: "32 word option \<Rightarrow> Opcode \<Rightarrow> bool \<Rightarrow> byte \<Rightarrow> bytes \<Rightarrow> Header" where
  "frameHeader key op fin rsv p = \<lparr>h_Fin = fin, h_Rsv = rsv, h_Opcode = op, h_Masked = (key \<noteq> None),
     h_MaskKey = (case key of None \<Rightarrow> 0 | Some k \<Rightarrow> k), h_Length = int (length p)\<rparr>"

definition framePayload :: "32 word option \<Rightarrow> bytes \<Rightarrow> bytes" where
  "framePayload key p = (case key of None \<Rightarrow> p | Some k \<Rightarrow> fst (Mask p k))"

lemma encFrame_parts:
  "encFrame key op fin rsv p = AppendHeader [] (frameHeader key op fin rsv p) @ framePayload key p"
  by (cases key) (simp_all add: encFrame_def frameHeader_def framePayload_def)

lemma length_framePayload [simp]: "length (framePayload key p) = length p"
  by (cases key) (simp_all add: framePayload_def purego.masked_bytes)

lemma unmask_framePayload:
  "unmask (h_Masked (frameHeader key op fin rsv p)) (h_MaskKey (frameHeader key op fin rsv p)) (framePayload key p) = p"
  by (cases key) (simp_all add: frameHeader_def framePayload_def unmask_def purego.involution flip: purego.meets_Spec)

definition dataOp :: "Opcode \<Rightarrow> bool" where
  "dataOp op \<longleftrightarrow> op = OpcodeText \<or> op = OpcodeBinary \<or> op = OpcodeContinuation"

lemma wfHeader_data:
  "dataOp op \<Longrightarrow> int (length p) < 2 ^ 63 \<Longrightarrow> wfHeader (frameHeader key op fin 0 p)"
  by (auto simp: wfHeader_def frameHeader_def dataOp_def reservedOpcode_def opcode_defs IsControl_def word_le_nat_alt)

lemma decode_encFrame:
  assumes "dataOp op" "int (length p) < 2 ^ 63" "(key \<noteq> None) = (\<not> client)"
  shows "decodeFor client compression (encFrame key op fin 0 p @ rest) =
    Inr (frameHeader key op fin 0 p, length (AppendHeader [] (frameHeader key op fin 0 p)))"
  using decodeFor_AppendHeader [OF wfHeader_data [OF assms(1,2)], where client = client and rest = "framePayload key p @ rest"] assms(3)
  by (simp add: encFrame_parts rsvAllowed_def) (simp add: frameHeader_def)

section \<open>Parsing an encoded message\<close>

text \<open>What the receiver must be able to take: a message within its limits and, for text it checks, valid UTF-8.\<close>

definition admits :: "'w Conn \<Rightarrow> Opcode \<Rightarrow> bytes \<Rightarrow> bool" where
  "admits a op p \<longleftrightarrow> int (length p) \<le> c_readLimit a \<and> int (length p) < maxAlloc \<and>
     (op = OpcodeText \<and> \<not> c_skipUTF8 a \<longrightarrow> run accept p = accept)"

lemma run_prefix: "run st (p @ q) \<noteq> reject \<Longrightarrow> run st p \<noteq> reject"
  using run_reject [of q] by (metis run_append)

text \<open>The parser on one data frame that breaks no rule.\<close>

lemma specData_encoded:
  fixes a :: "'w Conn"
  assumes "int (length buf + length p) \<le> c_readLimit a" "int (length buf + length p) < maxAlloc"
    "\<not> c_msgCompressed a" "runIf (c_msgIsText a \<and> \<not> c_skipUTF8 a) st p \<noteq> reject"
  shows "specData (frameHeader key op False 0 p) m buf st (framePayload key p @ rest) a =
      Inr (buf @ p, runIf (c_msgIsText a \<and> \<not> c_skipUTF8 a) st p)"
    "(c_msgIsText a \<and> \<not> c_skipUTF8 a \<longrightarrow> run st p = accept) \<Longrightarrow>
      specData (frameHeader key op True 0 p) m buf st (framePayload key p @ rest) a = Inl (Inr (m, buf @ p), a, rest)"
  using assms unmask_framePayload [of key op _ 0 p]
  by (auto simp: specData_def Let_def frameHeader_def maxAlloc_def runIf_def)

lemma specLoop_frame:
  fixes a :: "'w Conn" and msgOp :: Opcode and fin :: bool
  assumes "dataOp op" "(key \<noteq> None) = (\<not> c_client a)" "int (length p) < 2 ^ 63"
    "inMessage = (op = OpcodeContinuation)"
  defines "h \<equiv> frameHeader key op fin 0 p"
  defines "m \<equiv> if op = OpcodeContinuation then msgOp else op"
  shows "specLoop inMessage msgOp buf st (encFrame key op fin 0 p @ rest) a =
    (case specData h m buf st (framePayload key p @ rest) (specBegin h a) of
       Inl r \<Rightarrow> r
     | Inr (buf, st) \<Rightarrow> specLoop True m buf st rest (specBegin h a))"
proof -
  have "\<not> IsControl (h_Opcode h)" "isOpening h = (op \<noteq> OpcodeContinuation)" "h_Opcode h = op"
    using assms(1) by (auto simp: h_def frameHeader_def dataOp_def IsControl_def isOpening_def opcode_defs)
  moreover have "decodeFor (c_client a) (c_compression a) (encFrame key op fin 0 p @ rest) =
      Inr (h, length (AppendHeader [] h))"
    using decode_encFrame [OF assms(1,3,2)] by (simp add: h_def)
  moreover have "nat (h_Length h) = length p" by (simp add: h_def frameHeader_def)
  ultimately show ?thesis using assms(4) unfolding m_def
    by (subst specLoop.simps) (auto simp: encFrame_parts Let_def simp flip: h_def split: sum.split)
qed

lemma specLoop_continue:
  fixes a :: "'w Conn"
  assumes "fs \<noteq> []" "list_all (\<lambda>f. (fst f \<noteq> None) = (\<not> c_client a)) fs" "\<not> c_msgCompressed a"
    "int (length buf + length (concat (map snd fs))) \<le> c_readLimit a"
    "int (length buf + length (concat (map snd fs))) < maxAlloc"
    "c_msgIsText a \<and> \<not> c_skipUTF8 a \<longrightarrow> run st (concat (map snd fs)) = accept" "st \<noteq> reject"
  shows "specLoop True msgOp buf st (encMessage OpcodeContinuation fs @ rest) a =
    (Inr (msgOp, buf @ concat (map snd fs)), a, rest)"
  using assms
proof (induction OpcodeContinuation fs arbitrary: buf st rule: encMessage.induct)
  case (2 k p)
  then show ?case
    using specLoop_frame [where op = OpcodeContinuation and key = k and a = a and p = p and fin = True]
      specData_encoded [of buf p a st k OpcodeContinuation]
    by (auto simp: dataOp_def specBegin_def isOpening_def frameHeader_def opcode_defs maxAlloc_def runIf_def)
next
  case (3 k p f fs)
  let ?st = "runIf (c_msgIsText a \<and> \<not> c_skipUTF8 a) st p"
  have ne: "?st \<noteq> reject"
    using 3(7,8) run_prefix [of st p "concat (map snd (f # fs))"] by (auto simp: runIf_def)
  have "specLoop True msgOp (buf @ p) ?st (encMessage OpcodeContinuation (f # fs) @ rest) a =
      (Inr (msgOp, (buf @ p) @ concat (map snd (f # fs))), a, rest)"
    using 3 ne by (intro "3.hyps"(1)) (auto simp: runIf_def run_append)
  then show ?case using ne 3(3-6)
      specLoop_frame [where op = OpcodeContinuation and key = k and a = a and p = p and fin = False]
      specData_encoded [of buf p a st k OpcodeContinuation]
    by (auto simp: dataOp_def specBegin_def isOpening_def frameHeader_def opcode_defs maxAlloc_def)
qed simp

lemma specMessage_encoding:
  assumes "isEncoding (\<not> c_client a) op p bs" "IsData op" "admits a op p"
  shows "specMessage (bs @ rest) a =
    (Inr (op, p), a\<lparr>c_mode := connModeMessage, c_msgIsText := (op = OpcodeText), c_msgCompressed := False\<rparr>, rest)"
proof -
  obtain k q fs where fs: "bs = encMessage op ((k, q) # fs)" "q @ concat (map snd fs) = p"
    "(k \<noteq> None) = (\<not> c_client a)" "list_all (\<lambda>f. (fst f \<noteq> None) = (\<not> c_client a)) fs"
    using assms(1) unfolding isEncoding_def by (auto simp: neq_Nil_conv)
  let ?a = "a\<lparr>c_mode := connModeMessage\<rparr>"
  define b where "b = a\<lparr>c_mode := connModeMessage, c_msgIsText := (op = OpcodeText), c_msgCompressed := False\<rparr>"
  define st where "st = runIf (c_msgIsText b \<and> \<not> c_skipUTF8 b) accept q"
  have b: "specBegin (frameHeader k op fin 0 q) ?a = b" for fin
    using assms(2) by (auto simp: b_def specBegin_def isOpening_def frameHeader_def IsData_def RSV1_def)
  have p: "int (length p) \<le> c_readLimit b" "int (length p) < maxAlloc" "\<not> c_msgCompressed b"
    "c_msgIsText b \<and> \<not> c_skipUTF8 b \<longrightarrow> run accept p = accept"
    using assms(3) by (auto simp: admits_def b_def)
  have ne: "st \<noteq> reject"
    using p(4) run_prefix [of accept q "concat (map snd fs)"] fs(2) by (auto simp: st_def runIf_def)
  have len: "length p = length q + length (concat (map snd fs))" using fs(2) by auto
  have q: "int (length [] + length q) \<le> c_readLimit b" "int (length [] + length q) < maxAlloc"
    using p(1,2) len by auto
  have op: "dataOp op" "op \<noteq> OpcodeContinuation" using assms(2) by (auto simp: dataOp_def IsData_def opcode_defs)
  note step = specLoop_frame [where a = ?a and op = op and key = k and p = q and inMessage = False and msgOp = 0]
  note frame = specData_encoded [OF q p(3) ne [unfolded st_def], folded st_def]
  show ?thesis
  proof (cases fs)
    case Nil
    then have "run accept q = accept" if "c_msgIsText b \<and> \<not> c_skipUTF8 b" using p(4) fs(2) that by simp
    then show ?thesis
      using Nil fs step [where fin = True] frame(2) [of k op op rest] op q b by (auto simp: specMessage_def b_def maxAlloc_def)
  next
    case (Cons f fs')
    have "specLoop True op q st (encMessage OpcodeContinuation fs @ rest) b = (Inr (op, q @ concat (map snd fs)), b, rest)"
      using Cons fs p ne len
      by (intro specLoop_continue) (auto simp: st_def runIf_def b_def simp flip: run_append)
    then show ?thesis
      using Cons fs step [where fin = False] frame(1) [of k op op "encMessage OpcodeContinuation fs @ rest"] op q b
      by (auto simp: specMessage_def b_def maxAlloc_def)
  qed
qed

section \<open>Reading a sequence of messages\<close>

primrec readMessages :: "nat \<Rightarrow> 'w Conn \<Rightarrow> (connErr + (Opcode \<times> bytes) list) \<times> 'w Conn" where
  "readMessages 0 c = (Inr [], c)"
| "readMessages (Suc n) c =
     (case ReadMessage c of
        (Inl e, c) \<Rightarrow> (Inl e, c)
      | (Inr m, c) \<Rightarrow>
        (case readMessages n c of
           (Inl e, c) \<Rightarrow> (Inl e, c)
         | (Inr ms, c) \<Rightarrow> (Inr (m # ms), c)))"

text \<open>A connection between two messages.\<close>

definition listening :: "'w Conn \<Rightarrow> bool" where
  "listening c \<longleftrightarrow> readable c \<and> c_msgReader c = None \<and> (c_mode c = 0 \<or> c_mode c = connModeMessage)"

lemma ReadMessage_encoding:
  assumes "listening c" "pending c = bs @ rest" "isEncoding (\<not> c_client c) op p bs" "IsData op" "admits c op p"
  shows "\<exists>c'. ReadMessage c = (Inr (op, p), c') \<and> listening c' \<and> pending c' = rest \<and> c_client c' = c_client c \<and>
    (\<forall>op p. admits c' op p = admits c op p)"
proof -
  define a where "a = (erase c)\<lparr>c_mode := connModeMessage, c_msgIsText := (op = OpcodeText), c_msgCompressed := False\<rparr>"
  have "specMessage (pending c) (erase c) = (Inr (op, p), a, rest)"
    using specMessage_encoding [of "erase c" op p bs rest] assms by (simp add: a_def admits_def)
  then obtain c' where c': "ReadMessage c = (Inr (op, p), c')" "agrees c' a rest"
    using ReadMessage_refines [of c "Inr (op, p)" a rest] assms(1) by (auto simp: listening_def)
  have e: "erase c' = a" using c'(2) by (simp add: agrees_def)
  note f = arg_cong [OF e, of c_client] arg_cong [OF e, of c_readLimit] arg_cong [OF e, of c_skipUTF8]
    arg_cong [OF e, of c_tornDown] arg_cong [OF e, of c_mode] arg_cong [OF e, of c_msgReader]
  have "\<not> c_tornDown c" "c_msgReader c = None" using assms(1) by (auto simp: listening_def readable_def)
  then have "\<not> c_tornDown c'" "c_msgReader c' = None" "c_mode c' = connModeMessage" "c_client c' = c_client c"
    "c_readLimit c' = c_readLimit c" "c_skipUTF8 c' = c_skipUTF8 c"
    using f by (simp_all add: a_def) (simp_all add: erase_def)
  then show ?thesis using c' by (simp add: agrees_def listening_def admits_def)
qed

lemma readMessages_encodings:
  assumes "listening c" "pending c = concat bss @ rest"
    "list_all2 (\<lambda>m. isEncoding (\<not> c_client c) (fst m) (snd m)) ms bss"
    "list_all (\<lambda>m. IsData (fst m) \<and> admits c (fst m) (snd m)) ms"
  shows "\<exists>c'. readMessages (length ms) c = (Inr ms, c') \<and> listening c' \<and> pending c' = rest"
  using assms
proof (induction ms arbitrary: c bss)
  case (Cons m ms)
  then obtain bs bss' where b: "bss = bs # bss'" "isEncoding (\<not> c_client c) (fst m) (snd m) bs"
    "list_all2 (\<lambda>m. isEncoding (\<not> c_client c) (fst m) (snd m)) ms bss'"
    by (auto simp: list_all2_Cons1)
  obtain c1 where c1: "ReadMessage c = (Inr m, c1)" "listening c1" "pending c1 = concat bss' @ rest"
    "c_client c1 = c_client c" "\<And>op p. admits c1 op p = admits c op p"
    using ReadMessage_encoding [OF Cons.prems(1) _ b(2)] Cons.prems(2,4) b(1) by auto
  obtain c' where "readMessages (length ms) c1 = (Inr ms, c')" "listening c'" "pending c' = rest"
    using Cons.IH [OF c1(2,3)] b(3) Cons.prems(4) c1 by auto
  then show ?case using c1(1) by auto
qed simp

section \<open>From one connection to the other\<close>

lemma newConn_ready:
  assumes "newConn nc vectored client active keys opts = Inr c" "writesOk nc"
    "\<not> cc_compression (foldl (\<lambda>c opt. applyOption opt c) defaultConfig opts)"
  shows "ready c" "outbox c = wire nc" "c_client c = client"
  using assms by (auto simp: newConn_def Let_def ready_def outbox_def split: prod.splits intro!: sendableI)

lemma isEncoding_nonempty: "isEncoding client op p bs \<Longrightarrow> bs \<noteq> []"
  unfolding isEncoding_def
proof (elim exE conjE)
  fix fs assume "fs \<noteq> []" "bs = encMessage op fs"
  then show "bs \<noteq> []" by (cases "(op, fs)" rule: encMessage.cases) (simp_all add: encFrame_parts AppendHeader_parts)
qed

text \<open>C5: What a connection without compression sends, its peer reads. The sender's transport accepts every write; the
  connection is open, has sent no Close, has negotiated no compression, is in message mode or in none yet, has no
  streaming writer open, and has written and staged nothing so far. Text and binary messages sent in any mix of \<^verbatim>\<open>WriteMessage\<close>,
  \<^verbatim>\<open>WriteMessageBuffered\<close> and streaming writers (in any number of \<^verbatim>\<open>Write\<close> calls, cut into any number of frames),
  followed by a \<^verbatim>\<open>Flush\<close>, then all succeed. A peer of the other role, open, in message mode or in none yet, with no read
  error and no streaming reader, that is sent those bytes on a transport that fails no read, in whatever pieces they
  arrive, reads back exactly those messages, in order, with nothing left over, provided that
  its read limit admits each message and that text is UTF-8 unless it skips the check.\<close>

theorem session_roundtrip:
  assumes "ready s" "outbox s = []" "list_all (\<lambda>m. IsData (fst (callContent m))) ms"
  shows "\<exists>s1 s2. sendAll performCall ms s = (None, s1) \<and> Flush s1 = (None, s2) \<and>
    (\<forall>r. listening r \<and> c_client r = (\<not> c_client s) \<and> pending r = wire (c_conn s2) \<and>
      list_all (\<lambda>m. admits r (fst (callContent m)) (snd (callContent m))) ms \<longrightarrow>
      (\<exists>r'. readMessages (length ms) r = (Inr (map callContent ms), r') \<and> listening r' \<and> pending r' = []))"
proof -
  obtain s1 bss where s1: "sendAll performCall ms s = (None, s1)" "ready s1" "outbox s1 = concat bss"
    "list_all2 (\<lambda>m. isEncoding (c_client s) (fst (callContent m)) (snd (callContent m))) ms bss"
    using calls.sendAll_ready [OF assms(1,3)] assms(2) by auto
  obtain s2 where s2: "Flush s1 = (None, s2)" "wire (c_conn s2) = concat bss"
    using Flush_ready [OF s1(2)] s1(3) by auto
  have "\<exists>r'. readMessages (length ms) r = (Inr (map callContent ms), r') \<and> listening r' \<and> pending r' = []"
    if r: "listening r" "c_client r = (\<not> c_client s)" "pending r = wire (c_conn s2)"
      "list_all (\<lambda>m. admits r (fst (callContent m)) (snd (callContent m))) ms" for r :: "'b Conn"
    using readMessages_encodings [of r bss "[]" "map callContent ms"] r s1(4) s2(2) assms(3)
    by (simp add: list_all2_map1 list_all_iff)
  then show ?thesis using s1(1) s2(1) by blast
qed

lemma demo_ready:
  "\<exists>s. newConn demoTransport True False storeConfig (\<lambda>_. 0) [] = Inr s \<and> ready s \<and> outbox s = [] \<and> \<not> c_client s"
proof -
  obtain s where s: "newConn demoTransport True False storeConfig (\<lambda>_. 0) [] = Inr s"
    by (auto simp: newConn_def defaultConfig_def Let_def case_prod_beta)
  have "writesOk demoTransport" "wire demoTransport = []" by (simp_all add: writesOk_def demoTransport_def wire_def)
  then show ?thesis using newConn_ready [OF s] s by (simp add: defaultConfig_def)
qed

text \<open>A receiver of any byte string.\<close>

lemma demo_listening:
  assumes "bs \<noteq> []"
  shows "\<exists>r :: bytes Conn. listening r \<and> c_client r \<and> pending r = bs \<and> c_readLimit r = defaultReadLimit"
proof -
  let ?t = "demoTransport\<lparr>t_reads := [(bs, None)]\<rparr>"
  obtain r where r: "newConn ?t True True storeConfig (\<lambda>_. 0) [] = Inr r"
    by (auto simp: newConn_def defaultConfig_def Let_def case_prod_beta)
  have "steady ?t" using assms by (simp add: steady_def demoTransport_def)
  from newConn_readable [OF r this] have "listening r" "pending r = bs"
    by (simp_all add: listening_def defaultConfig_def defaultReadBufferSize_def pool_consts incoming_def)
  moreover have "c_client r" "c_readLimit r = defaultReadLimit"
    using r by (auto simp: newConn_def defaultConfig_def Let_def split: prod.splits)
  ultimately show ?thesis by blast
qed

theorem session_roundtrip_witness:
  "\<exists>(s :: bytes Conn) s1 s2 (r :: bytes Conn) r'.
     newConn demoTransport True False storeConfig (\<lambda>_. 0) [] = Inr s \<and>
     sendAll performCall [SendBuffered OpcodeText [0x68, 0x69], SendStream OpcodeBinary [[0xff], [], [0xfe]],
       SendWhole OpcodeText []] s = (None, s1) \<and> Flush s1 = (None, s2) \<and>
     readMessages 3 r = (Inr [(OpcodeText, [0x68, 0x69]), (OpcodeBinary, [0xff, 0xfe]), (OpcodeText, [])], r')"
proof -
  define ms where "ms = [SendBuffered OpcodeText [0x68, 0x69], SendStream OpcodeBinary [[0xff], [], [0xfe]], SendWhole OpcodeText []]"
  have ms: "list_all (\<lambda>m. IsData (fst (callContent m))) ms" "length ms = 3"
    "map callContent ms = [(OpcodeText, [0x68, 0x69]), (OpcodeBinary, [0xff, 0xfe]), (OpcodeText, [])]"
    by (simp_all add: ms_def IsData_def)
  obtain s :: "bytes Conn" where s: "newConn demoTransport True False storeConfig (\<lambda>_. 0) [] = Inr s" "ready s" "outbox s = []" "\<not> c_client s"
    using demo_ready by blast
  obtain s1 s2 where r: "sendAll performCall ms s = (None, s1)" "Flush s1 = (None, s2)"
    "\<forall>r :: bytes Conn. listening r \<and> c_client r = (\<not> c_client s) \<and> pending r = wire (c_conn s2) \<and>
      list_all (\<lambda>m. admits r (fst (callContent m)) (snd (callContent m))) ms \<longrightarrow>
      (\<exists>r'. readMessages (length ms) r = (Inr (map callContent ms), r') \<and> listening r' \<and> pending r' = [])"
    using session_roundtrip [OF s(2,3) ms(1)] by blast
  obtain bss where b: "wire (c_conn s2) = concat bss" "list_all2 (\<lambda>m. isEncoding False (fst (callContent m)) (snd (callContent m))) ms bss"
    using calls.sendAll_ready [OF s(2) ms(1)] Flush_ready [of s1] r(1,2) s(3,4) by auto
  have "wire (c_conn s2) \<noteq> []"
    using b by (auto simp: ms_def list_all2_Cons1 dest: isEncoding_nonempty)
  then obtain d :: "bytes Conn" where d: "listening d" "c_client d" "pending d = wire (c_conn s2)" "c_readLimit d = defaultReadLimit"
    using demo_listening by blast
  have "list_all (\<lambda>m. admits d (fst (callContent m)) (snd (callContent m))) ms"
    using d(4) by (simp add: ms_def admits_def defaultReadLimit_def maxAlloc_def opcode_defs)
  then obtain r' where r': "readMessages 3 d = (Inr (map callContent ms), r')"
    using r(3) d s(4) unfolding ms(2) by blast
  show ?thesis
    by (intro exI [of _ s] exI [of _ s1] exI [of _ s2] exI [of _ d] exI [of _ r'] conjI)
      (use s(1) r(1,2) r' ms(3) in \<open>simp_all only: ms_def\<close>)
qed

end
