(* ===== verification/Relay.thy ===== *)
theory Relay
  imports Reader Stream_Writer
begin

text \<open>
  The frame-level interface for relays: \<^verbatim>\<open>src/relay.go\<close>, \<^verbatim>\<open>src/relay_reader.go\<close>, \<^verbatim>\<open>src/relay_writer.go\<close> and
  \<^verbatim>\<open>src/relay_compress.go\<close>. Frames are read, written and decoded one at a time; nothing is answered and
  nothing is closed on the program's behalf.
\<close>

record Frame =
  f_Header :: Header
  f_Payload :: bytes
  f_Compressed :: bool

section \<open>Reading frames\<close>

definition relayProtocolError :: "CloseCode \<Rightarrow> bytes \<Rightarrow> 'w Conn \<Rightarrow> connErr \<times> 'w Conn" where
  "relayProtocolError code reason c =
     (let err = ProtocolError code reason in (err, c\<lparr>c_readErr := Some err\<rparr>))"

definition relayTransportError :: "connErr \<Rightarrow> 'w Conn \<Rightarrow> connErr \<times> 'w Conn" where
  "relayTransportError err c = (err, teardown (c\<lparr>c_readErr := Some err\<rparr>))"

function readRelayHeader :: "'w Conn \<Rightarrow> (connErr + Header) \<times> 'w Conn" where
  "readRelayHeader c =
     (let fill =
        (case fillOnce c of
           (Some e, c) \<Rightarrow>
             let err = (if e = EOF then
                          if c_r1 c - c_r0 c \<noteq> 0 then IOErr UnexpectedEOF
                          else if c_closeRcvd c then ErrPeerClosed
                          else if fr_active (c_frameRead c) then IOErr UnexpectedEOF
                          else IOErr e
                        else IOErr e)
             in failWith (relayTransportError err c)
         | (None, c) \<Rightarrow> readRelayHeader c) in
      if c_r1 c - c_r0 c \<ge> 2 then
        (case decodeFrameHeaderFast (c_hdrTable c) (c_hdrMaskBit c) (window c) of
           Inr (h, n) \<Rightarrow> (Inr h, c\<lparr>c_r0 := c_r0 c + n\<rparr>)
         | Inl rejectShort \<Rightarrow> fill
         | Inl reason \<Rightarrow> failWith (relayProtocolError CloseProtocolError (closeMessage reason (c_client c)) c))
      else fill)"
  by pat_completeness auto
termination
  by (relation "measure (\<lambda>c. unread (c_conn c))") (simp, metis fillOnce_unread in_measure)

declare readRelayHeader.simps [simp del]

text \<open>The checks on a data frame before its payload, and what they record.\<close>

definition beginRelayFrame :: "Header \<Rightarrow> 'w Conn \<Rightarrow> connErr option \<times> 'w Conn" where
  "beginRelayFrame h c =
     (let fail = (\<lambda>code reason. case relayProtocolError code reason c of (e, c) \<Rightarrow> (Some e, c)) in
      if IsControl (h_Opcode h) then (None, c)
      else if c_closeRcvd c then fail CloseProtocolError (B ''data frame after Close'')
      else if IsData (h_Opcode h) \<and> fr_active (c_frameRead c) then
        fail CloseProtocolError (B ''new data frame while awaiting continuation'')
      else if \<not> IsData (h_Opcode h) \<and> \<not> fr_active (c_frameRead c) then
        fail CloseProtocolError (B ''continuation frame with no message in progress'')
      else
        let c = (if IsData (h_Opcode h) then
                   c\<lparr>c_frameRead := \<lparr>fr_active = True, fr_compressed = (h_Rsv h = RSV1),
                       fr_text = (h_Opcode h = OpcodeText), fr_total = 0\<rparr>,
                     c_utf8v := Reset (c_utf8v c)\<rparr>
                 else c) in
        if h_Length h > i64 (c_readLimit c - fr_total (c_frameRead c)) then
          (case relayProtocolError CloseMessageTooBig (B ''message exceeds read limit'') c of (e, c) \<Rightarrow> (Some e, c))
        else (None, c\<lparr>c_frameRead := (c_frameRead c)\<lparr>fr_total := i64 (fr_total (c_frameRead c) + h_Length h)\<rparr>\<rparr>))"

definition relayValidates :: "Header \<Rightarrow> 'w Conn \<Rightarrow> bool" where
  "relayValidates h c \<longleftrightarrow> \<not> IsControl (h_Opcode h) \<and> fr_text (c_frameRead c) \<and>
     \<not> fr_compressed (c_frameRead c) \<and> \<not> c_skipUTF8 c"

text \<open>The payload: what has arrived is unmasked in place, checked and appended, then more is read.\<close>

definition relayChunk :: "Header \<Rightarrow> nat \<Rightarrow> 32 word \<Rightarrow> 'w Conn \<Rightarrow> connErr option \<times> 32 word \<times> 'w Conn" where
  "relayChunk h n key c =
     (let chunk = take n (drop (c_r0 c) (c_rbuf c));
          (chunk, key) = unmaskChunk (h_Masked h) chunk key;
          c = c\<lparr>c_rbuf := copyAt (c_rbuf c) (c_r0 c) chunk\<rparr>;
          (v, ok) = feedChunk (relayValidates h c) (c_utf8v c) chunk;
          c = c\<lparr>c_utf8v := v\<rparr> in
      if \<not> ok then
        (case relayProtocolError CloseInvalidFramePayloadData (B ''invalid UTF-8 in text message'') c of
           (e, c) \<Rightarrow> (Some e, key, c))
      else (None, key, c\<lparr>c_msgBuf := c_msgBuf c @ chunk, c_r0 := c_r0 c + n\<rparr>))"

lemma relayChunk_unread: "relayChunk h n key c = (r, key', c') \<Longrightarrow> c_conn c' = c_conn c"
  by (auto simp: relayChunk_def relayProtocolError_def Let_def split: prod.splits if_splits)

function relayPayload :: "Header \<Rightarrow> int \<Rightarrow> 32 word \<Rightarrow> 'w Conn \<Rightarrow> connErr option \<times> 'w Conn" where
  "relayPayload h remaining key c =
     (if remaining > 0 then
        if windowEmpty c then
          (case fillOnce c of
             (Some e, c) \<Rightarrow>
               (case relayTransportError (IOErr (if e = EOF then UnexpectedEOF else e)) c of (e, c) \<Rightarrow> (Some e, c))
           | (None, c) \<Rightarrow> relayPayload h remaining key c)
        else
          let n = nat (min remaining (int (c_r1 c - c_r0 c))) in
          (case relayChunk h n key c of
             (Some e, _, c) \<Rightarrow> (Some e, c)
           | (None, key, c) \<Rightarrow> relayPayload h (remaining - int n) key c)
      else (None, c))"
  by pat_completeness auto
termination
proof (relation "measures [\<lambda>(_, _, _, c). unread (c_conn c), \<lambda>(_, remaining, _, _). nat remaining]", goal_cases)
  case 1
  show ?case by simp
next
  case (2 h remaining key c e c')
  then show ?case using fillOnce_unread [of c c'] by simp
next
  case (3 h remaining key c n x r key' c')
  then show ?case using relayChunk_unread [of h n key c None key' c'] by (cases r) (simp add: windowEmpty_def)
qed

declare relayPayload.simps [simp del]

definition ReadFrame :: "'w Conn \<Rightarrow> (connErr + Frame) \<times> 'w Conn" where
  "ReadFrame c =
     (case selectMode connModeFrame c of
        (Some e, c) \<Rightarrow> (Inl e, c)
      | (None, c) \<Rightarrow>
        (case c_readErr c of
           Some e \<Rightarrow> (Inl e, c)
         | None \<Rightarrow>
             if c_tornDown c then (Inl ErrNetClosed, c)
             else
               (case readRelayHeader c of
                  (Inl e, c) \<Rightarrow> (Inl e, c)
                | (Inr h, c) \<Rightarrow>
                  (case beginRelayFrame h c of
                     (Some e, c) \<Rightarrow> (Inl e, c)
                   | (None, c) \<Rightarrow>
                     (case relayPayload h (h_Length h) (h_MaskKey h) (c\<lparr>c_msgBuf := []\<rparr>) of
                        (Some e, c) \<Rightarrow> (Inl e, c)
                      | (None, c) \<Rightarrow>
                          let f = \<lparr>f_Header = h, f_Payload = c_msgBuf c,
                                   f_Compressed = (\<not> IsControl (h_Opcode h) \<and> fr_compressed (c_frameRead c))\<rparr> in
                          if h_Opcode h = OpcodeClose then
                            (case ParseClose (f_Payload f) of
                               Inl e \<Rightarrow> (Inl e, c\<lparr>c_readErr := Some e\<rparr>)
                             | Inr _ \<Rightarrow> (Inr f, c\<lparr>c_closeRcvd := True\<rparr>))
                          else if \<not> IsControl (h_Opcode h) \<and> h_Fin h then
                            if relayValidates h c \<and> \<not> Done (c_utf8v c)
                            then failWith (relayProtocolError CloseInvalidFramePayloadData
                              (B ''incomplete UTF-8 sequence at message end'') c)
                            else (Inr f, c\<lparr>c_frameRead := (c_frameRead c)\<lparr>fr_active := False\<rparr>\<rparr>)
                          else (Inr f, c))))))"

definition Abort :: "'w Conn \<Rightarrow> connErr option \<times> 'w Conn" where
  "Abort c =
     (case selectMode connModeFrame c of
        (Some e, c) \<Rightarrow> (Some e, c)
      | (None, c) \<Rightarrow> (None, teardown (frameStop c)))"

section \<open>Writing frames\<close>

definition failFrameWrite :: "connErr \<Rightarrow> 'w Conn \<Rightarrow> connErr option \<times> 'w Conn" where
  "failFrameWrite err c =
     (let c = c\<lparr>c_frameWrite := (c_frameWrite c)\<lparr>fw_err := Some err\<rparr>\<rparr>
      in (Some err, frameStop (releaseFrameCompressor c)))"

text \<open>\<^verbatim>\<open>ProtocolError.Error()\<close>\<close>

definition protocolErrorText :: "CloseCode \<Rightarrow> bytes \<Rightarrow> bytes" where
  "protocolErrorText code reason = B ''gows: protocol error ('' @ decimal (unat code) @ B ''): '' @ reason"

text \<open>
  The checks of \<^verbatim>\<open>WriteFrame\<close>. \<open>Inl\<close> returns early, with an error or, for a second Close, with none; \<open>Inr\<close> goes
  on to write, with the write state the checks leave.
\<close>

definition admitFrame :: "Opcode \<Rightarrow> bool \<Rightarrow> bytes \<Rightarrow> bool \<Rightarrow> 'w Conn \<Rightarrow> (connErr option + unit) \<times> 'w Conn" where
  "admitFrame op fin payload compress c =
     (let s = c_frameWrite c;
          usage = (\<lambda>reason. (Inl (Some (FrameUsageError (B reason))), c)) in
      if IsControl op then
        if op \<noteq> OpcodePing \<and> op \<noteq> OpcodePong \<and> op \<noteq> OpcodeClose then usage ''unsupported control opcode''
        else if \<not> fin \<or> length payload > 125 \<or> compress then
          usage ''controls must be final, at most 125 bytes and uncompressed''
        else if op = OpcodeClose then
          (case validateCloseBody payload True of
             Inl (code, reason) \<Rightarrow> (Inl (Some (FrameUsageError (protocolErrorText code reason))), c)
           | Inr _ \<Rightarrow> if c_closeSent c then (Inl None, c) else (Inr (), c))
        else (Inr (), c)
      else if c_closeSent c \<or> c_closeRcvd c then (Inl (Some ErrWriteClosed), c)
      else if IsData op then
        if fw_active s then usage ''new data frame while awaiting continuation''
        else if compress \<and> \<not> c_compression c then usage ''compression was not negotiated''
        else if compress \<and> outgoingDisabled c then (Inl (Some ErrUnsupportedWindowBits), c)
        else
          (case (if compress then takeLease c else (Inr (fw_lease s), c)) of
             (Inl e, c) \<Rightarrow> (Inl (Some e), c)
           | (Inr l, c) \<Rightarrow>
               if compress \<and> l = None then (Inl (Some ErrUnsupportedWindowBits), c)
               else (Inr (), c\<lparr>c_frameWrite := s\<lparr>fw_lease := l, fw_active := True, fw_compressed := compress\<rparr>\<rparr>))
      else if op \<noteq> OpcodeContinuation then usage ''unsupported data opcode''
      else if \<not> fw_active s then usage ''continuation without an open message''
      else if compress \<noteq> fw_compressed s then usage ''continuation compression disagrees with opening frame''
      else (Inr (), c))"

text \<open>
  Compressing one frame of a compressed message: the four marker bytes are stripped from the last frame
  only. The lease is there whenever the message is compressed.
\<close>

definition compressFrame :: "Opcode \<Rightarrow> bool \<Rightarrow> bytes \<Rightarrow> 'w Conn \<Rightarrow> (connErr + byte \<times> bytes) \<times> 'w Conn" where
  "compressFrame op fin payload c =
     (case (if \<not> IsControl op \<and> fw_compressed (c_frameWrite c) then fw_lease (c_frameWrite c) else None) of
        None \<Rightarrow> (Inr (0, payload), c)
      | Some l \<Rightarrow>
          (case leaseWriteAndFlush payload (l\<lparr>l_sw := []\<rparr>) c of
             (res, l, c) \<Rightarrow>
               let c = c\<lparr>c_frameWrite := (c_frameWrite c)\<lparr>fw_lease := Some l\<rparr>\<rparr> in
               case res of
                 Inl e \<Rightarrow> (Inl (compressFailure e), c)
               | Inr out \<Rightarrow> (Inr (if IsData op then RSV1 else 0, if fin then out else l_sw l), c)))"

definition WriteFrame :: "Opcode \<Rightarrow> bool \<Rightarrow> bytes \<Rightarrow> bool \<Rightarrow> 'w Conn \<Rightarrow> connErr option \<times> 'w Conn" where
  "WriteFrame op fin payload compress c =
     (case selectMode connModeFrame c of
        (Some e, c) \<Rightarrow> (Some e, c)
      | (None, c) \<Rightarrow>
          if fw_err (c_frameWrite c) \<noteq> None then (fw_err (c_frameWrite c), c)
          else if c_tornDown c then (Some ErrWriteClosed, c)
          else
            (case admitFrame op fin payload compress c of
               (Inl r, c) \<Rightarrow> (r, c)
             | (Inr _, c) \<Rightarrow>
               (case compressFrame op fin payload c of
                  (Inl e, c) \<Rightarrow> failFrameWrite e c
                | (Inr (rsv, payload), c) \<Rightarrow>
                  (case emitFrameLocked op fin rsv payload c of
                     (Some e, c) \<Rightarrow> failFrameWrite e c
                   | (None, c) \<Rightarrow>
                       if op = OpcodeClose then (None, releaseFrameCompressor (c\<lparr>c_closeSent := True\<rparr>))
                       else if \<not> IsControl op \<and> fin then (None, releaseFrameCompressor c)
                       else (None, c)))))"

section \<open>Decoding frames\<close>

definition failFrameDecode :: "CloseCode \<Rightarrow> bytes \<Rightarrow> 'w Conn \<Rightarrow> (connErr + 'a) \<times> 'w Conn" where
  "failFrameDecode code reason c =
     (let err = ProtocolError code reason
      in (Inl err, c\<lparr>c_frameDecode := (c_frameDecode c)\<lparr>fd_err := Some err, fd_buf := []\<rparr>, c_readErr := Some err\<rparr>))"

text \<open>The text of a decompression error; \<open>errText\<close> is what the decompressor's own error says.\<close>

fun decompressErrorText :: "(ioErr \<Rightarrow> bytes) \<Rightarrow> decompressErr \<Rightarrow> bytes" where
  "decompressErrorText errText (DecompressReset e) = B ''gows: reset decompressor: '' @ errText e"
| "decompressErrorText errText (DecompressIO e) = B ''gows: decompress message: '' @ errText e"
| "decompressErrorText errText DecompressTooLarge = B ''gows: decompressed message exceeds read limit''"
| "decompressErrorText errText DecompressPanic = []"

definition DecodeFrame :: "(ioErr \<Rightarrow> bytes) \<Rightarrow> Frame \<Rightarrow> 'w Conn \<Rightarrow> (connErr + bytes \<times> bool) \<times> 'w Conn" where
  "DecodeFrame errText f c =
     (case selectMode connModeFrame c of
        (Some e, c) \<Rightarrow> (Inl e, c)
      | (None, c) \<Rightarrow>
        (case fd_err (c_frameDecode c) of
           Some e \<Rightarrow> (Inl e, c)
         | None \<Rightarrow>
             let s = c_frameDecode c;
                 h = f_Header f;
                 usage = (\<lambda>reason. (Inl (FrameUsageError (B reason)), c)) in
             if c_tornDown c then (Inl ErrNetClosed, c)
             else if \<not> IsData (h_Opcode h) \<and> h_Opcode h \<noteq> OpcodeContinuation then usage ''decoder requires a data frame''
             else if h_Length h \<noteq> int (length (f_Payload f)) then usage ''payload length disagrees with header''
             else if IsData (h_Opcode h) \<and> fd_active s then usage ''new message during a decode continuation chain''
             else if IsData (h_Opcode h) \<and>
                 (f_Compressed f \<and> \<not> c_compression c \<or> (h_Rsv h = RSV1) \<noteq> f_Compressed f \<or> h_Rsv h \<noteq> 0 \<and> h_Rsv h \<noteq> RSV1)
             then usage ''inconsistent opening compression flags''
             else if \<not> IsData (h_Opcode h) \<and> (\<not> fd_active s \<or> f_Compressed f \<noteq> fd_compressed s \<or> h_Rsv h \<noteq> 0)
             then usage ''inconsistent continuation state''
             else
               let s = (if IsData (h_Opcode h) then
                          s\<lparr>fd_active := True, fd_compressed := f_Compressed f, fd_text := (h_Opcode h = OpcodeText),
                            fd_total := 0, fd_buf := []\<rparr>
                        else s) in
               if int (length (f_Payload f)) > i64 (c_readLimit c - fd_total s) then
                 failFrameDecode CloseMessageTooBig (B ''message exceeds read limit'') (c\<lparr>c_frameDecode := s\<rparr>)
               else
                 let s = s\<lparr>fd_total := i64 (fd_total s + int (length (f_Payload f)))\<rparr> in
                 if \<not> fd_compressed s then
                   (Inr (f_Payload f, h_Fin h), c\<lparr>c_frameDecode := s\<lparr>fd_active := \<not> h_Fin h\<rparr>\<rparr>)
                 else
                   let s = s\<lparr>fd_buf := fd_buf s @ f_Payload f\<rparr> in
                   if \<not> h_Fin h then (Inr ([], False), c\<lparr>c_frameDecode := s\<rparr>)
                   else
                     let (res, ds) = decompressMessage exactGrow (c_active c) (c_deflate c) (c_readLimit c) 0 (fd_buf s);
                         c = c\<lparr>c_deflate := ds, c_frameDecode := s\<lparr>fd_active := False, fd_buf := []\<rparr>\<rparr> in
                     case res of
                       Inl DecompressPanic \<Rightarrow> (Inl GoPanic, c)
                     | Inl e \<Rightarrow>
                         failFrameDecode (if e = DecompressTooLarge then CloseMessageTooBig else CloseInvalidFramePayloadData)
                           (decompressErrorText errText e) c
                     | Inr out \<Rightarrow>
                         if fd_text s \<and> \<not> c_skipUTF8 c \<and> \<not> Valid simdBulk_generic out
                         then failFrameDecode CloseInvalidFramePayloadData (B ''invalid UTF-8 in decoded text message'') c
                         else (Inr (out, True), c)))"

end
