(* ===== verification/Lifecycle.thy ===== *)
theory Lifecycle
  imports Relay
begin

text \<open>
  What every operation of a connection keeps. The locales state it once for an arbitrary relation
  between the connection before and after: if the relation is transitive, ignores the state that only
  reading touches, and holds of the few primitive steps that reach the peer or the transport, then it
  holds of every operation, however long its loops run. The interpretations give the relation for the
  bytes on the wire, for what follows a Close frame, for closing the transport and for the settings.
\<close>

text \<open>The connection without the state that only reading, reassembling and compressing touch.\<close>

definition outer :: "'w Conn \<Rightarrow> 'w Conn" where
  "outer c = c\<lparr>c_conn := (c_conn c)\<lparr>t_reads := []\<rparr>, c_rbuf := [], c_r0 := 0, c_r1 := 0, c_readErr := None,
     c_msgReader := None, c_msgBuf := [], c_msgIsText := False, c_msgCompressed := False,
     c_utf8v := newValidator, c_deflate := None, c_streams := 0,
     c_frameRead := \<lparr>fr_active = False, fr_compressed = False, fr_text = False, fr_total = 0\<rparr>,
     c_frameWrite := \<lparr>fw_active = False, fw_compressed = False, fw_lease = None, fw_err = None\<rparr>,
     c_frameDecode := \<lparr>fd_active = False, fd_compressed = False, fd_text = False, fd_total = 0,
       fd_buf = [], fd_err = None\<rparr>\<rparr>"

lemma outer_updates [simp]:
  "outer (c\<lparr>c_rbuf := x1\<rparr>) = outer c" "outer (c\<lparr>c_r0 := x2\<rparr>) = outer c" "outer (c\<lparr>c_r1 := x2\<rparr>) = outer c"
  "outer (c\<lparr>c_readErr := x3\<rparr>) = outer c" "outer (c\<lparr>c_msgReader := x4\<rparr>) = outer c"
  "outer (c\<lparr>c_msgBuf := x1\<rparr>) = outer c" "outer (c\<lparr>c_msgIsText := x5\<rparr>) = outer c"
  "outer (c\<lparr>c_msgCompressed := x5\<rparr>) = outer c" "outer (c\<lparr>c_utf8v := x6\<rparr>) = outer c"
  "outer (c\<lparr>c_deflate := x7\<rparr>) = outer c" "outer (c\<lparr>c_streams := x2\<rparr>) = outer c"
  "outer (c\<lparr>c_frameRead := x8\<rparr>) = outer c" "outer (c\<lparr>c_frameWrite := x9\<rparr>) = outer c"
  "outer (c\<lparr>c_frameDecode := x10\<rparr>) = outer c"
  by (simp_all add: outer_def)

lemma outer_conn: "t\<lparr>t_reads := []\<rparr> = (c_conn c)\<lparr>t_reads := []\<rparr> \<Longrightarrow> outer (c\<lparr>c_conn := t\<rparr>) = outer c"
  by (simp add: outer_def)

lemma tRead_rest: "tRead k t = (r, t') \<Longrightarrow> t'\<lparr>t_reads := []\<rparr> = t\<lparr>t_reads := []\<rparr>"
  by (auto simp: tRead_def split: if_splits list.splits)

lemma outer_tRead: "tRead k (c_conn c) = (r, t) \<Longrightarrow> outer (c\<lparr>c_conn := t\<rparr>) = outer c"
  by (rule outer_conn) (rule tRead_rest)

lemma outer_compact [simp]: "outer (compactWindow c) = outer c"
  by (simp add: compactWindow_def)

lemma outer_fillOnce: "fillOnce c = (r, c') \<Longrightarrow> outer c' = outer c"
  using outer_tRead [of _ "compactWindow c"] by (elim fillOnce_elim) simp

section \<open>Reading\<close>

locale read_relation =
  fixes R :: "'w Conn \<Rightarrow> 'w Conn \<Rightarrow> bool"
  assumes trans: "R a b \<Longrightarrow> R b c \<Longrightarrow> R a c"
    and inner: "outer b = outer a \<Longrightarrow> R a b"
    and rcvd: "R a (a\<lparr>c_closeRcvd := True\<rparr>)"
    and closing: "R a (snd (sendClose code reason a))"
    and replying: "R a (snd (writeControl OpcodePong p a))"
    and tearing: "R a (teardown a)"
    and choosing: "c_mode a = 0 \<Longrightarrow> R a (a\<lparr>c_mode := m\<rparr>)"
begin

lemma same [simp]: "R a a"
  by (rule inner) simp

lemma inner_left: "outer b = outer a \<Longrightarrow> R b c \<longleftrightarrow> R a c"
  using inner trans by metis

lemma inner_right: "outer b = outer a \<Longrightarrow> R c b \<longleftrightarrow> R c a"
  using inner trans by metis

text \<open>State that only reading touches makes no difference.\<close>

lemma left_updates [simp]:
  "R (a\<lparr>c_rbuf := x1\<rparr>) c = R a c" "R (a\<lparr>c_r0 := x2\<rparr>) c = R a c"
  "R (a\<lparr>c_r1 := x2\<rparr>) c = R a c" "R (a\<lparr>c_readErr := x3\<rparr>) c = R a c"
  "R (a\<lparr>c_msgReader := x4\<rparr>) c = R a c" "R (a\<lparr>c_msgBuf := x1\<rparr>) c = R a c"
  "R (a\<lparr>c_msgIsText := x5\<rparr>) c = R a c" "R (a\<lparr>c_msgCompressed := x5\<rparr>) c = R a c"
  "R (a\<lparr>c_utf8v := x6\<rparr>) c = R a c" "R (a\<lparr>c_deflate := x7\<rparr>) c = R a c"
  "R (a\<lparr>c_streams := x2\<rparr>) c = R a c" "R (a\<lparr>c_frameRead := x8\<rparr>) c = R a c"
  "R (a\<lparr>c_frameWrite := x9\<rparr>) c = R a c" "R (a\<lparr>c_frameDecode := x10\<rparr>) c = R a c"
  by (rule inner_left, simp)+

lemma right_updates [simp]:
  "R c (a\<lparr>c_rbuf := x1\<rparr>) = R c a" "R c (a\<lparr>c_r0 := x2\<rparr>) = R c a"
  "R c (a\<lparr>c_r1 := x2\<rparr>) = R c a" "R c (a\<lparr>c_readErr := x3\<rparr>) = R c a"
  "R c (a\<lparr>c_msgReader := x4\<rparr>) = R c a" "R c (a\<lparr>c_msgBuf := x1\<rparr>) = R c a"
  "R c (a\<lparr>c_msgIsText := x5\<rparr>) = R c a" "R c (a\<lparr>c_msgCompressed := x5\<rparr>) = R c a"
  "R c (a\<lparr>c_utf8v := x6\<rparr>) = R c a" "R c (a\<lparr>c_deflate := x7\<rparr>) = R c a"
  "R c (a\<lparr>c_streams := x2\<rparr>) = R c a" "R c (a\<lparr>c_frameRead := x8\<rparr>) = R c a"
  "R c (a\<lparr>c_frameWrite := x9\<rparr>) = R c a" "R c (a\<lparr>c_frameDecode := x10\<rparr>) = R c a"
  by (rule inner_right, simp)+

lemma failClose_R: "failClose code reason a = (e, c) \<Longrightarrow> R a c"
  using closing [of a code reason] tearing
  by (auto simp: failClose_def Let_def split: prod.splits) (metis right_updates(4) trans)

lemma ioError_R: "ioError x a = (e, c) \<Longrightarrow> R a c"
  using tearing [of "a\<lparr>c_readErr := Some (IOErr x)\<rparr>"] by (auto simp: ioError_def Let_def split: option.splits)

lemma failWith_R: "failWith (failClose code reason a) = (r, c) \<Longrightarrow> R a c" "failWith (ioError x a) = (r, c) \<Longrightarrow> R a c"
  using failClose_R [OF prod.collapse [symmetric]] ioError_R [OF prod.collapse [symmetric]]
  by (auto simp: failWith_def)

lemma fillOnce_R: "fillOnce a = (r, c) \<Longrightarrow> R a c"
  using outer_fillOnce inner by blast

lemma tRead_R: "tRead k (c_conn a) = (r, t) \<Longrightarrow> R (a\<lparr>c_conn := t\<rparr>) c = R a c"
  by (rule inner_left) (rule outer_tRead)

lemmas failing_R = failClose_R ioError_R failWith_R

lemma ensure_R: "ensure n a = (r, c) \<Longrightarrow> R a c"
proof (induction n a rule: ensure.induct)
  case (1 n a)
  show ?case using "1.prems" "1.IH"
    by (auto simp: ensure.simps [of n a] split: if_splits prod.splits option.splits dest: fillOnce_R intro: trans)
qed

lemma readHeader_R: "readHeaderWithPartialEOF b a = (r, c) \<Longrightarrow> R a c"
proof (induction b a arbitrary: r c rule: readHeaderWithPartialEOF.induct)
  case (1 b a)
  obtain x a1 where f: "fillOnce a = (x, a1)" by fastforce
  have fill: "R a d" if "(case x of Some e \<Rightarrow>
             let e = (if b \<and> e = EOF \<and> c_r1 a1 - c_r0 a1 > 0 then UnexpectedEOF else e) in failWith (ioError e a1)
         | None \<Rightarrow> readHeaderWithPartialEOF b a1) = (r', d)" for r' d
    using that "1.IH" [OF f [symmetric]] fillOnce_R [OF f] failWith_R(2)
    by (auto simp: Let_def split: option.splits) (blast intro: trans)+
  show ?case using "1.prems" f fill failWith_R(1)
    by (auto simp: readHeaderWithPartialEOF.simps [of b a] Let_def
        split: if_splits prod.splits sum.splits hdrReject.splits)
qed

lemma contiguousLoop_R: "contiguousLoop h v n pr key a = (r, c) \<Longrightarrow> R a c"
proof (induction h v n pr key a arbitrary: r c rule: contiguousLoop.induct)
  case (1 h v n pr key a)
  show ?case using "1.prems" "1.IH"
    by (auto simp: contiguousLoop.simps [of h v n pr key a] Let_def split: if_splits prod.splits option.splits
        dest!: fillOnce_R failing_R intro: trans)
qed

lemma readContiguousPayload_R: "readContiguousPayload h a = (r, c) \<Longrightarrow> R a c"
  by (auto simp: readContiguousPayload_def Let_def split: if_splits prod.splits option.splits
      dest!: failing_R contiguousLoop_R intro: trans)

lemma directLoop_R: "directLoop h v n key a = (r, c) \<Longrightarrow> R a c"
proof (induction h v n key a arbitrary: r c rule: directLoop.induct)
  case (1 h v n key a)
  show ?case using "1.prems" "1.IH"
    by (auto simp: directLoop.simps [of h v n key a] Let_def tRead_R split: if_splits prod.splits option.splits
        dest!: failing_R)
qed

lemma readFramePayload_R: "readFramePayload h a = (r, c) \<Longrightarrow> R a c"
  by (auto simp: readFramePayload_def drainWindow_def Let_def split: if_splits prod.splits option.splits
      dest!: failing_R directLoop_R)

lemma handleControl_R: "handleControl h a = (r, c) \<Longrightarrow> R a c"
proof -
  have close: "handleClose p b = (r, d) \<Longrightarrow> R b d" for p b r d
    using rcvd [of b] closing tearing failClose_R
    by (auto simp: handleClose_def Let_def split: sum.splits prod.splits if_splits)
      (metis right_updates(4) snd_conv trans)+
  have "dispatchControl op p b = (r, d) \<Longrightarrow> R b d" for op p b r d
    using replying [of b p]
    by (auto simp: dispatchControl_def split: if_splits prod.splits option.splits dest: close)
  then show "handleControl h a = (r, c) \<Longrightarrow> R a c"
    by (fastforce simp: handleControl_def Let_def split: prod.splits option.splits dest!: ensure_R failing_R intro: trans)
qed

lemma adaptReadBuffer_outer [simp]: "outer (adaptReadBuffer n a) = outer a"
  by (simp add: adaptReadBuffer_def Let_def)

lemma beginMessage_R [simp]: "R (beginMessage h a) c = R a c" "R c (beginMessage h a) = R c a"
proof -
  have "outer (beginMessage h a) = outer a" by (simp add: beginMessage_def Let_def)
  then show "R (beginMessage h a) c = R a c" "R c (beginMessage h a) = R c a"
    using inner_left inner_right by blast+
qed

lemma finishCompressedMessage_R: "finishCompressedMessage a = (r, c) \<Longrightarrow> R a c"
  by (auto simp: finishCompressedMessage_def Let_def split: if_splits prod.splits sum.splits decompressErr.splits
      dest!: failing_R)

lemma finishMessage_R: "finishMessage op a = (r, c) \<Longrightarrow> R a c"
  by (auto simp: finishMessage_def split: if_splits prod.splits sum.splits dest!: finishCompressedMessage_R failing_R)

lemma messageLoop_R: "messageLoop b op a = (r, c) \<Longrightarrow> R a c"
proof (induction b op a arbitrary: r c rule: messageLoop.induct)
  case (1 b op a)
  obtain x a1 where rh: "readHeader a = (x, a1)" by fastforce
  then have a1: "R a a1" using readHeader_R by (auto simp: readHeader_def)
  show ?case
  proof (cases x)
    case (Inl e)
    then show ?thesis using "1.prems" rh a1 by (simp add: messageLoop.simps [of b op a])
  next
    case (Inr h)
    note IH = "1.IH" [OF rh [symmetric] Inr]
    have "R a1 c" using "1.prems" IH rh Inr
      by (auto simp: messageLoop.simps [of b op a] Let_def split: if_splits prod.splits option.splits sum.splits
          dest!: handleControl_R failing_R readContiguousPayload_R readFramePayload_R finishMessage_R intro: trans)
    then show ?thesis using a1 trans by blast
  qed
qed

lemma readMessageBody_R: "readMessageBody a = (r, c) \<Longrightarrow> R a c"
  by (auto simp: readMessageBody_def dest!: messageLoop_R)

lemma refill_R: "refill a = (r, c) \<Longrightarrow> R a c"
  by (auto simp: refill_def split: if_splits dest!: fillOnce_R)

lemma skipPayload_R: "skipPayload n a = (r, c) \<Longrightarrow> R a c"
proof (induction n a arbitrary: r c rule: skipPayload.induct)
  case (1 n a)
  show ?case using "1.prems" "1.IH"
    by (auto simp: skipPayload.simps [of n a] Let_def split: if_splits prod.splits option.splits
        dest!: refill_R failing_R intro: trans)
qed

lemma nextFrame_R: "nextFrame m a = (r, m', c) \<Longrightarrow> R a c"
proof (induction m a arbitrary: r m' c rule: nextFrame.induct)
  case (1 m a)
  obtain x a1 where rh: "readHeader a = (x, a1)" by fastforce
  then have a1: "R a a1" using readHeader_R by (auto simp: readHeader_def)
  have "R a1 c" using "1.prems" "1.IH" [OF rh [symmetric]] rh
    by (auto simp: nextFrame.simps [of m a] split: if_splits prod.splits option.splits sum.splits
        dest: handleControl_R dest!: failing_R intro: trans)
  then show ?case using a1 trans by blast
qed

lemma drain_R: "drain m a = (r, c) \<Longrightarrow> R a c"
proof (induction m a arbitrary: r c rule: drain.induct)
  case (1 m a)
  show ?case using "1.prems" "1.IH"
    by (auto simp: drain.simps [of m a] split: if_splits prod.splits option.splits
        dest!: nextFrame_R skipPayload_R intro: trans)
qed

lemma discardStreamRemainder_R: "discardStreamRemainder a = (r, c) \<Longrightarrow> R a c"
  by (auto simp: discardStreamRemainder_def Let_def split: if_splits prod.splits option.splits dest!: drain_R)

lemma applyChunk_R: "applyChunk p m a = (r, p', m', c) \<Longrightarrow> R a c"
  by (auto simp: applyChunk_def Let_def split: if_splits prod.splits dest!: failing_R)

lemma readFrameChunk_R: "readFrameChunk k m a = (r, m', c) \<Longrightarrow> R a c"
  by (auto simp: readFrameChunk_def Let_def tRead_R split: if_splits prod.splits option.splits
      dest!: applyChunk_R refill_R failing_R intro: trans)

lemma promoteIncompleteEOF_R: "promoteIncompleteEOF e a = (r, c) \<Longrightarrow> R a c"
  by (auto simp: promoteIncompleteEOF_def split: if_splits)

lemma streamLoop_R: "streamLoop k m a = (r, m', c) \<Longrightarrow> R a c"
proof (induction k m a arbitrary: r m' c rule: streamLoop.induct)
  case (1 k m a)
  show ?case using "1.prems" "1.IH"
    by (auto simp: streamLoop.simps [of k m a] split: if_splits prod.splits option.splits sum.splits
        dest!: nextFrame_R readFrameChunk_R promoteIncompleteEOF_R failing_R intro: trans)
qed

lemma streamRead_R: "streamRead s k a = (r, c) \<Longrightarrow> R a c"
  by (auto simp: streamRead_def Let_def split: if_splits prod.splits option.splits dest!: streamLoop_R)

lemma readDataFrameHeader_R: "readDataFrameHeader a = (r, c) \<Longrightarrow> R a c"
proof (induction a arbitrary: r c rule: readDataFrameHeader.induct)
  case (1 a)
  obtain x a1 where rh: "readHeaderWithPartialEOF True a = (x, a1)" by fastforce
  have "R a1 c" using "1.prems" "1.IH" [OF rh [symmetric]] rh
    by (auto simp: readDataFrameHeader.simps [of a] split: if_splits prod.splits option.splits sum.splits
        dest: handleControl_R dest!: failing_R intro: trans)
  then show ?case using readHeader_R [OF rh] trans by blast
qed

lemma nextContinuation_R: "nextContinuation a = (r, c) \<Longrightarrow> R a c"
proof (induction a arbitrary: r c rule: nextContinuation.induct)
  case (1 a)
  obtain x a1 where rh: "readHeader a = (x, a1)" by fastforce
  then have a1: "R a a1" using readHeader_R by (auto simp: readHeader_def)
  have "R a1 c" using "1.prems" "1.IH" [OF rh [symmetric]] rh
    by (auto simp: nextContinuation.simps [of a] split: if_splits prod.splits option.splits sum.splits
        dest: handleControl_R dest!: failing_R intro: trans)
  then show ?case using a1 trans by blast
qed

lemma reassembleLoop_R: "reassembleLoop h a = (r, c) \<Longrightarrow> R a c"
proof (induction h a arbitrary: r c rule: reassembleLoop.induct)
  case (1 h a)
  show ?case using "1.prems" "1.IH"
    by (auto simp: reassembleLoop.simps [of h a] split: if_splits prod.splits option.splits sum.splits
        dest!: readFramePayload_R nextContinuation_R finishCompressedMessage_R intro: trans)
qed

lemma selectMode_R: "selectMode m a = (r, c) \<Longrightarrow> R a c"
  using choosing by (auto simp: selectMode_def split: if_splits)

lemma NextReader_R: "NextReader a = (r, c) \<Longrightarrow> R a c"
  by (auto simp: NextReader_def reassembleCompressed_def Let_def split: if_splits prod.splits option.splits sum.splits
      dest!: selectMode_R discardStreamRemainder_R readDataFrameHeader_R reassembleLoop_R failing_R) (meson trans)+

lemma ReadMessage_R: "ReadMessage a = (r, c) \<Longrightarrow> R a c"
  by (auto simp: ReadMessage_def split: if_splits prod.splits option.splits
      dest!: selectMode_R discardStreamRemainder_R readMessageBody_R intro: trans)

lemma readMessage_R: "readMessage a = (r, c) \<Longrightarrow> R a c"
  by (auto simp: readMessage_def split: if_splits prod.splits option.splits sum.splits
      dest!: discardStreamRemainder_R readMessageBody_R intro: trans)

lemma WriteClose_R: "WriteClose code reason a = (r, c) \<Longrightarrow> R a c"
  using closing [of _ code reason]
  by (auto simp: WriteClose_def split: if_splits prod.splits option.splits dest!: selectMode_R) (metis snd_conv trans)

lemma closeDrain_R: "R a (closeDrain a)"
proof (induction a rule: closeDrain.induct)
  case (1 a)
  then show ?case
    by (auto simp: closeDrain.simps [of a] split: prod.splits option.splits dest: readMessage_R intro: trans)
qed

lemma Close_R: "Close code reason a = (r, c) \<Longrightarrow> R a c"
proof -
  have "R b (teardown (if p then closeDrain (snd (sendClose code reason b)) else snd (sendClose code reason b)))" for b p
    using trans [OF trans [OF closing closeDrain_R] tearing] trans [OF closing tearing] by simp
  note closed = this
  assume cl: "Close code reason a = (r, c)"
  obtain x b where m: "selectMode connModeMessage a = (x, b)" by fastforce
  have "c = b \<or> (\<exists>p. c = teardown (if p then closeDrain (snd (sendClose code reason b)) else snd (sendClose code reason b)))"
    using cl m by (auto simp: Close_def Let_def split: option.splits if_splits prod.splits)
  then show "R a c" using closed selectMode_R [OF m] trans by metis
qed

lemma relayTransportError_R: "relayTransportError x a = (e, c) \<Longrightarrow> R a c"
  using tearing [of "a\<lparr>c_readErr := Some x\<rparr>"] by (auto simp: relayTransportError_def)

lemma relayProtocolError_R: "relayProtocolError code reason a = (e, c) \<Longrightarrow> R a c"
  by (auto simp: relayProtocolError_def Let_def)

lemma relayFail_R: "failWith (relayTransportError x a) = (r, c) \<Longrightarrow> R a c"
  "failWith (relayProtocolError code reason a) = (r, c) \<Longrightarrow> R a c"
  using relayTransportError_R [OF prod.collapse [symmetric]] relayProtocolError_R [OF prod.collapse [symmetric]]
  by (auto simp: failWith_def)

lemma readRelayHeader_R: "readRelayHeader a = (r, c) \<Longrightarrow> R a c"
proof (induction a arbitrary: r c rule: readRelayHeader.induct)
  case (1 a)
  obtain x a1 where f: "fillOnce a = (x, a1)" by fastforce
  show ?case using "1.prems" f "1.IH" [OF f [symmetric]] fillOnce_R [OF f] relayFail_R(2)
    by (auto simp: readRelayHeader.simps [of a] Let_def split: prod.splits sum.splits hdrReject.splits option.splits if_split_asm
        dest!: relayFail_R(1) intro: trans)
qed

lemma relayPayload_R: "relayPayload h n key a = (r, c) \<Longrightarrow> R a c"
proof (induction h n key a arbitrary: r c rule: relayPayload.induct)
  case (1 h n key a)
  have chunk: "relayChunk h m k b = (x, k', d) \<Longrightarrow> R b d" for m k b x k' d
    by (auto simp: relayChunk_def Let_def split: prod.splits if_splits dest!: relayProtocolError_R)
  show ?case using "1.prems" "1.IH"
    by (auto simp: relayPayload.simps [of h n key a] Let_def split: if_splits prod.splits option.splits
        dest!: fillOnce_R relayTransportError_R chunk intro: trans)
qed

lemma ReadFrame_R: "ReadFrame a = (r, c) \<Longrightarrow> R a c"
proof -
  have bg: "beginRelayFrame h b = (x, d) \<Longrightarrow> R b d" for h b x d
    by (auto simp: beginRelayFrame_def Let_def split: if_splits prod.splits dest!: relayProtocolError_R)
  show "ReadFrame a = (r, c) \<Longrightarrow> R a c" using rcvd
    by (auto simp: ReadFrame_def Let_def split: if_splits prod.splits option.splits sum.splits
        dest!: selectMode_R readRelayHeader_R bg relayPayload_R relayFail_R(2)) (meson trans)+
qed

lemma DecodeFrame_R: "DecodeFrame t f a = (r, c) \<Longrightarrow> R a c"
  by (auto simp: DecodeFrame_def failFrameDecode_def Let_def split: if_splits prod.splits option.splits sum.splits decompressErr.splits
      dest!: selectMode_R)

end

section \<open>Writing\<close>

text \<open>
  A Close frame ends what a connection may send, except that a relay may still send control frames.
\<close>

definition mayWrite :: "'w Conn \<Rightarrow> bool" where
  "mayWrite c \<longleftrightarrow> \<not> c_closeSent c \<or> c_mode c = connModeFrame"

locale wire_relation =
  fixes R :: "'w Conn \<Rightarrow> 'w Conn \<Rightarrow> bool"
  assumes w_trans: "R a b \<Longrightarrow> R b c \<Longrightarrow> R a c"
    and w_inner: "outer b = outer a \<Longrightarrow> R a b"
    and w_rcvd: "R a (a\<lparr>c_closeRcvd := True\<rparr>)"
    and w_tearing: "R a (teardown a)"
    and w_choosing: "c_mode a = 0 \<Longrightarrow> R a (a\<lparr>c_mode := m\<rparr>)"
    and sending: "mayWrite a \<Longrightarrow> R a (snd (connWrite p a))"
    and closeSent: "R a (a\<lparr>c_closeSent := True\<rparr>)"
    and batching: "R a (a\<lparr>c_wbatch := bs\<rparr>)"
    and keying: "R a (a\<lparr>c_keyPos := k\<rparr>)"
    and streaming: "R a (a\<lparr>c_msgWriter := s\<rparr>)"
    and stopping: "c_mode a = connModeFrame \<Longrightarrow> R a (frameStop a)"
begin

text \<open>Steps that leave the connection free to write.\<close>

definition open_step :: "'w Conn \<Rightarrow> 'w Conn \<Rightarrow> bool" where
  "open_step a b \<longleftrightarrow> R a b \<and> mayWrite b"

lemma open_trans: "open_step a b \<Longrightarrow> open_step b c \<Longrightarrow> open_step a c"
  using w_trans by (auto simp: open_step_def)

lemma connWrite_open: "mayWrite a \<Longrightarrow> connWrite p a = (r, c) \<Longrightarrow> open_step a c"
  using sending [of a p] by (auto simp: open_step_def connWrite_def mayWrite_def case_prod_beta)

lemma writeFrameBytes_open: "mayWrite a \<Longrightarrow> writeFrameBytes p a = (r, c) \<Longrightarrow> open_step a c"
  by (auto simp: writeFrameBytes_def split: prod.splits option.splits if_splits dest: connWrite_open)

lemma writeFrame_open: "mayWrite a \<Longrightarrow> writeFrame x y a = (r, c) \<Longrightarrow> open_step a c"
proof -
  assume a: "mayWrite a"
  have "writev x y a = (r, c) \<Longrightarrow> open_step a c"
    using a by (auto simp: writev_def split: prod.splits option.splits if_splits dest: connWrite_open)
  moreover have "stageWrite x y a = (r, c) \<Longrightarrow> open_step a c"
  proof (cases "writeFrameBytes (x @ take (maxBufferedWriteSize - length x) y) a")
    case (Pair e b)
    then have "open_step a b" using a writeFrameBytes_open by blast
    then show "stageWrite x y a = (r, c) \<Longrightarrow> open_step a c"
      using a Pair writeFrameBytes_open [of b] writeFrameBytes_open [of a] open_trans
      by (auto simp: stageWrite_def Let_def open_step_def split: if_splits option.splits) blast+
  qed
  ultimately show "writeFrame x y a = (r, c) \<Longrightarrow> open_step a c"
    using a by (auto simp: writeFrame_def split: if_splits dest: writeFrameBytes_open)
qed

lemma batch_open: "mayWrite a \<Longrightarrow> open_step a (a\<lparr>c_wbatch := bs\<rparr>)"
  using batching by (simp add: open_step_def mayWrite_def)

lemma flush_R: "flushBufferedLocked a = (r, c) \<Longrightarrow> R a c"
  "mayWrite a \<Longrightarrow> flushBufferedLocked a = (r, c) \<Longrightarrow> open_step a c"
proof -
  have w_same: "R a a" by (rule w_inner) simp
  have step: "open_step a (c\<lparr>c_wbatch := []\<rparr>)" if "mayWrite a" "connWrite p a = (x, c)" for p x c
    using connWrite_open [OF that] batch_open open_trans by (auto simp: open_step_def)
  have "mayWrite a" if "\<not> c_closeSent a" using that by (simp add: mayWrite_def)
  then show "flushBufferedLocked a = (r, c) \<Longrightarrow> R a c"
    using step batching w_same by (auto simp: flushBufferedLocked_def open_step_def split: prod.splits if_splits)
  show "mayWrite a \<Longrightarrow> flushBufferedLocked a = (r, c) \<Longrightarrow> open_step a c"
    using step batch_open w_same by (auto simp: flushBufferedLocked_def open_step_def split: prod.splits if_splits)
qed

lemma emit_open: "mayWrite a \<Longrightarrow> emitFrameLocked op fin rsv p a = (r, c) \<Longrightarrow> open_step a c"
proof -
  assume a: "mayWrite a" and e: "emitFrameLocked op fin rsv p a = (r, c)"
  obtain x b where f: "flushBufferedLocked a = (x, b)" by fastforce
  then have b: "open_step a b" using a flush_R(2) by blast
  have key: "maskingKey b = (k, d) \<Longrightarrow> open_step b d" for k d
    using b keying by (auto simp: maskingKey_def open_step_def mayWrite_def)
  have wf: "writeFrame u v d = (r, c) \<Longrightarrow> open_step b d \<Longrightarrow> open_step b c" for u v d
    using writeFrame_open open_trans by (auto simp: open_step_def)
  have bb: "open_step b b" using b by (auto simp: open_step_def intro: w_inner)
  have wb: "writeFrameBytes u b = (r, c) \<Longrightarrow> open_step b c" for u
    using writeFrameBytes_open b by (auto simp: open_step_def)
  show "open_step a c"
  proof (cases x)
    case None
    have "open_step b c"
      using e f bb unfolding None by (auto simp: emitFrameLocked_def Let_def split: if_splits prod.splits dest: wf wb key)
    then show ?thesis using b open_trans by blast
  qed (use e f b in \<open>simp add: emitFrameLocked_def\<close>)
qed

lemma emit_R: "mayWrite a \<Longrightarrow> emitFrameLocked op fin rsv p a = (r, c) \<Longrightarrow> R a c"
  using emit_open by (auto simp: open_step_def)

lemma mayWrite_open: "\<not> c_closeSent a \<Longrightarrow> mayWrite a"
  by (simp add: mayWrite_def)

lemma w_same [simp]: "R a a"
  by (rule w_inner) simp

end

text \<open>Closing and replying are writes, so a relation for writing is one for reading.\<close>

sublocale wire_relation \<subseteq> read_relation R
proof (unfold_locales, goal_cases)
  case (4 a code reason)
  have "R a (c\<lparr>c_closeSent := True\<rparr>)" if "\<not> c_closeSent a" "emitFrameLocked op fin rsv p a = (r, c)" for op fin rsv p r c
    using emit_R [OF mayWrite_open that(2)] that(1) closeSent w_trans by blast
  then show ?case by (auto simp: sendClose_def Let_def split: prod.splits)
next
  case (5 a p)
  then show ?case using emit_R [OF mayWrite_open prod.collapse [symmetric]] by (auto simp: writeControl_def)
qed (auto intro: w_trans w_inner w_rcvd w_tearing w_choosing)

context wire_relation
begin

lemma emit_to: "emitFrameLocked op fin rsv p a = (r, c) \<Longrightarrow> \<not> c_closeSent a \<Longrightarrow> R a c"
  using emit_R [OF mayWrite_open] .

lemma teardown_to: "R a b \<Longrightarrow> R a (teardown b)"
  using tearing trans by blast

lemma WriteMessage_R: "WriteMessage op p a = (r, c) \<Longrightarrow> R a c"
proof -
  have locked: "writeMessageLocked op p b = (r, d) \<Longrightarrow> R b d" for b r d
    by (auto simp: writeMessageLocked_def disableOutgoing_def Let_def
        split: if_splits prod.splits sum.splits option.splits dest!: emit_to)
  have frame: "writeFrame x y b = (r, d) \<Longrightarrow> \<not> c_closeSent b \<Longrightarrow> R b d" for x y b r d
    using writeFrame_open [OF mayWrite_open] by (simp add: open_step_def)
  have direct: "connWrite x b = (r, d) \<Longrightarrow> \<not> c_closeSent b \<Longrightarrow> R b d" for x b r d
    using sending [OF mayWrite_open, of b x] by simp
  show "WriteMessage op p a = (r, c) \<Longrightarrow> R a c"
    by (auto simp: WriteMessage_def Let_def split: if_splits prod.splits option.splits
        dest!: selectMode_R flush_R(1) locked frame direct intro: trans)
qed

lemma WriteMessageBuffered_R: "WriteMessageBuffered op p a = (r, c) \<Longrightarrow> R a c"
proof -
  have app: "appendFrameLocked d op p b = (x, b') \<Longrightarrow> R b b'" for d b x b'
    using keying by (auto simp: appendFrameLocked_def Let_def maskingKey_def split: if_splits)
  show "WriteMessageBuffered op p a = (r, c) \<Longrightarrow> R a c" using batching
    by (auto simp: WriteMessageBuffered_def Let_def split: if_splits prod.splits option.splits
        dest!: selectMode_R flush_R(1) app) (meson trans)+
qed

lemma Flush_R: "Flush a = (r, c) \<Longrightarrow> R a c"
  by (auto simp: Flush_def split: prod.splits option.splits dest!: selectMode_R flush_R(1) intro: trans)

lemma discardBuffered_R: "R a (discardBuffered a)"
  using batching by (simp add: discardBuffered_def)

lemma WritePreparedMessage_R: "WritePreparedMessage pm a = (r, c) \<Longrightarrow> R a c"
proof -
  have "writeFrameBytes f d = (x, e) \<Longrightarrow> flushBufferedLocked b = (None, d) \<Longrightarrow> \<not> c_closeSent b \<Longrightarrow> R b e" for f b d x e
    using flush_R(2) [OF mayWrite_open, of b None d] writeFrameBytes_open [of d f x e] trans by (auto simp: open_step_def)
  then show "WritePreparedMessage pm a = (r, c) \<Longrightarrow> R a c"
    by (auto simp: WritePreparedMessage_def Let_def split: if_splits prod.splits option.splits
        dest!: selectMode_R dest: flush_R(1) intro: trans)
qed

lemma NextWriter_R: "NextWriter op a = (r, c) \<Longrightarrow> R a c"
  using streaming by (auto simp: NextWriter_def Let_def split: if_splits prod.splits option.splits dest!: selectMode_R)
    (meson trans)+

lemma disable_R [simp]: "R a (disableTakeoverIfFed w b) = R a b" "R a (disableOutgoing b) = R a b"
  by (simp_all add: disableTakeoverIfFed_def disableOutgoing_def)

lemma shareLease_R [simp]: "R a (shareLease l b) = R a b" "R (shareLease l b) a = R b a"
  by (simp_all add: shareLease_def)

lemma takeLease_R: "takeLease a = (r, c) \<Longrightarrow> R a c"
  by (auto simp: takeLease_def Let_def split: acquired.splits if_splits)

lemma lease_R: "leaseWrite p l a = (r, l', c) \<Longrightarrow> R a c" "leaseFlush l a = (r, l', c) \<Longrightarrow> R a c"
  "leaseWriteAndFlush p l a = (r', l', c) \<Longrightarrow> R a c"
  by (auto simp: leaseWrite_def leaseFlush_def leaseWriteAndFlush_def Let_def split: prod.splits)

lemma flushLocked_R: "flushLocked fin w a = (r, w', c) \<Longrightarrow> R a c"
  by (auto simp: flushLocked_def split: if_splits prod.splits option.splits dest!: emit_to)

lemma emitCompressedChunk_R: "emitCompressedChunkLocked p fin w a = (r, w', c) \<Longrightarrow> R a c"
  by (auto simp: emitCompressedChunkLocked_def split: if_splits prod.splits option.splits dest!: emit_to)

lemma drainFragments_R: "drainFragments sink w a = (r, sink', w', c) \<Longrightarrow> R a c"
proof (induction sink w a arbitrary: r sink' w' c rule: drainFragments.induct)
  case (1 sink w a)
  show ?case using "1.prems" "1.IH"
    by (auto simp: drainFragments.simps [of sink w a] split: if_splits prod.splits option.splits
        dest: emitCompressedChunk_R intro: trans)
qed

lemma drainCompressed_R: "drainCompressedFragmentsLocked l w a = (r, w', c) \<Longrightarrow> R a c"
  by (auto simp: drainCompressedFragmentsLocked_def split: prod.splits dest!: drainFragments_R)

lemma engageCompression_R: "engageCompression w a = (r, w', c) \<Longrightarrow> R a c"
  by (auto simp: engageCompression_def Let_def split: if_splits prod.splits option.splits sum.splits
      dest!: takeLease_R lease_R(1) drainCompressed_R intro: trans)

lemma writeCompressed_R: "writeCompressed p l w a = (r, w', c) \<Longrightarrow> R a c"
  by (auto simp: writeCompressed_def Let_def split: prod.splits option.splits
      dest!: lease_R(1) drainCompressed_R intro: trans)

lemma writeLoop_R: "writeLoop n p w a = (r, w', c) \<Longrightarrow> R a c"
proof (induction n p w a arbitrary: r w' c rule: writeLoop.induct)
  case (1 n p w a)
  define m where "m = min (fragmentCap - length (mw_buf w)) (length p)"
  define w1 where "w1 = w\<lparr>mw_buf := mw_buf w @ take m p\<rparr>"
  define p1 where "p1 = drop m p"
  note unf = writeLoop.simps [of n p w a, unfolded Let_def, folded m_def, folded w1_def p1_def]
  consider "p = []" | "p \<noteq> []" "length (mw_buf w1) < fragmentCap" | "p \<noteq> []" "\<not> length (mw_buf w1) < fragmentCap"
    by blast
  then show ?case
  proof cases
    case 1
    then show ?thesis using "1.prems" by (simp add: writeLoop.simps)
  next
    case 2
    then show ?thesis using "1.prems" "1.IH"(1) [OF 2(1) m_def w1_def p1_def 2(2)] unf by simp
  next
    case 3
    obtain x w2 a2 where e: "(if mw_mayCompress w1 then engageCompression w1 a else (None, w1, a)) = (x, w2, a2)"
      by (metis prod_cases3)
    then have a2: "R a a2" by (auto split: if_splits dest: engageCompression_R)
    have "R a2 c"
    proof (cases "x = None \<and> (if mw_compressed w2 then mw_lease w2 else None) = None")
      case False
      then show ?thesis using "1.prems" unf 3 e
        by (auto split: if_split_asm option.splits prod.splits dest: writeCompressed_R)
    next
      case True
      obtain y w3 a3 where f: "flushLocked False (w2\<lparr>mw_mayCompress := False\<rparr>) a2 = (y, w3, a3)" by (metis prod_cases3)
      have "R a3 c" if y: "y = None"
      proof -
        note IH = "1.IH"(2) [OF 3(1) m_def w1_def p1_def 3(2) e [symmetric] conjunct1 [OF True] refl conjunct2 [OF True]
            f [symmetric] y refl]
        show ?thesis using IH True "1.prems" unf 3 e f y by simp
      qed
      then show ?thesis using flushLocked_R [OF f] "1.prems" unf 3 e f True trans by (cases y) auto
    qed
    then show ?thesis using a2 trans by blast
  qed
qed

lemma Write_R: "Write p w a = (r, w', c) \<Longrightarrow> R a c"
  by (auto simp: Write_def split: if_splits option.splits dest!: writeCompressed_R writeLoop_R)

lemma CloseWriter_R: "CloseWriter w a = (r, w', c) \<Longrightarrow> R a c"
proof -
  have large: "closeLargeLocked v b = (x, v', d) \<Longrightarrow> R b d" for v b x v' d
    by (auto simp: closeLargeLocked_def Let_def split: prod.splits option.splits sum.splits
        dest!: takeLease_R lease_R(3) flushLocked_R emitCompressedChunk_R intro: trans)
  have comp: "closeCompressedLocked l v b = (x, v', d) \<Longrightarrow> R b d" for l v b x v' d
    by (auto simp: closeCompressedLocked_def Let_def split: if_splits prod.splits option.splits
        dest!: lease_R(2) emitCompressedChunk_R intro: trans)
  assume cw: "CloseWriter w a = (r, w', c)"
  define v where "v = w\<lparr>mw_closed := True\<rparr>"
  obtain x u b where f: "(case mw_err v of Some e \<Rightarrow> (Some e, v, if mw_fed v then disableTakeoverIfFed v a else a)
      | None \<Rightarrow> (case (if mw_compressed v then mw_lease v else None) of
           Some l \<Rightarrow> closeCompressedLocked l v a
         | None \<Rightarrow> if mw_mayCompress v \<and> length (mw_buf v) \<ge> defaultCompressMinSize
             then closeLargeLocked v a else flushLocked True v a)) = (x, u, b)"
    by (metis prod_cases3)
  then have "R a b"
    by (auto split: option.splits if_split_asm dest: large comp flushLocked_R)
  moreover have "c = a \<or> c = b \<or> c = b\<lparr>c_msgWriter := None\<rparr>"
    using cw [unfolded CloseWriter_def Let_def, folded v_def, unfolded f prod.case] by (auto split: if_split_asm)
  ultimately show "R a c" using streaming trans same by blast
qed

lemma releaseFrameCompressor_R [simp]: "R a (releaseFrameCompressor b) = R a b"
  by (simp add: releaseFrameCompressor_def)

lemma WriteFrame_R: "WriteFrame op fin p z a = (r, c) \<Longrightarrow> R a c"
proof -
  have fail: "failFrameWrite e b = (x, d) \<Longrightarrow> c_mode b = connModeFrame \<Longrightarrow> R b d" for e b x d
    using stopping [of "releaseFrameCompressor (b\<lparr>c_frameWrite := (c_frameWrite b)\<lparr>fw_err := Some e\<rparr>\<rparr>)"]
    by (auto simp: failFrameWrite_def Let_def releaseFrameCompressor_def)
  have admit: "admitFrame op fin p z b = (x, d) \<Longrightarrow> R b d \<and> c_mode d = c_mode b" for b x d
    by (auto simp: admitFrame_def Let_def takeLease_def shareLease_def split: if_splits sum.splits prod.splits option.splits acquired.splits)
  have comp: "compressFrame op fin p b = (x, d) \<Longrightarrow> R b d \<and> c_mode d = c_mode b" for b x d
    by (auto simp: compressFrame_def Let_def leaseWriteAndFlush_def shareLease_def split: if_splits sum.splits prod.splits option.splits)
  have em: "emitFrameLocked op fin rsv q b = (x, d) \<Longrightarrow> c_mode b = connModeFrame \<Longrightarrow> R b d" for rsv q b x d
    using emit_R by (simp add: mayWrite_def)
  assume w: "WriteFrame op fin p z a = (r, c)"
  obtain x a1 where m: "selectMode connModeFrame a = (x, a1)" by fastforce
  then have a1: "R a a1" "x = None \<Longrightarrow> c_mode a1 = connModeFrame"
    using selectMode_R by (auto simp: selectMode_def split: if_splits)
  have wrote: "R b c" if b: "c_mode b = connModeFrame" and "(case emitFrameLocked op fin rsv q b of
          (Some e, c) \<Rightarrow> failFrameWrite e c
        | (None, c) \<Rightarrow>
             if op = OpcodeClose then (None, releaseFrameCompressor (c\<lparr>c_closeSent := True\<rparr>))
             else if \<not> IsControl op \<and> fin then (None, releaseFrameCompressor c)
             else (None, c)) = (r, c)" for rsv q b
  proof -
    obtain y d where e: "emitFrameLocked op fin rsv q b = (y, d)" by fastforce
    have "c_mode d = connModeFrame"
      using wrote_emit [of b op fin rsv q] e b by (auto simp: wrote_def)
    then have "R d c" using that(2) e closeSent fail by (auto split: option.splits if_splits)
    then show ?thesis using em [OF e b] trans by blast
  qed
  have "R a1 c" if x: "x = None"
  proof (cases "fw_err (c_frameWrite a1) \<noteq> None \<or> c_tornDown a1")
    case True
    then show ?thesis using w m x by (auto simp: WriteFrame_def split: if_splits)
  next
    case go: False
    obtain y b where ad: "admitFrame op fin p z a1 = (y, b)" by fastforce
    obtain u d where co: "compressFrame op fin p b = (u, d)" by fastforce
    note b = conjunct1 [OF admit [OF ad]] conjunct2 [OF admit [OF ad]]
    have d: "R b d" "c_mode d = connModeFrame" using comp [OF co] b a1(2) x by auto
    have "c = b \<or> R d c"
    proof (cases y)
      case (Inr t)
      then show ?thesis using w m x go ad co fail d(2) wrote [OF d(2)]
        by (cases u) (auto simp: WriteFrame_def split: prod.split_asm)
    qed (use w m x go ad in \<open>simp add: WriteFrame_def\<close>)
    then show ?thesis using b(1) d(1) trans by blast
  qed
  then show "R a c" using w m a1(1) trans by (cases x) (auto simp: WriteFrame_def)
qed

lemma Abort_R: "Abort a = (r, c) \<Longrightarrow> R a c"
proof -
  assume ab: "Abort a = (r, c)"
  obtain x b where m: "selectMode connModeFrame a = (x, b)" by fastforce
  then have "R b c" using ab stopping [of b] tearing [of "frameStop b"] trans
    by (auto simp: Abort_def selectMode_def split: option.splits if_splits)
  then show "R a c" using selectMode_R [OF m] trans by blast
qed

end

end
