(* ===== verification/Api.thy ===== *)
theory Api
  imports Lifecycle "HOL-Library.Sublist"
begin

text \<open>
  A connection in use: the operations that write, read, flush and close, and those of a frame relay, as steps of
  a transition system, over the connection and the streaming writers the program holds, in any order a program may call
  them. The invariants and the
  safety properties of whole runs follow from the relations of \<open>Lifecycle\<close>.
\<close>

section \<open>Operations as steps\<close>

text \<open>
  Two exported methods are not steps. \<^verbatim>\<open>CloseContext\<close> is modelled in \<open>Guard\<close>: its guard closes the transport to interrupt a
  blocked call, and the teardown behind it closes the transport again, so that the invariant of the closes below does not extend to
  it. \<^verbatim>\<open>Serve\<close>, modelled in \<open>Serve\<close>, is a loop of reads and calls of the program's handler, which calls the operations itself.
\<close>

datatype connOp =
    DoWriteMessage Opcode bytes
  | DoWriteMessageBuffered Opcode bytes
  | DoFlush
  | DoWritePrepared PreparedMessage
  | DoNextWriter Opcode
  | DoWrite nat bytes
  | DoCloseWriter nat
  | DoReadMessage
  | DoNextReader
  | DoRead nat nat
  | DoWriteClose CloseCode bytes
  | DoClose CloseCode bytes
  | DoReadFrame
  | DoWriteFrame Opcode bool bytes bool
  | DoDecodeFrame "ioErr \<Rightarrow> bytes" Frame
  | DoAbort

record 'w world =
  w_conn :: "'w Conn"
  w_writers :: "nat \<Rightarrow> 'w messageWriter option"

inductive connStep :: "'w world \<Rightarrow> connOp \<Rightarrow> 'w world \<Rightarrow> bool" where
  step_WriteMessage:
    "WriteMessage op p (w_conn w) = (r, c) \<Longrightarrow> connStep w (DoWriteMessage op p) (w\<lparr>w_conn := c\<rparr>)"
| step_WriteMessageBuffered:
    "WriteMessageBuffered op p (w_conn w) = (r, c) \<Longrightarrow> connStep w (DoWriteMessageBuffered op p) (w\<lparr>w_conn := c\<rparr>)"
| step_Flush: "Flush (w_conn w) = (r, c) \<Longrightarrow> connStep w DoFlush (w\<lparr>w_conn := c\<rparr>)"
| step_WritePrepared:
    "WritePreparedMessage pm (w_conn w) = (r, c) \<Longrightarrow> connStep w (DoWritePrepared pm) (w\<lparr>w_conn := c\<rparr>)"
| step_NextWriter:
    "NextWriter op (w_conn w) = (Inr m, c) \<Longrightarrow>
      connStep w (DoNextWriter op) (w\<lparr>w_conn := c, w_writers := (w_writers w)(mw_id m \<mapsto> m)\<rparr>)"
| step_NextWriter_fails:
    "NextWriter op (w_conn w) = (Inl e, c) \<Longrightarrow> connStep w (DoNextWriter op) (w\<lparr>w_conn := c\<rparr>)"
| step_Write:
    "w_writers w i = Some m \<Longrightarrow> Write p m (w_conn w) = (r, m', c) \<Longrightarrow>
      connStep w (DoWrite i p) (w\<lparr>w_conn := c, w_writers := (w_writers w)(i \<mapsto> m')\<rparr>)"
| step_CloseWriter:
    "w_writers w i = Some m \<Longrightarrow> CloseWriter m (w_conn w) = (r, m', c) \<Longrightarrow>
      connStep w (DoCloseWriter i) (w\<lparr>w_conn := c, w_writers := (w_writers w)(i \<mapsto> m')\<rparr>)"
| step_ReadMessage: "ReadMessage (w_conn w) = (r, c) \<Longrightarrow> connStep w DoReadMessage (w\<lparr>w_conn := c\<rparr>)"
| step_NextReader: "NextReader (w_conn w) = (r, c) \<Longrightarrow> connStep w DoNextReader (w\<lparr>w_conn := c\<rparr>)"
| step_Read: "streamRead s k (w_conn w) = (r, c) \<Longrightarrow> connStep w (DoRead s k) (w\<lparr>w_conn := c\<rparr>)"
| step_WriteClose:
    "WriteClose code reason (w_conn w) = (r, c) \<Longrightarrow> connStep w (DoWriteClose code reason) (w\<lparr>w_conn := c\<rparr>)"
| step_Close: "Close code reason (w_conn w) = (r, c) \<Longrightarrow> connStep w (DoClose code reason) (w\<lparr>w_conn := c\<rparr>)"
| step_ReadFrame: "ReadFrame (w_conn w) = (r', c) \<Longrightarrow> connStep w DoReadFrame (w\<lparr>w_conn := c\<rparr>)"
| step_WriteFrame:
    "WriteFrame op fin p z (w_conn w) = (r, c) \<Longrightarrow> connStep w (DoWriteFrame op fin p z) (w\<lparr>w_conn := c\<rparr>)"
| step_DecodeFrame:
    "DecodeFrame t f (w_conn w) = (r'', c) \<Longrightarrow> connStep w (DoDecodeFrame t f) (w\<lparr>w_conn := c\<rparr>)"
| step_Abort: "Abort (w_conn w) = (r, c) \<Longrightarrow> connStep w DoAbort (w\<lparr>w_conn := c\<rparr>)"

inductive connRun :: "'w world \<Rightarrow> connOp list \<Rightarrow> 'w world \<Rightarrow> bool" where
  run_none: "connRun w [] w"
| run_step: "connRun w ops w1 \<Longrightarrow> connStep w1 op w2 \<Longrightarrow> connRun w (ops @ [op]) w2"

inductive_cases connStepE: "connStep w op w'"

text \<open>What a new connection starts with.\<close>

definition startWorld :: "'w Conn \<Rightarrow> 'w world" where
  "startWorld c = \<lparr>w_conn = c, w_writers = Map.empty\<rparr>"

context wire_relation
begin

lemma step_R: "connStep w op w' \<Longrightarrow> R (w_conn w) (w_conn w')"
  by (elim connStepE)
    (auto dest: WriteMessage_R WriteMessageBuffered_R Flush_R WritePreparedMessage_R NextWriter_R Write_R CloseWriter_R
      ReadMessage_R NextReader_R streamRead_R WriteClose_R Close_R ReadFrame_R WriteFrame_R DecodeFrame_R Abort_R)

lemma run_R: "connRun w ops w' \<Longrightarrow> R (w_conn w) (w_conn w')"
  by (induction rule: connRun.induct) (auto intro: trans dest: step_R)

end

section \<open>What never changes, and what never comes back\<close>

definition settled :: "'w Conn \<Rightarrow> 'w Conn \<Rightarrow> bool" where
  "settled c c' \<longleftrightarrow> c_client c' = c_client c \<and> c_compression c' = c_compression c \<and> c_readLimit c' = c_readLimit c \<and>
     c_skipUTF8 c' = c_skipUTF8 c \<and> c_vectored c' = c_vectored c \<and> c_outgoingWindowCeil c' = c_outgoingWindowCeil c \<and>
     (c_mode c \<noteq> 0 \<longrightarrow> c_mode c' = c_mode c) \<and> (c_closeSent c \<longrightarrow> c_closeSent c') \<and>
     (c_closeRcvd c \<longrightarrow> c_closeRcvd c') \<and> (c_tornDown c \<longrightarrow> c_tornDown c') \<and> prefix (t_sent (c_conn c)) (t_sent (c_conn c'))"

lemma outer_fields:
  assumes "outer b = outer a"
  shows "c_client b = c_client a" "c_compression b = c_compression a" "c_readLimit b = c_readLimit a"
    "c_skipUTF8 b = c_skipUTF8 a" "c_vectored b = c_vectored a" "c_outgoingWindowCeil b = c_outgoingWindowCeil a"
    "c_mode b = c_mode a" "c_closeSent b = c_closeSent a" "c_closeRcvd b = c_closeRcvd a" "c_tornDown b = c_tornDown a"
    "t_sent (c_conn b) = t_sent (c_conn a)" "t_closes (c_conn b) = t_closes (c_conn a)" "c_frameStopped b = c_frameStopped a"
    "c_msgWriter b = c_msgWriter a" "c_wbatch b = c_wbatch a"
  using arg_cong [OF assms, of c_client] arg_cong [OF assms, of c_compression] arg_cong [OF assms, of c_readLimit]
    arg_cong [OF assms, of c_skipUTF8] arg_cong [OF assms, of c_vectored] arg_cong [OF assms, of c_outgoingWindowCeil]
    arg_cong [OF assms, of c_mode] arg_cong [OF assms, of c_closeSent] arg_cong [OF assms, of c_closeRcvd]
    arg_cong [OF assms, of c_tornDown] arg_cong [OF assms, of "\<lambda>c. t_sent (c_conn c)"]
    arg_cong [OF assms, of "\<lambda>c. t_closes (c_conn c)"] arg_cong [OF assms, of c_frameStopped]
    arg_cong [OF assms, of c_msgWriter] arg_cong [OF assms, of c_wbatch]
  by (simp_all add: outer_def)

lemma teardown_fields:
  "c_client (teardown a) = c_client a" "c_compression (teardown a) = c_compression a" "c_readLimit (teardown a) = c_readLimit a"
  "c_skipUTF8 (teardown a) = c_skipUTF8 a" "c_vectored (teardown a) = c_vectored a"
  "c_outgoingWindowCeil (teardown a) = c_outgoingWindowCeil a" "c_mode (teardown a) = c_mode a"
  "c_closeSent (teardown a) = c_closeSent a" "c_closeRcvd (teardown a) = c_closeRcvd a" "c_tornDown (teardown a)"
  "t_sent (c_conn (teardown a)) = t_sent (c_conn a)"
  by (simp_all add: teardown_def frameStop_def releaseFrameCompressor_def tClose_def Let_def)

lemma connWrite_sent: "\<exists>l. t_sent (c_conn (snd (connWrite p a))) = t_sent (c_conn a) @ l"
  by (auto simp: connWrite_def tWrite_def case_prod_beta split: list.split option.split)

lemma connWrite_fields: "\<exists>t. snd (connWrite p a) = a\<lparr>c_conn := t\<rparr> \<and> t_closes t = t_closes (c_conn a)"
  using tWrite_reads(2) [of p "c_conn a"] by (auto simp: connWrite_def case_prod_beta)

interpretation settled: wire_relation settled
proof (unfold_locales, goal_cases)
  case (1 a b c)
  have "prefix (t_sent (c_conn a)) (t_sent (c_conn c))"
    using 1 prefix_order.trans unfolding settled_def by blast
  then show ?case using 1 by (simp add: settled_def)
next
  case (2 b a)
  show ?case using outer_fields [OF 2] by (simp add: settled_def)
next
  case (6 a p)
  then show ?case using connWrite_fields [of p a] connWrite_sent [of p a] by (auto simp: settled_def prefix_def)
next
  case (11 a)
  then show ?case by (auto simp: settled_def frameStop_def tClose_def)
qed (simp_all add: settled_def teardown_fields)

section \<open>After a Close frame\<close>

text \<open>In message mode a connection that has sent a Close frame sends nothing more.\<close>

definition silenced :: "'w Conn \<Rightarrow> 'w Conn \<Rightarrow> bool" where
  "silenced c c' \<longleftrightarrow> (c_closeSent c \<and> c_mode c = connModeMessage \<longrightarrow>
     c_closeSent c' \<and> c_mode c' = connModeMessage \<and> t_sent (c_conn c') = t_sent (c_conn c))"

interpretation silenced: wire_relation silenced
proof (unfold_locales, goal_cases)
  case (1 a b c)
  then show ?case by (auto simp: silenced_def)
next
  case (2 b a)
  show ?case using outer_fields [OF 2] by (simp add: silenced_def)
next
  case (6 a p)
  then show ?case by (auto simp: silenced_def mayWrite_def connModeMessage_def connModeFrame_def)
next
  case (11 a)
  then show ?case by (auto simp: silenced_def frameStop_def tClose_def)
qed (simp_all add: silenced_def teardown_fields connModeMessage_def)

section \<open>The transport is closed once\<close>

definition onceClosed :: "'w Conn \<Rightarrow> bool" where
  "onceClosed c \<longleftrightarrow> t_closes (c_conn c) = (if c_tornDown c \<or> c_frameStopped c then 1 else 0) \<and>
     (c_mode c = connModeFrame \<and> c_tornDown c \<longrightarrow> c_frameStopped c) \<and> (c_frameStopped c \<longrightarrow> c_mode c = connModeFrame)"

definition closes :: "'w Conn \<Rightarrow> 'w Conn \<Rightarrow> bool" where
  "closes c c' \<longleftrightarrow> (c_mode c \<noteq> 0 \<longrightarrow> c_mode c' = c_mode c \<and> (onceClosed c \<longrightarrow> onceClosed c'))"

interpretation closes: wire_relation closes
proof (unfold_locales, goal_cases)
  case (1 a b c)
  then show ?case by (simp add: closes_def)
next
  case (2 b a)
  show ?case using outer_fields [OF 2] by (simp add: closes_def onceClosed_def)
next
  case (4 a)
  then show ?case
    by (auto simp: closes_def onceClosed_def teardown_def frameStop_def releaseFrameCompressor_def tClose_def Let_def)
next
  case (6 a p)
  then show ?case using connWrite_fields [of p a] by (auto simp: closes_def onceClosed_def)
next
  case (11 a)
  then show ?case by (auto simp: closes_def onceClosed_def frameStop_def tClose_def)
qed (simp_all add: closes_def onceClosed_def)

text \<open>The first operation of a connection acts as in the mode it selects.\<close>

lemma selecting:
  assumes "c_mode c = 0"
  shows "WriteMessage op p c = WriteMessage op p (c\<lparr>c_mode := connModeMessage\<rparr>)"
    "WriteMessageBuffered op p c = WriteMessageBuffered op p (c\<lparr>c_mode := connModeMessage\<rparr>)"
    "Flush c = Flush (c\<lparr>c_mode := connModeMessage\<rparr>)"
    "WritePreparedMessage pm c = WritePreparedMessage pm (c\<lparr>c_mode := connModeMessage\<rparr>)"
    "NextWriter op c = NextWriter op (c\<lparr>c_mode := connModeMessage\<rparr>)"
    "ReadMessage c = ReadMessage (c\<lparr>c_mode := connModeMessage\<rparr>)"
    "NextReader c = NextReader (c\<lparr>c_mode := connModeMessage\<rparr>)"
    "WriteClose code reason c = WriteClose code reason (c\<lparr>c_mode := connModeMessage\<rparr>)"
    "Close code reason c = Close code reason (c\<lparr>c_mode := connModeMessage\<rparr>)"
    "ReadFrame c = ReadFrame (c\<lparr>c_mode := connModeFrame\<rparr>)"
    "WriteFrame op fin p z c = WriteFrame op fin p z (c\<lparr>c_mode := connModeFrame\<rparr>)"
    "DecodeFrame t f c = DecodeFrame t f (c\<lparr>c_mode := connModeFrame\<rparr>)"
    "Abort c = Abort (c\<lparr>c_mode := connModeFrame\<rparr>)"
proof -
  have "selectMode m c = selectMode m (c\<lparr>c_mode := m\<rparr>)" for m using assms by (simp add: selectMode_def)
  then show "WriteMessage op p c = WriteMessage op p (c\<lparr>c_mode := connModeMessage\<rparr>)"
    "WriteMessageBuffered op p c = WriteMessageBuffered op p (c\<lparr>c_mode := connModeMessage\<rparr>)"
    "Flush c = Flush (c\<lparr>c_mode := connModeMessage\<rparr>)"
    "WritePreparedMessage pm c = WritePreparedMessage pm (c\<lparr>c_mode := connModeMessage\<rparr>)"
    "NextWriter op c = NextWriter op (c\<lparr>c_mode := connModeMessage\<rparr>)"
    "ReadMessage c = ReadMessage (c\<lparr>c_mode := connModeMessage\<rparr>)"
    "NextReader c = NextReader (c\<lparr>c_mode := connModeMessage\<rparr>)"
    "WriteClose code reason c = WriteClose code reason (c\<lparr>c_mode := connModeMessage\<rparr>)"
    "Close code reason c = Close code reason (c\<lparr>c_mode := connModeMessage\<rparr>)"
    "ReadFrame c = ReadFrame (c\<lparr>c_mode := connModeFrame\<rparr>)"
    "WriteFrame op fin p z c = WriteFrame op fin p z (c\<lparr>c_mode := connModeFrame\<rparr>)"
    "DecodeFrame t f c = DecodeFrame t f (c\<lparr>c_mode := connModeFrame\<rparr>)"
    "Abort c = Abort (c\<lparr>c_mode := connModeFrame\<rparr>)"
    unfolding WriteMessage_def WriteMessageBuffered_def Flush_def WritePreparedMessage_def NextWriter_def ReadMessage_def
      NextReader_def WriteClose_def Close_def ReadFrame_def WriteFrame_def DecodeFrame_def Abort_def by metis+
qed

definition unused :: "'w world \<Rightarrow> bool" where
  "unused w \<longleftrightarrow> c_mode (w_conn w) = 0 \<and> w_writers w = Map.empty \<and> c_msgReader (w_conn w) = None \<and>
     \<not> c_tornDown (w_conn w) \<and> \<not> c_frameStopped (w_conn w)"

context wire_relation
begin

lemma first_step_R:
  assumes "connStep w op w'" "unused w"
  shows "w' = w \<or> (\<exists>m. m \<noteq> 0 \<and> R ((w_conn w)\<lparr>c_mode := m\<rparr>) (w_conn w'))"
proof -
  have m: "c_mode (w_conn w) = 0" using assms(2) by (simp add: unused_def)
  have nz: "connModeMessage \<noteq> 0" "connModeFrame \<noteq> 0" by (simp_all add: connModeMessage_def connModeFrame_def)
  show ?thesis using assms(1)
  proof (cases rule: connStep.cases)
    case (step_Read s k r c)
    then show ?thesis using assms(2) by (simp add: unused_def streamRead_def)
  qed (use assms(2) nz in \<open>auto simp: unused_def selecting [OF m]
      dest!: WriteMessage_R WriteMessageBuffered_R Flush_R WritePreparedMessage_R NextWriter_R
        ReadMessage_R NextReader_R WriteClose_R Close_R ReadFrame_R WriteFrame_R DecodeFrame_R Abort_R\<close>)
qed

end

lemma run_onceClosed:
  assumes "connRun w ops w'" "unused w" "t_closes (c_conn (w_conn w)) = 0"
  shows "onceClosed (w_conn w') \<and> (w' = w \<or> c_mode (w_conn w') \<noteq> 0)"
  using assms
proof (induction rule: connRun.induct)
  case (run_none w)
  then show ?case by (simp add: onceClosed_def unused_def)
next
  case (run_step w ops w1 op w2)
  show ?case
  proof (cases "c_mode (w_conn w1) = 0")
    case True
    then have w1: "w1 = w" using run_step by auto
    then consider "w2 = w" | m where "m \<noteq> 0" "closes ((w_conn w)\<lparr>c_mode := m\<rparr>) (w_conn w2)"
      using closes.first_step_R run_step by blast
    then show ?thesis
    proof cases
      case 1
      then show ?thesis using run_step w1 by simp
    next
      case 2
      moreover have "onceClosed ((w_conn w)\<lparr>c_mode := m\<rparr>)"
        using run_step.prems by (simp add: onceClosed_def unused_def)
      ultimately show ?thesis by (auto simp: closes_def)
    qed
  next
    case False
    then show ?thesis using run_step closes.step_R [OF run_step.hyps(2)] by (auto simp: closes_def)
  qed
qed

lemma startWorld_unused:
  assumes "newConn nc vectored client active keys opts = Inr c"
  shows "unused (startWorld c)" "c_conn c = nc"
  using assms by (auto simp: newConn_def Let_def unused_def startWorld_def split: if_splits prod.splits sum.splits)

section \<open>Properties of runs\<close>

definition idleTransport :: transport where
  "idleTransport = \<lparr>t_reads = [], t_end = EOF, t_writes = [], t_sent = [], t_closes = 0\<rparr>"

lemma idle_conn:
  obtains c :: "bytes Conn" where "newConn idleTransport True False storeConfig (\<lambda>_. 0) [] = Inr c"
    "c_mode c = 0" "\<not> c_closeSent c" "\<not> c_tornDown c" "c_wbatch c = []" "\<not> c_client c" "c_conn c = idleTransport"
  by (auto simp: newConn_def defaultConfig_def Let_def case_prod_beta)

lemma run_one: "connStep w op w' \<Longrightarrow> connRun w [op] w'"
  using connRun.run_step [OF connRun.run_none] by fastforce

text \<open>C16: A connection closes its transport at most once, in any sequence of the operations that are steps of the model, and
  however they fail: whole, buffered, prepared and streamed writes, \<^verbatim>\<open>Flush\<close>, whole and streamed reads, \<^verbatim>\<open>WriteClose\<close> and \<^verbatim>\<open>Close\<close>, the operations
  of a frame relay and its abort. The transport has been closed exactly when the connection was torn down or a relay
  stopped it, and then once. \<^verbatim>\<open>CloseContext\<close> is not among the steps, because it does not keep this: its guard closes
  the transport to interrupt a blocked call, and the teardown behind it closes it again; nor is \<^verbatim>\<open>Serve\<close>, a loop
  of reads and calls of a handler.\<close>

theorem transport_closed_once:
  assumes "newConn nc vectored client active keys opts = Inr c" "t_closes nc = 0" "connRun (startWorld c) ops w"
  shows "t_closes (c_conn (w_conn w)) = (if c_tornDown (w_conn w) \<or> c_frameStopped (w_conn w) then 1 else 0)"
  using run_onceClosed [OF assms(3)] startWorld_unused [OF assms(1)] assms(2)
  by (simp add: onceClosed_def) (simp add: startWorld_def)

theorem transport_closed_once_witness:
  "\<exists>(c :: bytes Conn) w. newConn idleTransport True False storeConfig (\<lambda>_. 0) [] = Inr c \<and>
     connRun (startWorld c) [DoReadMessage] w \<and> c_tornDown (w_conn w) \<and> t_closes (c_conn (w_conn w)) = 1"
proof -
  obtain c :: "bytes Conn" where c: "newConn idleTransport True False storeConfig (\<lambda>_. 0) [] = Inr c" by (rule idle_conn)
  let ?c1 = "snd (ReadMessage c)"
  have run: "connRun (startWorld c) [DoReadMessage] ((startWorld c)\<lparr>w_conn := ?c1\<rparr>)"
    by (rule run_one, rule step_ReadMessage [of _ "fst (ReadMessage c)"]) (simp add: startWorld_def)
  have "c_tornDown ?c1" using c
    by (auto simp: newConn_def defaultConfig_def Let_def case_prod_beta ReadMessage_def selectMode_def discardStreamRemainder_def
        readMessageBody_def messageLoop.simps [of False] readHeader_def readHeaderWithPartialEOF.simps [of False] fillOnce_def
        compactWindow_def tRead_def idleTransport_def failWith_def ioError_def teardown_def)
  moreover have "t_closes idleTransport = 0" by (simp add: idleTransport_def)
  ultimately show ?thesis using c run transport_closed_once [OF c _ run] by fastforce
qed

text \<open>C15: Nothing follows a Close frame. Once a connection used for messages has sent a Close frame, no
  operation and no sequence of operations puts another byte on the wire: not a message, not a batch that
  was still buffered, not the fragment of an open stream, and not the answer to a Ping or a second Close.\<close>

theorem nothing_after_close:
  assumes "connRun w ops w'" "c_closeSent (w_conn w)" "c_mode (w_conn w) = connModeMessage"
  shows "t_sent (c_conn (w_conn w')) = t_sent (c_conn (w_conn w)) \<and> c_closeSent (w_conn w')"
  using silenced.run_R [OF assms(1)] assms(2,3) by (simp add: silenced_def)

theorem nothing_after_close_witness:
  "\<exists>(c :: bytes Conn) c1 r c2. newConn idleTransport True False storeConfig (\<lambda>_. 0) [] = Inr c \<and>
     WriteClose 1000 [] c = (None, c1) \<and> WriteMessage OpcodeText [0x68] c1 = (r, c2) \<and>
     t_sent (c_conn c2) = t_sent (c_conn c1) \<and> t_sent (c_conn c1) \<noteq> []"
proof -
  obtain c :: "bytes Conn" where c: "newConn idleTransport True False storeConfig (\<lambda>_. 0) [] = Inr c" "c_mode c = 0"
    "\<not> c_closeSent c" "\<not> c_tornDown c" "c_wbatch c = []" "\<not> c_client c" "c_conn c = idleTransport" by (rule idle_conn)
  have "Valid simdBulk_generic ([] :: bytes)" by (simp add: generic.Valid_run)
  then have "validateCloseArgs 1000 [] = None" by (simp add: validateCloseArgs_def ValidCloseCode_def word_le_nat_alt)
  then have "\<exists>c1. WriteClose 1000 [] c = (None, c1) \<and> c_closeSent c1 \<and> c_mode c1 = connModeMessage \<and> t_sent (c_conn c1) \<noteq> []"
    using c(2-) by (simp add: WriteClose_def selectMode_def sendClose_def Let_def emitFrameLocked_def flushBufferedLocked_def
        AppendCloseBody_def maxCoalescedWriteSize_def writeFrameBytes_def connWrite_def idleTransport_def tWrite_def)
  then obtain c1 where c1: "WriteClose 1000 [] c = (None, c1)" "c_closeSent c1" "c_mode c1 = connModeMessage" "t_sent (c_conn c1) \<noteq> []"
    by blast
  obtain r c2 where c2: "WriteMessage OpcodeText [0x68] c1 = (r, c2)" by fastforce
  have "connRun (startWorld c1) [DoWriteMessage OpcodeText [0x68]] ((startWorld c1)\<lparr>w_conn := c2\<rparr>)"
    by (rule run_one, rule step_WriteMessage [of _ _ _ r]) (simp add: startWorld_def c2)
  from nothing_after_close [OF this] c1 c2 c(1) show ?thesis by (auto simp: startWorld_def)
qed

text \<open>C18: Settings are fixed, states are final, the wire only grows. No operation changes a connection's role,
  limits or compression; a selected mode, a sent or received Close and a teardown are never undone; and what
  was written before a run is written after it, unchanged and first.\<close>

theorem run_settled:
  assumes "connRun w ops w'"
  shows "c_client (w_conn w') = c_client (w_conn w) \<and> c_compression (w_conn w') = c_compression (w_conn w) \<and>
    c_readLimit (w_conn w') = c_readLimit (w_conn w) \<and> (c_mode (w_conn w) \<noteq> 0 \<longrightarrow> c_mode (w_conn w') = c_mode (w_conn w)) \<and>
    (c_closeSent (w_conn w) \<longrightarrow> c_closeSent (w_conn w')) \<and> (c_closeRcvd (w_conn w) \<longrightarrow> c_closeRcvd (w_conn w')) \<and>
    (c_tornDown (w_conn w) \<longrightarrow> c_tornDown (w_conn w')) \<and> prefix (t_sent (c_conn (w_conn w))) (t_sent (c_conn (w_conn w')))"
  using settled.run_R [OF assms] by (simp add: settled_def)

theorem run_settled_witness:
  "\<exists>(c :: bytes Conn) w. newConn idleTransport True False storeConfig (\<lambda>_. 0) [] = Inr c \<and>
     connRun (startWorld c) [DoFlush, DoAbort] w \<and> c_mode (w_conn w) = connModeMessage \<and> \<not> c_client (w_conn w)"
proof -
  obtain c :: "bytes Conn" where c: "newConn idleTransport True False storeConfig (\<lambda>_. 0) [] = Inr c" "c_mode c = 0"
    "c_wbatch c = []" "\<not> c_client c" by (rule idle_conn)
  let ?c1 = "c\<lparr>c_mode := connModeMessage\<rparr>" and ?w = "startWorld c"
  have "connRun ?w ([] @ [DoFlush]) (?w\<lparr>w_conn := ?c1\<rparr>)"
    by (rule connRun.run_step [OF connRun.run_none], rule step_Flush [of _ None])
      (use c in \<open>simp add: startWorld_def Flush_def selectMode_def flushBufferedLocked_def\<close>)
  then have "connRun ?w (([] @ [DoFlush]) @ [DoAbort]) (?w\<lparr>w_conn := ?c1\<rparr>\<lparr>w_conn := ?c1\<rparr>)"
    by (rule connRun.run_step, intro step_Abort [of _ "Some ErrConnMode"])
      (simp add: Abort_def selectMode_def connModeMessage_def connModeFrame_def)
  then have run: "connRun ?w [DoFlush, DoAbort] (?w\<lparr>w_conn := ?c1\<rparr>)" by simp
  from run_settled [OF run] c show ?thesis using run by (auto simp: startWorld_def)
qed








end
