(* ===== verification/Serve.thy ===== *)
theory Serve
  imports Message_Spec
begin

text \<open>
  The callback loop \<^verbatim>\<open>Serve\<close> of \<^verbatim>\<open>src/serve.go\<close>. The handler is the program's: an argument, a function of the
  message, the connection it may write to, and a state of its own. Whether \<^verbatim>\<open>Serve\<close> returns depends on it,
  so the loop is a partial function: \<^const>\<open>None\<close> stands for a call that never returns.
\<close>

type_synonym ('w, 's) handler = "Opcode \<Rightarrow> bytes \<Rightarrow> 'w Conn \<Rightarrow> 's \<Rightarrow> connErr option \<times> 'w Conn \<times> 's"

definition serveDrainBudget :: nat where "serveDrainBudget = 64"

text \<open>One message: read it and hand it over. The replies of a handler that fails are discarded.\<close>

definition serveMessage :: "('w, 's) handler \<Rightarrow> 'w Conn \<Rightarrow> 's \<Rightarrow> connErr option \<times> 'w Conn \<times> 's" where
  "serveMessage h c s =
     (case readMessageBody c of
        (Inl e, c) \<Rightarrow> (Some e, c, s)
      | (Inr (op, p), c) \<Rightarrow>
        (case h op p c s of
           (Some e, c, s) \<Rightarrow> (Some e, discardBuffered c, s)
         | (None, c, s) \<Rightarrow> (None, c, s)))"

text \<open>A drain round with a budget: messages that are already in the buffer.\<close>

primrec serveDrain :: "('w, 's) handler \<Rightarrow> nat \<Rightarrow> 'w Conn \<Rightarrow> 's \<Rightarrow> connErr option \<times> 'w Conn \<times> 's" where
  "serveDrain h 0 c s = (None, c, s)"
| "serveDrain h (Suc budget) c s =
     (if bufferedMessageReady c then
        (case serveMessage h c s of
           (Some e, c, s) \<Rightarrow> (Some e, c, s)
         | (None, c, s) \<Rightarrow> serveDrain h budget c s)
      else (None, c, s))"

definition serveRound :: "('w, 's) handler \<Rightarrow> 'w Conn \<Rightarrow> 's \<Rightarrow> connErr option \<times> 'w Conn \<times> 's" where
  "serveRound h c s =
     (case Flush c of
        (Some e, c) \<Rightarrow> (Some e, c, s)
      | (None, c) \<Rightarrow>
        (case serveMessage h c s of
           (Some e, c, s) \<Rightarrow> (Some e, c, s)
         | (None, c, s) \<Rightarrow> serveDrain h (serveDrainBudget - 1) c s))"

partial_function (option) serveLoop :: "('w, 's) handler \<Rightarrow> 'w Conn \<Rightarrow> 's \<Rightarrow> (connErr \<times> 'w Conn \<times> 's) option" where
  "serveLoop h c s =
     (case serveRound h c s of
        (Some e, c, s) \<Rightarrow> Some (e, c, s)
      | (None, c, s) \<Rightarrow> serveLoop h c s)"

definition Serve :: "('w, 's) handler \<Rightarrow> 'w Conn \<Rightarrow> 's \<Rightarrow> (connErr \<times> 'w Conn \<times> 's) option" where
  "Serve h c s =
     (case selectMode connModeMessage c of
        (Some e, c) \<Rightarrow> Some (e, c, s)
      | (None, c) \<Rightarrow>
        (case c_readErr c of
           Some e \<Rightarrow> Some (e, c, s)
         | None \<Rightarrow>
             if c_tornDown c then Some (ErrNetClosed, c, s)
             else case discardStreamRemainder c of
               (Some e, c) \<Rightarrow> Some (e, c, s)
             | (None, c) \<Rightarrow> serveLoop h c s))"

section \<open>Serving ends\<close>

text \<open>A handler that only writes leaves what is still to be read as it is.\<close>

definition onlyWrites :: "('w, 's) handler \<Rightarrow> bool" where
  "onlyWrites h \<longleftrightarrow> (\<forall>op p c s e c' s'. h op p c s = (e, c', s') \<longrightarrow> avail c' \<le> avail c)"

lemma serveMessage_avail:
  assumes "onlyWrites h" "serveMessage h c s = (None, c', s')"
  shows "avail c' < avail c"
proof -
  obtain op p c1 where b: "readMessageBody c = (Inr (op, p), c1)" "h op p c1 s = (None, c', s')"
    using assms(2) by (auto simp: serveMessage_def split: prod.splits sum.splits option.splits)
  have "avail c' \<le> avail c1" using assms(1) b(2) unfolding onlyWrites_def by blast
  moreover have "avail c1 < avail c"
    using b(1) messageLoop_avail by (fastforce simp: readMessageBody_def avail_def)
  ultimately show ?thesis by simp
qed

lemma serveDrain_avail: "onlyWrites h \<Longrightarrow> serveDrain h n c s = (None, c', s') \<Longrightarrow> avail c' \<le> avail c"
  by (induction n arbitrary: c s)
    (fastforce split: if_splits prod.splits option.splits dest: serveMessage_avail)+

lemma Flush_avail:
  assumes "Flush c = (r, c')"
  shows "avail c' = avail c"
proof -
  obtain x c1 where m: "selectMode connModeMessage c = (x, c1)" by fastforce
  then have "avail c1 = avail c" by (auto simp: selectMode_def avail_def split: if_splits)
  moreover have "avail (snd (flushBufferedLocked c1)) = avail c1" by (rule wrote_avail [OF wrote_flush])
  ultimately show ?thesis using assms m by (cases x) (auto simp: Flush_def)
qed

lemma serveRound_avail:
  assumes "onlyWrites h" "serveRound h c s = (None, c', s')"
  shows "avail c' < avail c"
proof -
  obtain c1 where f: "Flush c = (None, c1)" using assms(2) by (auto simp: serveRound_def split: prod.splits option.splits)
  then obtain c2 s2 where m: "serveMessage h c1 s = (None, c2, s2)"
    using assms(2) by (auto simp: serveRound_def split: prod.splits option.splits)
  then have "avail c' \<le> avail c2" using assms f serveDrain_avail by (fastforce simp: serveRound_def)
  then show ?thesis using serveMessage_avail [OF assms(1) m] Flush_avail [OF f] by simp
qed

lemma serveLoop_returns: "onlyWrites h \<Longrightarrow> \<exists>r. serveLoop h c s = Some r"
proof (induction "avail c" arbitrary: c s rule: less_induct)
  case less
  show ?case
  proof (cases "serveRound h c s")
    case (fields e c' s')
    then show ?thesis using less serveRound_avail [of h c s c' s']
      by (cases e) (subst serveLoop.simps, fastforce)+
  qed
qed

section \<open>A drain round does not block\<close>

lemma teardown_reads: "t_reads (c_conn (teardown c)) = t_reads (c_conn c)"
  by (simp add: teardown_def frameStop_def releaseFrameCompressor_def tClose_def Let_def)

lemma failClose_reads: "t_reads (c_conn (snd (failClose code reason c))) = t_reads (c_conn c)"
  using wrote_sendClose [of c code reason]
  by (auto simp: failClose_def Let_def case_prod_beta teardown_reads wrote_def)

lemma failWith_reads: "failWith (failClose code reason c) = (r, c') \<Longrightarrow> t_reads (c_conn c') = t_reads (c_conn c)"
  using failClose_reads by (auto simp: failWith_def)

lemma readContiguousPayload_resident:
  assumes "nat (h_Length h) \<le> c_r1 c - c_r0 c" "readContiguousPayload h c = (r, c')"
  shows "t_reads (c_conn c') = t_reads (c_conn c)"
  using assms by (auto simp: readContiguousPayload_def Let_def split: if_splits prod.splits dest!: failWith_reads)

lemma readFramePayload_resident:
  assumes "0 \<le> h_Length h" "nat (h_Length h) \<le> c_r1 c - c_r0 c" "readFramePayload h c = (r, c')"
  shows "t_reads (c_conn c') = t_reads (c_conn c)"
proof -
  have fc: "failClose code reason d = (e, d') \<Longrightarrow> t_reads (c_conn d') = t_reads (c_conn d)" for code reason d e and d' :: "'a Conn"
    using failClose_reads by (metis snd_conv)
  have tk: "min (int (c_r1 c - c_r0 c)) (h_Length h) = h_Length h" using assms(1,2) by simp
  show ?thesis using assms
    by (auto simp: readFramePayload_def drainWindow_def Let_def tk split: if_splits prod.splits dest!: fc)
qed

lemma finishMessage_reads: "finishMessage op c = (r, c') \<Longrightarrow> t_reads (c_conn c') = t_reads (c_conn c)"
  by (auto simp: finishMessage_def finishCompressedMessage_def Let_def
      split: if_splits prod.splits sum.splits decompressErr.splits dest!: failWith_reads)

lemma DecodeHeader_accepts:
  assumes "DecodeHeader b = Inr (h, n)"
  shows "2 \<le> n \<and> n \<le> length b \<and> 0 \<le> h_Length h"
proof -
  note c = DecodeHeader_canonical [OF assms]
  then have "n = length (AppendHeader [] h)" by (metis length_take min.absorb2)
  then have "2 \<le> n" unfolding length_AppendHeader by simp
  then show ?thesis using c by (auto simp: wfHeader_def)
qed

lemma readMessageBody_resident:
  assumes c: "readable c" and ready: "bufferedMessageReady c"
  shows "t_reads (c_conn (snd (readMessageBody c))) = t_reads (c_conn c)"
proof -
  define d where "d = c\<lparr>c_msgBuf := [], c_utf8v := Reset (c_utf8v c)\<rparr>"
  have d: "window d = window c" "c_r0 d = c_r0 c" "c_r1 d = c_r1 c" "c_conn d = c_conn c" "c_rbuf d = c_rbuf c"
    by (simp_all add: d_def window_def)
  obtain h n where hn: "DecodeHeader (window c) = Inr (h, n)" "h_Length h \<le> int (c_r1 c - c_r0 c - n)" "h_Fin h"
    "IsData (h_Opcode h)"
    using ready by (auto simp: bufferedMessageReady_def split: if_splits sum.splits prod.splits)
  have len: "length (window c) = c_r1 c - c_r0 c" using c by (auto simp: window_def readable_def)
  have b: "2 \<le> n" "n \<le> c_r1 c - c_r0 c" "0 \<le> h_Length h" using DecodeHeader_accepts [OF hn(1)] len by auto
  have "headerTableFor (c_client c) (c_compression c) = (c_hdrTable c, c_hdrMaskBit c)" using c by (simp add: readable_def)
  then have "decodeFor (c_client c) (c_compression c) (window c) = decodeFrameHeaderFast (c_hdrTable c) (c_hdrMaskBit c) (window c)"
    by (simp add: decodeFor_def)
  then have tbl: "decodeFrameHeaderFast (c_hdrTable d) (c_hdrMaskBit d) (window d) =
      decodeAndCheck (c_client c) (c_compression c) (window c)"
    using d(1) by (simp add: d_def decodeFor_decodeAndCheck)
  have "decodeAndCheck (c_client c) (c_compression c) (window c) \<in> {Inl rejectRSV, Inl rejectMask, Inr (h, n)}"
    using hn(1) by (simp add: decodeAndCheck_def)
  then consider (bad) reason where "readHeader d = failWith (failClose CloseProtocolError reason d)"
    | (good) "readHeader d = (Inr h, d\<lparr>c_r0 := c_r0 d + n\<rparr>)"
    using tbl b d by (auto simp: readHeader_def readHeaderWithPartialEOF.simps [of False d] Let_def)
  then show ?thesis
  proof cases
    case bad
    obtain e d1 where f: "failClose CloseProtocolError reason d = (e, d1)" by fastforce
    then have "t_reads (c_conn d1) = t_reads (c_conn d)" using failClose_reads by (metis snd_conv)
    then show ?thesis using bad f d by (simp add: readMessageBody_def messageLoop.simps [of False] failWith_def flip: d_def)
  next
    case good
    define d1 where "d1 = d\<lparr>c_r0 := c_r0 d + n\<rparr>"
    have op: "\<not> IsControl (h_Opcode h)" "isOpening h" "h_Opcode h \<noteq> OpcodeContinuation"
      using hn(4) by (auto simp: IsData_def isOpening_def IsControl_def opcode_defs)
    have fit: "h_Length h \<le> int (length (c_rbuf d1))" using c hn(2) b d by (auto simp: d1_def readable_def)
    define d2 where "d2 = d1\<lparr>c_msgIsText := (h_Opcode h = OpcodeText), c_msgCompressed := (h_Rsv h = RSV1)\<rparr>"
    have bm: "beginMessage h d1 = d2" using fit by (simp add: beginMessage_def d2_def Let_def)
    have res: "nat (h_Length h) \<le> c_r1 d2 - c_r0 d2" using hn(2) b d by (simp add: d2_def d1_def)
    have "t_reads (c_conn (snd (messageLoop False 0 d))) = t_reads (c_conn d2)"
    proof (cases "c_msgCompressed d2")
      case False
      have "snd (messageLoop False 0 d) = snd (readContiguousPayload h d2)"
        using good op bm hn(3) fit False
        by (simp add: messageLoop.simps [of False] Let_def split: prod.splits sum.splits flip: d1_def)
          (simp add: d2_def)
      then show ?thesis using readContiguousPayload_resident [OF res prod.collapse [symmetric]] by simp
    next
      case True
      obtain x d3 where p: "readFramePayload h d2 = (x, d3)" by fastforce
      have "snd (messageLoop False 0 d) = (case x of Some e \<Rightarrow> d3 | None \<Rightarrow> snd (finishMessage (h_Opcode h) d3))"
        using good op bm hn(3) True p
        by (simp add: messageLoop.simps [of False] Let_def split: option.splits flip: d1_def)
      then show ?thesis using readFramePayload_resident [OF b(3) res p] finishMessage_reads [OF prod.collapse [symmetric], of "h_Opcode h" d3]
        by (simp split: option.split)
    qed
    then show ?thesis using d by (simp add: readMessageBody_def d2_def d1_def flip: d_def)
  qed
qed

section \<open>Properties of Serve\<close>

text \<open>The echo handler: every message is sent back, buffered.\<close>

definition echo :: "('w, unit) handler" where
  "echo op p c s = (case WriteMessageBuffered op p c of (e, c) \<Rightarrow> (e, c, s))"

lemma onlyWrites_echo: "onlyWrites echo"
proof -
  have "avail (snd (WriteMessageBuffered op p c)) = avail c" for op p and c :: "'w Conn"
  proof -
    obtain x c1 where m: "selectMode connModeMessage c = (x, c1)" by fastforce
    then have c1: "avail c1 = avail c" by (auto simp: selectMode_def avail_def split: if_splits)
    obtain bs c2 where a: "appendFrameLocked (c_wbatch c1) op p c1 = (bs, c2)" by fastforce
    then have c2: "avail (c2\<lparr>c_wbatch := bs\<rparr>) = avail c1"
      by (auto simp: appendFrameLocked_def maskingKey_def Let_def avail_def split: if_splits)
    have "avail (snd (flushBufferedLocked (c2\<lparr>c_wbatch := bs\<rparr>))) = avail (c2\<lparr>c_wbatch := bs\<rparr>)"
      by (rule wrote_avail [OF wrote_flush])
    then show ?thesis using m a c1 c2 by (simp add: WriteMessageBuffered_def Let_def split: option.split)
  qed
  then have "WriteMessageBuffered op p c = (e, c') \<Longrightarrow> avail c' = avail c" for op p e and c c' :: "'a Conn"
    by (metis snd_conv)
  then show ?thesis by (auto simp: onlyWrites_def echo_def split: prod.splits)
qed

text \<open>C19: \<^verbatim>\<open>Serve\<close> returns. Whatever the peer sends and however the transport fails, a handler that does not itself
  make more to read is called only finitely often, and \<^verbatim>\<open>Serve\<close> ends with an error.\<close>

theorem serve_returns:
  assumes "onlyWrites h"
  shows "\<exists>e c' s'. Serve h c s = Some (e, c', s')"
proof -
  have "\<exists>e c' s'. serveLoop h d s = Some (e, c', s')" for d using serveLoop_returns [OF assms] by (metis prod_cases3)
  then show ?thesis by (auto simp: Serve_def split: prod.split option.split)
qed

theorem serve_returns_witness:
  "\<exists>(c :: bytes Conn) e c' s'. newConn demoTransport True True storeConfig (\<lambda>_. 0) [] = Inr c \<and>
     Serve echo c () = Some (e, c', s')"
  using serve_returns [OF onlyWrites_echo] demo_newConn by blast

text \<open>C20: A drain round does not block. When the readiness test of \<^verbatim>\<open>Serve\<close> holds, reading the next message asks
  the transport for nothing, whether the message is accepted, is compressed, or breaks a rule and fails the
  connection.\<close>

theorem serve_drain_reads_nothing:
  assumes "readable c" "bufferedMessageReady c"
  shows "t_reads (c_conn (snd (readMessageBody c))) = t_reads (c_conn c)"
  by (rule readMessageBody_resident [OF assms])

theorem serve_drain_reads_nothing_witness:
  "\<exists>c :: bytes Conn. newConn (demoTransport\<lparr>t_reads := [([0x00], None)]\<rparr>) True True storeConfig (\<lambda>_. 0)
      [WithBuffered [0x81, 0x02, 0x68, 0x69]] = Inr c \<and> bufferedMessageReady c \<and>
    t_reads (c_conn (snd (readMessageBody c))) = [([0x00], None)]"
proof -
  let ?t = "demoTransport\<lparr>t_reads := [([0x00], None)]\<rparr>"
  obtain c :: "bytes Conn" where c: "newConn ?t True True storeConfig (\<lambda>_. 0) [WithBuffered [0x81, 0x02, 0x68, 0x69]] = Inr c"
    by (auto simp: newConn_def defaultConfig_def Let_def case_prod_beta)
  have st: "steady ?t" by (simp add: steady_def demoTransport_def)
  note n = newConn_readable [OF c st]
  have r: "readable c" "pending c = [0x81, 0x02, 0x68, 0x69, 0x00]" "c_conn c = ?t"
    using n by (simp_all add: defaultConfig_def defaultReadBufferSize_def pool_consts incoming_def)
  then have w: "window c = [0x81, 0x02, 0x68, 0x69]" by (simp add: pending_def incoming_def)
  have "length (window c) = c_r1 c - c_r0 c" using r(1) by (auto simp: window_def readable_def)
  then have len: "c_r1 c - c_r0 c = 4" "c_r0 c \<noteq> c_r1 c" using w by auto
  let ?h = "\<lparr>h_Fin = True, h_Rsv = 0, h_Opcode = OpcodeText, h_Masked = False, h_MaskKey = 0, h_Length = 2\<rparr>"
  have "AppendHeader [] ?h = [0x81, 0x02]" by (simp add: AppendHeader_def opcode_defs)
  moreover have "wfHeader ?h" by (simp add: wfHeader_def reservedOpcode_def opcode_defs IsControl_def word_le_nat_alt)
  ultimately have "DecodeHeader (window c) = Inr (?h, 2)"
    using DecodeHeader_AppendHeader_aux [of ?h "[0x68, 0x69]"] w by simp
  then have "bufferedMessageReady c" using len by (simp add: bufferedMessageReady_def IsData_def)
  then show ?thesis using serve_drain_reads_nothing [OF r(1)] c r(3) by auto
qed

end
