(* ===== verification/Http_Header.thy ===== *)
theory Http_Header
  imports Negotiation Httpx Transport "HOL-Library.List_Lexorder" "HOL-Library.Multiset"
begin

text \<open>
  The header side of the opening handshake, \<^verbatim>\<open>src/header.go\<close>, with the errors of \<^verbatim>\<open>src/errors.go\<close> that a handshake
  returns: the scan both roles share, and the extra headers a caller may add to a request or a response.

  A Go \<^verbatim>\<open>http.Header\<close> is a map whose iteration order is arbitrary: it is the list of its entries in the order
  the iteration delivers them, and the theorems hold for every order.
\<close>

section \<open>Errors\<close>

datatype handshakeErr =
    HttpError httpErr
  | HandshakeIO ioErr
  | ErrHeaderTooLarge
  | ErrMissingHost
  | ErrNotUpgrade
  | ErrNotConnectionUpgrade
  | ErrUnsupportedVersion
  | ErrMissingKey
  | ErrOriginRejected
  | ErrNotWebSocketScheme
  | UnexpectedStatusError int bytes
  | ErrAcceptMismatch
  | ErrUnrequestedSubprotocol
  | ErrCompressionResponse negotiationErr
  | ErrInvalidWindowBits
  | ErrConflictingClientWindowBits
  | ErrWindowBitsUnsupported
  | ErrReservedHeader bytes
  | ErrMalformedHeader bytes
  | ErrProxyUnsupportedScheme
  | ErrProxyConnectFailed "handshakeErr option"
  | ErrTooManyRedirects
  | ErrMalformedLocation
  | MalformedURL
  | MissingHostname
  | RedirectBlocked nat
  | HopFailed nat
  | HijackFailed ioErr
  | DialPanic

section \<open>Scanning the handshake headers\<close>

text \<open>\<^const>\<open>None\<close> is a nil slice where the code tells it from an empty one.\<close>

record wsHandshakeHeaders =
  hf_key :: bytes
  hf_origin :: "bytes option"
  hf_protocol :: "bytes option"
  hf_extensions :: "bytes option"
  hf_accept :: bytes
  hf_hostSeen :: bool
  hf_upgradeOK :: bool
  hf_connectionOK :: bool
  hf_versionOK :: bool

definition noHandshakeHeaders :: wsHandshakeHeaders where
  "noHandshakeHeaders = \<lparr>hf_key = [], hf_origin = None, hf_protocol = None, hf_extensions = None,
     hf_accept = [], hf_hostSeen = False, hf_upgradeOK = False, hf_connectionOK = False, hf_versionOK = False\<rparr>"

definition classifyHeader :: "wsHandshakeHeaders \<Rightarrow> bytes \<Rightarrow> bytes \<Rightarrow> wsHandshakeHeaders" where
  "classifyHeader f key val =
     (if EqualFold key (B ''host'') then f\<lparr>hf_hostSeen := True\<rparr>
      else if EqualFold key (B ''upgrade'') then
        f\<lparr>hf_upgradeOK := hf_upgradeOK f \<or> ContainsToken val (B ''websocket'')\<rparr>
      else if EqualFold key (B ''connection'') then
        f\<lparr>hf_connectionOK := hf_connectionOK f \<or> ContainsToken val (B ''upgrade'')\<rparr>
      else if EqualFold key (B ''sec-websocket-version'') then
        f\<lparr>hf_versionOK := hf_versionOK f \<or> val = B ''13''\<rparr>
      else if EqualFold key (B ''sec-websocket-key'') then f\<lparr>hf_key := val\<rparr>
      else if EqualFold key (B ''origin'') then f\<lparr>hf_origin := Some val\<rparr>
      else if EqualFold key (B ''sec-websocket-protocol'') then f\<lparr>hf_protocol := Some val\<rparr>
      else if EqualFold key (B ''sec-websocket-extensions'') then f\<lparr>hf_extensions := Some val\<rparr>
      else if EqualFold key (B ''sec-websocket-accept'') then f\<lparr>hf_accept := val\<rparr>
      else f)"

definition scanWSHandshakeHeaders :: "bytes \<Rightarrow> wsHandshakeHeaders \<times> httpErr option" where
  "scanWSHandshakeHeaders headers = scanFold classifyHeader noHandshakeHeaders (NewHeaderScanner headers)"

section \<open>Extra headers\<close>

type_synonym httpHeader = "(bytes \<times> bytes list) list"

definition defaultMaxHeaderBytes :: int where "defaultMaxHeaderBytes = 8192"

definition secWebSocketPrefix :: bytes where
  "secWebSocketPrefix = B ''Sec-WebSocket-''"

definition reservedRequestHeaders :: "bytes list" where
  "reservedRequestHeaders = [B ''Host'', B ''Upgrade'', B ''Connection'', B ''Content-Length'',
     B ''Transfer-Encoding'', B ''Trailer'', B ''TE'', B ''Keep-Alive'', B ''Proxy-Authorization'',
     B ''Proxy-Connection'']"

text \<open>
  \<^verbatim>\<open>strings.EqualFold(s, t)\<close> for an ASCII \<open>t\<close>: besides the letters of the other case, the only runes that
  fold to an ASCII letter are U+017F (long s, \<open>C5 BF\<close>) and U+212A (the Kelvin sign, \<open>E2 84 AA\<close>).
\<close>

fun stringsEqualFold :: "bytes \<Rightarrow> bytes \<Rightarrow> bool" where
  "stringsEqualFold s [] \<longleftrightarrow> s = []"
| "stringsEqualFold s (d # t) \<longleftrightarrow>
     (if s = [] then False
      else if hd s < 0x80 then foldByte (hd s) = foldByte d \<and> stringsEqualFold (tl s) t
      else if take 2 s = [0xC5, 0xBF] then foldByte d = 115 \<and> stringsEqualFold (drop 2 s) t
      else if take 3 s = [0xE2, 0x84, 0xAA] then foldByte d = 107 \<and> stringsEqualFold (drop 3 s) t
      else False)"

definition reservedHeaderName :: "bytes \<Rightarrow> bool" where
  "reservedHeaderName name \<longleftrightarrow>
     (if length name \<ge> length secWebSocketPrefix \<and>
         stringsEqualFold (take (length secWebSocketPrefix) name) secWebSocketPrefix then True
      else list_ex (stringsEqualFold name) reservedRequestHeaders)"

definition validHeaderValue :: "bytes \<Rightarrow> bool" where
  "validHeaderValue s \<longleftrightarrow> list_all (\<lambda>b. if b = HT then True else \<not> (b < 0x20 \<or> b = 0x7F)) s"

text \<open>The values of one header: the bytes they add to the total.\<close>

primrec extraValues :: "bytes \<Rightarrow> int \<Rightarrow> bytes list \<Rightarrow> handshakeErr + int" where
  "extraValues name sofar [] = Inr sofar"
| "extraValues name sofar (v # vs) =
     (if \<not> validHeaderValue v then Inl (ErrMalformedHeader name)
      else extraValues name (sofar + int (length name + length (B '': '' @ CRLF) + length v)) vs)"

primrec extraHeaders :: "int \<Rightarrow> httpHeader \<Rightarrow> handshakeErr + int" where
  "extraHeaders sofar [] = Inr sofar"
| "extraHeaders sofar (h # r) =
     (if \<not> IsToken (fst h) then Inl (ErrMalformedHeader (fst h))
      else if reservedHeaderName (fst h) then Inl (ErrReservedHeader (fst h))
      else case extraValues (fst h) sofar (snd h) of
        Inl e \<Rightarrow> Inl e
      | Inr sofar \<Rightarrow> extraHeaders sofar r)"

definition validateExtraHeaders :: "httpHeader \<Rightarrow> handshakeErr option" where
  "validateExtraHeaders h =
     (case extraHeaders 0 h of
        Inl e \<Rightarrow> Some e
      | Inr sofar \<Rightarrow> if sofar > defaultMaxHeaderBytes then Some ErrHeaderTooLarge else None)"

text \<open>\<^verbatim>\<open>h[name]\<close> of a Go map: nil when there is no entry.\<close>

definition headerValues :: "httpHeader \<Rightarrow> bytes \<Rightarrow> bytes list" where
  "headerValues h name = (case map_of h name of None \<Rightarrow> [] | Some vs \<Rightarrow> vs)"

definition appendExtraHeaders :: "bytes \<Rightarrow> httpHeader \<Rightarrow> bytes" where
  "appendExtraHeaders dst h =
     (if h = [] then dst
      else dst @ concat (map (\<lambda>name. concat (map (\<lambda>v. name @ B '': '' @ v @ CRLF) (headerValues h name)))
        (sort (map fst h))))"

definition deleteHeaderFold :: "httpHeader \<Rightarrow> bytes \<Rightarrow> httpHeader" where
  "deleteHeaderFold h name = filter (\<lambda>(k, _). \<not> stringsEqualFold k name) h"

text \<open>Scanning a block of well-formed fields.\<close>

lemma scan_fields:
  assumes "list_all fieldOk hs"
  shows "scanFold body acc (NewHeaderScanner (concat (map fieldLine hs) @ CRLF @ rest)) =
    (foldl (\<lambda>a h. body a (fst h) (TrimOWS (snd h))) acc hs, None)"
  by (rule scanFold_fields [OF assms, of _ rest]) (simp_all add: NewHeaderScanner_def)

section \<open>What validated headers serialize to\<close>

lemma fieldLine_text: "name @ B '': '' @ v @ CRLF = fieldLine (name, v)"
  by (simp add: fieldLine_def)

text \<open>The fields of the extra headers, in the order they are written.\<close>

definition extraFields :: "httpHeader \<Rightarrow> (bytes \<times> bytes) list" where
  "extraFields h = concat (map (\<lambda>name. map (Pair name) (headerValues h name)) (sort (map fst h)))"

lemma appendExtraHeaders_fields: "appendExtraHeaders dst h = dst @ concat (map fieldLine (extraFields h))"
proof -
  have "concat (map (\<lambda>name. concat (map (\<lambda>v. fieldLine (name, v)) (f name))) ns) =
      concat (map fieldLine (concat (map (\<lambda>name. map (Pair name) (f name)) ns)))" for f ns
    by (induction ns) (simp_all add: comp_def)
  then show ?thesis unfolding appendExtraHeaders_def extraFields_def fieldLine_text by simp
qed

lemma validHeaderValue_clean: "validHeaderValue v \<Longrightarrow> CR \<notin> set v \<and> LF \<notin> set v"
  by (auto simp: validHeaderValue_def list_all_iff word_less_def split: if_splits)

lemma extraValues_ok:
  "extraValues name sofar vs = Inr t \<Longrightarrow>
    list_all validHeaderValue vs \<and> t = sofar + int (sum_list (map (\<lambda>v. length (fieldLine (name, v))) vs))"
  by (induction vs arbitrary: sofar) (fastforce simp: fieldLine_def split: if_splits)+

lemma extraHeaders_ok:
  "extraHeaders sofar h = Inr t \<Longrightarrow>
    list_all (\<lambda>(name, vs). IsToken name \<and> \<not> reservedHeaderName name \<and> list_all validHeaderValue vs) h \<and>
    t = sofar + int (sum_list (map (\<lambda>(name, vs). sum_list (map (\<lambda>v. length (fieldLine (name, v))) vs)) h))"
proof (induction h arbitrary: sofar)
  case (Cons a h)
  obtain name vs where a: "a = (name, vs)" by fastforce
  then obtain u where "extraValues name sofar vs = Inr u" "extraHeaders u h = Inr t"
    using Cons.prems by (auto split: if_splits sum.splits)
  then show ?case using Cons.IH [of u] Cons.prems a extraValues_ok [of name sofar vs u]
    by (auto split: if_splits)
qed simp

lemma extraFields_from:
  assumes "f \<in> set (extraFields h)"
  shows "\<exists>vs. (fst f, vs) \<in> set h \<and> snd f \<in> set vs"
proof -
  obtain name v where f: "f = (name, v)" "v \<in> set (headerValues h name)"
    using assms by (auto simp: extraFields_def)
  then obtain vs where "map_of h name = Some vs" "v \<in> set vs"
    by (cases "map_of h name") (auto simp: headerValues_def)
  then show ?thesis using f(1) map_of_SomeD by fastforce
qed

lemma extraFields_ok:
  assumes "validateExtraHeaders h = None" "f \<in> set (extraFields h)"
  shows "fieldOk f \<and> \<not> reservedHeaderName (fst f)"
proof -
  obtain t where "extraHeaders 0 h = Inr t" using assms(1) by (auto simp: validateExtraHeaders_def split: sum.splits)
  from extraHeaders_ok [OF this] extraFields_from [OF assms(2)] validHeaderValue_clean show ?thesis
    by (fastforce simp: list_all_iff fieldOk_def)
qed

lemma sum_list_sort: "sum_list (map f (sort xs)) = sum_list (map f xs)" for f :: "bytes \<Rightarrow> nat"
proof -
  have "mset (map f (sort xs)) = mset (map f xs)" by simp
  then show ?thesis by (metis sum_mset_sum_list)
qed

text \<open>The total that is checked is the length of what is written; a Go map has no two entries of one name.\<close>

lemma length_extraFields:
  assumes "distinct (map fst h)" "extraHeaders 0 h = Inr t"
  shows "int (length (appendExtraHeaders [] h)) = t"
proof -
  let ?len = "\<lambda>name vs. sum_list (map (\<lambda>v. length (fieldLine (name, v))) vs)"
  have "length (concat (map fieldLine (concat (map (\<lambda>name. map (Pair name) (f name)) ns)))) =
      sum_list (map (\<lambda>name. ?len name (f name)) ns)" for f ns
    by (induction ns) (simp_all add: length_concat comp_def)
  then have "length (appendExtraHeaders [] h) = sum_list (map (\<lambda>name. ?len name (headerValues h name)) (sort (map fst h)))"
    by (simp add: appendExtraHeaders_fields extraFields_def)
  also have "\<dots> = sum_list (map (\<lambda>name. ?len name (headerValues h name)) (map fst h))"
    by (rule sum_list_sort)
  also have "\<dots> = sum_list (map (\<lambda>(name, vs). ?len name vs) h)"
    using assms(1) by (intro arg_cong [where f = sum_list]) (auto simp: headerValues_def)
  finally show ?thesis using extraHeaders_ok [OF assms(2)] by simp
qed

text \<open>A name the handshake looks for is a reserved one.\<close>

lemma foldByte_ascii: "foldByte c < 0x80 \<longleftrightarrow> c < 0x80"
  by (auto simp: foldByte_def word_less_nat_alt word_le_nat_alt unat_word_ariths)

lemma fold_stringsEqualFold:
  "map foldByte s = map foldByte t \<Longrightarrow> list_all (\<lambda>d. d < 0x80) t \<Longrightarrow> stringsEqualFold s t"
proof (induction t arbitrary: s)
  case (Cons d t)
  then obtain c s' where "s = c # s'" "foldByte c = foldByte d" "map foldByte s' = map foldByte t" by auto
  moreover have "foldByte d < 0x80" using Cons.prems(2) by (simp add: foldByte_ascii)
  then have "c < 0x80" using calculation(2) foldByte_ascii [of c] by simp
  ultimately show ?case using Cons by simp
qed simp

lemma fold_reserved:
  assumes "EqualFold key lower" "t \<in> set reservedRequestHeaders" "map foldByte t = lower"
  shows "reservedHeaderName key"
proof -
  have "list_all (\<lambda>d. d < 0x80) t" using assms(2) by (auto simp: reservedRequestHeaders_def word_less_def)
  then have "stringsEqualFold key t" using assms by (intro fold_stringsEqualFold) (simp_all add: EqualFold_map)
  then show ?thesis using assms(2) by (auto simp: reservedHeaderName_def list_ex_iff)
qed

lemma fold_secWebSocket:
  assumes "EqualFold key lower" "take (length secWebSocketPrefix) lower = map foldByte secWebSocketPrefix"
  shows "reservedHeaderName key"
proof -
  have "map foldByte (take (length secWebSocketPrefix) key) = map foldByte secWebSocketPrefix"
    using assms by (metis EqualFold_map take_map)
  moreover have "list_all (\<lambda>d. d < 0x80) secWebSocketPrefix" by (simp add: secWebSocketPrefix_def word_less_def)
  ultimately have f: "stringsEqualFold (take (length secWebSocketPrefix) key) secWebSocketPrefix"
    by (rule fold_stringsEqualFold)
  have "length (take (length secWebSocketPrefix) key) = length secWebSocketPrefix"
    using \<open>map foldByte (take _ key) = _\<close> by (metis length_map)
  then have "length secWebSocketPrefix \<le> length key" by simp
  then show ?thesis using f by (simp add: reservedHeaderName_def)
qed

lemma classify_unreserved:
  assumes "\<not> reservedHeaderName key"
  shows "classifyHeader f key val = (if EqualFold key (B ''origin'') then f\<lparr>hf_origin := Some val\<rparr> else f)"
proof -
  have "\<not> EqualFold key (B ''host'')" "\<not> EqualFold key (B ''upgrade'')" "\<not> EqualFold key (B ''connection'')"
    using assms fold_reserved [of key "B ''host''" "B ''Host''"] fold_reserved [of key "B ''upgrade''" "B ''Upgrade''"]
      fold_reserved [of key "B ''connection''" "B ''Connection''"]
    by (auto simp: reservedRequestHeaders_def foldByte_def word_le_def)
  moreover have "\<not> EqualFold key (B (''sec-websocket-'' @ x))" for x
    using assms fold_secWebSocket [of key "B (''sec-websocket-'' @ x)"]
    by (auto simp: secWebSocketPrefix_def foldByte_def word_le_def)
  note this [of "''version''"] this [of "''key''"] this [of "''protocol''"] this [of "''extensions''"] this [of "''accept''"]
  ultimately show ?thesis by (simp add: classifyHeader_def del: B_Cons)
qed

lemma classify_extra:
  assumes "\<And>f. f \<in> set fs \<Longrightarrow> \<not> reservedHeaderName (fst f)"
  shows "\<exists>origin. foldl (\<lambda>a f. classifyHeader a (fst f) (TrimOWS (snd f))) a fs = a\<lparr>hf_origin := origin\<rparr>"
  using assms
proof (induction fs arbitrary: a)
  case Nil
  then show ?case by (intro exI [of _ "hf_origin a"]) simp
next
  case (Cons f fs)
  then obtain o1 where "foldl (\<lambda>a f. classifyHeader a (fst f) (TrimOWS (snd f)))
      (classifyHeader a (fst f) (TrimOWS (snd f))) fs = (classifyHeader a (fst f) (TrimOWS (snd f)))\<lparr>hf_origin := o1\<rparr>"
    by fastforce
  then show ?case using Cons.prems [of f] by (intro exI [of _ o1]) (simp add: classify_unreserved)
qed

section \<open>Properties of the extra headers\<close>

text \<open>C36: Extra headers cannot disturb the handshake. A validated set of extra headers with distinct names is written as at most
  8192 bytes; read back, whatever follows, the fields are exactly the given names in name order, each with its values as given
  but for the blanks and tabs at their ends, which any reader of a header trims; and a
  scan for the handshake's own headers learns nothing from them except an Origin the caller set.\<close>

theorem extra_headers_contained:
  assumes "validateExtraHeaders h = None" "distinct (map fst h)"
  shows "int (length (appendExtraHeaders [] h)) \<le> defaultMaxHeaderBytes \<and>
    scanFold (\<lambda>fs key val. fs @ [(key, val)]) [] (NewHeaderScanner (appendExtraHeaders [] h @ CRLF @ rest)) =
      (map (\<lambda>f. (fst f, TrimOWS (snd f))) (extraFields h), None) \<and>
    (\<exists>origin. scanWSHandshakeHeaders (appendExtraHeaders [] h @ CRLF @ rest) =
      (noHandshakeHeaders\<lparr>hf_origin := origin\<rparr>, None))"
proof -
  obtain t where t: "extraHeaders 0 h = Inr t" "t \<le> defaultMaxHeaderBytes"
    using assms(1) by (auto simp: validateExtraHeaders_def split: sum.splits if_splits)
  have ok: "list_all fieldOk (extraFields h)" "\<And>f. f \<in> set (extraFields h) \<Longrightarrow> \<not> reservedHeaderName (fst f)"
    using extraFields_ok [OF assms(1)] by (auto simp: list_all_iff)
  have "foldl (\<lambda>fs f. fs @ [(fst f, TrimOWS (snd f))]) acc fs = acc @ map (\<lambda>f. (fst f, TrimOWS (snd f))) fs"
    for acc and fs :: "(bytes \<times> bytes) list" by (induction fs arbitrary: acc) simp_all
  then show ?thesis using length_extraFields [OF assms(2) t(1)] t(2) classify_extra [OF ok(2)]
    by (simp add: scanWSHandshakeHeaders_def scan_fields [OF ok(1)] appendExtraHeaders_fields
        del: append_assoc append_Cons)
qed

text \<open>A value with a blank at its end.\<close>

theorem extra_headers_contained_witness:
  "int (length (appendExtraHeaders [] [(B ''X-B'', [B ''2 '', B ''3'']), (B ''Cookie'', [B ''a=1''])])) \<le> defaultMaxHeaderBytes \<and>
    scanFold (\<lambda>fs key val. fs @ [(key, val)]) []
      (NewHeaderScanner (appendExtraHeaders [] [(B ''X-B'', [B ''2 '', B ''3'']), (B ''Cookie'', [B ''a=1''])] @ CRLF @ [])) =
      ([(B ''Cookie'', B ''a=1''), (B ''X-B'', B ''2''), (B ''X-B'', B ''3'')], None)"
proof -
  let ?h = "[(B ''X-B'', [B ''2 '', B ''3'']), (B ''Cookie'', [B ''a=1''])]"
  have "validateExtraHeaders ?h = None" by code_simp
  moreover have "distinct (map fst ?h)" by code_simp
  moreover have "map (\<lambda>f. (fst f, TrimOWS (snd f))) (extraFields ?h) = [(B ''Cookie'', B ''a=1''), (B ''X-B'', B ''2''), (B ''X-B'', B ''3'')]"
    by code_simp
  ultimately show ?thesis using extra_headers_contained [of ?h "[]"] by (simp only:)
qed

end
