(* ===== verification/Upgrade.thy ===== *)
theory Upgrade
  imports Http_Header Connection
begin

text \<open>
  The server side of the opening handshake, \<^verbatim>\<open>Upgrader.Upgrade\<close> of \<^verbatim>\<open>src/upgrader.go\<close>, with the \<^verbatim>\<open>Upgrader\<close> and
  \<^verbatim>\<open>Handshake\<close> of \<^verbatim>\<open>src/options.go\<close>: reading the request's header block, checking it, choosing a subprotocol and the
  compression, and writing the response or the rejection.
\<close>

section \<open>Configuration and result\<close>

record Upgrader =
  u_Subprotocols :: "bytes list"
  u_OriginCheck :: "(bytes option \<Rightarrow> bool) option"
  u_ForwardResponseHeaders :: bool
  u_MaxHeaderBytes :: int
  u_RawPath :: bool
  u_EnableCompression :: bool
  u_NegotiateWindowBits :: bool
  u_AllowContextTakeover :: bool
  u_TrustClientWindowBitsHint :: bool
  u_ClientWindowBits :: int

text \<open>\<open>hk_buf\<close> is the pooled buffer behind the raw path and query, if there is one.\<close>

record Handshake =
  hk_Path :: bytes
  hk_Query :: bytes
  hk_Subprotocol :: bytes
  hk_Buffered :: bytes
  hk_Compressed :: bool
  hk_CompressionParams :: CompressionParams
  hk_buf :: "bytes option"
  hk_rawPath :: bytes
  hk_rawQuery :: bytes

definition noHandshake :: Handshake where
  "noHandshake = \<lparr>hk_Path = [], hk_Query = [], hk_Subprotocol = [], hk_Buffered = [], hk_Compressed = False,
     hk_CompressionParams = noCompressionParams, hk_buf = None, hk_rawPath = [], hk_rawQuery = []\<rparr>"

text \<open>\<^verbatim>\<open>Handshake.Release\<close>: the buffer that goes back to the pool, if any.\<close>

definition Release :: "Handshake \<Rightarrow> bytes option \<times> Handshake" where
  "Release h =
     (if hk_buf h = None then (None, h)
      else (hk_buf h, h\<lparr>hk_buf := None, hk_rawPath := [], hk_rawQuery := []\<rparr>))"

definition upgraderPolicy :: "Upgrader \<Rightarrow> deflateNegotiatePolicy" where
  "upgraderPolicy u = \<lparr>pol_negotiateWindowBits = u_NegotiateWindowBits u,
     pol_allowContextTakeover = u_AllowContextTakeover u, pol_clientWindowBits = u_ClientWindowBits u\<rparr>"

section \<open>Reading the header block\<close>

definition doubleCRLF :: bytes where
  "doubleCRLF = CRLF @ CRLF"

text \<open>\<^verbatim>\<open>bytes.Index(b, doubleCRLF)\<close>\<close>

primrec blankLine :: "bytes \<Rightarrow> nat option" where
  "blankLine [] = None"
| "blankLine (x # r) = (if take 4 (x # r) = doubleCRLF then Some 0 else map_option Suc (blankLine r))"

lemma poolStorage_grows:
  assumes "int cp < n"
  shows "cp < length (poolStorage (min (2 * int cp) n))"
proof -
  let ?k = "min (2 * int cp) n"
  have "0 \<le> ?k" using assms by simp
  note p = length_poolStorage [OF this]
  show ?thesis
  proof (cases "cp = 0")
    case True
    then have "?k \<le> maxClassSize" by (simp add: pool_consts)
    then have "128 \<le> length (poolStorage ?k)" using p(2) by blast
    then have "0 < length (poolStorage ?k)" by linarith
    then show ?thesis using True by (simp only:)
  next
    case False
    then show ?thesis using p(1) assms by linarith
  qed
qed

text \<open>
  \<^verbatim>\<open>readHeaderBlock\<close>: \<open>cp\<close> is the capacity of the buffer and \<open>data\<close> its valid bytes. It returns the error, if any, and
  the valid bytes.
\<close>

function readHeaderBlock :: "int \<Rightarrow> nat \<Rightarrow> bytes \<Rightarrow> transport \<Rightarrow> (handshakeErr option \<times> bytes) \<times> transport" where
  "readHeaderBlock maxBytes cp data t =
     (if blankLine data \<noteq> None then ((None, data), t)
      else
        if int (length data) = min (int cp) maxBytes then
          if min (int cp) maxBytes \<ge> maxBytes then ((Some ErrHeaderTooLarge, data), t)
          else readHeaderBlock maxBytes (length (poolStorage (min (int cp * 2) maxBytes))) data t
        else
          case tRead (nat (min (int cp) maxBytes - int (length data))) t of
            ((p, Some e), t) \<Rightarrow> ((Some (HandshakeIO e), data @ p), t)
          | ((p, None), t) \<Rightarrow>
              if p = [] then ((Some (HandshakeIO NoProgress), data), t)
              else readHeaderBlock maxBytes cp (data @ p) t)"
  by pat_completeness auto
termination
proof (relation "measures [\<lambda>(_, _, _, t). unread t, \<lambda>(n, cp, _, _). nat n - cp]", goal_cases)
  case 1
  show ?case by simp
next
  case (2 maxBytes cp data t)
  then have "int cp < maxBytes" by (simp split: if_splits)
  then show ?case using poolStorage_grows [of cp maxBytes] by (simp add: mult.commute)
next
  case (3 maxBytes cp data t x t' p e)
  then have "unread t' + length p = unread t" by (metis tRead_unread(1))
  then show ?case using 3(6) by (simp flip: length_greater_0_conv)
qed

declare readHeaderBlock.simps [simp del]

section \<open>The answer\<close>

text \<open>The inner loop of \<^verbatim>\<open>negotiateSubprotocol\<close>: whether \<open>want\<close> is among the client's tokens.\<close>

function clientListed :: "bytes \<Rightarrow> bytes \<Rightarrow> bool" where
  "clientListed want rest =
     (if rest = [] then False
      else
        let (tok, rest) = (case indexByte rest COMMA of
              Some i \<Rightarrow> (take i rest, drop (i + 1) rest)
            | None \<Rightarrow> (rest, [])) in
        if TrimOWS tok = want then True else clientListed want rest)"
  by pat_completeness auto
termination by (relation "measure (length \<circ> snd)") (auto split: option.splits)

declare clientListed.simps [simp del]

primrec negotiateSubprotocol :: "bytes list \<Rightarrow> bytes \<Rightarrow> bytes" where
  "negotiateSubprotocol [] clientList = []"
| "negotiateSubprotocol (want # offered) clientList =
     (if clientListed want clientList then want else negotiateSubprotocol offered clientList)"

definition splitTarget :: "bytes \<Rightarrow> bytes \<times> bytes" where
  "splitTarget target = (case bytesCut target 63 of (path, query, _) \<Rightarrow> (path, query))"

text \<open>The parameters are \<^const>\<open>None\<close> where \<^verbatim>\<open>deflateOK\<close> is false.\<close>

definition appendSwitchingProtocolsResponse :: "bytes \<Rightarrow> bytes \<Rightarrow> bytes \<Rightarrow> DeflateParams option \<Rightarrow> bytes" where
  "appendSwitchingProtocolsResponse dst key subprotocol deflate =
     (let dst = dst @ B ''HTTP/1.1 101 Switching Protocols'' @ CRLF;
          dst = dst @ B ''Upgrade: websocket'' @ CRLF;
          dst = dst @ B ''Connection: Upgrade'' @ CRLF;
          dst = dst @ B ''Sec-WebSocket-Accept: '';
          dst = AppendAccept dst key;
          dst = dst @ CRLF;
          dst = (if subprotocol \<noteq> [] then dst @ B ''Sec-WebSocket-Protocol: '' @ subprotocol @ CRLF else dst);
          dst = (case deflate of
              Some p \<Rightarrow> AppendDeflateResponse (dst @ B ''Sec-WebSocket-Extensions: '') p @ CRLF
            | None \<Rightarrow> dst)
      in dst @ CRLF)"

definition errorResponse :: "nat \<Rightarrow> bytes \<Rightarrow> bytes \<Rightarrow> bytes" where
  "errorResponse status reason extraHeader =
     B ''HTTP/1.1 '' @ decimal status @ B '' '' @ reason @ CRLF @
     (if extraHeader \<noteq> [] then extraHeader @ CRLF else []) @
     B ''Content-Length: 0'' @ CRLF @ B ''Connection: close'' @ CRLF @ CRLF"

definition writeErrorResponse :: "nat \<Rightarrow> bytes \<Rightarrow> bytes \<Rightarrow> transport \<Rightarrow> transport" where
  "writeErrorResponse status reason extraHeader t = snd (tWrite (errorResponse status reason extraHeader) t)"

section \<open>Upgrade\<close>

text \<open>
  \<^verbatim>\<open>Upgrade\<close>. \<open>currentBits\<close> is \<^verbatim>\<open>currentDeflateWindowBits()\<close>, the window of the process's backend.
\<close>

definition Upgrade :: "int \<Rightarrow> Upgrader \<Rightarrow> transport \<Rightarrow> (handshakeErr + Handshake) \<times> transport" where
  "Upgrade currentBits u t =
     (if \<not> validateClientWindowBits (u_ClientWindowBits u) then (Inl ErrInvalidWindowBits, t)
      else
      let maxHeader = (if u_MaxHeaderBytes u \<le> 0 then defaultMaxHeaderBytes else u_MaxHeaderBytes u);
          initial = min 4096 maxHeader in
      case readHeaderBlock maxHeader (length (poolStorage initial)) [] t of
        ((Some err, data), t) \<Rightarrow>
          (Inl err,
           if err = ErrHeaderTooLarge then writeErrorResponse 431 (B ''Request Header Fields Too Large'') [] t else t)
      | ((None, data), t) \<Rightarrow>
        let reject = (\<lambda>status reason extraHeader err. (Inl err, writeErrorResponse status reason extraHeader t));
            idx = the (blankLine data);
            headerBlock = take (idx + 4) data in
        case ParseRequestLine headerBlock of
          (Inl err, _) \<Rightarrow> reject 400 (B ''Bad Request'') [] (HttpError err)
        | (Inr reqLine, consumed) \<Rightarrow>
          (case scanWSHandshakeHeaders (drop consumed headerBlock) of
             (_, Some err) \<Rightarrow> reject 400 (B ''Bad Request'') [] (HttpError err)
           | (hf, None) \<Rightarrow>
             if \<not> hf_versionOK hf
             then reject 426 (B ''Upgrade Required'') (B ''Sec-WebSocket-Version: 13'') ErrUnsupportedVersion
             else if \<not> hf_hostSeen hf then reject 400 (B ''Bad Request'') [] ErrMissingHost
             else if \<not> hf_upgradeOK hf then reject 400 (B ''Bad Request'') [] ErrNotUpgrade
             else if \<not> hf_connectionOK hf then reject 400 (B ''Bad Request'') [] ErrNotConnectionUpgrade
             else if length (hf_key hf) \<noteq> 24 then reject 400 (B ''Bad Request'') [] ErrMissingKey
             else if (case u_OriginCheck u of None \<Rightarrow> False | Some check \<Rightarrow> \<not> check (hf_origin hf))
             then reject 403 (B ''Forbidden'') [] ErrOriginRejected
             else
             let selected = (case hf_protocol hf of
                     Some protocol \<Rightarrow>
                       if length (u_Subprotocols u) > 0 then negotiateSubprotocol (u_Subprotocols u) protocol else []
                   | None \<Rightarrow> []);
                 negotiated = (case hf_extensions hf of
                     Some extensions \<Rightarrow>
                       if u_EnableCompression u
                       then negotiateDeflateWithHint currentBits extensions (upgraderPolicy u) else None
                   | None \<Rightarrow> None);
                 resp = appendSwitchingProtocolsResponse [] (hf_key hf) selected (map_option fst negotiated) in
             case tWrite resp t of
               ((_, Some werr), t) \<Rightarrow> (Inl (HandshakeIO werr), t)
             | ((_, None), t) \<Rightarrow>
               let h = noHandshake\<lparr>hk_Subprotocol := selected, hk_Compressed := negotiated \<noteq> None\<rparr>;
                   h = (case negotiated of
                       None \<Rightarrow> h
                     | Some (deflateParams, hint) \<Rightarrow>
                         let cp = compressionParamsFromDeflate deflateParams in
                         h\<lparr>hk_CompressionParams :=
                           (if u_TrustClientWindowBitsHint u \<and> \<not> HasClientMaxWindowBits deflateParams
                            then cp\<lparr>cp_ClientMaxWindowBitsHint := hint\<rparr> else cp)\<rparr>);
                   h = (if idx + 4 < length data then h\<lparr>hk_Buffered := drop (idx + 4) data\<rparr> else h);
                   (path, query) = splitTarget (rl_Target reqLine) in
               (Inr (if u_RawPath u then h\<lparr>hk_buf := Some data, hk_rawPath := path, hk_rawQuery := query\<rparr>
                     else h\<lparr>hk_Path := path, hk_Query := query\<rparr>), t)))"

end
