(* ===== verification/Dial.thy ===== *)
theory Dial
  imports Upgrade
begin

text \<open>
  The client side of the opening handshake, \<^verbatim>\<open>src/dialer.go\<close>: the request, the validation of the response, the
  CONNECT exchange with a proxy, and the loop of \<^verbatim>\<open>Dial\<close> that follows redirects.

  A \<^verbatim>\<open>url.URL\<close> is a record of the values the code takes from it. What \<^verbatim>\<open>net/url\<close> does to a redirect's
  Location and the Unicode case folding of host names are parameters, and so is one hop of \<^verbatim>\<open>Dial\<close>: the theorems on
  the loop hold for any behaviour of a hop. \<open>Dial_Hop\<close> has the hop of the code.
\<close>

section \<open>Configuration\<close>

record hopURL =
  url_Scheme :: bytes
  url_Host :: bytes
  url_Hostname :: bytes
  url_Port :: bytes
  url_RequestURI :: bytes

text \<open>The request a hop issues, as the callbacks see it.\<close>

type_synonym hopRequest = "hopURL \<times> httpHeader"

text \<open>The fields \<^verbatim>\<open>TLSConfig\<close>, \<^verbatim>\<open>NetDial\<close> and \<^verbatim>\<open>Proxy\<close> belong to the hop.\<close>

record Dialer =
  d_Subprotocols :: "bytes list"
  d_HTTPHeader :: httpHeader
  d_CheckRedirect :: "(hopRequest \<Rightarrow> hopRequest list \<Rightarrow> nat option) option"
  d_EnableCompression :: bool
  d_WindowBits :: int
  d_OfferClientMaxWindowBits :: bool
  d_AllowContextTakeover :: bool
  d_ServerWindowBits :: int

definition dialerOffer :: "Dialer \<Rightarrow> bytes" where
  "dialerOffer d = deflateOffer \<lparr>off_AllowContextTakeover = d_AllowContextTakeover d,
     off_WindowBits = d_WindowBits d, off_OfferClientMaxWindowBits = d_OfferClientMaxWindowBits d,
     off_ServerWindowBits = d_ServerWindowBits d\<rparr>"

section \<open>The request\<close>

text \<open>\<^verbatim>\<open>strings.Join(list, ", ")\<close>\<close>

fun joinCommaSpace :: "bytes list \<Rightarrow> bytes" where
  "joinCommaSpace [] = []"
| "joinCommaSpace [x] = x"
| "joinCommaSpace (x # y # r) = x @ B '', '' @ joinCommaSpace (y # r)"

definition handshakeRequest :: "Dialer \<Rightarrow> hopURL \<Rightarrow> httpHeader \<Rightarrow> bool \<Rightarrow> bytes \<Rightarrow> bytes \<Rightarrow> bytes" where
  "handshakeRequest d u hdr absoluteForm proxyAuth wsKey =
     (if absoluteForm then B ''GET http://'' @ url_Host u @ url_RequestURI u @ B '' HTTP/1.1''
      else B ''GET '' @ url_RequestURI u @ B '' HTTP/1.1'') @ CRLF @
     B ''Host: '' @ url_Host u @ CRLF @
     B ''Upgrade: websocket'' @ CRLF @
     B ''Connection: Upgrade'' @ CRLF @
     (if absoluteForm \<and> proxyAuth \<noteq> [] then B ''Proxy-Authorization: '' @ proxyAuth @ CRLF else []) @
     B ''Sec-WebSocket-Key: '' @ wsKey @ CRLF @
     B ''Sec-WebSocket-Version: 13'' @ CRLF @
     (if length (d_Subprotocols d) > 0
      then B ''Sec-WebSocket-Protocol: '' @ joinCommaSpace (d_Subprotocols d) @ CRLF else []) @
     (if d_EnableCompression d then B ''Sec-WebSocket-Extensions: '' @ dialerOffer d @ CRLF else []) @
     (if length hdr > 0 then appendExtraHeaders [] hdr else []) @ CRLF"

section \<open>The response\<close>

primrec statusDigits :: "int \<Rightarrow> bytes \<Rightarrow> int option" where
  "statusDigits n [] = Some n"
| "statusDigits n (c # r) = (if c < 48 \<or> c > 57 then None else statusDigits (n * 10 + uint (c - 48)) r)"

definition parseStatusCode :: "bytes \<Rightarrow> int option" where
  "parseStatusCode b = (if length b \<noteq> 3 then None else statusDigits 0 b)"

definition isRedirectStatus :: "int \<Rightarrow> bool" where
  "isRedirectStatus code \<longleftrightarrow> code \<in> set [301, 302, 303, 307, 308]"

definition findLocation :: "bytes \<Rightarrow> bytes \<times> httpErr option" where
  "findLocation headers =
     scanFold (\<lambda>location key val. if location = [] \<and> EqualFold key (B ''location'') then val else location) []
       (NewHeaderScanner headers)"

text \<open>The first offered subprotocol the response names.\<close>

primrec offeredSubprotocol :: "bytes \<Rightarrow> bytes list \<Rightarrow> bytes" where
  "offeredSubprotocol protocol [] = []"
| "offeredSubprotocol protocol (want # r) = (if protocol = want then want else offeredSubprotocol protocol r)"

text \<open>The last step: a valued offer bounds the client's own window, and the backend must be able to keep to it.\<close>

definition finishHandshake :: "'w deflateConfig \<Rightarrow> Dialer \<Rightarrow> Handshake \<Rightarrow> CompressionParams \<Rightarrow>
    handshakeErr + (Handshake \<times> bytes)" where
  "finishHandshake active d h cp =
     (if \<not> hk_Compressed h then Inr (h, [])
      else
        let cp = (if d_WindowBits d \<noteq> 0 then
                    cp\<lparr>cp_ClientMaxWindowBits :=
                      (if cp_ClientMaxWindowBits cp = 0 then d_WindowBits d
                       else min (cp_ClientMaxWindowBits cp) (d_WindowBits d))\<rparr>
                  else cp) in
        if \<not> checkWindowBitsSupported active (cp_ClientMaxWindowBits cp) then Inl ErrWindowBitsUnsupported
        else Inr (h\<lparr>hk_CompressionParams := cp\<rparr>, []))"

text \<open>
  The validation of a complete response: everything after \<^verbatim>\<open>readHeaderBlock\<close>. The result is the handshake, or the
  location of a redirect to follow; a handshake comes with an empty location.
\<close>

definition validateResponse :: "'w deflateConfig \<Rightarrow> Dialer \<Rightarrow> bytes \<Rightarrow> bytes \<Rightarrow> handshakeErr + (Handshake \<times> bytes)" where
  "validateResponse active d wsKey data =
     (let idx = the (blankLine data);
          headerBlock = take (idx + 4) data in
      case ParseStatusLine headerBlock of
        (Inl err, _) \<Rightarrow> Inl (HttpError err)
      | (Inr status, consumed) \<Rightarrow>
        let headers = drop consumed headerBlock in
        case parseStatusCode (sl_Code status) of
          None \<Rightarrow> Inl (HttpError ErrMalformedStatusLine)
        | Some code \<Rightarrow>
          if code \<noteq> 101 then
            let unexpected = Inl (UnexpectedStatusError code (sl_Reason status)) in
            if d_CheckRedirect d \<noteq> None \<and> isRedirectStatus code then
              (case findLocation headers of
                 (_, Some err) \<Rightarrow> Inl (HttpError err)
               | (loc, None) \<Rightarrow> if loc \<noteq> [] then Inr (noHandshake, loc) else unexpected)
            else unexpected
          else
          case scanWSHandshakeHeaders headers of
            (_, Some err) \<Rightarrow> Inl (HttpError err)
          | (hf, None) \<Rightarrow>
            if \<not> hf_upgradeOK hf then Inl ErrNotUpgrade
            else if \<not> hf_connectionOK hf then Inl ErrNotConnectionUpgrade
            else if hf_accept hf \<noteq> AppendAccept [] wsKey then Inl ErrAcceptMismatch
            else
            let protocol = (case hf_protocol hf of None \<Rightarrow> [] | Some p \<Rightarrow> p);
                selected = (if length protocol > 0 then offeredSubprotocol protocol (d_Subprotocols d) else []) in
            if length protocol > 0 \<and> selected = [] then Inl ErrUnrequestedSubprotocol
            else
            let offer = (if d_EnableCompression d then [dialerOffer d] else []);
                extensions = (case hf_extensions hf of None \<Rightarrow> [] | Some e \<Rightarrow> e) in
            case ParseCompression offer [extensions] of
              Inl err \<Rightarrow> Inl (ErrCompressionResponse err)
            | Inr (cp, compressed) \<Rightarrow>
              finishHandshake active d (noHandshake\<lparr>hk_Subprotocol := selected, hk_Compressed := compressed,
                hk_Buffered := drop (idx + 4) data\<rparr>) cp)"

text \<open>\<^verbatim>\<open>handshake\<close>. The sixteen random bytes of the key are an argument.\<close>

definition handshake :: "'w deflateConfig \<Rightarrow> Dialer \<Rightarrow> bytes \<Rightarrow> hopURL \<Rightarrow> httpHeader \<Rightarrow> bool \<Rightarrow> bytes \<Rightarrow>
    transport \<Rightarrow> (handshakeErr + (Handshake \<times> bytes)) \<times> transport" where
  "handshake active d nonce u hdr absoluteForm proxyAuth t =
     (let wsKey = AppendKey nonce [] in
      case tWrite (handshakeRequest d u hdr absoluteForm proxyAuth wsKey) t of
        ((_, Some err), t) \<Rightarrow> (Inl (HandshakeIO err), t)
      | ((_, None), t) \<Rightarrow>
        (case readHeaderBlock defaultMaxHeaderBytes (length (poolStorage 4096)) [] t of
           ((Some err, data), t) \<Rightarrow> (Inl err, t)
         | ((None, data), t) \<Rightarrow> (validateResponse active d wsKey data, t)))"

section \<open>The proxy\<close>

text \<open>\<open>userinfo\<close> is the user name and the password of the proxy's URL, if it has any.\<close>

definition proxyBasicAuth :: "(bytes \<times> bytes) option \<Rightarrow> bytes" where
  "proxyBasicAuth userinfo =
     (case userinfo of
        None \<Rightarrow> []
      | Some (username, pass) \<Rightarrow> B ''Basic '' @ base64Encode (username @ B '':'' @ pass))"

definition proxyConnect :: "bytes \<Rightarrow> bytes \<Rightarrow> transport \<Rightarrow> handshakeErr option \<times> transport" where
  "proxyConnect originAddr proxyAuth t =
     (let req = B ''CONNECT '' @ originAddr @ B '' HTTP/1.1'' @ CRLF @ B ''Host: '' @ originAddr @ CRLF @
            (if proxyAuth \<noteq> [] then B ''Proxy-Authorization: '' @ proxyAuth @ CRLF else []) @ CRLF in
      case tWrite req t of
        ((_, Some err), t) \<Rightarrow> (Some (HandshakeIO err), t)
      | ((_, None), t) \<Rightarrow>
        (case readHeaderBlock defaultMaxHeaderBytes (length (poolStorage 4096)) [] t of
           ((Some err, data), t) \<Rightarrow> (Some (if err = ErrHeaderTooLarge then ErrProxyConnectFailed (Some err) else err), t)
         | ((None, data), t) \<Rightarrow>
           let idx = the (blankLine data) in
           (case ParseStatusLine (take (idx + 4) data) of
              (Inl err, _) \<Rightarrow> Some (HttpError err)
            | (Inr status, _) \<Rightarrow>
              (case parseStatusCode (sl_Code status) of
                 None \<Rightarrow> Some (HttpError ErrMalformedStatusLine)
               | Some code \<Rightarrow>
                 if code \<noteq> 200
                 then Some (ErrProxyConnectFailed (Some (UnexpectedStatusError code (sl_Reason status))))
                 else if idx + 4 < length data then Some (ErrProxyConnectFailed None)
                 else None), t)))"

section \<open>Following redirects\<close>

definition maxRedirects :: nat where "maxRedirects = 10"

definition effectivePort :: "hopURL \<Rightarrow> bytes" where
  "effectivePort u =
     (if url_Port u \<noteq> [] then url_Port u
      else if url_Scheme u = B ''wss'' then B ''443'' else B ''80'')"

text \<open>
  What one dial rests on: \<^verbatim>\<open>url.Parse\<close>, \<^verbatim>\<open>url.Parse\<close> with \<^verbatim>\<open>ResolveReference\<close> for a Location,
  \<^verbatim>\<open>strings.EqualFold\<close> on two host names, and \<^verbatim>\<open>dialHop\<close>, over a state of its own. A hop that returns a location
  returns no handshake.
\<close>

record 's dialEnv =
  de_parse :: "bytes \<Rightarrow> hopURL option"
  de_resolve :: "hopURL \<Rightarrow> bytes \<Rightarrow> hopURL option"
  de_hostEq :: "bytes \<Rightarrow> bytes \<Rightarrow> bool"
  de_hop :: "hopURL \<Rightarrow> httpHeader \<Rightarrow> 's \<Rightarrow> (handshakeErr + (Handshake \<times> bytes)) \<times> 's"

definition sameOrigin :: "'s dialEnv \<Rightarrow> hopURL \<Rightarrow> hopURL \<Rightarrow> bool" where
  "sameOrigin env a b \<longleftrightarrow> url_Scheme a = url_Scheme b \<and> de_hostEq env (url_Hostname a) (url_Hostname b) \<and>
     effectivePort a = effectivePort b"

definition resolveRedirect :: "'s dialEnv \<Rightarrow> hopURL \<Rightarrow> bytes \<Rightarrow> handshakeErr + hopURL" where
  "resolveRedirect env current location =
     (case de_resolve env current location of
        None \<Rightarrow> Inl ErrMalformedLocation
      | Some next \<Rightarrow>
          let scheme = (if url_Scheme next = B ''ws'' \<or> url_Scheme next = B ''wss'' then Some (url_Scheme next)
                else if url_Scheme next = B ''http'' then Some (B ''ws'')
                else if url_Scheme next = B ''https'' then Some (B ''wss'')
                else None) in
          case scheme of
            None \<Rightarrow> Inl ErrNotWebSocketScheme
          | Some s \<Rightarrow> if url_Hostname next = [] then Inl ErrMalformedLocation else Inr (next\<lparr>url_Scheme := s\<rparr>))"

text \<open>The headers that go on to the next hop.\<close>

definition stripCredentials :: "'s dialEnv \<Rightarrow> hopURL \<Rightarrow> hopURL \<Rightarrow> httpHeader \<Rightarrow> httpHeader" where
  "stripCredentials env u next hdr =
     (if \<not> sameOrigin env u next
      then deleteHeaderFold (deleteHeaderFold hdr (B ''Authorization'')) (B ''Cookie'') else hdr)"

function dialLoop :: "'s dialEnv \<Rightarrow> (hopRequest \<Rightarrow> hopRequest list \<Rightarrow> nat option) option \<Rightarrow> hopURL \<Rightarrow> httpHeader \<Rightarrow>
    hopRequest list \<Rightarrow> 's \<Rightarrow> (handshakeErr + Handshake) \<times> 's" where
  "dialLoop env policy u hdr via s =
     (case de_hop env u hdr s of
        (Inl err, s) \<Rightarrow> (Inl err, s)
      | (Inr (hs, location), s) \<Rightarrow>
          if location = [] then (Inr hs, s)
          else case resolveRedirect env u location of
            Inl err \<Rightarrow> (Inl err, s)
          | Inr next \<Rightarrow>
              if length (via @ [(u, hdr)]) > maxRedirects then (Inl ErrTooManyRedirects, s)
              else case policy of
                None \<Rightarrow> (Inl DialPanic, s)
              | Some checkRedirect \<Rightarrow>
                (case checkRedirect (next, stripCredentials env u next hdr) (via @ [(u, hdr)]) of
                   Some err \<Rightarrow> (Inl (RedirectBlocked err), s)
                 | None \<Rightarrow> dialLoop env policy next (stripCredentials env u next hdr) (via @ [(u, hdr)]) s))"
  by pat_completeness auto
termination by (relation "measure (\<lambda>(_, _, _, _, via, _). maxRedirects - length via)") auto

declare dialLoop.simps [simp del]

definition windowBitsOk :: "int \<Rightarrow> bool" where
  "windowBitsOk n \<longleftrightarrow> \<not> (n \<noteq> 0 \<and> (n < minDeflateWindowBits \<or> n > deflateWindowBits))"

definition Dial :: "'w deflateConfig \<Rightarrow> 's dialEnv \<Rightarrow> Dialer \<Rightarrow> bytes \<Rightarrow> 's \<Rightarrow> (handshakeErr + Handshake) \<times> 's" where
  "Dial active env d rawURL s =
     (if d_WindowBits d \<noteq> 0 \<and> d_OfferClientMaxWindowBits d then (Inl ErrConflictingClientWindowBits, s)
      else if \<not> windowBitsOk (d_WindowBits d) then (Inl ErrInvalidWindowBits, s)
      else if \<not> windowBitsOk (d_ServerWindowBits d) then (Inl ErrInvalidWindowBits, s)
      else if \<not> checkWindowBitsSupported active (d_WindowBits d) then (Inl ErrWindowBitsUnsupported, s)
      else
        let hdr = d_HTTPHeader d in
        case validateExtraHeaders hdr of
          Some err \<Rightarrow> (Inl err, s)
        | None \<Rightarrow>
          (case de_parse env rawURL of
             None \<Rightarrow> (Inl MalformedURL, s)
           | Some u \<Rightarrow>
               if url_Scheme u \<noteq> B ''ws'' \<and> url_Scheme u \<noteq> B ''wss'' then (Inl ErrNotWebSocketScheme, s)
               else if url_Hostname u = [] then (Inl MissingHostname, s)
               else dialLoop env (d_CheckRedirect d) u hdr [] s))"

section \<open>What the hops of a dial see\<close>

text \<open>The same hops, with a record of the requests they were given.\<close>

definition recorded :: "'s dialEnv \<Rightarrow> ('s \<times> hopRequest list) dialEnv" where
  "recorded env = \<lparr>de_parse = de_parse env, de_resolve = de_resolve env, de_hostEq = de_hostEq env,
     de_hop = (\<lambda>u hdr (s, log). case de_hop env u hdr s of (r, s) \<Rightarrow> (r, s, log @ [(u, hdr)]))\<rparr>"

definition noCredentials :: "httpHeader \<Rightarrow> bool" where
  "noCredentials hdr \<longleftrightarrow> list_all (\<lambda>(name, _). \<not> stringsEqualFold name (B ''Authorization'') \<and>
     \<not> stringsEqualFold name (B ''Cookie'')) hdr"

text \<open>
  A chain of requests: at most eleven, all to ws or wss URLs, all with headers of the first, and without credentials from
  the first change of origin on.
\<close>

definition chainOk :: "'s dialEnv \<Rightarrow> hopRequest list \<Rightarrow> bool" where
  "chainOk env log \<longleftrightarrow> length log \<le> Suc maxRedirects \<and>
     (\<forall>j < length log. url_Scheme (fst (log ! j)) \<in> {B ''ws'', B ''wss''} \<and>
        set (snd (log ! j)) \<subseteq> set (snd (log ! 0)) \<and>
        (\<forall>k < j. \<not> sameOrigin env (fst (log ! k)) (fst (log ! Suc k)) \<longrightarrow> noCredentials (snd (log ! j))))"

lemma strip_subset: "set (stripCredentials env u next hdr) \<subseteq> set hdr"
  by (auto simp: stripCredentials_def deleteHeaderFold_def)

lemma noCredentials_subset: "set a \<subseteq> set b \<Longrightarrow> noCredentials b \<Longrightarrow> noCredentials a"
  by (auto simp: noCredentials_def list_all_iff)

lemma strip_noCredentials: "\<not> sameOrigin env u next \<Longrightarrow> noCredentials (stripCredentials env u next hdr)"
  by (auto simp: stripCredentials_def deleteHeaderFold_def noCredentials_def list_all_iff)

lemma resolveRedirect_scheme: "resolveRedirect env u l = Inr next \<Longrightarrow> url_Scheme next \<in> {B ''ws'', B ''wss''}"
  by (auto simp: resolveRedirect_def Let_def split: option.splits if_splits)

lemma chainOk_snoc:
  assumes "chainOk env log" "log \<noteq> []" "last log = (u, hdr)" "length log \<le> maxRedirects"
    "url_Scheme next \<in> {B ''ws'', B ''wss''}"
  shows "chainOk env (log @ [(next, stripCredentials env u next hdr)])"
proof -
  define new where "new = (next, stripCredentials env u next hdr)"
  define n where "n = length log - 1"
  have n: "length log = Suc n" "log ! n = (u, hdr)" using assms(2,3) by (simp_all add: n_def last_conv_nth)
  have at: "j < Suc n \<Longrightarrow> (log @ [new]) ! j = log ! j" "(log @ [new]) ! Suc n = new" for j
    using n(1) by (auto simp: nth_append)
  note old = assms(1) [unfolded chainOk_def n(1), THEN conjunct2, rule_format]
  have cred: "noCredentials (snd new)" if k: "k < Suc n" "\<not> sameOrigin env (fst ((log @ [new]) ! k)) (fst ((log @ [new]) ! Suc k))" for k
  proof (cases "k = n")
    case True
    then have "\<not> sameOrigin env u next" using k(2) at n by (simp add: new_def)
    then show ?thesis by (simp add: new_def strip_noCredentials)
  next
    case False
    then have "k < n" using k(1) by simp
    then have "noCredentials hdr" using old [of n] k(2) at n by auto
    then show ?thesis by (simp add: new_def noCredentials_subset [OF strip_subset])
  qed
  have "url_Scheme (fst ((log @ [new]) ! j)) \<in> {B ''ws'', B ''wss''} \<and>
      set (snd ((log @ [new]) ! j)) \<subseteq> set (snd ((log @ [new]) ! 0)) \<and>
      (\<forall>k < j. \<not> sameOrigin env (fst ((log @ [new]) ! k)) (fst ((log @ [new]) ! Suc k)) \<longrightarrow>
        noCredentials (snd ((log @ [new]) ! j)))" if j: "j < Suc (Suc n)" for j
  proof (cases "j = Suc n")
    case True
    have "set (snd new) \<subseteq> set (snd (log ! 0))"
      using strip_subset [of env u "next" hdr] old [of n] n by (auto simp: new_def)
    then show ?thesis using True assms(5) at(2) at(1) [of 0] cred by (simp add: new_def)
  next
    case False
    then have "j < Suc n" using j by simp
    then show ?thesis using old [of j] at(1) [of j] at(1) [of 0] at(1) by auto
  qed
  then show ?thesis using assms(4) by (simp add: chainOk_def n(1) flip: new_def)
qed

lemma dialLoop_chain:
  assumes "chainOk env (via @ [(u, hdr)])" "dialLoop (recorded env) policy u hdr via (s, via) = (r, (s', log))"
  shows "chainOk env log \<and> (\<exists>tail. log = via @ (u, hdr) # tail)"
  using assms
proof (induction "maxRedirects - length via" arbitrary: via u hdr s rule: less_induct)
  case less
  let ?via = "via @ [(u, hdr)]"
  obtain res s1 where hop: "de_hop (recorded env) u hdr (s, via) = (res, (s1, ?via))"
    by (cases "de_hop env u hdr s") (auto simp: recorded_def)
  note run = less.prems(2) [unfolded dialLoop.simps [of "recorded env" policy u] hop]
  consider (stop) "log = ?via"
    | (more) location "next" where "resolveRedirect (recorded env) u location = Inr next" "length ?via \<le> maxRedirects"
      "dialLoop (recorded env) policy next (stripCredentials (recorded env) u next hdr) ?via (s1, ?via) = (r, (s', log))"
    using run by (auto split: sum.splits prod.splits if_splits option.splits)
  then show ?case
  proof cases
    case stop
    then show ?thesis using less.prems(1) by simp
  next
    case more
    have strip: "stripCredentials (recorded env) u next hdr = stripCredentials env u next hdr"
      by (simp add: stripCredentials_def sameOrigin_def recorded_def)
    have "chainOk env (?via @ [(next, stripCredentials env u next hdr)])"
      using less.prems(1) more(2) resolveRedirect_scheme [OF more(1)] by (intro chainOk_snoc) simp_all
    moreover have "maxRedirects - length ?via < maxRedirects - length via" using more(2) by simp
    ultimately show ?thesis
      using less.hyps [of ?via "next" "stripCredentials env u next hdr" s1] more(3) unfolding strip by auto
  qed
qed

section \<open>Properties of the dial\<close>

text \<open>C8: A dial never carries credentials across origins. Whatever the hops answer and however Locations
  resolve, a dial issues at most eleven requests, all to ws or wss URLs and all with headers among those the caller gave;
  and from the first change of scheme, host or port on, no request has an Authorization or Cookie header in any
  spelling, not even when a later hop returns to the first origin.\<close>

theorem redirects_strip_credentials:
  assumes "Dial active (recorded env) d rawURL (s, []) = (r, (s', log))" "log \<noteq> []"
  shows "chainOk env log \<and> snd (log ! 0) = d_HTTPHeader d"
proof -
  obtain u where u: "url_Scheme u \<in> {B ''ws'', B ''wss''}"
    "dialLoop (recorded env) (d_CheckRedirect d) u (d_HTTPHeader d) [] (s, []) = (r, (s', log))"
    using assms by (auto simp: Dial_def Let_def split: if_splits option.splits)
  have "chainOk env ([] @ [(u, d_HTTPHeader d)])" using u(1) by (simp add: chainOk_def)
  from dialLoop_chain [OF this u(2)] show ?thesis by auto
qed

text \<open>A server at \<open>a\<close> that redirects to \<open>b\<close>.\<close>

definition demoURL :: "bytes \<Rightarrow> hopURL" where
  "demoURL host = \<lparr>url_Scheme = B ''ws'', url_Host = host, url_Hostname = host, url_Port = [], url_RequestURI = B ''/''\<rparr>"

definition demoEnv :: "unit dialEnv" where
  "demoEnv = \<lparr>de_parse = \<lambda>url. Some (demoURL url), de_resolve = \<lambda>_ location. Some (demoURL location),
     de_hostEq = (=), de_hop = \<lambda>u hdr s. (Inr (noHandshake, if url_Host u = B ''a'' then B ''b'' else []), s)\<rparr>"

definition demoDialer :: Dialer where
  "demoDialer = \<lparr>d_Subprotocols = [], d_HTTPHeader = [(B ''Cookie'', [B ''x=1'']), (B ''X-A'', [B ''2''])],
     d_CheckRedirect = Some (\<lambda>_ _. None), d_EnableCompression = False, d_WindowBits = 0,
     d_OfferClientMaxWindowBits = False, d_AllowContextTakeover = False, d_ServerWindowBits = 0\<rparr>"

theorem redirects_strip_credentials_witness:
  "chainOk demoEnv [(demoURL (B ''a''), d_HTTPHeader demoDialer), (demoURL (B ''b''), [(B ''X-A'', [B ''2''])])]"
proof -
  have "Dial storeConfig (recorded demoEnv) demoDialer (B ''a'') ((), []) =
      (Inr noHandshake, ((), [(demoURL (B ''a''), d_HTTPHeader demoDialer), (demoURL (B ''b''), [(B ''X-A'', [B ''2''])])]))"
    by code_simp
  from redirects_strip_credentials [OF this] show ?thesis by simp
qed

end
