(* ===== verification/Handshake_Read.thy ===== *)
theory Handshake_Read
  imports Dial
begin

text \<open>
  How the opening handshake's messages are read. The lemmas show that a header block is found however its bytes arrive,
  that a message is its first line and its fields, which header values the scanner delivers as they were written,
  and which subprotocol the server picks.
\<close>

section \<open>Finding the blank line\<close>

lemma blankLine_at: "blankLine xs = Some i \<Longrightarrow> i + 4 \<le> length xs \<and> take 4 (drop i xs) = doubleCRLF"
proof (induction xs arbitrary: i)
  case (Cons x xs)
  show ?case
  proof (cases "take 4 (x # xs) = doubleCRLF")
    case True
    then have "length (take 4 (x # xs)) = 4" by (simp only:) (simp add: doubleCRLF_def)
    then show ?thesis using Cons.prems True by simp
  next
    case False
    then obtain j where "i = Suc j" "blankLine xs = Some j" using Cons.prems by auto
    then show ?thesis using Cons.IH by simp
  qed
qed simp

lemma blankLine_extend: "blankLine xs = Some i \<Longrightarrow> blankLine (xs @ ys) = Some i"
proof (induction xs arbitrary: i)
  case (Cons x xs)
  show ?case
  proof (cases "take 4 (x # xs) = doubleCRLF")
    case True
    have "3 \<le> length xs"
      using arg_cong [OF True, of length] by (simp add: doubleCRLF_def min_def split: if_splits)
    then show ?thesis using Cons.prems True by simp
  next
    case False
    then obtain j where j: "i = Suc j" "blankLine xs = Some j" using Cons.prems by auto
    have "3 \<le> length xs" using blankLine_at [OF j(2)] by simp
    then show ?thesis using Cons.IH [OF j(2)] j(1) False by simp
  qed
qed simp

lemma blankLine_later:
  "blankLine xs = None \<Longrightarrow> blankLine (xs @ ys) = Some i \<Longrightarrow> length xs < i + 4"
proof (induction xs arbitrary: i)
  case (Cons x xs)
  show ?case
  proof (cases "take 4 (x # xs @ ys) = doubleCRLF")
    case True
    then have "\<not> 4 \<le> length (x # xs)" using Cons.prems(1) by (auto split: if_splits)
    then show ?thesis by simp
  next
    case False
    then obtain j where "i = Suc j" "blankLine (xs @ ys) = Some j" using Cons.prems(2) by auto
    moreover have "blankLine xs = None" using Cons.prems(1) by (simp split: if_splits)
    ultimately show ?thesis using Cons.IH by simp
  qed
qed simp

text \<open>A block of lines closed by an empty one.\<close>

definition lineOk :: "bytes \<Rightarrow> bool" where
  "lineOk l \<longleftrightarrow> l \<noteq> [] \<and> CR \<notin> set l \<and> LF \<notin> set l"

lemma blankLine_skip: "CR \<notin> set l \<Longrightarrow> blankLine (l @ xs) = map_option ((+) (length l)) (blankLine xs)"
proof (induction l)
  case Nil
  then show ?case by (cases "blankLine xs") simp_all
next
  case (Cons x l)
  then show ?case by (cases "blankLine xs") (auto simp: doubleCRLF_def)
qed

lemma blankLine_line:
  assumes "lineOk l" "lineOk m"
  shows "blankLine (l @ CRLF @ m @ xs) = map_option ((+) (length l + 2)) (blankLine (m @ xs))"
proof -
  obtain c m' where m: "m = c # m'" "c \<noteq> CR" using assms(2) by (cases m) (auto simp: lineOk_def)
  have "blankLine (CRLF @ m @ xs) = map_option ((+) 2) (blankLine (m @ xs))"
    using m by (cases "blankLine (m @ xs)") (auto simp: doubleCRLF_def)
  then show ?thesis using assms(1) blankLine_skip [of l]
    by (cases "blankLine (m @ xs)") (simp_all add: lineOk_def)
qed

lemma blankLine_lines:
  assumes "list_all lineOk ls" "ls \<noteq> []"
  shows "blankLine (concat (map (\<lambda>l. l @ CRLF) ls) @ CRLF @ rest) = Some (length (concat (map (\<lambda>l. l @ CRLF) ls)) - 2)"
  using assms
proof (induction ls)
  case (Cons l ls)
  show ?case
  proof (cases ls)
    case Nil
    have "blankLine (CRLF @ CRLF @ rest) = Some 0" by (simp add: doubleCRLF_def)
    then show ?thesis using Cons.prems Nil blankLine_skip [of l "CRLF @ CRLF @ rest"] by (simp add: lineOk_def)
  next
    case (Cons m ms)
    then show ?thesis using Cons.IH Cons.prems blankLine_line [of l m "CRLF @ concat (map (\<lambda>l. l @ CRLF) ms) @ CRLF @ rest"]
      by simp
  qed
qed simp

section \<open>Reading the block\<close>

lemma readHeaderBlock_reads:
  assumes "steady t" "blankLine (data @ incoming t) = Some i" "int (i + 4) \<le> maxBytes"
    "int (length data) \<le> min (int cp) maxBytes"
  shows "\<exists>data' t'. readHeaderBlock maxBytes cp data t = ((None, data'), t') \<and> blankLine data' = Some i \<and>
    data' @ incoming t' = data @ incoming t \<and> steady t' \<and> t_sent t' = t_sent t \<and> t_writes t' = t_writes t"
  using assms
proof (induction maxBytes cp data t rule: readHeaderBlock.induct)
  case (1 maxBytes cp data t)
  show ?case
  proof (cases "blankLine data")
    case (Some j)
    then have "j = i" using blankLine_extend [OF Some, of "incoming t"] 1(4) by simp
    then show ?thesis using Some 1(3) by (subst readHeaderBlock.simps) simp
  next
    case None
    have short: "length data < i + 4" using blankLine_later [OF None 1(4)] .
    show ?thesis
    proof (cases "int (length data) = min (int cp) maxBytes")
      case True
      then have c: "int cp < maxBytes" using short 1(5) by (simp add: min_def split: if_splits)
      let ?cp = "length (poolStorage (min (int cp * 2) maxBytes))"
      have "cp < ?cp" using poolStorage_grows [OF c] by (simp add: mult.commute)
      then have "int (length data) \<le> min (int ?cp) maxBytes" using 1(6) by simp
      then show ?thesis using 1(1) [OF _ True] None c 1(3-5) True by (subst readHeaderBlock.simps) simp
    next
      case False
      let ?k = "nat (min (int cp) maxBytes - int (length data))"
      have k: "0 < ?k" using False 1(6) by linarith
      obtain p e t' where r: "tRead ?k t = ((p, e), t')" by (metis surj_pair)
      have "incoming t \<noteq> []" using short blankLine_at [OF 1(4)] by auto
      then have p: "p \<noteq> []" "e = None" "steady t'" using tRead_steady [OF 1(3) k r] by auto
      have inc: "data @ incoming t = (data @ p) @ incoming t'" using tRead_incoming [OF r] by simp
      have len: "int (length (data @ p)) \<le> min (int cp) maxBytes" using tRead_unread(2) [OF r] k unfolding length_append by linarith
      have "\<exists>data' t''. readHeaderBlock maxBytes cp (data @ p) t' = ((None, data'), t'') \<and> blankLine data' = Some i \<and>
          data' @ incoming t'' = (data @ p) @ incoming t' \<and> steady t'' \<and> t_sent t'' = t_sent t' \<and> t_writes t'' = t_writes t'"
        using 1(2) [of "(p, e)" t' p e] None False r p 1(4,5) len inc by auto
      then show ?thesis using None False r p(1,2) inc tRead_unread(3,4) [OF r]
        by (subst readHeaderBlock.simps) simp
    qed
  qed
qed

section \<open>A message as its first line and its fields\<close>

definition message :: "bytes \<Rightarrow> (bytes \<times> bytes) list \<Rightarrow> bytes" where
  "message line fs = line @ CRLF @ concat (map fieldLine fs) @ CRLF"

lemma fieldLine_lineOk:
  assumes "fieldOk h"
  shows "\<exists>l. lineOk l \<and> fieldLine h = l @ CRLF"
  using assms token_no [of "fst h"]
  by (intro exI [of _ "fst h @ COLON # SP # snd h"]) (auto simp: lineOk_def fieldOk_def fieldLine_def)

lemma blankLine_message:
  assumes "lineOk line" "list_all fieldOk fs"
  shows "blankLine (message line fs @ rest) = Some (length (message line fs) - 4)"
proof -
  have "\<exists>ls. list_all lineOk ls \<and> concat (map fieldLine fs) = concat (map (\<lambda>l. l @ CRLF) ls)"
    using assms(2)
  proof (induction fs)
    case Nil
    then show ?case by (intro exI [of _ "[]"]) simp
  next
    case (Cons h fs)
    then obtain ls l where "list_all lineOk ls" "concat (map fieldLine fs) = concat (map (\<lambda>l. l @ CRLF) ls)"
      "lineOk l" "fieldLine h = l @ CRLF" using fieldLine_lineOk [of h] by auto
    then show ?case by (intro exI [of _ "l # ls"]) simp
  qed
  then obtain ls where ls: "list_all lineOk ls" "concat (map fieldLine fs) = concat (map (\<lambda>l. l @ CRLF) ls)" by blast
  have "blankLine (concat (map (\<lambda>l. l @ CRLF) (line # ls)) @ CRLF @ rest) =
      Some (length (concat (map (\<lambda>l. l @ CRLF) (line # ls))) - 2)"
    using assms(1) ls(1) by (intro blankLine_lines) simp_all
  then show ?thesis by (simp add: message_def ls(2))
qed

text \<open>Reading a message, however it arrives and whatever follows it.\<close>

lemma read_message_block:
  assumes "steady t" "incoming t = message line fs @ after" "lineOk line" "list_all fieldOk fs"
    "int (length (message line fs)) \<le> maxBytes"
  obtains extra t' where "readHeaderBlock maxBytes cp [] t = ((None, message line fs @ extra), t')"
    "blankLine (message line fs @ extra) = Some (length (message line fs) - 4)"
    "extra @ incoming t' = after" "t_sent t' = t_sent t" "t_writes t' = t_writes t" "steady t'"
proof -
  let ?m = "message line fs"
  have long: "4 \<le> length ?m" using assms(3) by (cases line) (simp_all add: message_def lineOk_def)
  have "blankLine ([] @ incoming t) = Some (length ?m - 4)"
    using blankLine_message [OF assms(3,4), of after] assms(2) by simp
  moreover have "int (length ?m - 4 + 4) \<le> maxBytes" using assms(5) long by simp
  moreover have "int (length []) \<le> min (int cp) maxBytes" using assms(5) by simp
  ultimately obtain data t' where r: "readHeaderBlock maxBytes cp [] t = ((None, data), t')"
    "blankLine data = Some (length ?m - 4)" "data @ incoming t' = ?m @ after" "steady t'" "t_sent t' = t_sent t"
    "t_writes t' = t_writes t"
    using readHeaderBlock_reads [OF assms(1)] assms(2) by (metis append_Nil)
  have "length ?m \<le> length data" using blankLine_at [OF r(2)] long by simp
  then have "data = ?m @ drop (length ?m) data"
    using r(3) by (metis append_eq_append_conv_if append_take_drop_id)
  then obtain extra where "data = ?m @ extra" by blast
  with r that [of extra t'] show thesis by simp
qed

lemma scan_message:
  "list_all fieldOk fs \<Longrightarrow> drop (length line + 2) (message line fs) = concat (map fieldLine fs) @ CRLF"
  "list_all fieldOk fs \<Longrightarrow> scanWSHandshakeHeaders (concat (map fieldLine fs) @ CRLF) =
    (foldl (\<lambda>f h. classifyHeader f (fst h) (TrimOWS (snd h))) noHandshakeHeaders fs, None)"
  using scan_fields [of fs classifyHeader noHandshakeHeaders "[]"]
  by (simp_all add: message_def scanWSHandshakeHeaders_def)

lemma requestLine_message:
  assumes "SP \<notin> set target" "CR \<notin> set target" "LF \<notin> set target"
  shows "ParseRequestLine (message (B ''GET '' @ target @ B '' HTTP/1.1'') fs) =
      (Inr \<lparr>rl_Method = B ''GET'', rl_Target = target, rl_Version = B ''HTTP/1.1''\<rparr>,
       length (B ''GET '' @ target @ B '' HTTP/1.1'') + 2)"
    "lineOk (B ''GET '' @ target @ B '' HTTP/1.1'')"
proof -
  let ?line = "B ''GET'' @ SP # target @ SP # B ''HTTP/1.1''"
  have l: "B ''GET '' @ target @ B '' HTTP/1.1'' = ?line" by simp
  show ok: "lineOk (B ''GET '' @ target @ B '' HTTP/1.1'')" using assms by (simp add: lineOk_def)
  then have "cutCRLF (?line @ CRLF @ rest) = Some (?line, rest)" for rest
    unfolding l lineOk_def by (intro cutCRLF_line) simp_all
  moreover have "cutByte ?line SP = Some (B ''GET'', target @ SP # B ''HTTP/1.1'')"
    by (rule cutByte_append) simp
  moreover have "cutByte (target @ SP # B ''HTTP/1.1'') SP = Some (target, B ''HTTP/1.1'')"
    by (rule cutByte_append) (rule assms(1))
  ultimately show "ParseRequestLine (message (B ''GET '' @ target @ B '' HTTP/1.1'') fs) =
      (Inr \<lparr>rl_Method = B ''GET'', rl_Target = target, rl_Version = B ''HTTP/1.1''\<rparr>,
       length (B ''GET '' @ target @ B '' HTTP/1.1'') + 2)"
    unfolding l message_def by (simp add: ParseRequestLine_def Let_def del: B_Cons)
qed

section \<open>Values that are safe in a header\<close>

text \<open>A value the scanner delivers as it was written.\<close>

definition plainValue :: "bytes \<Rightarrow> bool" where
  "plainValue v \<longleftrightarrow> CR \<notin> set v \<and> LF \<notin> set v \<and> TrimOWS v = v"

lemma plainValue_no: "v = [] \<or> \<not> isOWS (hd v) \<and> \<not> isOWS (last v) \<Longrightarrow> CR \<notin> set v \<Longrightarrow> LF \<notin> set v \<Longrightarrow> plainValue v"
  by (simp add: plainValue_def TrimOWS_id)

lemma plainValue_token: "IsToken v \<Longrightarrow> plainValue v"
  using token_no [of v] by (simp add: plainValue_def TrimOWS_token)

text \<open>Base64 text.\<close>

lemma base64Char_plain: "n < 64 \<Longrightarrow> base64Char n \<notin> {HT, LF, CR, SP}"
proof -
  assume n: "n < 64"
  have u: "unat (word_of_nat k :: byte) = k" if "k < 256" for k using that by (simp add: unat_of_nat)
  define k where "k = (if n < 26 then 65 + n else if n < 52 then 97 + (n - 26) else if n < 62 then 48 + (n - 52)
    else if n = 62 then 43 else 47)"
  have "base64Char n = word_of_nat k" by (simp add: base64Char_def k_def)
  moreover have "43 \<le> k" "k < 256" using n by (auto simp: k_def)
  ultimately have "unat (base64Char n) \<ge> 43" by (simp only: u)
  then show ?thesis by (auto simp: word_le_nat_alt)
qed

lemma base64Encode_plain: "set (base64Encode b) \<inter> {HT, LF, CR, SP} = {}"
proof (induction b rule: base64Encode.induct)
  case (4 a b c r)
  let ?n = "(unat a * 256 + unat b) * 256 + unat c"
  have "?n div 262144 < 64"
    using unat_byte_less [of a] unat_byte_less [of b] unat_byte_less [of c] by (intro less_mult_imp_div_less) simp
  then show ?case using 4 base64Char_plain by (auto simp: Let_def)
next
  case (2 a)
  have "unat a * 16 div 64 < 64" using unat_byte_less [of a] by (intro less_mult_imp_div_less) simp
  then show ?case using base64Char_plain by (auto simp: Let_def)
next
  case (3 a b)
  have "(unat a * 256 + unat b) * 4 div 4096 < 64"
    using unat_byte_less [of a] unat_byte_less [of b] by (intro less_mult_imp_div_less) simp
  then show ?case using base64Char_plain by (auto simp: Let_def)
qed simp

lemma length_base64Encode: "length (base64Encode b) = 4 * ((length b + 2) div 3)"
proof (induction b rule: base64Encode.induct)
  case (4 a b c r)
  then show ?case by (simp add: Let_def) presburger
qed (simp_all add: Let_def)

lemma plainValue_base64: "plainValue (base64Encode b)"
proof (rule plainValue_no)
  show "base64Encode b = [] \<or> \<not> isOWS (hd (base64Encode b)) \<and> \<not> isOWS (last (base64Encode b))"
    using base64Encode_plain [of b] hd_in_set [of "base64Encode b"] last_in_set [of "base64Encode b"]
    unfolding isOWS_def by blast
qed (use base64Encode_plain [of b] in auto)

lemma plainValue_accept: "plainValue (AppendAccept [] key)"
  by (simp add: AppendAccept_def plainValue_base64 Let_def)

text \<open>Extension elements.\<close>

lemma paramsTail_plain: "list_all paramOk es \<Longrightarrow> CR \<notin> set (paramsTail es) \<and> LF \<notin> set (paramsTail es)"
  using token_no by (induction es) (auto simp: paramOk_def paramText_def split: option.splits)

lemma plainValue_extension:
  assumes "list_all paramOk es"
  shows "plainValue (DeflateExtensionName @ paramsTail es)"
proof (rule plainValue_no)
  note t = token_no [OF isToken_deflate]
  show "CR \<notin> set (DeflateExtensionName @ paramsTail es)" "LF \<notin> set (DeflateExtensionName @ paramsTail es)"
    using t paramsTail_plain [OF assms] by auto
  have "\<not> isOWS (last (DeflateExtensionName @ paramsTail es))"
  proof (cases "es = []")
    case True
    then show ?thesis by (simp add: DeflateExtensionName_def isOWS_def)
  next
    case False
    moreover have "paramsTail es \<noteq> []" using False by (cases es) simp_all
    ultimately show ?thesis using paramsTail_last [OF assms] by simp
  qed
  then show "DeflateExtensionName @ paramsTail es = [] \<or> \<not> isOWS (hd (DeflateExtensionName @ paramsTail es)) \<and>
      \<not> isOWS (last (DeflateExtensionName @ paramsTail es))"
    by (simp add: DeflateExtensionName_def isOWS_def)
qed

definition offerParams :: "Dialer \<Rightarrow> (bytes \<times> bytes option) list" where
  "offerParams d =
     (if \<not> d_AllowContextTakeover d
      then [(B ''server_no_context_takeover'', None), (B ''client_no_context_takeover'', None)] else []) @
     (if d_WindowBits d \<noteq> 0 then [(B ''client_max_window_bits'', Some (decimal (nat (d_WindowBits d))))]
      else if d_OfferClientMaxWindowBits d then [(B ''client_max_window_bits'', None)] else []) @
     (if d_ServerWindowBits d \<noteq> 0 then [(B ''server_max_window_bits'', Some (decimal (nat (d_ServerWindowBits d))))]
      else [])"

lemma dialerOffer_text: "dialerOffer d = DeflateExtensionName @ paramsTail (offerParams d)"
  by (simp add: dialerOffer_def deflateOffer_def offerParams_def paramsTail_append paramText_def)

lemma windowBitsOk_token: "windowBitsOk n \<Longrightarrow> n \<noteq> 0 \<Longrightarrow> IsToken (decimal (nat n))"
  by (rule decimal_window) (auto simp: windowBitsOk_def minDeflateWindowBits_def deflateWindowBits_def)

lemma offerParams_ok:
  assumes "windowBitsOk (d_WindowBits d)" "windowBitsOk (d_ServerWindowBits d)"
  shows "list_all paramOk (offerParams d)"
  using assms windowBitsOk_token by (simp add: offerParams_def paramOk_def IsToken_def isTchar_def word_le_def)

section \<open>Subprotocols\<close>

text \<open>The agreement: the server's first subprotocol that the client lists, or none.\<close>

definition firstCommon :: "bytes list \<Rightarrow> bytes list \<Rightarrow> bytes" where
  "firstCommon server client = (case find (\<lambda>p. p \<in> set client) server of None \<Rightarrow> [] | Some p \<Rightarrow> p)"

lemma clientListed_join:
  assumes "list_all IsToken ps" "ps \<noteq> []" "b = joinCommaSpace ps \<or> b = SP # joinCommaSpace ps"
  shows "clientListed want b \<longleftrightarrow> want \<in> set ps"
  using assms
proof (induction ps arbitrary: b)
  case (Cons p ps)
  have p: "IsToken p" "TrimOWS p = p" "COMMA \<notin> set p" "p \<noteq> []"
    using Cons.prems(1) TrimOWS_token [of p] token_no [of p] by (auto simp: IsToken_def)
  show ?case
  proof (cases ps)
    case Nil
    have "clientListed want []" if "want \<noteq> want" using that by simp
    have stop: "\<not> clientListed want []" by (subst clientListed.simps) simp
    have "indexByte b COMMA = None" "b \<noteq> []" "TrimOWS b = p"
      using Cons.prems(3) Nil p by (auto simp: indexByte_None_iff TrimOWS_SP)
    then show ?thesis using Nil stop by (subst clientListed.simps) auto
  next
    case (Cons q qs)
    let ?rest = "SP # joinCommaSpace ps"
    obtain x where x: "b = x @ COMMA # ?rest" "TrimOWS x = p" "COMMA \<notin> set x"
      using Cons.prems(3) Cons p by (cases "b = joinCommaSpace (p # ps)") (force simp: TrimOWS_SP)+
    have "clientListed want b = (p = want \<or> clientListed want ?rest)"
      using x by (subst clientListed.simps) (auto simp: indexByte_append)
    then show ?thesis using Cons.IH [of ?rest] Cons.prems(1) Cons by auto
  qed
qed simp

lemma negotiateSubprotocol_join:
  assumes "list_all IsToken ps" "ps \<noteq> []"
  shows "negotiateSubprotocol server (joinCommaSpace ps) = firstCommon server ps"
  using clientListed_join [OF assms] by (induction server) (simp_all add: firstCommon_def)

lemma token_ends: "IsToken p \<Longrightarrow> p \<noteq> [] \<and> hd p \<notin> {SP, HT} \<and> last p \<notin> {SP, HT}"
  using token_no [of p] hd_in_set [of p] last_in_set [of p] by (auto simp: IsToken_def simp del: hd_in_set last_in_set)

lemma plainValue_join:
  assumes "list_all IsToken ps"
  shows "plainValue (joinCommaSpace ps)"
proof -
  have "(joinCommaSpace ps = [] \<or> hd (joinCommaSpace ps) \<notin> {SP, HT} \<and> last (joinCommaSpace ps) \<notin> {SP, HT}) \<and>
      CR \<notin> set (joinCommaSpace ps) \<and> LF \<notin> set (joinCommaSpace ps) \<and> (ps \<noteq> [] \<longrightarrow> joinCommaSpace ps \<noteq> [])"
    using assms
  proof (induction ps rule: joinCommaSpace.induct)
    case (2 x)
    then show ?case using token_ends [of x] token_no [of x] by simp
  next
    case (3 x y r)
    then show ?case using token_ends [of x] token_no [of x] by auto
  qed simp
  then show ?thesis by (intro plainValue_no) (auto simp: isOWS_def)
qed

end
