(* ===== verification/Handshake_Spec.thy ===== *)
theory Handshake_Spec
  imports Handshake_Read
begin

text \<open>
  The two sides of the opening handshake together: the server reads a dialer's request field by field, the client
  the server's response, and the two always reach the same agreement.
\<close>

section \<open>The request, field by field\<close>

definition requestTarget :: "hopURL \<Rightarrow> bool \<Rightarrow> bytes" where
  "requestTarget url absoluteForm =
     (if absoluteForm then B ''http://'' @ url_Host url @ url_RequestURI url else url_RequestURI url)"

definition requestLine :: "hopURL \<Rightarrow> bool \<Rightarrow> bytes" where
  "requestLine url absoluteForm = B ''GET '' @ requestTarget url absoluteForm @ B '' HTTP/1.1''"

definition requestFields :: "Dialer \<Rightarrow> hopURL \<Rightarrow> httpHeader \<Rightarrow> bool \<Rightarrow> bytes \<Rightarrow> bytes \<Rightarrow> (bytes \<times> bytes) list" where
  "requestFields d url hdr absoluteForm proxyAuth wsKey =
     [(B ''Host'', url_Host url), (B ''Upgrade'', B ''websocket''), (B ''Connection'', B ''Upgrade'')] @
     (if absoluteForm \<and> proxyAuth \<noteq> [] then [(B ''Proxy-Authorization'', proxyAuth)] else []) @
     [(B ''Sec-WebSocket-Key'', wsKey), (B ''Sec-WebSocket-Version'', B ''13'')] @
     (if d_Subprotocols d \<noteq> [] then [(B ''Sec-WebSocket-Protocol'', joinCommaSpace (d_Subprotocols d))] else []) @
     (if d_EnableCompression d then [(B ''Sec-WebSocket-Extensions'', dialerOffer d)] else []) @ extraFields hdr"

lemma handshakeRequest_message:
  "handshakeRequest d url hdr absoluteForm proxyAuth wsKey =
    message (requestLine url absoluteForm) (requestFields d url hdr absoluteForm proxyAuth wsKey)"
  by (simp add: handshakeRequest_def message_def requestLine_def requestTarget_def requestFields_def fieldLine_def
      appendExtraHeaders_fields extraFields_def headerValues_def)

text \<open>What \<^verbatim>\<open>net/url\<close> guarantees of a request target and a host, and \<^verbatim>\<open>Dial\<close> of the rest.\<close>

definition requestOk :: "Dialer \<Rightarrow> hopURL \<Rightarrow> httpHeader \<Rightarrow> bytes \<Rightarrow> bool" where
  "requestOk d url hdr proxyAuth \<longleftrightarrow>
     list_all (\<lambda>b. b \<notin> {SP, CR, LF}) (url_Host url @ url_RequestURI url) \<and>
     list_all IsToken (d_Subprotocols d) \<and> windowBitsOk (d_WindowBits d) \<and> windowBitsOk (d_ServerWindowBits d) \<and>
     validateExtraHeaders hdr = None \<and> (\<exists>userinfo. proxyAuth = proxyBasicAuth userinfo)"

lemma isToken_names:
  "IsToken (B ''Host'')" "IsToken (B ''Upgrade'')" "IsToken (B ''Connection'')" "IsToken (B ''Proxy-Authorization'')"
  "IsToken (B ''Sec-WebSocket-Key'')" "IsToken (B ''Sec-WebSocket-Version'')" "IsToken (B ''Sec-WebSocket-Protocol'')"
  "IsToken (B ''Sec-WebSocket-Extensions'')" "IsToken (B ''Sec-WebSocket-Accept'')" "IsToken (B ''websocket'')" "IsToken (B ''13'')"
  by (simp_all add: IsToken_def isTchar_def word_le_def)

lemma fieldOkI: "IsToken name \<Longrightarrow> plainValue v \<Longrightarrow> fieldOk (name, v)"
  by (simp add: fieldOk_def plainValue_def)

lemma proxyBasicAuth_ok: "CR \<notin> set (proxyBasicAuth userinfo) \<and> LF \<notin> set (proxyBasicAuth userinfo)"
  using base64Encode_plain by (auto simp: proxyBasicAuth_def split: option.splits)

lemma requestFields_ok:
  assumes "requestOk d url hdr proxyAuth"
  shows "list_all fieldOk (requestFields d url hdr absoluteForm proxyAuth (base64Encode nonce))"
    "lineOk (requestLine url absoluteForm)"
    "ParseRequestLine (message (requestLine url absoluteForm) fs) = (Inr \<lparr>rl_Method = B ''GET'',
      rl_Target = requestTarget url absoluteForm, rl_Version = B ''HTTP/1.1''\<rparr>, length (requestLine url absoluteForm) + 2)"
proof -
  have host: "SP \<notin> set (url_Host url)" "CR \<notin> set (url_Host url)" "LF \<notin> set (url_Host url)"
    and uri: "SP \<notin> set (url_RequestURI url)" "CR \<notin> set (url_RequestURI url)" "LF \<notin> set (url_RequestURI url)"
    using assms by (auto simp: requestOk_def list_all_iff)
  have "fieldOk (B ''Host'', url_Host url)" using host isToken_names(1) by (simp add: fieldOk_def)
  moreover have "fieldOk (B ''Proxy-Authorization'', proxyAuth)"
    using assms proxyBasicAuth_ok isToken_names(4) by (auto simp: requestOk_def fieldOk_def)
  moreover have "list_all fieldOk (extraFields hdr)"
    using assms extraFields_ok by (auto simp: requestOk_def list_all_iff)
  moreover have "plainValue (dialerOffer d)"
    unfolding dialerOffer_text using assms by (intro plainValue_extension offerParams_ok) (simp_all add: requestOk_def)
  ultimately show "list_all fieldOk (requestFields d url hdr absoluteForm proxyAuth (base64Encode nonce))"
    using assms isToken_names plainValue_token plainValue_base64 plainValue_join
    by (simp add: requestFields_def requestOk_def fieldOkI del: B_Cons)
  have target: "SP \<notin> set (requestTarget url absoluteForm)" "CR \<notin> set (requestTarget url absoluteForm)"
    "LF \<notin> set (requestTarget url absoluteForm)" using host uri by (auto simp: requestTarget_def)
  show "lineOk (requestLine url absoluteForm)" unfolding requestLine_def by (rule requestLine_message [OF target])
  show "ParseRequestLine (message (requestLine url absoluteForm) fs) = (Inr \<lparr>rl_Method = B ''GET'',
      rl_Target = requestTarget url absoluteForm, rl_Version = B ''HTTP/1.1''\<rparr>, length (requestLine url absoluteForm) + 2)"
    unfolding requestLine_def requestLine_message(1) [OF target] by simp
qed

text \<open>What the scan makes of each field the two sides write.\<close>

lemma classify_fields:
  "classifyHeader f (B ''Host'') v = f\<lparr>hf_hostSeen := True\<rparr>"
  "classifyHeader f (B ''Upgrade'') v = f\<lparr>hf_upgradeOK := hf_upgradeOK f \<or> ContainsToken v (B ''websocket'')\<rparr>"
  "classifyHeader f (B ''Connection'') v = f\<lparr>hf_connectionOK := hf_connectionOK f \<or> ContainsToken v (B ''upgrade'')\<rparr>"
  "classifyHeader f (B ''Proxy-Authorization'') v = f"
  "classifyHeader f (B ''Sec-WebSocket-Key'') v = f\<lparr>hf_key := v\<rparr>"
  "classifyHeader f (B ''Sec-WebSocket-Version'') v = f\<lparr>hf_versionOK := hf_versionOK f \<or> v = B ''13''\<rparr>"
  "classifyHeader f (B ''Sec-WebSocket-Protocol'') v = f\<lparr>hf_protocol := Some v\<rparr>"
  "classifyHeader f (B ''Sec-WebSocket-Extensions'') v = f\<lparr>hf_extensions := Some v\<rparr>"
  "classifyHeader f (B ''Sec-WebSocket-Accept'') v = f\<lparr>hf_accept := v\<rparr>"
  by (simp_all add: classifyHeader_def EqualFold_map foldByte_def word_le_def)

lemma contains_upgrade:
  "ContainsToken (B ''websocket'') (B ''websocket'')" "ContainsToken (B ''Upgrade'') (B ''upgrade'')"
  "TrimOWS (B ''websocket'') = B ''websocket''" "TrimOWS (B ''Upgrade'') = B ''Upgrade''" "TrimOWS (B ''13'') = B ''13''"
  by code_simp+

lemma scan_request:
  assumes "requestOk d url hdr proxyAuth"
  shows "\<exists>origin. foldl (\<lambda>f h. classifyHeader f (fst h) (TrimOWS (snd h))) noHandshakeHeaders
      (requestFields d url hdr absoluteForm proxyAuth (base64Encode nonce)) =
    \<lparr>hf_key = base64Encode nonce, hf_origin = origin,
     hf_protocol = (if d_Subprotocols d \<noteq> [] then Some (joinCommaSpace (d_Subprotocols d)) else None),
     hf_extensions = (if d_EnableCompression d then Some (dialerOffer d) else None), hf_accept = [],
     hf_hostSeen = True, hf_upgradeOK = True, hf_connectionOK = True, hf_versionOK = True\<rparr>"
proof -
  have extra: "f \<in> set (extraFields hdr) \<Longrightarrow> \<not> reservedHeaderName (fst f)" for f
    using assms extraFields_ok unfolding requestOk_def by blast
  have vals: "TrimOWS (joinCommaSpace (d_Subprotocols d)) = joinCommaSpace (d_Subprotocols d)"
    "TrimOWS (dialerOffer d) = dialerOffer d" "TrimOWS (base64Encode nonce) = base64Encode nonce"
    using plainValue_join plainValue_extension offerParams_ok plainValue_base64 assms
    by (simp_all add: plainValue_def dialerOffer_text requestOk_def)
  let ?base = "\<lparr>hf_key = base64Encode nonce, hf_origin = None,
     hf_protocol = (if d_Subprotocols d \<noteq> [] then Some (joinCommaSpace (d_Subprotocols d)) else None),
     hf_extensions = (if d_EnableCompression d then Some (dialerOffer d) else None), hf_accept = [],
     hf_hostSeen = True, hf_upgradeOK = True, hf_connectionOK = True, hf_versionOK = True\<rparr>"
  obtain origin where o: "foldl (\<lambda>f h. classifyHeader f (fst h) (TrimOWS (snd h))) ?base (extraFields hdr) =
      ?base\<lparr>hf_origin := origin\<rparr>" using classify_extra [OF extra] by blast
  have "foldl (\<lambda>f h. classifyHeader f (fst h) (TrimOWS (snd h))) noHandshakeHeaders
      (requestFields d url hdr absoluteForm proxyAuth (base64Encode nonce)) =
    foldl (\<lambda>f h. classifyHeader f (fst h) (TrimOWS (snd h))) ?base (extraFields hdr)"
    by (simp add: requestFields_def classify_fields contains_upgrade vals noHandshakeHeaders_def del: B_Cons)
  also note o
  finally show ?thesis by (intro exI [of _ origin]) simp
qed

section \<open>The server accepts\<close>

lemma firstCommon_Nil: "firstCommon [] ps = []" "firstCommon us [] = []"
  by (simp add: firstCommon_def, induction us) (simp_all add: firstCommon_def)

definition serverLimit :: "Upgrader \<Rightarrow> int" where
  "serverLimit u = (if u_MaxHeaderBytes u \<le> 0 then defaultMaxHeaderBytes else u_MaxHeaderBytes u)"

definition originFree :: "Upgrader \<Rightarrow> bool" where
  "originFree u \<longleftrightarrow> (case u_OriginCheck u of None \<Rightarrow> True | Some check \<Rightarrow> \<forall>origin. check origin)"

text \<open>What the two configurations agree on.\<close>

definition agreedCompression :: "int \<Rightarrow> Upgrader \<Rightarrow> Dialer \<Rightarrow> (DeflateParams \<times> int) option" where
  "agreedCompression bits u d =
     (if u_EnableCompression u \<and> d_EnableCompression d
      then negotiateDeflateWithHint bits (dialerOffer d) (upgraderPolicy u) else None)"

definition agreedResponse :: "int \<Rightarrow> Upgrader \<Rightarrow> Dialer \<Rightarrow> bytes \<Rightarrow> bytes" where
  "agreedResponse bits u d nonce = appendSwitchingProtocolsResponse [] (AppendKey nonce [])
     (firstCommon (u_Subprotocols u) (d_Subprotocols d)) (map_option fst (agreedCompression bits u d))"

lemma agreed_cases:
  obtains "a = None" | params hint where "a = Some (params, hint)"
  by (cases a) auto

lemma Upgrade_accepts:
  assumes "validateClientWindowBits (u_ClientWindowBits u)" "originFree u" "requestOk d url hdr proxyAuth"
    "length nonce = 16" "steady t" "writesOk t"
    "incoming t = handshakeRequest d url hdr absoluteForm proxyAuth (AppendKey nonce []) @ after"
    "int (length (handshakeRequest d url hdr absoluteForm proxyAuth (AppendKey nonce []))) \<le> serverLimit u"
  shows "\<exists>hs t'. Upgrade bits u t = (Inr hs, t') \<and> t_sent t' = t_sent t @ [agreedResponse bits u d nonce] \<and>
    hk_Buffered hs @ incoming t' = after \<and>
    hk_Subprotocol hs = firstCommon (u_Subprotocols u) (d_Subprotocols d) \<and>
    hk_Compressed hs = (agreedCompression bits u d \<noteq> None) \<and>
    (\<forall>params hint. agreedCompression bits u d = Some (params, hint) \<longrightarrow>
      (hk_CompressionParams hs)\<lparr>cp_ClientMaxWindowBitsHint := 0\<rparr> = compressionParamsFromDeflate params) \<and>
    (u_RawPath u \<or> (hk_Path hs, hk_Query hs) = splitTarget (requestTarget url absoluteForm))"
proof -
  let ?key = "base64Encode nonce" and ?fs = "requestFields d url hdr absoluteForm proxyAuth (base64Encode nonce)"
  let ?req = "message (requestLine url absoluteForm) ?fs"
  let ?ps = "d_Subprotocols d" and ?cp = "length (poolStorage (min 4096 (serverLimit u)))"
  have key: "AppendKey nonce [] = ?key" "length ?key = 24"
    using assms(4) by (simp_all add: AppendKey_def length_base64Encode)
  have req: "handshakeRequest d url hdr absoluteForm proxyAuth (AppendKey nonce []) = ?req"
    by (simp add: key handshakeRequest_message)
  note ok = requestFields_ok [OF assms(3)]
  obtain extra t' where r: "readHeaderBlock (serverLimit u) ?cp [] t = ((None, ?req @ extra), t')"
    "blankLine (?req @ extra) = Some (length ?req - 4)" "extra @ incoming t' = after" "t_sent t' = t_sent t"
    "t_writes t' = t_writes t" "steady t'"
    using read_message_block [OF assms(5) assms(7) [unfolded req] ok(2,1) assms(8) [unfolded req]] by metis
  have long: "length ?req - 4 + 4 = length ?req" by (simp add: message_def requestLine_def)
  obtain origin where origin: "foldl (\<lambda>f h. classifyHeader f (fst h) (TrimOWS (snd h))) noHandshakeHeaders ?fs =
    \<lparr>hf_key = ?key, hf_origin = origin, hf_protocol = (if ?ps \<noteq> [] then Some (joinCommaSpace ?ps) else None),
      hf_extensions = (if d_EnableCompression d then Some (dialerOffer d) else None), hf_accept = [],
      hf_hostSeen = True, hf_upgradeOK = True, hf_connectionOK = True, hf_versionOK = True\<rparr>"
    using scan_request [OF assms(3), of absoluteForm nonce] by blast
  have scan: "scanWSHandshakeHeaders (drop (Suc (Suc (length (requestLine url absoluteForm)))) ?req) =
    (\<lparr>hf_key = ?key, hf_origin = origin, hf_protocol = (if ?ps \<noteq> [] then Some (joinCommaSpace ?ps) else None),
      hf_extensions = (if d_EnableCompression d then Some (dialerOffer d) else None), hf_accept = [],
      hf_hostSeen = True, hf_upgradeOK = True, hf_connectionOK = True, hf_versionOK = True\<rparr>, None)"
    by (simp only: add_2_eq_Suc' [symmetric] scan_message [OF ok(1)] origin)
  define selected where "selected = firstCommon (u_Subprotocols u) ?ps"
  have sub: "?ps \<noteq> [] \<Longrightarrow> negotiateSubprotocol (u_Subprotocols u) (joinCommaSpace ?ps) = selected"
    "?ps = [] \<or> u_Subprotocols u = [] \<Longrightarrow> selected = []"
    using negotiateSubprotocol_join [of ?ps] assms(3)
    by (auto simp: requestOk_def selected_def firstCommon_Nil)
  define neg where "neg = agreedCompression bits u d"
  have ext: "d_EnableCompression d \<Longrightarrow> u_EnableCompression u \<Longrightarrow>
      negotiateDeflateWithHint bits (dialerOffer d) (upgraderPolicy u) = neg"
    "\<not> (d_EnableCompression d \<and> u_EnableCompression u) \<Longrightarrow> neg = None"
    by (auto simp: neg_def agreedCompression_def)
  have w: "tWrite p t' = ((length p, None), t'\<lparr>t_writes := tl (t_writes t'), t_sent := t_sent t' @ [p]\<rparr>)" for p
    using assms(6) r(5,6) by (intro tWrite_ok) (simp add: writesOk_def steady_def)
  have inc: "incoming (t'\<lparr>t_writes := a, t_sent := b\<rparr>) = incoming t'" for a b by (simp add: incoming_def)
  obtain path query where pq: "splitTarget (requestTarget url absoluteForm) = (path, query)" by fastforce
  define done' where "done' = t'\<lparr>t_writes := tl (t_writes t'), t_sent := t_sent t @ [agreedResponse bits u d nonce]\<rparr>"
  have resp: "appendSwitchingProtocolsResponse [] ?key selected (map_option fst neg) = agreedResponse bits u d nonce"
    by (simp add: agreedResponse_def key(1) selected_def neg_def)
  have "\<exists>hs. Upgrade bits u t = (Inr hs, done') \<and> hk_Buffered hs = extra \<and> hk_Subprotocol hs = selected \<and>
      hk_Compressed hs = (neg \<noteq> None) \<and> (\<forall>params hint. neg = Some (params, hint) \<longrightarrow>
        (hk_CompressionParams hs)\<lparr>cp_ClientMaxWindowBitsHint := 0\<rparr> = compressionParamsFromDeflate params) \<and>
      (u_RawPath u \<or> (hk_Path hs, hk_Query hs) = (path, query))"
    using assms(1,2) sub ext resp
    by (cases "?ps = []"; cases "u_Subprotocols u = []"; cases "d_EnableCompression d"; cases "u_EnableCompression u"; cases neg rule: agreed_cases)
      (simp_all add: Upgrade_def serverLimit_def [symmetric] r(1,2,4) long ok(3) scan w pq key(2) originFree_def
        done'_def noHandshake_def Let_def compressionParamsFromDeflate_def split: option.splits)
  then show ?thesis using r(3) pq unfolding done'_def selected_def neg_def by (auto simp: inc)
qed

section \<open>The client accepts\<close>

definition responseLine :: bytes where
  "responseLine = B ''HTTP/1.1 101 Switching Protocols''"

definition responseFields :: "bytes \<Rightarrow> bytes \<Rightarrow> DeflateParams option \<Rightarrow> (bytes \<times> bytes) list" where
  "responseFields key selected deflate =
     [(B ''Upgrade'', B ''websocket''), (B ''Connection'', B ''Upgrade''), (B ''Sec-WebSocket-Accept'', AppendAccept [] key)] @
     (if selected \<noteq> [] then [(B ''Sec-WebSocket-Protocol'', selected)] else []) @
     (case deflate of None \<Rightarrow> [] | Some p \<Rightarrow> [(B ''Sec-WebSocket-Extensions'', AppendDeflateResponse [] p)])"

lemma response_message:
  "appendSwitchingProtocolsResponse [] key selected deflate = message responseLine (responseFields key selected deflate)"
proof -
  have a: "AppendAccept dst key = dst @ AppendAccept [] key" for dst by (simp add: AppendAccept_def Let_def)
  have e: "AppendDeflateResponse dst p = dst @ AppendDeflateResponse [] p" for dst p by (simp add: AppendDeflateResponse_def)
  show ?thesis
    by (subst appendSwitchingProtocolsResponse_def, subst a)
      (cases deflate; simp add: message_def responseLine_def responseFields_def fieldLine_def Let_def e [of "_ @ _"])
qed

lemma statusLine_message:
  "ParseStatusLine (message responseLine fs) =
    (Inr \<lparr>sl_Version = B ''HTTP/1.1'', sl_Code = B ''101'', sl_Reason = B ''Switching Protocols''\<rparr>, length responseLine + 2)"
  "lineOk responseLine" "parseStatusCode (B ''101'') = Some 101"
proof -
  let ?line = "B ''HTTP/1.1'' @ SP # B ''101'' @ SP # B ''Switching Protocols''"
  have l: "responseLine = ?line" by (simp add: responseLine_def)
  show ok: "lineOk responseLine" by (simp add: l lineOk_def)
  then have "cutCRLF (?line @ CRLF @ rest) = Some (?line, rest)" for rest
    unfolding l lineOk_def by (intro cutCRLF_line) simp_all
  moreover have "cutByte ?line SP = Some (B ''HTTP/1.1'', B ''101'' @ SP # B ''Switching Protocols'')"
    by (rule cutByte_append) simp
  moreover have "cutByte (B ''101'' @ SP # B ''Switching Protocols'') SP = Some (B ''101'', B ''Switching Protocols'')"
    by (rule cutByte_append) simp
  ultimately show "ParseStatusLine (message responseLine fs) =
    (Inr \<lparr>sl_Version = B ''HTTP/1.1'', sl_Code = B ''101'', sl_Reason = B ''Switching Protocols''\<rparr>, length responseLine + 2)"
    unfolding l message_def by (simp add: ParseStatusLine_def Let_def del: B_Cons)
  show "parseStatusCode (B ''101'') = Some 101" by code_simp
qed

lemma response_value: "plainValue (AppendDeflateResponse [] p)"
  unfolding AppendDeflateResponse_text append_Nil by (intro plainValue_extension responseParams_ok)

lemma responseFields_ok:
  assumes "selected = [] \<or> IsToken selected"
  shows "list_all fieldOk (responseFields key selected deflate)"
  using assms isToken_names
  by (auto simp: responseFields_def fieldOkI plainValue_token plainValue_accept response_value simp del: B_Cons split: option.split)

lemma scan_response:
  assumes "selected = [] \<or> IsToken selected"
  shows "foldl (\<lambda>f h. classifyHeader f (fst h) (TrimOWS (snd h))) noHandshakeHeaders (responseFields key selected deflate) =
    \<lparr>hf_key = [], hf_origin = None, hf_protocol = (if selected \<noteq> [] then Some selected else None),
     hf_extensions = map_option (AppendDeflateResponse []) deflate, hf_accept = AppendAccept [] key,
     hf_hostSeen = False, hf_upgradeOK = True, hf_connectionOK = True, hf_versionOK = False\<rparr>"
proof -
  have "TrimOWS selected = selected" using assms TrimOWS_token by auto
  moreover have "TrimOWS (AppendDeflateResponse [] p) = AppendDeflateResponse [] p"
    "TrimOWS (AppendAccept [] key) = AppendAccept [] key" for p
    using response_value plainValue_accept by (simp_all add: plainValue_def)
  ultimately show ?thesis
    by (cases deflate) (simp_all add: responseFields_def classify_fields contains_upgrade noHandshakeHeaders_def del: B_Cons)
qed

text \<open>What the client makes of the agreed parameters: its own window is also bounded by what it offered.\<close>

definition clientParams :: "Dialer \<Rightarrow> CompressionParams \<Rightarrow> CompressionParams" where
  "clientParams d cp =
     (if d_WindowBits d = 0 then cp
      else cp\<lparr>cp_ClientMaxWindowBits := (if cp_ClientMaxWindowBits cp = 0 then d_WindowBits d
        else min (cp_ClientMaxWindowBits cp) (d_WindowBits d))\<rparr>)"

lemma firstCommon_cases: "firstCommon us ps = [] \<or> firstCommon us ps \<in> set us \<and> firstCommon us ps \<in> set ps"
  by (auto simp: firstCommon_def find_Some_iff split: option.split)

lemma offeredSubprotocol_mem: "p \<in> set ps \<Longrightarrow> offeredSubprotocol p ps = p"
  by (induction ps) auto

lemma ParseCompression_none: "ParseCompression offer [[]] = Inr (noCompressionParams, False)"
proof -
  have "OfferNext (NewOfferScanner []) = (NewOfferScanner [], False)"
    by (subst OfferNext.simps) (simp add: NewOfferScanner_def)
  then have "responseElements False (NewOfferScanner []) = Some False" by (subst responseElements.simps) simp
  then show ?thesis by (simp add: ParseCompression_def)
qed

lemma handshake_accepts:
  assumes "8 \<le> bits" "bits \<le> 15" "validateClientWindowBits (u_ClientWindowBits u)" "list_all IsToken (d_Subprotocols d)"
    "steady t" "writesOk t" "incoming t = agreedResponse bits u d nonce @ after"
    "int (length (agreedResponse bits u d nonce)) \<le> defaultMaxHeaderBytes"
  shows "\<exists>r t'. handshake active d nonce url hdr absoluteForm proxyAuth t = (r, t') \<and>
    t_sent t' = t_sent t @ [handshakeRequest d url hdr absoluteForm proxyAuth (AppendKey nonce [])] \<and>
    (case agreedCompression bits u d of
       None \<Rightarrow> \<exists>hc. r = Inr (hc, []) \<and> hk_Subprotocol hc = firstCommon (u_Subprotocols u) (d_Subprotocols d) \<and>
         \<not> hk_Compressed hc \<and> hk_Buffered hc @ incoming t' = after
     | Some (params, _) \<Rightarrow>
         let cp = clientParams d (compressionParamsFromDeflate params) in
         if checkWindowBitsSupported active (cp_ClientMaxWindowBits cp)
         then \<exists>hc. r = Inr (hc, []) \<and> hk_Subprotocol hc = firstCommon (u_Subprotocols u) (d_Subprotocols d) \<and>
           hk_Compressed hc \<and> hk_CompressionParams hc = cp \<and> hk_Buffered hc @ incoming t' = after
         else r = Inl ErrWindowBitsUnsupported)"
proof -
  let ?key = "AppendKey nonce []"
  let ?req = "handshakeRequest d url hdr absoluteForm proxyAuth ?key"
  let ?resp = "agreedResponse bits u d nonce"
  define selected where "selected = firstCommon (u_Subprotocols u) (d_Subprotocols d)"
  define neg where "neg = agreedCompression bits u d"
  let ?fs = "responseFields ?key selected (map_option fst neg)"
  have resp: "?resp = message responseLine ?fs"
    by (simp add: agreedResponse_def selected_def neg_def response_message)
  have sel: "selected = [] \<or> IsToken selected \<and> selected \<in> set (d_Subprotocols d)"
    using firstCommon_cases [of "u_Subprotocols u" "d_Subprotocols d"] assms(4) by (auto simp: selected_def list_all_iff)
  have ok: "list_all fieldOk ?fs" using sel by (intro responseFields_ok) blast
  let ?t = "t\<lparr>t_writes := tl (t_writes t), t_sent := t_sent t @ [?req]\<rparr>"
  have w: "tWrite ?req t = ((length ?req, None), ?t)" by (rule tWrite_ok [OF assms(6)])
  have st: "steady ?t" "incoming ?t = message responseLine ?fs @ after"
    using assms(5,7) by (simp_all add: steady_def incoming_def resp)
  obtain extra t' where r: "readHeaderBlock defaultMaxHeaderBytes (length (poolStorage 4096)) [] ?t =
      ((None, message responseLine ?fs @ extra), t')"
    "blankLine (message responseLine ?fs @ extra) = Some (length (message responseLine ?fs) - 4)"
    "extra @ incoming t' = after" "t_sent t' = t_sent t @ [?req]"
    by (rule read_message_block [OF st statusLine_message(2) ok assms(8) [unfolded resp],
          of "length (poolStorage 4096)"]) (rule that, simp_all)
  have long: "length (message responseLine ?fs) - 4 + 4 = length (message responseLine ?fs)"
    by (simp add: message_def responseLine_def)
  have scan: "scanWSHandshakeHeaders (drop (Suc (Suc (length responseLine))) (message responseLine ?fs)) =
    (\<lparr>hf_key = [], hf_origin = None, hf_protocol = (if selected \<noteq> [] then Some selected else None),
     hf_extensions = map_option (AppendDeflateResponse []) (map_option fst neg), hf_accept = AppendAccept [] ?key,
     hf_hostSeen = False, hf_upgradeOK = True, hf_connectionOK = True, hf_versionOK = False\<rparr>, None)"
    using sel by (subst add_2_eq_Suc' [symmetric], subst scan_message(1) [OF ok], subst scan_message(2) [OF ok], subst scan_response) auto
  have offered: "selected \<noteq> [] \<Longrightarrow> offeredSubprotocol selected (d_Subprotocols d) = selected"
    using sel offeredSubprotocol_mem by blast
  have parse: "ParseCompression offer [[]] = Inr (noCompressionParams, False)"
    "neg = Some (params, hint) \<Longrightarrow> d_EnableCompression d \<and> ParseCompression [dialerOffer d] [AppendDeflateResponse [] params] =
      Inr (compressionParamsFromDeflate params, True)" for offer params hint
    using ParseCompression_none ParseCompression_agrees [OF assms(1,2), of "upgraderPolicy u" "dialerOffer d" params hint] assms(3)
    by (auto simp: neg_def agreedCompression_def upgraderPolicy_def split: if_splits)
  have "handshake active d nonce url hdr absoluteForm proxyAuth t =
      (validateResponse active d ?key (message responseLine ?fs @ extra), t')"
    by (simp add: handshake_def w r(1) Let_def)
  moreover have v: "validateResponse active d ?key (message responseLine ?fs @ extra) =
      (case ParseCompression (if d_EnableCompression d then [dialerOffer d] else [])
          [case map_option (AppendDeflateResponse []) (map_option fst neg) of None \<Rightarrow> [] | Some e \<Rightarrow> e] of
         Inl err \<Rightarrow> Inl (ErrCompressionResponse err)
       | Inr (cp, compressed) \<Rightarrow>
           finishHandshake active d (noHandshake\<lparr>hk_Subprotocol := selected, hk_Compressed := compressed,
             hk_Buffered := extra\<rparr>) cp)"
  proof (cases "selected = []")
    case True
    show ?thesis unfolding True
      by (simp add: validateResponse_def r(2) [unfolded True] long [unfolded True] scan [unfolded True]
          statusLine_message(1) statusLine_message(3) [simplified] Let_def split: sum.split)
  next
    case False
    then show ?thesis using offered
      by (simp add: validateResponse_def r(2) long scan statusLine_message(1) statusLine_message(3) [simplified] Let_def
          split: sum.split)
  qed
  ultimately show ?thesis using r(3,4)
    by (cases neg rule: agreed_cases)
      (simp_all add: parse selected_def [symmetric] neg_def [symmetric] Let_def noHandshake_def finishHandshake_def
        clientParams_def)
qed

lemma length_sha1Sum: "length (sha1Sum m) = 20"
  by (simp add: sha1Sum_def split: prod.split)

lemma length_decimal_window: "8 \<le> n \<Longrightarrow> n \<le> 15 \<Longrightarrow> length (decimal (nat n)) \<le> 2"
proof -
  assume "8 \<le> n" "n \<le> 15"
  then have "n \<in> {8, 9, 10, 11, 12, 13, 14, 15}" by auto
  then show ?thesis by (auto simp: decimal.simps)
qed

lemma length_agreedResponse:
  "length (agreedResponse bits u d nonce) \<le> 400 + length (firstCommon (u_Subprotocols u) (d_Subprotocols d))"
proof -
  have ext: "length (AppendDeflateResponse [] p) \<le> 150" for p
    using length_decimal_window [of "ServerMaxWindowBits p"] length_decimal_window [of "ClientMaxWindowBitsValue p"]
      ClientMaxWindowBitsValue_range [of p]
    by (auto simp: AppendDeflateResponse_def DeflateExtensionName_def Let_def minWindowBits_def maxWindowBits_def)
  have "length (AppendAccept [] key) = 28" for key
    by (simp add: AppendAccept_def Let_def length_base64Encode length_sha1Sum)
  then show ?thesis using ext
    by (cases "agreedCompression bits u d" rule: agreed_cases)
      (auto simp: agreedResponse_def response_message message_def responseLine_def responseFields_def fieldLine_def
        intro: le_trans [OF ext])
qed
section \<open>Properties of the handshake\<close>

text \<open>C7: The two sides of a handshake reach the same agreement. The upgrader accepts every origin (it has no
  origin check, or one that never refuses), its window settings are valid and its subprotocol names have at most
  4096 bytes; the dialer's request is a valid one (host and target without blanks and line ends, subprotocols that are tokens, valid window
  settings, validated extra headers, proxy credentials as the dialer encodes them), with a nonce of 16 bytes, and fits in the
  header limit of the upgrader; both transports fail no read and accept every write. Then, with whatever else the two are
  configured and however the network cuts the bytes into reads, the server accepts the dialer's request, and the
  dialer accepts the server's response: both report the same subprotocol (the server's first one the client lists), both
  use compression or both do not, with the client using the server's parameters bounded by its own offer, and no
  byte that arrives behind the request or the response is lost. The one exception left under these conditions is a
  client whose own DEFLATE backend cannot compress within the agreed window: it reports \<^verbatim>\<open>ErrWindowBitsUnsupported\<close>.\<close>

theorem handshake_agrees:
  assumes "8 \<le> bits" "bits \<le> 15" "validateClientWindowBits (u_ClientWindowBits u)" "originFree u"
    "\<forall>p \<in> set (u_Subprotocols u). length p \<le> 4096"
    "requestOk d url hdr proxyAuth" "length nonce = 16" "steady st" "writesOk st"
    "incoming st = handshakeRequest d url hdr absoluteForm proxyAuth (AppendKey nonce []) @ early"
    "int (length (handshakeRequest d url hdr absoluteForm proxyAuth (AppendKey nonce []))) \<le> serverLimit u"
  shows "\<exists>hs st' resp. Upgrade bits u st = (Inr hs, st') \<and> t_sent st' = t_sent st @ [resp] \<and>
    hk_Buffered hs @ incoming st' = early \<and>
    (\<forall>ct late. steady ct \<longrightarrow> writesOk ct \<longrightarrow> incoming ct = resp @ late \<longrightarrow>
      (\<exists>r ct'. handshake active d nonce url hdr absoluteForm proxyAuth ct = (r, ct') \<and>
        t_sent ct' = t_sent ct @ [handshakeRequest d url hdr absoluteForm proxyAuth (AppendKey nonce [])] \<and>
        (let cp = clientParams d ((hk_CompressionParams hs)\<lparr>cp_ClientMaxWindowBitsHint := 0\<rparr>) in
         if hk_Compressed hs \<and> \<not> checkWindowBitsSupported active (cp_ClientMaxWindowBits cp)
         then r = Inl ErrWindowBitsUnsupported
         else \<exists>hc. r = Inr (hc, []) \<and> hk_Buffered hc @ incoming ct' = late \<and>
           hk_Subprotocol hc = firstCommon (u_Subprotocols u) (d_Subprotocols d) \<and>
           hk_Subprotocol hs = hk_Subprotocol hc \<and> hk_Compressed hs = hk_Compressed hc \<and>
           (hk_Compressed hc \<longrightarrow> hk_CompressionParams hc = cp))))"
proof -
  obtain hs st' where s: "Upgrade bits u st = (Inr hs, st')" "t_sent st' = t_sent st @ [agreedResponse bits u d nonce]"
    "hk_Buffered hs @ incoming st' = early" "hk_Subprotocol hs = firstCommon (u_Subprotocols u) (d_Subprotocols d)"
    "hk_Compressed hs = (agreedCompression bits u d \<noteq> None)"
    "\<And>params hint. agreedCompression bits u d = Some (params, hint) \<Longrightarrow>
      (hk_CompressionParams hs)\<lparr>cp_ClientMaxWindowBitsHint := 0\<rparr> = compressionParamsFromDeflate params"
    using Upgrade_accepts [OF assms(3,4,6-11), of bits] by blast
  have "length (firstCommon (u_Subprotocols u) (d_Subprotocols d)) \<le> 4096"
    using firstCommon_cases [of "u_Subprotocols u" "d_Subprotocols d"] assms(5) by auto
  then have l: "int (length (agreedResponse bits u d nonce)) \<le> defaultMaxHeaderBytes"
    using length_agreedResponse [of bits u d nonce] by (simp add: defaultMaxHeaderBytes_def)
  have tokens: "list_all IsToken (d_Subprotocols d)" using assms(6) by (simp add: requestOk_def)
  note client = handshake_accepts [OF assms(1-3) tokens _ _ _ l, of _ _ active url hdr absoluteForm proxyAuth]
  have "\<exists>r ct'. handshake active d nonce url hdr absoluteForm proxyAuth ct = (r, ct') \<and>
      t_sent ct' = t_sent ct @ [handshakeRequest d url hdr absoluteForm proxyAuth (AppendKey nonce [])] \<and>
      (let cp = clientParams d ((hk_CompressionParams hs)\<lparr>cp_ClientMaxWindowBitsHint := 0\<rparr>) in
       if hk_Compressed hs \<and> \<not> checkWindowBitsSupported active (cp_ClientMaxWindowBits cp)
       then r = Inl ErrWindowBitsUnsupported
       else \<exists>hc. r = Inr (hc, []) \<and> hk_Buffered hc @ incoming ct' = late \<and>
         hk_Subprotocol hc = firstCommon (u_Subprotocols u) (d_Subprotocols d) \<and>
         hk_Subprotocol hs = hk_Subprotocol hc \<and> hk_Compressed hs = hk_Compressed hc \<and>
         (hk_Compressed hc \<longrightarrow> hk_CompressionParams hc = cp))"
    if ct: "steady ct" "writesOk ct" "incoming ct = agreedResponse bits u d nonce @ late" for ct late
    using client [OF ct] s(4-6)
    by (cases "agreedCompression bits u d" rule: agreed_cases) (fastforce simp: Let_def)+
  then show ?thesis using s(1-3) by blast
qed

text \<open>A dialer and an upgrader that both know two subprotocols and compression.\<close>

definition demoUpgrader :: Upgrader where
  "demoUpgrader = \<lparr>u_Subprotocols = [B ''v2'', B ''v1''], u_OriginCheck = None, u_ForwardResponseHeaders = False, u_MaxHeaderBytes = 0, u_RawPath = False,
     u_EnableCompression = True, u_NegotiateWindowBits = False, u_AllowContextTakeover = True,
     u_TrustClientWindowBitsHint = False, u_ClientWindowBits = 0\<rparr>"

definition demoClient :: Dialer where
  "demoClient = demoDialer\<lparr>d_Subprotocols := [B ''v1'', B ''v2''], d_EnableCompression := True\<rparr>"

definition demoRequest :: bytes where
  "demoRequest = handshakeRequest demoClient (demoURL (B ''a'')) [] False [] (AppendKey (replicate 16 7) [])"

lemmas demo_defs = demoRequest_def handshakeRequest_def demoURL_def demoClient_def demoDialer_def demoUpgrader_def
  AppendKey_def dialerOffer_def deflateOffer_def DeflateExtensionName_def defaultMaxHeaderBytes_def

theorem handshake_agrees_witness:
  "\<exists>hs st' resp. Upgrade 15 demoUpgrader \<lparr>t_reads = [(take 20 demoRequest, None), (drop 20 demoRequest @ [1], None)],
      t_end = EOF, t_writes = [], t_sent = [], t_closes = 0\<rparr> = (Inr hs, st') \<and> t_sent st' = [resp] \<and>
    hk_Buffered hs @ incoming st' = [1]"
proof -
  let ?st = "\<lparr>t_reads = [(take 20 demoRequest, None), (drop 20 demoRequest @ [1], None)],
    t_end = EOF, t_writes = [], t_sent = [], t_closes = 0\<rparr>"
  have ok: "requestOk demoClient (demoURL (B ''a'')) [] []"
    unfolding requestOk_def by (intro conjI exI [of _ None]; code_simp)
  have free: "originFree demoUpgrader" by (simp add: originFree_def demoUpgrader_def)
  have req: "handshakeRequest demoClient (demoURL (B ''a'')) [] False [] (AppendKey (replicate 16 7) []) = demoRequest"
    by (rule demoRequest_def [symmetric])
  have fits: "validateClientWindowBits (u_ClientWindowBits demoUpgrader)"
    "\<forall>p \<in> set (u_Subprotocols demoUpgrader). length p \<le> 4096" "int (length demoRequest) \<le> serverLimit demoUpgrader"
    by (simp_all add: demo_defs validateClientWindowBits_def serverLimit_def length_base64Encode)
  have st: "steady ?st" "writesOk ?st" "incoming ?st = demoRequest @ [1]"
  proof -
    have "20 < length demoRequest" by (simp add: demo_defs length_base64Encode)
    then have "take 20 demoRequest \<noteq> []" "drop 20 demoRequest @ [1] \<noteq> []" by (auto simp del: length_0_conv)
    then show "steady ?st" "writesOk ?st" "incoming ?st = demoRequest @ [1]"
      by (simp_all add: steady_def writesOk_def incoming_def)
  qed
  obtain hs st' resp where "Upgrade 15 demoUpgrader ?st = (Inr hs, st')" "t_sent st' = t_sent ?st @ [resp]"
    "hk_Buffered hs @ incoming st' = [1]"
    using handshake_agrees [OF _ _ fits(1) free fits(2) ok _ st(1,2), of 15 "replicate 16 7" False "[1]" storeConfig,
        unfolded req, OF _ _ _ st(3) fits(3)] by auto
  then show ?thesis by (intro exI [of _ hs] exI [of _ st'] exI [of _ resp]) simp
qed

end
