(* ===== verification/Read_Limits.thy ===== *)
theory Read_Limits
  imports Session
begin

text \<open>
  The read limit and its edges: what a returned message satisfies, and the one length the test of the
  limit lets through.
\<close>

section \<open>A length that wraps around\<close>

text \<open>
  \<^verbatim>\<open>readFramePayload\<close> tests \<^verbatim>\<open>int64(len(c.msgBuf))+h.Length > c.readLimit\<close>. A continuation frame may claim
  \<open>2 ^ 63 - 1\<close> bytes, and with anything already in the buffer the sum is negative.
\<close>

lemma overflow_passes:
  assumes "0 < n" "n < 2 ^ 63" "0 \<le> limit"
  shows "\<not> i64 (int n + (2 ^ 63 - 1)) > limit"
  using i64_wrap [of "int n + (2 ^ 63 - 1)"] assms by simp

lemma readFramePayload_overflow:
  assumes r: "readable c" and l: "h_Length h = 2 ^ 63 - 1"
    and b: "c_msgBuf c \<noteq> []" "int (length (c_msgBuf c)) < maxAlloc" and lim: "0 \<le> c_readLimit c"
    and nt: "\<not> c_msgIsText c" and v: "v_state (c_utf8v c) \<noteq> reject"
  shows "\<exists>c'. readFramePayload h c = (Some GoPanic, c')"
proof -
  define n where "n = min (c_r1 c - c_r0 c) (nat (h_Length h))"
  define x where "x = unmask (h_Masked h) (h_MaskKey h) (take n (pending c))"
  have pass: "\<not> i64 (int (length (c_msgBuf c)) + h_Length h) > c_readLimit c"
    using overflow_passes [of "length (c_msgBuf c)" "c_readLimit c"] b lim l by (simp add: maxAlloc_def)
  have n: "int n < maxAlloc" using r by (auto simp: n_def readable_def)
  have "0 \<le> h_Length h" by (simp add: l)
  from drainWindow_refines [OF r this v n_def x_def refl, where validate = False] v
  obtain key c1 where "drainWindow h False c = (True, h_Length h - int n, key, c1)" "c_msgBuf c1 = c_msgBuf c @ x"
    by (auto simp: runIf_def)
  then show ?thesis using pass n nt l by (auto simp: readFramePayload_def maxAlloc_def)
qed

lemma messageLoop_fragment:
  assumes r: "readable c" and v: "v_state (c_utf8v c) = accept" and b: "c_msgBuf c = []"
    and p: "pending c = encFrame key OpcodeBinary False 0 p @ rest" "(key \<noteq> None) = (\<not> c_client c)"
    and l: "int (length p) \<le> c_readLimit c" "int (length p) < maxAlloc"
  shows "\<exists>c'. messageLoop False 0 c = messageLoop True OpcodeBinary c' \<and> readable c' \<and> pending c' = rest \<and>
    c_msgBuf c' = p \<and> v_state (c_utf8v c') = accept \<and> \<not> c_msgIsText c' \<and> c_readLimit c' = c_readLimit c \<and>
    c_client c' = c_client c \<and> c_compression c' = c_compression c"
proof -
  define h where "h = frameHeader key OpcodeBinary False 0 p"
  have h: "\<not> IsControl (h_Opcode h)" "isOpening h" "h_Opcode h = OpcodeBinary" "0 \<le> h_Length h" "\<not> h_Fin h"
    "nat (h_Length h) = length p" "h_Rsv h = 0"
    by (simp_all add: h_def frameHeader_def IsControl_def isOpening_def opcode_defs)
  have "int (length p) < 2 ^ 63" using l(2) by (simp add: maxAlloc_def)
  then have "decodeFor (c_client c) (c_compression c) (pending c) = Inr (h, length (AppendHeader [] h))"
    using decode_encFrame [of OpcodeBinary p key "c_client c"] p by (simp add: dataOp_def h_def)
  with readHeader_refines [OF r refl refl refl] obtain c1 where c1: "readHeader c = (Inr h, c1)" "readable c1"
    "pending c1 = framePayload key p @ rest" "erase c1 = erase c" "c_utf8v c1 = c_utf8v c" "c_msgBuf c1 = []"
    using p(1) b by (auto simp: encFrame_parts h_def)
  note c2 = beginMessage_refines [OF c1(2) h(4,2)]
  have sp: "specData h OpcodeBinary (c_msgBuf (beginMessage h c1)) accept (pending (beginMessage h c1)) (erase (beginMessage h c1))
      = Inr (p, accept)"
    using specData_encoded(1) [of "[]" p "specBegin h (erase c)" accept key OpcodeBinary OpcodeBinary rest, folded h_def] l c1 c2 h
    by (auto simp: specBegin_def runIf_def OpcodeText_def OpcodeBinary_def RSV1_def)
  have v2: "v_state (c_utf8v (beginMessage h c1)) = accept" using c2(4) c1(5) v by simp
  from frame_agrees [OF c2(1) h(4) v2 _ _ sp, of undefined] c2(5) c1(6) obtain c3 where
    c3: "readFramePayload h (beginMessage h c1) = (None, c3)" "readable c3" "erase c3 = erase (beginMessage h c1)"
      "pending c3 = drop (nat (h_Length h)) (pending (beginMessage h c1))" "c_msgBuf c3 = p" "v_state (c_utf8v c3) = accept"
    by (auto simp: maxAlloc_def)
  have "messageLoop False 0 c = messageLoop True OpcodeBinary c3"
    using c1(1) c3(1) h by (subst messageLoop.simps) (simp add: OpcodeBinary_def OpcodeContinuation_def)
  moreover have e: "erase c3 = specBegin h (erase c)" using c3(3) c2(3) c1(4) by simp
  have "\<not> c_msgIsText c3" "c_readLimit c3 = c_readLimit c" "c_client c3 = c_client c" "c_compression c3 = c_compression c"
    using arg_cong [OF e, of c_msgIsText] arg_cong [OF e, of c_readLimit] arg_cong [OF e, of c_client]
      arg_cong [OF e, of c_compression] h by (simp_all add: specBegin_def opcode_defs)
  ultimately show ?thesis using c3 c2 c1 h by (intro exI [of _ c3]) simp
qed

text \<open>C4: The test of the read limit can be made to wrap around, and then the reader panics. For every read
  limit and either role: when a peer opens a message with a non-empty fragment and claims a
  continuation frame of \<open>2 ^ 63 - 1\<close> bytes, the sum of the two lengths is negative as an \<^verbatim>\<open>int64\<close>, the
  message passes as small enough, and growing the message buffer by the claimed length panics. No byte of
  the continuation's payload has to be sent.\<close>

theorem oversized_continuation_panics:
  assumes "listening c" "pending c = encFrame key OpcodeBinary False 0 p @ AppendHeader [] h @ rest"
    "(key \<noteq> None) = (\<not> c_client c)" "p \<noteq> []" "int (length p) \<le> c_readLimit c" "int (length p) < maxAlloc"
    "h = \<lparr>h_Fin = True, h_Rsv = 0, h_Opcode = OpcodeContinuation, h_Masked = (\<not> c_client c),
       h_MaskKey = (if c_client c then 0 else k), h_Length = 2 ^ 63 - 1\<rparr>"
  shows "\<exists>c'. ReadMessage c = (Inl GoPanic, c')"
proof -
  define d where "d = c\<lparr>c_mode := connModeMessage, c_msgBuf := [], c_utf8v := Reset (c_utf8v c)\<rparr>"
  have d: "readable d" "pending d = pending c" "c_client d = c_client c" "c_readLimit d = c_readLimit c"
    using assms(1) by (simp_all add: d_def readable_def pending_def window_def listening_def connModeFrame_def connModeMessage_def)
  have "selectMode connModeMessage c = (None, c\<lparr>c_mode := connModeMessage\<rparr>)"
    using assms(1) by (auto simp: selectMode_def listening_def connModeMessage_def)
  then have loop: "ReadMessage c = messageLoop False 0 d" using assms(1)
    by (auto simp: ReadMessage_def d_def listening_def readable_def discardStreamRemainder_def readMessageBody_def)
  obtain c1 where c1: "messageLoop False 0 d = messageLoop True OpcodeBinary c1" "readable c1"
    "pending c1 = AppendHeader [] h @ rest" "c_msgBuf c1 = p" "v_state (c_utf8v c1) = accept" "\<not> c_msgIsText c1"
    "c_readLimit c1 = c_readLimit c" "c_client c1 = c_client c"
    using messageLoop_fragment [OF d(1), of key p "AppendHeader [] h @ rest"] assms(2-6) d by (auto simp: d_def Reset_def)
  have wf: "wfHeader h"
    using assms(7) by (simp add: wfHeader_def reservedOpcode_def opcode_defs IsControl_def word_le_nat_alt)
  have "decodeFor (c_client c1) (c_compression c1) (pending c1) = Inr (h, length (AppendHeader [] h))"
    using decodeFor_AppendHeader [OF wf, where client = "c_client c1" and rest = rest] c1(3,8) assms(7) by (simp add: rsvAllowed_def)
  with readHeader_refines [OF c1(2) refl refl refl] obtain c2 where c2: "readHeader c1 = (Inr h, c2)" "readable c2"
    "erase c2 = erase c1" "c_utf8v c2 = c_utf8v c1" "c_msgBuf c2 = p" using c1(4) by auto
  have same: "c_readLimit c2 = c_readLimit c" "\<not> c_msgIsText c2"
    using erase_eq_fields [OF c2(3)] c1(6,7) by simp_all
  have "\<exists>c'. readFramePayload h c2 = (Some GoPanic, c')"
    by (rule readFramePayload_overflow) (use c2 same assms c1(5) in \<open>simp_all\<close>)
  moreover have "\<not> IsControl (h_Opcode h)" "\<not> isOpening h" using assms(7) by (simp_all add: IsControl_def isOpening_def opcode_defs)
  ultimately show ?thesis using c2(1) by (auto simp: loop c1(1) messageLoop.simps [of True OpcodeBinary c1])
qed

text \<open>A receiver of either role with any read limit a program may configure.\<close>

lemma demo_receiver:
  assumes "bs \<noteq> []" "0 < limit"
  shows "\<exists>r :: bytes Conn. newConn (demoTransport\<lparr>t_reads := [(bs, None)]\<rparr>) True client storeConfig (\<lambda>_. 0) [WithReadLimit limit] = Inr r \<and>
    listening r \<and> c_client r = client \<and> pending r = bs \<and> c_readLimit r = limit"
proof -
  let ?t = "demoTransport\<lparr>t_reads := [(bs, None)]\<rparr>"
  obtain r where r: "newConn ?t True client storeConfig (\<lambda>_. 0) [WithReadLimit limit] = Inr r"
    using assms(2) by (auto simp: newConn_def defaultConfig_def Let_def case_prod_beta)
  have "steady ?t" using assms by (simp add: steady_def demoTransport_def)
  from newConn_readable [OF r this] have "listening r" "pending r = bs"
    by (simp_all add: listening_def defaultConfig_def defaultReadBufferSize_def pool_consts incoming_def)
  moreover have "c_client r = client" "c_readLimit r = limit"
    using r assms(2) by (auto simp: newConn_def defaultConfig_def Let_def split: prod.splits if_splits)
  ultimately show ?thesis using r by blast
qed

text \<open>A server with a read limit of 1024 bytes and a client that sends 21 bytes.\<close>

theorem oversized_continuation_panics_witness:
  "\<exists>(r :: bytes Conn) r' bs. newConn (demoTransport\<lparr>t_reads := [(bs, None)]\<rparr>) True False storeConfig (\<lambda>_. 0) [WithReadLimit 1024] = Inr r \<and>
     length bs = 21 \<and> ReadMessage r = (Inl GoPanic, r')"
proof -
  define h where "h = \<lparr>h_Fin = True, h_Rsv = 0, h_Opcode = OpcodeContinuation, h_Masked = True, h_MaskKey = 0, h_Length = 2 ^ 63 - 1\<rparr>"
  define bs where "bs = encFrame (Some 0) OpcodeBinary False 0 [0x61] @ AppendHeader [] h"
  have len: "length bs = 21"
    by (simp add: bs_def encFrame_parts frameHeader_def h_def AppendHeader_def)
  then have "bs \<noteq> []" by auto
  then obtain r :: "bytes Conn" where r: "newConn (demoTransport\<lparr>t_reads := [(bs, None)]\<rparr>) True False storeConfig (\<lambda>_. 0) [WithReadLimit 1024] = Inr r"
    "listening r" "\<not> c_client r" "pending r = bs" "c_readLimit r = 1024"
    using demo_receiver [of bs 1024 False] by auto
  then obtain r' where "ReadMessage r = (Inl GoPanic, r')"
    using oversized_continuation_panics [of r "Some 0" "[0x61]" h "[]" 0] by (auto simp: bs_def h_def maxAlloc_def)
  then show ?thesis using r(1) len by blast
qed

section \<open>What a returned message satisfies\<close>

text \<open>A message as a program may rely on it.\<close>

definition wellTyped :: "'w Conn \<Rightarrow> Opcode \<times> bytes \<Rightarrow> bool" where
  "wellTyped c m \<longleftrightarrow> IsData (fst m) \<and> int (length (snd m)) \<le> c_readLimit c \<and>
     (fst m = OpcodeText \<and> \<not> c_skipUTF8 c \<longrightarrow> Valid simdBulk_generic (snd m))"

text \<open>Reading changes nothing a message depends on.\<close>

definition steadyConn :: "'w Conn \<Rightarrow> 'w Conn \<Rightarrow> bool" where
  "steadyConn a b \<longleftrightarrow> c_readLimit b = c_readLimit a \<and> c_skipUTF8 b = c_skipUTF8 a \<and> c_tornDown b = c_tornDown a \<and>
     c_mode b = c_mode a \<and> c_msgReader b = c_msgReader a"

lemma steadyConn_refl [simp]: "steadyConn a a"
  by (simp add: steadyConn_def)

lemma steadyConn_trans: "steadyConn a b \<Longrightarrow> steadyConn b c \<Longrightarrow> steadyConn a c"
  by (simp add: steadyConn_def)

lemma steadyConn_wrote: "wrote a b \<Longrightarrow> steadyConn a b"
  by (auto simp: wrote_def steadyConn_def)

lemma steadyConn_begin: "steadyConn a (specBegin h a)"
  by (simp add: specBegin_def steadyConn_def)

lemma decompressMessage_length:
  assumes "decompressMessage growCap cfg dso limit cp compressed = (Inr plain, ds)" "0 \<le> limit" "limit < 2 ^ 63 - 1"
  shows "int (length plain) \<le> limit"
proof -
  obtain script where s: "be_OpenReader (cfg_backend cfg) (cfg_windowBits cfg) (compressed @ deflateReadTail)
      (case Option.bind dso ds_incomingDict of None \<Rightarrow> [] | Some d \<Rightarrow> d) = Inr script"
    using assms(1) by (cases dso) (auto simp: decompressMessage_def Let_def split: sum.splits)
  obtain out e where o: "scriptOut script = (out, e)" by fastforce
  show ?thesis using decompressMessage_result [OF assms(2,3) s o, of growCap cp] assms(1) by (auto split: if_splits)
qed

lemma finishCompressedMessage_typed:
  assumes "finishCompressedMessage a = (Inr p, b)" "0 \<le> c_readLimit a" "c_readLimit a < 2 ^ 63 - 1"
  shows "int (length p) \<le> c_readLimit a" "c_msgIsText a \<and> \<not> c_skipUTF8 a \<longrightarrow> Valid simdBulk_generic p" "steadyConn a b"
proof -
  obtain r ds where d: "decompressMessage exactGrow (c_active a) (c_deflate a) (c_readLimit a) 0 (c_msgBuf a) = (r, ds)" by fastforce
  then have f: "(case r of Inl DecompressPanic \<Rightarrow> (Inl GoPanic, a\<lparr>c_deflate := ds\<rparr>)
      | Inl DecompressTooLarge \<Rightarrow> failWith (failClose CloseMessageTooBig (B ''decompressed message exceeds read limit'') (a\<lparr>c_deflate := ds\<rparr>))
      | Inl _ \<Rightarrow> failWith (failClose CloseProtocolError (B ''invalid compressed message payload'') (a\<lparr>c_deflate := ds\<rparr>))
      | Inr decoded \<Rightarrow>
          if c_msgIsText a \<and> \<not> c_skipUTF8 a \<and> \<not> Valid simdBulk_generic decoded
          then failWith (failClose CloseInvalidFramePayloadData (B ''invalid UTF-8 in text message'') (a\<lparr>c_deflate := ds\<rparr>))
          else (Inr decoded, a\<lparr>c_deflate := ds\<rparr>)) = (Inr p, b)"
    using assms(1) by (simp add: finishCompressedMessage_def Let_def cong: sum.case_cong decompressErr.case_cong)
  then have "r = Inr p" by (cases r) (auto simp: failWith_def split: decompressErr.splits if_splits)
  with f have "r = Inr p" "b = a\<lparr>c_deflate := ds\<rparr>" "c_msgIsText a \<and> \<not> c_skipUTF8 a \<longrightarrow> Valid simdBulk_generic p"
    by (auto simp: failWith_def split: if_splits)
  then show "int (length p) \<le> c_readLimit a" "c_msgIsText a \<and> \<not> c_skipUTF8 a \<longrightarrow> Valid simdBulk_generic p" "steadyConn a b"
    using decompressMessage_length [of exactGrow "c_active a" "c_deflate a" "c_readLimit a" 0 "c_msgBuf a" p ds] d assms(2,3)
    by (auto simp: steadyConn_def)
qed

text \<open>The parser hands out well-typed messages. \<open>buf\<close> and \<open>st\<close> are what it has of the message so far.\<close>

definition progress :: "'w Conn \<Rightarrow> bytes \<Rightarrow> dfaState \<Rightarrow> bool" where
  "progress a buf st \<longleftrightarrow> int (length buf) \<le> c_readLimit a \<and>
     (c_msgIsText a \<and> \<not> c_skipUTF8 a \<and> \<not> c_msgCompressed a \<longrightarrow> st = run accept buf)"

lemma specData_typed:
  assumes "specData h op buf st ps a = x" "progress a buf st" "0 \<le> c_readLimit a" "c_readLimit a < 2 ^ 63 - 1"
    "0 \<le> h_Length h" "IsData op" "c_msgIsText a = (op = OpcodeText)"
  shows "case x of Inl (Inr m, b, ps) \<Rightarrow> wellTyped a m \<and> steadyConn a b
    | Inl _ \<Rightarrow> True
    | Inr (buf, st) \<Rightarrow> progress a buf st"
proof -
  define n where "n = nat (h_Length h)"
  define plain where "plain = unmask (h_Masked h) (h_MaskKey h) (take n ps)"
  define validate where "validate = (c_msgIsText a \<and> \<not> c_skipUTF8 a \<and> \<not> c_msgCompressed a)"
  note sp = assms(1) [unfolded specData_def Let_def, folded n_def, folded plain_def validate_def]
  have len: "int (length plain) \<le> h_Length h" using assms(5) by (simp add: plain_def n_def)
  have pr: "validate \<Longrightarrow> runIf validate st plain = run accept (buf @ plain)"
    using assms(2) by (simp add: progress_def validate_def runIf_def run_append)
  have fin: "wellTyped a (op, p) \<and> steadyConn a (erase b)"
    if "finishCompressedMessage (a\<lparr>c_msgBuf := buf @ plain\<rparr>) = (Inr p, b)" for p b
    using finishCompressedMessage_typed [OF that] assms(3,4,6,7) by (auto simp: wellTyped_def steadyConn_def erase_def)
  show ?thesis using sp len pr assms(6,7) fin
    by (auto simp: progress_def wellTyped_def validate_def generic.Valid_run split: if_splits sum.splits prod.splits)
qed

lemma wfHeader_opcode:
  assumes "wfHeader h" "\<not> IsControl (h_Opcode h)"
  shows "isOpening h \<or> h_Opcode h = OpcodeContinuation"
proof -
  obtain n where n: "h_Opcode h = word_of_nat n" "n < 256" by (metis unat_byte_less of_nat_unat ucast_id)
  have "h_Opcode h \<le> 15" using assms(1) by (metis wfHeader_def word_and_le1)
  then have "n \<le> 15" using n by (simp add: word_le_nat_alt unat_of_nat)
  then have "n \<in> set [0..<16]" by simp
  then show ?thesis using assms n(1)
    by (auto simp: upt_rec [of _ 16] wfHeader_def reservedOpcode_def isOpening_def opcode_defs IsControl_def)
qed

lemma specLoop_typed:
  assumes "specLoop inMessage op buf st ps a = (Inr m, b, rest)" "progress a buf st"
    "0 \<le> c_readLimit a" "c_readLimit a < 2 ^ 63 - 1"
    "if inMessage then IsData op \<and> c_msgIsText a = (op = OpcodeText) else buf = [] \<and> st = accept"
  shows "wellTyped a m \<and> steadyConn a b"
  using assms
proof (induction "length ps" arbitrary: inMessage op buf st ps a rule: less_induct)
  case less
  note spec = less.prems(1) [unfolded specLoop.simps [of inMessage op buf st ps a]]
  obtain h k where hk: "decodeFor (c_client a) (c_compression a) ps = Inr (h, k)"
    using spec by (cases "decodeFor (c_client a) (c_compression a) ps") (auto simp: Let_def)
  note wf = decodeFor_consumed [OF hk]
  have l: "0 \<le> h_Length h" using wf by (simp add: wfHeader_def)
  define qs where "qs = drop k ps"
  define n where "n = nat (h_Length h)"
  have shorter: "length (drop n qs) < length ps" using wf by (auto simp: qs_def)
  note spec = spec [unfolded hk sum.case prod.case Let_def, folded qs_def, folded n_def]
  show ?case
  proof (cases "IsControl (h_Opcode h)")
    case True
    obtain x c where c: "dispatchControl (h_Opcode h) x a = (None, c)"
      "specLoop inMessage op buf st (drop n qs) c = (Inr m, b, rest)"
      using spec True by (auto split: if_splits prod.splits option.splits)
    have w: "wrote a c" by (rule dispatchControl_wrote [OF c(1)])
    then have pc: "progress c buf st" "c_readLimit c = c_readLimit a" "c_msgIsText c = c_msgIsText a" "c_skipUTF8 c = c_skipUTF8 a"
      using less.prems(2) by (auto simp: wrote_def progress_def)
    have "wellTyped c m \<and> steadyConn c b"
      by (rule less.hyps [OF shorter c(2) pc(1)]) (use pc less.prems in simp_all)
    then show ?thesis using steadyConn_trans [OF steadyConn_wrote [OF w]] pc by (simp add: wellTyped_def)
  next
    case False
    define op' where "op' = (if isOpening h then h_Opcode h else op)"
    define a' where "a' = specBegin h a"
    have sc: "steadyConn a a'" by (simp add: a'_def steadyConn_begin)
    then have lim: "c_readLimit a' = c_readLimit a" "c_skipUTF8 a' = c_skipUTF8 a" by (simp_all add: steadyConn_def)
    have sp: "(case specData h op' buf st qs a' of Inl r \<Rightarrow> r
        | Inr (buf, st) \<Rightarrow> specLoop True op' buf st (drop n qs) a') = (Inr m, b, rest)"
      and go: "\<not> (isOpening h \<and> inMessage)" "\<not> (h_Opcode h = OpcodeContinuation \<and> \<not> inMessage)"
      using spec [unfolded if_not_P [OF False], folded op'_def a'_def] by (auto split: if_splits)
    have op: "IsData op'" "c_msgIsText a' = (op' = OpcodeText)" and pr: "progress a' buf st"
      using go wfHeader_opcode [OF _ False] wf less.prems(2,5)
      by (auto simp: op'_def a'_def specBegin_def isOpening_def IsData_def progress_def split: if_splits)
    note sd = specData_typed [OF refl pr _ _ l op, unfolded lim, OF less.prems(3,4), of qs]
    show ?thesis
    proof (cases "specData h op' buf st qs a'")
      case (Inl r)
      then show ?thesis using sd sp steadyConn_trans [OF sc] lim by (auto simp: wellTyped_def)
    next
      case (Inr bs)
      then obtain buf' st' where bs: "bs = (buf', st')" by fastforce
      have "wellTyped a' m \<and> steadyConn a' b"
        by (rule less.hyps [OF shorter, of True op' buf' st' a']) (use sd sp Inr bs op lim less.prems in auto)
      then show ?thesis using steadyConn_trans [OF sc] lim by (simp add: wellTyped_def)
    qed
  qed
qed

text \<open>C3: Every message is well-typed. Whatever bytes the peer sends and however they arrive, when
  \<^verbatim>\<open>ReadMessage\<close> returns a message its opcode is Text or Binary, its payload is no longer than the read
  limit (after decompression where it was compressed), a Text payload is valid UTF-8 unless the
  connection skips the check, and the connection is ready to read the next message under the same limit.\<close>

theorem messages_well_typed:
  assumes "listening c" "0 \<le> c_readLimit c" "c_readLimit c < maxAlloc" "ReadMessage c = (Inr m, c')"
  shows "(fst m = OpcodeText \<or> fst m = OpcodeBinary) \<and> int (length (snd m)) \<le> c_readLimit c \<and>
    (fst m = OpcodeText \<and> \<not> c_skipUTF8 c \<longrightarrow> Valid simdBulk_generic (snd m)) \<and>
    listening c' \<and> c_readLimit c' = c_readLimit c \<and> c_skipUTF8 c' = c_skipUTF8 c"
proof -
  define a where "a = (erase c)\<lparr>c_mode := connModeMessage\<rparr>"
  obtain res b rest where s: "specMessage (pending c) (erase c) = (res, b, rest)" by (metis prod_cases3)
  have c: "readable c" "c_msgReader c = None" "c_mode c = 0 \<or> c_mode c = connModeMessage" using assms(1) by (auto simp: listening_def)
  have "outcome (c_readLimit c) (ReadMessage c) res b rest" by (rule ReadMessage_outcome [OF c s])
  then have r: "res = Inr m" "agrees c' b rest" using assms(3,4) by (auto simp: outcome_def)
  have lim: "c_readLimit a = c_readLimit c" "c_skipUTF8 a = c_skipUTF8 c" by (simp_all add: a_def)
  have sp: "specLoop False 0 [] accept (pending c) a = (Inr m, b, rest)" using s r(1) by (simp add: specMessage_def a_def)
  have pr: "progress a [] accept" using assms(2) lim by (simp add: progress_def)
  have lim': "0 \<le> c_readLimit a" "c_readLimit a < 2 ^ 63 - 1" using assms(2,3) lim by (simp_all add: maxAlloc_def)
  have "wellTyped a m \<and> steadyConn a b" by (rule specLoop_typed [OF sp pr lim']) simp
  then have w: "wellTyped a m" and st: "c_tornDown b = c_tornDown c" "c_mode b = connModeMessage" "c_msgReader b = c_msgReader c"
      "c_readLimit b = c_readLimit c" "c_skipUTF8 b = c_skipUTF8 c"
    by (simp_all add: steadyConn_def a_def) (simp_all add: erase_def)
  have e: "erase c' = b" using r(2) by (simp add: agrees_def)
  have "c_tornDown c' = c_tornDown b" "c_mode c' = c_mode b" "c_readLimit c' = c_readLimit b" "c_skipUTF8 c' = c_skipUTF8 b"
    "c_msgReader c' = c_msgReader b"
    using e by (simp_all flip: e) (simp add: erase_def)
  then show ?thesis using r(2) w c lim st by (auto simp: wellTyped_def IsData_def agrees_def listening_def readable_def)
qed

theorem messages_well_typed_witness:
  "\<exists>(c :: bytes Conn) c'. newConn demoTransport True True storeConfig (\<lambda>_. 0) [] = Inr c \<and>
     ReadMessage c = (Inr (OpcodeText, [0x68, 0x69]), c') \<and> Valid simdBulk_generic [0x68, 0x69] \<and> listening c'"
proof -
  obtain c :: "bytes Conn" where c: "newConn demoTransport True True storeConfig (\<lambda>_. 0) [] = Inr c"
    using demo_newConn by blast
  note r = demo_readable [OF c]
  obtain c' where m: "ReadMessage c = (Inr (OpcodeText, [0x68, 0x69]), c')"
    using ReadMessage_refines [OF r(1,3)] demo_parse [of "erase c"] r by auto
  then show ?thesis using messages_well_typed [of c, OF _ _ _ m] r c
    by (simp add: listening_def defaultReadLimit_def maxAlloc_def)
qed

end
