(* ===== verification/Closing.thy ===== *)
theory Closing
  imports Session
begin

text \<open>
  The closing handshake between two connections: a Close frame is answered by one, and both transports are
  closed once the two have been read.
\<close>

section \<open>A Close frame on the wire\<close>

definition closeFrame :: "32 word option \<Rightarrow> CloseCode \<Rightarrow> bytes \<Rightarrow> bytes" where
  "closeFrame key code reason = encFrame key OpcodeClose True 0 (AppendCloseBody [] code reason)"

text \<open>A code and a reason a program may close with.\<close>

definition closable :: "CloseCode \<Rightarrow> bytes \<Rightarrow> bool" where
  "closable code reason \<longleftrightarrow> ValidCloseCode code \<and> Valid simdBulk_generic reason \<and> length reason \<le> 123"

lemma closable_iff: "closable code reason \<longleftrightarrow> validateCloseArgs code reason = None"
  by (simp add: closable_def validateCloseArgs_def)

lemma closable_code: "closable code reason \<Longrightarrow> code \<noteq> 0 \<and> code \<noteq> CloseNoStatusReceived \<and> closable code []"
  by (auto simp: closable_def ValidCloseCode_def CloseNoStatusReceived_def generic.Valid_run split: if_splits)

lemma closable_body:
  assumes "closable code reason"
  shows "validateCloseBody (AppendCloseBody [] code reason) check = Inr (code, reason)" "length (AppendCloseBody [] code reason) \<le> 125"
proof -
  have "AppendCloseBody [] code reason \<noteq> []" by (simp add: AppendCloseBody_def flip: length_0_conv)
  then show "validateCloseBody (AppendCloseBody [] code reason) check = Inr (code, reason)"
    using assms by (simp add: validateCloseBody_def ParseCloseBody_AppendCloseBody closable_def)
  show "length (AppendCloseBody [] code reason) \<le> 125" using assms by (simp add: closable_def AppendCloseBody_def)
qed

lemma specLoop_close:
  assumes "closable code reason" "(key \<noteq> None) = (\<not> c_client a)"
  shows "specLoop inMessage op buf st (closeFrame key code reason @ rest) a =
    (Inl (CloseError code reason False),
     teardown ((snd (sendClose code [] (a\<lparr>c_closeRcvd := True\<rparr>)))\<lparr>c_readErr := Some (CloseError code reason False)\<rparr>), rest)"
proof -
  define body where "body = AppendCloseBody [] code reason"
  define h where "h = frameHeader key OpcodeClose True 0 body"
  note b = closable_body [OF assms(1), folded body_def]
  have wf: "wfHeader h"
    using b(2) by (simp add: h_def frameHeader_def wfHeader_def reservedOpcode_def opcode_defs IsControl_def word_le_nat_alt split: option.split)
  have dec: "decodeFor (c_client a) (c_compression a) (closeFrame key code reason @ rest) = Inr (h, length (AppendHeader [] h))"
    using decodeFor_AppendHeader [OF wf, where client = "c_client a" and rest = "framePayload key body @ rest"] assms(2)
    by (simp add: closeFrame_def body_def [symmetric] encFrame_parts h_def rsvAllowed_def) (simp add: frameHeader_def)
  have h: "IsControl (h_Opcode h)" "h_Opcode h = OpcodeClose" "nat (h_Length h) = length body"
    by (simp_all add: h_def frameHeader_def IsControl_def OpcodeClose_def)
  have un: "unmask (h_Masked h) (h_MaskKey h) (framePayload key body) = body" unfolding h_def by (rule unmask_framePayload)
  have "dispatchControl OpcodeClose body a = (Some (CloseError code reason False),
      teardown ((snd (sendClose code [] (a\<lparr>c_closeRcvd := True\<rparr>)))\<lparr>c_readErr := Some (CloseError code reason False)\<rparr>))"
    using closable_code [OF assms(1)] b(1)
    by (simp add: dispatchControl_def handleClose_def OpcodeClose_def OpcodePing_def OpcodePong_def Let_def case_prod_beta)
  moreover have "closeFrame key code reason = AppendHeader [] h @ framePayload key body"
    by (simp add: closeFrame_def encFrame_parts body_def [symmetric] h_def)
  ultimately show ?thesis using h un dec by (subst specLoop.simps) (simp add: Let_def)
qed

lemma ReadMessage_close:
  assumes "listening c" "pending c = closeFrame key code reason @ rest" "(key \<noteq> None) = (\<not> c_client c)" "closable code reason"
  defines "d \<equiv> (erase c)\<lparr>c_mode := connModeMessage, c_closeRcvd := True\<rparr>"
  shows "\<exists>c'. ReadMessage c = (Inl (CloseError code reason False), c') \<and> c_tornDown c' \<and>
    erase c' = teardown ((snd (sendClose code [] d))\<lparr>c_readErr := Some (CloseError code reason False)\<rparr>)"
proof -
  have "specMessage (pending c) (erase c) = (Inl (CloseError code reason False),
      teardown ((snd (sendClose code [] d))\<lparr>c_readErr := Some (CloseError code reason False)\<rparr>), rest)"
    using specLoop_close [OF assms(4), of key "(erase c)\<lparr>c_mode := connModeMessage\<rparr>" False 0 "[]" accept rest] assms(2,3)
    by (simp add: specMessage_def d_def)
  from ReadMessage_refines [OF _ _ _ this] assms(1) obtain c' where
    c': "ReadMessage c = (Inl (CloseError code reason False), c')"
      "agrees c' (teardown ((snd (sendClose code [] d))\<lparr>c_readErr := Some (CloseError code reason False)\<rparr>)) rest"
    by (auto simp: listening_def)
  then have e: "erase c' = teardown ((snd (sendClose code [] d))\<lparr>c_readErr := Some (CloseError code reason False)\<rparr>)"
    by (simp add: agrees_def)
  moreover have "c_tornDown c'" using arg_cong [OF e, of c_tornDown] by simp
  ultimately show ?thesis using c'(1) by blast
qed

section \<open>Both ends\<close>

text \<open>The transport was closed, once, after exactly \<open>bs\<close> had been sent over it.\<close>

definition closedAfter :: "bytes \<Rightarrow> 'w Conn \<Rightarrow> bool" where
  "closedAfter bs c \<longleftrightarrow> c_tornDown c \<and> t_closes (c_conn c) = 1 \<and> wire (c_conn c) = bs"

lemma closedAfter_teardown:
  assumes "erase c = teardown (d\<lparr>c_readErr := e\<rparr>)" "c_mode d = connModeMessage" "\<not> c_tornDown d" "t_closes (c_conn d) = 0"
  shows "closedAfter (wire (c_conn d)) c"
proof -
  have "c_conn (teardown (d\<lparr>c_readErr := e\<rparr>)) = tClose (c_conn d)"
    using assms(2,3) by (simp add: teardown_def Let_def connModeMessage_def connModeFrame_def)
  then have t: "c_conn (erase c) = tClose (c_conn d)" using assms(1) by simp
  have "t_closes (c_conn c) = Suc (t_closes (c_conn d))" "t_sent (c_conn c) = t_sent (c_conn d)"
    using arg_cong [OF t, of t_closes] arg_cong [OF t, of t_sent] by (simp_all add: erase_def tClose_def)
  then show ?thesis using assms(4) arg_cong [OF assms(1), of c_tornDown]
    by (simp add: closedAfter_def wire_def)
qed

text \<open>The answering side: it had not closed yet.\<close>

lemma ReadMessage_close_answered:
  assumes "listening c" "pending c = closeFrame key code reason @ rest" "(key \<noteq> None) = (\<not> c_client c)" "closable code reason"
    "sendable c"
  shows "\<exists>c'. ReadMessage c = (Inl (CloseError code reason False), c') \<and>
    closedAfter (outbox c @ closeFrame (nextKey c) code []) c'"
proof -
  define d where "d = (erase c)\<lparr>c_mode := connModeMessage, c_closeRcvd := True\<rparr>"
  obtain c' where c': "ReadMessage c = (Inl (CloseError code reason False), c')"
    "erase c' = teardown ((snd (sendClose code [] d))\<lparr>c_readErr := Some (CloseError code reason False)\<rparr>)"
    using ReadMessage_close [OF assms(1-4), folded d_def] by blast
  have d: "sendable d" "outbox d = outbox c" "nextKey d = nextKey c" "\<not> c_closeSent d"
    using assms(5) unfolding d_def sendable_def outbox_def nextKey_def writesOk_def wire_def erase_def by simp_all
  obtain x where x: "emitFrameLocked OpcodeClose True 0 (AppendCloseBody [] code []) d = (None, x)" "c_wbatch x = []"
    "committed (if c_client d then 1 else 0) (closeFrame (nextKey d) code []) d x"
    using emit_sendable [OF d(1), of OpcodeClose True 0 "AppendCloseBody [] code []"] by (auto simp: closeFrame_def simp del: if_split)
  then have s: "snd (sendClose code [] d) = x\<lparr>c_closeSent := True\<rparr>"
    using d(4) closable_code [OF assms(4)] by (simp add: sendClose_def)
  have w: "wrote d x" "sendable x" "wire (c_conn x) = outbox c @ closeFrame (nextKey c) code []"
    using x(2,3) d by (auto simp: committed_def outbox_def)
  have m: "c_mode (x\<lparr>c_closeSent := True\<rparr>) = connModeMessage"
    using wrote_fields(6) [OF w(1)] unfolding d_def by simp
  have "\<not> c_tornDown (x\<lparr>c_closeSent := True\<rparr>)" "t_closes (c_conn (x\<lparr>c_closeSent := True\<rparr>)) = 0"
    using w(2) unfolding sendable_def writesOk_def by simp_all
  from closedAfter_teardown [OF c'(2) [unfolded s] m this] show ?thesis using c'(1) w(3) by auto
qed

text \<open>The side that closed first.\<close>

lemma ReadMessage_close_echo:
  assumes "listening c" "pending c = closeFrame key code reason @ rest" "(key \<noteq> None) = (\<not> c_client c)" "closable code reason"
    "c_closeSent c"
  shows "\<exists>c'. ReadMessage c = (Inl (CloseError code reason False), c') \<and> closedAfter (wire (c_conn c)) c'"
proof -
  define d where "d = (erase c)\<lparr>c_mode := connModeMessage, c_closeRcvd := True\<rparr>"
  obtain c' where c': "ReadMessage c = (Inl (CloseError code reason False), c')"
    "erase c' = teardown ((snd (sendClose code [] d))\<lparr>c_readErr := Some (CloseError code reason False)\<rparr>)"
    using ReadMessage_close [OF assms(1-4), folded d_def] by blast
  have s: "snd (sendClose code [] d) = d" using assms(5) by (simp add: sendClose_def d_def erase_def)
  have "c_mode d = connModeMessage" "\<not> c_tornDown d" "t_closes (c_conn d) = 0" "wire (c_conn d) = wire (c_conn c)"
    using assms(1) by (simp_all add: d_def listening_def readable_def steady_def wire_def erase_def)
  with closedAfter_teardown [OF c'(2) [unfolded s] this(1-3)] show ?thesis using c'(1) by auto
qed

text \<open>Sending the Close.\<close>

lemma WriteClose_ready:
  assumes "ready c" "closable code reason"
  shows "\<exists>c'. WriteClose code reason c = (None, c') \<and> c_closeSent c' \<and> c_client c' = c_client c \<and>
    wire (c_conn c') = outbox c @ closeFrame (nextKey c) code reason \<and> (listening c \<longrightarrow> listening c' \<and> pending c' = pending c) \<and>
    (\<forall>op p. admits c' op p = admits c op p)"
proof -
  define d where "d = c\<lparr>c_mode := connModeMessage\<rparr>"
  have d: "sendable d" "outbox d = outbox c" "nextKey d = nextKey c" "\<not> c_closeSent d" "\<not> c_tornDown d"
    using assms(1) unfolding d_def ready_def sendable_def outbox_def nextKey_def by simp_all
  obtain x where x: "emitFrameLocked OpcodeClose True 0 (AppendCloseBody [] code reason) d = (None, x)" "c_wbatch x = []"
    "committed (if c_client d then 1 else 0) (closeFrame (nextKey d) code reason) d x"
    using emit_sendable [OF d(1), of OpcodeClose True 0 "AppendCloseBody [] code reason"] by (auto simp: closeFrame_def simp del: if_split)
  have "WriteClose code reason c = sendClose code reason d"
    using assms selectMode_ready [of c] d(5) by (simp add: WriteClose_def d_def closable_iff)
  then have wc: "WriteClose code reason c = (None, x\<lparr>c_closeSent := True\<rparr>)"
    using x(1) d(4) closable_code [OF assms(2)] by (simp add: sendClose_def)
  have w: "wrote d x" "wire (c_conn x) = outbox c @ closeFrame (nextKey c) code reason"
    using x(2,3) d by (auto simp: committed_def outbox_def)
  have "listening (x\<lparr>c_closeSent := True\<rparr>)" "pending x = pending c" if l: "listening c"
  proof -
    have "readable d" "pending d = pending c" "c_msgReader d = None" "c_mode d = connModeMessage"
      using l by (simp_all add: d_def listening_def readable_def pending_def window_def connModeMessage_def connModeFrame_def)
    moreover have "c_msgReader x = c_msgReader d" using w(1) by (auto simp: wrote_def)
    ultimately show "listening (x\<lparr>c_closeSent := True\<rparr>)" "pending x = pending c"
      using wrote_readable [OF w(1)] wrote_fields(6) [OF w(1)] by (simp_all add: listening_def readable_def)
  qed
  moreover have "c_client x = c_client c" "admits x op p = admits c op p" for op p
    using w(1) by (auto simp: wrote_def d_def admits_def)
  ultimately show ?thesis using wc w(2) by (auto simp: pending_def window_def admits_def)
qed

section \<open>Messages in flight\<close>

text \<open>Reading a message that needs no answer leaves the sending side alone.\<close>

definition sameOut :: "'w Conn \<Rightarrow> 'w Conn \<Rightarrow> bool" where
  "sameOut c d \<longleftrightarrow> sendable d = sendable c \<and> outbox d = outbox c \<and> nextKey d = nextKey c \<and> c_closeSent d = c_closeSent c \<and>
     wire (c_conn d) = wire (c_conn c) \<and> c_client d = c_client c \<and> c_msgWriter d = c_msgWriter c \<and>
     c_compression d = c_compression c \<and> (\<forall>op p. admits d op p = admits c op p)"

lemma sameOut_trans: "sameOut c d \<Longrightarrow> sameOut d e \<Longrightarrow> sameOut c e"
  by (simp add: sameOut_def)

lemma sameOut_erase:
  assumes "erase d = (erase c)\<lparr>c_mode := m, c_msgIsText := t, c_msgCompressed := z\<rparr>"
  shows "sameOut c d"
proof -
  have "(c_conn d)\<lparr>t_reads := []\<rparr> = (c_conn c)\<lparr>t_reads := []\<rparr>" using arg_cong [OF assms, of c_conn] by (simp add: erase_def)
  note t = arg_cong [OF this, of t_writes] arg_cong [OF this, of t_sent] arg_cong [OF this, of t_closes]
  have "c_wbatch d = c_wbatch c" "c_closeSent d = c_closeSent c" "c_client d = c_client c" "c_keys d = c_keys c"
    "c_keyPos d = c_keyPos c" "c_tornDown d = c_tornDown c" "c_readLimit d = c_readLimit c" "c_skipUTF8 d = c_skipUTF8 c"
    "c_msgWriter d = c_msgWriter c" "c_compression d = c_compression c"
    using arg_cong [OF assms, of c_msgWriter] arg_cong [OF assms, of c_compression] arg_cong [OF assms, of c_wbatch] arg_cong [OF assms, of c_closeSent] arg_cong [OF assms, of c_client]
      arg_cong [OF assms, of c_keys] arg_cong [OF assms, of c_keyPos] arg_cong [OF assms, of c_tornDown]
      arg_cong [OF assms, of c_readLimit] arg_cong [OF assms, of c_skipUTF8] unfolding erase_def by simp_all
  then show ?thesis using t unfolding sameOut_def sendable_def outbox_def nextKey_def wire_def writesOk_def admits_def by simp
qed

lemma readMessages_sameOut:
  assumes "listening c" "pending c = concat bss @ rest"
    "list_all2 (\<lambda>m. isEncoding (\<not> c_client c) (fst m) (snd m)) ms bss"
    "list_all (\<lambda>m. IsData (fst m) \<and> admits c (fst m) (snd m)) ms"
  shows "\<exists>d. readMessages (length ms) c = (Inr ms, d) \<and> listening d \<and> pending d = rest \<and> sameOut c d"
  using assms
proof (induction ms arbitrary: c bss)
  case Nil
  then show ?case by (auto simp: sameOut_def)
next
  case (Cons m ms)
  then obtain bs bss' where b: "bss = bs # bss'" "isEncoding (\<not> c_client c) (fst m) (snd m) bs"
    "list_all2 (\<lambda>m. isEncoding (\<not> c_client c) (fst m) (snd m)) ms bss'"
    by (auto simp: list_all2_Cons1)
  have m: "IsData (fst m)" "admits c (fst m) (snd m)" using Cons.prems(4) by simp_all
  have p: "pending c = bs @ concat bss' @ rest" using Cons.prems(2) b(1) by simp
  obtain d where d: "ReadMessage c = (Inr m, d)" "listening d" "pending d = concat bss' @ rest"
    using ReadMessage_encoding [OF Cons.prems(1) p b(2) m] by auto
  define a where "a = (erase c)\<lparr>c_mode := connModeMessage, c_msgIsText := (fst m = OpcodeText), c_msgCompressed := False\<rparr>"
  have "specMessage (pending c) (erase c) = (Inr m, a, concat bss' @ rest)"
    using specMessage_encoding [of "erase c" "fst m" "snd m" bs "concat bss' @ rest"] b(2) m p by (simp add: a_def admits_def)
  then have "agrees d a (concat bss' @ rest)"
    using ReadMessage_refines [of c "Inr m" a] d(1) Cons.prems(1) by (auto simp: listening_def)
  then have so: "sameOut c d" using sameOut_erase unfolding a_def agrees_def by blast
  then have "c_client d = c_client c" "\<And>op p. admits d op p = admits c op p" by (simp_all add: sameOut_def)
  then obtain e where "readMessages (length ms) d = (Inr ms, e)" "listening e" "pending e = rest" "sameOut d e"
    using Cons.IH [OF d(2,3)] b(3) Cons.prems(4) by auto
  then show ?case using d(1) sameOut_trans [OF so] by auto
qed

text \<open>The peer's bytes arrive, in pieces.\<close>

definition deliver :: "bytes list \<Rightarrow> 'w Conn \<Rightarrow> 'w Conn" where
  "deliver pieces c = c\<lparr>c_conn := (c_conn c)\<lparr>t_reads := t_reads (c_conn c) @ map (\<lambda>p. (p, None)) pieces\<rparr>\<rparr>"

lemma deliver_listening:
  assumes "listening c" "[] \<notin> set pieces"
  shows "listening (deliver pieces c)" "pending (deliver pieces c) = pending c @ concat pieces"
  using assms by (auto simp: deliver_def listening_def readable_def steady_def pending_def window_def incoming_def list_all_iff comp_def)

lemma deliver_sameOut: "sameOut c (deliver pieces c)"
  unfolding sameOut_def deliver_def sendable_def outbox_def nextKey_def wire_def writesOk_def admits_def by simp

text \<open>Everything a connection has sent or staged is the messages \<open>ms\<close>.\<close>

definition queued :: "(Opcode \<times> bytes) list \<Rightarrow> 'w Conn \<Rightarrow> bool" where
  "queued ms c \<longleftrightarrow> (\<exists>bss. outbox c = concat bss \<and> list_all2 (\<lambda>m. isEncoding (c_client c) (fst m) (snd m)) ms bss)"

definition receivable :: "'w Conn \<Rightarrow> (Opcode \<times> bytes) list \<Rightarrow> bool" where
  "receivable c ms \<longleftrightarrow> list_all (\<lambda>m. IsData (fst m) \<and> admits c (fst m) (snd m)) ms"

text \<open>C6: The closing handshake of two connections without compression completes on both sides and loses no message. Both
  connections are open, in message mode or in none yet, have sent no Close, negotiated no compression, have no
  streaming writer or reader open, no read error and nothing unread, and their transports accept every write and fail no
  read. Each has sent or staged messages, which the other's read limit admits, with text in UTF-8 where it is checked. One of
  them closes with \<^verbatim>\<open>WriteClose\<close> (not with \<^verbatim>\<open>Close\<close>, which itself drains and discards what still arrives),
  with a valid code and a reason in UTF-8 of at most 123 bytes. Then the Close is
  written; the peer, whatever pieces the bytes arrive in, reads every message, then the Close with its
  code and reason, answers it and closes its transport, once; the first side then reads every message of
  the peer, then the answer, and closes its own transport, once, with nothing sent after its Close.\<close>

theorem closing_handshake_completes:
  assumes "ready a" "listening a" "pending a = []" "ready b" "listening b" "pending b = []" "c_client b = (\<not> c_client a)"
    "closable code reason" "queued ms a" "receivable b ms" "queued ns b" "receivable a ns"
  shows "\<exists>a1. WriteClose code reason a = (None, a1) \<and>
    (\<forall>pieces. [] \<notin> set pieces \<and> concat pieces = wire (c_conn a1) \<longrightarrow>
      (\<exists>b1 b2. readMessages (length ms) (deliver pieces b) = (Inr ms, b1) \<and>
        ReadMessage b1 = (Inl (CloseError code reason False), b2) \<and> c_tornDown b2 \<and> t_closes (c_conn b2) = 1 \<and>
        (\<forall>pieces. [] \<notin> set pieces \<and> concat pieces = wire (c_conn b2) \<longrightarrow>
          (\<exists>a2 a3. readMessages (length ns) (deliver pieces a1) = (Inr ns, a2) \<and>
            ReadMessage a2 = (Inl (CloseError code [] False), a3) \<and> c_tornDown a3 \<and> t_closes (c_conn a3) = 1 \<and>
            wire (c_conn a3) = wire (c_conn a1)))))"
proof -
  obtain a1 where a1: "WriteClose code reason a = (None, a1)" "c_closeSent a1" "c_client a1 = c_client a"
    "wire (c_conn a1) = outbox a @ closeFrame (nextKey a) code reason" "listening a1" "pending a1 = []"
    "\<And>op p. admits a1 op p = admits a op p"
    using WriteClose_ready [OF assms(1,8)] assms(2,3) by auto
  have peer: "\<exists>b1 b2. readMessages (length ms) (deliver pieces b) = (Inr ms, b1) \<and>
      ReadMessage b1 = (Inl (CloseError code reason False), b2) \<and> closedAfter (outbox b @ closeFrame (nextKey b) code []) b2"
    if ch: "[] \<notin> set pieces" "concat pieces = wire (c_conn a1)" for pieces
  proof -
    obtain bss where q: "outbox a = concat bss" "list_all2 (\<lambda>m. isEncoding (c_client a) (fst m) (snd m)) ms bss"
      using assms(9) by (auto simp: queued_def)
    note so = deliver_sameOut [of b pieces]
    then have d: "c_client (deliver pieces b) = (\<not> c_client a)" "receivable (deliver pieces b) ms" "sendable (deliver pieces b)"
      using assms(4,7,10) by (simp_all add: sameOut_def receivable_def) (simp add: ready_def)
    have "pending (deliver pieces b) = concat bss @ closeFrame (nextKey a) code reason @ []"
      using deliver_listening(2) [OF assms(5) ch(1)] ch(2) a1(4) q(1) assms(6) by simp
    from readMessages_sameOut [OF deliver_listening(1) [OF assms(5) ch(1)] this] q(2) d(1,2)
    obtain b1 where b1: "readMessages (length ms) (deliver pieces b) = (Inr ms, b1)" "listening b1"
      "pending b1 = closeFrame (nextKey a) code reason @ []" "sameOut (deliver pieces b) b1"
      by (auto simp: receivable_def)
    have s: "sameOut b b1" by (rule sameOut_trans [OF so b1(4)])
    then have "(nextKey a \<noteq> None) = (\<not> c_client b1)" "sendable b1" "outbox b1 = outbox b" "nextKey b1 = nextKey b"
      using assms(4,7) nextKey_role [of a] by (simp_all add: sameOut_def ready_def)
    with ReadMessage_close_answered [OF b1(2,3) this(1) assms(8) this(2)] show ?thesis using b1(1) by auto
  qed
  have echo: "\<exists>a2 a3. readMessages (length ns) (deliver pieces a1) = (Inr ns, a2) \<and>
      ReadMessage a2 = (Inl (CloseError code [] False), a3) \<and> closedAfter (wire (c_conn a1)) a3"
    if ch: "[] \<notin> set pieces" "concat pieces = outbox b @ closeFrame (nextKey b) code []" for pieces
  proof -
    obtain bss where q: "outbox b = concat bss" "list_all2 (\<lambda>m. isEncoding (c_client b) (fst m) (snd m)) ns bss"
      using assms(11) by (auto simp: queued_def)
    note so = deliver_sameOut [of a1 pieces]
    then have d: "c_client (deliver pieces a1) = (\<not> c_client b)" "receivable (deliver pieces a1) ns"
      using assms(7,12) a1(3,7) by (simp_all add: sameOut_def receivable_def)
    have "pending (deliver pieces a1) = concat bss @ closeFrame (nextKey b) code [] @ []"
      using deliver_listening(2) [OF a1(5) ch(1)] ch(2) q(1) a1(6) by simp
    from readMessages_sameOut [OF deliver_listening(1) [OF a1(5) ch(1)] this] q(2) d
    obtain a2 where a2: "readMessages (length ns) (deliver pieces a1) = (Inr ns, a2)" "listening a2"
      "pending a2 = closeFrame (nextKey b) code [] @ []" "sameOut (deliver pieces a1) a2"
      by (auto simp: receivable_def)
    have s: "sameOut a1 a2" by (rule sameOut_trans [OF so a2(4)])
    then have r: "(nextKey b \<noteq> None) = (\<not> c_client a2)" "c_closeSent a2" "wire (c_conn a2) = wire (c_conn a1)"
      using a1(2,3) assms(7) nextKey_role [of b] by (simp_all add: sameOut_def)
    have "closable code []" using closable_code [OF assms(8)] by simp
    from ReadMessage_close_echo [OF a2(2,3) r(1) this r(2)] show ?thesis using a2(1) r(3) by auto
  qed
  show ?thesis
  proof (intro exI [of _ a1] conjI allI impI a1(1), goal_cases)
    case (1 pieces)
    then obtain b1 b2 where b: "readMessages (length ms) (deliver pieces b) = (Inr ms, b1)"
      "ReadMessage b1 = (Inl (CloseError code reason False), b2)" "closedAfter (outbox b @ closeFrame (nextKey b) code []) b2"
      using peer [of pieces] by blast
    show ?case using b echo by (intro exI [of _ b1] exI [of _ b2]) (auto simp: closedAfter_def)
  qed
qed

lemma listening_wrote:
  assumes "wrote (c\<lparr>c_mode := connModeMessage\<rparr>) c'" "listening c"
  shows "listening c'" "pending c' = pending c" "admits c' op p = admits c op p"
proof -
  have d: "readable (c\<lparr>c_mode := connModeMessage\<rparr>)" "pending (c\<lparr>c_mode := connModeMessage\<rparr>) = pending c"
    using assms(2) by (simp_all add: listening_def readable_def pending_def window_def connModeMessage_def connModeFrame_def)
  have "c_msgReader c' = c_msgReader c" "c_mode c' = connModeMessage" "admits c' op p = admits c op p"
    using assms(1) by (auto simp: wrote_def admits_def)
  then show "listening c'" "pending c' = pending c" "admits c' op p = admits c op p"
    using wrote_readable [OF assms(1) d(1)] assms(2) d(2) by (simp_all add: listening_def)
qed

definition quietTransport :: transport where
  "quietTransport = \<lparr>t_reads = [], t_end = EOF, t_writes = [], t_sent = [], t_closes = 0\<rparr>"

lemma quiet_conn:
  "\<exists>c :: bytes Conn. newConn quietTransport True client storeConfig (\<lambda>_. 7) [] = Inr c \<and> ready c \<and> listening c \<and>
     pending c = [] \<and> c_client c = client \<and> c_readLimit c = defaultReadLimit \<and> queued [] c"
proof -
  obtain c :: "bytes Conn" where c: "newConn quietTransport True client storeConfig (\<lambda>_. 7) [] = Inr c"
    by (auto simp: newConn_def defaultConfig_def Let_def case_prod_beta)
  have t: "steady quietTransport" "writesOk quietTransport" "wire quietTransport = []"
    by (simp_all add: steady_def writesOk_def wire_def quietTransport_def)
  have "ready c" "outbox c = []" "c_client c = client"
    using newConn_ready [OF c t(2)] t(3) by (simp_all add: defaultConfig_def)
  moreover have "listening c" "pending c = []"
    using newConn_readable [OF c t(1)]
    by (simp_all add: listening_def defaultConfig_def defaultReadBufferSize_def pool_consts incoming_def quietTransport_def)
  moreover have "c_readLimit c = defaultReadLimit"
    using c by (auto simp: newConn_def defaultConfig_def Let_def split: prod.splits)
  ultimately show ?thesis using c by (auto simp: queued_def)
qed

text \<open>A message sent joins those the peer has still to read.\<close>

lemma WriteMessage_queued:
  assumes "ready c" "listening c" "pending c = []" "queued ms c"
  shows "\<exists>c'. WriteMessage op p c = (None, c') \<and> ready c' \<and> listening c' \<and> pending c' = [] \<and> c_client c' = c_client c \<and>
    queued (ms @ [(op, p)]) c' \<and> (\<forall>op p. admits c' op p = admits c op p)"
proof -
  obtain c' where c': "WriteMessage op p c = (None, c')"
    "committed (if c_client c then 1 else 0) (encFrame (nextKey c) op True 0 p) (c\<lparr>c_mode := connModeMessage\<rparr>) c'"
    using WriteMessage_ready [OF assms(1)] by blast
  note r = committed_ready [OF c'(2) assms(1)]
  have w: "wrote (c\<lparr>c_mode := connModeMessage\<rparr>) c'" using c'(2) by (simp add: committed_def)
  obtain bss where "outbox c = concat bss" "list_all2 (\<lambda>m. isEncoding (c_client c) (fst m) (snd m)) ms bss"
    using assms(4) by (auto simp: queued_def)
  then have "queued (ms @ [(op, p)]) c'"
    using r(2,3) isEncoding_frame [OF nextKey_role, of c op p] unfolding queued_def
    by (intro exI [of _ "bss @ [encFrame (nextKey c) op True 0 p]"]) (simp add: list_all2_appendI)
  then show ?thesis using c'(1) r(1,3) listening_wrote [OF w assms(2)] assms(3) by auto
qed

text \<open>A connection that has sent one message, and nothing else.\<close>

lemma talking_conn:
  "\<exists>(c :: bytes Conn) c'. newConn quietTransport True client storeConfig (\<lambda>_. 7) [] = Inr c \<and> WriteMessage op p c = (None, c') \<and>
     ready c' \<and> listening c' \<and> pending c' = [] \<and> c_client c' = client \<and> queued [(op, p)] c' \<and>
     (\<forall>op p. int (length p) \<le> defaultReadLimit \<and> (op = OpcodeText \<longrightarrow> run accept p = accept) \<longrightarrow> admits c' op p)"
proof -
  obtain c :: "bytes Conn" where c: "newConn quietTransport True client storeConfig (\<lambda>_. 7) [] = Inr c" "ready c" "listening c"
    "pending c = []" "c_client c = client" "c_readLimit c = defaultReadLimit" "queued [] c"
    using quiet_conn by blast
  obtain c' where c': "WriteMessage op p c = (None, c')" "ready c'" "listening c'" "pending c' = []" "c_client c' = client"
    "queued [(op, p)] c'" "\<forall>op p. admits c' op p = admits c op p"
    using WriteMessage_queued [OF c(2,3,4,7), of op p] c(5) by auto
  have "admits c op p" if "int (length p) \<le> defaultReadLimit" "op = OpcodeText \<longrightarrow> run accept p = accept" for op p
    using that c(6) by (simp add: admits_def defaultReadLimit_def maxAlloc_def)
  then show ?thesis using c(1) c' by blast
qed

text \<open>
  A server has sent ''hi'', a client the bytes FF and FE, when the server closes; every byte arrives on its own.
\<close>

theorem closing_handshake_completes_witness:
  "\<exists>(a0 :: bytes Conn) a a1 (b0 :: bytes Conn) b b1 b2 a2 a3.
     newConn quietTransport True False storeConfig (\<lambda>_. 7) [] = Inr a0 \<and> newConn quietTransport True True storeConfig (\<lambda>_. 7) [] = Inr b0 \<and>
     WriteMessage OpcodeText (B ''hi'') a0 = (None, a) \<and> WriteMessage OpcodeBinary [0xff, 0xfe] b0 = (None, b) \<and>
     WriteClose 1000 (B ''bye'') a = (None, a1) \<and>
     readMessages 1 (deliver (map (\<lambda>x. [x]) (wire (c_conn a1))) b) = (Inr [(OpcodeText, B ''hi'')], b1) \<and>
     ReadMessage b1 = (Inl (CloseError 1000 (B ''bye'') False), b2) \<and>
     readMessages 1 (deliver (map (\<lambda>x. [x]) (wire (c_conn b2))) a1) = (Inr [(OpcodeBinary, [0xff, 0xfe])], a2) \<and>
     ReadMessage a2 = (Inl (CloseError 1000 [] False), a3) \<and> c_tornDown b2 \<and> c_tornDown a3"
proof -
  let ?m = "(OpcodeText, B ''hi'')" and ?n = "(OpcodeBinary, [0xff, 0xfe] :: bytes)"
  obtain a0 a :: "bytes Conn" where a: "newConn quietTransport True False storeConfig (\<lambda>_. 7) [] = Inr a0"
    "WriteMessage OpcodeText (B ''hi'') a0 = (None, a)" "ready a" "listening a" "pending a = []" "\<not> c_client a" "queued [?m] a"
    "admits a OpcodeBinary [0xff, 0xfe]"
    using talking_conn [of False OpcodeText "B ''hi''"] by (force simp: defaultReadLimit_def opcode_defs)
  obtain b0 b :: "bytes Conn" where b: "newConn quietTransport True True storeConfig (\<lambda>_. 7) [] = Inr b0"
    "WriteMessage OpcodeBinary [0xff, 0xfe] b0 = (None, b)" "ready b" "listening b" "pending b = []" "c_client b" "queued [?n] b"
    "admits b OpcodeText (B ''hi'')"
    using talking_conn [of True OpcodeBinary "[0xff, 0xfe]"] by (force simp: defaultReadLimit_def)
  have c: "closable 1000 (B ''bye'')" by (simp add: closable_def ValidCloseCode_def generic.Valid_run)
  have s: "[] \<notin> set (map (\<lambda>x. [x]) w)" "concat (map (\<lambda>x. [x]) w) = w" for w :: bytes by auto
  have rc: "receivable b [?m]" "receivable a [?n]" using a(8) b(8) by (simp_all add: receivable_def IsData_def opcode_defs)
  have role: "c_client b = (\<not> c_client a)" using a(6) b(6) by simp
  obtain a1 where a1: "WriteClose 1000 (B ''bye'') a = (None, a1)"
    and peer: "\<And>pieces. [] \<notin> set pieces \<and> concat pieces = wire (c_conn a1) \<longrightarrow>
      (\<exists>b1 b2. readMessages (length [?m]) (deliver pieces b) = (Inr [?m], b1) \<and>
        ReadMessage b1 = (Inl (CloseError 1000 (B ''bye'') False), b2) \<and> c_tornDown b2 \<and> t_closes (c_conn b2) = 1 \<and>
        (\<forall>pieces. [] \<notin> set pieces \<and> concat pieces = wire (c_conn b2) \<longrightarrow>
          (\<exists>a2 a3. readMessages (length [?n]) (deliver pieces a1) = (Inr [?n], a2) \<and>
            ReadMessage a2 = (Inl (CloseError 1000 [] False), a3) \<and> c_tornDown a3 \<and> t_closes (c_conn a3) = 1 \<and>
            wire (c_conn a3) = wire (c_conn a1))))"
    using closing_handshake_completes [OF a(3,4,5) b(3,4,5) role c a(7) rc(1) b(7) rc(2)] by blast
  obtain b1 b2 where b2: "readMessages 1 (deliver (map (\<lambda>x. [x]) (wire (c_conn a1))) b) = (Inr [?m], b1)"
    "ReadMessage b1 = (Inl (CloseError 1000 (B ''bye'') False), b2)" "c_tornDown b2"
    "\<And>pieces. [] \<notin> set pieces \<and> concat pieces = wire (c_conn b2) \<longrightarrow>
      (\<exists>a2 a3. readMessages (length [?n]) (deliver pieces a1) = (Inr [?n], a2) \<and>
        ReadMessage a2 = (Inl (CloseError 1000 [] False), a3) \<and> c_tornDown a3 \<and> t_closes (c_conn a3) = 1 \<and>
        wire (c_conn a3) = wire (c_conn a1))"
    using peer [THEN mp, OF conjI, OF s] by auto
  obtain a2 a3 where "readMessages 1 (deliver (map (\<lambda>x. [x]) (wire (c_conn b2))) a1) = (Inr [?n], a2)"
    "ReadMessage a2 = (Inl (CloseError 1000 [] False), a3)" "c_tornDown a3"
    using b2(4) [THEN mp, OF conjI, OF s] by auto
  then show ?thesis using a(1,2) b(1,2) a1 b2(1-3) by blast
qed

end
