(* ===== verification/Upgrade_Http.thy ===== *)
theory Upgrade_Http
  imports Handshake_Spec
begin

text \<open>
  The server side of the opening handshake inside a \<^verbatim>\<open>net/http\<close> handler, \<^verbatim>\<open>Upgrader.UpgradeHTTP\<close> of
  \<^verbatim>\<open>src/upgrader_http.go\<close>. What the code uses of \<^verbatim>\<open>net/http\<close> is modelled as documented: the canonical form of header
  names, \<^verbatim>\<open>Header.Get\<close>, \<^verbatim>\<open>Set\<close> and \<^verbatim>\<open>Del\<close>, \<^verbatim>\<open>http.Error\<close> and \<^verbatim>\<open>Hijack\<close>. Parameters are \<open>errText\<close>, the text of
  an I/O error, and \<open>equalFold\<close>, \<^verbatim>\<open>strings.EqualFold\<close> over all of Unicode.
\<close>

section \<open>Header maps\<close>

text \<open>\<^verbatim>\<open>textproto.CanonicalMIMEHeaderKey\<close>: a token is written with a capital first and after each hyphen.\<close>

definition upperByte :: "byte \<Rightarrow> byte" where
  "upperByte b = (if 97 \<le> b \<and> b \<le> 122 then b - 32 else b)"

primrec canonicalBytes :: "bool \<Rightarrow> bytes \<Rightarrow> bytes" where
  "canonicalBytes upper [] = []"
| "canonicalBytes upper (b # r) = (if upper then upperByte b else foldByte b) # canonicalBytes (b = 45) r"

definition CanonicalMIMEHeaderKey :: "bytes \<Rightarrow> bytes" where
  "CanonicalMIMEHeaderKey name = (if list_all isTchar name then canonicalBytes True name else name)"

definition headerGet :: "httpHeader \<Rightarrow> bytes \<Rightarrow> bytes" where
  "headerGet h name = (case headerValues h (CanonicalMIMEHeaderKey name) of [] \<Rightarrow> [] | v # _ \<Rightarrow> v)"

definition headerDel :: "httpHeader \<Rightarrow> bytes \<Rightarrow> httpHeader" where
  "headerDel h name = filter (\<lambda>f. fst f \<noteq> CanonicalMIMEHeaderKey name) h"

definition headerSet :: "httpHeader \<Rightarrow> bytes \<Rightarrow> bytes \<Rightarrow> httpHeader" where
  "headerSet h name v = headerDel h name @ [(CanonicalMIMEHeaderKey name, [v])]"

section \<open>Requests and responses\<close>

record httpRequest =
  q_Method :: bytes
  q_Header :: httpHeader
  q_Path :: bytes
  q_RawQuery :: bytes

text \<open>
  \<^verbatim>\<open>w_Answer\<close> is the status and body written, if any; \<^verbatim>\<open>w_Hijack\<close> what \<^verbatim>\<open>Hijack\<close> returns: an error, or the
  connection with the bytes its reader has buffered.
\<close>

record responseWriter =
  w_Header :: httpHeader
  w_Answer :: "(nat \<times> bytes) option"
  w_Hijack :: "ioErr + transport \<times> bytes"

text \<open>\<^verbatim>\<open>http.Error\<close>\<close>

definition httpError :: "bytes \<Rightarrow> nat \<Rightarrow> responseWriter \<Rightarrow> responseWriter" where
  "httpError msg code w =
     (let h = headerDel (w_Header w) (B ''Content-Length'');
          h = headerSet h (B ''Content-Type'') (B ''text/plain; charset=utf-8'');
          h = headerSet h (B ''X-Content-Type-Options'') (B ''nosniff'')
      in w\<lparr>w_Header := h, w_Answer := Some (code, msg @ [LF])\<rparr>)"

text \<open>
  The loop that drops what the validator refuses: an entry deleted before the iteration reaches it is
  not delivered.
\<close>

definition refusedHeader :: "bytes \<times> bytes list \<Rightarrow> bool" where
  "refusedHeader f \<longleftrightarrow> \<not> IsToken (fst f) \<or> reservedHeaderName (fst f) \<or> list_ex (\<lambda>v. \<not> validHeaderValue v) (snd f)"

definition dropRefused :: "(bytes \<Rightarrow> bytes \<Rightarrow> bool) \<Rightarrow> httpHeader \<Rightarrow> httpHeader" where
  "dropRefused equalFold pending =
     foldl (\<lambda>h f. if f \<in> set h \<and> refusedHeader f then filter (\<lambda>g. \<not> equalFold (fst g) (fst f)) h else h) pending pending"

section \<open>UpgradeHTTP\<close>

text \<open>
  The connection is closed when the response cannot be written in full. The result carries the connection
  in both outcomes after the hijack, so that what was sent on it can be stated.
\<close>

definition UpgradeHTTP :: "int \<Rightarrow> (ioErr \<Rightarrow> bytes) \<Rightarrow> (bytes \<Rightarrow> bytes \<Rightarrow> bool) \<Rightarrow> Upgrader \<Rightarrow> httpRequest \<Rightarrow> responseWriter \<Rightarrow>
    (handshakeErr + Handshake) \<times> responseWriter \<times> transport option" where
  "UpgradeHTTP currentBits errText equalFold u r w =
     (let get = headerGet (q_Header r);
          reject = (\<lambda>msg code err w. (Inl err, httpError msg code w, None)) in
      if \<not> validateClientWindowBits (u_ClientWindowBits u) then (Inl ErrInvalidWindowBits, w, None)
      else if q_Method r \<noteq> B ''GET'' then reject (B ''gows: method is not GET'') 400 ErrNotUpgrade w
      else if \<not> ContainsToken (get (B ''Upgrade'')) (B ''websocket'') then
        reject (B ''gows: Upgrade header does not contain \"websocket\"'') 400 ErrNotUpgrade w
      else if \<not> ContainsToken (get (B ''Connection'')) (B ''upgrade'') then
        reject (B ''gows: Connection header does not contain \"upgrade\"'') 400 ErrNotConnectionUpgrade w
      else if get (B ''Sec-WebSocket-Version'') \<noteq> B ''13'' then
        reject (B ''gows: Sec-WebSocket-Version is not 13'') 426 ErrUnsupportedVersion
          (w\<lparr>w_Header := headerSet (w_Header w) (B ''Sec-WebSocket-Version'') (B ''13'')\<rparr>)
      else if length (get (B ''Sec-WebSocket-Key'')) \<noteq> 24 then
        reject (B ''gows: missing or invalid Sec-WebSocket-Key'') 400 ErrMissingKey w
      else if (case u_OriginCheck u of None \<Rightarrow> False
          | Some check \<Rightarrow> \<not> check (let v = get (B ''Origin'') in if v \<noteq> [] then Some v else None))
      then reject (B ''gows: Origin rejected'') 403 ErrOriginRejected w
      else
      let key = get (B ''Sec-WebSocket-Key'');
          protocols = get (B ''Sec-WebSocket-Protocol'');
          selected = (if length (u_Subprotocols u) > 0 \<and> protocols \<noteq> []
            then negotiateSubprotocol (u_Subprotocols u) protocols else []);
          extensions = get (B ''Sec-WebSocket-Extensions'');
          negotiated = (if u_EnableCompression u \<and> extensions \<noteq> []
            then negotiateDeflateWithHint currentBits extensions (upgraderPolicy u) else None);
          responseHeaders = (if u_ForwardResponseHeaders u then w_Header w else []) in
      case validateExtraHeaders responseHeaders of
        Some err \<Rightarrow>
          reject (B ''gows: invalid pending response headers'') 500 err (w\<lparr>w_Header := dropRefused equalFold (w_Header w)\<rparr>)
      | None \<Rightarrow>
        (case w_Hijack w of
           Inl err \<Rightarrow> reject (B ''gows: hijack: '' @ errText err) 500 (HijackFailed err) w
         | Inr (conn, buffered) \<Rightarrow>
           let resp = appendSwitchingProtocolsResponse [] key selected (map_option fst negotiated);
               resp = (if responseHeaders \<noteq> []
                 then appendExtraHeaders (take (length resp - 2) resp) responseHeaders @ CRLF else resp) in
           case tWrite resp conn of
             ((written, werr), conn) \<Rightarrow>
               let werr = (if werr = None \<and> written \<noteq> length resp then Some ShortWrite else werr) in
               (case werr of
                  Some e \<Rightarrow> (Inl (HandshakeIO e), w, Some (tClose conn))
                | None \<Rightarrow>
                  let h = noHandshake\<lparr>hk_Path := q_Path r, hk_Query := q_RawQuery r, hk_Subprotocol := selected,
                        hk_Buffered := buffered, hk_Compressed := negotiated \<noteq> None\<rparr> in
                  (Inr (case negotiated of
                      None \<Rightarrow> h
                    | Some (deflateParams, hint) \<Rightarrow>
                        let cp = compressionParamsFromDeflate deflateParams in
                        h\<lparr>hk_CompressionParams :=
                          (if u_TrustClientWindowBitsHint u \<and> \<not> HasClientMaxWindowBits deflateParams
                           then cp\<lparr>cp_ClientMaxWindowBitsHint := hint\<rparr> else cp)\<rparr>), w, Some conn))))"

section \<open>The two ways to upgrade\<close>

text \<open>The values a request's fields give one header, in order, by the lower-case form of its name.\<close>

definition fieldValues :: "(bytes \<times> bytes) list \<Rightarrow> bytes \<Rightarrow> bytes list" where
  "fieldValues fs name = map (\<lambda>f. TrimOWS (snd f)) (filter (\<lambda>f. EqualFold (fst f) name) fs)"

definition handshakeNames :: "bytes list" where
  "handshakeNames = [B ''Upgrade'', B ''Connection'', B ''Sec-WebSocket-Version'', B ''Sec-WebSocket-Key'', B ''Origin'',
     B ''Sec-WebSocket-Protocol'', B ''Sec-WebSocket-Extensions'']"

text \<open>What \<^verbatim>\<open>net/http\<close> makes of the same fields: a map from canonical names to their values, in order.\<close>

definition parsedRequest :: "(bytes \<times> bytes) list \<Rightarrow> httpRequest \<Rightarrow> bool" where
  "parsedRequest fs r \<longleftrightarrow> q_Method r = B ''GET'' \<and> list_all (\<lambda>name.
     headerValues (q_Header r) (CanonicalMIMEHeaderKey name) = fieldValues fs (map foldByte name)) handshakeNames"

definition atMostOnce :: "(bytes \<times> bytes) list \<Rightarrow> bool" where
  "atMostOnce fs \<longleftrightarrow> list_all (\<lambda>name. length (fieldValues fs (map foldByte name)) \<le> 1) handshakeNames"

lemma classify_collect:
  fixes f :: wsHandshakeHeaders and fs :: "(bytes \<times> bytes) list"
  defines "g \<equiv> foldl (\<lambda>a h. classifyHeader a (fst h) (TrimOWS (snd h))) f fs"
  shows "hf_hostSeen g = (hf_hostSeen f \<or> fieldValues fs (B ''host'') \<noteq> [])"
    "hf_upgradeOK g = (hf_upgradeOK f \<or> list_ex (\<lambda>v. ContainsToken v (B ''websocket'')) (fieldValues fs (B ''upgrade'')))"
    "hf_connectionOK g = (hf_connectionOK f \<or> list_ex (\<lambda>v. ContainsToken v (B ''upgrade'')) (fieldValues fs (B ''connection'')))"
    "hf_versionOK g = (hf_versionOK f \<or> list_ex (\<lambda>v. v = B ''13'') (fieldValues fs (B ''sec-websocket-version'')))"
    "hf_key g = last (hf_key f # fieldValues fs (B ''sec-websocket-key''))"
    "hf_origin g = last (hf_origin f # map Some (fieldValues fs (B ''origin'')))"
    "hf_protocol g = last (hf_protocol f # map Some (fieldValues fs (B ''sec-websocket-protocol'')))"
    "hf_extensions g = last (hf_extensions f # map Some (fieldValues fs (B ''sec-websocket-extensions'')))"
  unfolding g_def
  by (induction fs arbitrary: f) (simp_all add: fieldValues_def classifyHeader_def EqualFold_map)

lemma foldByte_names:
  "map foldByte (B ''Upgrade'') = B ''upgrade''" "map foldByte (B ''Connection'') = B ''connection''"
  "map foldByte (B ''Sec-WebSocket-Version'') = B ''sec-websocket-version''"
  "map foldByte (B ''Sec-WebSocket-Key'') = B ''sec-websocket-key''" "map foldByte (B ''Origin'') = B ''origin''"
  "map foldByte (B ''Sec-WebSocket-Protocol'') = B ''sec-websocket-protocol''"
  "map foldByte (B ''Sec-WebSocket-Extensions'') = B ''sec-websocket-extensions''"
  by (simp_all add: foldByte_def word_le_def)

lemma single_value:
  assumes "parsedRequest fs r" "atMostOnce fs" "name \<in> set handshakeNames" "map foldByte name = low"
  obtains "fieldValues fs low = []" "headerGet (q_Header r) name = []"
  | v where "fieldValues fs low = [v]" "headerGet (q_Header r) name = v"
proof -
  have h: "headerValues (q_Header r) (CanonicalMIMEHeaderKey name) = fieldValues fs low" "length (fieldValues fs low) \<le> 1"
    using assms by (auto simp: parsedRequest_def atMostOnce_def list_all_iff)
  then show ?thesis using that by (cases "fieldValues fs low") (auto simp: headerGet_def)
qed

lemma empty_offers: "negotiateDeflateWithHint bits [] policy = None" "negotiateSubprotocol us [] = []"
proof -
  have "OfferNext (NewOfferScanner []) = (NewOfferScanner [], False)"
    by (subst OfferNext.simps) (simp add: NewOfferScanner_def)
  then show "negotiateDeflateWithHint bits [] policy = None"
    by (simp add: negotiateDeflateWithHint_def negotiateLoop.simps)
  show "negotiateSubprotocol us [] = []" by (induction us) (simp_all add: clientListed.simps)
qed

text \<open>What \<^verbatim>\<open>UpgradeHTTP\<close> reads from its map is what \<^verbatim>\<open>Upgrade\<close> scanned.\<close>

lemma same_reading:
  fixes fs :: "(bytes \<times> bytes) list"
  assumes "parsedRequest fs r" "atMostOnce fs" "fieldValues fs (B ''origin'') \<noteq> [[]]"
  defines "g \<equiv> foldl (\<lambda>a h. classifyHeader a (fst h) (TrimOWS (snd h))) noHandshakeHeaders fs"
  defines "get \<equiv> headerGet (q_Header r)"
  shows "hf_upgradeOK g = ContainsToken (get (B ''Upgrade'')) (B ''websocket'')"
    "hf_connectionOK g = ContainsToken (get (B ''Connection'')) (B ''upgrade'')"
    "hf_versionOK g = (get (B ''Sec-WebSocket-Version'') = B ''13'')"
    "hf_key g = get (B ''Sec-WebSocket-Key'')"
    "hf_origin g = (let v = get (B ''Origin'') in if v \<noteq> [] then Some v else None)"
    "(case hf_protocol g of Some p \<Rightarrow> if length us > 0 then negotiateSubprotocol us p else [] | None \<Rightarrow> []) =
      (if length us > 0 \<and> get (B ''Sec-WebSocket-Protocol'') \<noteq> []
       then negotiateSubprotocol us (get (B ''Sec-WebSocket-Protocol'')) else [])"
    "(case hf_extensions g of Some e \<Rightarrow> if on then negotiateDeflateWithHint bits e policy else None | None \<Rightarrow> None) =
      (if on \<and> get (B ''Sec-WebSocket-Extensions'') \<noteq> []
       then negotiateDeflateWithHint bits (get (B ''Sec-WebSocket-Extensions'')) policy else None)"
proof -
  note c = classify_collect [of noHandshakeHeaders fs, folded g_def]
  note s = single_value [OF assms(1,2), folded get_def]
  have none: "\<not> ContainsToken [] (B ''websocket'')" "\<not> ContainsToken [] (B ''upgrade'')" by code_simp+
  show "hf_upgradeOK g = ContainsToken (get (B ''Upgrade'')) (B ''websocket'')"
    by (rule s [OF _ foldByte_names(1)]) (use none in \<open>simp_all add: c handshakeNames_def noHandshakeHeaders_def del: B_Cons\<close>)
  show "hf_connectionOK g = ContainsToken (get (B ''Connection'')) (B ''upgrade'')"
    by (rule s [OF _ foldByte_names(2)]) (use none in \<open>simp_all add: c handshakeNames_def noHandshakeHeaders_def del: B_Cons\<close>)
  show "hf_versionOK g = (get (B ''Sec-WebSocket-Version'') = B ''13'')"
    by (rule s [OF _ foldByte_names(3)]) (simp_all add: c handshakeNames_def noHandshakeHeaders_def)
  show "hf_key g = get (B ''Sec-WebSocket-Key'')"
    by (rule s [OF _ foldByte_names(4)]) (simp_all add: c handshakeNames_def noHandshakeHeaders_def del: B_Cons)
  show "hf_origin g = (let v = get (B ''Origin'') in if v \<noteq> [] then Some v else None)"
    by (rule s [OF _ foldByte_names(5)]) (use assms(3) in \<open>auto simp: c handshakeNames_def noHandshakeHeaders_def simp del: B_Cons\<close>)
  show "(case hf_protocol g of Some p \<Rightarrow> if length us > 0 then negotiateSubprotocol us p else [] | None \<Rightarrow> []) =
      (if length us > 0 \<and> get (B ''Sec-WebSocket-Protocol'') \<noteq> []
       then negotiateSubprotocol us (get (B ''Sec-WebSocket-Protocol'')) else [])"
    by (rule s [OF _ foldByte_names(6)]) (auto simp: c handshakeNames_def noHandshakeHeaders_def empty_offers simp del: B_Cons)
  show "(case hf_extensions g of Some e \<Rightarrow> if on then negotiateDeflateWithHint bits e policy else None | None \<Rightarrow> None) =
      (if on \<and> get (B ''Sec-WebSocket-Extensions'') \<noteq> []
       then negotiateDeflateWithHint bits (get (B ''Sec-WebSocket-Extensions'')) policy else None)"
    by (rule s [OF _ foldByte_names(7)]) (auto simp: c handshakeNames_def noHandshakeHeaders_def empty_offers simp del: B_Cons)
qed

text \<open>When the request is acceptable, and what is then agreed.\<close>

definition acceptable :: "Upgrader \<Rightarrow> (bytes \<Rightarrow> bytes) \<Rightarrow> bool" where
  "acceptable u get \<longleftrightarrow> validateClientWindowBits (u_ClientWindowBits u) \<and>
     ContainsToken (get (B ''Upgrade'')) (B ''websocket'') \<and> ContainsToken (get (B ''Connection'')) (B ''upgrade'') \<and>
     get (B ''Sec-WebSocket-Version'') = B ''13'' \<and> length (get (B ''Sec-WebSocket-Key'')) = 24 \<and>
     (case u_OriginCheck u of None \<Rightarrow> True
      | Some check \<Rightarrow> check (let v = get (B ''Origin'') in if v \<noteq> [] then Some v else None))"

definition chosenProtocol :: "Upgrader \<Rightarrow> (bytes \<Rightarrow> bytes) \<Rightarrow> bytes" where
  "chosenProtocol u get = (if length (u_Subprotocols u) > 0 \<and> get (B ''Sec-WebSocket-Protocol'') \<noteq> []
     then negotiateSubprotocol (u_Subprotocols u) (get (B ''Sec-WebSocket-Protocol'')) else [])"

definition chosenCompression :: "int \<Rightarrow> Upgrader \<Rightarrow> (bytes \<Rightarrow> bytes) \<Rightarrow> (DeflateParams \<times> int) option" where
  "chosenCompression bits u get = (if u_EnableCompression u \<and> get (B ''Sec-WebSocket-Extensions'') \<noteq> []
     then negotiateDeflateWithHint bits (get (B ''Sec-WebSocket-Extensions'')) (upgraderPolicy u) else None)"

definition chosenParams :: "Upgrader \<Rightarrow> (DeflateParams \<times> int) option \<Rightarrow> CompressionParams" where
  "chosenParams u negotiated = (case negotiated of None \<Rightarrow> noCompressionParams
     | Some (params, hint) \<Rightarrow>
         (if u_TrustClientWindowBitsHint u \<and> \<not> HasClientMaxWindowBits params
          then (compressionParamsFromDeflate params)\<lparr>cp_ClientMaxWindowBitsHint := hint\<rparr>
          else compressionParamsFromDeflate params))"

definition chosenResponse :: "int \<Rightarrow> Upgrader \<Rightarrow> (bytes \<Rightarrow> bytes) \<Rightarrow> bytes" where
  "chosenResponse bits u get = appendSwitchingProtocolsResponse [] (get (B ''Sec-WebSocket-Key''))
     (chosenProtocol u get) (map_option fst (chosenCompression bits u get))"

lemma UpgradeHTTP_outcome:
  assumes "q_Method r = B ''GET''" "\<not> u_ForwardResponseHeaders u" "w_Hijack w = Inr (conn, buffered)" "writesOk conn"
  defines "get \<equiv> headerGet (q_Header r)"
  shows "\<not> acceptable u get \<Longrightarrow> \<exists>e w'. UpgradeHTTP bits errText equalFold u r w = (Inl e, w', None)"
    "acceptable u get \<Longrightarrow> \<exists>hs conn'. UpgradeHTTP bits errText equalFold u r w = (Inr hs, w, Some conn') \<and>
      wire conn' = wire conn @ chosenResponse bits u get \<and> hk_Subprotocol hs = chosenProtocol u get \<and>
      hk_Compressed hs = (chosenCompression bits u get \<noteq> None) \<and>
      hk_CompressionParams hs = chosenParams u (chosenCompression bits u get)"
proof -
  show "\<not> acceptable u get \<Longrightarrow> \<exists>e w'. UpgradeHTTP bits errText equalFold u r w = (Inl e, w', None)"
    using assms(1) unfolding acceptable_def get_def
    by (auto simp: UpgradeHTTP_def Let_def simp del: B_Cons split: option.splits)
  have v: "validateExtraHeaders [] = None" by (simp add: validateExtraHeaders_def defaultMaxHeaderBytes_def)
  assume a: "acceptable u get"
  note w = tWrite_ok [OF assms(4)]
  have sel: "(if u_Subprotocols u \<noteq> [] \<and> get (B ''Sec-WebSocket-Protocol'') \<noteq> []
      then negotiateSubprotocol (u_Subprotocols u) (get (B ''Sec-WebSocket-Protocol'')) else []) = chosenProtocol u get"
    by (simp add: chosenProtocol_def)
  have neg: "(if u_EnableCompression u \<and> get (B ''Sec-WebSocket-Extensions'') \<noteq> []
      then negotiateDeflateWithHint bits (get (B ''Sec-WebSocket-Extensions'')) (upgraderPolicy u) else None) = chosenCompression bits u get"
    by (simp add: chosenCompression_def)
  show "\<exists>hs conn'. UpgradeHTTP bits errText equalFold u r w = (Inr hs, w, Some conn') \<and>
      wire conn' = wire conn @ chosenResponse bits u get \<and> hk_Subprotocol hs = chosenProtocol u get \<and>
      hk_Compressed hs = (chosenCompression bits u get \<noteq> None) \<and>
      hk_CompressionParams hs = chosenParams u (chosenCompression bits u get)"
    using a assms(1-3) unfolding acceptable_def
    by (cases "chosenCompression bits u get" rule: agreed_cases; cases "u_OriginCheck u")
      (simp_all add: UpgradeHTTP_def Let_def v w chosenResponse_def wire_def chosenParams_def noHandshake_def
        get_def [symmetric] sel neg del: B_Cons)
qed

lemma Upgrade_outcome:
  fixes target :: bytes
  assumes "SP \<notin> set target" "CR \<notin> set target" "LF \<notin> set target" "list_all fieldOk fs"
    "parsedRequest fs r" "atMostOnce fs" "fieldValues fs (B ''origin'') \<noteq> [[]]" "fieldValues fs (B ''host'') \<noteq> []"
    "steady t" "writesOk t" "incoming t = message (B ''GET '' @ target @ B '' HTTP/1.1'') fs @ after"
    "int (length (message (B ''GET '' @ target @ B '' HTTP/1.1'') fs)) \<le> serverLimit u"
  defines "get \<equiv> headerGet (q_Header r)"
  shows "\<not> acceptable u get \<Longrightarrow> \<exists>e t'. Upgrade bits u t = (Inl e, t')"
    "acceptable u get \<Longrightarrow> \<exists>hs t'. Upgrade bits u t = (Inr hs, t') \<and> wire t' = wire t @ chosenResponse bits u get \<and>
      hk_Subprotocol hs = chosenProtocol u get \<and> hk_Compressed hs = (chosenCompression bits u get \<noteq> None) \<and>
      hk_CompressionParams hs = chosenParams u (chosenCompression bits u get)"
proof -
  define line where "line = B ''GET '' @ target @ B '' HTTP/1.1''"
  define g where "g = foldl (\<lambda>a h. classifyHeader a (fst h) (TrimOWS (snd h))) noHandshakeHeaders fs"
  define cp where "cp = length (poolStorage (min 4096 (serverLimit u)))"
  note line = requestLine_message [OF assms(1-3), folded line_def]
  obtain extra t1 where r: "readHeaderBlock (serverLimit u) cp [] t = ((None, message line fs @ extra), t1)"
    "blankLine (message line fs @ extra) = Some (length (message line fs) - 4)" "t_sent t1 = t_sent t"
    "t_writes t1 = t_writes t" "steady t1"
    using read_message_block [OF assms(9) assms(11) [folded line_def] line(2) assms(4) assms(12) [folded line_def]] by metis
  have long: "length (message line fs) - 4 + 4 = length (message line fs)" by (simp add: message_def line_def)
  have scan: "scanWSHandshakeHeaders (drop (Suc (Suc (length line))) (message line fs)) = (g, None)"
    by (simp only: add_2_eq_Suc' [symmetric] scan_message [OF assms(4)] g_def)
  have host: "hf_hostSeen g" using assms(8) classify_collect(1) [of noHandshakeHeaders fs] by (simp add: g_def)
  note same = same_reading [OF assms(5-7), folded g_def get_def]
  have w: "tWrite p t1 = ((length p, None), t1\<lparr>t_writes := tl (t_writes t1), t_sent := t_sent t1 @ [p]\<rparr>)" for p
    using assms(10) r(4,5) by (intro tWrite_ok) (simp add: writesOk_def steady_def)
  have sel: "(case hf_protocol g of None \<Rightarrow> [] | Some p \<Rightarrow> if length (u_Subprotocols u) > 0 then negotiateSubprotocol (u_Subprotocols u) p else []) =
      chosenProtocol u get"
    unfolding chosenProtocol_def same(6) [symmetric] by (simp split: option.split)
  have neg: "(case hf_extensions g of None \<Rightarrow> None
      | Some e \<Rightarrow> if u_EnableCompression u then negotiateDeflateWithHint bits e (upgraderPolicy u) else None) = chosenCompression bits u get"
    unfolding chosenCompression_def same(7) [symmetric] by (simp split: option.split)
  have resp: "appendSwitchingProtocolsResponse [] (hf_key g) (chosenProtocol u get) (map_option fst (chosenCompression bits u get)) =
      chosenResponse bits u get" by (simp add: chosenResponse_def same(4) del: B_Cons)
  have acc: "acceptable u get = (validateClientWindowBits (u_ClientWindowBits u) \<and> hf_upgradeOK g \<and> hf_connectionOK g \<and>
      hf_versionOK g \<and> length (hf_key g) = 24 \<and> (case u_OriginCheck u of None \<Rightarrow> True | Some check \<Rightarrow> check (hf_origin g)))"
    by (simp only: acceptable_def same(1-5))
  note eval = Upgrade_def serverLimit_def [symmetric] cp_def [symmetric] r(1,2) long line(1) scan host Let_def
  show "\<not> acceptable u get \<Longrightarrow> \<exists>e t'. Upgrade bits u t = (Inl e, t')"
    unfolding acc by (auto simp: eval simp del: B_Cons split: option.splits)
  show "acceptable u get \<Longrightarrow> \<exists>hs t'. Upgrade bits u t = (Inr hs, t') \<and> wire t' = wire t @ chosenResponse bits u get \<and>
      hk_Subprotocol hs = chosenProtocol u get \<and> hk_Compressed hs = (chosenCompression bits u get \<noteq> None) \<and>
      hk_CompressionParams hs = chosenParams u (chosenCompression bits u get)"
    unfolding acc
    by (cases "chosenCompression bits u get" rule: agreed_cases; cases "u_OriginCheck u")
      (use sel neg resp in \<open>simp_all add: eval w wire_def r(3) chosenParams_def noHandshake_def case_prod_beta del: B_Cons\<close>)
qed

text \<open>C12: The two ways to upgrade agree on an ordinary request. It is a GET whose target has no blank and no line end,
  with well-formed fields, among them a Host and no empty Origin, whose handshake headers appear at most once each; it fits
  in the upgrader's header limit, which only \<^verbatim>\<open>Upgrade\<close> applies to it; the upgrader does not forward response headers,
  which only \<^verbatim>\<open>UpgradeHTTP\<close> can; the hijack succeeds; and the transports fail no read and accept every write. Such a request, read by
  \<^verbatim>\<open>Upgrade\<close> from the connection itself or by \<^verbatim>\<open>UpgradeHTTP\<close> from the map \<^verbatim>\<open>net/http\<close> made of the same fields, is
  rejected by both, or accepted by both with the same response bytes, the same subprotocol and the same
  compression parameters.\<close>

theorem upgrade_http_agrees:
  fixes target :: bytes
  assumes "SP \<notin> set target" "CR \<notin> set target" "LF \<notin> set target" "list_all fieldOk fs"
    "parsedRequest fs r" "atMostOnce fs" "fieldValues fs (B ''origin'') \<noteq> [[]]" "fieldValues fs (B ''host'') \<noteq> []"
    "steady t" "writesOk t" "incoming t = message (B ''GET '' @ target @ B '' HTTP/1.1'') fs @ after"
    "int (length (message (B ''GET '' @ target @ B '' HTTP/1.1'') fs)) \<le> serverLimit u"
    "\<not> u_ForwardResponseHeaders u" "w_Hijack w = Inr (conn, buffered)" "writesOk conn"
  shows "(\<exists>e t' e' w'. Upgrade bits u t = (Inl e, t') \<and> UpgradeHTTP bits errText equalFold u r w = (Inl e', w', None)) \<or>
    (\<exists>hs t' hs' conn' resp. Upgrade bits u t = (Inr hs, t') \<and> UpgradeHTTP bits errText equalFold u r w = (Inr hs', w, Some conn') \<and>
      wire t' = wire t @ resp \<and> wire conn' = wire conn @ resp \<and> hk_Subprotocol hs' = hk_Subprotocol hs \<and>
      hk_Compressed hs' = hk_Compressed hs \<and> hk_CompressionParams hs' = hk_CompressionParams hs)"
proof -
  have "q_Method r = B ''GET''" using assms(5) by (simp add: parsedRequest_def)
  note http = UpgradeHTTP_outcome [OF this assms(13-15), of bits errText equalFold]
  note raw = Upgrade_outcome [OF assms(1-12), of bits]
  show ?thesis
  proof (cases "acceptable u (headerGet (q_Header r))")
    case True
    then show ?thesis using http(2) raw(2) by metis
  next
    case False
    then show ?thesis using http(1) raw(1) by blast
  qed
qed

text \<open>
  Outside \<^const>\<open>atMostOnce\<close> the two differ: \<^verbatim>\<open>UpgradeHTTP\<close> reads the first line of a header only, \<^verbatim>\<open>Upgrade\<close> every line.
  A request that spreads its \<^verbatim>\<open>Connection\<close> options over two lines, \<^verbatim>\<open>Upgrade\<close> on the second, passes the
  scan of the one and is rejected by the other.
\<close>

lemma split_connection_header:
  assumes "parsedRequest fs r" "fieldValues fs (B ''connection'') = v # vs" "\<not> ContainsToken v (B ''upgrade'')"
    "list_ex (\<lambda>v. ContainsToken v (B ''upgrade'')) vs" "validateClientWindowBits (u_ClientWindowBits u)"
    "ContainsToken (headerGet (q_Header r) (B ''Upgrade'')) (B ''websocket'')"
  shows "UpgradeHTTP bits errText equalFold u r w =
      (Inl ErrNotConnectionUpgrade, httpError (B ''gows: Connection header does not contain \"upgrade\"'') 400 w, None)"
    "hf_connectionOK (foldl (\<lambda>a h. classifyHeader a (fst h) (TrimOWS (snd h))) noHandshakeHeaders fs)"
proof -
  have "headerGet (q_Header r) (B ''Connection'') = v"
    using assms(1,2) unfolding headerGet_def parsedRequest_def handshakeNames_def list.pred_inject foldByte_names by simp
  then show "UpgradeHTTP bits errText equalFold u r w =
      (Inl ErrNotConnectionUpgrade, httpError (B ''gows: Connection header does not contain \"upgrade\"'') 400 w, None)"
    using assms(1,3,5,6) by (simp add: UpgradeHTTP_def parsedRequest_def Let_def del: B_Cons)
  show "hf_connectionOK (foldl (\<lambda>a h. classifyHeader a (fst h) (TrimOWS (snd h))) noHandshakeHeaders fs)"
    using assms(2,4) by (simp add: classify_collect noHandshakeHeaders_def del: B_Cons)
qed

text \<open>A browser's request with a subprotocol and compression.\<close>

definition browserFields :: "(bytes \<times> bytes) list" where
  "browserFields = [(B ''Host'', B ''a''), (B ''Upgrade'', B ''websocket''), (B ''Connection'', B ''keep-alive, Upgrade''),
     (B ''Sec-WebSocket-Key'', B ''dGhlIHNhbXBsZSBub25jZQ==''), (B ''Sec-WebSocket-Version'', B ''13''),
     (B ''sec-websocket-protocol'', B ''v1''), (B ''Sec-WebSocket-Extensions'', B ''permessage-deflate'')]"

definition browserRequest :: httpRequest where
  "browserRequest = \<lparr>q_Method = B ''GET'', q_Header = [(B ''Upgrade'', [B ''websocket'']), (B ''Connection'', [B ''keep-alive, Upgrade'']),
     (B ''Sec-Websocket-Key'', [B ''dGhlIHNhbXBsZSBub25jZQ=='']), (B ''Sec-Websocket-Version'', [B ''13'']),
     (B ''Sec-Websocket-Protocol'', [B ''v1'']), (B ''Sec-Websocket-Extensions'', [B ''permessage-deflate''])],
     q_Path = B ''/'', q_RawQuery = []\<rparr>"

definition hijackedConn :: transport where
  "hijackedConn = \<lparr>t_reads = [], t_end = EOF, t_writes = [], t_sent = [], t_closes = 0\<rparr>"

lemma browser_request:
  "list_all fieldOk browserFields" "parsedRequest browserFields browserRequest" "atMostOnce browserFields"
  "fieldValues browserFields (B ''origin'') = []" "fieldValues browserFields (B ''host'') = [B ''a'']"
  "acceptable demoUpgrader (headerGet (q_Header browserRequest))"
  "chosenProtocol demoUpgrader (headerGet (q_Header browserRequest)) = B ''v1''"
  by code_simp+

theorem upgrade_http_agrees_witness:
  "\<exists>hs t' hs' conn' resp.
     Upgrade 15 demoUpgrader \<lparr>t_reads = [(message (B ''GET / HTTP/1.1'') browserFields, None)], t_end = EOF, t_writes = [], t_sent = [],
       t_closes = 0\<rparr> = (Inr hs, t') \<and>
     UpgradeHTTP 15 (\<lambda>_. []) (=) demoUpgrader browserRequest
       \<lparr>w_Header = [], w_Answer = None, w_Hijack = Inr (hijackedConn, [])\<rparr> = (Inr hs', \<lparr>w_Header = [], w_Answer = None,
       w_Hijack = Inr (hijackedConn, [])\<rparr>, Some conn') \<and>
     wire t' = resp \<and> wire conn' = resp \<and> hk_Subprotocol hs = B ''v1'' \<and> hk_Subprotocol hs' = B ''v1''"
proof -
  let ?t = "\<lparr>t_reads = [(message (B ''GET / HTTP/1.1'') browserFields, None)], t_end = EOF, t_writes = [], t_sent = [], t_closes = 0\<rparr>"
  let ?w = "\<lparr>w_Header = [], w_Answer = None, w_Hijack = Inr (hijackedConn, [])\<rparr>"
  note b = browser_request
  have q: "q_Method browserRequest = B ''GET''" by (simp add: browserRequest_def)
  have f: "\<not> u_ForwardResponseHeaders demoUpgrader" by (simp add: demoUpgrader_def)
  have conn: "w_Hijack ?w = Inr (hijackedConn, [])" "writesOk hijackedConn" "wire hijackedConn = []"
    by (simp_all add: writesOk_def hijackedConn_def wire_def)
  have t: "steady ?t" "writesOk ?t" "wire ?t = []" "incoming ?t = message (B ''GET '' @ B ''/'' @ B '' HTTP/1.1'') browserFields @ []"
    by (simp_all add: steady_def writesOk_def incoming_def wire_def message_def)
  have small: "int (length (message (B ''GET '' @ B ''/'' @ B '' HTTP/1.1'') browserFields)) \<le> serverLimit demoUpgrader"
    by (simp add: message_def browserFields_def fieldLine_def serverLimit_def demoUpgrader_def defaultMaxHeaderBytes_def)
  have ne: "fieldValues browserFields (B ''origin'') \<noteq> [[]]" "fieldValues browserFields (B ''host'') \<noteq> []"
    unfolding b(4,5) by simp_all
  have clean: "SP \<notin> set (B ''/'')" "CR \<notin> set (B ''/'')" "LF \<notin> set (B ''/'')" by simp_all
  obtain hs2 conn2 where h: "UpgradeHTTP 15 (\<lambda>_. []) (=) demoUpgrader browserRequest ?w = (Inr hs2, ?w, Some conn2)"
    "hk_Subprotocol hs2 = B ''v1''"
    using UpgradeHTTP_outcome(2) [OF q f conn(1,2) b(6), of 15 "\<lambda>_. []" "(=)"] unfolding b(7) by blast
  show ?thesis
    using upgrade_http_agrees [OF clean b(1,2,3) ne t(1,2,4) small f conn(1,2), of 15 "\<lambda>_. []" "(=)"] h
    unfolding t(3) conn(3) by (auto simp del: B_Cons)
qed

end
