(* ===== verification/Guard.thy ===== *)
theory Guard
  imports Reader_Spec
begin

text \<open>
  \<^verbatim>\<open>connGuard\<close> of \<^verbatim>\<open>src/ioguard.go\<close>, the one place where a context and a connection meet, as a state machine: the
  context, the callback \<^verbatim>\<open>context.AfterFunc\<close> starts in its own goroutine, and the owner that ends the guarded
  exchange with \<^verbatim>\<open>release\<close> or \<^verbatim>\<open>abort\<close> take their steps in any order. \<^verbatim>\<open>CloseContext\<close> of \<^verbatim>\<open>src/conn.go\<close> is built on it.
\<close>

section \<open>State\<close>

text \<open>
  The callback is registered until \<^verbatim>\<open>stop\<close> prevents it or the context's end starts it; started, it closes the
  connection and then the \<^verbatim>\<open>done\<close> channel.
\<close>

datatype callback = Registered | Prevented | Running | ConnClosed | DoneClosed

text \<open>Where the owner is: using the connection, inside \<^verbatim>\<open>release\<close> or \<^verbatim>\<open>abort\<close>, or returned from it.\<close>

datatype owner = Using | Checking | ClosingConn | Joining | Aborting | Released bool | Aborted

record connGuard =
  g_ctxEnded :: bool
  g_callback :: callback
  g_closeOnce :: bool
  g_closes :: nat
  g_owner :: owner
  g_abort :: bool

text \<open>
  \<^verbatim>\<open>guardConn\<close>: with the error of \<^verbatim>\<open>SetDeadline\<close> there is no guard. The context may have ended before.
\<close>

definition guardConn :: "ioErr option \<Rightarrow> bool \<Rightarrow> ioErr + connGuard" where
  "guardConn deadlineErr ended =
     (case deadlineErr of
        Some e \<Rightarrow> Inl e
      | None \<Rightarrow> Inr \<lparr>g_ctxEnded = ended, g_callback = Registered, g_closeOnce = False, g_closes = 0,
          g_owner = Using, g_abort = False\<rparr>)"

definition closeConn :: "connGuard \<Rightarrow> connGuard" where
  "closeConn g = (if g_closeOnce g then g else g\<lparr>g_closeOnce := True, g_closes := Suc (g_closes g)\<rparr>)"

text \<open>\<^verbatim>\<open>g.stop()\<close>: whether it kept the callback from starting.\<close>

definition stop :: "connGuard \<Rightarrow> bool \<times> connGuard" where
  "stop g = (if g_callback g = Registered then (True, g\<lparr>g_callback := Prevented\<rparr>) else (False, g))"

text \<open>The end of \<^verbatim>\<open>release\<close>: its result, or for \<^verbatim>\<open>abort\<close> the close that follows.\<close>

definition finish :: "bool \<Rightarrow> connGuard \<Rightarrow> connGuard" where
  "finish clean g = g\<lparr>g_owner := (if g_abort g then Aborting else Released clean)\<rparr>"

section \<open>Steps\<close>

inductive guardStep :: "connGuard \<Rightarrow> connGuard \<Rightarrow> bool" where
  ctxEnds: "\<not> g_ctxEnded g \<Longrightarrow> guardStep g (g\<lparr>g_ctxEnded := True\<rparr>)"
| callbackStarts: "g_ctxEnded g \<Longrightarrow> g_callback g = Registered \<Longrightarrow> guardStep g (g\<lparr>g_callback := Running\<rparr>)"
| callbackCloses: "g_callback g = Running \<Longrightarrow> guardStep g ((closeConn g)\<lparr>g_callback := ConnClosed\<rparr>)"
| callbackDone: "g_callback g = ConnClosed \<Longrightarrow> guardStep g (g\<lparr>g_callback := DoneClosed\<rparr>)"
| releaseStops: "g_owner g = Using \<Longrightarrow> stop g = (True, g') \<Longrightarrow> guardStep g (g'\<lparr>g_owner := Checking, g_abort := b\<rparr>)"
| releaseJoins: "g_owner g = Using \<Longrightarrow> stop g = (False, g') \<Longrightarrow> guardStep g (g'\<lparr>g_owner := Joining, g_abort := b\<rparr>)"
| ctxClean: "g_owner g = Checking \<Longrightarrow> \<not> g_ctxEnded g \<Longrightarrow> guardStep g (finish True g)"
| ctxNotClean: "g_owner g = Checking \<Longrightarrow> g_ctxEnded g \<Longrightarrow> guardStep g (g\<lparr>g_owner := ClosingConn\<rparr>)"
| releaseCloses: "g_owner g = ClosingConn \<Longrightarrow> guardStep g (finish False (closeConn g))"
| joined: "g_owner g = Joining \<Longrightarrow> g_callback g = DoneClosed \<Longrightarrow> guardStep g (finish False g)"
| abortCloses: "g_owner g = Aborting \<Longrightarrow> guardStep g ((closeConn g)\<lparr>g_owner := Aborted\<rparr>)"

definition returned :: "connGuard \<Rightarrow> bool" where
  "returned g \<longleftrightarrow> g_owner g \<in> {Released True, Released False, Aborted}"

section \<open>Invariant\<close>

text \<open>
  The once-flag counts; the connection is closed once the callback is through its close or the owner
  through its own; a clean release, or one on its way, has the callback prevented.
\<close>

definition guardInv :: "connGuard \<Rightarrow> bool" where
  "guardInv g \<longleftrightarrow> g_closes g = (if g_closeOnce g then 1 else 0) \<and>
     (g_callback g \<in> {ConnClosed, DoneClosed} \<longrightarrow> g_closeOnce g) \<and>
     (g_owner g = Using \<longrightarrow> g_callback g \<in> {Registered, Running, ConnClosed, DoneClosed} \<and> (g_closeOnce g \<longrightarrow> g_callback g \<in> {ConnClosed, DoneClosed})) \<and>
     (g_owner g \<in> {Checking, ClosingConn} \<longrightarrow> g_callback g = Prevented \<and> \<not> g_closeOnce g) \<and>
     (g_owner g = Joining \<longrightarrow> g_callback g \<in> {Running, ConnClosed, DoneClosed}) \<and>
     (g_owner g = Released True \<longrightarrow> g_callback g = Prevented \<and> \<not> g_closeOnce g) \<and>
     (g_owner g = Released False \<or> g_owner g = Aborted \<longrightarrow> g_closeOnce g) \<and>
     (g_owner g = Aborting \<or> returned g \<longrightarrow> g_callback g \<in> {Prevented, DoneClosed})"

lemma guardInv_step: "guardStep g g' \<Longrightarrow> guardInv g \<Longrightarrow> guardInv g'"
  by (induction rule: guardStep.induct)
    (auto simp: guardInv_def closeConn_def stop_def finish_def returned_def split: if_splits)

lemma guardInv_steps: "guardStep\<^sup>*\<^sup>* g g' \<Longrightarrow> guardInv g \<Longrightarrow> guardInv g'"
  by (induction rule: rtranclp_induct) (auto intro: guardInv_step)

lemma guardInv_start: "guardConn None ended = Inr g \<Longrightarrow> guardInv g \<and> g_owner g = Using"
  by (auto simp: guardConn_def guardInv_def returned_def)

text \<open>Once the owner has returned, only the context can move.\<close>

lemma returned_step:
  assumes "guardStep g g'" "guardInv g" "returned g"
  shows "g' = g\<lparr>g_ctxEnded := True\<rparr>"
  using assms by (induction rule: guardStep.induct) (auto simp: guardInv_def returned_def)

lemma returned_steps:
  assumes "guardStep\<^sup>*\<^sup>* g g'" "guardInv g" "returned g"
  shows "g' = g \<or> g' = g\<lparr>g_ctxEnded := True\<rparr>"
  using assms
proof (induction rule: rtranclp_induct)
  case (step y z)
  then have "y = g \<or> y = g\<lparr>g_ctxEnded := True\<rparr>" by simp
  moreover have "guardInv y" using step by (auto intro: guardInv_steps)
  moreover have "returned y" using step calculation by (auto simp: returned_def)
  ultimately show ?case using returned_step [OF step.hyps(2)] by auto
qed simp

section \<open>No step is taken twice\<close>

primrec callbackLeft :: "callback \<Rightarrow> nat" where
  "callbackLeft Registered = 3" | "callbackLeft Running = 2" | "callbackLeft ConnClosed = 1"
| "callbackLeft DoneClosed = 0" | "callbackLeft Prevented = 0"

primrec ownerLeft :: "owner \<Rightarrow> nat" where
  "ownerLeft Using = 4" | "ownerLeft Checking = 3" | "ownerLeft ClosingConn = 2" | "ownerLeft Joining = 3"
| "ownerLeft Aborting = 1" | "ownerLeft (Released _) = 0" | "ownerLeft Aborted = 0"

definition stepsLeft :: "connGuard \<Rightarrow> nat" where
  "stepsLeft g = callbackLeft (g_callback g) + ownerLeft (g_owner g) + (if g_ctxEnded g then 0 else 1)"

lemma stepsLeft_less: "guardStep g g' \<Longrightarrow> stepsLeft g' < stepsLeft g"
  by (induction rule: guardStep.induct) (auto simp: stepsLeft_def closeConn_def stop_def finish_def split: if_splits)

lemma guard_runs_bounded: "(guardStep ^^ n) g g' \<Longrightarrow> n + stepsLeft g' \<le> stepsLeft g"
proof (induction n arbitrary: g')
  case (Suc n)
  then obtain y where "(guardStep ^^ n) g y" "guardStep y g'" by auto
  then show ?case using Suc.IH [of y] stepsLeft_less [of y g'] by linarith
qed simp

text \<open>An owner inside \<^verbatim>\<open>release\<close> or \<^verbatim>\<open>abort\<close> is never stuck, even when the context does not move.\<close>

lemma guard_enabled:
  assumes "guardInv g" "g_owner g \<noteq> Using" "\<not> returned g"
  shows "\<exists>g'. guardStep g g' \<and> g_ctxEnded g' = g_ctxEnded g"
proof (cases "g_owner g")
  case Checking
  then show ?thesis using guardStep.ctxClean [of g] guardStep.ctxNotClean [of g] by (cases "g_ctxEnded g") (auto simp: finish_def)
next
  case ClosingConn
  then show ?thesis by (intro exI [of _ "finish False (closeConn g)"] conjI guardStep.releaseCloses) (simp_all add: finish_def closeConn_def)
next
  case Joining
  then have "g_callback g \<in> {Running, ConnClosed, DoneClosed}" using assms(1) by (simp add: guardInv_def)
  then consider "g_callback g = Running" | "g_callback g = ConnClosed" | "g_callback g = DoneClosed" by auto
  then show ?thesis
  proof cases
    case 1
    then show ?thesis
      by (intro exI [of _ "(closeConn g)\<lparr>g_callback := ConnClosed\<rparr>"] conjI guardStep.callbackCloses) (simp_all add: closeConn_def)
  next
    case 2
    then show ?thesis by (intro exI [of _ "g\<lparr>g_callback := DoneClosed\<rparr>"] conjI guardStep.callbackDone) simp_all
  next
    case 3
    then show ?thesis by (intro exI [of _ "finish False g"] conjI guardStep.joined [OF Joining]) (simp_all add: finish_def)
  qed
next
  case Aborting
  then show ?thesis
    by (intro exI [of _ "(closeConn g)\<lparr>g_owner := Aborted\<rparr>"] conjI guardStep.abortCloses) (simp_all add: closeConn_def)
qed (use assms in \<open>auto simp: returned_def\<close>)

section \<open>The guard is safe\<close>

text \<open>C13: A guard is never left behind. However the context, its callback and the owner interleave: the
  connection is closed at most once; \<^verbatim>\<open>release\<close> reports a clean end only when nothing has closed it, and
  otherwise, as after \<^verbatim>\<open>abort\<close>, it has been closed; once either has returned nothing can close it any
  more; inside \<^verbatim>\<open>release\<close> or \<^verbatim>\<open>abort\<close> some step other than the context's is always possible, and no run
  takes more than eight steps, so both return.\<close>

theorem guard_never_left_behind:
  assumes "guardConn None ended = Inr g0" "guardStep\<^sup>*\<^sup>* g0 g"
  shows "g_closes g \<le> 1 \<and> (g_owner g = Released True \<longrightarrow> g_closes g = 0) \<and>
    (g_owner g = Released False \<or> g_owner g = Aborted \<longrightarrow> g_closes g = 1) \<and>
    (returned g \<and> guardStep\<^sup>*\<^sup>* g g' \<longrightarrow> g_closes g' = g_closes g \<and> g_owner g' = g_owner g) \<and>
    (g_owner g \<noteq> Using \<and> \<not> returned g \<longrightarrow> (\<exists>h. guardStep g h \<and> g_ctxEnded h = g_ctxEnded g)) \<and>
    ((guardStep ^^ n) g0 h \<longrightarrow> n \<le> 8)"
proof (intro conjI impI)
  have inv: "guardInv g" using guardInv_steps [OF assms(2)] guardInv_start [OF assms(1)] by blast
  then show "g_closes g \<le> 1" "g_owner g = Released True \<Longrightarrow> g_closes g = 0"
    "g_owner g = Released False \<or> g_owner g = Aborted \<Longrightarrow> g_closes g = 1" by (auto simp: guardInv_def)
  show "g_closes g' = g_closes g" "g_owner g' = g_owner g" if "returned g \<and> guardStep\<^sup>*\<^sup>* g g'"
    using returned_steps [of g g'] inv that by auto
  show "\<exists>h. guardStep g h \<and> g_ctxEnded h = g_ctxEnded g" if "g_owner g \<noteq> Using \<and> \<not> returned g"
    using guard_enabled inv that by blast
  show "n \<le> 8" if "(guardStep ^^ n) g0 h"
  proof -
    have "stepsLeft g0 \<le> 8" using assms(1) by (auto simp: guardConn_def stepsLeft_def)
    then show ?thesis using guard_runs_bounded [OF that] by linarith
  qed
qed

text \<open>The race the check of \<^verbatim>\<open>ctx.Err()\<close> is there for: \<^verbatim>\<open>stop\<close> wins, but the context has ended.\<close>

theorem guard_never_left_behind_witness:
  "\<exists>g0 g. guardConn None False = Inr g0 \<and> guardStep\<^sup>*\<^sup>* g0 g \<and> g_owner g = Released False \<and> g_closes g = 1"
proof -
  define g0 where "g0 = \<lparr>g_ctxEnded = False, g_callback = Registered, g_closeOnce = False, g_closes = 0, g_owner = Using, g_abort = False\<rparr>"
  define g1 where "g1 = g0\<lparr>g_ctxEnded := True\<rparr>"
  define g2 where "g2 = (g1\<lparr>g_callback := Prevented\<rparr>)\<lparr>g_owner := Checking, g_abort := False\<rparr>"
  define g3 where "g3 = g2\<lparr>g_owner := ClosingConn\<rparr>"
  have s: "guardConn None False = Inr g0" by (simp add: guardConn_def g0_def)
  have "guardStep g0 g1" unfolding g1_def by (rule ctxEnds) (simp add: g0_def)
  moreover have "guardStep g1 g2" unfolding g2_def by (rule releaseStops) (simp_all add: g1_def g0_def stop_def)
  moreover have "guardStep g2 g3" unfolding g3_def by (rule ctxNotClean) (simp_all add: g2_def g1_def)
  moreover have "guardStep g3 (finish False (closeConn g3))" by (rule releaseCloses) (simp add: g3_def)
  ultimately have r: "guardStep\<^sup>*\<^sup>* g0 (finish False (closeConn g3))" by (meson converse_rtranclp_into_rtranclp rtranclp.rtrancl_refl)
  have o: "g_owner (finish False (closeConn g3)) = Released False"
    by (simp add: finish_def closeConn_def g3_def g2_def g1_def g0_def)
  then show ?thesis using s r guard_never_left_behind [OF s r] by blast
qed

section \<open>CloseContext\<close>

text \<open>
  What \<^verbatim>\<open>CloseContext\<close> meets: whether the context had ended before, whether the deadline is the context's, the
  error of setting it, what \<^verbatim>\<open>release\<close> returned, and whether the context had ended by then. The bytes and errors
  of the exchange itself, an expired deadline or a forced close among them, are the transport's script.
\<close>

record closeEnv =
  ce_ended :: bool
  ce_ctxBound :: bool
  ce_deadlineErr :: "ioErr option"
  ce_clean :: bool
  ce_endedAfter :: bool

datatype closeFailure =
    CloseFailed connErr
  | CloseDeadlineFailed ioErr
  | CloseContextEnded
  | ErrCloseTimeout "connErr option"

function drainClose :: "'w Conn \<Rightarrow> connErr \<times> 'w Conn" where
  "drainClose c =
     (case readMessage c of
        (Some e, c) \<Rightarrow> (e, c)
      | (None, c) \<Rightarrow> drainClose c)"
  by pat_completeness auto
termination
proof (relation "measure avail", goal_cases)
  case (2 c x c')
  then show ?case using readMessage_avail [of c c'] by simp
qed simp

declare drainClose.simps [simp del]

lemma drainClose_snd: "snd (drainClose c) = closeDrain c"
proof (induction c rule: drainClose.induct)
  case (1 c)
  show ?case using 1 by (simp add: drainClose.simps [of c] closeDrain.simps [of c] split: prod.split option.split)
qed

text \<open>\<^verbatim>\<open>errors.Is(err, os.ErrDeadlineExceeded)\<close>\<close>

definition deadlineExceeded :: "connErr \<Rightarrow> bool" where
  "deadlineExceeded e \<longleftrightarrow> e = IOErr DeadlineExceeded"

definition budgetExpired :: "closeEnv \<Rightarrow> connErr option \<Rightarrow> closeFailure" where
  "budgetExpired env cause = (if ce_ctxBound env then CloseContextEnded else ErrCloseTimeout cause)"

definition CloseContext :: "closeEnv \<Rightarrow> CloseCode \<Rightarrow> bytes \<Rightarrow> 'w Conn \<Rightarrow> closeFailure option \<times> 'w Conn" where
  "CloseContext env code reason c =
     (case selectMode connModeMessage c of
        (Some e, c) \<Rightarrow> (Some (CloseFailed e), c)
      | (None, c) \<Rightarrow>
          if c_tornDown c then (None, c)
          else case validateCloseArgs code reason of
            Some e \<Rightarrow> (Some (CloseFailed e), c)
          | None \<Rightarrow>
              if ce_ended env then (Some CloseContextEnded, teardown c)
              else case ce_deadlineErr env of
                Some e \<Rightarrow> (Some (CloseDeadlineFailed e), teardown c)
              | None \<Rightarrow>
                  let (sendErr, c) = sendClose code reason c;
                      (drainErr, c) = (if sendErr = None \<and> \<not> c_closeRcvd c
                        then (case drainClose c of (e, c) \<Rightarrow> (Some e, c)) else (None, c));
                      closeRcvd = c_closeRcvd c;
                      c = teardown c in
                  (if \<not> ce_clean env \<or> ce_endedAfter env then Some CloseContextEnded
                   else case sendErr of
                     Some e \<Rightarrow> Some (if deadlineExceeded e then budgetExpired env (Some e) else CloseFailed e)
                   | None \<Rightarrow>
                       if \<not> closeRcvd then
                         case drainErr of
                           Some e \<Rightarrow> Some (if deadlineExceeded e then budgetExpired env None else CloseFailed e)
                         | None \<Rightarrow> Some (budgetExpired env None)
                       else None, c))"

text \<open>
  It ends with the connection torn down, unless the arguments or the mode were wrong, in which case nothing
  was sent; and it reports success only when the peer's Close has been received and the context had not
  ended.
\<close>

lemma CloseContext_tearsDown:
  assumes "CloseContext env code reason c = (r, c')" "c_mode c = 0 \<or> c_mode c = connModeMessage" "validateCloseArgs code reason = None"
  shows "c_tornDown c'"
  using assms
  by (auto simp: CloseContext_def selectMode_def Let_def split: if_splits option.splits prod.splits)

lemma CloseContext_clean:
  assumes "CloseContext env code reason c = (None, c')" "\<not> c_tornDown c" "c_mode c = 0 \<or> c_mode c = connModeMessage"
  shows "validateCloseArgs code reason = None" "ce_clean env" "\<not> ce_ended env" "\<not> ce_endedAfter env"
  using assms
  by (auto simp: CloseContext_def selectMode_def Let_def split: if_splits option.splits prod.splits)

end
