(* ===== verification/Relay_Spec.thy ===== *)
theory Relay_Spec
  imports Relay Session
begin

text \<open>
  Frames through a relay: what \<^verbatim>\<open>WriteFrame\<close> sends, \<^verbatim>\<open>ReadFrame\<close> of the peer reads. The lemmas carry the view of
  \<^verbatim>\<open>Reader_Spec\<close>, a connection as the stream still to come, over to the frame interface.
\<close>

section \<open>Reading in frame mode\<close>

definition asMessage :: "'w Conn \<Rightarrow> 'w Conn" where
  "asMessage c = c\<lparr>c_mode := connModeMessage\<rparr>"


lemma asMessage_simps [simp]:
  "window (asMessage c) = window c" "pending (asMessage c) = pending c" "c_conn (asMessage c) = c_conn c"
  "c_r0 (asMessage c) = c_r0 c" "c_r1 (asMessage c) = c_r1 c" "c_rbuf (asMessage c) = c_rbuf c"
  "c_msgBuf (asMessage c) = c_msgBuf c" "c_utf8v (asMessage c) = c_utf8v c" "c_client (asMessage c) = c_client c"
  "c_compression (asMessage c) = c_compression c"
  by (simp_all add: asMessage_def window_def pending_def)













section \<open>What a relay may carry\<close>








section \<open>Writing in frame mode\<close>


lemma outbox_frame [simp]:
  "outbox (c\<lparr>c_mode := m\<rparr>) = outbox c" "outbox (c\<lparr>c_frameWrite := w\<rparr>) = outbox c"
  "nextKey (c\<lparr>c_mode := m\<rparr>) = nextKey c" "nextKey (c\<lparr>c_frameWrite := w\<rparr>) = nextKey c"
  "sendable (c\<lparr>c_frameWrite := w\<rparr>) = sendable c"
  unfolding outbox_def nextKey_def sendable_def by simp_all



section \<open>A sequence of frames\<close>














end
