(* ===== verification/Report_Txn.thy ===== *)
theory Report_Txn
  imports Gows_Prelude
begin

text \<open>
  The transactions that preserve and publish Autobahn reports, \<^verbatim>\<open>src/autobahn/reporttxn\<close>, and the command
  \<^verbatim>\<open>src/autobahn/reportctl\<close>. The file system is the map of the directories concerned to their contents; every
  operation on it may fail, some after having done part of their work, as an explicit script says. SHA-256 is a
  parameter.
\<close>

section \<open>The file system\<close>

text \<open>
  A directory is what \<^verbatim>\<open>WalkDir\<close> finds in it, in its order: relative paths with regular files or symbolic links.
  Subdirectories are the prefixes of those paths. The report directories are disjoint, none inside another.
\<close>

type_synonym path = "bytes list"

datatype entry = Regular bytes | Symlink

type_synonym tree = "(bytes \<times> entry) list"

datatype ioOutcome = Succeeds | Fails | FailsPartly tree

record filesystem =
  fs_trees :: "path \<Rightarrow> tree option"
  fs_script :: "ioOutcome list"
  fs_names :: "bytes list"

definition nextOutcome :: "filesystem \<Rightarrow> ioOutcome \<times> filesystem" where
  "nextOutcome fs = (case fs_script fs of [] \<Rightarrow> Succeeds | x # _ \<Rightarrow> x, fs\<lparr>fs_script := tl (fs_script fs)\<rparr>)"

definition putTree :: "path \<Rightarrow> tree option \<Rightarrow> filesystem \<Rightarrow> filesystem" where
  "putTree p t fs = fs\<lparr>fs_trees := (fs_trees fs)(p := t)\<rparr>"

text \<open>\<^verbatim>\<open>os.MkdirTemp\<close> makes an empty directory under a name that did not exist, or fails.\<close>

definition mkdirTemp :: "path \<Rightarrow> bytes \<Rightarrow> filesystem \<Rightarrow> path option \<times> filesystem" where
  "mkdirTemp parent prefix fs =
     (case nextOutcome fs of (x, fs) \<Rightarrow>
        let p = parent @ [prefix @ (case fs_names fs of [] \<Rightarrow> [] | n # _ \<Rightarrow> n)];
            fs = fs\<lparr>fs_names := tl (fs_names fs)\<rparr> in
        if x = Succeeds \<and> fs_trees fs p = None then (Some p, putTree p (Some []) fs) else (None, fs))"

text \<open>\<^verbatim>\<open>os.Remove\<close> of an empty directory; \<open>True\<close> is success in this and the following operations.\<close>

definition removeEmpty :: "path \<Rightarrow> filesystem \<Rightarrow> bool \<times> filesystem" where
  "removeEmpty p fs =
     (case nextOutcome fs of (x, fs) \<Rightarrow>
        if x = Succeeds \<and> fs_trees fs p = Some [] then (True, putTree p None fs) else (False, fs))"

text \<open>\<^verbatim>\<open>os.RemoveAll\<close> may fail after having removed a part.\<close>

definition removeAll' :: "path \<Rightarrow> filesystem \<Rightarrow> bool \<times> filesystem" where
  "removeAll' p fs =
     (case nextOutcome fs of (x, fs) \<Rightarrow>
        (case x of
           Succeeds \<Rightarrow> (True, putTree p None fs)
         | Fails \<Rightarrow> (False, fs)
         | FailsPartly t \<Rightarrow> (False, putTree p (Some t) fs)))"

text \<open>\<^verbatim>\<open>os.Rename\<close> of a directory, to a name that is free or an empty directory.\<close>

definition renameTree :: "path \<Rightarrow> path \<Rightarrow> filesystem \<Rightarrow> bool \<times> filesystem" where
  "renameTree a b fs =
     (case nextOutcome fs of (x, fs) \<Rightarrow>
        if x = Succeeds \<and> fs_trees fs a \<noteq> None \<and> (fs_trees fs b = None \<or> fs_trees fs b = Some [])
        then (True, if a = b then fs else putTree b (fs_trees fs a) (putTree a None fs))
        else (False, fs))"

section \<open>Reading and copying trees\<close>

text \<open>\<^verbatim>\<open>filepath.Abs\<close> has been applied: paths are lists of components.\<close>

definition overlap :: "path \<Rightarrow> path \<Rightarrow> bool" where
  "overlap a b \<longleftrightarrow> take (length a) b = a \<or> take (length b) a = b"

text \<open>\<^verbatim>\<open>os.Stat\<close> follows links, so a link in place of an index is left to the walk to refuse.\<close>

definition requireReport :: "tree \<Rightarrow> bool" where
  "requireReport t \<longleftrightarrow> map_of t (B ''server/index.json'') \<noteq> None \<and> map_of t (B ''clients/index.json'') \<noteq> None"

text \<open>What is written to the hash: each path, a zero byte and the content.\<close>

primrec treeBytes :: "tree \<Rightarrow> bytes option" where
  "treeBytes [] = Some []"
| "treeBytes (f # t) = (case snd f of
     Symlink \<Rightarrow> None
   | Regular d \<Rightarrow> map_option (\<lambda>r. fst f @ [0] @ d @ r) (treeBytes t))"

definition treeHash :: "(bytes \<Rightarrow> bytes) \<Rightarrow> tree \<Rightarrow> bytes option" where
  "treeHash sha t = (if requireReport t then map_option sha (treeBytes t) else None)"

definition TreeSHA256 :: "(bytes \<Rightarrow> bytes) \<Rightarrow> path \<Rightarrow> filesystem \<Rightarrow> bytes option \<times> filesystem" where
  "TreeSHA256 sha root fs =
     (case nextOutcome fs of (x, fs) \<Rightarrow>
        (if x = Succeeds then case fs_trees fs root of None \<Rightarrow> None | Some t \<Rightarrow> treeHash sha t else None, fs))"

text \<open>The copy stops at a link, and at a file that is already there.\<close>

primrec copyEntries :: "tree \<Rightarrow> tree \<Rightarrow> bool \<times> tree" where
  "copyEntries [] dst = (True, dst)"
| "copyEntries (f # t) dst =
     (if snd f = Symlink \<or> map_of dst (fst f) \<noteq> None then (False, dst) else copyEntries t (dst @ [f]))"

definition copyTree :: "path \<Rightarrow> path \<Rightarrow> filesystem \<Rightarrow> bool \<times> filesystem" where
  "copyTree src dst fs =
     (case nextOutcome fs of (x, fs) \<Rightarrow>
        (case fs_trees fs src of
           None \<Rightarrow> (False, fs)
         | Some t \<Rightarrow>
             (case x of
                Succeeds \<Rightarrow> (case copyEntries t (case fs_trees fs dst of None \<Rightarrow> [] | Some d \<Rightarrow> d) of
                    (ok, d) \<Rightarrow> (ok, putTree dst (Some d) fs))
              | Fails \<Rightarrow> (False, fs)
              | FailsPartly d \<Rightarrow> (False, putTree dst (Some d) fs))))"

section \<open>Backup\<close>

datatype txnErr =
    PathsOverlap
  | DestinationExists
  | InvalidReport
  | TxnIO
  | BackupFailed
  | BackupNotRemoved
  | VerifyBackup
  | StageFailed
  | VerifyStage
  | HookFailed
  | MoveAside
  | PublishStaged
  | VerifyPublished
  | RestorationBlocked txnErr path path
  | RestoringFailed txnErr path path
  | RestoredUnverified txnErr path path
  | FailedUnallocated txnErr path path
  | FailedUnprepared txnErr
  | FailedUnretained txnErr path path
  | RestoredVerified txnErr path path
  | RollbackNotRemoved path

definition Backup :: "(bytes \<Rightarrow> bytes) \<Rightarrow> path \<Rightarrow> path \<Rightarrow> filesystem \<Rightarrow> txnErr option \<times> filesystem" where
  "Backup sha live backup fs =
     (if overlap live backup then (Some PathsOverlap, fs)
      else
        (case nextOutcome fs of (x, fs) \<Rightarrow>
           if x \<noteq> Succeeds \<or> fs_trees fs backup \<noteq> None then (Some DestinationExists, fs)
           else
             (case TreeSHA256 sha live fs of
                (None, fs) \<Rightarrow> (Some InvalidReport, fs)
              | (Some sourceHash, fs) \<Rightarrow>
                (case copyTree live backup fs of
                   (False, fs) \<Rightarrow>
                     (case removeAll' backup fs of (ok, fs) \<Rightarrow> (Some (if ok then BackupFailed else BackupNotRemoved), fs))
                 | (True, fs) \<Rightarrow>
                   (case TreeSHA256 sha backup fs of (backupHash, fs) \<Rightarrow>
                      if backupHash \<noteq> Some sourceHash
                      then (Some VerifyBackup, snd (removeAll' backup fs))
                      else (None, fs))))))"

section \<open>Publish\<close>

text \<open>The hooks of the package's tests, by whether they fail; \<^verbatim>\<open>Publish\<close> has none.\<close>

record publishHooks =
  ph_afterStage :: bool
  ph_afterMove :: bool
  ph_beforeRestore :: bool
  ph_afterPublish :: bool

definition noHooks :: publishHooks where
  "noHooks = \<lparr>ph_afterStage = False, ph_afterMove = False, ph_beforeRestore = False, ph_afterPublish = False\<rparr>"

text \<open>
  The common end of both recoveries: the old report back to its place and verified, or left in \<open>rollback\<close>. The
  result says whether it is back; \<open>retained\<close> is what the error names besides.
\<close>

definition restoreOld :: "(bytes \<Rightarrow> bytes) \<Rightarrow> publishHooks \<Rightarrow> path \<Rightarrow> path \<Rightarrow> path \<Rightarrow> bytes \<Rightarrow> txnErr \<Rightarrow> txnErr \<Rightarrow> filesystem \<Rightarrow>
    (txnErr \<times> bool) \<times> filesystem" where
  "restoreOld sha hooks live retained rollback oldHash cause done fs =
     (if ph_beforeRestore hooks then ((RestorationBlocked cause retained rollback, False), fs)
      else
        (case renameTree rollback live fs of
           (False, fs) \<Rightarrow> ((RestoringFailed cause retained rollback, False), fs)
         | (True, fs) \<Rightarrow>
           (case TreeSHA256 sha live fs of (restored, fs) \<Rightarrow>
              if restored \<noteq> Some oldHash
              then ((RestoredUnverified cause retained rollback, False), snd (renameTree live rollback fs))
              else ((done, True), fs))))"

text \<open>
  The result of a step after staging is the error, if any, and whether the staged copy is removed at the end.
\<close>

definition recoverLive :: "(bytes \<Rightarrow> bytes) \<Rightarrow> publishHooks \<Rightarrow> path \<Rightarrow> path \<Rightarrow> path \<Rightarrow> bytes option \<Rightarrow> txnErr \<Rightarrow> filesystem \<Rightarrow>
    (txnErr option \<times> bool) \<times> filesystem" where
  "recoverLive sha hooks live stage rollback oldHash cause fs =
     (case oldHash of
        None \<Rightarrow> ((Some cause, True), fs)
      | Some h \<Rightarrow>
          (case restoreOld sha hooks live stage rollback h cause cause fs of ((e, removeStage), fs) \<Rightarrow>
             ((Some e, removeStage), fs)))"

definition recoverPublished :: "(bytes \<Rightarrow> bytes) \<Rightarrow> publishHooks \<Rightarrow> path \<Rightarrow> path \<Rightarrow> bytes option \<Rightarrow> txnErr \<Rightarrow> filesystem \<Rightarrow>
    txnErr \<times> filesystem" where
  "recoverPublished sha hooks live rollback oldHash cause fs =
     (case mkdirTemp (butlast live) (B ''.reports-failed-'') fs of
        (None, fs) \<Rightarrow> (FailedUnallocated cause rollback live, fs)
      | (Some failed, fs) \<Rightarrow>
        (case removeEmpty failed fs of
           (False, fs) \<Rightarrow> (FailedUnprepared cause, fs)
         | (True, fs) \<Rightarrow>
           (case renameTree live failed fs of
              (False, fs) \<Rightarrow> (FailedUnretained cause rollback live, fs)
            | (True, fs) \<Rightarrow>
              (case restoreOld sha hooks live failed rollback (case oldHash of None \<Rightarrow> [] | Some h \<Rightarrow> h) cause
                  (RestoredVerified cause live failed) fs of
                 ((e, _), fs) \<Rightarrow> (e, fs)))))"

text \<open>From the move of the old report to the end.\<close>

definition replaceLive :: "(bytes \<Rightarrow> bytes) \<Rightarrow> publishHooks \<Rightarrow> path \<Rightarrow> path \<Rightarrow> path \<Rightarrow> bytes option \<Rightarrow> bytes \<Rightarrow> filesystem \<Rightarrow>
    (txnErr option \<times> bool) \<times> filesystem" where
  "replaceLive sha hooks live stage rollback oldHash sourceHash fs =
     (if ph_afterMove hooks then recoverLive sha hooks live stage rollback oldHash HookFailed fs
      else
        (case renameTree stage live fs of
           (False, fs) \<Rightarrow> recoverLive sha hooks live stage rollback oldHash PublishStaged fs
         | (True, fs) \<Rightarrow>
           let recover = (\<lambda>cause fs. case recoverPublished sha hooks live rollback oldHash cause fs of (e, fs) \<Rightarrow> ((Some e, False), fs)) in
           if ph_afterPublish hooks then recover HookFailed fs
           else
             (case TreeSHA256 sha live fs of (liveHash, fs) \<Rightarrow>
                if liveHash \<noteq> Some sourceHash then
                  if oldHash \<noteq> None then recover VerifyPublished fs else ((Some VerifyPublished, False), fs)
                else if oldHash \<noteq> None then
                  (case removeAll' rollback fs of (ok, fs) \<Rightarrow>
                     ((if ok then None else Some (RollbackNotRemoved rollback), False), fs))
                else ((None, False), fs))))"

definition publishStaged :: "(bytes \<Rightarrow> bytes) \<Rightarrow> publishHooks \<Rightarrow> path \<Rightarrow> path \<Rightarrow> path \<Rightarrow> bytes \<Rightarrow> filesystem \<Rightarrow>
    (txnErr option \<times> bool) \<times> filesystem" where
  "publishStaged sha hooks source live stage sourceHash fs =
     (case copyTree source stage fs of
        (False, fs) \<Rightarrow> ((Some StageFailed, True), fs)
      | (True, fs) \<Rightarrow>
        (case TreeSHA256 sha stage fs of (stageHash, fs) \<Rightarrow>
           if stageHash \<noteq> Some sourceHash then ((Some VerifyStage, True), fs)
           else if ph_afterStage hooks then ((Some HookFailed, True), fs)
           else
             (case mkdirTemp (butlast live) (B ''.reports-rollback-'') fs of
                (None, fs) \<Rightarrow> ((Some TxnIO, True), fs)
              | (Some rollback, fs) \<Rightarrow>
                (case removeEmpty rollback fs of
                   (False, fs) \<Rightarrow> ((Some TxnIO, True), fs)
                 | (True, fs) \<Rightarrow>
                   (case nextOutcome fs of (x, fs) \<Rightarrow>
                      if x \<noteq> Succeeds then ((Some TxnIO, True), fs)
                      else if fs_trees fs live = None then replaceLive sha hooks live stage rollback None sourceHash fs
                      else
                        (case TreeSHA256 sha live fs of
                           (None, fs) \<Rightarrow> ((Some InvalidReport, True), fs)
                         | (Some oldHash, fs) \<Rightarrow>
                           (case renameTree live rollback fs of
                              (False, fs) \<Rightarrow> ((Some MoveAside, True), fs)
                            | (True, fs) \<Rightarrow> replaceLive sha hooks live stage rollback (Some oldHash) sourceHash fs)))))))"

definition publish :: "(bytes \<Rightarrow> bytes) \<Rightarrow> publishHooks \<Rightarrow> path \<Rightarrow> path \<Rightarrow> filesystem \<Rightarrow> txnErr option \<times> filesystem" where
  "publish sha hooks source live fs =
     (if overlap source live then (Some PathsOverlap, fs)
      else
        (case TreeSHA256 sha source fs of
           (None, fs) \<Rightarrow> (Some InvalidReport, fs)
         | (Some sourceHash, fs) \<Rightarrow>
           (case nextOutcome fs of (x, fs) \<Rightarrow>
              if x \<noteq> Succeeds then (Some TxnIO, fs)
              else
                (case mkdirTemp (butlast live) (B ''.reports-stage-'') fs of
                   (None, fs) \<Rightarrow> (Some TxnIO, fs)
                 | (Some stage, fs) \<Rightarrow>
                   (case removeEmpty stage fs of
                      (False, fs) \<Rightarrow> (Some TxnIO, fs)
                    | (True, fs) \<Rightarrow>
                      (case publishStaged sha hooks source live stage sourceHash fs of ((e, removeStage), fs) \<Rightarrow>
                         (e, if removeStage then snd (removeAll' stage fs) else fs)))))))"

definition Publish :: "(bytes \<Rightarrow> bytes) \<Rightarrow> path \<Rightarrow> path \<Rightarrow> filesystem \<Rightarrow> txnErr option \<times> filesystem" where
  "Publish sha = publish sha noHooks"

definition Restore :: "(bytes \<Rightarrow> bytes) \<Rightarrow> path \<Rightarrow> path \<Rightarrow> filesystem \<Rightarrow> txnErr option \<times> filesystem" where
  "Restore sha backup live = Publish sha backup live"

text \<open>\<^verbatim>\<open>reportctl\<close>: the exit status.\<close>

definition reportctl :: "(bytes \<Rightarrow> bytes) \<Rightarrow> (bytes \<Rightarrow> path) \<Rightarrow> bytes list \<Rightarrow> filesystem \<Rightarrow> nat \<times> filesystem" where
  "reportctl sha clean args fs =
     (case args of
        [operation, a, b] \<Rightarrow>
          let status = (\<lambda>(e, fs). (if e = None then 0 else 1, fs)) in
          if operation = B ''backup'' then status (Backup sha (clean a) (clean b) fs)
          else if operation = B ''publish'' then status (Publish sha (clean a) (clean b) fs)
          else if operation = B ''restore'' then status (Restore sha (clean a) (clean b) fs)
          else (2, fs)
      | _ \<Rightarrow> (2, fs))"

section \<open>What each operation changes\<close>

lemma trees_nextOutcome [simp]: "fs_trees (snd (nextOutcome fs)) = fs_trees fs"
  by (simp add: nextOutcome_def)

lemma nextOutcome_trees: "nextOutcome fs = (x, fs') \<Longrightarrow> fs_trees fs' = fs_trees fs"
  using trees_nextOutcome [of fs] by simp

lemma trees_putTree [simp]: "fs_trees (putTree p t fs) = (fs_trees fs)(p := t)"
  by (simp add: putTree_def)

named_theorems tree_effects \<open>what the operations on the file system change\<close>

lemma mkdirTemp_effect [tree_effects]:
  "mkdirTemp d x fs = (Some p, fs') \<Longrightarrow> fs_trees fs p = None \<and> fs_trees fs' = (fs_trees fs)(p := Some [])"
  "mkdirTemp d x fs = (None, fs') \<Longrightarrow> fs_trees fs' = fs_trees fs"
  by (auto simp: mkdirTemp_def Let_def dest: nextOutcome_trees split: prod.splits if_splits)

lemma removeEmpty_effect [tree_effects]:
  "removeEmpty p fs = (True, fs') \<Longrightarrow> fs_trees fs' = (fs_trees fs)(p := None)"
  "removeEmpty p fs = (False, fs') \<Longrightarrow> fs_trees fs' = fs_trees fs"
  by (auto simp: removeEmpty_def dest: nextOutcome_trees split: prod.splits if_splits)

lemma removeAll_effect [tree_effects]:
  "removeAll' p fs = (ok, fs') \<Longrightarrow> \<exists>t. fs_trees fs' = (fs_trees fs)(p := t) \<and> (ok \<longrightarrow> t = None)"
  by (auto simp: removeAll'_def dest!: nextOutcome_trees split: prod.splits ioOutcome.splits)
    (metis fun_upd_triv)

lemma renameTree_effect [tree_effects]:
  "renameTree a b fs = (True, fs') \<Longrightarrow> a \<noteq> b \<Longrightarrow> fs_trees fs a \<noteq> None \<and> (fs_trees fs b = None \<or> fs_trees fs b = Some []) \<and>
     fs_trees fs' = (fs_trees fs)(a := None, b := fs_trees fs a)"
  "renameTree a b fs = (False, fs') \<Longrightarrow> fs_trees fs' = fs_trees fs"
  by (auto simp: renameTree_def fun_upd_twist dest: nextOutcome_trees split: prod.splits if_splits)

lemma TreeSHA256_effect [tree_effects]:
  "TreeSHA256 sha p fs = (r, fs') \<Longrightarrow> fs_trees fs' = fs_trees fs"
  by (auto simp: TreeSHA256_def dest: nextOutcome_trees split: prod.splits)

lemma TreeSHA256_exists: "TreeSHA256 sha p fs = (Some h, fs') \<Longrightarrow> \<exists>t. fs_trees fs p = Some t \<and> treeHash sha t = Some h"
  by (auto simp: TreeSHA256_def dest!: nextOutcome_trees split: prod.splits if_splits option.splits)

lemma copyEntries_all: "copyEntries t d = (True, d') \<Longrightarrow> d' = d @ t"
proof (induction t arbitrary: d)
  case (Cons f t)
  then show ?case using Cons.IH [of "d @ [f]"] by (auto split: if_splits)
qed simp

lemma copyTree_fails [tree_effects]:
  assumes "copyTree a b fs = (False, fs')"
  shows "\<exists>d. fs_trees fs' = (fs_trees fs)(b := d)"
proof -
  have "fs_trees fs' = (fs_trees fs)(b := fs_trees fs b) \<or> (\<exists>d. fs_trees fs' = (fs_trees fs)(b := d))"
    using assms by (auto simp: copyTree_def dest!: nextOutcome_trees split: prod.splits ioOutcome.splits option.splits)
  then show ?thesis by blast
qed

lemma copyTree_effect [tree_effects]:
  assumes "copyTree a b fs = (True, fs')" "fs_trees fs b = None"
  shows "fs_trees fs a \<noteq> None \<and> fs_trees fs' = (fs_trees fs)(b := fs_trees fs a)"
  using assms
  by (auto simp: copyTree_def dest!: nextOutcome_trees copyEntries_all split: prod.splits ioOutcome.splits option.splits)

lemma renameTree_moves:
  "a \<noteq> b \<Longrightarrow> fs_trees (snd (renameTree a b fs)) = fs_trees fs \<or>
     fs_trees (snd (renameTree a b fs)) = (fs_trees fs)(a := None, b := fs_trees fs a)"
proof (cases "renameTree a b fs")
  case (Pair ok fs')
  assume "a \<noteq> b"
  then show ?thesis using renameTree_effect [of a b fs fs'] Pair by (cases ok) auto
qed

section \<open>The old report is never lost\<close>

text \<open>What existed elsewhere is as it was.\<close>

definition untouched :: "path set \<Rightarrow> filesystem \<Rightarrow> filesystem \<Rightarrow> bool" where
  "untouched P fs fs' \<longleftrightarrow> (\<forall>p. p \<notin> P \<and> fs_trees fs p \<noteq> None \<longrightarrow> fs_trees fs' p = fs_trees fs p)"

lemma restoreOld_keeps:
  assumes "restoreOld sha hooks live retained rollback h cause d fs = ((e, b), fs')" "fs_trees fs rollback = Some t"
    "fs_trees fs live = None" "live \<noteq> rollback"
  shows "fs_trees fs' live = Some t \<or> fs_trees fs' rollback = Some t"
    "p \<notin> {live, rollback} \<Longrightarrow> fs_trees fs' p = fs_trees fs p"
proof -
  obtain ok fs1 where r: "renameTree rollback live fs = (ok, fs1)" by fastforce
  obtain x fs2 where h: "TreeSHA256 sha live fs1 = (x, fs2)" by fastforce
  have f1: "ok \<Longrightarrow> fs_trees fs1 = (fs_trees fs)(rollback := None, live := Some t)" "\<not> ok \<Longrightarrow> fs_trees fs1 = fs_trees fs"
    using renameTree_effect [of rollback live fs fs1] r assms(2,4) by auto
  have f2: "fs_trees fs2 = fs_trees fs1" by (rule TreeSHA256_effect [OF h])
  note f3 = renameTree_moves [of live rollback fs2]
  show "fs_trees fs' live = Some t \<or> fs_trees fs' rollback = Some t" "p \<notin> {live, rollback} \<Longrightarrow> fs_trees fs' p = fs_trees fs p"
    using assms f1 f2 f3 r h by (cases ok; auto simp: restoreOld_def split: if_splits)+
qed

lemma recoverLive_keeps:
  assumes "recoverLive sha hooks live stage rollback (Some h) cause fs = ((r, rm), fs')" "fs_trees fs rollback = Some t"
    "fs_trees fs live = None" "live \<noteq> rollback"
  shows "r \<noteq> None" "fs_trees fs' live = Some t \<or> fs_trees fs' rollback = Some t"
    "p \<notin> {live, rollback} \<Longrightarrow> fs_trees fs' p = fs_trees fs p"
  using assms(1) restoreOld_keeps [OF _ assms(2-4)] by (auto simp: recoverLive_def split: prod.splits)

lemma recoverPublished_keeps:
  assumes "recoverPublished sha hooks live rollback old cause fs = (e, fs')" "fs_trees fs rollback = Some t"
    "fs_trees fs live \<noteq> None" "live \<noteq> rollback"
  shows "fs_trees fs' live = Some t \<or> fs_trees fs' rollback = Some t"
    "p \<notin> {live, rollback} \<Longrightarrow> fs_trees fs p \<noteq> None \<Longrightarrow> fs_trees fs' p = fs_trees fs p"
proof -
  obtain f fs1 where m: "mkdirTemp (butlast live) (B ''.reports-failed-'') fs = (f, fs1)" by fastforce
  have "(fs_trees fs' live = Some t \<or> fs_trees fs' rollback = Some t) \<and>
    (\<forall>p. p \<notin> {live, rollback} \<and> fs_trees fs p \<noteq> None \<longrightarrow> fs_trees fs' p = fs_trees fs p)"
  proof (cases f)
    case None
    then show ?thesis using mkdirTemp_effect(2) [of _ _ fs fs1] m assms(1,2) by (auto simp: recoverPublished_def)
  next
    case (Some failed)
    have f1: "fs_trees fs failed = None" "fs_trees fs1 = (fs_trees fs)(failed := Some [])" using mkdirTemp_effect(1) m Some by auto
    then have ne: "failed \<noteq> rollback" "failed \<noteq> live" using assms(2,3) by auto
    obtain ok fs2 where r: "removeEmpty failed fs1 = (ok, fs2)" by fastforce
    obtain ok' fs3 where n: "renameTree live failed fs2 = (ok', fs3)" by fastforce
    have f2: "ok \<Longrightarrow> fs_trees fs2 = fs_trees fs" "\<not> ok \<Longrightarrow> fs_trees fs2 = fs_trees fs1"
      using removeEmpty_effect [of failed fs1 fs2] r f1 by (auto simp: fun_eq_iff)
    have f3: "ok' \<Longrightarrow> fs_trees fs3 = (fs_trees fs2)(live := None, failed := fs_trees fs2 live)" "\<not> ok' \<Longrightarrow> fs_trees fs3 = fs_trees fs2"
      using renameTree_effect [of live failed fs2 fs3] n ne by auto
    show ?thesis
    proof (cases "ok \<and> ok'")
      case False
      then show ?thesis using assms(1,2) m Some r n f1 f2 f3 ne by (cases ok) (auto simp: recoverPublished_def)
    next
      case True
      obtain b where "restoreOld sha hooks live failed rollback (case old of None \<Rightarrow> [] | Some h \<Rightarrow> h) cause
          (RestoredVerified cause live failed) fs3 = ((e, b), fs')"
        using assms(1) m Some r n True by (auto simp: recoverPublished_def split: prod.splits)
      note k = restoreOld_keeps [OF this]
      have "fs_trees fs3 rollback = Some t" "fs_trees fs3 live = None" using True f2 f3 ne assms(2,4) by auto
      note k = k [OF this assms(4)]
      moreover have "fs_trees fs3 p = fs_trees fs p" if "p \<notin> {live, rollback}" "fs_trees fs p \<noteq> None" for p
        using that True f1 f2 f3 by auto
      ultimately show ?thesis by metis
    qed
  qed
  then show "fs_trees fs' live = Some t \<or> fs_trees fs' rollback = Some t"
    "p \<notin> {live, rollback} \<Longrightarrow> fs_trees fs p \<noteq> None \<Longrightarrow> fs_trees fs' p = fs_trees fs p" by blast+
qed

text \<open>
  Once the old report is aside: either the staged copy is in its place and the rest of the transaction
  went through, or the old report is whole, here or there.
\<close>

lemma replaceLive_keeps:
  assumes "replaceLive sha hooks live stage rollback (Some h) sourceHash fs = ((r, rm), fs')"
    "fs_trees fs rollback = Some t" "fs_trees fs live = None" "distinct [live, stage, rollback]" "fs_trees fs stage = Some n"
  shows "r = None \<Longrightarrow> \<not> rm \<and> fs_trees fs' = (fs_trees fs)(stage := None, rollback := None, live := Some n)"
    "r = Some e \<Longrightarrow> (fs_trees fs' live = Some t \<or> fs_trees fs' rollback = Some t) \<or>
      e = RollbackNotRemoved rollback \<and> fs_trees fs' live = Some n"
    "p \<notin> {live, stage, rollback} \<Longrightarrow> fs_trees fs p \<noteq> None \<Longrightarrow> fs_trees fs' p = fs_trees fs p"
proof -
  have ne: "live \<noteq> rollback" "stage \<noteq> live" "stage \<noteq> rollback" using assms(4) by auto
  obtain ok fs1 where m: "renameTree stage live fs = (ok, fs1)" by fastforce
  have f1: "ok \<Longrightarrow> fs_trees fs1 = (fs_trees fs)(stage := None, live := Some n)" "\<not> ok \<Longrightarrow> fs_trees fs1 = fs_trees fs"
    using renameTree_effect [of stage live fs fs1] m ne assms(5) by auto
  obtain x fs2 where h: "TreeSHA256 sha live fs1 = (x, fs2)" by fastforce
  have f2: "fs_trees fs2 = fs_trees fs1" by (rule TreeSHA256_effect [OF h])
  let ?goal = "(r = None \<longrightarrow> \<not> rm \<and> fs_trees fs' = (fs_trees fs)(stage := None, rollback := None, live := Some n)) \<and>
    (\<forall>e. r = Some e \<longrightarrow> (fs_trees fs' live = Some t \<or> fs_trees fs' rollback = Some t) \<or>
      e = RollbackNotRemoved rollback \<and> fs_trees fs' live = Some n) \<and>
    (\<forall>p. p \<notin> {live, stage, rollback} \<and> fs_trees fs p \<noteq> None \<longrightarrow> fs_trees fs' p = fs_trees fs p)"
  have aside: "?goal" if "recoverLive sha hooks live stage rollback (Some h) c fs = ((r, rm), fs')" for c
    using recoverLive_keeps [OF that assms(2,3) ne(1)] by blast
  have aside1: "?goal" if "recoverLive sha hooks live stage rollback (Some h) c fs1 = ((r, rm), fs')" "\<not> ok" for c
    using recoverLive_keeps [OF that(1), of t] f1(2) that(2) assms(2,3) ne(1) by auto
  have undo: "?goal" if "recoverPublished sha hooks live rollback (Some h) c g = (e, fs')" "r = Some e" "ok" "fs_trees g = fs_trees fs1" for c g and e :: txnErr
    using recoverPublished_keeps [OF that(1), of t] that(2-4) f1(1) assms(2) ne by auto
  have "?goal"
  proof (cases "ph_afterMove hooks \<or> \<not> ok")
    case True
    then show ?thesis using assms(1) m aside aside1 by (auto simp: replaceLive_def split: if_splits)
  next
    case False
    note rep = assms(1) [unfolded replaceLive_def m prod.case Let_def]
    show ?thesis
    proof (cases "ph_afterPublish hooks \<or> x \<noteq> Some sourceHash")
      case True
      then obtain c g e where "recoverPublished sha hooks live rollback (Some h) c g = (e, fs')" "r = Some e" "fs_trees g = fs_trees fs1"
        using rep False h f2 by (auto split: prod.splits if_splits)
      then show ?thesis using undo False by blast
    next
      case ok2: False
      obtain ok3 fs3 where d: "removeAll' rollback fs2 = (ok3, fs3)" by fastforce
      obtain u where u: "fs_trees fs3 = (fs_trees fs2)(rollback := u)" "ok3 \<longrightarrow> u = None" using removeAll_effect [OF d] by blast
      have "r = (if ok3 then None else Some (RollbackNotRemoved rollback))" "fs' = fs3" "\<not> rm"
        using rep False ok2 h d by (auto split: if_splits)
      then show ?thesis using u f1(1) f2 False ne by (auto simp: fun_eq_iff)
    qed
  qed
  then show "r = None \<Longrightarrow> \<not> rm \<and> fs_trees fs' = (fs_trees fs)(stage := None, rollback := None, live := Some n)"
    "r = Some e \<Longrightarrow> (fs_trees fs' live = Some t \<or> fs_trees fs' rollback = Some t) \<or>
      e = RollbackNotRemoved rollback \<and> fs_trees fs' live = Some n"
    "p \<notin> {live, stage, rollback} \<Longrightarrow> fs_trees fs p \<noteq> None \<Longrightarrow> fs_trees fs' p = fs_trees fs p" by blast+
qed

definition rollbackOf :: "path \<Rightarrow> path \<Rightarrow> bool" where
  "rollbackOf live p \<longleftrightarrow> (\<exists>n. p = butlast live @ [B ''.reports-rollback-'' @ n])"

text \<open>The old report whole, at its place or set aside, or the new one published and verified.\<close>

definition kept :: "path \<Rightarrow> tree \<Rightarrow> tree option \<Rightarrow> txnErr \<Rightarrow> filesystem \<Rightarrow> bool" where
  "kept live old new e fs \<longleftrightarrow> (\<exists>p. (p = live \<or> rollbackOf live p) \<and> fs_trees fs p = Some old) \<or>
     (\<exists>p. e = RollbackNotRemoved p \<and> rollbackOf live p \<and> fs_trees fs live = new)"

lemma keptI: "fs_trees fs live = Some old \<Longrightarrow> kept live old new e fs"
  by (auto simp: kept_def)

lemma mkdirTemp_name: "mkdirTemp d x fs = (Some p, fs') \<Longrightarrow> \<exists>n. p = d @ [x @ n]"
  by (auto simp: mkdirTemp_def Let_def split: prod.splits if_splits)

lemma publishStaged_keeps:
  assumes "publishStaged sha hooks source live stage sourceHash fs = ((r, rm), fs')" "fs_trees fs live = Some old"
    "fs_trees fs stage = None" "fs_trees fs source = Some new" "source \<noteq> live"
  shows "fs_trees fs' source = Some new"
    "r = None \<Longrightarrow> \<not> rm \<and> fs_trees fs' = (fs_trees fs)(live := Some new)"
    "r = Some e \<Longrightarrow> kept live old (Some new) e fs'"
proof -
  have ne: "stage \<noteq> live" "stage \<noteq> source" using assms(2-4) by auto
  let ?g = "fs_trees fs' source = Some new \<and> (r = None \<longrightarrow> \<not> rm \<and> fs_trees fs' = (fs_trees fs)(live := Some new)) \<and>
    (\<forall>e. r = Some e \<longrightarrow> kept live old (Some new) e fs')"
  have early: "?g" if "r \<noteq> None" "fs_trees fs' live = Some old" "fs_trees fs' source = Some new"
    using that by (auto simp: kept_def)
  obtain ok fs1 where c: "copyTree source stage fs = (ok, fs1)" by fastforce
  obtain x fs2 where h: "TreeSHA256 sha stage fs1 = (x, fs2)" by fastforce
  obtain rb fs3 where m: "mkdirTemp (butlast live) (B ''.reports-rollback-'') fs2 = (rb, fs3)" by fastforce
  have f2: "fs_trees fs2 = fs_trees fs1" by (rule TreeSHA256_effect [OF h])
  obtain d where f1: "fs_trees fs1 = (fs_trees fs)(stage := d)" "ok \<Longrightarrow> d = Some new"
    using copyTree_fails [of source stage fs fs1] copyTree_effect [of source stage fs fs1] c assms(3,4) by (cases ok) auto
  have at1: "fs_trees fs1 live = Some old" "fs_trees fs1 source = Some new" using f1 ne assms(2,4) by auto
  note st = assms(1) [unfolded publishStaged_def c prod.case]
  have "?g"
  proof (cases "ok \<and> x = Some sourceHash \<and> \<not> ph_afterStage hooks \<and> rb \<noteq> None")
    case False
    then show ?thesis using st h m early at1 f2 mkdirTemp_effect(2) [of _ _ fs2 fs3] by (auto split: bool.splits if_splits)
  next
    case True
    then obtain p where p: "rb = Some p" by auto
    have f3: "fs_trees fs1 p = None" "fs_trees fs3 = (fs_trees fs1)(p := Some [])" using mkdirTemp_effect(1) [OF m [unfolded p]] f2 by simp_all
    have pn: "p \<noteq> live" "p \<noteq> source" "p \<noteq> stage" using f3(1) at1 f1 True by auto
    have rb: "rollbackOf live p" using mkdirTemp_name [OF m [unfolded p]] by (simp add: rollbackOf_def)
    obtain ok4 fs4 where r: "removeEmpty p fs3 = (ok4, fs4)" by fastforce
    obtain y fs5 where s: "nextOutcome fs4 = (y, fs5)" by fastforce
    obtain o6 fs6 where t: "TreeSHA256 sha live fs5 = (o6, fs6)" by fastforce
    obtain ok7 fs7 where n: "renameTree live p fs6 = (ok7, fs7)" by fastforce
    have f4: "fs_trees fs4 = (fs_trees fs1)(p := (if ok4 then None else Some []))" using removeEmpty_effect [of p fs3 fs4] r f3 by (cases ok4) auto
    have f6: "fs_trees fs6 = fs_trees fs4" "fs_trees fs5 = fs_trees fs4" using TreeSHA256_effect [OF t] nextOutcome_trees [OF s] by simp_all
    have at4: "fs_trees fs4 live = Some old" "fs_trees fs4 source = Some new" using f4 at1 pn by auto
    have f7: "ok7 \<Longrightarrow> fs_trees fs7 = (fs_trees fs6)(live := None, p := Some old)" "\<not> ok7 \<Longrightarrow> fs_trees fs7 = fs_trees fs6"
      using renameTree_effect [of live p fs6 fs7] n pn f6 at4 by auto
    show ?thesis
    proof (cases "ok4 \<and> y = Succeeds \<and> o6 \<noteq> None \<and> ok7")
      case False
      then show ?thesis using st True h m p r s t n early at4 f6 f7
        by (auto split: bool.splits if_splits option.splits)
    next
      case all: True
      then obtain hh where hh: "o6 = Some hh" by auto
      have rl: "replaceLive sha hooks live stage p (Some hh) sourceHash fs7 = ((r, rm), fs')"
        using st True h m p r s t n all hh at4 f6 by auto
      have at7: "fs_trees fs7 p = Some old" "fs_trees fs7 live = None" "distinct [live, stage, p]" "fs_trees fs7 stage = Some new"
        "fs_trees fs7 source = Some new"
        using f7 all f6 f4 f1 True pn ne at4 assms(5) by auto
      note k = replaceLive_keeps [OF rl at7(1-4)]
      have "fs_trees fs' source = Some new" using k(3) [of source] at7(5) ne pn assms(5) by auto
      moreover have "(fs_trees fs7)(stage := None, p := None, live := Some new) = (fs_trees fs)(live := Some new)"
        using f7 all f6 f4 f1 f3(1) assms(3) by (auto simp: fun_eq_iff)
      ultimately show ?thesis using k(1,2) rb by (auto simp: kept_def)
    qed
  qed
  then show "fs_trees fs' source = Some new" "r = None \<Longrightarrow> \<not> rm \<and> fs_trees fs' = (fs_trees fs)(live := Some new)"
    "r = Some e \<Longrightarrow> kept live old (Some new) e fs'" by blast+
qed

text \<open>C37: A report is replaced whole or not at all, and the old one is never lost. Whatever operation of \<^verbatim>\<open>publish\<close>
  fails, at whatever point and however far it had come, the source is unchanged, and: on success the live report is
  exactly the source's files, and nothing else has changed; on an error the old report is still there in
  full, in its place or in a rollback directory next to it, unless the new report had been published and verified
  and only removing the rollback failed.\<close>

theorem publish_keeps_old:
  assumes "publish sha hooks source live fs = (r, fs')" "fs_trees fs live = Some old"
  shows "fs_trees fs' source = fs_trees fs source \<and>
    (case r of
       None \<Rightarrow> fs_trees fs source \<noteq> None \<and> fs_trees fs' = (fs_trees fs)(live := fs_trees fs source)
     | Some e \<Rightarrow> kept live old (fs_trees fs source) e fs')"
proof -
  have early: ?thesis if "r \<noteq> None" "fs_trees fs' = fs_trees fs"
    using that assms(2) by (auto simp: kept_def)
  note pub = assms(1) [unfolded publish_def]
  obtain x fs1 where h: "TreeSHA256 sha source fs = (x, fs1)" by fastforce
  obtain y fs2 where s: "nextOutcome fs1 = (y, fs2)" by fastforce
  obtain sg fs3 where m: "mkdirTemp (butlast live) (B ''.reports-stage-'') fs2 = (sg, fs3)" by fastforce
  have f2: "fs_trees fs1 = fs_trees fs" "fs_trees fs2 = fs_trees fs" using TreeSHA256_effect [OF h] nextOutcome_trees [OF s] by simp_all
  show ?thesis
  proof (cases "overlap source live \<or> x = None \<or> y \<noteq> Succeeds \<or> sg = None")
    case True
    then show ?thesis using pub h s m early f2 mkdirTemp_effect(2) [of _ _ fs2 fs3]
      by (auto split: if_splits option.splits)
  next
    case False
    then obtain hh stage where hh: "x = Some hh" "sg = Some stage" by auto
    obtain new where new: "fs_trees fs source = Some new" using TreeSHA256_exists h hh(1) by blast
    have ne: "source \<noteq> live" using False by (auto simp: overlap_def)
    have f3: "fs_trees fs stage = None" "fs_trees fs3 = (fs_trees fs)(stage := Some [])" using mkdirTemp_effect(1) [OF m [unfolded hh(2)]] f2 by simp_all
    then have sn: "stage \<noteq> live" "stage \<noteq> source" using assms(2) new by auto
    obtain ok fs4 where r: "removeEmpty stage fs3 = (ok, fs4)" by fastforce
    have f4: "ok \<Longrightarrow> fs_trees fs4 = fs_trees fs" "\<not> ok \<Longrightarrow> fs_trees fs4 = fs_trees fs3"
      using removeEmpty_effect [of stage fs3 fs4] r f3 by (auto simp: fun_eq_iff)
    have rest: "(case (ok, fs4) of
        (True, fs) \<Rightarrow> (case publishStaged sha hooks source live stage hh fs of ((e, removeStage), fs) \<Rightarrow>
          (e, if removeStage then snd (removeAll' stage fs) else fs))
      | (False, fs) \<Rightarrow> (Some TxnIO, fs)) = (r, fs')"
      using pub False unfolding h s m hh prod.case r [symmetric] by simp
    show ?thesis
    proof (cases ok)
      case bad: False
      then have "r = Some TxnIO" "fs' = fs4" using rest bad by simp_all
      moreover have "fs_trees fs4 live = Some old" "fs_trees fs4 source = Some new" using f4(2) bad f3(2) sn assms(2) new by simp_all
      ultimately show ?thesis using new by (simp add: keptI)
    next
      case True
      obtain r0 rm fs5 where p0: "publishStaged sha hooks source live stage hh fs4 = ((r0, rm), fs5)" by (metis surj_pair)
      have "r0 = r" "fs' = (if rm then snd (removeAll' stage fs5) else fs5)"
        using rest True by (simp_all add: p0)
      note p = p0 [unfolded this(1)] this(2)
      have at4: "fs_trees fs4 live = Some old" "fs_trees fs4 stage = None" "fs_trees fs4 source = Some new"
        using f4(1) True assms(2) f3(1) new by simp_all
      note k = publishStaged_keeps [OF p(1) at4 ne]
      obtain u where u: "fs_trees (snd (removeAll' stage fs5)) = (fs_trees fs5)(stage := u)"
        using removeAll_effect [of stage fs5] by (metis prod.collapse)
      have rs: "\<not> rollbackOf live stage"
        using mkdirTemp_name [OF m [unfolded hh(2)]] by (auto simp: rollbackOf_def)
      show ?thesis
      proof (cases r)
        case None
        then show ?thesis using k(1,2) p(2) f4(1) True new by auto
      next
        case (Some e)
        have "kept live old (Some new) e fs'" using k(3) [OF Some] p(2) u sn(1) rs by (auto simp: kept_def)
        then show ?thesis using Some k(1) p(2) u sn(2) new by auto
      qed
    qed
  qed
qed

text \<open>A backup never touches the live report, and a successful one is a full copy.\<close>

lemma Backup_copies:
  assumes "Backup sha live backup fs = (r, fs')"
  shows "p \<noteq> backup \<Longrightarrow> fs_trees fs' p = fs_trees fs p"
    "r = None \<Longrightarrow> fs_trees fs live \<noteq> None \<and> fs_trees fs' = (fs_trees fs)(backup := fs_trees fs live)"
proof -
  note bk = assms [unfolded Backup_def]
  obtain x fs1 where s: "nextOutcome fs = (x, fs1)" by fastforce
  obtain y fs2 where h: "TreeSHA256 sha live fs1 = (y, fs2)" by fastforce
  obtain ok fs3 where c: "copyTree live backup fs2 = (ok, fs3)" by fastforce
  obtain z fs4 where v: "TreeSHA256 sha backup fs3 = (z, fs4)" by fastforce
  have f: "fs_trees fs1 = fs_trees fs" "fs_trees fs2 = fs_trees fs" "fs_trees fs4 = fs_trees fs3"
    using nextOutcome_trees [OF s] TreeSHA256_effect [OF h] TreeSHA256_effect [OF v] by simp_all
  have f3: "fs_trees fs3 p = fs_trees fs p" if "p \<noteq> backup" for p
    using copyTree_fails [of live backup fs2 fs3] copyTree_effect [of live backup fs2 fs3] c that f(2)
    by (cases ok; cases "fs_trees fs backup") (auto simp: copyTree_def dest!: nextOutcome_trees split: prod.splits ioOutcome.splits option.splits)
  have rm: "fs_trees (snd (removeAll' backup g)) p = fs_trees g p" if "p \<noteq> backup" for g p
    using removeAll_effect [of backup g] that by (metis fun_upd_other prod.collapse)
  show "p \<noteq> backup \<Longrightarrow> fs_trees fs' p = fs_trees fs p"
    using bk [unfolded s prod.case h c] f f3 rm v
    by (auto split: if_splits option.splits bool.splits prod.splits) (metis snd_conv)+
  show "r = None \<Longrightarrow> fs_trees fs live \<noteq> None \<and> fs_trees fs' = (fs_trees fs)(backup := fs_trees fs live)"
    using bk [unfolded s prod.case h c] f v copyTree_effect [of live backup fs2 fs3] c
    by (auto split: if_splits option.splits bool.splits prod.splits)
qed

text \<open>
  The hash of a tree is taken over paths and contents without their lengths, so that two different reports can
  have the same bytes hashed: a verified copy is not known to have the same files.
\<close>

lemma tree_hash_ambiguous:
  "\<exists>t u. t \<noteq> u \<and> (\<forall>sha. treeHash sha t \<noteq> None \<and> treeHash sha t = treeHash sha u)"
proof -
  define t where "t = [(B ''clients/index.json'', Regular [1]), (B ''server/index.json'', Regular [2]), (B ''server/x'', Regular [3])]"
  define u where "u = [(B ''clients/index.json'', Regular [1]), (B ''server/index.json'', Regular ([2] @ B ''server/x'' @ [0, 3]))]"
  have "t \<noteq> u" by (simp add: t_def u_def)
  moreover have "treeHash sha t \<noteq> None \<and> treeHash sha t = treeHash sha u" for sha
    by (simp add: t_def u_def treeHash_def requireReport_def)
  ultimately show ?thesis by blast
qed

text \<open>When nothing fails, a report is published, whether or not there was one before.\<close>

lemma copyEntries_ok: "treeBytes t \<noteq> None \<Longrightarrow> distinct (map fst (d @ t)) \<Longrightarrow> copyEntries t d = (True, d @ t)"
proof (induction t arbitrary: d)
  case (Cons f t)
  then show ?case using Cons.IH [of "d @ [f]"] by (auto split: entry.splits simp: map_of_eq_None_iff)
qed simp

lemma nextOutcome_calm: "fs_script fs = [] \<Longrightarrow> nextOutcome fs = (Succeeds, fs)"
  by (cases fs) (simp add: nextOutcome_def)

lemma publish_succeeds:
  assumes calm: "fs_script fs = []" and apart: "\<not> overlap source live"
    and new: "fs_trees fs source = Some new" "treeHash sha new \<noteq> None" "distinct (map fst new)"
    and old: "fs_trees fs live = None \<or> fs_trees fs live = Some old \<and> treeHash sha old \<noteq> None"
    and names: "fs_names fs = [a, b]" "fs_trees fs stage = None" "fs_trees fs rollback = None" "distinct [stage, rollback, live]"
    and "stage = butlast live @ [B ''.reports-stage-'' @ a]" "rollback = butlast live @ [B ''.reports-rollback-'' @ b]"
  shows "fst (publish sha noHooks source live fs) = None"
proof -
  have ne: "source \<noteq> live" "stage \<noteq> source" "rollback \<noteq> source" using apart new(1) names(2,3) by (auto simp: overlap_def)
  have cp: "copyEntries new [] = (True, new)" using copyEntries_ok [of new "[]"] new(2,3) by (auto simp: treeHash_def split: if_splits)
  obtain h where h: "treeHash sha new = Some h" using new(2) by blast
  note defs = mkdirTemp_def removeEmpty_def removeAll'_def renameTree_def TreeSHA256_def copyTree_def nextOutcome_calm putTree_def
  have sym: "live \<noteq> stage" "live \<noteq> rollback" "rollback \<noteq> stage" "live \<noteq> source" "source \<noteq> stage" "source \<noteq> rollback"
    using names(4) ne by auto
  note dirs = assms(11,12) [symmetric]
  show ?thesis using old
  proof
    assume "fs_trees fs live = None"
    then show ?thesis using calm apart new(1) h names ne cp sym
      by (simp add: publish_def publishStaged_def replaceLive_def noHooks_def defs Let_def dirs del: B_Cons)
  next
    assume o: "fs_trees fs live = Some old \<and> treeHash sha old \<noteq> None"
    then show ?thesis using calm apart new(1) h names ne cp sym
      by (auto simp add: publish_def publishStaged_def replaceLive_def noHooks_def defs Let_def dirs simp del: B_Cons)
  qed
qed

definition demoReport :: "byte \<Rightarrow> tree" where
  "demoReport b = [(B ''clients/index.json'', Regular [b]), (B ''server/index.json'', Regular [b])]"

definition demoFiles :: "ioOutcome list \<Rightarrow> filesystem" where
  "demoFiles script = \<lparr>fs_trees = (\<lambda>_. None)([B ''new''] \<mapsto> demoReport 2, [B ''live''] \<mapsto> demoReport 1), fs_script = script,
     fs_names = [B ''1'', B ''2'', B ''3'']\<rparr>"

text \<open>The staged report cannot be moved into place: the old one is put back.\<close>

theorem publish_keeps_old_witness:
  "\<exists>fs'. publish id noHooks [B ''new''] [B ''live''] (demoFiles (replicate 11 Succeeds @ [Fails])) = (Some PublishStaged, fs') \<and>
    fs_trees fs' [B ''live''] = Some (demoReport 1) \<and> fs_trees fs' [B ''new''] = Some (demoReport 2)"
proof -
  let ?fs = "demoFiles (replicate 11 Succeeds @ [Fails])"
  have e: "fst (publish id noHooks [B ''new''] [B ''live''] ?fs) = Some PublishStaged"
    "fs_trees (snd (publish id noHooks [B ''new''] [B ''live''] ?fs)) [B ''live''] = Some (demoReport 1)" by code_simp+
  have l: "fs_trees ?fs [B ''live''] = Some (demoReport 1)" "fs_trees ?fs [B ''new''] = Some (demoReport 2)"
    by (simp_all add: demoFiles_def)
  obtain r fs' where p: "publish id noHooks [B ''new''] [B ''live''] ?fs = (r, fs')" by fastforce
  show ?thesis using publish_keeps_old [OF p l(1)] e l(2) unfolding p by auto
qed

end
