(* ===== verification/Bench_Workload.thy ===== *)
theory Bench_Workload
  imports Httpx Extension Utf8x
begin

text \<open>
  The deterministic inputs of the benchmark harness: payload generation (\<^verbatim>\<open>bench/harness/support/payload.go\<close>), the
  echo check (\<^verbatim>\<open>window.go\<close>), artifact names and digests (\<^verbatim>\<open>runpath.go\<close>, \<^verbatim>\<open>sha256.go\<close>, \<^verbatim>\<open>toolchain.go\<close>), and the
  schedule of paired blocks with their payload seeds (\<^verbatim>\<open>bench/harness/paired/order.go\<close>). The generator
  \<^verbatim>\<open>math/rand/v2\<close> is a parameter.
\<close>

text \<open>\<^verbatim>\<open>strings.Split\<close> at one byte\<close>

primrec splitOn :: "byte \<Rightarrow> bytes \<Rightarrow> bytes list" where
  "splitOn c [] = [[]]"
| "splitOn c (b # s) =
     (if b = c then [] # splitOn c s
      else (case splitOn c s of [] \<Rightarrow> [[b]] | p # ps \<Rightarrow> (b # p) # ps))"

section \<open>Payloads\<close>

definition defaultPayloadSeed :: "64 word" where
  "defaultPayloadSeed = 0x9E3779B97F4A7C15"

text \<open>One round of the generator.\<close>

definition xorshift :: "64 word \<Rightarrow> 64 word" where
  "xorshift x = (let x = x XOR push_bit 13 x; x = x XOR drop_bit 7 x in x XOR push_bit 17 x)"

primrec payloadLoop :: "nat \<Rightarrow> 64 word \<Rightarrow> bytes" where
  "payloadLoop 0 x = []"
| "payloadLoop (Suc n) x = (let x = xorshift x in ucast x # payloadLoop n x)"

text \<open>\<open>None\<close> is the panic of \<^verbatim>\<open>make\<close> with a negative length.\<close>

definition DeterministicPayloadSeed :: "int \<Rightarrow> 64 word \<Rightarrow> bytes option" where
  "DeterministicPayloadSeed n seed =
     (if n < 0 then None else Some (payloadLoop (nat n) (if seed = 0 then defaultPayloadSeed else seed)))"

definition DeterministicPayload :: "int \<Rightarrow> bytes option" where
  "DeterministicPayload n = DeterministicPayloadSeed n defaultPayloadSeed"

text \<open>The patterns: a letter, and characters of two, three and four bytes.\<close>

definition textPatterns :: "bytes list" where
  "textPatterns = [[0x67], [0xC3, 0xA9], [0xE4, 0xB8, 0x96], [0xF0, 0x9F, 0x99, 0x82]]"

definition patternOf :: "64 word \<Rightarrow> bytes" where
  "patternOf x = textPatterns ! unat (x mod 4)"

lemma patternOf_in: "patternOf x \<in> set textPatterns"
proof -
  have "unat (x mod 4) = unat x mod 4" by (simp add: unat_mod)
  then have "unat (x mod 4) < length textPatterns" by (simp add: textPatterns_def)
  then show ?thesis unfolding patternOf_def by (rule nth_mem)
qed

lemma patternOf_ne: "0 < length (patternOf x)"
  using patternOf_in [of x] by (auto simp: textPatterns_def)

function textLoop :: "nat \<Rightarrow> 64 word \<Rightarrow> bytes \<Rightarrow> bytes" where
  "textLoop n x result =
     (if length result < n then
        let x = xorshift x;
            pattern = patternOf x in
        if length result + length pattern > n then textLoop n x (result @ [ucast (0x61 + x mod 26)])
        else textLoop n x (result @ pattern)
      else result)"
  by pat_completeness auto
termination
proof (relation "measure (\<lambda>(n, x, result). n - length result)", goal_cases)
  case (3 n x result x' pattern)
  then show ?case using patternOf_ne [of x'] by (simp del: length_greater_0_conv)
qed simp_all

declare textLoop.simps [simp del]

text \<open>
  \<open>None\<close> is the panic on a result that is not UTF-8; \<^verbatim>\<open>utf8.Valid\<close> of the standard library accepts what
  \<^const>\<open>Valid\<close> does, the encodings of sequences of scalar values.
\<close>

definition DeterministicTextPayloadSeed :: "int \<Rightarrow> 64 word \<Rightarrow> bytes option" where
  "DeterministicTextPayloadSeed n seed =
     (if n \<le> 0 then Some []
      else
        let result = textLoop (nat n) (if seed = 0 then defaultPayloadSeed else seed) [] in
        if Valid simdBulk_generic result then Some result else None)"

section \<open>The echo check\<close>

datatype echoErr = EchoLength int int | EchoContent nat byte byte

definition VerifyEcho :: "bytes \<Rightarrow> bytes \<Rightarrow> echoErr option" where
  "VerifyEcho expected got =
     (if expected = got then None
      else if length got \<noteq> length expected then Some (EchoLength (int (length got)) (int (length expected)))
      else
        (case filter (\<lambda>i. got ! i \<noteq> expected ! i) [0..<length expected] of
           [] \<Rightarrow> None
         | i # _ \<Rightarrow> Some (EchoContent i (got ! i) (expected ! i))))"

section \<open>Payloads, proved\<close>

text \<open>The generator is a bijection on the nonzero states: it never falls into the fixed point 0.\<close>

lemma xor_zero_eq:
  assumes "x XOR y = 0"
  shows "x = (y :: 64 word)"
proof -
  have "x = (x XOR y) XOR y" by (simp add: xor.assoc)
  then show ?thesis by (simp add: assms)
qed

lemma xor_shift_zero:
  fixes x :: "64 word"
  shows "0 < k \<Longrightarrow> x XOR push_bit k x = 0 \<Longrightarrow> x = 0" "0 < k \<Longrightarrow> x XOR drop_bit k x = 0 \<Longrightarrow> x = 0"
proof -
  show "x = 0" if k: "0 < k" and z: "x XOR push_bit k x = 0"
  proof -
    have s: "bit x n \<longleftrightarrow> k \<le> n \<and> n < 64 \<and> bit x (n - k)" for n
      using arg_cong [OF xor_zero_eq [OF z], of "\<lambda>w. bit w n"] by (simp add: bit_push_bit_iff)
    have "\<not> bit x n" for n
    proof (induction n rule: less_induct)
      case (less n)
      then show ?case using s [of n] k by (cases "k \<le> n") auto
    qed
    then show ?thesis by (intro bit_eqI) simp
  qed
  show "x = 0" if k: "0 < k" and z: "x XOR drop_bit k x = 0"
  proof -
    have s: "bit x n \<longleftrightarrow> bit x (n + k)" for n
      using arg_cong [OF xor_zero_eq [OF z], of "\<lambda>w. bit w n"] by (simp add: bit_drop_bit_eq add.commute)
    have "bit x n \<Longrightarrow> bit x (n + m * k)" for n m
    proof (induction m)
      case (Suc m)
      then show ?case using s [of "n + m * k"] by (simp add: algebra_simps)
    qed simp
    then have far: "bit x n \<Longrightarrow> bit x (n + 64 * k)" for n .
    have "\<not> bit x n" for n
    proof
      assume "bit x n"
      from bit_imp_le_length [OF far [OF this]] show False using k by simp
    qed
    then show ?thesis by (intro bit_eqI) simp
  qed
qed

lemma xorshift_nonzero: "x \<noteq> 0 \<Longrightarrow> xorshift x \<noteq> 0"
  unfolding xorshift_def Let_def
  using xor_shift_zero(1) [of 13 x] xor_shift_zero(2) [of 7 "x XOR push_bit 13 x"]
    xor_shift_zero(1) [of 17 "(x XOR push_bit 13 x) XOR drop_bit 7 (x XOR push_bit 13 x)"] by auto

lemma length_payloadLoop [simp]: "length (payloadLoop n x) = n"
  by (induction n arbitrary: x) (simp_all add: Let_def)

lemma run_pattern: "p \<in> set textPatterns \<Longrightarrow> run accept p = accept"
proof -
  have "list_all (\<lambda>p. run accept p = accept) textPatterns" by code_simp
  then show "p \<in> set textPatterns \<Longrightarrow> run accept p = accept" by (simp add: list_all_iff)
qed

lemma run_letter: "run accept [ucast (0x61 + (x :: 64 word) mod 26)] = accept"
proof -
  have "unat (x mod 26) < 26" by (simp add: unat_mod)
  then have "unat (0x61 + x mod 26) = 97 + unat (x mod 26)" by (subst unat_add_lem [THEN iffD1]) simp_all
  then have "unat (ucast (0x61 + x mod 26) :: byte) < 128" using \<open>unat (x mod 26) < 26\<close>
    by (simp add: unsigned_ucast_eq take_bit_eq_mod)
  then have "(ucast (0x61 + x mod 26) :: byte) < 0x80" by (simp add: word_less_nat_alt)
  then show ?thesis by simp
qed

lemma textLoop_spec:
  assumes "length r \<le> n" "run accept r = accept"
  shows "length (textLoop n x r) = n \<and> run accept (textLoop n x r) = accept"
  using assms
proof (induction n x r rule: textLoop.induct)
  case (1 n x r)
  show ?case
  proof (cases "length r < n")
    case True
    then show ?thesis using 1 run_pattern [OF patternOf_in [of "xorshift x"]] run_letter [of "xorshift x"]
      by (subst textLoop.simps, subst (2) textLoop.simps) (auto simp: Let_def run_append simp del: run_Cons)
  next
    case False
    then show ?thesis using "1.prems" by (simp add: textLoop.simps [of n x r])
  qed
qed

text \<open>The generator of text payloads never panics. For every length and seed it returns exactly that many bytes,
  none for a length that is not positive, and they are valid UTF-8, however the characters of one to four bytes fall
  at the end.\<close>

theorem text_payload_valid:
  "\<exists>p. DeterministicTextPayloadSeed n seed = Some p \<and> int (length p) = max 0 n \<and> Valid simdBulk_generic p"
  using textLoop_spec [of "[]" "nat n"] by (auto simp: DeterministicTextPayloadSeed_def Let_def generic.Valid_run)

section \<open>Names, digests and environments\<close>

definition SafeName :: "bytes \<Rightarrow> bytes" where
  "SafeName value = map (\<lambda>b. if b \<in> {0x2F, 0x5C, 0x3A, 0x20} then 0x2D else b) value"

definition RunLogPrefix :: "bytes \<Rightarrow> bytes \<Rightarrow> bytes \<Rightarrow> bytes" where
  "RunLogPrefix scenario block library = SafeName scenario @ B ''__'' @ SafeName block @ B ''__'' @ SafeName library"

definition letterOrDigit :: "byte \<Rightarrow> bool" where
  "letterOrDigit b \<longleftrightarrow> 0x61 \<le> b \<and> b \<le> 0x7A \<or> 0x41 \<le> b \<and> b \<le> 0x5A \<or> 0x30 \<le> b \<and> b \<le> 0x39"

text \<open>A byte from 0x80 on belongs to a rune outside ASCII, or to none, and is refused either way.\<close>

definition ValidArtifactID :: "bytes \<Rightarrow> bool" where
  "ValidArtifactID value \<longleftrightarrow> value \<noteq> [] \<and> value \<noteq> B ''.'' \<and> value \<noteq> B ''..'' \<and>
     list_all (\<lambda>b. letterOrDigit b \<or> b = 0x2D \<or> b = 0x5F \<or> b = 0x2E) value"

definition lowerHex :: "byte \<Rightarrow> bool" where
  "lowerHex b \<longleftrightarrow> 0x30 \<le> b \<and> b \<le> 0x39 \<or> 0x61 \<le> b \<and> b \<le> 0x66"

definition ValidSHA256 :: "bytes \<Rightarrow> bool" where
  "ValidSHA256 value \<longleftrightarrow> length value = 64 \<and> list_all lowerHex value"

definition ValidGitObjectID :: "bytes \<Rightarrow> bool" where
  "ValidGitObjectID value \<longleftrightarrow> (length value = 40 \<or> length value = 64) \<and> list_all lowerHex value"

definition envKey :: "bytes \<Rightarrow> bytes" where
  "envKey entry = takeWhile (\<lambda>b. b \<noteq> 0x3D) entry"

definition OverrideEnvironment :: "bytes list \<Rightarrow> bytes list \<Rightarrow> bytes list" where
  "OverrideEnvironment base overrides = filter (\<lambda>entry. envKey entry \<notin> envKey ` set overrides) base @ overrides"

section \<open>Paired blocks\<close>

datatype OrderPattern = OrderAB | OrderBA

record BlockOrder =
  bo_ID :: bytes
  bo_Pattern :: OrderPattern
  bo_Libraries :: "bytes \<times> bytes"

datatype pairedErr =
    LabelsRequired
  | LabelsEqual
  | BlocksNotEven int
  | NegativeIndices int int

text \<open>\<^verbatim>\<open>fmt.Sprintf("block-%03d", index)\<close>\<close>

definition blockID :: "nat \<Rightarrow> bytes" where
  "blockID index = B ''block-'' @ replicate (3 - length (decimal index)) 0x30 @ decimal index"

text \<open>\<open>intN2\<close> is \<^verbatim>\<open>SeededRand(seed).IntN(2)\<close>.\<close>

definition BalancedBlocks :: "(64 word \<Rightarrow> nat) \<Rightarrow> bytes \<Rightarrow> bytes \<Rightarrow> int \<Rightarrow> 64 word \<Rightarrow> pairedErr + BlockOrder list" where
  "BalancedBlocks intN2 candidate comparator blocks seed =
     (if candidate = [] \<or> comparator = [] then Inl LabelsRequired
      else if candidate = comparator then Inl LabelsEqual
      else if blocks \<le> 0 \<or> blocks mod 2 \<noteq> 0 then Inl (BlocksNotEven blocks)
      else
        let start = intN2 seed in
        Inr (map (\<lambda>i. if (i + start) mod 2 = 1
            then \<lparr>bo_ID = blockID i, bo_Pattern = OrderBA, bo_Libraries = (comparator, candidate)\<rparr>
            else \<lparr>bo_ID = blockID i, bo_Pattern = OrderAB, bo_Libraries = (candidate, comparator)\<rparr>) [0..<nat blocks]))"

definition mixSeed :: "64 word \<Rightarrow> 64 word" where
  "mixSeed z =
     (let z = (z XOR drop_bit 30 z) * 0xBF58476D1CE4E5B9;
          z = (z XOR drop_bit 27 z) * 0x94D049BB133111EB
      in z XOR drop_bit 31 z)"

definition BlockPayloadSeed :: "64 word \<Rightarrow> int \<Rightarrow> int \<Rightarrow> pairedErr + 64 word" where
  "BlockPayloadSeed policySeed scenarioIndex repetition =
     (if scenarioIndex < 0 \<or> repetition < 0 then Inl (NegativeIndices scenarioIndex repetition)
      else
        let z = policySeed XOR (word_of_int (scenarioIndex + 1) * 0x9E3779B97F4A7C15)
              XOR (word_of_int (repetition + 1) * 0xD1B54A32D192ED03);
            z = mixSeed z in
        Inr (if z = 0 then 0xA24BAED4963EE407 else z))"

section \<open>Paired blocks, proved\<close>

definition digitsValue :: "bytes \<Rightarrow> nat" where
  "digitsValue ds = foldl (\<lambda>a d. 10 * a + (unat d - 48)) 0 ds"

lemma digitsValue_snoc: "digitsValue (ds @ [d]) = 10 * digitsValue ds + (unat d - 48)"
  by (simp add: digitsValue_def)

lemma digitsValue_decimal: "digitsValue (decimal n) = n"
proof (induction n rule: decimal.induct)
  case (1 n)
  have d: "unat (word_of_nat (48 + m) :: byte) - 48 = m" if "m < 10" for m
    using that by (simp add: unat_of_nat del: of_nat_add)
  show ?case
  proof (cases "n < 10")
    case True
    then show ?thesis using d [of n] by (simp add: decimal.simps [of n] digitsValue_def)
  next
    case False
    then show ?thesis using d [of "n mod 10"] 1 by (simp add: decimal.simps [of n] digitsValue_snoc)
  qed
qed

lemma digitsValue_zeros: "digitsValue (replicate k 0x30 @ ds) = digitsValue ds"
  unfolding digitsValue_def by (induction k) simp_all

lemma blockID_inject: "blockID i = blockID j \<longleftrightarrow> i = j"
proof
  assume "blockID i = blockID j"
  then have "replicate (3 - length (decimal i)) 0x30 @ decimal i = replicate (3 - length (decimal j)) 0x30 @ decimal j"
    by (simp add: blockID_def)
  then show "i = j" by (metis digitsValue_zeros digitsValue_decimal)
qed simp

lemma balanced_count: "length (filter (\<lambda>i. (i + s) mod 2 = Suc 0) [0..<2 * n]) = n"
proof (induction n)
  case (Suc n)
  have "(2 * n + s) mod 2 = Suc 0 \<longleftrightarrow> (Suc (2 * n) + s) mod 2 \<noteq> Suc 0" by presburger
  then show ?case using Suc by simp
qed simp

text \<open>A schedule: exactly balanced, alternating, its identifiers distinct, both labels in every block.\<close>

definition balancedSchedule :: "bytes \<Rightarrow> bytes \<Rightarrow> BlockOrder list \<Rightarrow> bool" where
  "balancedSchedule candidate comparator bs \<longleftrightarrow>
     2 * length (filter (\<lambda>b. bo_Pattern b = OrderAB) bs) = length bs \<and>
     2 * length (filter (\<lambda>b. bo_Pattern b = OrderBA) bs) = length bs \<and> distinct (map bo_ID bs) \<and>
     (\<forall>i. Suc i < length bs \<longrightarrow> bo_Pattern (bs ! i) \<noteq> bo_Pattern (bs ! Suc i)) \<and>
     list_all (\<lambda>b. bo_Libraries b = (if bo_Pattern b = OrderAB then (candidate, comparator) else (comparator, candidate))) bs"

lemma BalancedBlocks_balanced:
  assumes "BalancedBlocks intN2 candidate comparator blocks seed = Inr bs"
  shows "balancedSchedule candidate comparator bs" "int (length bs) = blocks"
proof -
  define s where "s = intN2 seed"
  obtain n where n: "nat blocks = 2 * n" "0 < blocks"
    using assms by (auto simp: BalancedBlocks_def split: if_splits) (metis dvd_def even_nat_iff mod_0_imp_dvd not_less order_less_imp_le)
  define f where "f = (\<lambda>i. if (i + s) mod 2 = Suc 0
    then \<lparr>bo_ID = blockID i, bo_Pattern = OrderBA, bo_Libraries = (comparator, candidate)\<rparr>
    else \<lparr>bo_ID = blockID i, bo_Pattern = OrderAB, bo_Libraries = (candidate, comparator)\<rparr>)"
  have bs: "bs = map f [0..<2 * n]"
    using assms n by (auto simp: BalancedBlocks_def f_def s_def Let_def split: if_splits)
  have p: "bo_Pattern (f i) = OrderBA \<longleftrightarrow> (i + s) mod 2 = Suc 0" "bo_Pattern (f i) = OrderAB \<longleftrightarrow> (i + s) mod 2 \<noteq> Suc 0"
    "bo_ID (f i) = blockID i" for i by (simp_all add: f_def)
  have ba: "length (filter (\<lambda>b. bo_Pattern b = OrderBA) bs) = n"
    by (simp add: bs filter_map o_def p balanced_count)
  have other: "(\<lambda>b. bo_Pattern b \<noteq> OrderBA) = (\<lambda>b. bo_Pattern b = OrderAB)"
    using OrderPattern.exhaust OrderPattern.distinct by (intro ext) metis
  have len: "length bs = 2 * n" by (simp add: bs)
  have ab: "length (filter (\<lambda>b. bo_Pattern b = OrderAB) bs) = n"
    using sum_length_filter_compl [of "\<lambda>b. bo_Pattern b = OrderBA" bs, unfolded other] ba len by linarith
  have "distinct (map bo_ID bs)"
    by (simp add: bs o_def p distinct_map inj_on_def blockID_inject)
  moreover have "bo_Pattern (bs ! i) \<noteq> bo_Pattern (bs ! Suc i)" if "Suc i < length bs" for i
  proof -
    have "(i + s) mod 2 = Suc 0 \<longleftrightarrow> (Suc i + s) mod 2 \<noteq> Suc 0" by presburger
    then show ?thesis using that by (simp add: bs f_def)
  qed
  moreover have "list_all (\<lambda>b. bo_Libraries b = (if bo_Pattern b = OrderAB then (candidate, comparator) else (comparator, candidate))) bs"
    by (auto simp: bs list_all_iff f_def)
  ultimately show "balancedSchedule candidate comparator bs" "int (length bs) = blocks"
    using ab ba n len by (simp_all add: balancedSchedule_def)
qed

section \<open>Payload seeds, proved\<close>

lemma xor_cancel: "x XOR y = x XOR z \<longleftrightarrow> y = (z :: 64 word)"
proof
  assume "x XOR y = x XOR z"
  then have "(x XOR x) XOR y = (x XOR x) XOR z" unfolding xor.assoc by simp
  then show "y = z" by simp
qed simp

lemma xor_drop_inject:
  fixes x y :: "64 word"
  assumes "0 < k"
  shows "x XOR drop_bit k x = y XOR drop_bit k y \<longleftrightarrow> x = y"
proof
  assume e: "x XOR drop_bit k x = y XOR drop_bit k y"
  have "(x XOR y) XOR drop_bit k (x XOR y) = (x XOR drop_bit k x) XOR (y XOR drop_bit k y)"
    by (simp add: drop_bit_xor ac_simps)
  also have "\<dots> = 0" by (simp add: e)
  finally have "x XOR y = 0" by (rule xor_shift_zero(2) [OF assms])
  then show "x = y" by (rule xor_zero_eq)
qed simp

lemma odd_mult_inject:
  fixes x y c d :: "64 word"
  assumes "c * d = 1"
  shows "x * c = y * c \<longleftrightarrow> x = y"
proof
  assume "x * c = y * c"
  then have "x * (c * d) = y * (c * d)" unfolding mult.assoc [symmetric] by simp
  then show "x = y" by (simp add: assms)
qed simp

lemma mixSeed_inject: "mixSeed x = mixSeed y \<longleftrightarrow> x = y"
proof -
  have "(0xBF58476D1CE4E5B9 :: 64 word) * 0x96de1b173f119089 = 1" "(0x94D049BB133111EB :: 64 word) * 0x319642b2d24d8ec3 = 1"
    by simp_all
  note o = this [THEN odd_mult_inject]
  show ?thesis by (simp only: mixSeed_def Let_def xor_drop_inject zero_less_numeral o)
qed

lemma index_inject:
  fixes c d :: "64 word"
  assumes "c * d = 1" "0 \<le> i" "i < 2 ^ 63" "0 \<le> j" "j < 2 ^ 63"
  shows "word_of_int (i + 1) * c = word_of_int (j + 1) * c \<longleftrightarrow> i = j"
proof -
  have "word_of_int (i + 1) = (word_of_int (j + 1) :: 64 word) \<longleftrightarrow> i = j"
    using assms(2-5) by (simp add: word_of_int_eq_iff take_bit_int_eq_self)
  then show ?thesis using odd_mult_inject [OF assms(1)] by simp
qed

text \<open>No two blocks share their payload by accident. Under one policy seed, two repetitions of a scenario, or the
  same repetition of two scenarios, get different payload seeds for all indices an \<^verbatim>\<open>int\<close> can hold; the one
  exception is the constant that replaces a seed of zero. No seed is zero.\<close>

theorem block_seeds_distinct:
  assumes "0 \<le> s" "s < 2 ^ 63" "0 \<le> s'" "s' < 2 ^ 63" "0 \<le> r" "r < 2 ^ 63" "0 \<le> r'" "r' < 2 ^ 63" "(s = s') \<noteq> (r = r')"
  shows "\<exists>z z'. BlockPayloadSeed p s r = Inr z \<and> BlockPayloadSeed p s' r' = Inr z' \<and> z \<noteq> 0 \<and> z' \<noteq> 0 \<and>
    (z = z' \<longrightarrow> z = 0xA24BAED4963EE407)"
proof -
  let ?a = "\<lambda>i. word_of_int (i + 1) * (0x9E3779B97F4A7C15 :: 64 word)" and ?b = "\<lambda>i. word_of_int (i + 1) * (0xD1B54A32D192ED03 :: 64 word)"
  have "(0x9E3779B97F4A7C15 :: 64 word) * 0xf1de83e19937733d = 1" "(0xD1B54A32D192ED03 :: 64 word) * 0x6106ccfa448e5ab = 1"
    by simp_all
  note i = index_inject [OF this(1) assms(1-4)] index_inject [OF this(2) assms(5-8)]
  have x: "p XOR a XOR b = p XOR a' XOR b' \<Longrightarrow> (a = a') = (b = b')" for a b a' b' :: "64 word"
    using xor_cancel [of "p XOR a" b b'] xor_cancel [of "p XOR b" a a'] by (auto simp: ac_simps)
  have "p XOR ?a s XOR ?b r \<noteq> p XOR ?a s' XOR ?b r'" using x [of "?a s" "?b r" "?a s'" "?b r'"] assms(9) i by blast
  then have "mixSeed (p XOR ?a s XOR ?b r) \<noteq> mixSeed (p XOR ?a s' XOR ?b r')" by (simp only: mixSeed_inject) simp
  then show ?thesis using assms(1,3,5,7) by (auto simp: BlockPayloadSeed_def Let_def)
qed

theorem block_seeds_distinct_witness:
  "\<exists>z z'. BlockPayloadSeed 42 0 0 = Inr z \<and> BlockPayloadSeed 42 0 1 = Inr z' \<and> z \<noteq> z'"
  using block_seeds_distinct [of 0 0 0 1 42] by (auto simp: BlockPayloadSeed_def mixSeed_def Let_def)

end
