(* ===== verification/Bench_Policy.thy ===== *)
theory Bench_Policy
  imports Complex_Main Bench_Workload "HOL-Library.List_Lexorder"
begin

text \<open>
  The comparison policy of the benchmark harness, \<^verbatim>\<open>bench/harness/policy/policy.go\<close>: its schema, the validation
  that decides which runs may start, the resolution of library names, and the identity hash of an adapter. A
  \<^verbatim>\<open>float64\<close> is an exact value here, since the policy only compares; an error is the fixed part of its message. A Go
  map is a list of its entries with distinct keys; which of several errors a Go map's iteration reports first is not
  specified, and the list's order stands for it. JSON decoding, SHA-256 and the source files are parameters.
\<close>

section \<open>Floating-point values\<close>

datatype float64 = NaN | NegInf | Finite rat | PosInf

fun fless :: "float64 \<Rightarrow> float64 \<Rightarrow> bool" where
  "fless (Finite a) (Finite b) \<longleftrightarrow> a < b"
| "fless NegInf (Finite _) \<longleftrightarrow> True"
| "fless NegInf PosInf \<longleftrightarrow> True"
| "fless (Finite _) PosInf \<longleftrightarrow> True"
| "fless _ _ \<longleftrightarrow> False"

definition fle :: "float64 \<Rightarrow> float64 \<Rightarrow> bool" where
  "fle a b \<longleftrightarrow> fless a b \<or> a = b \<and> a \<noteq> NaN"

text \<open>The \<^verbatim>\<open>float64\<close> nearest to 0.05.\<close>

definition float_0_05 :: float64 where
  "float_0_05 = Finite (3602879701896397 / 2 ^ 56)"

section \<open>The schema\<close>

definition PolicySchemaVersion :: int where "PolicySchemaVersion = 3"

definition RunKindAA :: bytes where "RunKindAA = B ''aa''"
definition RunKindBaseline :: bytes where "RunKindBaseline = B ''baseline''"
definition RunKindDiagnostic :: bytes where "RunKindDiagnostic = B ''diagnostic''"
definition EvidenceClassSelfValidation :: bytes where "EvidenceClassSelfValidation = B ''self_validation''"
definition EvidenceClassBaseline :: bytes where "EvidenceClassBaseline = B ''baseline''"
definition EvidenceClassDiagnostic :: bytes where "EvidenceClassDiagnostic = B ''diagnostic''"
definition EvidenceClassClaim :: bytes where "EvidenceClassClaim = B ''claim''"
definition HostModeSame :: bytes where "HostModeSame = B ''same_host''"
definition HostModeSeparate :: bytes where "HostModeSeparate = B ''separate_host''"
definition ToolchainStock :: bytes where "ToolchainStock = B ''stock''"
definition ToolchainCustom :: bytes where "ToolchainCustom = B ''custom''"
definition AdapterClassAA :: bytes where "AdapterClassAA = B ''aa''"
definition AdapterClassBestAPI :: bytes where "AdapterClassBestAPI = B ''best_api''"
definition AdapterClassSemanticParity :: bytes where "AdapterClassSemanticParity = B ''semantic_parity''"
definition ValidationStrict :: bytes where "ValidationStrict = B ''strict_on''"
definition ValidationUnsafe :: bytes where "ValidationUnsafe = B ''validation_off''"
definition ClientGoWS :: bytes where "ClientGoWS = B ''gows''"
definition ClientGobwas :: bytes where "ClientGobwas = B ''gobwas''"
definition ClientRaw :: bytes where "ClientRaw = B ''raw''"
definition CellServerSensitive :: bytes where "CellServerSensitive = B ''server_sensitive''"
definition CellSaturated :: bytes where "CellSaturated = B ''saturated''"
definition CellDiagnostic :: bytes where "CellDiagnostic = B ''diagnostic''"
definition MessageBinary :: bytes where "MessageBinary = B ''binary''"
definition MessageText :: bytes where "MessageText = B ''text''"
definition ArrivalClosedLoop :: bytes where "ArrivalClosedLoop = B ''closed_loop''"
definition ArrivalPipelined :: bytes where "ArrivalPipelined = B ''pipelined''"
definition ArrivalOpenLoop :: bytes where "ArrivalOpenLoop = B ''open_loop''"

definition MaxInflightBytes :: int where "MaxInflightBytes = 2 ^ 20"
definition MaxOpenLoopRate :: int where "MaxOpenLoopRate = 1000000000"

text \<open>\<^verbatim>\<open>time.Second\<close>; a duration is its nanoseconds.\<close>

definition second :: int where "second = 1000000000"

record Series =
  se_ID :: bytes
  se_RunKind :: bytes
  se_EvidenceClass :: bytes
  se_HostMode :: bytes
  se_Toolchain :: bytes
  se_GoExperiment :: bytes
  se_AdapterClass :: bytes
  se_ValidationProfile :: bytes
  se_Client :: bytes

record Adapter =
  ad_ID :: bytes
  ad_Class :: bytes
  ad_SourceFiles :: "bytes list"

record RatioBand =
  rb_Lower :: float64
  rb_Upper :: float64

record AAGates =
  ag_MinSessions :: int
  ag_MinPairsPerSession :: int
  ag_Throughput :: RatioBand
  ag_P99 :: RatioBand
  ag_P999 :: RatioBand
  ag_OrderEffect :: RatioBand
  ag_MaxFalsePositive :: float64

record Bootstrap =
  bs_Replicates :: int
  bs_Confidence :: float64
  bs_NullIterations :: int

record Thresholds =
  th_ThroughputLowerBound :: float64
  th_ThroughputGeomean :: float64
  th_P99UpperBound :: float64
  th_P999CenterUpperBound :: float64

record HostGuard =
  hg_MaxLoad1 :: float64
  hg_MaxLoad1Drift :: float64
  hg_MaxForeignCPUPercent :: float64
  hg_ForbiddenProcessPatterns :: "bytes list"

record Scenario =
  sc_Name :: bytes
  sc_Primary :: bool
  sc_CellClass :: bytes
  sc_MessageType :: bytes
  sc_Arrival :: bytes
  sc_OfferedRate :: int
  sc_MaxSchedulerLateness :: int
  sc_PayloadBytes :: int
  sc_Connections :: int
  sc_Inflight :: int
  sc_Warmup :: int
  sc_Duration :: int
  sc_Repetitions :: int

record LibraryOverride =
  lo_Lib :: bytes
  lo_BuildEnv :: "bytes list"
  lo_ServerArgs :: "bytes list"

record Policy =
  po_SchemaVersion :: int
  po_Series :: Series
  po_Candidate :: bytes
  po_Comparator :: bytes
  po_Seed :: "64 word"
  po_Bootstrap :: Bootstrap
  po_AAGates :: AAGates
  po_Thresholds :: Thresholds
  po_Guard :: HostGuard
  po_Scenarios :: "Scenario list"
  po_LibraryOverrides :: "(bytes \<times> LibraryOverride) list"
  po_Adapters :: "(bytes \<times> Adapter) list"

record Resolved =
  rs_Lib :: bytes
  rs_Bin :: bytes
  rs_BuildEnv :: "bytes list"
  rs_ServerArgs :: "bytes list"

section \<open>Resolving names\<close>

definition Resolve :: "Policy \<Rightarrow> bytes \<Rightarrow> Resolved" where
  "Resolve p name =
     (case map_of (po_LibraryOverrides p) name of
        None \<Rightarrow> \<lparr>rs_Lib = name, rs_Bin = [], rs_BuildEnv = [], rs_ServerArgs = []\<rparr>
      | Some ov \<Rightarrow>
          \<lparr>rs_Lib = (if lo_Lib ov = [] then name else lo_Lib ov),
           rs_Bin = (if length (lo_BuildEnv ov) > 0 then name else []),
           rs_BuildEnv = lo_BuildEnv ov, rs_ServerArgs = lo_ServerArgs ov\<rparr>)"

definition PrimaryScenarios :: "Policy \<Rightarrow> Scenario list" where
  "PrimaryScenarios p = filter sc_Primary (po_Scenarios p)"

section \<open>Validation\<close>

type_synonym policyErr = string

text \<open>A \<^verbatim>\<open>switch\<close> of failing conditions.\<close>

primrec firstError :: "(bool \<times> policyErr) list \<Rightarrow> policyErr option" where
  "firstError [] = None"
| "firstError (c # cs) = (if fst c then Some (snd c) else firstError cs)"

definition orElse :: "policyErr option \<Rightarrow> policyErr option \<Rightarrow> policyErr option" where
  "orElse a b = (case a of None \<Rightarrow> b | Some e \<Rightarrow> Some e)"

primrec firstOf :: "('a \<Rightarrow> policyErr option) \<Rightarrow> 'a list \<Rightarrow> policyErr option" where
  "firstOf f [] = None"
| "firstOf f (x # xs) = orElse (f x) (firstOf f xs)"

definition validRunKind :: "bytes \<Rightarrow> bool" where
  "validRunKind v \<longleftrightarrow> v = RunKindAA \<or> v = RunKindBaseline \<or> v = RunKindDiagnostic"

definition validEvidenceClass :: "bytes \<Rightarrow> bool" where
  "validEvidenceClass v \<longleftrightarrow> v = EvidenceClassSelfValidation \<or> v = EvidenceClassBaseline \<or> v = EvidenceClassDiagnostic \<or>
     v = EvidenceClassClaim"

definition validAdapterClass :: "bytes \<Rightarrow> bool" where
  "validAdapterClass v \<longleftrightarrow> v = AdapterClassAA \<or> v = AdapterClassBestAPI \<or> v = AdapterClassSemanticParity"

definition validClient :: "bytes \<Rightarrow> bool" where
  "validClient v \<longleftrightarrow> v = ClientGoWS \<or> v = ClientGobwas \<or> v = ClientRaw"

definition validCellClass :: "bytes \<Rightarrow> bool" where
  "validCellClass v \<longleftrightarrow> v = CellServerSensitive \<or> v = CellSaturated \<or> v = CellDiagnostic"

definition validArrival :: "bytes \<Rightarrow> bool" where
  "validArrival v \<longleftrightarrow> v = ArrivalClosedLoop \<or> v = ArrivalPipelined \<or> v = ArrivalOpenLoop"

text \<open>The two tests on white space and \<^verbatim>\<open>=\<close> that come first are implied by the test of the parts.\<close>

definition validGoExperiment :: "bytes \<Rightarrow> bool" where
  "validGoExperiment v \<longleftrightarrow> list_all (\<lambda>part. part \<noteq> [] \<and> list_all (\<lambda>b. letterOrDigit b \<or> b = 0x5F) part) (splitOn 0x2C v)"

definition validEnvKey :: "bytes \<Rightarrow> bool" where
  "validEnvKey v \<longleftrightarrow> (case v of [] \<Rightarrow> False
     | b # r \<Rightarrow> (0x41 \<le> b \<and> b \<le> 0x5A \<or> 0x61 \<le> b \<and> b \<le> 0x7A \<or> b = 0x5F) \<and> list_all (\<lambda>b. letterOrDigit b \<or> b = 0x5F) r)"

definition validPositiveThreshold :: "float64 \<Rightarrow> bool" where
  "validPositiveThreshold v \<longleftrightarrow> fless (Finite 0) v \<and> v \<noteq> NaN \<and> v \<noteq> PosInf \<and> v \<noteq> NegInf"

definition bandErr :: "RatioBand \<Rightarrow> policyErr option" where
  "bandErr b = firstError [(rb_Lower b = NaN \<or> rb_Upper b = NaN \<or> fle (rb_Lower b) (Finite 0) \<or> fle (Finite 1) (rb_Lower b) \<or>
     fle (rb_Upper b) (Finite 1) \<or> fle (rb_Upper b) (rb_Lower b), ''must be a positive band spanning 1'')]"

definition validateGates :: "AAGates \<Rightarrow> policyErr option" where
  "validateGates g =
     orElse (firstError
       [(ag_MinSessions g < 3, ''aa_gates.min_sessions must be >= 3''),
        (ag_MinPairsPerSession g < 20 \<or> ag_MinPairsPerSession g mod 2 \<noteq> 0, ''aa_gates.min_pairs_per_session must be even and >= 20''),
        (fless (ag_MaxFalsePositive g) (Finite 0) \<or> fless float_0_05 (ag_MaxFalsePositive g),
         ''aa_gates.max_false_positive must be in [0,0.05]'')])
     (firstOf bandErr [ag_Throughput g, ag_P99 g, ag_P999 g, ag_OrderEffect g])"

text \<open>
  \<^verbatim>\<open>filepath.Clean\<close> leaves the path as it is and \<^verbatim>\<open>IsLocal\<close> holds: on a Unix system, no component is empty or
  leads elsewhere.
\<close>

definition cleanLocal :: "bytes \<Rightarrow> bool" where
  "cleanLocal s \<longleftrightarrow> s = B ''.'' \<or> list_all (\<lambda>c. c \<noteq> [] \<and> c \<noteq> B ''.'' \<and> c \<noteq> B ''..'') (splitOn 0x2F s)"

definition goSource :: "bytes \<Rightarrow> bool" where
  "goSource s \<longleftrightarrow> 0x5C \<notin> set s \<and> cleanLocal s \<and> (\<exists>i \<le> length s. drop i s = B ''.go'')"

primrec sourceErrs :: "bytes list \<Rightarrow> bytes list \<Rightarrow> policyErr option" where
  "sourceErrs seen [] = None"
| "sourceErrs seen (s # ss) =
     (if \<not> goSource s then Some ''adapter source must be a local .go path''
      else if s \<in> set seen then Some ''adapter repeats source''
      else sourceErrs (s # seen) ss)"

definition adapterErr :: "Policy \<Rightarrow> bytes \<Rightarrow> policyErr option" where
  "adapterErr p name =
     (case map_of (po_Adapters p) name of
        None \<Rightarrow> Some ''adapter is required''
      | Some a \<Rightarrow>
          orElse (firstError
            [(ad_ID a = [], ''adapter id is required''),
             (ad_Class a \<noteq> se_AdapterClass (po_Series p), ''adapter class differs from series class''),
             (ad_SourceFiles a = [], ''adapter source_files are required'')])
          (sourceErrs [] (ad_SourceFiles a)))"

definition validateAdapters :: "Policy \<Rightarrow> policyErr option" where
  "validateAdapters p =
     (if po_Adapters p = [] then Some ''adapters are required'' else firstOf (adapterErr p) [po_Candidate p, po_Comparator p])"

text \<open>The checks before the scenarios, in order.\<close>

definition seriesErrs :: "Series \<Rightarrow> (bool \<times> policyErr) list" where
  "seriesErrs s =
     [(se_ID s = [], ''series.id is required''),
      (\<not> validRunKind (se_RunKind s), ''unknown series.run_kind''),
      (\<not> validEvidenceClass (se_EvidenceClass s), ''unknown series.evidence_class''),
      (se_HostMode s \<noteq> HostModeSame \<and> se_HostMode s \<noteq> HostModeSeparate, ''unknown series.host_mode''),
      (se_Toolchain s \<noteq> ToolchainStock \<and> se_Toolchain s \<noteq> ToolchainCustom, ''unknown series.toolchain''),
      (se_Toolchain s = ToolchainStock \<and> se_GoExperiment s \<noteq> [], ''stock toolchain series must not set series.go_experiment''),
      (se_Toolchain s = ToolchainCustom \<and> se_GoExperiment s = [], ''custom toolchain series requires series.go_experiment''),
      (se_GoExperiment s \<noteq> [] \<and> \<not> validGoExperiment (se_GoExperiment s), ''invalid series.go_experiment''),
      (\<not> validAdapterClass (se_AdapterClass s), ''unknown series.adapter_class''),
      (se_ValidationProfile s \<noteq> ValidationStrict \<and> se_ValidationProfile s \<noteq> ValidationUnsafe, ''unknown series.validation_profile''),
      (\<not> validClient (se_Client s), ''unknown series.client''),
      (se_EvidenceClass s = EvidenceClassClaim \<and> se_HostMode s \<noteq> HostModeSeparate, ''claim evidence requires separate_host mode''),
      (se_EvidenceClass s = EvidenceClassClaim \<and> se_Toolchain s \<noteq> ToolchainStock, ''claim evidence requires the stock toolchain series''),
      (se_EvidenceClass s = EvidenceClassClaim \<and> se_ValidationProfile s \<noteq> ValidationStrict, ''claim evidence requires strict_on validation''),
      (se_RunKind s = RunKindAA \<and> (se_EvidenceClass s \<noteq> EvidenceClassSelfValidation \<or> se_HostMode s \<noteq> HostModeSame \<or>
         se_AdapterClass s \<noteq> AdapterClassAA), ''aa runs require self_validation, same_host, and aa adapter class''),
      (se_RunKind s = RunKindBaseline \<and>
         (se_EvidenceClass s \<noteq> EvidenceClassBaseline \<or> se_HostMode s \<noteq> HostModeSame) \<and>
         (se_EvidenceClass s \<noteq> EvidenceClassClaim \<or> se_HostMode s \<noteq> HostModeSeparate),
       ''baseline runs require baseline/same_host or claim/separate_host identity''),
      (se_RunKind s = RunKindDiagnostic \<and> se_EvidenceClass s \<noteq> EvidenceClassDiagnostic, ''diagnostic runs require diagnostic evidence''),
      (se_ValidationProfile s = ValidationUnsafe \<and> (se_RunKind s \<noteq> RunKindDiagnostic \<or> se_EvidenceClass s \<noteq> EvidenceClassDiagnostic),
       ''validation_off is diagnostic-only'')]"

definition settingErrs :: "Policy \<Rightarrow> (bool \<times> policyErr) list" where
  "settingErrs p =
     [(po_Candidate p = [], ''candidate is required''),
      (po_Comparator p = [], ''comparator is required''),
      (po_Candidate p = po_Comparator p, ''candidate and comparator must differ''),
      (bs_Replicates (po_Bootstrap p) \<le> 0, ''bootstrap.replicates must be > 0''),
      (fle (bs_Confidence (po_Bootstrap p)) (Finite 0) \<or> fle (Finite 1) (bs_Confidence (po_Bootstrap p)),
       ''bootstrap.confidence must be in (0,1)''),
      (bs_NullIterations (po_Bootstrap p) < 1000, ''bootstrap.null_iterations must be >= 1000''),
      (po_Scenarios p = [], ''at least one scenario is required''),
      (fle (hg_MaxLoad1 (po_Guard p)) (Finite 0), ''guard.max_load1 must be > 0''),
      (fle (hg_MaxLoad1Drift (po_Guard p)) (Finite 0), ''guard.max_load1_drift must be > 0''),
      (fle (hg_MaxForeignCPUPercent (po_Guard p)) (Finite 0) \<or> fless (Finite 100) (hg_MaxForeignCPUPercent (po_Guard p)),
       ''guard.max_foreign_cpu_percent must be in (0,100]''),
      (\<not> validPositiveThreshold (th_ThroughputLowerBound (po_Thresholds p)), ''thresholds.throughput_lower_bound must be finite and > 0''),
      (\<not> validPositiveThreshold (th_ThroughputGeomean (po_Thresholds p)), ''thresholds.throughput_geomean must be finite and > 0''),
      (\<not> validPositiveThreshold (th_P99UpperBound (po_Thresholds p)), ''thresholds.p99_upper_bound must be finite and > 0''),
      (\<not> validPositiveThreshold (th_P999CenterUpperBound (po_Thresholds p)), ''thresholds.p999_center_upper_bound must be finite and > 0'')]"

definition scenarioErrs :: "Scenario \<Rightarrow> (bool \<times> policyErr) list" where
  "scenarioErrs s =
     [(\<not> ValidArtifactID (sc_Name s), ''scenario name is not a path-safe artifact identifier''),
      (\<not> validCellClass (sc_CellClass s), ''invalid cell_class''),
      (sc_MessageType s \<noteq> MessageBinary \<and> sc_MessageType s \<noteq> MessageText, ''invalid message_type''),
      (\<not> validArrival (sc_Arrival s), ''invalid arrival''),
      (sc_PayloadBytes s \<le> 0, ''payload_bytes must be > 0''),
      (sc_Connections s \<le> 0, ''connections must be > 0''),
      (sc_Inflight s < 1, ''inflight must be >= 1''),
      (sc_Inflight s > MaxInflightBytes div sc_PayloadBytes s, ''inflight*payload_bytes exceeds the pipeline cap''),
      (sc_Repetitions s \<le> 0, ''repetitions must be > 0''),
      (sc_Repetitions s mod 2 \<noteq> 0, ''repetitions must be even for balanced blocks''),
      (sc_Duration s \<le> 0, ''duration must be > 0''),
      (sc_Warmup s < 0, ''warmup must be >= 0''),
      (sc_Arrival s = ArrivalClosedLoop \<and> (sc_Inflight s \<noteq> 1 \<or> sc_OfferedRate s \<noteq> 0 \<or> sc_MaxSchedulerLateness s \<noteq> 0),
       ''closed_loop requires inflight=1, offered_rate=0, and no scheduler lateness limit''),
      (sc_Arrival s = ArrivalPipelined \<and> (sc_Inflight s < 2 \<or> sc_OfferedRate s \<noteq> 0 \<or> sc_MaxSchedulerLateness s \<noteq> 0),
       ''pipelined requires inflight>=2, offered_rate=0, and no scheduler lateness limit''),
      (sc_Arrival s = ArrivalOpenLoop \<and> (sc_Inflight s \<noteq> 1 \<or> sc_OfferedRate s \<le> 0 \<or> sc_OfferedRate s > MaxOpenLoopRate),
       ''open_loop requires inflight=1 and offered_rate in range''),
      (sc_Arrival s = ArrivalOpenLoop \<and> sc_MaxSchedulerLateness s \<le> 0, ''open_loop requires max_scheduler_lateness > 0''),
      (sc_Arrival s = ArrivalOpenLoop \<and> sc_MaxSchedulerLateness s > second div sc_OfferedRate s,
       ''max_scheduler_lateness exceeds one arrival interval'')]"

primrec scenariosErr :: "Policy \<Rightarrow> bytes list \<Rightarrow> Scenario list \<Rightarrow> policyErr option" where
  "scenariosErr p names [] = None"
| "scenariosErr p names (s # ss) =
     orElse (firstError (scenarioErrs s @
       [(sc_Name s \<in> set names, ''duplicate scenario name''),
        (se_RunKind (po_Series p) = RunKindBaseline \<and> sc_Warmup s < 5 * second, ''baseline warmup must be >= 5s''),
        (se_RunKind (po_Series p) = RunKindBaseline \<and> sc_Duration s < 30 * second, ''baseline duration must be >= 30s''),
        (se_RunKind (po_Series p) = RunKindBaseline \<and> sc_Repetitions s < 20, ''baseline repetitions must be >= 20''),
        (se_RunKind (po_Series p) = RunKindAA \<and>
           (sc_Repetitions s < ag_MinPairsPerSession (po_AAGates p) \<or> sc_Repetitions s mod 2 \<noteq> 0),
         ''aa repetitions must be even and large enough'')]))
     (scenariosErr p (sc_Name s # names) ss)"

definition reservedEnv :: "bytes list" where
  "reservedEnv = [B ''GOENV'', B ''GOTOOLCHAIN'', B ''GOFLAGS'', B ''GOEXPERIMENT'', B ''GOOS'', B ''GOARCH'', B ''GOAMD64'',
     B ''GOARM64'', B ''GOFIPS140'', B ''CGO_ENABLED'']"

primrec envErrs :: "bytes list \<Rightarrow> bytes list \<Rightarrow> policyErr option" where
  "envErrs seen [] = None"
| "envErrs seen (e # es) =
     (if 0x3D \<notin> set e \<or> \<not> validEnvKey (envKey e) \<or> 0 \<in> set e then Some ''build_env entry must be KEY=VALUE''
      else if envKey e \<in> set seen then Some ''repeats build_env key''
      else if envKey e \<in> set reservedEnv then Some ''sets reserved toolchain variable''
      else envErrs (envKey e # seen) es)"

definition overrideErr :: "Policy \<Rightarrow> bytes \<times> LibraryOverride \<Rightarrow> policyErr option" where
  "overrideErr p entry =
     (case entry of (name, ov) \<Rightarrow>
        orElse (firstError
          [(\<not> ValidArtifactID name, ''library_overrides key is not a path-safe artifact identifier''),
           (name \<noteq> po_Candidate p \<and> name \<noteq> po_Comparator p, ''library_overrides is unused by candidate or comparator''),
           (lo_Lib ov \<noteq> [] \<and> \<not> ValidArtifactID (lo_Lib ov), ''library_overrides lib is not a path-safe identifier''),
           (se_RunKind (po_Series p) \<noteq> RunKindDiagnostic \<and> (lo_BuildEnv ov \<noteq> [] \<or> lo_ServerArgs ov \<noteq> []),
            ''final aa/baseline evidence forbids build_env and server_args overrides'')])
        (orElse (envErrs [] (lo_BuildEnv ov))
          (firstError [(list_ex (\<lambda>arg. arg = [] \<or> 0 \<in> set arg) (lo_ServerArgs ov), ''contains an empty or NUL server argument'')])))"

definition sameAAErr :: "Policy \<Rightarrow> policyErr option" where
  "sameAAErr p =
     (let candidate = Resolve p (po_Candidate p);
          comparator = Resolve p (po_Comparator p);
          ca = map_of (po_Adapters p) (po_Candidate p);
          cb = map_of (po_Adapters p) (po_Comparator p) in
      firstError
        [(rs_Lib candidate \<noteq> rs_Lib comparator \<or> rs_BuildEnv candidate \<noteq> rs_BuildEnv comparator \<or>
            rs_ServerArgs candidate \<noteq> rs_ServerArgs comparator,
          ''aa labels must resolve to the same server backend, build environment, and arguments''),
         (map_option ad_ID ca \<noteq> map_option ad_ID cb \<or> map_option ad_SourceFiles ca \<noteq> map_option ad_SourceFiles cb,
          ''aa labels must use the same adapter identity'')])"

definition Validate :: "Policy \<Rightarrow> policyErr option" where
  "Validate p =
     orElse (firstError ((po_SchemaVersion p \<noteq> PolicySchemaVersion, ''schema_version'') # seriesErrs (po_Series p) @ settingErrs p))
     (orElse (firstOf (\<lambda>v. if ValidArtifactID v then None else Some ''is not a path-safe artifact identifier'')
        [se_ID (po_Series p), po_Candidate p, po_Comparator p])
     (orElse (validateGates (po_AAGates p))
     (orElse (validateAdapters p)
     (orElse (scenariosErr p [] (po_Scenarios p))
     (orElse (if PrimaryScenarios p = [] then Some ''at least one scenario must be primary'' else None)
     (orElse (firstOf (overrideErr p) (po_LibraryOverrides p))
     (if se_RunKind (po_Series p) = RunKindAA then sameAAErr p else None)))))))"

definition ParsePolicy :: "(bytes \<Rightarrow> Policy option) \<Rightarrow> bytes \<Rightarrow> policyErr + Policy" where
  "ParsePolicy unmarshal raw =
     (case unmarshal raw of
        None \<Rightarrow> Inl ''parse''
      | Some p \<Rightarrow> (case Validate p of Some e \<Rightarrow> Inl e | None \<Rightarrow> Inr p))"

section \<open>What a validated policy guarantees\<close>

lemma firstError_None: "firstError cs = None \<longleftrightarrow> list_all (\<lambda>c. \<not> fst c) cs"
  by (induction cs) simp_all

declare firstError.simps [simp del]

lemma orElse_None [simp]: "orElse a b = None \<longleftrightarrow> a = None \<and> b = None"
  by (simp add: orElse_def split: option.split)

lemma firstOf_None: "firstOf f xs = None \<longleftrightarrow> list_all (\<lambda>x. f x = None) xs"
  by (induction xs) auto

lemmas valid_simps = firstError_None firstOf_None list_all_append list.pred_inject fst_conv

lemma scenariosErr_None:
  "scenariosErr p names ss = None \<Longrightarrow> s \<in> set ss \<Longrightarrow> firstError (scenarioErrs s) = None"
  by (induction ss arbitrary: names) (auto simp: valid_simps)

lemma Validate_parts:
  assumes "Validate p = None"
  shows "list_all (\<lambda>c. \<not> fst c) (seriesErrs (po_Series p))" "list_all (\<lambda>c. \<not> fst c) (settingErrs p)"
    "scenariosErr p [] (po_Scenarios p) = None" "list_all (\<lambda>e. overrideErr p e = None) (po_LibraryOverrides p)"
    "se_RunKind (po_Series p) = RunKindAA \<Longrightarrow> sameAAErr p = None"
  using assms by (auto simp: Validate_def valid_simps split: if_splits)

lemma series_identity:
  assumes "list_all (\<lambda>c. \<not> fst c) (seriesErrs s)"
  shows "(se_RunKind s, se_EvidenceClass s, se_HostMode s) \<in>
      {(RunKindAA, EvidenceClassSelfValidation, HostModeSame), (RunKindBaseline, EvidenceClassBaseline, HostModeSame),
       (RunKindBaseline, EvidenceClassClaim, HostModeSeparate), (RunKindDiagnostic, EvidenceClassDiagnostic, HostModeSame),
       (RunKindDiagnostic, EvidenceClassDiagnostic, HostModeSeparate)}"
    "se_RunKind s \<noteq> RunKindDiagnostic \<Longrightarrow> se_ValidationProfile s = ValidationStrict"
    "se_EvidenceClass s = EvidenceClassClaim \<Longrightarrow> se_Toolchain s = ToolchainStock \<and> se_GoExperiment s = []"
proof -
  note c = assms [unfolded seriesErrs_def valid_simps]
  have f: "validRunKind (se_RunKind s)" "se_HostMode s = HostModeSame \<or> se_HostMode s = HostModeSeparate"
    "se_RunKind s = RunKindAA \<Longrightarrow> se_EvidenceClass s = EvidenceClassSelfValidation \<and> se_HostMode s = HostModeSame"
    "se_RunKind s = RunKindBaseline \<Longrightarrow> se_EvidenceClass s = EvidenceClassBaseline \<and> se_HostMode s = HostModeSame \<or>
      se_EvidenceClass s = EvidenceClassClaim \<and> se_HostMode s = HostModeSeparate"
    "se_RunKind s = RunKindDiagnostic \<Longrightarrow> se_EvidenceClass s = EvidenceClassDiagnostic"
    using c by blast+
  show "(se_RunKind s, se_EvidenceClass s, se_HostMode s) \<in>
      {(RunKindAA, EvidenceClassSelfValidation, HostModeSame), (RunKindBaseline, EvidenceClassBaseline, HostModeSame),
       (RunKindBaseline, EvidenceClassClaim, HostModeSeparate), (RunKindDiagnostic, EvidenceClassDiagnostic, HostModeSame),
       (RunKindDiagnostic, EvidenceClassDiagnostic, HostModeSeparate)}"
    using f(1) unfolding validRunKind_def
  proof (elim disjE)
    assume k: "se_RunKind s = RunKindAA"
    from f(3) [OF this] show ?thesis by (simp add: k)
  next
    assume k: "se_RunKind s = RunKindBaseline"
    from f(4) [OF this] show ?thesis by (auto simp: k)
  next
    assume k: "se_RunKind s = RunKindDiagnostic"
    from f(5) [OF this] f(2) show ?thesis by (auto simp: k)
  qed
  show "se_RunKind s \<noteq> RunKindDiagnostic \<Longrightarrow> se_ValidationProfile s = ValidationStrict"
    "se_EvidenceClass s = EvidenceClassClaim \<Longrightarrow> se_Toolchain s = ToolchainStock \<and> se_GoExperiment s = []"
    using c by blast+
qed

lemma override_shared:
  assumes "list_all (\<lambda>e. overrideErr p e = None) (po_LibraryOverrides p)" "se_RunKind (po_Series p) \<noteq> RunKindDiagnostic"
  shows "rs_Bin (Resolve p name) = []" "rs_BuildEnv (Resolve p name) = []" "rs_ServerArgs (Resolve p name) = []"
proof -
  have "lo_BuildEnv ov = [] \<and> lo_ServerArgs ov = []" if "map_of (po_LibraryOverrides p) name = Some ov" for ov
  proof -
    have "overrideErr p (name, ov) = None" using assms(1) map_of_SomeD [OF that] by (auto simp: list_all_iff)
    then show ?thesis using assms(2) by (simp add: overrideErr_def valid_simps)
  qed
  then show "rs_Bin (Resolve p name) = []" "rs_BuildEnv (Resolve p name) = []" "rs_ServerArgs (Resolve p name) = []"
    by (auto simp: Resolve_def split: option.split)
qed

text \<open>What a policy that passes validation may be used for. Its run kind, evidence class and host mode are one of the
  admissible combinations: a claim is a baseline run on separate hosts, on the stock toolchain without
  experiments. Unless it is diagnostic, it validates strictly, and both labels run the shared server binary
  with no build environment and no arguments of their own; an A/A policy measures one server backend under two names.\<close>

theorem validated_policy_identity:
  assumes "Validate p = None"
  defines "s \<equiv> po_Series p"
  shows "(se_RunKind s, se_EvidenceClass s, se_HostMode s) \<in>
      {(RunKindAA, EvidenceClassSelfValidation, HostModeSame), (RunKindBaseline, EvidenceClassBaseline, HostModeSame),
       (RunKindBaseline, EvidenceClassClaim, HostModeSeparate), (RunKindDiagnostic, EvidenceClassDiagnostic, HostModeSame),
       (RunKindDiagnostic, EvidenceClassDiagnostic, HostModeSeparate)} \<and>
    (se_EvidenceClass s = EvidenceClassClaim \<longrightarrow> se_Toolchain s = ToolchainStock \<and> se_GoExperiment s = []) \<and>
    (se_RunKind s \<noteq> RunKindDiagnostic \<longrightarrow> se_ValidationProfile s = ValidationStrict \<and>
      (\<forall>name \<in> {po_Candidate p, po_Comparator p}. rs_Bin (Resolve p name) = [] \<and> rs_BuildEnv (Resolve p name) = [] \<and>
        rs_ServerArgs (Resolve p name) = [])) \<and>
    (se_RunKind s = RunKindAA \<longrightarrow> po_Candidate p \<noteq> po_Comparator p \<and>
      rs_Lib (Resolve p (po_Candidate p)) = rs_Lib (Resolve p (po_Comparator p)))"
proof -
  note v = Validate_parts [OF assms(1), folded s_def]
  have "po_Candidate p \<noteq> po_Comparator p" using v(2) by (simp add: settingErrs_def valid_simps)
  moreover have "se_RunKind s = RunKindAA \<Longrightarrow> rs_Lib (Resolve p (po_Candidate p)) = rs_Lib (Resolve p (po_Comparator p))"
    using v(5) by (simp add: sameAAErr_def Let_def valid_simps)
  ultimately show ?thesis using series_identity [OF v(1)] override_shared [OF v(4)] s_def by blast
qed

text \<open>C38: Every scenario of a validated policy can be run as the harness runs it. Whatever the seed, the schedule of
  its repetitions exists and is exactly balanced between the two orders; the bytes in flight per connection stay
  within the cap, so that priming the pipeline cannot block; and an open-loop scenario tolerates a lateness of at most one
  arrival interval, at a rate a nanosecond clock can express.\<close>

theorem validated_policy_schedulable:
  assumes "Validate p = None" "s \<in> set (po_Scenarios p)"
  shows "(\<exists>bs. BalancedBlocks intN2 (po_Candidate p) (po_Comparator p) (sc_Repetitions s) seed = Inr bs \<and>
      balancedSchedule (po_Candidate p) (po_Comparator p) bs \<and> int (length bs) = sc_Repetitions s) \<and>
    0 < sc_Inflight s \<and> sc_Inflight s * sc_PayloadBytes s \<le> MaxInflightBytes \<and>
    (sc_Arrival s = ArrivalOpenLoop \<longrightarrow> 0 < sc_OfferedRate s \<and> 0 < sc_MaxSchedulerLateness s \<and>
      sc_MaxSchedulerLateness s * sc_OfferedRate s \<le> second)"
proof -
  note v = Validate_parts [OF assms(1)]
  have c: "po_Candidate p \<noteq> []" "po_Comparator p \<noteq> []" "po_Candidate p \<noteq> po_Comparator p"
    using v(2) by (simp_all add: settingErrs_def valid_simps)
  have e: "firstError (scenarioErrs s) = None" using scenariosErr_None [OF v(3) assms(2)] .
  then have s: "0 < sc_PayloadBytes s" "1 \<le> sc_Inflight s" "sc_Inflight s \<le> MaxInflightBytes div sc_PayloadBytes s"
    "0 < sc_Repetitions s" "sc_Repetitions s mod 2 = 0"
    by (simp_all add: scenarioErrs_def valid_simps)
  have rate: "0 < sc_OfferedRate s" "0 < sc_MaxSchedulerLateness s" "sc_MaxSchedulerLateness s \<le> second div sc_OfferedRate s"
    if "sc_Arrival s = ArrivalOpenLoop"
    using e that by (simp_all add: scenarioErrs_def valid_simps)
  have le: "a * b \<le> c" if "0 < b" "a \<le> c div b" for a b c :: int
    using mult_right_mono [of a "c div b" b] minus_mod_eq_div_mult [of c b] pos_mod_sign [of b c] that by linarith
  obtain bs where bs: "BalancedBlocks intN2 (po_Candidate p) (po_Comparator p) (sc_Repetitions s) seed = Inr bs"
    using c s(4,5) by (auto simp: BalancedBlocks_def Let_def)
  then show ?thesis using BalancedBlocks_balanced [OF bs] s le [OF s(1,3)] rate le [OF rate(1,3)] by auto
qed

section \<open>The identity of an adapter\<close>

text \<open>
  What \<^verbatim>\<open>HashAdapter\<close> feeds to SHA-256: every part with its length. \<open>digest\<close> is the digest of a byte string in hexadecimal, \<open>readSource\<close> the content of a regular file below the root.
\<close>

primrec adapterSources :: "(bytes \<Rightarrow> bytes) \<Rightarrow> (bytes \<Rightarrow> bytes option) \<Rightarrow> bytes list \<Rightarrow> bytes option" where
  "adapterSources digest readSource [] = Some []"
| "adapterSources digest readSource (p # ps) =
     (if 0x5C \<in> set p \<or> \<not> cleanLocal p then None
      else
        (case readSource p of
           None \<Rightarrow> None
         | Some raw \<Rightarrow> map_option (\<lambda>r. decimal (length p) @ B '':'' @ p @ B '':'' @ digest raw @ [LF] @ r) (adapterSources digest readSource ps)))"

definition adapterInput :: "(bytes \<Rightarrow> bytes) \<Rightarrow> (bytes \<Rightarrow> bytes option) \<Rightarrow> Adapter \<Rightarrow> bytes option" where
  "adapterInput digest readSource a =
     map_option (\<lambda>r. B ''adapter-v1'' @ [LF] @ decimal (length (ad_ID a)) @ B '':'' @ ad_ID a @ [LF] @
         decimal (length (ad_Class a)) @ B '':'' @ ad_Class a @ [LF] @ r)
       (adapterSources digest readSource (sort (ad_SourceFiles a)))"

definition HashAdapter :: "(bytes \<Rightarrow> bytes) \<Rightarrow> (bytes \<Rightarrow> bytes option) \<Rightarrow> Adapter \<Rightarrow> bytes option" where
  "HashAdapter digest readSource a = map_option digest (adapterInput digest readSource a)"

lemma decimal_digits: "d \<in> set (decimal n) \<Longrightarrow> d \<noteq> 0x3A"
proof (induction n rule: decimal.induct)
  case (1 n)
  have "(word_of_nat (48 + m) :: byte) \<noteq> 0x3A" if "m < 10" for m
  proof
    assume "(word_of_nat (48 + m) :: byte) = 0x3A"
    from arg_cong [OF this, of unat] show False using that by (simp add: unat_of_nat del: of_nat_add)
  qed
  then show ?case using 1 by (auto simp: decimal.simps [of n] split: if_splits)
qed

lemma lengthPrefix_inject:
  assumes "decimal (length a) @ B '':'' @ a @ x = decimal (length b) @ B '':'' @ b @ y"
  shows "a = b \<and> x = y"
proof -
  have t: "takeWhile (\<lambda>d. d \<noteq> 0x3A) (decimal n @ B '':'' @ z) = decimal n" for n z
    using decimal_digits by (subst takeWhile_append2) auto
  have "decimal (length a) = decimal (length b)" using arg_cong [OF assms, of "takeWhile (\<lambda>d. d \<noteq> 0x3A)"] by (simp only: t)
  then have "length a = length b" by (metis digitsValue_decimal)
  then show ?thesis using assms by simp
qed

lemma adapterSources_inject:
  assumes "\<And>raw. length (digest raw) = 64" "adapterSources digest f ps = Some x" "adapterSources digest g qs = Some x"
  shows "ps = qs \<and> map (map_option digest \<circ> f) ps = map (map_option digest \<circ> g) ps"
  using assms(2,3)
proof (induction ps arbitrary: qs x)
  case Nil
  then show ?case by (cases qs) (auto split: if_splits option.splits)
next
  case (Cons p ps)
  obtain a r where a: "f p = Some a" "adapterSources digest f ps = Some r"
    "x = decimal (length p) @ B '':'' @ p @ B '':'' @ digest a @ [LF] @ r"
    using Cons.prems(1) by (auto split: if_splits option.splits)
  obtain q qs' b s where b: "qs = q # qs'" "g q = Some b" "adapterSources digest g qs' = Some s"
    "x = decimal (length q) @ B '':'' @ q @ B '':'' @ digest b @ [LF] @ s"
    using Cons.prems(2) a(3) by (cases qs) (auto split: if_splits option.splits)
  have "p = q \<and> B '':'' @ digest a @ [LF] @ r = B '':'' @ digest b @ [LF] @ s" using lengthPrefix_inject a(3) b(4) by metis
  then have e: "p = q" "digest a = digest b" "r = s" using assms(1) by simp_all
  show ?case using Cons.IH [OF a(2), of qs'] a(1) b(1-3) e by simp
qed

text \<open>The identity of an adapter hides nothing. Two adapters that are hashed over the same bytes have the same
  identifier, the same class, the same source files up to order, and the same digest of every one of them: no
  change of the metadata or of a file passes for the same adapter, short of a collision of SHA-256.\<close>

theorem adapter_identity:
  assumes "\<And>raw. length (digest raw) = 64" "adapterInput digest f a = Some x" "adapterInput digest g b = Some x"
  shows "ad_ID a = ad_ID b \<and> ad_Class a = ad_Class b \<and> sort (ad_SourceFiles a) = sort (ad_SourceFiles b) \<and>
    (\<forall>p \<in> set (ad_SourceFiles a). map_option digest (f p) = map_option digest (g p))"
proof -
  obtain r s where r: "adapterSources digest f (sort (ad_SourceFiles a)) = Some r" "adapterSources digest g (sort (ad_SourceFiles b)) = Some s"
    "B ''adapter-v1'' @ [LF] @ decimal (length (ad_ID a)) @ B '':'' @ ad_ID a @ [LF] @ decimal (length (ad_Class a)) @ B '':'' @ ad_Class a @ [LF] @ r =
     B ''adapter-v1'' @ [LF] @ decimal (length (ad_ID b)) @ B '':'' @ ad_ID b @ [LF] @ decimal (length (ad_Class b)) @ B '':'' @ ad_Class b @ [LF] @ s"
    using assms(2,3) by (auto simp: adapterInput_def)
  then have i: "ad_ID a = ad_ID b \<and> [LF] @ decimal (length (ad_Class a)) @ B '':'' @ ad_Class a @ [LF] @ r =
      [LF] @ decimal (length (ad_Class b)) @ B '':'' @ ad_Class b @ [LF] @ s"
    by (intro lengthPrefix_inject) simp
  then have c: "ad_Class a = ad_Class b \<and> [LF] @ r = [LF] @ s" by (intro lengthPrefix_inject) simp
  then have "r = s" by simp
  from adapterSources_inject [OF assms(1) r(1) r(2) [folded this]] i c show ?thesis
    by (metis (no_types, lifting) comp_apply map_eq_conv set_sort)
qed

section \<open>A policy that passes\<close>

definition demoAdapter :: Adapter where
  "demoAdapter = \<lparr>ad_ID = B ''gows-aa'', ad_Class = AdapterClassAA, ad_SourceFiles = [B ''echo/main.go'', B ''echo/gows.go'']\<rparr>"

definition demoScenario :: Scenario where
  "demoScenario = \<lparr>sc_Name = B ''binary-1k-200'', sc_Primary = True, sc_CellClass = CellServerSensitive,
     sc_MessageType = MessageBinary, sc_Arrival = ArrivalPipelined, sc_OfferedRate = 0, sc_MaxSchedulerLateness = 0,
     sc_PayloadBytes = 1024, sc_Connections = 200, sc_Inflight = 8, sc_Warmup = 5 * second, sc_Duration = 30 * second,
     sc_Repetitions = 20\<rparr>"

definition demoPolicy :: Policy where
  "demoPolicy =
     (let band = \<lparr>rb_Lower = Finite (63 / 64), rb_Upper = Finite (65 / 64)\<rparr> in
      \<lparr>po_SchemaVersion = 3,
       po_Series = \<lparr>se_ID = B ''aa'', se_RunKind = RunKindAA, se_EvidenceClass = EvidenceClassSelfValidation,
         se_HostMode = HostModeSame, se_Toolchain = ToolchainStock, se_GoExperiment = [], se_AdapterClass = AdapterClassAA,
         se_ValidationProfile = ValidationStrict, se_Client = ClientGoWS\<rparr>,
       po_Candidate = B ''gows'', po_Comparator = B ''gows-b'', po_Seed = 7,
       po_Bootstrap = \<lparr>bs_Replicates = 1000, bs_Confidence = Finite (15 / 16), bs_NullIterations = 1000\<rparr>,
       po_AAGates = \<lparr>ag_MinSessions = 3, ag_MinPairsPerSession = 20, ag_Throughput = band, ag_P99 = band, ag_P999 = band,
         ag_OrderEffect = band, ag_MaxFalsePositive = float_0_05\<rparr>,
       po_Thresholds = \<lparr>th_ThroughputLowerBound = Finite 1, th_ThroughputGeomean = Finite 1, th_P99UpperBound = Finite 1,
         th_P999CenterUpperBound = Finite 1\<rparr>,
       po_Guard = \<lparr>hg_MaxLoad1 = Finite 6, hg_MaxLoad1Drift = Finite 16, hg_MaxForeignCPUPercent = Finite 75,
         hg_ForbiddenProcessPatterns = []\<rparr>,
       po_Scenarios = [demoScenario],
       po_LibraryOverrides = [(B ''gows-b'', \<lparr>lo_Lib = B ''gows'', lo_BuildEnv = [], lo_ServerArgs = []\<rparr>)],
       po_Adapters = [(B ''gows'', demoAdapter), (B ''gows-b'', demoAdapter)]\<rparr>)"

lemma demoPolicy_valid: "Validate demoPolicy = None"
  by code_simp

theorem validated_policy_identity_witness:
  "Validate demoPolicy = None \<and> rs_Lib (Resolve demoPolicy (B ''gows'')) = rs_Lib (Resolve demoPolicy (B ''gows-b''))"
proof -
  have k: "po_Candidate demoPolicy = B ''gows''" "po_Comparator demoPolicy = B ''gows-b''" "se_RunKind (po_Series demoPolicy) = RunKindAA"
    by (simp_all add: demoPolicy_def Let_def)
  then show ?thesis using validated_policy_identity [OF demoPolicy_valid] demoPolicy_valid unfolding k by blast
qed

theorem validated_policy_schedulable_witness:
  "\<exists>bs. BalancedBlocks (\<lambda>_. 1) (B ''gows'') (B ''gows-b'') 20 7 = Inr bs \<and>
     balancedSchedule (B ''gows'') (B ''gows-b'') bs \<and> length bs = 20"
proof -
  have k: "demoScenario \<in> set (po_Scenarios demoPolicy)" "po_Candidate demoPolicy = B ''gows''" "po_Comparator demoPolicy = B ''gows-b''"
    "sc_Repetitions demoScenario = 20"
    by (simp_all add: demoPolicy_def Let_def demoScenario_def)
  show ?thesis using validated_policy_schedulable [OF demoPolicy_valid k(1), of "\<lambda>_. 1" 7] unfolding k(2-4) by auto
qed

theorem adapter_identity_witness:
  "\<exists>x. adapterInput (\<lambda>_. replicate 64 0x30) (\<lambda>_. Some []) demoAdapter = Some x \<and>
    adapterInput (\<lambda>_. replicate 64 0x30) (\<lambda>_. Some []) (demoAdapter\<lparr>ad_SourceFiles := rev (ad_SourceFiles demoAdapter)\<rparr>) = Some x \<and>
    sort (ad_SourceFiles demoAdapter) = sort (rev (ad_SourceFiles demoAdapter))"
proof -
  let ?d = "\<lambda>_ :: bytes. replicate 64 (0x30 :: byte)" and ?f = "\<lambda>_ :: bytes. Some ([] :: bytes)"
  let ?b = "demoAdapter\<lparr>ad_SourceFiles := rev (ad_SourceFiles demoAdapter)\<rparr>"
  have "adapterInput ?d ?f demoAdapter \<noteq> None" "adapterInput ?d ?f demoAdapter = adapterInput ?d ?f ?b" by code_simp+
  then obtain x where x: "adapterInput ?d ?f demoAdapter = Some x" "adapterInput ?d ?f ?b = Some x" by auto
  from adapter_identity [OF _ x] x show ?thesis by simp
qed

end
