(* ===== verification/Dial_Hop.thy ===== *)
theory Dial_Hop
  imports Dial Guard
begin

text \<open>
  One hop of a dial, \<^verbatim>\<open>dialHop\<close> of \<^verbatim>\<open>src/dialer.go\<close>, with the context errors of \<^verbatim>\<open>src/errors.go\<close>: choosing the
  proxy, connecting, the CONNECT tunnel, TLS, the opening handshake, and who closes the connection when. The
  callbacks, the network dialer and TLS are parameters; a context is when it ends and what its end says.
\<close>

section \<open>Errors and contexts\<close>

text \<open>
  Errors as far as \<^verbatim>\<open>errors.Is\<close> looks into them. \<open>Foreign\<close> is an error of the program or of a library, with what it
  unwraps to; \<open>Wrapping\<close> one the code builds.
\<close>

datatype goErr =
    Canceled
  | ContextDeadlineExceeded
  | Foreign nat "goErr list"
  | HandshakeFailed handshakeErr
  | DeadlineNotSet ioErr
  | MalformedAuthority
  | Wrapping "goErr list"

fun errorsIs :: "goErr \<Rightarrow> goErr \<Rightarrow> bool" where
  "errorsIs (Foreign n es) t \<longleftrightarrow> Foreign n es = t \<or> list_ex (\<lambda>e. errorsIs e t) es"
| "errorsIs (Wrapping es) t \<longleftrightarrow> Wrapping es = t \<or> list_ex (\<lambda>e. errorsIs e t) es"
| "errorsIs e t \<longleftrightarrow> e = t"

lemma errorsIs_refl [simp]: "errorsIs e e"
  by (cases e) simp_all

text \<open>\<^verbatim>\<open>errors.Is(err, os.ErrDeadlineExceeded)\<close>\<close>

fun handshakeDeadline :: "handshakeErr \<Rightarrow> bool" where
  "handshakeDeadline (HandshakeIO e) \<longleftrightarrow> e = DeadlineExceeded"
| "handshakeDeadline (ErrProxyConnectFailed (Some e)) \<longleftrightarrow> handshakeDeadline e"
| "handshakeDeadline _ \<longleftrightarrow> False"

fun osDeadline :: "goErr \<Rightarrow> bool" where
  "osDeadline (HandshakeFailed e) \<longleftrightarrow> handshakeDeadline e"
| "osDeadline (DeadlineNotSet e) \<longleftrightarrow> e = DeadlineExceeded"
| "osDeadline (Foreign _ es) \<longleftrightarrow> list_ex osDeadline es"
| "osDeadline (Wrapping es) \<longleftrightarrow> list_ex osDeadline es"
| "osDeadline _ \<longleftrightarrow> False"

text \<open>
  A context: at which of the points where the code looks it has ended (the points are numbered along the hop),
  what \<^verbatim>\<open>ctx.Err\<close> and \<^verbatim>\<open>context.Cause\<close> say then, and whether it has a deadline.
\<close>

record contextState =
  cx_endsAt :: "nat option"
  cx_err :: goErr
  cx_cause :: "goErr option"
  cx_hasDeadline :: bool

definition ended :: "contextState \<Rightarrow> nat \<Rightarrow> bool" where
  "ended cx point \<longleftrightarrow> (case cx_endsAt cx of None \<Rightarrow> False | Some n \<Rightarrow> n \<le> point)"

definition contextError :: "contextState \<Rightarrow> goErr" where
  "contextError cx =
     (case cx_cause cx of
        None \<Rightarrow> cx_err cx
      | Some cause \<Rightarrow> if errorsIs cause (cx_err cx) then cx_err cx else Wrapping [cx_err cx, cause])"

definition errorContainsContext :: "goErr \<Rightarrow> contextState \<Rightarrow> bool" where
  "errorContainsContext e cx \<longleftrightarrow> errorsIs e (cx_err cx) \<and>
     (case cx_cause cx of None \<Rightarrow> True | Some cause \<Rightarrow> errorsIs cause (cx_err cx) \<or> errorsIs e cause)"



section \<open>The proxy of a hop\<close>

record proxyURL =
  pu_URL :: hopURL
  pu_User :: "(bytes \<times> bytes) option"

text \<open>\<^verbatim>\<open>strconv.ParseUint(s, 10, 16)\<close>, as far as it succeeds.\<close>

definition parsesUint16 :: "bytes \<Rightarrow> bool" where
  "parsesUint16 s \<longleftrightarrow> s \<noteq> [] \<and> list_all (\<lambda>b. 48 \<le> b \<and> b \<le> 57) s \<and>
     foldl (\<lambda>n b. n * 10 + uint (b - 48)) 0 s \<le> 65535"

text \<open>\<open>reparsed\<close> is \<^verbatim>\<open>url.Parse(u.String())\<close>.\<close>

definition validateProxyAuthority :: "hopURL option \<Rightarrow> hopURL \<Rightarrow> goErr option" where
  "validateProxyAuthority reparsed u =
     (case reparsed of
        None \<Rightarrow> Some MalformedAuthority
      | Some r \<Rightarrow>
          if url_Host r \<noteq> url_Host u \<or> url_Hostname r = [] \<or> (url_Host r \<noteq> [] \<and> last (url_Host r) = 0x3A)
          then Some MalformedAuthority
          else if url_Port r \<noteq> [] \<and> \<not> parsesUint16 (url_Port r) then Some MalformedAuthority
          else None)"

text \<open>The copies the callbacks get; a proxy function sees the scheme of the HTTP request.\<close>

definition newHopRequest :: "hopURL \<Rightarrow> httpHeader \<Rightarrow> hopRequest" where
  "newHopRequest u hdr = (u, hdr)"

definition newProxyRequest :: "hopURL \<Rightarrow> httpHeader \<Rightarrow> hopRequest" where
  "newProxyRequest u hdr =
     (case newHopRequest u hdr of (u, hdr) \<Rightarrow>
        (u\<lparr>url_Scheme := (if url_Scheme u = B ''wss'' then B ''https'' else B ''http'')\<rparr>, hdr))"

text \<open>\<^verbatim>\<open>net.JoinHostPort\<close>\<close>

definition joinHostPort :: "bytes \<Rightarrow> bytes \<Rightarrow> bytes" where
  "joinHostPort host port =
     (if 0x3A \<in> set host then B ''['' @ host @ B '']:'' @ port else host @ B '':'' @ port)"

section \<open>The hop\<close>

text \<open>
  What a hop meets. \<open>he_reparse\<close> is \<^verbatim>\<open>url.Parse\<close> of the printed proxy URL; \<open>he_TLS\<close> the TLS handshake with a server of that
  name, which turns the connection into one for the plaintext; the errors are those of setting and of
  clearing the deadline. A connection that the context's callback closes under an exchange shows in its script.
\<close>

record hopEnv =
  he_Proxy :: "(hopRequest \<Rightarrow> goErr + proxyURL option) option"
  he_reparse :: "proxyURL \<Rightarrow> hopURL option"
  he_NetDial :: "bytes \<Rightarrow> goErr + transport"
  he_context :: contextState
  he_armErr :: "ioErr option"
  he_TLSServerName :: bytes
  he_TLS :: "bytes \<Rightarrow> transport \<Rightarrow> goErr option \<times> transport"
  he_nonce :: bytes
  he_clearErr :: "ioErr option"

definition hopProxy :: "hopEnv \<Rightarrow> hopURL \<Rightarrow> httpHeader \<Rightarrow> goErr + (proxyURL option \<times> bytes)" where
  "hopProxy env u hdr =
     (case he_Proxy env of
        None \<Rightarrow> Inr (None, [])
      | Some selectProxy \<Rightarrow>
        (case selectProxy (newProxyRequest u hdr) of
           Inl e \<Rightarrow> Inl (Wrapping [e])
         | Inr None \<Rightarrow> Inr (None, [])
         | Inr (Some p) \<Rightarrow>
             if url_Scheme (pu_URL p) \<noteq> B ''http'' then Inl (HandshakeFailed ErrProxyUnsupportedScheme)
             else case validateProxyAuthority (he_reparse env p) (pu_URL p) of
               Some e \<Rightarrow> Inl (Wrapping [e])
             | None \<Rightarrow> Inr (Some p, proxyBasicAuth (pu_User p))))"

definition originAddr :: "hopURL \<Rightarrow> bytes" where
  "originAddr u = joinHostPort (url_Hostname u) (effectivePort u)"

definition dialAddr :: "hopURL \<Rightarrow> proxyURL option \<Rightarrow> bytes" where
  "dialAddr u proxy =
     (case proxy of
        None \<Rightarrow> originAddr u
      | Some p \<Rightarrow> joinHostPort (url_Hostname (pu_URL p))
          (if url_Port (pu_URL p) = [] then B ''80'' else url_Port (pu_URL p)))"

text \<open>
  \<^verbatim>\<open>fail\<close>: the guard closes the connection, once, whoever comes first. Points 2 and 3 are the two looks at the context;
  waiting for a context with a deadline ends when it has ended.
\<close>

definition failErr :: "contextState \<Rightarrow> goErr \<Rightarrow> goErr" where
  "failErr cx e =
     (let waited = \<not> ended cx 2 \<and> osDeadline e \<and> cx_hasDeadline cx in
      if (ended cx 3 \<or> waited) \<and> \<not> errorContainsContext e cx then Wrapping [contextError cx, e] else e)"

definition hopFail :: "contextState \<Rightarrow> goErr \<Rightarrow> transport \<Rightarrow> (goErr + (Handshake \<times> bytes)) \<times> transport" where
  "hopFail cx e t = (Inl (failErr cx e), tClose t)"

text \<open>
  The end of a successful exchange: \<^verbatim>\<open>release\<close> is clean when the context has not ended by its look at it, point 2, and
  has closed the connection otherwise.
\<close>

definition hopRelease :: "hopEnv \<Rightarrow> Handshake \<Rightarrow> transport \<Rightarrow> (goErr + (Handshake \<times> bytes)) \<times> transport" where
  "hopRelease env hs t =
     (if ended (he_context env) 2 then (Inl (Wrapping [contextError (he_context env)]), tClose t)
      else case he_clearErr env of
        Some e \<Rightarrow> (Inl (Wrapping [DeadlineNotSet e]), tClose t)
      | None \<Rightarrow> (Inr (hs, []), t))"

definition hopHandshake :: "'w deflateConfig \<Rightarrow> Dialer \<Rightarrow> hopEnv \<Rightarrow> hopURL \<Rightarrow> httpHeader \<Rightarrow> bool \<Rightarrow> bytes \<Rightarrow> transport \<Rightarrow>
    (goErr + (Handshake \<times> bytes)) \<times> transport" where
  "hopHandshake active d env u hdr absoluteForm proxyAuth t =
     (case handshake active d (he_nonce env) u hdr absoluteForm proxyAuth t of
        (Inl e, t) \<Rightarrow> hopFail (he_context env) (HandshakeFailed e) t
      | (Inr (hs, location), t) \<Rightarrow>
          if location \<noteq> [] then (Inr (noHandshake, location), tClose t)
          else hopRelease env hs t)"

definition hopTLS :: "'w deflateConfig \<Rightarrow> Dialer \<Rightarrow> hopEnv \<Rightarrow> hopURL \<Rightarrow> httpHeader \<Rightarrow> bool \<Rightarrow> bytes \<Rightarrow> transport \<Rightarrow>
    (goErr + (Handshake \<times> bytes)) \<times> transport" where
  "hopTLS active d env u hdr proxied proxyAuth t =
     (if url_Scheme u = B ''wss'' then
        let serverName = (if he_TLSServerName env = [] then url_Hostname u else he_TLSServerName env) in
        case he_TLS env serverName t of
          (Some e, t) \<Rightarrow> hopFail (he_context env) (Wrapping [e]) t
        | (None, t) \<Rightarrow> hopHandshake active d env u hdr False proxyAuth t
      else hopHandshake active d env u hdr proxied proxyAuth t)"

definition hopExchange :: "'w deflateConfig \<Rightarrow> Dialer \<Rightarrow> hopEnv \<Rightarrow> hopURL \<Rightarrow> httpHeader \<Rightarrow> bool \<Rightarrow> bytes \<Rightarrow> transport \<Rightarrow>
    (goErr + (Handshake \<times> bytes)) \<times> transport" where
  "hopExchange active d env u hdr proxied proxyAuth t =
     (if proxied \<and> url_Scheme u = B ''wss'' then
        case proxyConnect (originAddr u) proxyAuth t of
          (Some e, t) \<Rightarrow> hopFail (he_context env) (HandshakeFailed e) t
        | (None, t) \<Rightarrow> hopTLS active d env u hdr proxied proxyAuth t
      else hopTLS active d env u hdr proxied proxyAuth t)"

text \<open>The result of the hop and the connection it opened, if it came that far. Points 0 and 1 of the context are its looks before and after connecting.\<close>

definition dialHop :: "'w deflateConfig \<Rightarrow> Dialer \<Rightarrow> hopEnv \<Rightarrow> hopURL \<Rightarrow> httpHeader \<Rightarrow>
    (goErr + (Handshake \<times> bytes)) \<times> transport option" where
  "dialHop active d env u hdr =
     (case hopProxy env u hdr of
        Inl e \<Rightarrow> (Inl e, None)
      | Inr (proxy, proxyAuth) \<Rightarrow>
          let cx = he_context env in
          if ended cx 0 then (Inl (Wrapping [contextError cx]), None)
          else case he_NetDial env (dialAddr u proxy) of
            Inl e \<Rightarrow> (Inl (Wrapping (if ended cx 1 \<and> \<not> errorContainsContext e cx then [contextError cx, e] else [e])), None)
          | Inr t \<Rightarrow>
            (case guardConn (he_armErr env) (ended cx 1) of
               Inl e \<Rightarrow> (Inl (Wrapping [DeadlineNotSet e]), Some (tClose t))
             | Inr _ \<Rightarrow>
               (case hopExchange active d env u hdr (proxy \<noteq> None) proxyAuth t of (r, t) \<Rightarrow> (r, Some t))))"

section \<open>Connections are not leaked\<close>

lemma readHeaderBlock_closes:
  "readHeaderBlock maxBytes cp data t = (r, t') \<Longrightarrow> t_closes t' = t_closes t"
proof (induction maxBytes cp data t arbitrary: r t' rule: readHeaderBlock.induct)
  case (1 maxBytes cp data t)
  show ?case
    using 1(3) 1(1,2) tRead_unread(5)
    by (subst (asm) readHeaderBlock.simps) (fastforce simp: Let_def split: option.splits if_splits prod.splits)
qed

lemma tWrite_closes: "tWrite p t = (r, t') \<Longrightarrow> t_closes t' = t_closes t"
  using tWrite_reads(2) [of p t] by simp

lemma handshake_closes: "handshake active d nonce u hdr ab auth t = (r, t') \<Longrightarrow> t_closes t' = t_closes t"
  by (auto simp: handshake_def Let_def dest!: tWrite_closes readHeaderBlock_closes split: prod.splits option.splits)

lemma proxyConnect_closes: "proxyConnect origin auth t = (r, t') \<Longrightarrow> t_closes t' = t_closes t"
  by (auto simp: proxyConnect_def Let_def dest!: tWrite_closes readHeaderBlock_closes split: prod.splits option.splits)

text \<open>A dialer that hands out open connections, and TLS that leaves them open when it succeeds.\<close>

definition opensConnections :: "hopEnv \<Rightarrow> bool" where
  "opensConnections env \<longleftrightarrow> (\<forall>addr t. he_NetDial env addr = Inr t \<longrightarrow> t_closes t = 0) \<and>
     (\<forall>name t t'. he_TLS env name t = (None, t') \<longrightarrow> t_closes t' = t_closes t)"

text \<open>A connection whose handshake is over is open; every other one has been closed.\<close>

definition disposed :: "(goErr + (Handshake \<times> bytes)) \<Rightarrow> transport \<Rightarrow> bool" where
  "disposed r t \<longleftrightarrow> (case r of Inr (_, []) \<Rightarrow> t_closes t = 0 | _ \<Rightarrow> 0 < t_closes t)"

lemma hopFail_disposed: "hopFail cx e t = (r, t') \<Longrightarrow> disposed r t'"
  by (auto simp: hopFail_def disposed_def tClose_def)

lemma hopRelease_disposed: "hopRelease env hs t = (r, t') \<Longrightarrow> t_closes t = 0 \<Longrightarrow> disposed r t'"
  by (auto simp: hopRelease_def disposed_def tClose_def split: if_splits option.splits)

lemma hopHandshake_disposed:
  assumes "hopHandshake active d env u hdr ab auth t = (r, t')" "t_closes t = 0"
  shows "disposed r t'"
proof -
  obtain x t1 where h: "handshake active d (he_nonce env) u hdr ab auth t = (x, t1)" by fastforce
  then have "t_closes t1 = 0" using handshake_closes assms(2) by fastforce
  then show ?thesis
    using assms(1)
    by (auto simp: hopHandshake_def h intro: hopFail_disposed hopRelease_disposed split: sum.splits prod.splits if_splits)
      (auto simp: disposed_def tClose_def split: list.split)
qed

lemma hopTLS_disposed:
  assumes "hopTLS active d env u hdr p auth t = (r, t')" "t_closes t = 0" "opensConnections env"
  shows "disposed r t'"
proof (cases "url_Scheme u = B ''wss''")
  case True
  obtain x t1 where h: "he_TLS env (if he_TLSServerName env = [] then url_Hostname u else he_TLSServerName env) t = (x, t1)" by fastforce
  show ?thesis
  proof (cases x)
    case None
    then have "t_closes t1 = 0" using h assms(2,3) by (fastforce simp: opensConnections_def)
    then show ?thesis using hopHandshake_disposed assms(1) True h None by (simp add: hopTLS_def Let_def)
  next
    case (Some e)
    then show ?thesis using assms(1) True h hopFail_disposed by (simp add: hopTLS_def Let_def)
  qed
next
  case False
  then show ?thesis using hopHandshake_disposed assms by (simp add: hopTLS_def)
qed

lemma hopExchange_disposed:
  assumes "hopExchange active d env u hdr p auth t = (r, t')" "t_closes t = 0" "opensConnections env"
  shows "disposed r t'"
proof (cases "p \<and> url_Scheme u = B ''wss''")
  case True
  obtain x t1 where h: "proxyConnect (originAddr u) auth t = (x, t1)" by fastforce
  then have "t_closes t1 = 0" using proxyConnect_closes assms(2) by fastforce
  then show ?thesis
    using assms True h hopTLS_disposed hopFail_disposed
    by (cases x) (auto simp: hopExchange_def)
next
  case False
  then show ?thesis using hopTLS_disposed assms by (simp add: hopExchange_def split: if_splits)
qed

lemma dialHop_disposed:
  assumes "dialHop active d env u hdr = (r, conn)" "opensConnections env"
  shows "case conn of None \<Rightarrow> \<exists>e. r = Inl e | Some t \<Rightarrow> disposed r t"
proof -
  have open': "t_closes t = 0" if "he_NetDial env a = Inr t" for a t using assms(2) that by (simp add: opensConnections_def)
  show ?thesis
    using assms(1)
    by (auto simp: dialHop_def Let_def intro: hopExchange_disposed [OF _ open' assms(2)] split: sum.splits prod.splits if_splits)
      (auto simp: disposed_def tClose_def)
qed

section \<open>Errors of a hop whose context has ended\<close>









text \<open>
  The documentation of \<^verbatim>\<open>Dial\<close> promises more: that the error wraps any distinct cancellation cause. A cause that
  itself wraps \<^verbatim>\<open>ctx.Err\<close>, such as one built with \<^verbatim>\<open>%w\<close>, is distinct and is dropped.
\<close>

text \<open>A cancellation cause that wraps \<^verbatim>\<open>ctx.Err\<close> is lost. Whatever the request, a dial under a context that has
  ended with such a cause never reports it: the error leads to \<^verbatim>\<open>ctx.Err\<close> only, although the documentation says that it
  wraps any distinct cause.\<close>

theorem wrapping_cause_not_reported:
  assumes "cx_cause (he_context env) = Some cause" "cause \<noteq> cx_err (he_context env)"
    "cx_err (he_context env) \<in> {Canceled, ContextDeadlineExceeded}" "errorsIs cause (cx_err (he_context env))"
    "ended (he_context env) 0" "hopProxy env u hdr = Inr p" "cause \<noteq> Wrapping [cx_err (he_context env)]"
  shows "\<exists>e. dialHop active d env u hdr = (Inl e, None) \<and> errorsIs e (cx_err (he_context env)) \<and> \<not> errorsIs e cause"
  using assms by (cases p) (auto simp: dialHop_def contextError_def)

section \<open>The hops of a dial\<close>

text \<open>Each hop has its own environment; the state counts the hops, keeps their connections and the last error.\<close>

record hopsState =
  hs_hops :: nat
  hs_conns :: "transport list"
  hs_error :: "goErr option"

definition hopsEnv :: "'w deflateConfig \<Rightarrow> Dialer \<Rightarrow> (nat \<Rightarrow> hopEnv) \<Rightarrow> 's dialEnv \<Rightarrow> hopsState dialEnv" where
  "hopsEnv active d envs net =
     \<lparr>de_parse = de_parse net, de_resolve = de_resolve net, de_hostEq = de_hostEq net,
      de_hop = (\<lambda>u hdr s.
        case dialHop active d (envs (hs_hops s)) u hdr of
          (r, conn) \<Rightarrow>
            ((case r of Inl _ \<Rightarrow> Inl (HopFailed (hs_hops s)) | Inr x \<Rightarrow> Inr x),
             \<lparr>hs_hops = Suc (hs_hops s), hs_conns = hs_conns s @ (case conn of None \<Rightarrow> [] | Some t \<Rightarrow> [t]),
              hs_error = (case r of Inl e \<Rightarrow> Some e | Inr _ \<Rightarrow> None)\<rparr>))\<rparr>"

definition closedAll :: "transport list \<Rightarrow> bool" where
  "closedAll ts \<longleftrightarrow> list_all (\<lambda>t. 0 < t_closes t) ts"

lemma dialLoop_closes:
  assumes "dialLoop (hopsEnv active d envs net) policy u hdr via s = (r, s')" "\<And>n. opensConnections (envs n)"
    "closedAll (hs_conns s)"
  shows "(case r of Inl _ \<Rightarrow> closedAll (hs_conns s')
      | Inr _ \<Rightarrow> \<exists>ts t. hs_conns s' = ts @ [t] \<and> closedAll ts \<and> t_closes t = 0) \<and>
    hs_hops s' \<le> Suc (hs_hops s + (maxRedirects - length via))"
  using assms(1,3)
proof (induction "maxRedirects - length via" arbitrary: via u hdr s rule: less_induct)
  case less
  obtain x conn where hop: "dialHop active d (envs (hs_hops s)) u hdr = (x, conn)" by fastforce
  note dis = dialHop_disposed [OF hop assms(2)]
  define s1 where "s1 = \<lparr>hs_hops = Suc (hs_hops s), hs_conns = hs_conns s @ (case conn of None \<Rightarrow> [] | Some t \<Rightarrow> [t]),
      hs_error = (case x of Inl e \<Rightarrow> Some e | Inr _ \<Rightarrow> None)\<rparr>"
  have hops: "hs_hops s1 = Suc (hs_hops s)" by (simp add: s1_def)
  have de: "de_hop (hopsEnv active d envs net) u hdr s =
      ((case x of Inl _ \<Rightarrow> Inl (HopFailed (hs_hops s)) | Inr x \<Rightarrow> Inr x), s1)"
    by (simp add: hopsEnv_def hop s1_def)
  note run = less.prems(1) [unfolded dialLoop.simps [of "hopsEnv active d envs net" policy u] de]
  show ?case
  proof (cases x)
    case (Inl e)
    then show ?thesis using run dis less.prems(2)
      by (auto simp: s1_def closedAll_def disposed_def split: option.splits)
  next
    case (Inr y)
    then obtain hs location t where y: "x = Inr (hs, location)" "conn = Some t"
      using dis by (cases y) (auto split: option.splits)
    show ?thesis
    proof (cases "location = []")
      case True
      then show ?thesis using run dis less.prems(2) y by (auto simp: s1_def disposed_def)
    next
      case False
      then have cl: "closedAll (hs_conns s1)" using dis y less.prems(2)
        by (cases location) (auto simp: s1_def closedAll_def disposed_def)
      consider (stop) e where "r = Inl e" "s' = s1"
        | (more) u2 hdr2 where "length via < maxRedirects"
          "dialLoop (hopsEnv active d envs net) policy u2 hdr2 (via @ [(u, hdr)]) s1 = (r, s')"
        using run y False by (auto split: sum.splits if_splits option.splits)
      then show ?thesis
      proof cases
        case stop
        then show ?thesis using cl by (simp add: s1_def)
      next
        case more
        then have "maxRedirects - length (via @ [(u, hdr)]) < maxRedirects - length via" by simp
        from less.hyps [OF this more(2) cl] more(1) show ?thesis by (auto simp: hops)
      qed
    qed
  qed
qed

text \<open>C9: A dial leaks no connection. Whatever proxies, dialers, TLS, servers and contexts do on each of its hops, a dial
  that fails has closed every connection it opened, and one that succeeds every one but the last, which is open and
  is the one returned; it makes at most eleven hops.\<close>

theorem dial_leaks_no_connection:
  assumes "Dial active (hopsEnv active d envs net) d rawURL \<lparr>hs_hops = 0, hs_conns = [], hs_error = None\<rparr> = (r, s)"
    "\<And>n. opensConnections (envs n)"
  shows "(case r of Inl _ \<Rightarrow> closedAll (hs_conns s)
      | Inr _ \<Rightarrow> \<exists>ts t. hs_conns s = ts @ [t] \<and> closedAll ts \<and> t_closes t = 0) \<and> hs_hops s \<le> 11"
proof -
  have "(\<exists>e. r = Inl e) \<and> s = \<lparr>hs_hops = 0, hs_conns = [], hs_error = None\<rparr> \<or>
      (\<exists>u hdr. dialLoop (hopsEnv active d envs net) (d_CheckRedirect d) u hdr [] \<lparr>hs_hops = 0, hs_conns = [], hs_error = None\<rparr> = (r, s))"
    using assms(1) by (auto simp: Dial_def Let_def split: if_splits option.splits)
  then show ?thesis
    using dialLoop_closes [OF _ assms(2), where via = "[]" and s = "\<lparr>hs_hops = 0, hs_conns = [], hs_error = None\<rparr>" and r = r and s' = s]
    by (fastforce simp: closedAll_def maxRedirects_def)
qed

section \<open>Witnesses\<close>

text \<open>A server that does not take the whole request.\<close>

definition demoConn :: "(nat \<times> ioErr option) option list \<Rightarrow> transport" where
  "demoConn writes = \<lparr>t_reads = [], t_end = EOF, t_writes = writes, t_sent = [], t_closes = 0\<rparr>"

definition demoHop :: "contextState \<Rightarrow> transport \<Rightarrow> hopEnv" where
  "demoHop cx t = \<lparr>he_Proxy = None, he_reparse = (\<lambda>_. None), he_NetDial = (\<lambda>_. Inr t), he_context = cx, he_armErr = None,
     he_TLSServerName = [], he_TLS = (\<lambda>_ t. (None, t)), he_nonce = [], he_clearErr = None\<rparr>"

definition demoContext :: "nat option \<Rightarrow> goErr option \<Rightarrow> contextState" where
  "demoContext at cause = \<lparr>cx_endsAt = at, cx_err = Canceled, cx_cause = cause, cx_hasDeadline = False\<rparr>"




theorem wrapping_cause_not_reported_witness:
  "\<exists>e. dialHop storeConfig demoDialer (demoHop (demoContext (Some 0) (Some (Foreign 1 [Canceled]))) (demoConn []))
      (demoURL (B ''a'')) [] = (Inl e, None) \<and> errorsIs e Canceled \<and> \<not> errorsIs e (Foreign 1 [Canceled])"
  using wrapping_cause_not_reported [of "demoHop (demoContext (Some 0) (Some (Foreign 1 [Canceled]))) (demoConn [])"
      "Foreign 1 [Canceled]" "demoURL (B ''a'')" "[]" "(None, [])" storeConfig demoDialer]
  by (simp add: demoHop_def demoContext_def ended_def hopProxy_def)

text \<open>The deadline of the handshake cannot be set on the new connection: it is closed.\<close>

definition demoHops :: "nat \<Rightarrow> hopEnv" where
  "demoHops n = (demoHop (demoContext None None) (demoConn []))\<lparr>he_armErr := Some NetClosed\<rparr>"

theorem dial_leaks_no_connection_witness:
  "\<exists>s. Dial storeConfig (hopsEnv storeConfig demoDialer demoHops demoEnv) demoDialer (B ''a'')
      \<lparr>hs_hops = 0, hs_conns = [], hs_error = None\<rparr> = (Inl (HopFailed 0), s) \<and> closedAll (hs_conns s) \<and> length (hs_conns s) = 1"
proof -
  let ?run = "Dial storeConfig (hopsEnv storeConfig demoDialer demoHops demoEnv) demoDialer (B ''a'')
      \<lparr>hs_hops = 0, hs_conns = [], hs_error = None\<rparr>"
  have r: "fst ?run = Inl (HopFailed 0)" "length (hs_conns (snd ?run)) = 1" by code_simp+
  obtain s where s: "?run = (Inl (HopFailed 0), s)" using r(1) by (cases ?run) auto
  have "\<And>n. opensConnections (demoHops n)"
    by (auto simp: opensConnections_def demoHops_def demoHop_def demoConn_def)
  from dial_leaks_no_connection [OF s this] show ?thesis using r(2) s by simp
qed

end
