(* ===== verification/Raw_Client.thy ===== *)
theory Raw_Client
  imports Closing Upgrade_Http Bench_Workload
begin

text \<open>
  The benchmark's independent WebSocket client, \<^verbatim>\<open>bench/harness/cmd/loadgen/raw_client.go\<close>, written without
  the library's framing: its check of the upgrade response, and its frames. The lemmas show that the two implementations
  agree on the wire format.

  The \<^verbatim>\<open>bufio.Reader\<close> under it is the bytes still to come and how they end; the masking generator is the sequence of
  the words its four-byte reads make up.
\<close>

section \<open>The upgrade response\<close>

definition isSpace :: "byte \<Rightarrow> bool" where
  "isSpace b \<longleftrightarrow> b \<in> set [9, 10, 11, 12, 13, 32]"

text \<open>\<^verbatim>\<open>strings.TrimSpace\<close>, on ASCII\<close>

definition trimSpace :: "bytes \<Rightarrow> bytes" where
  "trimSpace s = rev (dropWhile isSpace (rev (dropWhile isSpace s)))"

definition headerContainsToken :: "(bytes \<Rightarrow> bytes \<Rightarrow> bool) \<Rightarrow> bytes list \<Rightarrow> bytes \<Rightarrow> bool" where
  "headerContainsToken equalFold values token =
     list_ex (\<lambda>value. list_ex (\<lambda>part. equalFold (trimSpace part) token) (splitOn 0x2C value)) values"

text \<open>The response as \<^verbatim>\<open>net/http\<close> has parsed it; \<open>None\<close> accepts it.\<close>

datatype rawDialErr = RawStatus int | RawUpgradeHeaders

definition rawUpgradeErr :: "(bytes \<Rightarrow> bytes \<Rightarrow> bool) \<Rightarrow> bytes \<Rightarrow> int \<Rightarrow> httpHeader \<Rightarrow> rawDialErr option" where
  "rawUpgradeErr equalFold key status hdr =
     (if status \<noteq> 101 then Some (RawStatus status)
      else
        let wantAccept = base64Encode (sha1Sum (key @ acceptGUID)) in
        if \<not> equalFold (headerGet hdr (B ''Upgrade'')) (B ''websocket'') \<or>
           \<not> headerContainsToken equalFold (headerValues hdr (B ''Connection'')) (B ''upgrade'') \<or>
           headerGet hdr (B ''Sec-WebSocket-Accept'') \<noteq> wantAccept
        then Some RawUpgradeHeaders else None)"

text \<open>The key it sends is one the server's accept value answers.\<close>

lemma rawAccept: "length key = 24 \<Longrightarrow> base64Encode (sha1Sum (key @ acceptGUID)) = AppendAccept [] key"
  by (simp add: AppendAccept_def acceptKeyLen_def)

section \<open>The client\<close>

record rawClient =
  rc_conn :: transport
  rc_in :: bytes
  rc_end :: ioErr
  rc_opcode :: byte
  rc_masks :: "nat \<Rightarrow> 32 word"
  rc_maskPos :: nat

datatype rawErr =
    RawIO ioErr
  | UnsupportedServerFrame bool byte bool
  | NonCanonical16 nat
  | Invalid64 nat
  | UnexpectedServerOpcode byte
  | RawAllocPanic

definition rawOpcode :: "bytes \<Rightarrow> byte option" where
  "rawOpcode kind = (if kind = B ''binary'' then Some 2 else if kind = B ''text'' then Some 1 else None)"

section \<open>Writing\<close>

text \<open>\<^verbatim>\<open>writeAll\<close> writes on after a short write and gives up on one that takes nothing.\<close>

function writeAll :: "bytes \<Rightarrow> transport \<Rightarrow> ioErr option \<times> transport" where
  "writeAll p t =
     (if p = [] then (None, t)
      else case tWrite p t of
        ((n, Some e), t) \<Rightarrow> (Some e, t)
      | ((n, None), t) \<Rightarrow> if n = 0 then (Some NoProgress, t) else writeAll (drop n p) t)"
  by pat_completeness auto
termination by (relation "measure (\<lambda>(p, _). length p)") auto

declare writeAll.simps [simp del]

definition rawHeader :: "byte \<Rightarrow> nat \<Rightarrow> bytes" where
  "rawHeader op n =
     (0x80 OR op) #
     (if n \<le> 125 then [0x80 OR of_nat n]
      else if n \<le> 65535 then (0x80 OR 126) # put_be 2 (of_nat n :: 16 word)
      else (0x80 OR 127) # put_be 8 (of_nat n :: 64 word))"

definition rawMasked :: "bytes \<Rightarrow> bytes \<Rightarrow> bytes" where
  "rawMasked key p = map (\<lambda>i. p ! i XOR key ! (i mod 4)) [0..<length p]"

definition rawWriteFrame :: "byte \<Rightarrow> bytes \<Rightarrow> rawClient \<Rightarrow> ioErr option \<times> rawClient" where
  "rawWriteFrame op p c =
     (let key = put_le 4 (rc_masks c (rc_maskPos c));
          c = c\<lparr>rc_maskPos := Suc (rc_maskPos c)\<rparr> in
      case writeAll (rawHeader op (length p) @ key) (rc_conn c) of
        (Some e, t) \<Rightarrow> (Some e, c\<lparr>rc_conn := t\<rparr>)
      | (None, t) \<Rightarrow>
        (case writeAll (rawMasked key p) t of (e, t) \<Rightarrow> (e, c\<lparr>rc_conn := t\<rparr>)))"

definition rawWriteMessage :: "bytes \<Rightarrow> rawClient \<Rightarrow> ioErr option \<times> rawClient" where
  "rawWriteMessage p c = rawWriteFrame (rc_opcode c) p c"

section \<open>Reading\<close>

text \<open>\<^verbatim>\<open>io.ReadFull\<close>\<close>

definition readFull :: "nat \<Rightarrow> rawClient \<Rightarrow> (rawErr + bytes) \<times> rawClient" where
  "readFull n c =
     (if n \<le> length (rc_in c) then (Inr (take n (rc_in c)), c\<lparr>rc_in := drop n (rc_in c)\<rparr>)
      else (Inl (RawIO (if rc_in c \<noteq> [] \<and> rc_end c = EOF then UnexpectedEOF else rc_end c)), c\<lparr>rc_in := []\<rparr>))"

definition rawReadLength :: "byte \<Rightarrow> rawClient \<Rightarrow> (rawErr + nat) \<times> rawClient" where
  "rawReadLength code c =
     (if code = 126 then
        (case readFull 2 c of
           (Inl e, c) \<Rightarrow> (Inl e, c)
         | (Inr raw, c) \<Rightarrow>
             let len = unat (be_word raw :: 16 word) in
             (if len < 126 then Inl (NonCanonical16 len) else Inr len, c))
      else if code = 127 then
        (case readFull 8 c of
           (Inl e, c) \<Rightarrow> (Inl e, c)
         | (Inr raw, c) \<Rightarrow>
             let len = unat (be_word raw :: 64 word) in
             (if len < 65536 \<or> len div 2 ^ 63 \<noteq> 0 then Inl (Invalid64 len) else Inr len, c))
      else (Inr (unat code), c))"

text \<open>One frame: its opcode and payload. The payload is allocated before it is read.\<close>

definition rawReadFrame :: "rawClient \<Rightarrow> (rawErr + byte \<times> bytes) \<times> rawClient" where
  "rawReadFrame c =
     (case readFull 2 c of
        (Inl e, c) \<Rightarrow> (Inl e, c)
      | (Inr head, c) \<Rightarrow>
          let fin = (head ! 0 AND 0x80 \<noteq> 0);
              rsv = head ! 0 AND 0x70;
              opcode = head ! 0 AND 0x0f;
              masked = (head ! 1 AND 0x80 \<noteq> 0) in
          if \<not> fin \<or> rsv \<noteq> 0 \<or> masked then (Inl (UnsupportedServerFrame fin rsv masked), c)
          else case rawReadLength (head ! 1 AND 0x7f) c of
            (Inl e, c) \<Rightarrow> (Inl e, c)
          | (Inr len, c) \<Rightarrow>
              if int len \<ge> maxAlloc then (Inl RawAllocPanic, c)
              else case readFull len c of
                (Inl e, c) \<Rightarrow> (Inl e, c)
              | (Inr payload, c) \<Rightarrow> (Inr (opcode, payload), c))"

lemma readFull_in: "readFull n c = (Inr b, c') \<Longrightarrow> rc_in c = b @ rc_in c' \<and> length b = n"
  by (auto simp: readFull_def split: if_splits)

lemma rawReadLength_in: "rawReadLength code c = (Inr n, c') \<Longrightarrow> length (rc_in c') \<le> length (rc_in c)"
  by (auto simp: rawReadLength_def Let_def dest!: readFull_in split: if_splits sum.splits prod.splits)

lemma rawReadFrame_in: "rawReadFrame c = (Inr r, c') \<Longrightarrow> length (rc_in c') < length (rc_in c)"
  by (auto simp: rawReadFrame_def Let_def dest!: readFull_in rawReadLength_in split: if_splits sum.splits prod.splits)

lemma rawWriteFrame_in [simp]: "rawWriteFrame op p c = (e, c') \<Longrightarrow> rc_in c' = rc_in c"
  by (auto simp: rawWriteFrame_def Let_def split: prod.splits option.splits)

function rawReadMessage :: "rawClient \<Rightarrow> (rawErr + bytes) \<times> rawClient" where
  "rawReadMessage c =
     (case rawReadFrame c of
        (Inl e, c) \<Rightarrow> (Inl e, c)
      | (Inr (opcode, payload), c) \<Rightarrow>
          if opcode = rc_opcode c then (Inr payload, c)
          else if opcode = 0x8 then (Inl (RawIO EOF), c)
          else if opcode = 0x9 then
            (case rawWriteFrame 0xA payload c of
               (Some e, c) \<Rightarrow> (Inl (RawIO e), c)
             | (None, c) \<Rightarrow> rawReadMessage c)
          else if opcode = 0xA then rawReadMessage c
          else (Inl (UnexpectedServerOpcode opcode), c))"
  by pat_completeness auto
termination
proof (relation "measure (\<lambda>c. length (rc_in c))", goal_cases)
  case (2 c x c1 r op p _ c2)
  then have "rc_in c2 = rc_in c1" by (metis rawWriteFrame_in)
  then show ?case using 2 rawReadFrame_in [of c "(op, p)" c1] by auto
next
  case (3 c x c1 r op p)
  then show ?case using rawReadFrame_in [of c "(op, p)" c1] by auto
qed simp

declare rawReadMessage.simps [simp del]

section \<open>The two implementations agree\<close>

text \<open>What it writes is the masked frame of the library's encoder.\<close>

lemma rawMasked_Mask: "rawMasked (put_le 4 key) p = fst (Mask p key)"
  by (simp add: rawMasked_def purego.masked_bytes keyByte_def nth_put_le)

lemma rawHeader_AppendHeader:
  assumes "op = 1 \<or> op = 2 \<or> op = 0xA"
  shows "rawHeader op (length p) @ put_le 4 key = AppendHeader [] (frameHeader (Some key) op True 0 p)"
proof -
  have "firstByte (frameHeader (Some key) op True 0 p) = 0x80 OR op"
    using assms by (elim disjE) (simp_all add: firstByte_def frameHeader_def)
  moreover have "secondByte (frameHeader (Some key) op True 0 p) =
      (if length p \<le> 125 then 0x80 OR of_nat (length p) else if length p \<le> 65535 then 0x80 OR 126 else 0x80 OR 127)"
    by (simp add: secondByte_def lengthCodeOf_def frameHeader_def)
  moreover have "extBytes (h_Length (frameHeader (Some key) op True 0 p)) =
      (if length p \<le> 125 then [] else if length p \<le> 65535 then put_be 2 (of_nat (length p) :: 16 word)
       else put_be 8 (of_nat (length p) :: 64 word))"
    by (simp add: extBytes_def frameHeader_def)
  ultimately show ?thesis by (simp add: AppendHeader_parts rawHeader_def keyBytes_def frameHeader_def)
qed

lemma writeAll_ok:
  assumes "writesOk t"
  shows "\<exists>t'. writeAll p t = (None, t') \<and> writesOk t' \<and> wire t' = wire t @ p"
proof (cases "p = []")
  case True
  then show ?thesis using assms by (intro exI [of _ t]) (simp add: writeAll.simps [of "[]" t])
next
  case False
  have "writeAll p t = (None, sentTransport p t)"
    using False by (subst writeAll.simps) (simp add: tWrite_ok [OF assms] sentTransport_def writeAll.simps [of "[]"])
  then show ?thesis using assms by simp
qed

lemma rawWriteFrame_ok:
  assumes "writesOk (rc_conn c)" "op = 1 \<or> op = 2 \<or> op = 0xA"
  shows "\<exists>c'. rawWriteFrame op p c = (None, c') \<and> writesOk (rc_conn c') \<and> rc_opcode c' = rc_opcode c \<and>
    wire (rc_conn c') = wire (rc_conn c) @ encFrame (Some (rc_masks c (rc_maskPos c))) op True 0 p"
proof -
  let ?key = "rc_masks c (rc_maskPos c)"
  obtain t1 where t1: "writeAll (rawHeader op (length p) @ put_le 4 ?key) (rc_conn c) = (None, t1)" "writesOk t1"
    "wire t1 = wire (rc_conn c) @ rawHeader op (length p) @ put_le 4 ?key"
    using writeAll_ok [OF assms(1)] by blast
  obtain t2 where "writeAll (rawMasked (put_le 4 ?key) p) t1 = (None, t2)" "writesOk t2"
    "wire t2 = wire t1 @ rawMasked (put_le 4 ?key) p"
    using writeAll_ok [OF t1(2)] by blast
  then show ?thesis using t1 rawHeader_AppendHeader [OF assms(2), of p ?key]
    by (auto simp: rawWriteFrame_def Let_def encFrame_parts framePayload_def rawMasked_Mask)
qed

text \<open>What the library's server writes, it reads.\<close>

lemma readFull_append [simp]:
  "rc_in c = a @ r \<Longrightarrow> n = length a \<Longrightarrow> readFull n c = (Inr a, c\<lparr>rc_in := r\<rparr>)"
  by (simp add: readFull_def)

lemma rawReadLength_ext:
  assumes "n < 2 ^ 63" "rc_in c = extBytes (int n) @ r"
  shows "rawReadLength (lengthCodeOf (int n)) c = (Inr n, c\<lparr>rc_in := r\<rparr>)"
proof -
  consider "n \<le> 125" | "125 < n" "n \<le> 65535" | "65535 < n" by linarith
  then show ?thesis
  proof cases
    case 1
    then have "rc_in c = r" using assms(2) by (simp add: extBytes_def)
    moreover have "uint (lengthCodeOf (int n)) = int n" using 1 lengthCodeOf_small [of "int n"] by simp
    then have "unat (lengthCodeOf (int n)) = n" by (simp add: unat_eq_nat_uint)
    moreover have "lengthCodeOf (int n) \<noteq> 126" "lengthCodeOf (int n) \<noteq> 127"
      using lengthCodeOf_small_ne [of "int n"] 1 by simp_all
    ultimately show ?thesis by (simp add: rawReadLength_def)
  next
    case 2
    then have "rc_in c = put_be 2 (of_nat n :: 16 word) @ r" using assms(2) by (simp add: extBytes_def)
    moreover have "unat (of_nat n :: 16 word) = n" using 2 by (simp add: unat_of_nat)
    ultimately show ?thesis using 2 by (simp add: rawReadLength_def lengthCodeOf_def be_word_put_be)
  next
    case 3
    then have "rc_in c = put_be 8 (of_nat n :: 64 word) @ r" using assms(2) by (simp add: extBytes_def)
    moreover have "unat (of_nat n :: 64 word) = n" using assms(1) by (simp add: unat_of_nat)
    ultimately show ?thesis using 3 assms(1) by (simp add: rawReadLength_def lengthCodeOf_def be_word_put_be)
  qed
qed

lemma rawReadFrame_encFrame:
  assumes "op = 1 \<or> op = 2" "int (length p) < maxAlloc" "rc_in c = encFrame None op True 0 p @ r"
  shows "rawReadFrame c = (Inr (op, p), c\<lparr>rc_in := r\<rparr>)"
proof -
  have n: "length p < 2 ^ 63" "int (length p) < 2 ^ 63" using assms(2) by (simp_all add: maxAlloc_def)
  let ?b0 = "0x80 OR op"
  let ?b1 = "lengthCodeOf (int (length p))"
  have b0: "firstByte (frameHeader None op True 0 p) = ?b0" "?b0 AND 0x80 \<noteq> 0" "?b0 AND 0x70 = 0" "?b0 AND 0x0f = op"
    using assms(1) by (elim disjE; simp add: firstByte_def frameHeader_def)+
  have b1: "?b1 AND 0x80 = 0" "?b1 AND 0x7f = ?b1"
    using lengthCodeOf_bit7 [of "int (length p)"] secondByte_lengthCode [of "frameHeader None op True 0 p"] n(2)
    by (simp_all add: and_80_cases secondByte_def frameHeader_def)
  define c1 where "c1 = c\<lparr>rc_in := extBytes (int (length p)) @ p @ r\<rparr>"
  have "rc_in c = [?b0, ?b1] @ (extBytes (int (length p)) @ p @ r)"
    using assms(3) b0(1) by (simp add: encFrame_parts framePayload_def AppendHeader_parts keyBytes_def secondByte_def frameHeader_def)
  then have 1: "readFull 2 c = (Inr [?b0, ?b1], c1)" by (simp add: c1_def)
  have 2: "rawReadLength ?b1 c1 = (Inr (length p), c1\<lparr>rc_in := p @ r\<rparr>)" using rawReadLength_ext [OF n(1)] by (simp add: c1_def)
  have 3: "readFull (length p) (c1\<lparr>rc_in := p @ r\<rparr>) = (Inr p, c\<lparr>rc_in := r\<rparr>)" by (simp add: c1_def)
  have "\<not> maxAlloc \<le> int (length p)" using assms(2) by simp
  then show ?thesis unfolding rawReadFrame_def 1 Let_def by (simp only: nth_Cons_0 nth_Cons_numeral One_nat_def nth_Cons_Suc b0(2-4) b1 2 3 prod.case sum.case if_False simp_thms)
qed

end
