(* ===== verification/Echo_Server.thy ===== *)
theory Echo_Server
  imports Raw_Client Serve
begin

text \<open>
  The benchmark's echo server on the library, \<^verbatim>\<open>bench/harness/cmd/echoserver/server_gows.go\<close>, and the exchange between it and
  the independent client of \<open>Raw_Client\<close>: two implementations of the protocol that share no code.
\<close>

section \<open>The server\<close>

text \<open>The fields of \<^verbatim>\<open>serverConfig\<close> a connection depends on; the others set socket options and tracing.\<close>

record serverConfig =
  sv_readBufSize :: int
  sv_skipUTF8 :: bool
  sv_useServe :: bool

definition bufferSize :: int where "bufferSize = 4096"
definition rbuf1kSize :: int where "rbuf1kSize = 1024 + int MaxHeaderSize"

definition gowsVariants :: "(bytes \<times> serverConfig) list" where
  "gowsVariants =
     [(B ''gows'', \<lparr>sv_readBufSize = bufferSize, sv_skipUTF8 = False, sv_useServe = False\<rparr>),
      (B ''gows-noutf8'', \<lparr>sv_readBufSize = bufferSize, sv_skipUTF8 = True, sv_useServe = False\<rparr>),
      (B ''gows-rbuf1k'', \<lparr>sv_readBufSize = rbuf1kSize, sv_skipUTF8 = False, sv_useServe = False\<rparr>),
      (B ''gows-rbuf16k'', \<lparr>sv_readBufSize = 16 * 1024, sv_skipUTF8 = False, sv_useServe = False\<rparr>),
      (B ''gows-serve'', \<lparr>sv_readBufSize = bufferSize, sv_skipUTF8 = False, sv_useServe = True\<rparr>)]"

definition echoOptions :: "serverConfig \<Rightarrow> Handshake \<Rightarrow> ConnOption list" where
  "echoOptions cfg hs =
     [WithReadBufferSize (sv_readBufSize cfg), WithBuffered (hk_Buffered hs)] @
     (if sv_skipUTF8 cfg then [WithSkipUTF8Validation True] else [])"

lemma WriteMessage_avail:
  assumes "WriteMessage op p c = (r, c')"
  shows "avail c' = avail c"
proof -
  have emit: "emitFrameLocked op fin rsv p b = (x, d) \<Longrightarrow> avail d = avail b" for op fin rsv p b x and d :: "'a Conn"
    by (metis snd_conv wrote_avail wrote_emit)
  have flush: "flushBufferedLocked b = (x, d) \<Longrightarrow> avail d = avail b" for b x and d :: "'a Conn"
    by (metis snd_conv wrote_avail wrote_flush)
  have frame: "writeFrame y z b = (x, d) \<Longrightarrow> avail d = avail b" for y z b x and d :: "'a Conn"
    by (metis snd_conv wrote_avail wrote_writeFrame)
  have direct: "connWrite y b = (x, d) \<Longrightarrow> avail d = avail b" for y b x and d :: "'a Conn"
    by (metis snd_conv wrote_avail wrote_connWrite)
  have deflate: "avail (b\<lparr>c_deflate := ds\<rparr>) = avail b" for b :: "'a Conn" and ds by (simp add: avail_def)
  have locked: "writeMessageLocked op p b = (x, d) \<Longrightarrow> avail d = avail b" for b x and d :: "'a Conn"
    by (auto simp: writeMessageLocked_def disableOutgoing_def Let_def deflate dest!: emit
        split: if_splits prod.splits sum.splits option.splits)
  have mode: "selectMode connModeMessage c = (x, d) \<Longrightarrow> avail d = avail c" for x d
    by (auto simp: selectMode_def avail_def split: if_splits)
  show ?thesis
    using assms by (auto simp: WriteMessage_def Let_def dest!: mode locked flush frame direct
        split: if_splits prod.splits option.splits)
qed

lemma ReadMessage_avail:
  assumes "ReadMessage c = (Inr m, c')"
  shows "avail c' < avail c"
proof -
  obtain c1 where c1: "selectMode connModeMessage c = (None, c1)" "readMessage c1 = (None, c')"
    using assms by (auto simp: ReadMessage_def readMessage_def split: prod.splits option.splits if_splits)
  then have "avail c1 = avail c" by (auto simp: selectMode_def avail_def split: if_splits)
  then show ?thesis using readMessage_avail [OF c1(2)] by simp
qed

function echoLoop :: "'w Conn \<Rightarrow> 'w Conn" where
  "echoLoop c =
     (case ReadMessage c of
        (Inl _, c) \<Rightarrow> c
      | (Inr (op, msg), c) \<Rightarrow>
        (case WriteMessage op msg c of
           (Some _, c) \<Rightarrow> c
         | (None, c) \<Rightarrow> echoLoop c))"
  by pat_completeness auto
termination
proof (relation "measure avail", goal_cases)
  case (2 c x c1 m op msg y c2)
  then show ?case using ReadMessage_avail [of c m c1] WriteMessage_avail [of op msg c1 y c2] by simp
qed simp

declare echoLoop.simps [simp del]

text \<open>A connection after its upgrade, and the transport at the end; \<^const>\<open>None\<close> would be a \<^verbatim>\<open>Serve\<close> that never returns.\<close>

definition echoSession :: "bool \<Rightarrow> 'w deflateConfig \<Rightarrow> (nat \<Rightarrow> 32 word) \<Rightarrow> serverConfig \<Rightarrow> Handshake \<Rightarrow> transport \<Rightarrow> transport option" where
  "echoSession vectored active keys cfg hs t =
     (case newConn t vectored False active keys (echoOptions cfg hs) of
        Inl _ \<Rightarrow> Some t
      | Inr c \<Rightarrow>
          if sv_useServe cfg then map_option (\<lambda>(_, c, _). c_conn c) (Serve echo c ())
          else Some (c_conn (echoLoop c)))"

definition zeroUpgrader :: Upgrader where
  "zeroUpgrader = \<lparr>u_Subprotocols = [], u_OriginCheck = None, u_ForwardResponseHeaders = False, u_MaxHeaderBytes = 0,
     u_RawPath = False, u_EnableCompression = False, u_NegotiateWindowBits = False, u_AllowContextTakeover = False,
     u_TrustClientWindowBitsHint = False, u_ClientWindowBits = 0\<rparr>"

definition serveGoWSConn :: "int \<Rightarrow> bool \<Rightarrow> 'w deflateConfig \<Rightarrow> (nat \<Rightarrow> 32 word) \<Rightarrow> serverConfig \<Rightarrow> transport \<Rightarrow> transport option" where
  "serveGoWSConn currentBits vectored active keys cfg t =
     (case Upgrade currentBits zeroUpgrader t of
        (Inl _, t) \<Rightarrow> Some (tClose t)
      | (Inr hs, t) \<Rightarrow> map_option tClose (echoSession vectored active keys cfg hs t))"

lemma serveGoWSConn_closes: "\<exists>t'. serveGoWSConn currentBits vectored active keys cfg t = Some t' \<and> 0 < t_closes t'"
proof -
  have "\<exists>t'. echoSession vectored active keys cfg hs t1 = Some t'" for hs t1
    using serve_returns [OF onlyWrites_echo] by (fastforce simp: echoSession_def split: sum.split)
  then obtain f where "\<And>hs t1. echoSession vectored active keys cfg hs t1 = Some (f hs t1)" by metis
  then show ?thesis by (auto simp: serveGoWSConn_def tClose_def split: prod.split sum.split)
qed

section \<open>What it sends back\<close>

text \<open>The end of the stream ends the loop, and sends nothing.\<close>

lemma ReadMessage_end:
  assumes "listening c" "pending c = []"
  shows "\<exists>e c'. ReadMessage c = (Inl e, c') \<and> wire (c_conn c') = wire (c_conn c)"
proof -
  define d where "d = (erase c)\<lparr>c_mode := connModeMessage\<rparr>"
  have d: "c_mode d = connModeMessage" "\<not> c_tornDown d" "t_closes (c_conn d) = 0" "wire (c_conn d) = wire (c_conn c)" "c_readErr d = None"
    using assms(1) by (simp_all add: d_def listening_def readable_def steady_def wire_def erase_def)
  let ?e = "IOErr (t_end (c_conn d))"
  have "decodeFor client compression [] = Inl rejectShort" for client compression
    by (simp add: decodeFor_short_iff DecodeHeader_short)
  then have "specMessage [] (erase c) = (Inl ?e, teardown (d\<lparr>c_readErr := Some ?e\<rparr>), [])"
    using d(5) by (simp add: specMessage_def specLoop.simps [of False 0 "[]" accept "[]" d, unfolded d_def] ioError_def d_def)
  then obtain c' where "ReadMessage c = (Inl ?e, c')" "erase c' = teardown (d\<lparr>c_readErr := Some ?e\<rparr>)"
    using ReadMessage_refines [of c "Inl ?e" _ "[]"] assms by (auto simp: listening_def agrees_def)
  then show ?thesis using closedAfter_teardown [OF _ d(1-3)] d(4) by (auto simp: closedAfter_def)
qed

lemma echoLoop_echoes:
  assumes "listening s" "ready s" "\<not> c_client s" "c_wbatch s = []" "pending s = concat bss"
    "list_all2 (\<lambda>m. isEncoding True (fst m) (snd m)) ms bss"
    "list_all (\<lambda>m. IsData (fst m) \<and> admits s (fst m) (snd m)) ms"
  shows "wire (c_conn (echoLoop s)) = wire (c_conn s) @ concat (map (\<lambda>m. encFrame None (fst m) True 0 (snd m)) ms)"
  using assms
proof (induction ms arbitrary: s bss)
  case Nil
  then obtain e c' where "ReadMessage s = (Inl e, c')" "wire (c_conn c') = wire (c_conn s)"
    using ReadMessage_end [of s] by auto
  then show ?case by (simp add: echoLoop.simps [of s])
next
  case (Cons m ms)
  obtain bs bss' where b: "bss = bs # bss'" "isEncoding True (fst m) (snd m) bs" "list_all2 (\<lambda>m. isEncoding True (fst m) (snd m)) ms bss'"
    using Cons.prems(6) by (auto simp: list_all2_Cons1)
  have m: "list_all (\<lambda>m. IsData (fst m) \<and> admits s (fst m) (snd m)) [m]" using Cons.prems(7) by simp
  obtain d where "readMessages (length [m]) s = (Inr [m], d)" and d: "listening d" "pending d = concat bss'" "sameOut s d"
    using readMessages_sameOut [OF Cons.prems(1) _ _ m, of "[bs]" "concat bss'"] Cons.prems(3,5) b by auto
  then have rm: "ReadMessage s = (Inr m, d)" by (auto split: prod.splits sum.splits)
  have rd: "ready d" "\<not> c_client d" "outbox d = wire (c_conn s)"
    using d(1,3) Cons.prems(2-4) by (auto simp: sameOut_def ready_def listening_def outbox_def)
  obtain e where e: "WriteMessage (fst m) (snd m) d = (None, e)" "c_wbatch e = []"
    "committed 0 (encFrame None (fst m) True 0 (snd m)) (d\<lparr>c_mode := connModeMessage\<rparr>) e"
    using WriteMessage_ready [OF rd(1), of "fst m" "snd m"] rd(2) by (auto simp: nextKey_def)
  have w: "wrote (d\<lparr>c_mode := connModeMessage\<rparr>) e" using e(3) by (simp add: committed_def)
  note l = listening_wrote [OF w d(1)]
  have e2: "ready e" "outbox e = wire (c_conn s) @ encFrame None (fst m) True 0 (snd m)" "\<not> c_client e"
    using committed_ready [OF e(3) rd(1)] rd by simp_all
  have adm: "admits e op p = admits s op p" for op p using l(3) d(3) by (simp add: sameOut_def)
  have "echoLoop s = echoLoop e" using rm e(1) by (subst echoLoop.simps) (simp add: case_prod_beta)
  moreover have "wire (c_conn (echoLoop e)) = wire (c_conn e) @ concat (map (\<lambda>m. encFrame None (fst m) True 0 (snd m)) ms)"
    using l(1,2) d(2) e2 e(2) b(3) Cons.prems(7) adm by (intro Cons.IH) auto
  ultimately show ?case using e2(2) e(2) by (simp add: outbox_def)
qed

section \<open>The exchange\<close>

primrec rawWriteAll :: "bytes list \<Rightarrow> rawClient \<Rightarrow> ioErr option \<times> rawClient" where
  "rawWriteAll [] c = (None, c)"
| "rawWriteAll (p # ps) c = (case rawWriteMessage p c of (Some e, c) \<Rightarrow> (Some e, c) | (None, c) \<Rightarrow> rawWriteAll ps c)"

primrec rawReadAll :: "nat \<Rightarrow> rawClient \<Rightarrow> (rawErr + bytes list) \<times> rawClient" where
  "rawReadAll 0 c = (Inr [], c)"
| "rawReadAll (Suc n) c =
     (case rawReadMessage c of
        (Inl e, c) \<Rightarrow> (Inl e, c)
      | (Inr p, c) \<Rightarrow> (case rawReadAll n c of (Inl e, c) \<Rightarrow> (Inl e, c) | (Inr ps, c) \<Rightarrow> (Inr (p # ps), c)))"

lemma rawWriteAll_ok:
  assumes "writesOk (rc_conn c)" "rc_opcode c = 1 \<or> rc_opcode c = 2"
  shows "\<exists>c' bss. rawWriteAll ps c = (None, c') \<and> rc_opcode c' = rc_opcode c \<and> wire (rc_conn c') = wire (rc_conn c) @ concat bss \<and>
    list_all2 (\<lambda>m. isEncoding True (fst m) (snd m)) (map (Pair (rc_opcode c)) ps) bss"
  using assms
proof (induction ps arbitrary: c)
  case (Cons p ps)
  obtain d where d: "rawWriteMessage p c = (None, d)" "writesOk (rc_conn d)" "rc_opcode d = rc_opcode c"
    "wire (rc_conn d) = wire (rc_conn c) @ encFrame (Some (rc_masks c (rc_maskPos c))) (rc_opcode c) True 0 p"
    using rawWriteFrame_ok [of c "rc_opcode c" p] Cons.prems by (auto simp: rawWriteMessage_def)
  obtain c' bss where "rawWriteAll ps d = (None, c')" "rc_opcode c' = rc_opcode d" "wire (rc_conn c') = wire (rc_conn d) @ concat bss"
    "list_all2 (\<lambda>m. isEncoding True (fst m) (snd m)) (map (Pair (rc_opcode d)) ps) bss"
    using Cons.IH [OF d(2)] d(3) Cons.prems(2) by auto
  then show ?case using d isEncoding_frame [of "Some (rc_masks c (rc_maskPos c))" True "rc_opcode c" p]
    by (intro exI [of _ c'] exI [of _ "encFrame (Some (rc_masks c (rc_maskPos c))) (rc_opcode c) True 0 p # bss"]) simp
qed simp

lemma rawReadAll_frames:
  assumes "rc_opcode c = 1 \<or> rc_opcode c = 2" "list_all (\<lambda>p. int (length p) < maxAlloc) ps"
    "rc_in c = concat (map (\<lambda>p. encFrame None (rc_opcode c) True 0 p) ps)"
  shows "rawReadAll (length ps) c = (Inr ps, c\<lparr>rc_in := []\<rparr>)"
  using assms
proof (induction ps arbitrary: c)
  case (Cons p ps)
  let ?d = "c\<lparr>rc_in := concat (map (\<lambda>p. encFrame None (rc_opcode c) True 0 p) ps)\<rparr>"
  have "rawReadMessage c = (Inr p, ?d)"
    using rawReadFrame_encFrame [OF Cons.prems(1), of p c] Cons.prems(2,3) by (simp add: rawReadMessage.simps [of c])
  moreover have "rawReadAll (length ps) ?d = (Inr ps, ?d\<lparr>rc_in := []\<rparr>)" using Cons by (intro Cons.IH) simp_all
  ultimately show ?case by simp
qed simp

lemma gowsVariants_size:
  "(name, cfg) \<in> set gowsVariants \<Longrightarrow> 0 < sv_readBufSize cfg \<and> sv_readBufSize cfg \<le> maxClassSize"
  by (auto simp: gowsVariants_def bufferSize_def rbuf1kSize_def MaxHeaderSize_def pool_consts)

lemma echoConn:
  assumes "newConn t vectored False active keys (echoOptions cfg hs) = Inr c" "steady t" "writesOk t"
    "0 < sv_readBufSize cfg" "sv_readBufSize cfg \<le> maxClassSize" "int (length (hk_Buffered hs)) \<le> maxClassSize"
  shows "listening c" "ready c" "\<not> c_client c" "c_wbatch c = []" "pending c = hk_Buffered hs @ incoming t"
    "c_conn c = t" "c_readLimit c = defaultReadLimit" "c_skipUTF8 c = sv_skipUTF8 cfg"
proof -
  let ?cfg = "foldl (\<lambda>c opt. applyOption opt c) defaultConfig (echoOptions cfg hs)"
  have o: "cc_readBufSize ?cfg = sv_readBufSize cfg" "cc_buffered ?cfg = hk_Buffered hs" "\<not> cc_compression ?cfg"
    "cc_readLimit ?cfg = defaultReadLimit" "cc_skipUTF8 ?cfg = sv_skipUTF8 cfg"
    using assms(4) by (auto simp: echoOptions_def defaultConfig_def)
  note r = newConn_readable [OF assms(1,2)] newConn_ready [OF assms(1,3)]
  show "listening c" "pending c = hk_Buffered hs @ incoming t" "c_conn c = t" using r(1-5) o assms(5,6) by (simp_all add: listening_def)
  show "ready c" "\<not> c_client c" using r(6,8) o by simp_all
  show "c_wbatch c = []" "c_readLimit c = defaultReadLimit" "c_skipUTF8 c = sv_skipUTF8 cfg"
    using assms(1) o by (auto simp: newConn_def Let_def split: if_splits sum.splits prod.splits)
qed

lemma echoConn_exists: "\<exists>s. newConn t vectored False active keys (echoOptions cfg hs) = Inr s"
proof -
  have "\<not> cc_compression (foldl (\<lambda>c opt. applyOption opt c) defaultConfig (echoOptions cfg hs))"
    by (simp add: echoOptions_def defaultConfig_def)
  then show ?thesis by (simp add: newConn_def Let_def case_prod_beta)
qed

text \<open>C11: An independent implementation of the protocol and the library understand each other. The server is one of the four
  echo variants of the benchmark that read in a loop (all but \<^verbatim>\<open>gows-serve\<close>, which is driven by \<^verbatim>\<open>Serve\<close>), on a transport that
  fails no read and accepts every write, with at most the largest pooled buffer's worth of bytes left over from the handshake; the
  client is the benchmark's own, sending text or binary messages on a transport that accepts every write. Then, whatever masking keys the
  client draws, whatever read buffer that server variant uses and in whatever pieces the bytes arrive, also when the
  first of them came with the handshake: every message the client sends, within the default read limit and valid UTF-8 if it is
  text that the variant checks, comes back to it as it was sent, in order, with nothing else.\<close>

theorem independent_client_echo:
  assumes "(name, cfg) \<in> set gowsVariants" "\<not> sv_useServe cfg" "steady t" "writesOk t" "int (length (hk_Buffered hs)) \<le> maxClassSize"
    "writesOk (rc_conn c)" "rc_opcode c = 1 \<or> rc_opcode c = 2"
    "list_all (\<lambda>p. int (length p) \<le> defaultReadLimit \<and> (rc_opcode c = 1 \<and> \<not> sv_skipUTF8 cfg \<longrightarrow> Valid simdBulk_generic p)) ps"
  shows "\<exists>c'. rawWriteAll ps c = (None, c') \<and>
    (wire (rc_conn c') = wire (rc_conn c) @ hk_Buffered hs @ incoming t \<longrightarrow>
      (\<exists>t' out c''. echoSession vectored active keys cfg hs t = Some t' \<and> wire t' = wire t @ out \<and>
        rawReadAll (length ps) (c'\<lparr>rc_in := out\<rparr>) = (Inr ps, c'') \<and> rc_in c'' = []))"
proof -
  obtain c' bss where w: "rawWriteAll ps c = (None, c')" "rc_opcode c' = rc_opcode c" "wire (rc_conn c') = wire (rc_conn c) @ concat bss"
    "list_all2 (\<lambda>m. isEncoding True (fst m) (snd m)) (map (Pair (rc_opcode c)) ps) bss"
    using rawWriteAll_ok [OF assms(6,7)] by blast
  have "\<exists>t' out c''. echoSession vectored active keys cfg hs t = Some t' \<and> wire t' = wire t @ out \<and>
      rawReadAll (length ps) (c'\<lparr>rc_in := out\<rparr>) = (Inr ps, c'') \<and> rc_in c'' = []"
    if "wire (rc_conn c') = wire (rc_conn c) @ hk_Buffered hs @ incoming t"
  proof -
    obtain s where s: "newConn t vectored False active keys (echoOptions cfg hs) = Inr s"
      using echoConn_exists by blast
    note e = echoConn [OF s assms(3,4) _ _ assms(5)] gowsVariants_size [OF assms(1)]
    have adm: "list_all (\<lambda>m. IsData (fst m) \<and> admits s (fst m) (snd m)) (map (Pair (rc_opcode c)) ps)"
      using assms(7,8) e by (auto simp: list_all_iff IsData_def admits_def opcode_defs defaultReadLimit_def maxAlloc_def generic.Valid_run)
    have "wire (c_conn (echoLoop s)) = wire t @ concat (map (\<lambda>p. encFrame None (rc_opcode c) True 0 p) ps)"
      using echoLoop_echoes [OF _ _ _ _ _ w(4) adm] e that w(3) by (simp add: comp_def)
    moreover have "list_all (\<lambda>p. int (length p) < maxAlloc) ps"
      using assms(8) by (auto simp: list_all_iff defaultReadLimit_def maxAlloc_def)
    ultimately show ?thesis
      using s assms(2,7) w(2) rawReadAll_frames [of "c'\<lparr>rc_in := concat (map (\<lambda>p. encFrame None (rc_opcode c) True 0 p) ps)\<rparr>" ps]
      by (simp add: echoSession_def)
  qed
  then show ?thesis using w(1) by blast
qed

definition demoRawClient :: rawClient where
  "demoRawClient = \<lparr>rc_conn = demoTransport, rc_in = [], rc_end = EOF, rc_opcode = 1, rc_masks = (\<lambda>n. of_nat n + 0x01020304),
     rc_maskPos = 0\<rparr>"

text \<open>Two text messages, the second empty, all of them read at once.\<close>

theorem independent_client_echo_witness:
  "\<exists>c' t t' out c''. rawWriteAll [B ''hello'', []] demoRawClient = (None, c') \<and> incoming t = wire (rc_conn c') \<and>
    echoSession True storeConfig (\<lambda>_. 0) (the (map_of gowsVariants (B ''gows''))) noHandshake t = Some t' \<and> wire t' = out \<and>
    rawReadAll 2 (c'\<lparr>rc_in := out\<rparr>) = (Inr [B ''hello'', []], c'')"
proof -
  let ?ps = "[B ''hello'', []]"
  let ?cfg = "\<lparr>sv_readBufSize = bufferSize, sv_skipUTF8 = False, sv_useServe = False\<rparr>"
  have "map_of gowsVariants (B ''gows'') = Some ?cfg" by (simp add: gowsVariants_def)
  have cfg: "(B ''gows'', ?cfg) \<in> set gowsVariants" by (simp add: gowsVariants_def)
  have c: "writesOk (rc_conn demoRawClient)" "rc_opcode demoRawClient = 1" "wire (rc_conn demoRawClient) = []"
    by (simp_all add: demoRawClient_def demoTransport_def writesOk_def wire_def)
  have ps: "list_all (\<lambda>p. int (length p) \<le> defaultReadLimit \<and>
      (rc_opcode demoRawClient = 1 \<and> \<not> sv_skipUTF8 ?cfg \<longrightarrow> Valid simdBulk_generic p)) ?ps"
    unfolding generic.Valid_run by (simp add: defaultReadLimit_def)
  obtain c' bss where w: "rawWriteAll ?ps demoRawClient = (None, c')" "wire (rc_conn c') = concat bss"
    "list_all2 (\<lambda>m. isEncoding True (fst m) (snd m)) (map (Pair (rc_opcode demoRawClient)) ?ps) bss"
    using rawWriteAll_ok [of demoRawClient ?ps] c by auto
  have ne: "wire (rc_conn c') \<noteq> []" using w(2,3) by (auto simp: list_all2_Cons1 dest: isEncoding_nonempty)
  define t where "t = demoTransport\<lparr>t_reads := [(wire (rc_conn c'), None)]\<rparr>"
  have t: "steady t" "writesOk t" "incoming t = wire (rc_conn c')" "wire t = []"
    using ne by (simp_all add: t_def demoTransport_def steady_def writesOk_def incoming_def wire_def)
  have hs: "int (length (hk_Buffered noHandshake)) \<le> maxClassSize" "hk_Buffered noHandshake = []"
    by (simp_all add: noHandshake_def pool_consts)
  show ?thesis
    using independent_client_echo [OF cfg _ t(1,2) hs(1) c(1) _ ps, of True storeConfig "\<lambda>_. 0"] w(1) c(2,3) t(3,4) hs(2)
      \<open>map_of gowsVariants (B ''gows'') = Some ?cfg\<close>
    by (auto simp: numeral_2_eq_2)
qed

end
