(* ===== verification/Latency.thy ===== *)
theory Latency
  imports Gows_Prelude
begin

text \<open>
  The latency recorder of the benchmark harness, \<^verbatim>\<open>bench/harness/support/latency.go\<close>: what is recorded and what is counted as
  lost, snapshots, their validation and merging. The histogram itself is the third-party \<^verbatim>\<open>hdrhistogram\<close>, a record of
  operations; a duration is its nanoseconds. Counters that go up by one are not reduced to 64 bits, sums of foreign counts are.
\<close>

section \<open>Histograms\<close>

record histExport =
  hx_LowestTrackableValue :: int
  hx_HighestTrackableValue :: int
  hx_SignificantFigures :: int
  hx_Counts :: "int list"

text \<open>\<open>hd_RecordValue\<close> is \<open>None\<close> for an error; \<open>hd_Merge\<close> also says how many values it dropped; quantiles are in tenths of a percent.\<close>

record 'h hdrhistogram =
  hd_New :: "int \<Rightarrow> int \<Rightarrow> int \<Rightarrow> 'h"
  hd_HighestTrackableValue :: "'h \<Rightarrow> int"
  hd_RecordValue :: "int \<Rightarrow> 'h \<Rightarrow> 'h option"
  hd_Export :: "'h \<Rightarrow> histExport"
  hd_Import :: "histExport \<Rightarrow> 'h"
  hd_Merge :: "'h \<Rightarrow> 'h \<Rightarrow> 'h \<times> int"
  hd_TotalCount :: "'h \<Rightarrow> int"
  hd_ValueAtQuantile :: "'h \<Rightarrow> int \<Rightarrow> int"

record LatencyConfig =
  lc_Lowest :: int
  lc_Highest :: int
  lc_SignificantFigures :: int

record HistogramCounts =
  hc_Seen :: int
  hc_Recorded :: int
  hc_Dropped :: int
  hc_Overflow :: int

definition noCounts :: HistogramCounts where
  "noCounts = \<lparr>hc_Seen = 0, hc_Recorded = 0, hc_Dropped = 0, hc_Overflow = 0\<rparr>"

record HistogramSnapshot =
  hs_Counts :: HistogramCounts
  hs_LowestTrackable :: int
  hs_HighestTrackable :: int
  hs_SignificantFigures :: int
  hs_BucketCounts :: "int list"

record LatencySnapshot =
  ls_Raw :: HistogramSnapshot
  ls_Corrected :: HistogramSnapshot
  ls_CorrectionMethod :: string

record 'h LatencyRecorder =
  lr_raw :: 'h
  lr_corrected :: 'h
  lr_rawCounts :: HistogramCounts
  lr_corCounts :: HistogramCounts

definition correctionScheduledStart :: string where
  "correctionScheduledStart = ''scheduled-start-response-time''"

section \<open>Recording\<close>

datatype latencyErr =
    LowestNotPositive | HighestBelowLowest | SignificantFiguresRange
  | InvalidBounds | InvalidSignificantFigures | BucketCountLength | NegativeBucket nat | BucketTotal int
  | NoSnapshots | CorrectionMethodDiffers nat | MergeDropped nat int | AtSnapshot nat latencyErr

definition NewLatencyRecorder :: "'h hdrhistogram \<Rightarrow> LatencyConfig \<Rightarrow> latencyErr + 'h LatencyRecorder" where
  "NewLatencyRecorder lib cfg =
     (if lc_Lowest cfg \<le> 0 then Inl LowestNotPositive
      else if lc_Highest cfg < lc_Lowest cfg then Inl HighestBelowLowest
      else if lc_SignificantFigures cfg < 1 \<or> lc_SignificantFigures cfg > 5 then Inl SignificantFiguresRange
      else
        let h = hd_New lib (lc_Lowest cfg) (lc_Highest cfg) (lc_SignificantFigures cfg) in
        Inr \<lparr>lr_raw = h, lr_corrected = h, lr_rawCounts = noCounts, lr_corCounts = noCounts\<rparr>)"

definition recordHistogram :: "'h hdrhistogram \<Rightarrow> 'h \<Rightarrow> int \<Rightarrow> HistogramCounts \<Rightarrow> 'h \<times> HistogramCounts" where
  "recordHistogram lib h value counts =
     (let counts = counts\<lparr>hc_Seen := hc_Seen counts + 1\<rparr>;
          dropped = counts\<lparr>hc_Dropped := hc_Dropped counts + 1\<rparr> in
      if value \<le> 0 then (h, dropped)
      else if value > hd_HighestTrackableValue lib h then (h, dropped\<lparr>hc_Overflow := hc_Overflow dropped + 1\<rparr>)
      else case hd_RecordValue lib value h of
        None \<Rightarrow> (h, dropped)
      | Some h \<Rightarrow> (h, counts\<lparr>hc_Recorded := hc_Recorded counts + 1\<rparr>))"

definition Record :: "'h hdrhistogram \<Rightarrow> int \<Rightarrow> int \<Rightarrow> 'h LatencyRecorder \<Rightarrow> 'h LatencyRecorder" where
  "Record lib raw corrected r =
     (let corrected = (if corrected \<le> 0 then raw else corrected) in
      case recordHistogram lib (lr_raw r) raw (lr_rawCounts r) of
        (h, counts) \<Rightarrow>
          (case recordHistogram lib (lr_corrected r) corrected (lr_corCounts r) of
             (h', counts') \<Rightarrow> \<lparr>lr_raw = h, lr_corrected = h', lr_rawCounts = counts, lr_corCounts = counts'\<rparr>))"

section \<open>Snapshots\<close>

definition exportHistogram :: "'h hdrhistogram \<Rightarrow> 'h \<Rightarrow> HistogramCounts \<Rightarrow> HistogramSnapshot" where
  "exportHistogram lib h counts =
     (let s = hd_Export lib h in
      \<lparr>hs_Counts = counts, hs_LowestTrackable = hx_LowestTrackableValue s, hs_HighestTrackable = hx_HighestTrackableValue s,
       hs_SignificantFigures = hx_SignificantFigures s, hs_BucketCounts = hx_Counts s\<rparr>)"

definition Snapshot :: "'h hdrhistogram \<Rightarrow> 'h LatencyRecorder \<Rightarrow> LatencySnapshot" where
  "Snapshot lib r =
     \<lparr>ls_Raw = exportHistogram lib (lr_raw r) (lr_rawCounts r),
      ls_Corrected = exportHistogram lib (lr_corrected r) (lr_corCounts r),
      ls_CorrectionMethod = correctionScheduledStart\<rparr>"

definition addCounts :: "HistogramCounts \<Rightarrow> HistogramCounts \<Rightarrow> HistogramCounts" where
  "addCounts dst s =
     \<lparr>hc_Seen = i64 (hc_Seen dst + hc_Seen s), hc_Recorded = i64 (hc_Recorded dst + hc_Recorded s),
      hc_Dropped = i64 (hc_Dropped dst + hc_Dropped s), hc_Overflow = i64 (hc_Overflow dst + hc_Overflow s)\<rparr>"

text \<open>The sum of the buckets, or the index of the first negative one.\<close>

fun bucketTotal :: "nat \<Rightarrow> int \<Rightarrow> int list \<Rightarrow> latencyErr + int" where
  "bucketTotal i sum0 [] = Inr sum0"
| "bucketTotal i sum0 (n # ns) = (if n < 0 then Inl (NegativeBucket i) else bucketTotal (Suc i) (i64 (sum0 + n)) ns)"

definition importHistogram :: "'h hdrhistogram \<Rightarrow> HistogramSnapshot \<Rightarrow> latencyErr + 'h" where
  "importHistogram lib s =
     (if hs_LowestTrackable s \<le> 0 \<or> hs_HighestTrackable s < hs_LowestTrackable s then Inl InvalidBounds
      else if hs_SignificantFigures s < 1 \<or> hs_SignificantFigures s > 5 then Inl InvalidSignificantFigures
      else
        let expected = hd_Export lib (hd_New lib (hs_LowestTrackable s) (hs_HighestTrackable s) (hs_SignificantFigures s)) in
        if length (hs_BucketCounts s) \<noteq> length (hx_Counts expected) then Inl BucketCountLength
        else case bucketTotal 0 0 (hs_BucketCounts s) of
          Inl e \<Rightarrow> Inl e
        | Inr n \<Rightarrow>
            if n \<noteq> hc_Recorded (hs_Counts s) then Inl (BucketTotal n)
            else Inr (hd_Import lib
              \<lparr>hx_LowestTrackableValue = hs_LowestTrackable s, hx_HighestTrackableValue = hs_HighestTrackable s,
               hx_SignificantFigures = hs_SignificantFigures s, hx_Counts = hs_BucketCounts s\<rparr>))"

text \<open>One of the two histograms of a snapshot joins the merged one.\<close>

definition mergeInto :: "'h hdrhistogram \<Rightarrow> nat \<Rightarrow> HistogramSnapshot \<Rightarrow> 'h \<Rightarrow> latencyErr + 'h" where
  "mergeInto lib i s h =
     (case importHistogram lib s of
        Inl e \<Rightarrow> Inl (AtSnapshot i e)
      | Inr h' \<Rightarrow> (case hd_Merge lib h h' of (h, dropped) \<Rightarrow> if dropped \<noteq> 0 then Inl (MergeDropped i dropped) else Inr h))"

fun mergeLoop :: "'h hdrhistogram \<Rightarrow> string \<Rightarrow> nat \<Rightarrow> LatencySnapshot list \<Rightarrow> 'h \<Rightarrow> 'h \<Rightarrow> HistogramCounts \<Rightarrow> HistogramCounts \<Rightarrow>
    latencyErr + ('h \<times> 'h \<times> HistogramCounts \<times> HistogramCounts)" where
  "mergeLoop lib method i [] raw corrected rawCounts corCounts = Inr (raw, corrected, rawCounts, corCounts)"
| "mergeLoop lib method i (s # ss) raw corrected rawCounts corCounts =
     (if ls_CorrectionMethod s \<noteq> method then Inl (CorrectionMethodDiffers i)
      else case mergeInto lib i (ls_Raw s) raw of
        Inl e \<Rightarrow> Inl e
      | Inr raw \<Rightarrow>
        (case mergeInto lib i (ls_Corrected s) corrected of
           Inl e \<Rightarrow> Inl e
         | Inr corrected \<Rightarrow>
             mergeLoop lib method (Suc i) ss raw corrected
               (addCounts rawCounts (hs_Counts (ls_Raw s))) (addCounts corCounts (hs_Counts (ls_Corrected s)))))"

definition MergeLatencySnapshots :: "'h hdrhistogram \<Rightarrow> LatencySnapshot list \<Rightarrow> latencyErr + LatencySnapshot" where
  "MergeLatencySnapshots lib snapshots =
     (case snapshots of
        [] \<Rightarrow> Inl NoSnapshots
      | s # ss \<Rightarrow>
        (case importHistogram lib (ls_Raw s) of
           Inl e \<Rightarrow> Inl (AtSnapshot 0 e)
         | Inr raw \<Rightarrow>
           (case importHistogram lib (ls_Corrected s) of
              Inl e \<Rightarrow> Inl (AtSnapshot 0 e)
            | Inr corrected \<Rightarrow>
              (case mergeLoop lib (ls_CorrectionMethod s) 1 ss raw corrected (hs_Counts (ls_Raw s)) (hs_Counts (ls_Corrected s)) of
                 Inl e \<Rightarrow> Inl e
               | Inr (raw, corrected, rawCounts, corCounts) \<Rightarrow>
                   Inr \<lparr>ls_Raw = exportHistogram lib raw rawCounts, ls_Corrected = exportHistogram lib corrected corCounts,
                     ls_CorrectionMethod = ls_CorrectionMethod s\<rparr>))))"

record Percentiles =
  pc_P50 :: int
  pc_P90 :: int
  pc_P99 :: int
  pc_P999 :: int
  pc_N :: int

definition percentilesOf :: "'h hdrhistogram \<Rightarrow> HistogramSnapshot \<Rightarrow> latencyErr + Percentiles" where
  "percentilesOf lib s =
     (case importHistogram lib s of
        Inl e \<Rightarrow> Inl e
      | Inr h \<Rightarrow>
          if hd_TotalCount lib h = 0 then Inr \<lparr>pc_P50 = 0, pc_P90 = 0, pc_P99 = 0, pc_P999 = 0, pc_N = 0\<rparr>
          else Inr \<lparr>pc_P50 = hd_ValueAtQuantile lib h 500, pc_P90 = hd_ValueAtQuantile lib h 900,
            pc_P99 = hd_ValueAtQuantile lib h 990, pc_P999 = hd_ValueAtQuantile lib h 999, pc_N = hd_TotalCount lib h\<rparr>)"

section \<open>Nothing is lost uncounted\<close>

definition countsOk :: "HistogramCounts \<Rightarrow> bool" where
  "countsOk c \<longleftrightarrow> 0 \<le> hc_Recorded c \<and> 0 \<le> hc_Overflow c \<and> hc_Overflow c \<le> hc_Dropped c \<and>
     hc_Seen c = hc_Recorded c + hc_Dropped c"

lemma countsOk_noCounts [simp]: "countsOk noCounts" "hc_Seen noCounts = 0"
  by (simp_all add: countsOk_def noCounts_def)

lemma recordHistogram_counts:
  assumes "recordHistogram lib h v c = (h', c')"
  shows "hc_Seen c' = hc_Seen c + 1" "countsOk c \<Longrightarrow> countsOk c'"
  using assms by (auto simp: recordHistogram_def countsOk_def Let_def split: if_splits option.splits)

definition recorderOk :: "'h LatencyRecorder \<Rightarrow> bool" where
  "recorderOk r \<longleftrightarrow> countsOk (lr_rawCounts r) \<and> countsOk (lr_corCounts r) \<and> hc_Seen (lr_rawCounts r) = hc_Seen (lr_corCounts r)"

definition recorderSeen :: "'h LatencyRecorder \<Rightarrow> int" where
  "recorderSeen r = hc_Seen (lr_rawCounts r)"

lemma Record_ok: "recorderOk r \<Longrightarrow> recorderOk (Record lib v w r)" "recorderSeen (Record lib v w r) = recorderSeen r + 1"
proof -
  let ?w = "if w \<le> 0 then v else w"
  obtain h c where raw: "recordHistogram lib (lr_raw r) v (lr_rawCounts r) = (h, c)" by (metis prod.exhaust)
  obtain h' c' where cor: "recordHistogram lib (lr_corrected r) ?w (lr_corCounts r) = (h', c')" by (metis prod.exhaust)
  have "Record lib v w r = \<lparr>lr_raw = h, lr_corrected = h', lr_rawCounts = c, lr_corCounts = c'\<rparr>"
    using raw cor by (simp add: Record_def Let_def)
  then show "recorderOk r \<Longrightarrow> recorderOk (Record lib v w r)" "recorderSeen (Record lib v w r) = recorderSeen r + 1"
    using recordHistogram_counts [OF raw] recordHistogram_counts [OF cor] by (simp_all add: recorderOk_def recorderSeen_def)
qed

lemma NewLatencyRecorder_ok: "NewLatencyRecorder lib cfg = Inr r \<Longrightarrow> recorderOk r \<and> recorderSeen r = 0"
  by (auto simp: NewLatencyRecorder_def recorderOk_def recorderSeen_def Let_def split: if_splits)

lemma Snapshot_counts [simp]:
  "hs_Counts (ls_Raw (Snapshot lib r)) = lr_rawCounts r" "hs_Counts (ls_Corrected (Snapshot lib r)) = lr_corCounts r"
  "ls_CorrectionMethod (Snapshot lib r) = correctionScheduledStart"
  by (simp_all add: Snapshot_def exportHistogram_def Let_def)

text \<open>The counts of a merge are the sums, as long as they fit.\<close>

definition sumCounts :: "HistogramCounts list \<Rightarrow> HistogramCounts" where
  "sumCounts cs = \<lparr>hc_Seen = sum_list (map hc_Seen cs), hc_Recorded = sum_list (map hc_Recorded cs),
     hc_Dropped = sum_list (map hc_Dropped cs), hc_Overflow = sum_list (map hc_Overflow cs)\<rparr>"

lemma countsOk_nonneg:
  assumes "countsOk c"
  shows "0 \<le> hc_Recorded c" "0 \<le> hc_Dropped c" "0 \<le> hc_Overflow c" "0 \<le> hc_Seen c"
    "hc_Recorded c \<le> hc_Seen c" "hc_Dropped c \<le> hc_Seen c" "hc_Overflow c \<le> hc_Seen c"
  using assms by (auto simp: countsOk_def)

lemma addCounts_exact:
  assumes "countsOk a" "countsOk b" "hc_Seen a + hc_Seen b < 2 ^ 63"
  shows "addCounts a b = sumCounts [a, b]" "countsOk (addCounts a b)"
proof -
  have "int64_range (hc_Seen a + hc_Seen b)" "int64_range (hc_Recorded a + hc_Recorded b)"
    "int64_range (hc_Dropped a + hc_Dropped b)" "int64_range (hc_Overflow a + hc_Overflow b)"
    using assms(3) countsOk_nonneg [OF assms(1)] countsOk_nonneg [OF assms(2)] by (auto simp: int64_range_def)
  then show eq: "addCounts a b = sumCounts [a, b]" by (simp add: addCounts_def sumCounts_def i64_id)
  show "countsOk (addCounts a b)" unfolding eq using assms(1,2) by (simp add: countsOk_def sumCounts_def)
qed

lemma sumCounts_add: "sumCounts [sumCounts [a, b], c] = sumCounts [a, b, c]" "sumCounts (sumCounts [a, b] # cs) = sumCounts (a # b # cs)"
  by (simp_all add: sumCounts_def)

lemma mergeLoop_counts:
  assumes "mergeLoop lib method i ss raw cor a b = Inr (raw', cor', a', b')"
    "countsOk a" "list_all (\<lambda>s. countsOk (hs_Counts (ls_Raw s))) ss"
    "countsOk b" "list_all (\<lambda>s. countsOk (hs_Counts (ls_Corrected s))) ss"
    "hc_Seen a + sum_list (map (\<lambda>s. hc_Seen (hs_Counts (ls_Raw s))) ss) < 2 ^ 63"
    "hc_Seen b + sum_list (map (\<lambda>s. hc_Seen (hs_Counts (ls_Corrected s))) ss) < 2 ^ 63"
  shows "a' = sumCounts (a # map (\<lambda>s. hs_Counts (ls_Raw s)) ss) \<and> b' = sumCounts (b # map (\<lambda>s. hs_Counts (ls_Corrected s)) ss) \<and>
    countsOk a' \<and> countsOk b'"
  using assms
proof (induction ss arbitrary: i raw cor a b)
  case Nil
  then show ?case by (auto simp: sumCounts_def)
next
  case (Cons s ss)
  have nn: "0 \<le> sum_list (map (\<lambda>s. hc_Seen (hs_Counts (ls_Raw s))) ss)" "0 \<le> sum_list (map (\<lambda>s. hc_Seen (hs_Counts (ls_Corrected s))) ss)"
    using Cons.prems(3,5) by (auto intro!: sum_list_nonneg countsOk_nonneg(4) simp: list_all_iff)
  have ok: "countsOk (hs_Counts (ls_Raw s))" "countsOk (hs_Counts (ls_Corrected s))" using Cons.prems(3,5) by simp_all
  note A = addCounts_exact [OF Cons.prems(2) ok(1)] and B = addCounts_exact [OF Cons.prems(4) ok(2)]
  have seen: "hc_Seen (sumCounts [c, d]) = hc_Seen c + hc_Seen d" for c d by (simp add: sumCounts_def)
  obtain raw1 cor1 where step: "mergeLoop lib method (Suc i) ss raw1 cor1
      (addCounts a (hs_Counts (ls_Raw s))) (addCounts b (hs_Counts (ls_Corrected s))) = Inr (raw', cor', a', b')"
    using Cons.prems(1) by (auto split: if_splits sum.splits)
  have bound: "hc_Seen a + hc_Seen (hs_Counts (ls_Raw s)) < 2 ^ 63" "hc_Seen b + hc_Seen (hs_Counts (ls_Corrected s)) < 2 ^ 63"
    using nn Cons.prems(6,7) by simp_all
  have tail: "list_all (\<lambda>s. countsOk (hs_Counts (ls_Raw s))) ss" "list_all (\<lambda>s. countsOk (hs_Counts (ls_Corrected s))) ss"
    using Cons.prems(3,5) by simp_all
  have room: "hc_Seen (addCounts a (hs_Counts (ls_Raw s))) + sum_list (map (\<lambda>s. hc_Seen (hs_Counts (ls_Raw s))) ss) < 2 ^ 63"
    "hc_Seen (addCounts b (hs_Counts (ls_Corrected s))) + sum_list (map (\<lambda>s. hc_Seen (hs_Counts (ls_Corrected s))) ss) < 2 ^ 63"
    using Cons.prems(6,7) A(1) [OF bound(1)] B(1) [OF bound(2)] by (simp_all add: seen)
  show ?case
    using Cons.IH [OF step A(2) [OF bound(1)] tail(1) B(2) [OF bound(2)] tail(2) room]
    unfolding A(1) [OF bound(1)] B(1) [OF bound(2)] sumCounts_add list.map .
qed

lemma merge_counts:
  assumes "MergeLatencySnapshots lib snapshots = Inr m"
    "list_all (\<lambda>s. countsOk (hs_Counts (ls_Raw s))) snapshots" "list_all (\<lambda>s. countsOk (hs_Counts (ls_Corrected s))) snapshots"
    "sum_list (map (\<lambda>s. hc_Seen (hs_Counts (ls_Raw s))) snapshots) < 2 ^ 63"
    "sum_list (map (\<lambda>s. hc_Seen (hs_Counts (ls_Corrected s))) snapshots) < 2 ^ 63"
  shows "hs_Counts (ls_Raw m) = sumCounts (map (\<lambda>s. hs_Counts (ls_Raw s)) snapshots) \<and>
    hs_Counts (ls_Corrected m) = sumCounts (map (\<lambda>s. hs_Counts (ls_Corrected s)) snapshots) \<and>
    countsOk (hs_Counts (ls_Raw m)) \<and> countsOk (hs_Counts (ls_Corrected m))"
proof (cases snapshots)
  case Nil
  then show ?thesis using assms(1) by (simp add: MergeLatencySnapshots_def)
next
  case (Cons s ss)
  then obtain raw cor raw' cor' a b where
    loop: "mergeLoop lib (ls_CorrectionMethod s) 1 ss raw cor (hs_Counts (ls_Raw s)) (hs_Counts (ls_Corrected s)) = Inr (raw', cor', a, b)"
    and m: "m = \<lparr>ls_Raw = exportHistogram lib raw' a, ls_Corrected = exportHistogram lib cor' b, ls_CorrectionMethod = ls_CorrectionMethod s\<rparr>"
    using assms(1) by (auto simp: MergeLatencySnapshots_def split: sum.splits prod.splits)
  have "a = sumCounts (map (\<lambda>s. hs_Counts (ls_Raw s)) snapshots) \<and> b = sumCounts (map (\<lambda>s. hs_Counts (ls_Corrected s)) snapshots) \<and>
      countsOk a \<and> countsOk b"
    unfolding Cons list.map by (rule mergeLoop_counts [OF loop]) (use assms(2-5) Cons in \<open>simp_all\<close>)
  then show ?thesis unfolding m by (elim conjE) (simp add: exportHistogram_def Let_def)
qed

section \<open>An example\<close>

text \<open>A histogram that takes every value and keeps none.\<close>

definition demoHistogram :: "unit hdrhistogram" where
  "demoHistogram = \<lparr>hd_New = (\<lambda>a b c. ()), hd_HighestTrackableValue = (\<lambda>h. 60000000000), hd_RecordValue = (\<lambda>v h. Some h),
     hd_Export = (\<lambda>h. \<lparr>hx_LowestTrackableValue = 1, hx_HighestTrackableValue = 60000000000, hx_SignificantFigures = 2, hx_Counts = []\<rparr>),
     hd_Import = (\<lambda>s. ()), hd_Merge = (\<lambda>a b. ((), 0)), hd_TotalCount = (\<lambda>h. 0), hd_ValueAtQuantile = (\<lambda>h q. 0)\<rparr>"

end
