(* ===== verification/Load_Result.thy ===== *)
theory Load_Result
  imports Latency Bench_Policy "HOL-Library.Signed_Division"
begin

text \<open>
  The machine result of a benchmark run, \<^verbatim>\<open>bench/harness/support/loadgen_result.go\<close> with \<^verbatim>\<open>allocation.go\<close> and \<^verbatim>\<open>rusage.go\<close>: the
  exact number of arrivals of an open-loop schedule, the accounting a result must satisfy, and what excludes it from the evidence.
  Floating-point numbers are a type with the operations the code uses.
\<close>

section \<open>The number of scheduled arrivals\<close>

definition maxInt64 :: int where "maxInt64 = 2 ^ 63 - 1"

datatype scheduleErr = BadDuration int | BadRate int | CountOverflow

definition OpenLoopOfferedMessages :: "int \<Rightarrow> int \<Rightarrow> scheduleErr + int" where
  "OpenLoopOfferedMessages duration rate =
     (if duration \<le> 0 then Inl (BadDuration duration)
      else if rate \<le> 0 \<or> rate > MaxOpenLoopRate then Inl (BadRate rate)
      else
        let seconds = duration sdiv second in
        if seconds > maxInt64 sdiv rate then Inl CountOverflow
        else
          let total' = i64 (seconds * rate);
              remainder = duration smod second;
              product = i64 (remainder * rate);
              extra = i64 (i64 (product + second) - 1) sdiv second in
          if total' > maxInt64 - extra then Inl CountOverflow else Inr (i64 (total' + extra)))"

lemma sdiv_pos: "0 \<le> a \<Longrightarrow> 0 < b \<Longrightarrow> a sdiv b = a div (b :: int)"
  by (cases "a = 0") (simp_all add: signed_divide_int_def)

lemma smod_pos: "0 \<le> a \<Longrightarrow> 0 < b \<Longrightarrow> a smod b = a mod (b :: int)"
  by (cases "a = 0") (simp_all add: signed_modulo_int_def)

lemma le_div_iff: "0 < (b :: int) \<Longrightarrow> n \<le> a div b \<longleftrightarrow> n * b \<le> a"
proof
  assume b: "0 < b"
  { assume "n \<le> a div b"
    then have "n * b \<le> a div b * b" using b by (intro mult_right_mono) auto
    also have "\<dots> \<le> a" using b by (simp add: minus_mod_eq_div_mult [symmetric])
    finally show "n * b \<le> a" . }
  { assume "n * b \<le> a"
    then show "n \<le> a div b" using zdiv_mono1 [of "n * b" a b] b by simp }
qed

lemma div_less_iff: "0 < (b :: int) \<Longrightarrow> a div b < n \<longleftrightarrow> a < n * b"
  using le_div_iff [of b n a] by linarith

lemma ceil_less_iff: "0 < (b :: int) \<Longrightarrow> n < (a + b - 1) div b \<longleftrightarrow> n * b < a"
  using le_div_iff [of b "n + 1" "a + b - 1"] by (auto simp: algebra_simps)

lemma ceil_le_iff: "0 < (b :: int) \<Longrightarrow> (a + b - 1) div b \<le> n \<longleftrightarrow> a \<le> n * b"
  using ceil_less_iff [of b n a] by linarith

text \<open>
  The overflow tests never fire: no arrival is scheduled twice in a nanosecond, so there are no more of them than the
  duration has nanoseconds. The result is the exact number, rounded up.
\<close>

lemma OpenLoopOfferedMessages_exact:
  assumes "0 < d" "int64_range d" "0 < r" "r \<le> MaxOpenLoopRate"
  shows "OpenLoopOfferedMessages d r = Inr ((d * r + second - 1) div second)"
    "0 < (d * r + second - 1) div second" "(d * r + second - 1) div second \<le> d"
proof -
  define q m where qm: "q = d div second" "m = d mod second"
  have S: "(0 :: int) < second" "second = 1000000000" by (simp_all add: second_def)
  have d: "d = q * second + m" "0 \<le> m" "m < second" "0 \<le> q" using assms(1) S by (simp_all add: qm pos_imp_zdiv_nonneg_iff)
  have r: "r \<le> second" using assms(4) by (simp add: MaxOpenLoopRate_def second_def)
  have dmax: "d \<le> maxInt64" using assms(2) by (simp add: int64_range_def maxInt64_def)
  have qr: "q * r \<le> q * second" using r d(4) by (simp add: mult_left_mono)
  have mr: "0 \<le> m * r" "m * r \<le> m * second" using r d(2) assms(3) by (simp_all add: mult_left_mono)
  have mr18: "m * r \<le> 999999999 * 1000000000" using mult_mono [of m 999999999 r 1000000000] d(2,3) r assms(3) S(2) by simp
  let ?e = "(m * r + second - 1) div second"
  have e: "0 \<le> ?e" "?e \<le> m" using mr d(2) S by (simp_all add: pos_imp_zdiv_nonneg_iff ceil_le_iff)
  have qs: "q * second \<le> maxInt64" using d(1,2) dmax by linarith
  have split: "(d * r + second - 1) div second = q * r + ?e"
  proof -
    have eq: "d * r + second - 1 = (m * r + second - 1) + q * r * second" by (simp add: d(1) algebra_simps)
    have "second \<noteq> 0" using S(1) by simp
    then show ?thesis unfolding eq by (rule div_mult_self1)
  qed
  have numerals: "(2 :: int) ^ 63 = 9223372036854775808" "maxInt64 = 9223372036854775807" by (simp_all add: maxInt64_def)
  have q0: "0 \<le> q * r" using d(4) assms(3) by simp
  have small: "int64_range (q * r)" "int64_range (m * r)" "int64_range (m * r + second)" "int64_range (m * r + second - 1)"
    "int64_range (q * r + ?e)"
    unfolding int64_range_def numerals S(2)
    using qr qs mr(1) mr18 q0 e d(1) dmax unfolding numerals S(2) by linarith+
  have "\<not> maxInt64 sdiv r < d sdiv second"
  proof -
    have "q \<le> maxInt64 div r" unfolding le_div_iff [OF assms(3)] using qr qs by linarith
    then show ?thesis using assms(1,3) S by (simp add: sdiv_pos maxInt64_def qm)
  qed
  moreover have "\<not> q * r > maxInt64 - ?e" using qr e d(1) dmax by linarith
  moreover have "0 \<le> m * r + second - 1" using mr S by linarith
  ultimately show main: "OpenLoopOfferedMessages d r = Inr ((d * r + second - 1) div second)"
    using assms S small unfolding split
    by (simp add: OpenLoopOfferedMessages_def Let_def i64_id sdiv_pos smod_pos qm [symmetric])
  show "0 < (d * r + second - 1) div second" unfolding ceil_less_iff [OF S(1)] using assms by simp
  show "(d * r + second - 1) div second \<le> d" unfolding ceil_le_iff [OF S(1)] using assms(1) r by (simp add: mult_left_mono)
qed

section \<open>Floating-point numbers\<close>

record 'f float64 =
  f_ofInt :: "int \<Rightarrow> 'f"
  f_literal :: "string \<Rightarrow> 'f"
  f_div :: "'f \<Rightarrow> 'f \<Rightarrow> 'f"
  f_sub :: "'f \<Rightarrow> 'f \<Rightarrow> 'f"
  f_mul :: "'f \<Rightarrow> 'f \<Rightarrow> 'f"
  f_abs :: "'f \<Rightarrow> 'f"
  f_max :: "'f \<Rightarrow> 'f \<Rightarrow> 'f"
  f_le :: "'f \<Rightarrow> 'f \<Rightarrow> bool"
  f_less :: "'f \<Rightarrow> 'f \<Rightarrow> bool"
  f_eq :: "'f \<Rightarrow> 'f \<Rightarrow> bool"
  f_finite :: "'f \<Rightarrow> bool"
  f_add :: "'f \<Rightarrow> 'f \<Rightarrow> 'f"
  f_log :: "'f \<Rightarrow> 'f"
  f_exp :: "'f \<Rightarrow> 'f"
  f_NaN :: 'f
  f_toInt :: "'f \<Rightarrow> int"

text \<open>\<open>f_finite\<close> is neither \<^verbatim>\<open>math.IsNaN\<close> nor \<^verbatim>\<open>math.IsInf\<close>; \<open>f_toInt\<close> is the conversion \<^verbatim>\<open>int(x)\<close>.\<close>

definition sameFiniteFloat :: "'f float64 \<Rightarrow> 'f \<Rightarrow> 'f \<Rightarrow> bool" where
  "sameFiniteFloat fl got want \<longleftrightarrow>
     f_finite fl got \<and> f_finite fl want \<and>
     (let scale = f_max fl (f_ofInt fl 1) (f_max fl (f_abs fl got) (f_abs fl want)) in
      f_le fl (f_abs fl (f_sub fl got want)) (f_mul fl (f_literal fl ''1e-9'') scale))"

section \<open>Resource accounting\<close>

text \<open>The counters of \<^verbatim>\<open>MemSnapshot\<close> the code computes with.\<close>

record MemSnapshot =
  ms_Mallocs :: "64 word"
  ms_TotalAlloc :: "64 word"

record MemSnapshotDelta =
  md_Mallocs :: "64 word"
  md_TotalAllocBytes :: "64 word"

record 'f AllocationStats =
  al_Available :: bool
  al_MallocsBefore :: "64 word"
  al_MallocsAfter :: "64 word"
  al_MallocsRawDelta :: "64 word"
  al_MallocsObservationOverhead :: "64 word"
  al_TotalAllocBytesBefore :: "64 word"
  al_TotalAllocBytesAfter :: "64 word"
  al_TotalAllocBytesRawDelta :: "64 word"
  al_TotalAllocObservationBytes :: "64 word"
  al_AllocationsPerMessage :: 'f
  al_AllocatedBytesPerMessage :: 'f
  al_RateBasis :: string
  al_ObservationMethod :: string

record 'f Usage =
  us_Available :: bool
  us_CPUSeconds :: 'f
  us_MaxRSSBytes :: int
  us_Source :: string

definition allocationRateBasis :: string where "allocationRateBasis = ''raw-delta-including-observation''"
definition allocationObservationMethod :: string where "allocationObservationMethod = ''paired-prewindow-control''"

datatype resultErr =
    SchemaVersionErr int | UnknownClient string | UnknownMessageType string | UnknownArrival string
  | OfferedRateErr int | LatenessLimitErr | OpenLoopOnly string | LoadShapeErr | SeedZero | InflightBytes
  | NegativeCount string | MessagesNotAchieved | NothingAchieved | OfferedErr | RejectedErr | PostWindowErr
  | ScheduleErr scheduleErr | ScheduleCountErr int | LatenessErr | ObservationsErr
  | HistogramErr string string | LatencyErr string latencyErr | PercentilesErr | RatesErr | OverheadErr
  | AllocationErr string | SideAllocationErr string resultErr | UsageErr string | CompatibilityErr
  | HardFailureErr | ObservationLoss

definition SnapshotDelta :: "MemSnapshot \<Rightarrow> MemSnapshot \<Rightarrow> resultErr + MemSnapshotDelta" where
  "SnapshotDelta before after =
     (if ms_Mallocs after < ms_Mallocs before then Inl (AllocationErr ''malloc counter regressed'')
      else if ms_TotalAlloc after < ms_TotalAlloc before then Inl (AllocationErr ''total allocation counter regressed'')
      else Inr \<lparr>md_Mallocs = ms_Mallocs after - ms_Mallocs before,
        md_TotalAllocBytes = ms_TotalAlloc after - ms_TotalAlloc before\<rparr>)"

definition AllocationDelta :: "'f float64 \<Rightarrow> MemSnapshot \<Rightarrow> MemSnapshot \<Rightarrow> MemSnapshotDelta \<Rightarrow> int \<Rightarrow> resultErr + 'f AllocationStats" where
  "AllocationDelta fl before after overhead messages =
     (if messages \<le> 0 then Inl (AllocationErr ''accounting requires measured messages'')
      else case SnapshotDelta before after of
        Inl e \<Rightarrow> Inl e
      | Inr raw \<Rightarrow> Inr
          \<lparr>al_Available = True,
           al_MallocsBefore = ms_Mallocs before, al_MallocsAfter = ms_Mallocs after, al_MallocsRawDelta = md_Mallocs raw,
           al_MallocsObservationOverhead = md_Mallocs overhead,
           al_TotalAllocBytesBefore = ms_TotalAlloc before, al_TotalAllocBytesAfter = ms_TotalAlloc after,
           al_TotalAllocBytesRawDelta = md_TotalAllocBytes raw, al_TotalAllocObservationBytes = md_TotalAllocBytes overhead,
           al_AllocationsPerMessage = f_div fl (f_ofInt fl (uint (md_Mallocs raw))) (f_ofInt fl messages),
           al_AllocatedBytesPerMessage = f_div fl (f_ofInt fl (uint (md_TotalAllocBytes raw))) (f_ofInt fl messages),
           al_RateBasis = allocationRateBasis, al_ObservationMethod = allocationObservationMethod\<rparr>)"

text \<open>The first of a list of tests that holds gives the error.\<close>

primrec firstErr :: "(bool \<times> 'e) list \<Rightarrow> 'e option" where
  "firstErr [] = None"
| "firstErr (c # cs) = (if fst c then Some (snd c) else firstErr cs)"

lemma firstErr_None: "firstErr cs = None \<longleftrightarrow> list_all (\<lambda>c. \<not> fst c) cs"
  by (induction cs) auto

declare firstErr.simps [simp del]

definition allocationErr :: "'f float64 \<Rightarrow> 'f AllocationStats \<Rightarrow> int \<Rightarrow> resultErr option" where
  "allocationErr fl stats messages =
     (let rawMallocs = al_MallocsAfter stats - al_MallocsBefore stats;
          rawBytes = al_TotalAllocBytesAfter stats - al_TotalAllocBytesBefore stats;
          wantAllocations = f_div fl (f_ofInt fl (uint rawMallocs)) (f_ofInt fl messages);
          wantBytes = f_div fl (f_ofInt fl (uint rawBytes)) (f_ofInt fl messages) in
      firstErr
       [(\<not> al_Available stats, AllocationErr ''unavailable''),
        (messages \<le> 0, AllocationErr ''validation requires messages''),
        (al_RateBasis stats \<noteq> allocationRateBasis, AllocationErr ''rate basis''),
        (al_ObservationMethod stats \<noteq> allocationObservationMethod, AllocationErr ''observation method''),
        (al_MallocsAfter stats < al_MallocsBefore stats \<or> al_TotalAllocBytesAfter stats < al_TotalAllocBytesBefore stats,
          AllocationErr ''counters regress''),
        (al_MallocsRawDelta stats \<noteq> rawMallocs \<or> al_TotalAllocBytesRawDelta stats \<noteq> rawBytes, AllocationErr ''raw deltas''),
        (\<not> sameFiniteFloat fl (al_AllocationsPerMessage stats) wantAllocations \<or>
           \<not> sameFiniteFloat fl (al_AllocatedBytesPerMessage stats) wantBytes, AllocationErr ''rates'')])"

definition UsageDelta :: "'f float64 \<Rightarrow> 'f Usage \<Rightarrow> 'f Usage \<Rightarrow> resultErr + 'f Usage" where
  "UsageDelta fl before after =
     (if \<not> us_Available before \<or> \<not> us_Available after then Inl (UsageErr ''unavailable'')
      else if us_Source before = [] \<or> us_Source after \<noteq> us_Source before then Inl (UsageErr ''source changed'')
      else if f_less fl (us_CPUSeconds after) (us_CPUSeconds before) then Inl (UsageErr ''CPU seconds regressed'')
      else if us_MaxRSSBytes after < 0 then Inl (UsageErr ''negative MaxRSS'')
      else Inr \<lparr>us_Available = True, us_CPUSeconds = f_sub fl (us_CPUSeconds after) (us_CPUSeconds before),
        us_MaxRSSBytes = us_MaxRSSBytes after, us_Source = us_Source before @ ''-window-delta''\<rparr>)"

definition validateUsage :: "'f float64 \<Rightarrow> string \<Rightarrow> 'f Usage \<Rightarrow> resultErr option" where
  "validateUsage fl name usage =
     (if \<not> us_Available usage \<or> us_Source usage = [] \<or> \<not> f_finite fl (us_CPUSeconds usage) \<or>
         f_less fl (us_CPUSeconds usage) (f_ofInt fl 0) \<or> us_MaxRSSBytes usage \<le> 0
      then Some (UsageErr name) else None)"

section \<open>The result\<close>

record 'f LoadgenResult =
  r_SchemaVersion :: int
  r_Client :: string
  r_MessageType :: string
  r_Arrival :: string
  r_Connections :: int
  r_PayloadBytes :: int
  r_PayloadSeed :: "64 word"
  r_Inflight :: int
  r_Warmup :: int
  r_Duration :: int
  r_Messages :: int
  r_Offered :: int
  r_RequestedRate :: int
  r_Achieved :: int
  r_Rejected :: int
  r_Dropped :: int
  r_QueueOverflows :: int
  r_SchedulerLate :: int
  r_PostWindow :: int
  r_LatenessLimit :: int
  r_MaxLateness :: int
  r_MeasurementDrain :: int
  r_VerificationMismatches :: int
  r_OfferedPerSecond :: 'f
  r_ThroughputPerSecond :: 'f
  r_RejectedPerSecond :: 'f
  r_P50 :: int
  r_P90 :: int
  r_P99 :: int
  r_P999 :: int
  r_Errors :: int
  r_Latency :: LatencySnapshot
  r_LatencyObservation :: 'f
  r_ServerAllocations :: "'f AllocationStats"
  r_ClientAllocations :: "'f AllocationStats"
  r_ServerUsage :: "'f Usage"
  r_ClientUsage :: "'f Usage"
  r_ClientCPUSeconds :: 'f
  r_ClientMaxRSSBytes :: int
  r_ClientMaxRSSAvailable :: bool

definition LoadgenSchemaVersion :: int where "LoadgenSchemaVersion = 5"

definition validateHistogramCounts :: "HistogramCounts \<Rightarrow> string option" where
  "validateHistogramCounts c = firstErr
     [(hc_Seen c < 0 \<or> hc_Recorded c < 0 \<or> hc_Dropped c < 0 \<or> hc_Overflow c < 0, ''negative histogram count''),
      (hc_Seen c \<noteq> i64 (hc_Recorded c + hc_Dropped c), ''seen''),
      (hc_Overflow c > hc_Dropped c, ''overflow'')]"

text \<open>The tests of \<^verbatim>\<open>Validate\<close> in three parts, in its order: what the run was, the accounting, and what was measured.\<close>

definition shapeErr :: "'f LoadgenResult \<Rightarrow> resultErr option" where
  "shapeErr r = firstErr
     [(r_SchemaVersion r \<noteq> LoadgenSchemaVersion, SchemaVersionErr (r_SchemaVersion r)),
      (r_Client r \<notin> {''gows'', ''gobwas'', ''raw''}, UnknownClient (r_Client r)),
      (r_MessageType r \<noteq> ''binary'' \<and> r_MessageType r \<noteq> ''text'', UnknownMessageType (r_MessageType r)),
      (r_Arrival r \<notin> {''closed_loop'', ''pipelined'', ''open_loop''}, UnknownArrival (r_Arrival r)),
      (r_Arrival r = ''open_loop'' \<and> (r_RequestedRate r \<le> 0 \<or> r_RequestedRate r > MaxOpenLoopRate), OfferedRateErr (r_RequestedRate r)),
      (r_Arrival r = ''open_loop'' \<and> r_LatenessLimit r \<le> 0, LatenessLimitErr),
      (r_Arrival r \<noteq> ''open_loop'' \<and> (r_RequestedRate r \<noteq> 0 \<or> r_LatenessLimit r \<noteq> 0 \<or> r_MaxLateness r \<noteq> 0 \<or>
         r_SchedulerLate r \<noteq> 0 \<or> r_PostWindow r \<noteq> 0), OpenLoopOnly (r_Arrival r)),
      (r_Connections r \<le> 0 \<or> r_PayloadBytes r \<le> 0 \<or> r_Inflight r \<le> 0 \<or> r_Warmup r < 0 \<or> r_Duration r \<le> 0, LoadShapeErr),
      (r_PayloadSeed r = 0, SeedZero),
      (r_Inflight r > MaxInflightBytes sdiv r_PayloadBytes r, InflightBytes)]"

definition resultCounts :: "'f LoadgenResult \<Rightarrow> (string \<times> int) list" where
  "resultCounts r =
     [(''messages'', r_Messages r), (''offered_messages'', r_Offered r), (''achieved_messages'', r_Achieved r),
      (''rejected_messages'', r_Rejected r), (''dropped_messages'', r_Dropped r), (''queue_overflows'', r_QueueOverflows r),
      (''scheduler_late_messages'', r_SchedulerLate r), (''post_window_messages'', r_PostWindow r),
      (''scheduler_lateness_limit_nanoseconds'', r_LatenessLimit r), (''scheduler_max_lateness_nanoseconds'', r_MaxLateness r),
      (''measurement_drain_nanoseconds'', r_MeasurementDrain r), (''verification_mismatches'', r_VerificationMismatches r),
      (''errors'', r_Errors r)]"

definition accountingErr :: "'f LoadgenResult \<Rightarrow> resultErr option" where
  "accountingErr r =
     (case firstErr
        (map (\<lambda>(name, value). (value < 0, NegativeCount name)) (resultCounts r) @
        [(r_Messages r \<noteq> r_Achieved r, MessagesNotAchieved),
         (r_Achieved r \<le> 0, NothingAchieved),
         (r_Offered r \<noteq> i64 (i64 (r_Achieved r + r_Rejected r) + r_Dropped r), OfferedErr),
         (r_Rejected r \<noteq> i64 (r_QueueOverflows r + r_SchedulerLate r), RejectedErr),
         (r_PostWindow r > r_Dropped r, PostWindowErr)]) of
        Some e \<Rightarrow> Some e
      | None \<Rightarrow>
          if r_Arrival r = ''open_loop'' then
            (case OpenLoopOfferedMessages (r_Duration r) (r_RequestedRate r) of
               Inl e \<Rightarrow> Some (ScheduleErr e)
             | Inr expected \<Rightarrow>
                 if r_Offered r \<noteq> expected then Some (ScheduleCountErr expected)
                 else if r_SchedulerLate r = 0 \<and> r_MaxLateness r > r_LatenessLimit r then Some LatenessErr
                 else None)
          else None)"

definition percentilesErr :: "'h hdrhistogram \<Rightarrow> 'f LoadgenResult \<Rightarrow> resultErr option" where
  "percentilesErr lib r =
     (case percentilesOf lib (ls_Raw (r_Latency r)) of
        Inl e \<Rightarrow> Some (LatencyErr ''raw'' e)
      | Inr _ \<Rightarrow>
        (case percentilesOf lib (ls_Corrected (r_Latency r)) of
           Inl e \<Rightarrow> Some (LatencyErr ''corrected'' e)
         | Inr p \<Rightarrow>
             if pc_P50 p \<noteq> r_P50 r \<or> pc_P90 p \<noteq> r_P90 r \<or> pc_P99 p \<noteq> r_P99 r \<or> pc_P999 p \<noteq> r_P999 r
             then Some PercentilesErr else None))"

text \<open>The first error of several computations.\<close>

primrec firstSome :: "'e option list \<Rightarrow> 'e option" where
  "firstSome [] = None"
| "firstSome (x # xs) = (case x of None \<Rightarrow> firstSome xs | Some e \<Rightarrow> Some e)"

definition measuredErr :: "'h hdrhistogram \<Rightarrow> 'f float64 \<Rightarrow> 'f LoadgenResult \<Rightarrow> resultErr option" where
  "measuredErr lib fl r =
     (let raw = hs_Counts (ls_Raw (r_Latency r)); cor = hs_Counts (ls_Corrected (r_Latency r));
          durationSeconds = f_div fl (f_ofInt fl (r_Duration r)) (f_literal fl ''1e9'') in
      firstSome
       [firstErr [(hc_Seen raw \<noteq> r_Achieved r \<or> hc_Seen cor \<noteq> r_Achieved r, ObservationsErr)],
        map_option (HistogramErr ''raw'') (validateHistogramCounts raw),
        map_option (HistogramErr ''corrected'') (validateHistogramCounts cor),
        percentilesErr lib r,
        firstErr
         [(\<not> sameFiniteFloat fl (r_OfferedPerSecond r) (f_div fl (f_ofInt fl (r_Offered r)) durationSeconds) \<or>
           \<not> sameFiniteFloat fl (r_ThroughputPerSecond r) (f_div fl (f_ofInt fl (r_Achieved r)) durationSeconds) \<or>
           \<not> sameFiniteFloat fl (r_RejectedPerSecond r) (f_div fl (f_ofInt fl (r_Rejected r)) durationSeconds), RatesErr),
          (\<not> f_finite fl (r_LatencyObservation r) \<or> f_le fl (r_LatencyObservation r) (f_ofInt fl 0), OverheadErr)],
        map_option (SideAllocationErr ''server'') (allocationErr fl (r_ServerAllocations r) (r_Achieved r)),
        map_option (SideAllocationErr ''client'') (allocationErr fl (r_ClientAllocations r) (r_Achieved r)),
        validateUsage fl ''server'' (r_ServerUsage r),
        validateUsage fl ''client'' (r_ClientUsage r),
        firstErr
         [(\<not> f_eq fl (r_ClientCPUSeconds r) (us_CPUSeconds (r_ClientUsage r)) \<or>
           r_ClientMaxRSSBytes r \<noteq> us_MaxRSSBytes (r_ClientUsage r) \<or>
           r_ClientMaxRSSAvailable r \<noteq> us_Available (r_ClientUsage r), CompatibilityErr)]])"

definition resultErr :: "'h hdrhistogram \<Rightarrow> 'f float64 \<Rightarrow> 'f LoadgenResult \<Rightarrow> resultErr option" where
  "resultErr lib fl r = firstSome [shapeErr r, accountingErr r, measuredErr lib fl r]"

definition HardFailure :: "'h hdrhistogram \<Rightarrow> 'f float64 \<Rightarrow> 'f LoadgenResult \<Rightarrow> resultErr option" where
  "HardFailure lib fl r =
     (let raw = hs_Counts (ls_Raw (r_Latency r)); cor = hs_Counts (ls_Corrected (r_Latency r)) in
      firstSome
       [resultErr lib fl r,
        firstErr
         [(r_Errors r \<noteq> 0 \<or> r_VerificationMismatches r \<noteq> 0 \<or> r_Rejected r \<noteq> 0 \<or> r_Dropped r \<noteq> 0 \<or>
           r_QueueOverflows r \<noteq> 0 \<or> r_SchedulerLate r \<noteq> 0 \<or> r_PostWindow r \<noteq> 0, HardFailureErr),
          (hc_Dropped raw \<noteq> 0 \<or> hc_Overflow raw \<noteq> 0 \<or> hc_Dropped cor \<noteq> 0 \<or> hc_Overflow cor \<noteq> 0, ObservationLoss)]])"

lemma firstSome_None: "firstSome xs = None \<longleftrightarrow> list_all (\<lambda>x. x = None) xs"
  by (induction xs) (auto split: option.splits)

declare firstSome.simps [simp del]

text \<open>A result without a hard failure has lost nothing: every arrival the schedule calls for was offered, achieved and recorded.\<close>

lemma HardFailure_None:
  assumes "HardFailure lib fl r = None" "int64_range (r_Achieved r)"
    "int64_range (hc_Recorded (hs_Counts (ls_Raw (r_Latency r))))" "int64_range (hc_Recorded (hs_Counts (ls_Corrected (r_Latency r))))"
  shows "r_Offered r = r_Achieved r" "0 < r_Achieved r" "r_Errors r = 0" "r_VerificationMismatches r = 0"
    "hc_Recorded (hs_Counts (ls_Raw (r_Latency r))) = r_Achieved r"
    "hc_Recorded (hs_Counts (ls_Corrected (r_Latency r))) = r_Achieved r"
    "r_Arrival r = ''open_loop'' \<Longrightarrow> OpenLoopOfferedMessages (r_Duration r) (r_RequestedRate r) = Inr (r_Achieved r)"
proof -
  have none: "accountingErr r = None" "measuredErr lib fl r = None"
    using assms(1) by (simp_all add: HardFailure_def resultErr_def firstSome_None Let_def)
  have zero: "r_Errors r = 0" "r_VerificationMismatches r = 0" "r_Rejected r = 0" "r_Dropped r = 0"
    "hc_Dropped (hs_Counts (ls_Raw (r_Latency r))) = 0" "hc_Dropped (hs_Counts (ls_Corrected (r_Latency r))) = 0"
    using assms(1) by (simp_all add: HardFailure_def firstSome_None firstErr_None Let_def)
  show "r_Errors r = 0" "r_VerificationMismatches r = 0" by (rule zero)+
  have acc: "r_Offered r = i64 (i64 (r_Achieved r + r_Rejected r) + r_Dropped r)" "0 < r_Achieved r"
    using none(1) by (simp_all add: accountingErr_def firstErr_None split: option.splits)
  then show offered: "r_Offered r = r_Achieved r" "0 < r_Achieved r" using zero assms(2) by (simp_all add: i64_id)
  show "r_Arrival r = ''open_loop'' \<Longrightarrow> OpenLoopOfferedMessages (r_Duration r) (r_RequestedRate r) = Inr (r_Achieved r)"
    using none(1) offered by (simp add: accountingErr_def split: option.splits sum.splits if_splits)
  have seen: "hc_Seen (hs_Counts (ls_Raw (r_Latency r))) = r_Achieved r" "hc_Seen (hs_Counts (ls_Corrected (r_Latency r))) = r_Achieved r"
    "validateHistogramCounts (hs_Counts (ls_Raw (r_Latency r))) = None" "validateHistogramCounts (hs_Counts (ls_Corrected (r_Latency r))) = None"
    using none(2) by (simp_all add: measuredErr_def firstSome_None firstErr_None Let_def)
  then show "hc_Recorded (hs_Counts (ls_Raw (r_Latency r))) = r_Achieved r"
    "hc_Recorded (hs_Counts (ls_Corrected (r_Latency r))) = r_Achieved r"
    using zero assms(3,4) by (simp_all add: validateHistogramCounts_def firstErr_None i64_id)
qed

section \<open>An example\<close>

text \<open>A result of three arrivals in three nanoseconds whose floating-point numbers are all the same.\<close>

definition exampleAllocations :: "'f \<Rightarrow> 'f AllocationStats" where
  "exampleAllocations x = \<lparr>al_Available = True, al_MallocsBefore = 0, al_MallocsAfter = 0, al_MallocsRawDelta = 0,
     al_MallocsObservationOverhead = 0, al_TotalAllocBytesBefore = 0, al_TotalAllocBytesAfter = 0, al_TotalAllocBytesRawDelta = 0,
     al_TotalAllocObservationBytes = 0, al_AllocationsPerMessage = x, al_AllocatedBytesPerMessage = x,
     al_RateBasis = allocationRateBasis, al_ObservationMethod = allocationObservationMethod\<rparr>"

definition exampleUsage :: "'f \<Rightarrow> 'f Usage" where
  "exampleUsage x = \<lparr>us_Available = True, us_CPUSeconds = x, us_MaxRSSBytes = 1, us_Source = ''getrusage''\<rparr>"

definition exampleSnapshot :: HistogramSnapshot where
  "exampleSnapshot = \<lparr>hs_Counts = noCounts, hs_LowestTrackable = 1, hs_HighestTrackable = 60000000000, hs_SignificantFigures = 2, hs_BucketCounts = []\<rparr>"

definition exampleResult :: "'f \<Rightarrow> 'f LoadgenResult" where
  "exampleResult x = \<lparr>r_SchemaVersion = LoadgenSchemaVersion, r_Client = ''gows'', r_MessageType = ''binary'', r_Arrival = ''open_loop'',
     r_Connections = 1, r_PayloadBytes = 3, r_PayloadSeed = 1, r_Inflight = 1, r_Warmup = 0, r_Duration = 3,
     r_Messages = 0, r_Offered = 0, r_RequestedRate = 1000000000, r_Achieved = 0, r_Rejected = 0, r_Dropped = 0,
     r_QueueOverflows = 0, r_SchedulerLate = 0, r_PostWindow = 0, r_LatenessLimit = 1, r_MaxLateness = 0, r_MeasurementDrain = 0,
     r_VerificationMismatches = 0, r_OfferedPerSecond = x, r_ThroughputPerSecond = x, r_RejectedPerSecond = x,
     r_P50 = 1, r_P90 = 1, r_P99 = 1, r_P999 = 1, r_Errors = 0,
     r_Latency = \<lparr>ls_Raw = exampleSnapshot, ls_Corrected = exampleSnapshot, ls_CorrectionMethod = correctionScheduledStart\<rparr>,
     r_LatencyObservation = x, r_ServerAllocations = exampleAllocations x, r_ClientAllocations = exampleAllocations x,
     r_ServerUsage = exampleUsage x, r_ClientUsage = exampleUsage x, r_ClientCPUSeconds = x, r_ClientMaxRSSBytes = 1, r_ClientMaxRSSAvailable = True\<rparr>"

end
