(* ===== verification/Load_Schedule.thy ===== *)
theory Load_Schedule
  imports Load_Result Bench_Workload
begin

text \<open>
  The load generator, \<^verbatim>\<open>bench/harness/cmd/loadgen/main.go\<close>: its settings, one exchange with a server, and the open loop, where a
  dispatcher offers arrivals on a fixed schedule to one worker for each connection, whatever the server does.

  A time is its nanoseconds. The clock is a state machine of the environment, which also says how many arrivals each
  worker has received by now; the clients are the methods of \<^verbatim>\<open>wsClient\<close>. The counters are atomic sums, so the
  order in which workers add to them does not matter: they are added up worker by worker after the dispatch.
\<close>

section \<open>Settings\<close>

definition parseClientKind :: "string \<Rightarrow> string option" where
  "parseClientKind v = (if v \<in> {''gows'', ''gobwas'', ''raw''} then Some v else None)"

definition parseMessageKind :: "string \<Rightarrow> string option" where
  "parseMessageKind v = (if v \<in> {''binary'', ''text''} then Some v else None)"

definition parseArrivalKind :: "string \<Rightarrow> string option" where
  "parseArrivalKind v = (if v \<in> {''closed_loop'', ''pipelined'', ''open_loop''} then Some v else None)"

datatype settingErr =
    ConnsErr | PayloadErr | InflightErr | InflightCap | WarmupErr | DurationErr | ClosedLoopErr | PipelinedErr
  | OpenLoopRateErr | LatenessNotPositive | LatenessInterval

definition validateShape :: "string \<Rightarrow> int \<Rightarrow> int \<Rightarrow> int \<Rightarrow> int \<Rightarrow> int \<Rightarrow> int \<Rightarrow> int \<Rightarrow> settingErr option" where
  "validateShape arrival connections payload inflight rate maxLateness warmup duration = firstErr
     [(connections \<le> 0, ConnsErr),
      (payload \<le> 0, PayloadErr),
      (inflight < 1, InflightErr),
      (inflight > MaxInflightBytes sdiv payload, InflightCap),
      (warmup < 0, WarmupErr),
      (duration \<le> 0, DurationErr),
      (arrival = ''closed_loop'' \<and> (inflight \<noteq> 1 \<or> rate \<noteq> 0 \<or> maxLateness \<noteq> 0), ClosedLoopErr),
      (arrival = ''pipelined'' \<and> (inflight < 2 \<or> rate \<noteq> 0 \<or> maxLateness \<noteq> 0), PipelinedErr),
      (arrival = ''open_loop'' \<and> (inflight \<noteq> 1 \<or> rate \<le> 0 \<or> rate > MaxOpenLoopRate), OpenLoopRateErr),
      (arrival = ''open_loop'' \<and> maxLateness \<le> 0, LatenessNotPositive),
      (arrival = ''open_loop'' \<and> maxLateness > second sdiv rate, LatenessInterval)]"

text \<open>The seed of a connection's payload; \<open>index\<close> is not negative.\<close>

definition connectionPayloadSeed :: "64 word \<Rightarrow> nat \<Rightarrow> 64 word" where
  "connectionPayloadSeed base index =
     (let z = base + of_nat (index + 1) * 0x9E3779B97F4A7C15;
          z = (z XOR drop_bit 30 z) * 0xBF58476D1CE4E5B9;
          z = (z XOR drop_bit 27 z) * 0x94D049BB133111EB;
          z = z XOR drop_bit 31 z in
      if z = 0 then 0xD1B54A32D192ED03 else z)"

section \<open>Exchanges\<close>

text \<open>\<^verbatim>\<open>Time.Sub\<close> saturates.\<close>

definition timeSub :: "int \<Rightarrow> int \<Rightarrow> int" where
  "timeSub a b = max (- (2 ^ 63)) (min (2 ^ 63 - 1) (a - b))"

record ('k, 'e) wsClient =
  wc_WriteMessage :: "bytes \<Rightarrow> 'k \<Rightarrow> 'e option \<times> 'k"
  wc_ReadMessage :: "'k \<Rightarrow> ('e + bytes) \<times> 'k"
  wc_SetDeadline :: "int option \<Rightarrow> 'k \<Rightarrow> 'e option \<times> 'k"
  wc_Close :: "'k \<Rightarrow> 'e option \<times> 'k"

text \<open>Which errors wrap \<^verbatim>\<open>errVerificationMismatch\<close>: only the mismatch of \<^verbatim>\<open>exchange\<close>.\<close>

datatype 'e exchangeErr = WriteErr 'e | ReadErr 'e | VerificationMismatch echoErr | PlainErr 'e | PlainEcho echoErr

definition exchange :: "('k, 'e) wsClient \<Rightarrow> bytes \<Rightarrow> int \<Rightarrow> int \<Rightarrow> 'k \<Rightarrow> ('e exchangeErr + int) \<times> 'k" where
  "exchange client payload started received k =
     (case wc_WriteMessage client payload k of
        (Some e, k) \<Rightarrow> (Inl (WriteErr e), k)
      | (None, k) \<Rightarrow>
        (case wc_ReadMessage client k of
           (Inl e, k) \<Rightarrow> (Inl (ReadErr e), k)
         | (Inr echo', k) \<Rightarrow>
           (case VerifyEcho payload echo' of
              Some e \<Rightarrow> (Inl (VerificationMismatch e), k)
            | None \<Rightarrow> (Inr (timeSub received started), k))))"

record measurementCounters =
  mc_offered :: int
  mc_achieved :: int
  mc_rejected :: int
  mc_queueOverflows :: int
  mc_schedulerLate :: int
  mc_postWindow :: int
  mc_schedulerMaxLateness :: int
  mc_errors :: int
  mc_mismatches :: int

definition zeroCounters :: measurementCounters where
  "zeroCounters = \<lparr>mc_offered = 0, mc_achieved = 0, mc_rejected = 0, mc_queueOverflows = 0, mc_schedulerLate = 0,
     mc_postWindow = 0, mc_schedulerMaxLateness = 0, mc_errors = 0, mc_mismatches = 0\<rparr>"

definition recordExchangeError :: "'e exchangeErr \<Rightarrow> measurementCounters \<Rightarrow> measurementCounters" where
  "recordExchangeError e c =
     (let c = c\<lparr>mc_errors := mc_errors c + 1\<rparr> in
      case e of VerificationMismatch _ \<Rightarrow> c\<lparr>mc_mismatches := mc_mismatches c + 1\<rparr> | _ \<Rightarrow> c)"

section \<open>The schedule\<close>

datatype loadErr =
    SequenceNegative int | ArrivalRate int | SequenceOverflow int
  | NoQueues | WindowOrder | LoadContract | WindowExpired | ClockBehind int | ElapsedOverflow
  | CountErr scheduleErr

definition scheduledArrival :: "int \<Rightarrow> int \<Rightarrow> int \<Rightarrow> loadErr + int" where
  "scheduledArrival start sequence rate =
     (if sequence < 0 then Inl (SequenceNegative sequence)
      else if rate \<le> 0 then Inl (ArrivalRate rate)
      else
        let seconds = sequence sdiv rate;
            remainder = sequence smod rate in
        if seconds > maxInt64 sdiv second then Inl (SequenceOverflow sequence)
        else Inr (start + i64 (i64 (seconds * second) + i64 (remainder * second) sdiv rate)))"

definition scheduledArrivalsThrough :: "int \<Rightarrow> int \<Rightarrow> int \<Rightarrow> loadErr + int" where
  "scheduledArrivalsThrough start now rate =
     (if now < start then Inr 0
      else
        let elapsed = timeSub now start in
        if elapsed = maxInt64 then Inl ElapsedOverflow
        else case OpenLoopOfferedMessages (elapsed + 1) rate of Inl e \<Rightarrow> Inl (CountErr e) | Inr n \<Rightarrow> Inr n)"

text \<open>The queue of a worker, a channel of capacity one: the times of all the arrivals sent on it, and how many were received.\<close>

record queue =
  q_sent :: "int list"
  q_received :: nat

definition offerArrival :: "queue list \<Rightarrow> int \<Rightarrow> int \<Rightarrow> queue list \<times> int \<times> bool" where
  "offerArrival queues nextQueue offered =
     (if queues = [] then (queues, 0, False)
      else
        let nextQueue = (if nextQueue < 0 \<or> nextQueue \<ge> int (length queues) then 0 else nextQueue);
            q = queues ! nat nextQueue;
            after = (nextQueue + 1) mod int (length queues) in
        if length (q_sent q) - q_received q < 1
        then (queues[nat nextQueue := q\<lparr>q_sent := q_sent q @ [offered]\<rparr>], after, True)
        else (queues, after, False))"

definition recordSchedulerMaxLateness :: "int \<Rightarrow> measurementCounters \<Rightarrow> measurementCounters" where
  "recordSchedulerMaxLateness lateness c =
     (let value = max 0 lateness in
      if value > mc_schedulerMaxLateness c then c\<lparr>mc_schedulerMaxLateness := value\<rparr> else c)"

definition rejectSchedulerLate :: "int \<Rightarrow> int \<Rightarrow> measurementCounters \<Rightarrow> measurementCounters" where
  "rejectSchedulerLate count lateness c =
     (if count \<le> 0 then c
      else recordSchedulerMaxLateness lateness
        (c\<lparr>mc_rejected := mc_rejected c + count, mc_schedulerLate := mc_schedulerLate c + count\<rparr>))"

text \<open>The clock of the dispatcher; \<open>ck_received\<close> is what the workers have taken from their queues.\<close>

record 'c openLoopClock =
  ck_now :: "'c \<Rightarrow> int \<times> 'c"
  ck_waitUntil :: "int \<Rightarrow> 'c \<Rightarrow> 'c"
  ck_received :: "'c \<Rightarrow> nat \<Rightarrow> nat"

definition drained :: "'c openLoopClock \<Rightarrow> 'c \<Rightarrow> queue list \<Rightarrow> queue list" where
  "drained clock c queues =
     map (\<lambda>(i, q). q\<lparr>q_received := min (length (q_sent q)) (max (q_received q) (ck_received clock c i))\<rparr>) (enumerate 0 queues)"

text \<open>What became due is offered: all but the latest arrival is rejected as missed, the latest one if it is late or finds its queue full.\<close>

definition offerDue :: "'c openLoopClock \<Rightarrow> 'c \<Rightarrow> int \<Rightarrow> int \<Rightarrow> int \<Rightarrow> int \<Rightarrow> int \<Rightarrow> int \<Rightarrow> queue list \<times> int \<times> measurementCounters \<Rightarrow>
    queue list \<times> int \<times> measurementCounters" where
  "offerDue clock c maxLateness now sequence due scheduled latestScheduled s =
     (case s of (queues, nextQueue, ctr) \<Rightarrow>
        let missed = due - 1 - sequence;
            ctr = (if missed > 0 then rejectSchedulerLate missed (timeSub now scheduled) (ctr\<lparr>mc_offered := mc_offered ctr + missed\<rparr>) else ctr);
            lateness = timeSub now latestScheduled;
            ctr = recordSchedulerMaxLateness lateness ctr;
            ctr = ctr\<lparr>mc_offered := mc_offered ctr + 1\<rparr> in
        if lateness > maxLateness then (queues, nextQueue, rejectSchedulerLate 1 lateness ctr)
        else case offerArrival (drained clock c queues) nextQueue latestScheduled of
          (queues, nextQueue, accepted) \<Rightarrow>
            (queues, nextQueue,
             if accepted then ctr
             else ctr\<lparr>mc_rejected := mc_rejected ctr + 1, mc_queueOverflows := mc_queueOverflows ctr + 1\<rparr>))"

function dispatchLoop :: "'c openLoopClock \<Rightarrow> int \<Rightarrow> int \<Rightarrow> int \<Rightarrow> int \<Rightarrow> int \<Rightarrow> int \<Rightarrow> 'c \<Rightarrow> queue list \<times> int \<times> measurementCounters \<Rightarrow>
    loadErr option \<times> 'c \<times> (queue list \<times> int \<times> measurementCounters)" where
  "dispatchLoop clock start end' rate maxLateness total' sequence c s =
     (if sequence < total' then
        case scheduledArrival start sequence rate of
          Inl e \<Rightarrow> (Some e, c, s)
        | Inr scheduled \<Rightarrow>
            let (now, c) = ck_now clock c;
                (now, c) = (if now < scheduled then ck_now clock (ck_waitUntil clock scheduled c) else (now, c)) in
            if end' \<le> now then
              (case s of (queues, nextQueue, ctr) \<Rightarrow>
                 let remaining = total' - sequence in
                 (None, c, queues, nextQueue,
                  rejectSchedulerLate remaining (timeSub now scheduled) (ctr\<lparr>mc_offered := mc_offered ctr + remaining\<rparr>)))
            else case scheduledArrivalsThrough start now rate of
              Inl e \<Rightarrow> (Some e, c, s)
            | Inr due \<Rightarrow>
                let due = min due total' in
                if due \<le> sequence then (Some (ClockBehind sequence), c, s)
                else case scheduledArrival start (due - 1) rate of
                  Inl e \<Rightarrow> (Some e, c, s)
                | Inr latestScheduled \<Rightarrow>
                    dispatchLoop clock start end' rate maxLateness total' due c
                      (offerDue clock c maxLateness now sequence due scheduled latestScheduled s)
      else (None, c, s))"
  by pat_completeness auto
termination by (relation "measure (\<lambda>(_, _, _, _, _, total', sequence, _, _). nat (total' - sequence))") auto

declare dispatchLoop.simps [simp del]

definition dispatchOpenLoop :: "queue list \<Rightarrow> int \<Rightarrow> int \<Rightarrow> int \<Rightarrow> int \<Rightarrow> measurementCounters \<Rightarrow> 'c openLoopClock \<Rightarrow> 'c \<Rightarrow>
    loadErr option \<times> 'c \<times> queue list \<times> measurementCounters" where
  "dispatchOpenLoop queues start end' rate maxLateness ctr clock c =
     (if queues = [] then (Some NoQueues, c, queues, ctr)
      else if \<not> start < end' then (Some WindowOrder, c, queues, ctr)
      else if maxLateness \<le> 0 \<or> rate \<le> 0 \<or> rate > MaxOpenLoopRate \<or> maxLateness > second sdiv rate
      then (Some LoadContract, c, queues, ctr)
      else
        let (now, c) = ck_now clock c in
        if end' \<le> now then (Some WindowExpired, c, queues, ctr)
        else case OpenLoopOfferedMessages (timeSub end' start) rate of
          Inl e \<Rightarrow> (Some (CountErr e), c, queues, ctr)
        | Inr total' \<Rightarrow>
            (case dispatchLoop clock start end' rate maxLateness total' 0 c (queues, 0, ctr) of
               (e, c, queues, _, ctr) \<Rightarrow> (e, c, queues, ctr)))"

section \<open>The workers\<close>

text \<open>A worker: its client, its recorder, and its readings of the clock for each arrival, before and after the exchange.\<close>

fun openLoopWorker :: "'h hdrhistogram \<Rightarrow> ('k, 'e) wsClient \<Rightarrow> bytes \<Rightarrow> int \<Rightarrow> (nat \<Rightarrow> int \<times> int) \<Rightarrow> nat \<Rightarrow> int list \<Rightarrow>
    'k \<times> 'h LatencyRecorder \<times> measurementCounters \<Rightarrow> 'k \<times> 'h LatencyRecorder \<times> measurementCounters" where
  "openLoopWorker lib client payload end' readings i [] s = s"
| "openLoopWorker lib client payload end' readings i (offered # queue) (k, recorder, ctr) =
     (let (started, received) = readings i in
      if end' \<le> started
      then openLoopWorker lib client payload end' readings (Suc i) queue (k, recorder, ctr\<lparr>mc_postWindow := mc_postWindow ctr + 1\<rparr>)
      else case exchange client payload started received k of
        (Inl e, k) \<Rightarrow> openLoopWorker lib client payload end' readings (Suc i) queue (k, recorder, recordExchangeError e ctr)
      | (Inr latency, k) \<Rightarrow>
          openLoopWorker lib client payload end' readings (Suc i) queue
            (k, Record lib latency (timeSub (started + latency) offered) recorder, ctr\<lparr>mc_achieved := mc_achieved ctr + 1\<rparr>))"

record ('k, 'h) connection =
  cn_client :: 'k
  cn_recorder :: "'h LatencyRecorder"
  cn_payload :: bytes
  cn_readings :: "nat \<Rightarrow> int \<times> int"

fun runWorkers :: "'h hdrhistogram \<Rightarrow> ('k, 'e) wsClient \<Rightarrow> int \<Rightarrow> queue list \<Rightarrow> ('k, 'h) connection list \<Rightarrow> measurementCounters \<Rightarrow>
    ('k, 'h) connection list \<times> measurementCounters" where
  "runWorkers lib client end' (q # qs) (cn # cns) ctr =
     (case openLoopWorker lib client (cn_payload cn) end' (cn_readings cn) 0 (q_sent q) (cn_client cn, cn_recorder cn, ctr) of
        (k, r, ctr) \<Rightarrow>
          (case runWorkers lib client end' qs cns ctr of
             (cns, ctr) \<Rightarrow> (cn\<lparr>cn_client := k, cn_recorder := r\<rparr> # cns, ctr)))"
| "runWorkers lib client end' qs cns ctr = (cns, ctr)"

definition measureOpenLoop :: "'h hdrhistogram \<Rightarrow> ('k, 'e) wsClient \<Rightarrow> int \<Rightarrow> int \<Rightarrow> int \<Rightarrow> int \<Rightarrow> 'c openLoopClock \<Rightarrow> 'c \<Rightarrow>
    ('k, 'h) connection list \<Rightarrow> measurementCounters \<Rightarrow> loadErr option \<times> ('k, 'h) connection list \<times> measurementCounters" where
  "measureOpenLoop lib client start end' rate maxLateness clock c cns ctr =
     (let (now, c) = ck_now clock c in
      if end' \<le> now then (Some WindowExpired, cns, ctr)
      else
        let queues = replicate (length cns) \<lparr>q_sent = [], q_received = 0\<rparr> in
        case dispatchOpenLoop queues start end' rate maxLateness ctr clock c of
          (e, c, queues, ctr) \<Rightarrow> (e, runWorkers lib client end' queues cns ctr))"

text \<open>The messages lost between acceptance and echo.\<close>

definition droppedMessages :: "measurementCounters \<Rightarrow> int option" where
  "droppedMessages r =
     (let accepted = mc_offered r - mc_rejected r in
      if accepted < mc_achieved r then None else Some (accepted - mc_achieved r))"

text \<open>The counts of the result \<^verbatim>\<open>run\<close> reports.\<close>

definition withCounts :: "measurementCounters \<Rightarrow> int \<Rightarrow> int \<Rightarrow> 'f LoadgenResult \<Rightarrow> 'f LoadgenResult" where
  "withCounts ctr dropped drain r =
     r\<lparr>r_Messages := mc_achieved ctr, r_Offered := mc_offered ctr, r_Achieved := mc_achieved ctr,
       r_Rejected := mc_rejected ctr, r_Dropped := dropped, r_QueueOverflows := mc_queueOverflows ctr,
       r_SchedulerLate := mc_schedulerLate ctr, r_PostWindow := mc_postWindow ctr,
       r_MaxLateness := mc_schedulerMaxLateness ctr, r_MeasurementDrain := drain,
       r_VerificationMismatches := mc_mismatches ctr, r_Errors := mc_errors ctr\<rparr>"

section \<open>The schedule is exact\<close>

text \<open>When the arrival with this number is due, and how many are due within a duration.\<close>

definition arrivalOffset :: "int \<Rightarrow> int \<Rightarrow> int" where
  "arrivalOffset rate sequence = (sequence * second) div rate"

definition arrivalCount :: "int \<Rightarrow> int \<Rightarrow> int" where
  "arrivalCount rate d = (d * rate + second - 1) div second"

lemma second_pos: "0 < second" "second = MaxOpenLoopRate"
  by (simp_all add: second_def MaxOpenLoopRate_def)

lemma less_arrivalCount: "0 < rate \<Longrightarrow> sequence < arrivalCount rate d \<longleftrightarrow> arrivalOffset rate sequence < d"
  using second_pos(1) by (simp add: arrivalCount_def arrivalOffset_def ceil_less_iff div_less_iff)

lemma arrivalOffset_strict:
  assumes "0 < rate" "rate \<le> MaxOpenLoopRate" "a < b"
  shows "arrivalOffset rate a < arrivalOffset rate b"
proof -
  have "a * second + rate \<le> (a + 1) * second" using assms(2) by (simp add: second_pos algebra_simps)
  also have "\<dots> \<le> b * second" using assms(3) second_pos by (intro mult_right_mono) auto
  finally have "(a * second + rate) div rate \<le> (b * second) div rate" using assms(1) by (intro zdiv_mono1)
  then show ?thesis using assms(1) by (simp add: arrivalOffset_def)
qed

lemma arrivalOffset_nonneg: "0 < rate \<Longrightarrow> 0 \<le> sequence \<Longrightarrow> 0 \<le> arrivalOffset rate sequence"
  using second_pos by (simp add: arrivalOffset_def pos_imp_zdiv_nonneg_iff)

text \<open>The computed offset, before it is reduced to 64 bits.\<close>

lemma scheduledArrival_cases:
  assumes "0 \<le> sequence" "0 < rate" "rate \<le> MaxOpenLoopRate"
  shows "scheduledArrival start sequence rate =
    (if sequence div rate > maxInt64 div second then Inl (SequenceOverflow sequence)
     else Inr (start + i64 (arrivalOffset rate sequence)))" (is ?eq)
    "sequence div rate \<le> maxInt64 div second \<Longrightarrow> arrivalOffset rate sequence < 2 ^ 64"
proof -
  define q m where qm: "q = sequence div rate" "m = sequence mod rate"
  have s: "sequence = q * rate + m" "0 \<le> m" "m < rate" "0 \<le> q"
    using assms by (simp_all add: qm pos_imp_zdiv_nonneg_iff)
  have nn: "second \<noteq> 0" "rate \<noteq> 0" using assms(2) second_pos by auto
  have num: "second = 1000000000" "(2 :: int) ^ 63 = 9223372036854775808" "(2 :: int) ^ 64 = 18446744073709551616"
    "maxInt64 = 9223372036854775807" by (simp_all add: second_def maxInt64_def)
  have off: "arrivalOffset rate sequence = q * second + m * second div rate"
  proof -
    have eq: "sequence * second = m * second + q * second * rate" by (simp add: s(1) algebra_simps)
    show ?thesis unfolding arrivalOffset_def eq by (subst div_mult_self1 [OF nn(2)]) simp
  qed
  have m: "0 \<le> m * second" "m * second \<le> 999999999 * 1000000000"
    using mult_mono [of m 999999999 second 1000000000] s(2,3) assms(3) second_pos num(1) by simp_all
  have f: "0 \<le> m * second div rate" "m * second div rate < second"
    using m(1) s(3) assms(2) second_pos by (simp_all add: pos_imp_zdiv_nonneg_iff div_less_iff mult.commute [of second])
  have *: "arrivalOffset rate sequence < 2 ^ 64 \<and> i64 (i64 (q * second) + i64 (m * second) sdiv rate) = i64 (arrivalOffset rate sequence)"
    if "q \<le> maxInt64 div second"
  proof
    have q: "q * second \<le> maxInt64" using le_div_iff [of second q maxInt64] second_pos that by simp
    have q0: "0 \<le> q * second" using s(4) second_pos by simp
    show "arrivalOffset rate sequence < 2 ^ 64" unfolding off using q f unfolding num by linarith
    have "int64_range (q * second)" "int64_range (m * second)"
      unfolding int64_range_def using q q0 m unfolding num by linarith+
    then show "i64 (i64 (q * second) + i64 (m * second) sdiv rate) = i64 (arrivalOffset rate sequence)"
      using m(1) assms(2) by (simp add: i64_id sdiv_pos off)
  qed
  have pos: "0 \<le> maxInt64" unfolding num by simp
  show ?eq
    using assms second_pos(1) pos *
    by (simp add: scheduledArrival_def Let_def sdiv_pos smod_pos qm [symmetric] not_less)
  show "sequence div rate \<le> maxInt64 div second \<Longrightarrow> arrivalOffset rate sequence < 2 ^ 64"
    using * by (simp add: qm)
qed

lemma scheduledArrival_exact:
  assumes "0 \<le> sequence" "0 < rate" "rate \<le> MaxOpenLoopRate" "arrivalOffset rate sequence \<le> maxInt64"
  shows "scheduledArrival start sequence rate = Inr (start + arrivalOffset rate sequence)"
proof -
  have "sequence div rate * second \<le> arrivalOffset rate sequence"
    unfolding arrivalOffset_def le_div_iff [OF assms(2)]
  proof -
    have "sequence div rate * rate \<le> sequence" using assms(2) by (simp add: minus_mod_eq_div_mult [symmetric])
    then show "sequence div rate * second * rate \<le> sequence * second"
      using mult_right_mono [of "sequence div rate * rate" sequence second] second_pos(1) by (simp add: ac_simps)
  qed
  then have "sequence div rate \<le> maxInt64 div second"
    using assms(4) second_pos(1) by (simp add: le_div_iff)
  then show ?thesis
    using scheduledArrival_cases(1) [OF assms(1-3)] arrivalOffset_nonneg [OF assms(2,1)] assms(4)
    by (simp add: i64_id int64_range_def maxInt64_def)
qed

lemma scheduledArrivalsThrough_exact:
  assumes "0 < rate" "rate \<le> MaxOpenLoopRate" "start \<le> now" "now - start < maxInt64"
  shows "scheduledArrivalsThrough start now rate = Inr (arrivalCount rate (now - start + 1))"
proof -
  have sub: "timeSub now start = now - start" using assms(3,4) by (simp add: timeSub_def maxInt64_def)
  have "OpenLoopOfferedMessages (now - start + 1) rate = Inr (arrivalCount rate (now - start + 1))"
    using OpenLoopOfferedMessages_exact(1) [of "now - start + 1" rate] assms by (simp add: int64_range_def maxInt64_def arrivalCount_def)
  then show ?thesis using assms(3,4) by (simp add: scheduledArrivalsThrough_def sub Let_def)
qed

text \<open>C39: The schedule of the open loop is exact. For every duration and every rate up to one arrival in a nanosecond, the
  number of offered messages is computed without overflow or rounding error: it is the number of arrivals whose
  scheduled time falls into the window, each of them at its own time, later than the one before.\<close>

theorem schedule_exact:
  assumes "0 < d" "int64_range d" "0 < rate" "rate \<le> MaxOpenLoopRate"
  shows "\<exists>n. OpenLoopOfferedMessages d rate = Inr n \<and> 0 < n \<and> n \<le> d \<and>
    (\<forall>sequence \<ge> 0. sequence < n \<longleftrightarrow>
      (\<exists>t. scheduledArrival start sequence rate = Inr t \<and> start \<le> t \<and> t < start + d)) \<and>
    (\<forall>a b t u. 0 \<le> a \<and> a < b \<and> b < n \<and> scheduledArrival start a rate = Inr t \<and> scheduledArrival start b rate = Inr u \<longrightarrow> t < u)"
proof (intro exI [of _ "arrivalCount rate d"] conjI allI impI)
  note E = OpenLoopOfferedMessages_exact [OF assms]
  show "OpenLoopOfferedMessages d rate = Inr (arrivalCount rate d)" "0 < arrivalCount rate d" "arrivalCount rate d \<le> d"
    using E by (simp_all add: arrivalCount_def)
  have d: "d \<le> maxInt64" using assms(2) by (simp add: int64_range_def maxInt64_def)
  have exact: "scheduledArrival start s rate = Inr (start + arrivalOffset rate s)" if "0 \<le> s" "s < arrivalCount rate d" for s
    using scheduledArrival_exact [OF that(1) assms(3,4)] that(2) d by (simp add: less_arrivalCount assms(3))
  show "s < arrivalCount rate d \<longleftrightarrow> (\<exists>t. scheduledArrival start s rate = Inr t \<and> start \<le> t \<and> t < start + d)" if s: "0 \<le> s" for s
  proof
    assume "s < arrivalCount rate d"
    then show "\<exists>t. scheduledArrival start s rate = Inr t \<and> start \<le> t \<and> t < start + d"
      using exact [OF s] arrivalOffset_nonneg [OF assms(3) s] by (simp add: less_arrivalCount assms(3))
  next
    assume "\<exists>t. scheduledArrival start s rate = Inr t \<and> start \<le> t \<and> t < start + d"
    then have t: "0 \<le> i64 (arrivalOffset rate s)" "i64 (arrivalOffset rate s) < d" "arrivalOffset rate s < 2 ^ 64"
      using scheduledArrival_cases [OF s assms(3,4)] by (auto split: if_splits)
    have "arrivalOffset rate s < 2 ^ 63"
      using t i64_wrap [of "arrivalOffset rate s"] by (cases "arrivalOffset rate s < 2 ^ 63") auto
    then have "i64 (arrivalOffset rate s) = arrivalOffset rate s"
      using arrivalOffset_nonneg [OF assms(3) s] by (intro i64_id) (simp add: int64_range_def)
    then show "s < arrivalCount rate d" using t(2) by (simp add: less_arrivalCount assms(3))
  qed
  show "t < u" if "0 \<le> a \<and> a < b \<and> b < arrivalCount rate d \<and> scheduledArrival start a rate = Inr t \<and>
      scheduledArrival start b rate = Inr u" for a b t u
    using that exact [of a] exact [of b] arrivalOffset_strict [OF assms(3,4), of a b] by auto
qed

text \<open>Ten seconds at three messages a second.\<close>

theorem schedule_exact_witness: "\<exists>n. OpenLoopOfferedMessages 10000000000 3 = Inr n \<and> 0 < n"
  using schedule_exact [of 10000000000 3 0] by (auto simp: int64_range_def MaxOpenLoopRate_def)

end
