(* ===== verification/Load_Accounting.thy ===== *)
theory Load_Accounting
  imports Load_Schedule
begin

text \<open>
  The accounting of the open loop of \<open>Load_Schedule\<close>: what the dispatcher offers is what it accepts and rejects, what the
  workers receive is what they echo, lose or find too late, and the result passes the tests of \<open>Load_Result\<close>.
\<close>

section \<open>The dispatcher\<close>

definition sentTotal :: "queue list \<Rightarrow> int" where
  "sentTotal queues = sum_list (map (\<lambda>q. int (length (q_sent q))) queues)"

text \<open>The arrivals with smaller numbers have all been offered, each queue got some of them in order, and everything else was rejected with its reason.\<close>

definition dispatchInv :: "int \<Rightarrow> int \<Rightarrow> int \<Rightarrow> int \<Rightarrow> queue list \<times> int \<times> measurementCounters \<Rightarrow> bool" where
  "dispatchInv start rate maxLateness sequence s \<longleftrightarrow>
     (case s of (queues, _, ctr) \<Rightarrow>
        mc_offered ctr = sequence \<and> mc_offered ctr = sentTotal queues + mc_rejected ctr \<and>
        mc_rejected ctr = mc_queueOverflows ctr + mc_schedulerLate ctr \<and>
        0 \<le> mc_queueOverflows ctr \<and> 0 \<le> mc_schedulerLate ctr \<and> 0 \<le> mc_schedulerMaxLateness ctr \<and>
        (mc_schedulerLate ctr = 0 \<longrightarrow> mc_schedulerMaxLateness ctr \<le> maxLateness) \<and>
        mc_achieved ctr = 0 \<and> mc_postWindow ctr = 0 \<and> mc_errors ctr = 0 \<and> mc_mismatches ctr = 0 \<and>
        list_all (\<lambda>q. sorted_wrt (<) (q_sent q) \<and>
          list_all (\<lambda>t. \<exists>n. 0 \<le> n \<and> n < sequence \<and> t = start + arrivalOffset rate n) (q_sent q)) queues)"

lemma drained_sent: "map q_sent (drained clock c queues) = map q_sent queues"
  by (rule nth_equalityI) (simp_all add: drained_def nth_enumerate_eq)

lemma sentTotal_map: "sentTotal queues = sum_list (map (\<lambda>ts. int (length ts)) (map q_sent queues))"
  by (simp add: sentTotal_def o_def)

lemma sum_list_update_int: "i < length xs \<Longrightarrow> sum_list (xs[i := y]) = sum_list xs - xs ! i + (y :: int)"
  by (induction xs arbitrary: i) (auto split: nat.split simp: nth_Cons')

text \<open>An accepted arrival is appended to one queue, a rejected one changes nothing.\<close>

lemma offerArrival_cases:
  assumes "offerArrival queues nextQueue t = (queues', nextQueue', accepted)"
  shows "(\<not> accepted \<and> queues' = queues) \<or>
    (accepted \<and> (\<exists>i < length queues. map q_sent queues' = (map q_sent queues)[i := q_sent (queues ! i) @ [t]]))"
proof (cases "queues = []")
  case True
  then show ?thesis using assms by (simp add: offerArrival_def)
next
  case False
  let ?n = "if nextQueue < 0 \<or> nextQueue \<ge> int (length queues) then 0 else nextQueue"
  have n: "nat ?n < length queues" using False by auto
  show ?thesis using assms False n by (auto simp: offerArrival_def Let_def map_update split: if_splits)
qed

definition queuesOk :: "int \<Rightarrow> int \<Rightarrow> int \<Rightarrow> int list list \<Rightarrow> bool" where
  "queuesOk start rate sequence qs \<longleftrightarrow> list_all (\<lambda>ts. sorted_wrt (<) ts \<and>
     list_all (\<lambda>t. \<exists>n. 0 \<le> n \<and> n < sequence \<and> t = start + arrivalOffset rate n) ts) qs"

lemma dispatchInv_queuesOk:
  "list_all (\<lambda>q. sorted_wrt (<) (q_sent q) \<and>
     list_all (\<lambda>t. \<exists>n. 0 \<le> n \<and> n < sequence \<and> t = start + arrivalOffset rate n) (q_sent q)) queues \<longleftrightarrow>
   queuesOk start rate sequence (map q_sent queues)"
  by (simp add: queuesOk_def list_all_iff)

lemma queuesOk_mono: "queuesOk start rate a qs \<Longrightarrow> a \<le> b \<Longrightarrow> queuesOk start rate b qs"
  unfolding queuesOk_def list_all_iff by (meson less_le_trans)

lemma queuesOk_append:
  assumes "queuesOk start rate sequence qs" "i < length qs" "0 < rate" "rate \<le> MaxOpenLoopRate" "0 \<le> sequence" "sequence < due"
  shows "queuesOk start rate due (qs[i := (qs ! i) @ [start + arrivalOffset rate (due - 1)]])"
proof -
  have old: "sorted_wrt (<) (qs ! i)" "\<And>t. t \<in> set (qs ! i) \<Longrightarrow> \<exists>n. 0 \<le> n \<and> n < sequence \<and> t = start + arrivalOffset rate n"
    using assms(1,2) by (auto simp: queuesOk_def list_all_iff)
  have "t < start + arrivalOffset rate (due - 1)" if t: "t \<in> set (qs ! i)" for t
  proof -
    obtain n where "n < sequence" "t = start + arrivalOffset rate n" using old(2) [OF t] by blast
    then show ?thesis using arrivalOffset_strict [OF assms(3,4), of n "due - 1"] assms(6) by simp
  qed
  then have "sorted_wrt (<) (qs ! i @ [start + arrivalOffset rate (due - 1)])" using old(1) by (simp add: sorted_wrt_append)
  moreover have "\<exists>n. 0 \<le> n \<and> n < due \<and> t = start + arrivalOffset rate n" if "t \<in> set (qs ! i @ [start + arrivalOffset rate (due - 1)])" for t
  proof (cases "t \<in> set (qs ! i)")
    case True
    then obtain n where "0 \<le> n" "n < sequence" "t = start + arrivalOffset rate n" using old(2) by blast
    then show ?thesis using assms(6) by (intro exI [of _ n]) simp
  next
    case False
    then show ?thesis using that assms(5,6) by (intro exI [of _ "due - 1"]) simp
  qed
  moreover have "sorted_wrt (<) ts \<and> (\<forall>t \<in> set ts. \<exists>n. 0 \<le> n \<and> n < due \<and> t = start + arrivalOffset rate n)" if "ts \<in> set qs" for ts
    using that queuesOk_mono [OF assms(1), of due] assms(6) by (simp add: queuesOk_def list_all_iff)
  ultimately show ?thesis
    unfolding queuesOk_def list_all_iff by (intro ballI) (drule set_update_subset_insert [THEN subsetD], elim insertE, simp_all)
qed

lemma recordSchedulerMaxLateness_counters [simp]:
  "mc_offered (recordSchedulerMaxLateness l c) = mc_offered c" "mc_achieved (recordSchedulerMaxLateness l c) = mc_achieved c"
  "mc_rejected (recordSchedulerMaxLateness l c) = mc_rejected c" "mc_queueOverflows (recordSchedulerMaxLateness l c) = mc_queueOverflows c"
  "mc_schedulerLate (recordSchedulerMaxLateness l c) = mc_schedulerLate c" "mc_postWindow (recordSchedulerMaxLateness l c) = mc_postWindow c"
  "mc_errors (recordSchedulerMaxLateness l c) = mc_errors c" "mc_mismatches (recordSchedulerMaxLateness l c) = mc_mismatches c"
  "mc_schedulerMaxLateness (recordSchedulerMaxLateness l c) = max (mc_schedulerMaxLateness c) (max 0 l)"
  by (auto simp: recordSchedulerMaxLateness_def Let_def)

lemma rejectSchedulerLate_counters [simp]:
  "mc_offered (rejectSchedulerLate n l c) = mc_offered c" "mc_achieved (rejectSchedulerLate n l c) = mc_achieved c"
  "mc_queueOverflows (rejectSchedulerLate n l c) = mc_queueOverflows c" "mc_postWindow (rejectSchedulerLate n l c) = mc_postWindow c"
  "mc_errors (rejectSchedulerLate n l c) = mc_errors c" "mc_mismatches (rejectSchedulerLate n l c) = mc_mismatches c"
  "mc_rejected (rejectSchedulerLate n l c) = mc_rejected c + max 0 n"
  "mc_schedulerLate (rejectSchedulerLate n l c) = mc_schedulerLate c + max 0 n"
  "mc_schedulerMaxLateness (rejectSchedulerLate n l c) = (if n \<le> 0 then mc_schedulerMaxLateness c else max (mc_schedulerMaxLateness c) (max 0 l))"
  by (simp_all add: rejectSchedulerLate_def)

lemma offerDue_inv:
  assumes "dispatchInv start rate maxLateness sequence s" "0 < rate" "rate \<le> MaxOpenLoopRate" "0 \<le> sequence" "sequence < due"
    "0 < maxLateness"
  shows "dispatchInv start rate maxLateness due
    (offerDue clock c maxLateness now sequence due scheduled (start + arrivalOffset rate (due - 1)) s)"
proof -
  obtain queues nextQueue ctr where s: "s = (queues, nextQueue, ctr)" by (cases s) auto
  let ?t = "start + arrivalOffset rate (due - 1)"
  let ?missed = "due - 1 - sequence"
  define ctr1 where "ctr1 = (if ?missed > 0 then rejectSchedulerLate ?missed (timeSub now scheduled) (ctr\<lparr>mc_offered := mc_offered ctr + ?missed\<rparr>) else ctr)"
  have inv: "dispatchInv start rate maxLateness sequence (queues, nextQueue, ctr)" using assms(1) s by simp
  then have q: "queuesOk start rate sequence (map q_sent queues)" by (simp add: dispatchInv_def dispatchInv_queuesOk)
  have inv1: "mc_offered ctr1 = due - 1" "mc_offered ctr1 = sentTotal queues + mc_rejected ctr1"
    "mc_rejected ctr1 = mc_queueOverflows ctr1 + mc_schedulerLate ctr1"
    "0 \<le> mc_queueOverflows ctr1" "0 \<le> mc_schedulerLate ctr1" "0 \<le> mc_schedulerMaxLateness ctr1"
    "mc_schedulerLate ctr1 = 0 \<longrightarrow> mc_schedulerMaxLateness ctr1 \<le> maxLateness"
    "mc_achieved ctr1 = 0" "mc_postWindow ctr1 = 0" "mc_errors ctr1 = 0" "mc_mismatches ctr1 = 0"
    using inv assms(4,5) by (auto simp: dispatchInv_def ctr1_def)
  let ?l = "timeSub now ?t"
  let ?ctr2 = "(recordSchedulerMaxLateness ?l ctr1)\<lparr>mc_offered := mc_offered (recordSchedulerMaxLateness ?l ctr1) + 1\<rparr>"
  have due: "offerDue clock c maxLateness now sequence due scheduled ?t s =
    (if ?l > maxLateness then (queues, nextQueue, rejectSchedulerLate 1 ?l ?ctr2)
     else case offerArrival (drained clock c queues) nextQueue ?t of
       (queues, nextQueue, accepted) \<Rightarrow> (queues, nextQueue, if accepted then ?ctr2
         else ?ctr2\<lparr>mc_rejected := mc_rejected ?ctr2 + 1, mc_queueOverflows := mc_queueOverflows ?ctr2 + 1\<rparr>))"
    unfolding s offerDue_def by (simp only: Let_def prod.case ctr1_def [symmetric])
  show ?thesis
  proof (cases "?l > maxLateness")
    case True
    have "queuesOk start rate due (map q_sent queues)" using queuesOk_mono [OF q] assms(5) by simp
    then show ?thesis using True inv1 assms(6)
      unfolding due dispatchInv_def dispatchInv_queuesOk by (simp add: dispatchInv_queuesOk)
  next
    case False
    obtain queues' nextQueue' accepted where o: "offerArrival (drained clock c queues) nextQueue ?t = (queues', nextQueue', accepted)"
      by (metis prod.exhaust)
    have cases: "(\<not> accepted \<and> map q_sent queues' = map q_sent queues) \<or>
        (accepted \<and> (\<exists>i < length queues. map q_sent queues' = (map q_sent queues)[i := (map q_sent queues) ! i @ [?t]]))"
    proof -
      have "length (drained clock c queues) = length queues" using arg_cong [OF drained_sent, of length clock c queues] by simp
      moreover have "q_sent (drained clock c queues ! i) = map q_sent queues ! i" if "i < length queues" for i
        using that calculation drained_sent [of clock c queues] by (metis nth_map)
      ultimately show ?thesis using offerArrival_cases [OF o] drained_sent [of clock c queues] by auto
    qed
    have total: "sentTotal queues' = sentTotal queues + (if accepted then 1 else 0)"
      using cases by (auto simp: sentTotal_map map_update sum_list_update_int simp del: map_map)
    have ok: "queuesOk start rate due (map q_sent queues')"
      using cases queuesOk_append [OF q _ assms(2-5)] queuesOk_mono [OF q] assms(5) by auto
    show ?thesis using False inv1 assms(6) total ok
      unfolding due o dispatchInv_def by (cases accepted) (simp_all add: dispatchInv_queuesOk)
  qed
qed

text \<open>However the loop ends, the accounts are in order; when it ends without an error, all the arrivals have been offered.\<close>

lemma dispatchLoop_inv:
  assumes "dispatchLoop clock start end' rate maxLateness total' sequence c s = (e, c', s')"
    "dispatchInv start rate maxLateness sequence s" "0 \<le> sequence" "sequence \<le> total'" "0 < maxLateness"
    "0 < rate" "rate \<le> MaxOpenLoopRate" "int64_range (end' - start)" "total' = arrivalCount rate (end' - start)"
  shows "\<exists>n \<le> total'. dispatchInv start rate maxLateness n s' \<and> (e = None \<longrightarrow> n = total')"
  using assms
proof (induction clock start end' rate maxLateness total' sequence c s rule: dispatchLoop.induct)
  case (1 clock start end' rate maxLateness total' sequence c s)
  show ?case
  proof (cases "sequence < total'")
    case False
    then show ?thesis using 1(2,3,5) by (subst (asm) dispatchLoop.simps) (auto intro: exI [of _ sequence])
  next
    case True
    have exact: "scheduledArrival start n rate = Inr (start + arrivalOffset rate n)" if "0 \<le> n" "n < total'" for n
      using that 1(7-10) scheduledArrival_exact [OF that(1) 1(7,8)] less_arrivalCount [OF 1(7)]
      by (simp add: int64_range_def maxInt64_def)
    let ?sched = "start + arrivalOffset rate sequence"
    obtain now1 c1 where now1: "ck_now clock c = (now1, c1)" by (cases "ck_now clock c")
    obtain now c2 where now: "(if now1 < ?sched then ck_now clock (ck_waitUntil clock ?sched c1) else (now1, c1)) = (now, c2)"
      by (metis prod.exhaust)
    note unfolded = 1(2) [unfolded dispatchLoop.simps [of clock start end' rate maxLateness total' sequence c s]
        exact [OF 1(4) True] Let_def now1 prod.case now sum.case if_P [OF True]]
    show ?thesis
    proof (cases "end' \<le> now")
      case late: True
      obtain queues nextQueue ctr where s: "s = (queues, nextQueue, ctr)" by (cases s) auto
      have s': "e = None" "s' = (queues, nextQueue, rejectSchedulerLate (total' - sequence) (timeSub now ?sched)
          (ctr\<lparr>mc_offered := mc_offered ctr + (total' - sequence)\<rparr>))"
        using unfolded late s by auto
      have "queuesOk start rate total' (map q_sent queues)"
        using 1(3) queuesOk_mono [of start rate sequence _ total'] True s by (simp add: dispatchInv_def dispatchInv_queuesOk)
      then have "dispatchInv start rate maxLateness total' s'"
        using 1(3) True unfolding s s'(2) dispatchInv_def dispatchInv_queuesOk by (simp add: dispatchInv_queuesOk)
      then show ?thesis by auto
    next
      case early: False
      show ?thesis
      proof (cases "scheduledArrivalsThrough start now rate")
        case (Inl x)
        then show ?thesis using unfolded early True 1(3) by (auto intro: exI [of _ sequence])
      next
        case (Inr n)
        let ?due = "min n total'"
        show ?thesis
        proof (cases "?due \<le> sequence")
          case True
          then show ?thesis using unfolded early Inr 1(3,5) by (auto intro: exI [of _ sequence])
        next
          case False
          then have due: "sequence < ?due" "0 \<le> ?due - 1" "?due - 1 < total'" "?due \<le> total'" "0 \<le> ?due" using 1(4) by auto
          note IH = 1(1) [OF True exact [OF 1(4) True] now1 [symmetric] refl now [symmetric] refl early Inr refl False exact [OF due(2,3)]]
          show ?thesis
            using unfolded early Inr False exact [OF due(2,3)]
            by (intro IH) (use offerDue_inv [OF 1(3,7,8,4) due(1) 1(6)] due 1(6-10) in \<open>simp_all\<close>)
        qed
      qed
    qed
  qed
qed

section \<open>The workers\<close>

text \<open>What no worker touches, and what each received arrival adds to.\<close>

definition sameOffers :: "measurementCounters \<Rightarrow> measurementCounters \<Rightarrow> bool" where
  "sameOffers a b \<longleftrightarrow> mc_offered a = mc_offered b \<and> mc_rejected a = mc_rejected b \<and> mc_queueOverflows a = mc_queueOverflows b \<and>
     mc_schedulerLate a = mc_schedulerLate b \<and> mc_schedulerMaxLateness a = mc_schedulerMaxLateness b"

definition outcomes :: "measurementCounters \<Rightarrow> int" where
  "outcomes c = mc_achieved c + mc_postWindow c + mc_errors c"

definition growing :: "measurementCounters \<Rightarrow> measurementCounters \<Rightarrow> bool" where
  "growing a b \<longleftrightarrow> mc_achieved a \<le> mc_achieved b \<and> mc_postWindow a \<le> mc_postWindow b \<and> mc_errors a \<le> mc_errors b \<and>
     mc_mismatches a \<le> mc_mismatches b"

lemma recordExchangeError_outcome:
  "sameOffers c (recordExchangeError e c)" "outcomes (recordExchangeError e c) = outcomes c + 1" "growing c (recordExchangeError e c)"
  "mc_achieved (recordExchangeError e c) = mc_achieved c"
  by (cases e; simp add: recordExchangeError_def sameOffers_def outcomes_def growing_def)+

lemma worker_trans: "sameOffers a b \<Longrightarrow> sameOffers b c \<Longrightarrow> sameOffers a c" "growing a b \<Longrightarrow> growing b c \<Longrightarrow> growing a c"
  by (auto simp: sameOffers_def growing_def)

lemma openLoopWorker_outcomes:
  assumes "openLoopWorker lib client payload end' readings i queue (k, r, ctr) = (k', r', ctr')" "recorderOk r"
  shows "sameOffers ctr ctr' \<and> growing ctr ctr' \<and> outcomes ctr' = outcomes ctr + int (length queue) \<and> recorderOk r' \<and>
    recorderSeen r' - recorderSeen r = mc_achieved ctr' - mc_achieved ctr"
  using assms
proof (induction queue arbitrary: i k r ctr)
  case Nil
  then show ?case by (auto simp: sameOffers_def growing_def)
next
  case (Cons offered queue)
  obtain started received where t: "readings i = (started, received)" by fastforce
  show ?case
  proof (cases "end' \<le> started")
    case True
    let ?ctr = "ctr\<lparr>mc_postWindow := mc_postWindow ctr + 1\<rparr>"
    have "sameOffers ctr ?ctr" "growing ctr ?ctr" "outcomes ?ctr = outcomes ctr + 1"
      by (simp_all add: sameOffers_def growing_def outcomes_def)
    then show ?thesis using Cons.IH [of "Suc i" k r ?ctr] Cons.prems True t by (auto intro: worker_trans)
  next
    case False
    obtain res k1 where x: "exchange client payload started received k = (res, k1)" by fastforce
    show ?thesis
    proof (cases res)
      case (Inl e)
      then show ?thesis using Cons.IH [of "Suc i" k1 r "recordExchangeError e ctr"] Cons.prems False t x
          recordExchangeError_outcome [where e = e and c = ctr] by (auto intro: worker_trans)
    next
      case (Inr latency)
      let ?ctr = "ctr\<lparr>mc_achieved := mc_achieved ctr + 1\<rparr>" and ?r = "Record lib latency (timeSub (started + latency) offered) r"
      have "sameOffers ctr ?ctr" "growing ctr ?ctr" "outcomes ?ctr = outcomes ctr + 1"
        by (simp_all add: sameOffers_def growing_def outcomes_def)
      then show ?thesis using Cons.IH [of "Suc i" k1 ?r ?ctr] Cons.prems False t x Inr Record_ok [where r = r]
        by (auto intro: worker_trans)
    qed
  qed
qed

definition seenTotal :: "('k, 'h) connection list \<Rightarrow> int" where
  "seenTotal cns = sum_list (map (\<lambda>cn. recorderSeen (cn_recorder cn)) cns)"

lemma runWorkers_outcomes:
  assumes "runWorkers lib client end' queues cns ctr = (cns', ctr')" "length queues = length cns"
    "list_all (\<lambda>cn. recorderOk (cn_recorder cn)) cns"
  shows "sameOffers ctr ctr' \<and> growing ctr ctr' \<and> outcomes ctr' = outcomes ctr + sentTotal queues \<and>
    list_all (\<lambda>cn. recorderOk (cn_recorder cn)) cns' \<and> seenTotal cns' - seenTotal cns = mc_achieved ctr' - mc_achieved ctr"
  using assms
proof (induction queues arbitrary: cns ctr cns' ctr')
  case Nil
  then show ?case by (auto simp: sameOffers_def growing_def sentTotal_def)
next
  case (Cons q qs)
  then obtain cn rest where cns: "cns = cn # rest" by (cases cns) auto
  obtain k r ctr1 where w: "openLoopWorker lib client (cn_payload cn) end' (cn_readings cn) 0 (q_sent q)
      (cn_client cn, cn_recorder cn, ctr) = (k, r, ctr1)" by (metis prod.exhaust)
  obtain rest' where rest: "runWorkers lib client end' qs rest ctr1 = (rest', ctr')" "cns' = cn\<lparr>cn_client := k, cn_recorder := r\<rparr> # rest'"
    using Cons.prems(1) cns w by (auto split: prod.splits)
  have ok: "recorderOk (cn_recorder cn)" using Cons.prems(3) cns by simp
  show ?case
    using Cons.IH [OF rest(1)] openLoopWorker_outcomes [OF w ok] Cons.prems(2,3) cns rest(2)
    by (auto simp: sentTotal_def seenTotal_def intro: worker_trans)
qed

section \<open>The accounts of a run\<close>

lemma length_dispatchInv: "sentTotal (replicate n \<lparr>q_sent = [], q_received = 0\<rparr>) = 0"
  by (simp add: sentTotal_def sum_list_replicate)

lemma offerDue_length: "length (fst (offerDue clock c maxLateness now sequence due scheduled t s)) = length (fst s)"
  using arg_cong [OF drained_sent [of clock c "fst s"], of length]
  by (cases s) (auto simp: offerDue_def offerArrival_def Let_def split: prod.splits if_splits)

lemma dispatchLoop_length:
  "dispatchLoop clock start end' rate maxLateness total' sequence c s = (e, c', s') \<Longrightarrow> length (fst s') = length (fst s)"
proof (induction clock start end' rate maxLateness total' sequence c s rule: dispatchLoop.induct)
  case (1 clock start end' rate maxLateness total' sequence c s)
  obtain now1 c1 where now1: "ck_now clock c = (now1, c1)" by (cases "ck_now clock c")
  show ?case
    using 1(2) 1(1) [OF _ _ now1 [symmetric] refl _ refl]
    by (subst (asm) dispatchLoop.simps)
       (auto simp: now1 Let_def offerDue_length split: if_splits sum.splits prod.splits)
qed

lemma dispatchOpenLoop_inv:
  assumes "dispatchOpenLoop queues start end' rate maxLateness zeroCounters clock c = (None, c', queues', ctr)"
    "queues = replicate n \<lparr>q_sent = [], q_received = 0\<rparr>" "int64_range (end' - start)"
  shows "OpenLoopOfferedMessages (end' - start) rate = Inr (mc_offered ctr) \<and>
    dispatchInv start rate maxLateness (mc_offered ctr) (queues', 0, ctr) \<and> length queues' = n \<and> 0 < maxLateness"
proof -
  obtain now c1 where now: "ck_now clock c = (now, c1)" by (cases "ck_now clock c")
  have par: "start < end'" "0 < maxLateness" "0 < rate" "rate \<le> MaxOpenLoopRate"
    using assms(1) by (auto simp: dispatchOpenLoop_def split: if_splits)
  have d: "timeSub end' start = end' - start" using assms(3) by (simp add: timeSub_def int64_range_def)
  let ?n = "arrivalCount rate (end' - start)"
  have count: "OpenLoopOfferedMessages (end' - start) rate = Inr ?n" "0 < ?n"
    using OpenLoopOfferedMessages_exact [of "end' - start" rate] par assms(3) by (simp_all add: arrivalCount_def)
  obtain nextQueue where loop: "dispatchLoop clock start end' rate maxLateness ?n 0 c1 (queues, 0, zeroCounters) = (None, c', queues', nextQueue, ctr)"
    using assms(1) par count d by (auto simp: dispatchOpenLoop_def now Let_def split: if_splits prod.splits)
  have inv: "dispatchInv start rate maxLateness 0 (queues, 0, zeroCounters)"
    using par(2) unfolding assms(2) by (simp add: dispatchInv_def zeroCounters_def length_dispatchInv list_all_iff)
  have "dispatchInv start rate maxLateness ?n (queues', nextQueue, ctr)"
    using dispatchLoop_inv [OF loop inv] par assms(3) count(2) by auto
  then have "dispatchInv start rate maxLateness ?n (queues', 0, ctr)" "mc_offered ctr = ?n" by (simp_all add: dispatchInv_def)
  then show ?thesis using count(1) par(2) dispatchLoop_length [OF loop] assms(2) by simp
qed

text \<open>Counters in which every offered message has one outcome pass the validation of a result that is made of them.\<close>

lemma accountingErr_withCounts:
  assumes "mc_offered ctr = mc_achieved ctr + mc_rejected ctr + (mc_postWindow ctr + mc_errors ctr)"
    "mc_rejected ctr = mc_queueOverflows ctr + mc_schedulerLate ctr" "0 < mc_achieved ctr" "0 \<le> mc_postWindow ctr" "0 \<le> mc_errors ctr"
    "0 \<le> mc_mismatches ctr" "0 \<le> mc_queueOverflows ctr" "0 \<le> mc_schedulerLate ctr" "0 \<le> mc_schedulerMaxLateness ctr"
    "mc_schedulerLate ctr = 0 \<longrightarrow> mc_schedulerMaxLateness ctr \<le> r_LatenessLimit r" "int64_range (mc_offered ctr)" "0 \<le> drain"
    "r_Arrival r = ''open_loop''" "0 < r_LatenessLimit r" "OpenLoopOfferedMessages (r_Duration r) (r_RequestedRate r) = Inr (mc_offered ctr)"
  shows "accountingErr (withCounts ctr (mc_postWindow ctr + mc_errors ctr) drain r) = None"
proof -
  let ?r = "withCounts ctr (mc_postWindow ctr + mc_errors ctr) drain r"
  have r: "r_Messages ?r = mc_achieved ctr" "r_Offered ?r = mc_offered ctr" "r_Achieved ?r = mc_achieved ctr"
    "r_Rejected ?r = mc_rejected ctr" "r_Dropped ?r = mc_postWindow ctr + mc_errors ctr"
    "r_QueueOverflows ?r = mc_queueOverflows ctr" "r_SchedulerLate ?r = mc_schedulerLate ctr"
    "r_PostWindow ?r = mc_postWindow ctr" "r_MaxLateness ?r = mc_schedulerMaxLateness ctr" "r_MeasurementDrain ?r = drain"
    "r_VerificationMismatches ?r = mc_mismatches ctr" "r_Errors ?r = mc_errors ctr" "r_Arrival ?r = r_Arrival r"
    "r_Duration ?r = r_Duration r" "r_RequestedRate ?r = r_RequestedRate r" "r_LatenessLimit ?r = r_LatenessLimit r"
    by (simp_all add: withCounts_def)
  have sums: "i64 (i64 (mc_achieved ctr + mc_rejected ctr) + (mc_postWindow ctr + mc_errors ctr)) = mc_offered ctr"
    "i64 (mc_queueOverflows ctr + mc_schedulerLate ctr) = mc_rejected ctr"
    using assms(1-11) by (simp_all add: i64_id int64_range_def)
  have "firstErr
      (map (\<lambda>(name, value). (value < 0, NegativeCount name)) (resultCounts ?r) @
      [(r_Messages ?r \<noteq> r_Achieved ?r, MessagesNotAchieved), (r_Achieved ?r \<le> 0, NothingAchieved),
       (r_Offered ?r \<noteq> i64 (i64 (r_Achieved ?r + r_Rejected ?r) + r_Dropped ?r), OfferedErr),
       (r_Rejected ?r \<noteq> i64 (r_QueueOverflows ?r + r_SchedulerLate ?r), RejectedErr),
       (r_PostWindow ?r > r_Dropped ?r, PostWindowErr)]) = None"
    unfolding firstErr_None resultCounts_def r sums using assms(1-9,12,14) by simp
  then show ?thesis using assms(10,13-15) unfolding accountingErr_def r by (auto simp: not_less)
qed

text \<open>C23: The open loop accounts for every message. Whatever the clock reads, however far the workers are with their queues at any time and
  however each exchange ends: when a measurement ends without an error, it has offered exactly the scheduled number of messages, those
  that were neither rejected nor echoed are the ones reported as dropped, namely those found after the window or lost
  to an error, the latency recorders have seen each echoed one, and the result
  passes the accounting tests of \<^verbatim>\<open>Validate\<close> if anything was echoed at all.\<close>

theorem open_loop_accounts:
  assumes "measureOpenLoop lib client start end' rate maxLateness clock c cns zeroCounters = (None, cns', ctr)"
    "list_all (\<lambda>cn. recorderOk (cn_recorder cn) \<and> recorderSeen (cn_recorder cn) = 0) cns" "int64_range (end' - start)"
    "r_Arrival r = ''open_loop''" "r_Duration r = end' - start" "r_RequestedRate r = rate" "r_LatenessLimit r = maxLateness" "0 \<le> drain"
  shows "OpenLoopOfferedMessages (end' - start) rate = Inr (mc_offered ctr) \<and>
    droppedMessages ctr = Some (mc_postWindow ctr + mc_errors ctr) \<and> seenTotal cns' = mc_achieved ctr \<and>
    (0 < mc_achieved ctr \<longrightarrow> accountingErr (withCounts ctr (mc_postWindow ctr + mc_errors ctr) drain r) = None)"
proof -
  obtain now c1 where now: "ck_now clock c = (now, c1)" by (cases "ck_now clock c")
  let ?queues = "replicate (length cns) \<lparr>q_sent = [], q_received = 0\<rparr>"
  obtain c2 queues ctr0 where
    disp: "dispatchOpenLoop ?queues start end' rate maxLateness zeroCounters clock c1 = (None, c2, queues, ctr0)"
    and run: "runWorkers lib client end' queues cns ctr0 = (cns', ctr)"
    using assms(1) by (auto simp: measureOpenLoop_def now Let_def split: if_splits prod.splits)
  have D: "OpenLoopOfferedMessages (end' - start) rate = Inr (mc_offered ctr0)"
    "dispatchInv start rate maxLateness (mc_offered ctr0) (queues, 0, ctr0)" "length queues = length cns" "0 < maxLateness"
    using dispatchOpenLoop_inv [OF disp refl assms(3)] by auto
  have ok: "list_all (\<lambda>cn. recorderOk (cn_recorder cn)) cns" using assms(2) by (simp add: list_all_iff)
  have seen0: "seenTotal cns = 0" using assms(2) by (induction cns) (simp_all add: seenTotal_def)
  have W: "sameOffers ctr0 ctr" "growing ctr0 ctr" "outcomes ctr = outcomes ctr0 + sentTotal queues"
    "seenTotal cns' = mc_achieved ctr - mc_achieved ctr0"
    using runWorkers_outcomes [OF run D(3) ok] seen0 by simp_all
  have zero: "mc_achieved ctr0 = 0" "mc_postWindow ctr0 = 0" "mc_errors ctr0 = 0" "mc_mismatches ctr0 = 0"
    and acc: "mc_offered ctr0 = sentTotal queues + mc_rejected ctr0" "mc_rejected ctr0 = mc_queueOverflows ctr0 + mc_schedulerLate ctr0"
      "0 \<le> mc_queueOverflows ctr0" "0 \<le> mc_schedulerLate ctr0" "0 \<le> mc_schedulerMaxLateness ctr0"
      "mc_schedulerLate ctr0 = 0 \<longrightarrow> mc_schedulerMaxLateness ctr0 \<le> maxLateness"
    using D(2) by (simp_all add: dispatchInv_def)
  have same: "mc_offered ctr = mc_offered ctr0" "mc_rejected ctr = mc_rejected ctr0" "mc_queueOverflows ctr = mc_queueOverflows ctr0"
    "mc_schedulerLate ctr = mc_schedulerLate ctr0" "mc_schedulerMaxLateness ctr = mc_schedulerMaxLateness ctr0"
    using W(1) by (simp_all add: sameOffers_def)
  have nonneg: "0 \<le> mc_achieved ctr" "0 \<le> mc_postWindow ctr" "0 \<le> mc_errors ctr" "0 \<le> mc_mismatches ctr"
    using W(2) zero by (simp_all add: growing_def)
  have offered: "mc_offered ctr = mc_achieved ctr + mc_rejected ctr + (mc_postWindow ctr + mc_errors ctr)"
    using W(3) acc(1) zero same by (simp add: outcomes_def)
  have "mc_offered ctr \<le> end' - start"
    using D(1) OpenLoopOfferedMessages_exact(1,3) [of "end' - start" rate] assms(3) same(1)
    by (auto simp: OpenLoopOfferedMessages_def split: if_splits)
  then have range: "int64_range (mc_offered ctr)" using assms(3) nonneg offered acc same by (auto simp: int64_range_def)
  have dropped: "droppedMessages ctr = Some (mc_postWindow ctr + mc_errors ctr)"
    using offered nonneg by (simp add: droppedMessages_def Let_def)
  have "accountingErr (withCounts ctr (mc_postWindow ctr + mc_errors ctr) drain r) = None" if "0 < mc_achieved ctr"
    by (rule accountingErr_withCounts [OF offered _ that nonneg(2-4) _ _ _ _ range assms(8,4)]) (use acc same D(1,4) assms(5-7) in simp_all)
  then show ?thesis using D(1) W(4) dropped zero(1) same(1) by simp
qed

section \<open>The dispatcher completes\<close>

text \<open>A clock that, when it has waited until a time, reads at least that time.\<close>

definition waits :: "'c openLoopClock \<Rightarrow> bool" where
  "waits clock \<longleftrightarrow> (\<forall>t c. t \<le> fst (ck_now clock (ck_waitUntil clock t c)))"

lemma dispatchLoop_completes:
  assumes "waits clock" "0 < rate" "rate \<le> MaxOpenLoopRate" "int64_range (end' - start)" "0 \<le> sequence"
    "total' = arrivalCount rate (end' - start)"
  shows "fst (dispatchLoop clock start end' rate maxLateness total' sequence c s) = None"
  using assms
proof (induction clock start end' rate maxLateness total' sequence c s rule: dispatchLoop.induct)
  case (1 clock start end' rate maxLateness total' sequence c s)
  show ?case
  proof (cases "sequence < total'")
    case False
    then show ?thesis by (subst dispatchLoop.simps) simp
  next
    case True
    have exact: "scheduledArrival start n rate = Inr (start + arrivalOffset rate n)" if "0 \<le> n" "n < total'" for n
      using that 1(3-5,7) scheduledArrival_exact [OF that(1) 1(3,4)] less_arrivalCount [OF 1(3)]
      by (simp add: int64_range_def maxInt64_def)
    let ?sched = "start + arrivalOffset rate sequence"
    obtain now1 c1 where now1: "ck_now clock c = (now1, c1)" by (cases "ck_now clock c")
    obtain now c2 where now: "(if now1 < ?sched then ck_now clock (ck_waitUntil clock ?sched c1) else (now1, c1)) = (now, c2)"
      by (metis prod.exhaust)
    have reached: "?sched \<le> now"
      using now 1(2) by (auto simp: waits_def split: if_splits) (metis fst_conv)
    note unfolded = dispatchLoop.simps [of clock start end' rate maxLateness total' sequence c s,
        unfolded exact [OF 1(6) True] Let_def now1 prod.case now sum.case if_P [OF True]]
    show ?thesis
    proof (cases "end' \<le> now")
      case True
      then show ?thesis unfolding unfolded by (simp split: prod.split)
    next
      case early: False
      have start: "start \<le> now" using reached arrivalOffset_nonneg [OF 1(3,6)] by simp
      have "now - start < maxInt64" using early 1(5) by (simp add: int64_range_def maxInt64_def)
      then have n: "scheduledArrivalsThrough start now rate = Inr (arrivalCount rate (now - start + 1))"
        using scheduledArrivalsThrough_exact [OF 1(3,4) start] by simp
      let ?due = "min (arrivalCount rate (now - start + 1)) total'"
      have due: "\<not> ?due \<le> sequence" "0 \<le> ?due - 1" "?due - 1 < total'" "0 \<le> ?due"
        using True 1(6) reached less_arrivalCount [OF 1(3), of sequence "now - start + 1"] by auto
      note IH = 1(1) [OF True exact [OF 1(6) True] now1 [symmetric] refl now [symmetric] refl early n refl due(1) exact [OF due(2,3)]]
      show ?thesis unfolding unfolded n sum.case if_not_P [OF early] if_not_P [OF due(1)] exact [OF due(2,3)]
        by (rule IH) (use 1(2-7) due in \<open>simp_all\<close>)
    qed
  qed
qed

text \<open>The open loop never gives up. With settings that \<^verbatim>\<open>validateShape\<close> accepts, any number of connections and a clock that does not
  read less than the time it was told to wait for, but may otherwise jump and stand still as it likes, the dispatcher works through the whole schedule: the
  measurement reports no error, unless its window had passed before it began.\<close>

theorem open_loop_completes:
  assumes "validateShape ''open_loop'' (int (length cns)) payload inflight rate maxLateness warmup (end' - start) = None"
    "int64_range (end' - start)" "waits clock"
  shows "fst (measureOpenLoop lib client start end' rate maxLateness clock c cns ctr) \<in> {None, Some WindowExpired}"
proof -
  obtain now c1 where now: "ck_now clock c = (now, c1)" by (cases "ck_now clock c")
  obtain now' c2 where now': "ck_now clock c1 = (now', c2)" by (cases "ck_now clock c1")
  have par: "0 < length cns" "start < end'" "0 < maxLateness" "0 < rate" "rate \<le> MaxOpenLoopRate" "maxLateness \<le> second sdiv rate"
    using assms(1) by (auto simp: validateShape_def firstErr_None)
  have d: "timeSub end' start = end' - start" using assms(2) by (simp add: timeSub_def int64_range_def)
  let ?n = "arrivalCount rate (end' - start)"
  have count: "OpenLoopOfferedMessages (end' - start) rate = Inr ?n"
    using OpenLoopOfferedMessages_exact(1) [of "end' - start" rate] par assms(2) by (simp add: arrivalCount_def)
  have "fst (dispatchLoop clock start end' rate maxLateness ?n 0 c2 s) = None" for s
    by (rule dispatchLoop_completes [OF assms(3) par(4,5) assms(2)]) simp_all
  then have "fst (dispatchOpenLoop queues start end' rate maxLateness ctr clock c1) \<in> {None, Some WindowExpired}" if "queues \<noteq> []" for queues
    using that par count d by (auto simp: dispatchOpenLoop_def now' Let_def split: prod.splits) (metis fst_conv option.distinct(1))
  from this [of "replicate (length cns) \<lparr>q_sent = [], q_received = 0\<rparr>"] show ?thesis
    using par(1) by (auto simp: measureOpenLoop_def now Let_def split: prod.splits)
qed

text \<open>A clock that stands still unless it is waited on, one connection to a client that echoes, and three arrivals in three nanoseconds.\<close>

definition demoClock :: "int openLoopClock" where
  "demoClock = \<lparr>ck_now = (\<lambda>c. (c, c)), ck_waitUntil = (\<lambda>t c. max t c), ck_received = (\<lambda>c i. nat c)\<rparr>"

definition demoClient :: "(bytes, unit) wsClient" where
  "demoClient = \<lparr>wc_WriteMessage = (\<lambda>p k. (None, p)), wc_ReadMessage = (\<lambda>k. (Inr k, k)), wc_SetDeadline = (\<lambda>t k. (None, k)),
     wc_Close = (\<lambda>k. (None, k))\<rparr>"

definition demoConnection :: "(bytes, unit) connection" where
  "demoConnection = \<lparr>cn_client = [], cn_recorder = \<lparr>lr_raw = (), lr_corrected = (), lr_rawCounts = noCounts, lr_corCounts = noCounts\<rparr>,
     cn_payload = [1, 2, 3], cn_readings = (\<lambda>i. (int i, int i + 1))\<rparr>"

lemma demoClock_waits: "waits demoClock"
  by (simp add: waits_def demoClock_def)

lemma demoSettings: "validateShape ''open_loop'' (int (length [demoConnection])) 3 1 1000000000 1 0 (3 - 0) = None"
  by (simp add: validateShape_def firstErr_None MaxInflightBytes_def MaxOpenLoopRate_def second_def signed_divide_int_def)

theorem open_loop_completes_witness:
  "fst (measureOpenLoop demoHistogram demoClient 0 3 1000000000 1 demoClock 0 [demoConnection] zeroCounters) \<in> {None, Some WindowExpired}"
  using open_loop_completes [OF demoSettings _ demoClock_waits] by (simp add: int64_range_def)

lemma demoRun:
  "\<exists>cns ctr. measureOpenLoop demoHistogram demoClient 0 3 1000000000 1 demoClock 0 [demoConnection] zeroCounters = (None, cns, ctr) \<and>
    mc_achieved ctr = 3"
  by (simp add: measureOpenLoop_def dispatchOpenLoop_def dispatchLoop.simps demoClock_def demoClient_def demoConnection_def
    demoHistogram_def scheduledArrival_def scheduledArrivalsThrough_def OpenLoopOfferedMessages_def signed_divide_int_def signed_modulo_int_def
    i64_def second_def maxInt64_def MaxOpenLoopRate_def timeSub_def offerDue_def offerArrival_def drained_def Let_def
    recordSchedulerMaxLateness_def rejectSchedulerLate_def zeroCounters_def exchange_def VerifyEcho_def)

definition demoResult :: "unit LoadgenResult" where
  "demoResult = exampleResult ()"

theorem open_loop_accounts_witness:
  "\<exists>cns ctr. measureOpenLoop demoHistogram demoClient 0 3 1000000000 1 demoClock 0 [demoConnection] zeroCounters = (None, cns, ctr) \<and>
    mc_achieved ctr = 3 \<and> seenTotal cns = 3 \<and> accountingErr (withCounts ctr (mc_postWindow ctr + mc_errors ctr) 0 demoResult) = None"
proof -
  obtain cns ctr where run: "measureOpenLoop demoHistogram demoClient 0 3 1000000000 1 demoClock 0 [demoConnection] zeroCounters = (None, cns, ctr)"
    "mc_achieved ctr = 3" using demoRun by blast
  have cn: "list_all (\<lambda>cn. recorderOk (cn_recorder cn) \<and> recorderSeen (cn_recorder cn) = 0) [demoConnection]"
    by (simp add: demoConnection_def recorderOk_def recorderSeen_def)
  show ?thesis
    using open_loop_accounts [OF run(1) cn, of demoResult 0] run
    by (auto simp: int64_range_def demoResult_def exampleResult_def)
qed

end
