(* ===== verification/Load_Pipeline.thy ===== *)
theory Load_Pipeline
  imports Load_Schedule
begin

text \<open>
  A pipelined connection of the load generator, \<^verbatim>\<open>measurePipelineConnection\<close> of \<^verbatim>\<open>bench/harness/cmd/loadgen/main.go\<close>: a goroutine that
  writes as long as it has credits and one that reads the echoes and gives the credits back, as a step relation. A step
  is one operation on a channel or one call; what the client and the clock answer is open.
\<close>

section \<open>Two goroutines\<close>

text \<open>Where the writer is: its two selects, the clock, the write, the three operations that end it.\<close>

datatype writer = WSelect | WClock | WPutBack | WWrite int | WSend int | WCloseSent | WSignal | WDone

text \<open>Where the reader is: ranging over \<^verbatim>\<open>sent\<close>, reading, giving back the credit, stopping, waiting for the writer.\<close>

datatype reader = RRange | RRead int | RCredit | RStop | RWait | RDone

record 'h pipeline =
  p_credits :: nat
  p_sent :: "int list"
  p_sentClosed :: bool
  p_stop :: bool
  p_ended :: bool
  p_writerDone :: bool
  p_writer :: writer
  p_reader :: reader
  p_recorder :: "'h LatencyRecorder"
  p_counters :: measurementCounters

definition startPipeline :: "nat \<Rightarrow> 'h LatencyRecorder \<Rightarrow> 'h pipeline" where
  "startPipeline inflight r =
     \<lparr>p_credits = inflight, p_sent = [], p_sentClosed = False, p_stop = False, p_ended = False, p_writerDone = False,
      p_writer = WSelect, p_reader = RRange, p_recorder = r, p_counters = zeroCounters\<rparr>"

text \<open>The channels \<^verbatim>\<open>credits\<close> and \<^verbatim>\<open>sent\<close> have the capacity \<open>inflight\<close>; a send to a full channel blocks. The clock reads a time before the end of the window only while the timer has not fired.\<close>

inductive pipeStep :: "nat \<Rightarrow> 'h hdrhistogram \<Rightarrow> bytes \<Rightarrow> 'h pipeline \<Rightarrow> 'h pipeline \<Rightarrow> bool"
  for inflight lib payload where
  w_stop: "p_writer s = WSelect \<Longrightarrow> p_stop s \<Longrightarrow> pipeStep inflight lib payload s (s\<lparr>p_writer := WCloseSent\<rparr>)"
| w_end: "p_writer s = WSelect \<Longrightarrow> p_ended s \<Longrightarrow> pipeStep inflight lib payload s (s\<lparr>p_writer := WCloseSent\<rparr>)"
| w_credit: "p_writer s = WSelect \<Longrightarrow> p_credits s = Suc n \<Longrightarrow>
    pipeStep inflight lib payload s (s\<lparr>p_credits := n, p_writer := WClock\<rparr>)"
| w_late: "p_writer s = WClock \<Longrightarrow> pipeStep inflight lib payload s (s\<lparr>p_writer := WPutBack\<rparr>)"
| w_putback: "p_writer s = WPutBack \<Longrightarrow> p_credits s < inflight \<Longrightarrow>
    pipeStep inflight lib payload s (s\<lparr>p_credits := Suc (p_credits s), p_writer := WCloseSent\<rparr>)"
| w_offer: "p_writer s = WClock \<Longrightarrow> \<not> p_ended s \<Longrightarrow>
    pipeStep inflight lib payload s (s\<lparr>p_writer := WWrite started, p_counters := (p_counters s)\<lparr>mc_offered := mc_offered (p_counters s) + 1\<rparr>\<rparr>)"
| w_fail: "p_writer s = WWrite started \<Longrightarrow>
    pipeStep inflight lib payload s (s\<lparr>p_writer := WCloseSent, p_counters := recordExchangeError (PlainErr ()) (p_counters s)\<rparr>)"
| w_written: "p_writer s = WWrite started \<Longrightarrow> pipeStep inflight lib payload s (s\<lparr>p_writer := WSend started\<rparr>)"
| w_send: "p_writer s = WSend started \<Longrightarrow> length (p_sent s) < inflight \<Longrightarrow>
    pipeStep inflight lib payload s (s\<lparr>p_sent := p_sent s @ [started], p_writer := WSelect\<rparr>)"
| w_sendStop: "p_writer s = WSend started \<Longrightarrow> p_stop s \<Longrightarrow> pipeStep inflight lib payload s (s\<lparr>p_writer := WCloseSent\<rparr>)"
| w_closeSent: "p_writer s = WCloseSent \<Longrightarrow> pipeStep inflight lib payload s (s\<lparr>p_sentClosed := True, p_writer := WSignal\<rparr>)"
| w_signal: "p_writer s = WSignal \<Longrightarrow> pipeStep inflight lib payload s (s\<lparr>p_writerDone := True, p_writer := WDone\<rparr>)"
| r_receive: "p_reader s = RRange \<Longrightarrow> p_sent s = started # rest \<Longrightarrow>
    pipeStep inflight lib payload s (s\<lparr>p_sent := rest, p_reader := RRead started\<rparr>)"
| r_closed: "p_reader s = RRange \<Longrightarrow> p_sent s = [] \<Longrightarrow> p_sentClosed s \<Longrightarrow> pipeStep inflight lib payload s (s\<lparr>p_reader := RStop\<rparr>)"
| r_fail: "p_reader s = RRead started \<Longrightarrow>
    pipeStep inflight lib payload s
      (s\<lparr>p_reader := RStop, p_stop := True, p_counters := recordExchangeError (PlainErr ()) (p_counters s)\<rparr>)"
| r_mismatch: "p_reader s = RRead started \<Longrightarrow> VerifyEcho payload echo' = Some e \<Longrightarrow>
    pipeStep inflight lib payload s
      (s\<lparr>p_reader := RStop, p_stop := True, p_counters := recordExchangeError (PlainEcho e :: unit exchangeErr) (p_counters s)\<rparr>)"
| r_echo: "p_reader s = RRead started \<Longrightarrow> VerifyEcho payload echo' = None \<Longrightarrow>
    pipeStep inflight lib payload s
      (s\<lparr>p_reader := RCredit,
         p_recorder := Record lib (timeSub received started) (timeSub received started) (p_recorder s),
         p_counters := (p_counters s)\<lparr>mc_achieved := mc_achieved (p_counters s) + 1\<rparr>\<rparr>)"
| r_credit: "p_reader s = RCredit \<Longrightarrow> p_credits s < inflight \<Longrightarrow>
    pipeStep inflight lib payload s (s\<lparr>p_credits := Suc (p_credits s), p_reader := RRange\<rparr>)"
| r_stop: "p_reader s = RStop \<Longrightarrow> pipeStep inflight lib payload s (s\<lparr>p_stop := True, p_reader := RWait\<rparr>)"
| r_wait: "p_reader s = RWait \<Longrightarrow> p_writerDone s \<Longrightarrow> pipeStep inflight lib payload s (s\<lparr>p_reader := RDone\<rparr>)"

text \<open>The timer at the end of the window fires besides.\<close>

inductive pipeReach :: "nat \<Rightarrow> 'h hdrhistogram \<Rightarrow> bytes \<Rightarrow> 'h LatencyRecorder \<Rightarrow> 'h pipeline \<Rightarrow> bool"
  for inflight lib payload r where
  start: "pipeReach inflight lib payload r (startPipeline inflight r)"
| step: "pipeReach inflight lib payload r s \<Longrightarrow> pipeStep inflight lib payload s s' \<Longrightarrow> pipeReach inflight lib payload r s'"
| timer: "pipeReach inflight lib payload r s \<Longrightarrow> pipeReach inflight lib payload r (s\<lparr>p_ended := True\<rparr>)"

section \<open>Credits\<close>

fun writerHolds :: "writer \<Rightarrow> nat" where
  "writerHolds WClock = 1"
| "writerHolds WPutBack = 1"
| "writerHolds (WWrite _) = 1"
| "writerHolds (WSend _) = 1"
| "writerHolds _ = 0"

text \<open>A credit that has not become a message yet, or is one no more.\<close>

fun writerIdle :: "writer \<Rightarrow> nat" where
  "writerIdle WClock = 1"
| "writerIdle WPutBack = 1"
| "writerIdle _ = 0"

fun readerIdle :: "reader \<Rightarrow> nat" where
  "readerIdle RCredit = 1"
| "readerIdle _ = 0"

fun readerHolds :: "reader \<Rightarrow> nat" where
  "readerHolds (RRead _) = 1"
| "readerHolds RCredit = 1"
| "readerHolds _ = 0"

fun writerEnding :: "writer \<Rightarrow> nat" where
  "writerEnding WCloseSent = 1"
| "writerEnding WSignal = 1"
| "writerEnding WDone = 1"
| "writerEnding _ = 0"

fun readerEnding :: "reader \<Rightarrow> nat" where
  "readerEnding RStop = 1"
| "readerEnding RWait = 1"
| "readerEnding RDone = 1"
| "readerEnding _ = 0"

fun sentClosing :: "writer \<Rightarrow> bool" where
  "sentClosing WSignal = True"
| "sentClosing WDone = True"
| "sentClosing _ = False"

lemma ending_bound: "writerEnding w \<le> 1" "readerEnding r \<le> 1"
  by (cases w; simp) (cases r; simp)

definition tokens :: "'h pipeline \<Rightarrow> nat" where
  "tokens s = p_credits s + writerHolds (p_writer s) + length (p_sent s) + readerHolds (p_reader s)"

text \<open>Credits are neither made nor lost while both goroutines run, and every credit not held back is a message underway.\<close>

definition pipeInv :: "nat \<Rightarrow> 'h pipeline \<Rightarrow> bool" where
  "pipeInv inflight s \<longleftrightarrow>
     tokens s \<le> inflight \<and>
     (writerEnding (p_writer s) = 0 \<longrightarrow> readerEnding (p_reader s) = 0 \<longrightarrow> tokens s = inflight) \<and>
     int (p_credits s + writerIdle (p_writer s) + readerIdle (p_reader s)) +
       (mc_offered (p_counters s) - mc_achieved (p_counters s)) = int inflight \<and>
     p_sentClosed s = sentClosing (p_writer s) \<and> p_writerDone s = (p_writer s = WDone) \<and>
     (p_reader s = RDone \<longrightarrow> p_writer s = WDone \<and> p_stop s) \<and>
     (p_reader s = RWait \<longrightarrow> p_stop s) \<and>
     (p_stop s \<longrightarrow> readerEnding (p_reader s) = 1) \<and>
     mc_mismatches (p_counters s) = 0 \<and>
     mc_errors (p_counters s) \<le> int (writerEnding (p_writer s) + readerEnding (p_reader s)) \<and>
     recorderSeen (p_recorder s) = mc_achieved (p_counters s)"

lemma pipeInv_start: "recorderSeen r = 0 \<Longrightarrow> pipeInv inflight (startPipeline inflight r)"
  by (simp add: pipeInv_def tokens_def startPipeline_def zeroCounters_def)

lemma pipeInv_step: "pipeStep inflight lib payload s s' \<Longrightarrow> pipeInv inflight s \<Longrightarrow> pipeInv inflight s'"
  by (induction rule: pipeStep.induct) (auto simp: pipeInv_def tokens_def Record_ok(2) recordExchangeError_def)

lemma pipeInv_reach: "pipeReach inflight lib payload r s \<Longrightarrow> recorderSeen r = 0 \<Longrightarrow> pipeInv inflight s"
proof (induction rule: pipeReach.induct)
  case start
  then show ?case by (rule pipeInv_start)
next
  case (step s s')
  then show ?case using pipeInv_step by blast
next
  case (timer s)
  then show ?case by (auto simp: pipeInv_def tokens_def)
qed

text \<open>C40: A pipelined connection keeps its window. In whatever order the two goroutines take their steps and however the calls end: at
  most \<^verbatim>\<open>inflight\<close> messages, together at most the cap of one MiB, are underway; no send on the channels of credits and of sent
  messages ever blocks; the recorder has seen each echoed message and only those; there are at most two errors. None of them is
  counted as a verification mismatch, even if it is one.\<close>

theorem pipeline_window:
  assumes "pipeReach inflight lib payload r s" "recorderSeen r = 0"
    "validateShape ''pipelined'' connections (int (length payload)) (int inflight) rate maxLateness warmup duration = None"
  shows "mc_offered (p_counters s) - mc_achieved (p_counters s) \<le> int inflight \<and>
    (mc_offered (p_counters s) - mc_achieved (p_counters s)) * int (length payload) \<le> MaxInflightBytes \<and>
    (p_writer s = WPutBack \<or> p_reader s = RCredit \<longrightarrow> p_credits s < inflight) \<and>
    ((\<exists>t. p_writer s = WSend t) \<longrightarrow> length (p_sent s) < inflight) \<and>
    recorderSeen (p_recorder s) = mc_achieved (p_counters s) \<and>
    mc_errors (p_counters s) \<le> 2 \<and> mc_mismatches (p_counters s) = 0"
proof -
  have inv: "pipeInv inflight s" using pipeInv_reach [OF assms(1,2)] .
  let ?open = "mc_offered (p_counters s) - mc_achieved (p_counters s)"
  have window: "?open \<le> int inflight" using inv by (simp add: pipeInv_def)
  have payload: "0 < int (length payload)" "int inflight \<le> MaxInflightBytes sdiv int (length payload)"
    using assms(3) by (simp_all add: validateShape_def firstErr_None)
  then have "int inflight * int (length payload) \<le> MaxInflightBytes"
    by (simp add: sdiv_pos le_div_iff MaxInflightBytes_def)
  then have "?open * int (length payload) \<le> MaxInflightBytes"
    using mult_right_mono [OF window, of "int (length payload)"] by simp
  moreover have "mc_errors (p_counters s) \<le> 2" "mc_mismatches (p_counters s) = 0" "recorderSeen (p_recorder s) = mc_achieved (p_counters s)"
    using inv ending_bound(1) [of "p_writer s"] ending_bound(2) [of "p_reader s"] by (auto simp: pipeInv_def)
  moreover have "p_writer s = WPutBack \<or> p_reader s = RCredit \<Longrightarrow> p_credits s < inflight" "p_writer s = WSend t \<Longrightarrow> length (p_sent s) < inflight" for t
    using inv by (auto simp: pipeInv_def tokens_def)
  ultimately show ?thesis using window by blast
qed

section \<open>Both goroutines end\<close>

lemma pipe_progress:
  assumes "pipeInv inflight s" "0 < inflight" "p_reader s \<noteq> RDone"
  shows "\<exists>s'. pipeStep inflight lib payload s s'"
proof -
  have tokens: "tokens s \<le> inflight" using assms(1) by (simp add: pipeInv_def)
  have writer: "\<exists>s'. pipeStep inflight lib payload s s'"
    if "p_writer s = WSelect \<longrightarrow> p_stop s \<or> (\<exists>n. p_credits s = Suc n)" "p_writer s \<noteq> WDone"
  proof (cases "p_writer s")
    case WSelect
    then show ?thesis using that(1) by (auto intro: w_stop w_credit)
  next
    case WPutBack
    then have "p_credits s < inflight" using tokens by (simp add: tokens_def)
    then show ?thesis using WPutBack by (blast intro: w_putback)
  next
    case (WSend t)
    then have "length (p_sent s) < inflight" using tokens by (simp add: tokens_def)
    then show ?thesis using WSend by (blast intro: w_send)
  qed (use that(2) in \<open>auto intro: w_late w_written w_closeSent w_signal\<close>)
  show ?thesis
  proof (cases "p_reader s")
    case RRange
    show ?thesis
    proof (cases "p_sent s")
      case (Cons t rest)
      then show ?thesis using RRange by (auto intro: r_receive)
    next
      case Nil
      show ?thesis
      proof (cases "p_sentClosed s")
        case True
        then show ?thesis using RRange Nil by (auto intro: r_closed)
      next
        case False
        then have w: "p_writer s \<noteq> WSignal" "p_writer s \<noteq> WDone" using assms(1) by (auto simp: pipeInv_def)
        have "p_credits s = inflight" if "p_writer s = WSelect"
          using assms(1) that RRange Nil by (simp add: pipeInv_def tokens_def)
        then show ?thesis using writer w assms(2) by (cases inflight) auto
      qed
    qed
  next
    case RCredit
    then have "p_credits s < inflight" using tokens by (simp add: tokens_def)
    then show ?thesis using RCredit by (blast intro: r_credit)
  next
    case RWait
    then have "p_stop s" "p_writerDone s \<longleftrightarrow> p_writer s = WDone" using assms(1) by (auto simp: pipeInv_def)
    then show ?thesis using RWait writer by (cases "p_writer s = WDone") (auto intro: r_wait)
  qed (use assms(3) in \<open>auto intro: r_fail r_stop\<close>)
qed

text \<open>What is left to do once the window has ended.\<close>

fun writerLeft :: "writer \<Rightarrow> nat" where
  "writerLeft WDone = 0"
| "writerLeft WSignal = 1"
| "writerLeft WCloseSent = 2"
| "writerLeft WPutBack = 3"
| "writerLeft WClock = 4"
| "writerLeft WSelect = 5"
| "writerLeft (WSend _) = 9"
| "writerLeft (WWrite _) = 10"

fun readerLeft :: "reader \<Rightarrow> nat" where
  "readerLeft RDone = 0"
| "readerLeft RWait = 1"
| "readerLeft RStop = 2"
| "readerLeft RRange = 3"
| "readerLeft RCredit = 4"
| "readerLeft (RRead _) = 5"

definition remaining :: "'h pipeline \<Rightarrow> nat" where
  "remaining s = 3 * length (p_sent s) + writerLeft (p_writer s) + readerLeft (p_reader s)"

lemma left_bound: "writerLeft w \<le> 10" "readerLeft r \<le> 5"
  by (cases w; simp) (cases r; simp)

lemma pipeStep_remaining: "pipeStep inflight lib payload s s' \<Longrightarrow> p_ended s \<Longrightarrow> remaining s' < remaining s \<and> p_ended s'"
  by (induction rule: pipeStep.induct) (simp_all add: remaining_def)

lemma pipe_steps_remaining:
  "(pipeStep inflight lib payload ^^ n) s s' \<Longrightarrow> p_ended s \<Longrightarrow> n + remaining s' \<le> remaining s \<and> p_ended s'"
proof (induction n arbitrary: s')
  case (Suc n)
  then obtain s1 where "(pipeStep inflight lib payload ^^ n) s s1" "pipeStep inflight lib payload s1 s'" by auto
  then show ?case using Suc.IH Suc.prems(2) pipeStep_remaining by fastforce
qed simp

lemma pipeReach_steps: "(pipeStep inflight lib payload ^^ n) s s' \<Longrightarrow> pipeReach inflight lib payload r s \<Longrightarrow> pipeReach inflight lib payload r s'"
  by (induction n arbitrary: s') (auto intro: step)

lemma remaining_bound: "pipeInv inflight s \<Longrightarrow> remaining s \<le> 3 * inflight + 15"
  using left_bound(1) [of "p_writer s"] left_bound(2) [of "p_reader s"] by (simp add: pipeInv_def tokens_def remaining_def)

text \<open>C24: A pipelined measurement ends. Once the timer has fired, the goroutines can take no more than a fixed number of steps, whatever
  order they take them in; and they only stop when both have returned, so that neither is ever left waiting for the other.\<close>

theorem pipeline_finishes:
  assumes "pipeReach inflight lib payload r s" "recorderSeen r = 0" "0 < inflight" "p_ended s"
    "(pipeStep inflight lib payload ^^ n) s s'"
  shows "n \<le> 3 * inflight + 15 \<and>
    ((\<exists>s''. pipeStep inflight lib payload s' s'') \<or> p_reader s' = RDone \<and> p_writer s' = WDone)"
proof -
  have inv: "pipeInv inflight s" "pipeInv inflight s'"
    using pipeInv_reach assms(1,2) pipeReach_steps [OF assms(5,1)] by blast+
  have "n \<le> 3 * inflight + 15"
    using remaining_bound [OF inv(1)] pipe_steps_remaining [OF assms(5,4)] by linarith
  moreover have "\<exists>s''. pipeStep inflight lib payload s' s''" if "p_reader s' \<noteq> RDone"
    using pipe_progress [OF inv(2) assms(3) that] .
  moreover have "p_writer s' = WDone" if "p_reader s' = RDone"
    using inv(2) that by (simp add: pipeInv_def)
  ultimately show ?thesis by blast
qed

text \<open>One message offered and written, the window over.\<close>

definition demoRecorder :: "unit LatencyRecorder" where
  "demoRecorder = \<lparr>lr_raw = (), lr_corrected = (), lr_rawCounts = noCounts, lr_corCounts = noCounts\<rparr>"

definition demoPipeline :: "unit pipeline" where
  "demoPipeline = \<lparr>p_credits = 1, p_sent = [7], p_sentClosed = False, p_stop = False, p_ended = True, p_writerDone = False,
     p_writer = WSelect, p_reader = RRange, p_recorder = demoRecorder, p_counters = zeroCounters\<lparr>mc_offered := 1\<rparr>\<rparr>"

lemma demoPipeline_reach: "pipeReach 2 demoHistogram [1] demoRecorder demoPipeline"
proof -
  let ?s0 = "startPipeline 2 demoRecorder"
  let ?s1 = "?s0\<lparr>p_credits := 1, p_writer := WClock\<rparr>"
  let ?s2 = "?s1\<lparr>p_writer := WWrite 7, p_counters := (p_counters ?s1)\<lparr>mc_offered := mc_offered (p_counters ?s1) + 1\<rparr>\<rparr>"
  let ?s3 = "?s2\<lparr>p_writer := WSend 7\<rparr>"
  let ?s4 = "?s3\<lparr>p_sent := p_sent ?s3 @ [7], p_writer := WSelect\<rparr>"
  have "pipeReach 2 demoHistogram [1] demoRecorder ?s1" by (rule step [OF start]) (rule w_credit; simp add: startPipeline_def)
  then have "pipeReach 2 demoHistogram [1] demoRecorder ?s2" by (rule step) (rule w_offer; simp add: startPipeline_def)
  then have "pipeReach 2 demoHistogram [1] demoRecorder ?s3" by (rule step) (rule w_written; simp)
  then have "pipeReach 2 demoHistogram [1] demoRecorder ?s4" by (rule step) (rule w_send; simp add: startPipeline_def)
  then have "pipeReach 2 demoHistogram [1] demoRecorder (?s4\<lparr>p_ended := True\<rparr>)" by (rule timer)
  then show ?thesis by (simp add: startPipeline_def demoPipeline_def zeroCounters_def)
qed

theorem pipeline_window_witness:
  "pipeReach 2 demoHistogram [1] demoRecorder demoPipeline \<and> mc_offered (p_counters demoPipeline) - mc_achieved (p_counters demoPipeline) \<le> 2"
proof -
  have "validateShape ''pipelined'' 1 (int (length [1 :: byte])) (int 2) 0 0 0 1 = None"
    by (simp add: validateShape_def firstErr_None MaxInflightBytes_def signed_divide_int_def)
  from pipeline_window [OF demoPipeline_reach _ this] show ?thesis
    using demoPipeline_reach by (simp add: demoRecorder_def recorderSeen_def)
qed

theorem pipeline_finishes_witness:
  "\<exists>s'. pipeStep 2 demoHistogram [1] demoPipeline s'"
proof -
  have "(pipeStep 2 demoHistogram [1] ^^ 0) demoPipeline demoPipeline" by simp
  from pipeline_finishes [OF demoPipeline_reach _ _ _ this] show ?thesis
    by (simp add: demoRecorder_def recorderSeen_def demoPipeline_def)
qed

end
