(* ===== verification/Atomic_File.thy ===== *)
theory Atomic_File
  imports Gows_Prelude
begin

text \<open>
  The durable writes of the benchmark artifacts, \<^verbatim>\<open>bench/harness/support/jsonfile.go\<close>, over one directory of a file system that
  can crash. An operation may succeed or fail as a script says. What has not been synced may be lost or damaged by a crash:
  the content of a file that was written since its last \<^verbatim>\<open>Sync\<close> can become anything, and the entry of a name can be any of those it
  has had since the last \<^verbatim>\<open>Sync\<close> of the directory. Modes of files are not kept.
\<close>

section \<open>The file system\<close>

record fileSystem =
  fs_entries :: "bytes \<Rightarrow> nat option"
  fs_earlier :: "bytes \<Rightarrow> nat option list"
  fs_data :: "nat \<Rightarrow> bytes"
  fs_synced :: "nat \<Rightarrow> bool"
  fs_next :: nat

text \<open>
  The machine: the file system, all the states it has been in, what the next operations will do (\<^const>\<open>True\<close> for success; all
  succeed when the script is over), and how much of a failing write arrives.
\<close>

record machine =
  m_fs :: fileSystem
  m_history :: "fileSystem list"
  m_script :: "bool list"
  m_partial :: nat

definition setEntry :: "bytes \<Rightarrow> nat option \<Rightarrow> fileSystem \<Rightarrow> fileSystem" where
  "setEntry name v fs = fs\<lparr>fs_entries := (fs_entries fs)(name := v),
     fs_earlier := (fs_earlier fs)(name := fs_entries fs name # fs_earlier fs name)\<rparr>"

definition createFile :: "bytes \<Rightarrow> fileSystem \<Rightarrow> fileSystem" where
  "createFile name fs =
     (let i = fs_next fs in
      (setEntry name (Some i) fs)\<lparr>fs_data := (fs_data fs)(i := []), fs_synced := (fs_synced fs)(i := False), fs_next := Suc i\<rparr>)"

definition writeData :: "nat \<Rightarrow> bytes \<Rightarrow> fileSystem \<Rightarrow> fileSystem" where
  "writeData i d fs = fs\<lparr>fs_data := (fs_data fs)(i := fs_data fs i @ d), fs_synced := (fs_synced fs)(i := False)\<rparr>"

definition syncFile :: "nat \<Rightarrow> fileSystem \<Rightarrow> fileSystem" where
  "syncFile i fs = fs\<lparr>fs_synced := (fs_synced fs)(i := True)\<rparr>"

definition syncDirectory :: "fileSystem \<Rightarrow> fileSystem" where
  "syncDirectory fs = fs\<lparr>fs_earlier := (\<lambda>name. [])\<rparr>"

text \<open>\<^verbatim>\<open>rename(2)\<close> and \<^verbatim>\<open>link(2)\<close> within the directory.\<close>

definition renameFile :: "bytes \<Rightarrow> bytes \<Rightarrow> fileSystem \<Rightarrow> fileSystem" where
  "renameFile from to fs = setEntry from None (setEntry to (fs_entries fs from) fs)"

definition linkFile :: "bytes \<Rightarrow> bytes \<Rightarrow> fileSystem \<Rightarrow> fileSystem" where
  "linkFile from to fs = setEntry to (fs_entries fs from) fs"

datatype fileErr =
    CreateTempErr | ChmodErr | WriteDataErr | SyncErr | CloseErr | RenameErr | LinkErr | RemoveErr | OpenDirErr | SyncDirErr | CloseDirErr
  | LstatErr | DestinationExists

definition became :: "fileSystem \<Rightarrow> machine \<Rightarrow> machine" where
  "became fs m = m\<lparr>m_fs := fs, m_history := m_history m @ [fs]\<rparr>"

definition attempt :: "(fileSystem \<Rightarrow> fileSystem) \<Rightarrow> machine \<Rightarrow> bool \<times> machine" where
  "attempt f m =
     (case m_script m of
        [] \<Rightarrow> (True, became (f (m_fs m)) m)
      | ok # script \<Rightarrow> (ok, (if ok then became (f (m_fs m)) else id) (m\<lparr>m_script := script\<rparr>)))"

text \<open>A write that fails has written a part.\<close>

definition attemptWrite :: "nat \<Rightarrow> bytes \<Rightarrow> machine \<Rightarrow> bool \<times> machine" where
  "attemptWrite i d m =
     (case attempt (writeData i d) m of
        (True, m) \<Rightarrow> (True, m)
      | (False, m) \<Rightarrow> (False, became (writeData i (take (m_partial m) d) (m_fs m)) m))"

section \<open>Writing\<close>

text \<open>The name \<^verbatim>\<open>os.CreateTemp\<close> makes of the pattern and its random digits; it fails if the name is taken.\<close>

definition tempName :: "bytes \<Rightarrow> bytes \<Rightarrow> bytes" where
  "tempName base random = B ''.'' @ base @ B ''.tmp-'' @ random"

definition createTemp :: "bytes \<Rightarrow> machine \<Rightarrow> bool \<times> machine" where
  "createTemp temporary m = (if fs_entries (m_fs m) temporary \<noteq> None then (False, m) else attempt (createFile temporary) m)"

text \<open>The deferred clean-up: close the file if that has not been done, remove the temporary name if it is still in use.\<close>

definition cleanup :: "bool \<Rightarrow> bytes option \<Rightarrow> fileErr list \<Rightarrow> machine \<Rightarrow> fileErr list \<times> machine" where
  "cleanup closed temporary errs m =
     (let (errs, m) = (if closed then (errs, m) else case attempt id m of (ok, m) \<Rightarrow> (if ok then errs else errs @ [CloseErr], m)) in
      case temporary of
        None \<Rightarrow> (errs, m)
      | Some name \<Rightarrow>
          if fs_entries (m_fs m) name = None then (errs, m)
          else case attempt (setEntry name None) m of (ok, m) \<Rightarrow> (if ok then errs else errs @ [RemoveErr], m))"

text \<open>The common part: mode, content, sync and close of the temporary file, which is inode \<open>i\<close>; how far it came.\<close>

definition fillTemporary :: "nat \<Rightarrow> bytes \<Rightarrow> machine \<Rightarrow> fileErr option \<times> machine" where
  "fillTemporary i d m =
     (case attempt id m of
        (False, m) \<Rightarrow> (Some ChmodErr, m)
      | (True, m) \<Rightarrow>
        (case attemptWrite i d m of
           (False, m) \<Rightarrow> (Some WriteDataErr, m)
         | (True, m) \<Rightarrow>
           (case attempt (syncFile i) m of
              (False, m) \<Rightarrow> (Some SyncErr, m)
            | (True, m) \<Rightarrow>
              (case attempt id m of
                 (False, m) \<Rightarrow> (Some CloseErr, m)
               | (True, m) \<Rightarrow> (None, m)))))"

text \<open>\<^verbatim>\<open>errors.Join(directory.Sync(), directory.Close())\<close>\<close>

definition syncParent :: "machine \<Rightarrow> fileErr list \<times> machine" where
  "syncParent m =
     (case attempt id m of
        (False, m) \<Rightarrow> ([OpenDirErr], m)
      | (True, m) \<Rightarrow>
        (case attempt syncDirectory m of
           (synced, m) \<Rightarrow>
             (case attempt id m of
                (closed, m) \<Rightarrow> ((if synced then [] else [SyncDirErr]) @ (if closed then [] else [CloseDirErr]), m))))"

definition WriteFileAtomic :: "bytes \<Rightarrow> bytes \<Rightarrow> bytes \<Rightarrow> machine \<Rightarrow> fileErr list \<times> machine" where
  "WriteFileAtomic random path d m =
     (let temporary = tempName path random; i = fs_next (m_fs m) in
      case createTemp temporary m of
        (False, m) \<Rightarrow> ([CreateTempErr], m)
      | (True, m) \<Rightarrow>
        (case fillTemporary i d m of
           (Some e, m) \<Rightarrow> cleanup False (Some temporary) [e] m
         | (None, m) \<Rightarrow>
           (case attempt (renameFile temporary path) m of
              (False, m) \<Rightarrow> cleanup True (Some temporary) [RenameErr] m
            | (True, m) \<Rightarrow> (case syncParent m of (errs, m) \<Rightarrow> cleanup True None errs m))))"

text \<open>\<open>others\<close> is what other processes do to the directory just before the link, which fails when the name exists.\<close>

definition publishNew :: "(fileSystem \<Rightarrow> fileSystem) \<Rightarrow> bytes \<Rightarrow> bytes \<Rightarrow> machine \<Rightarrow> fileErr list \<times> machine" where
  "publishNew others temporary path m =
     (let m = became (others (m_fs m)) m in
      if fs_entries (m_fs m) path \<noteq> None then cleanup True (Some temporary) [DestinationExists] m
      else case attempt (linkFile temporary path) m of
        (False, m) \<Rightarrow> cleanup True (Some temporary) [LinkErr] m
      | (True, m) \<Rightarrow>
        (case attempt (setEntry temporary None) m of
           (False, m) \<Rightarrow> cleanup True (Some temporary) [RemoveErr] m
         | (True, m) \<Rightarrow> (case syncParent m of (errs, m) \<Rightarrow> cleanup True None errs m)))"

definition WriteNewFileAtomic :: "(fileSystem \<Rightarrow> fileSystem) \<Rightarrow> bytes \<Rightarrow> bytes \<Rightarrow> bytes \<Rightarrow> machine \<Rightarrow> fileErr list \<times> machine" where
  "WriteNewFileAtomic others random path d m =
     (case attempt id m of
        (False, m) \<Rightarrow> ([LstatErr], m)
      | (True, m) \<Rightarrow>
        if fs_entries (m_fs m) path \<noteq> None then ([DestinationExists], m)
        else
          let temporary = tempName path random; i = fs_next (m_fs m) in
          case createTemp temporary m of
            (False, m) \<Rightarrow> ([CreateTempErr], m)
          | (True, m) \<Rightarrow>
            (case fillTemporary i d m of
               (Some e, m) \<Rightarrow> cleanup False (Some temporary) [e] m
             | (None, m) \<Rightarrow> publishNew others temporary path m))"

section \<open>Crashes\<close>

text \<open>The directory and contents that can be found after a crash.\<close>

definition crashed :: "fileSystem \<Rightarrow> (bytes \<Rightarrow> nat option) \<Rightarrow> (nat \<Rightarrow> bytes) \<Rightarrow> bool" where
  "crashed fs entries content \<longleftrightarrow>
     (\<forall>name. entries name \<in> set (fs_entries fs name # fs_earlier fs name)) \<and>
     (\<forall>i. fs_synced fs i \<longrightarrow> content i = fs_data fs i)"

text \<open>Every entry the name can have after a crash is a file with one of the allowed contents, safely on the disc.\<close>

definition safeName :: "bytes \<Rightarrow> bytes option set \<Rightarrow> fileSystem \<Rightarrow> bool" where
  "safeName path allowed fs \<longleftrightarrow>
     (\<forall>v \<in> set (fs_entries fs path # fs_earlier fs path).
        case v of None \<Rightarrow> None \<in> allowed | Some i \<Rightarrow> fs_synced fs i \<and> Some (fs_data fs i) \<in> allowed \<and> i < fs_next fs)"

lemma safeName_crashed:
  "safeName path allowed fs \<Longrightarrow> crashed fs entries content \<Longrightarrow> map_option content (entries path) \<in> allowed"
proof -
  assume safe: "safeName path allowed fs" and crash: "crashed fs entries content"
  have "entries path \<in> set (fs_entries fs path # fs_earlier fs path)" using crash unfolding crashed_def by blast
  then have "case entries path of None \<Rightarrow> None \<in> allowed | Some i \<Rightarrow> fs_synced fs i \<and> Some (fs_data fs i) \<in> allowed \<and> i < fs_next fs"
    using safe unfolding safeName_def by blast
  then show ?thesis using crash by (auto simp: crashed_def split: option.splits)
qed

text \<open>A file that is being written is none that the name can refer to.\<close>

definition apart :: "bytes \<Rightarrow> nat \<Rightarrow> fileSystem \<Rightarrow> bool" where
  "apart path i fs \<longleftrightarrow> Some i \<notin> set (fs_entries fs path # fs_earlier fs path) \<and> i < fs_next fs"

lemma tempName_ne [simp]: "tempName path random \<noteq> path" "path \<noteq> tempName path random"
proof -
  have "length (tempName path random) \<noteq> length path" by (simp add: tempName_def)
  then show "tempName path random \<noteq> path" "path \<noteq> tempName path random" by metis+
qed

section \<open>Operations and safety\<close>

lemma safeName_ops:
  assumes "safeName path allowed fs"
  shows "name \<noteq> path \<Longrightarrow> safeName path allowed (createFile name fs)"
    "apart path i fs \<Longrightarrow> safeName path allowed (writeData i d fs)"
    "safeName path allowed (syncFile i fs)"
    "name \<noteq> path \<Longrightarrow> safeName path allowed (setEntry name v fs)"
    "safeName path allowed (syncDirectory fs)"
    "fs_entries fs from = Some i \<Longrightarrow> fs_synced fs i \<Longrightarrow> Some (fs_data fs i) \<in> allowed \<Longrightarrow> i < fs_next fs \<Longrightarrow> from \<noteq> path \<Longrightarrow>
      safeName path allowed (renameFile from path fs)"
    "fs_entries fs from = Some i \<Longrightarrow> fs_synced fs i \<Longrightarrow> Some (fs_data fs i) \<in> allowed \<Longrightarrow> i < fs_next fs \<Longrightarrow>
      safeName path allowed (linkFile from path fs)"
  using assms
  by (fastforce simp: safeName_def apart_def createFile_def writeData_def syncFile_def setEntry_def syncDirectory_def renameFile_def linkFile_def
      Let_def split: option.splits)+

lemma apart_ops:
  assumes "apart path i fs"
  shows "apart path i (writeData i d fs)" "apart path i (syncFile i fs)" "name \<noteq> path \<Longrightarrow> apart path i (setEntry name v fs)"
  using assms by (auto simp: apart_def writeData_def syncFile_def setEntry_def)

lemma apart_create: "safeName path allowed fs \<Longrightarrow> name \<noteq> path \<Longrightarrow> apart path (fs_next fs) (createFile name fs)"
  by (fastforce simp: safeName_def apart_def createFile_def setEntry_def Let_def split: option.splits)

lemma attempt_result:
  "attempt f m = (ok, m') \<Longrightarrow> m_fs m' = (if ok then f (m_fs m) else m_fs m) \<and>
     m_history m' = m_history m @ (if ok then [f (m_fs m)] else []) \<and> m_partial m' = m_partial m"
  by (auto simp: attempt_def became_def split: list.splits if_splits)

lemma attempt_id: "attempt id m = (ok, m') \<Longrightarrow> m_fs m' = m_fs m \<and> set (m_history m') \<subseteq> insert (m_fs m) (set (m_history m))"
  using attempt_result [of id m ok m'] by auto

text \<open>A machine all of whose states have been safe.\<close>

definition safeRun :: "bytes \<Rightarrow> bytes option set \<Rightarrow> machine \<Rightarrow> bool" where
  "safeRun path allowed m \<longleftrightarrow> safeName path allowed (m_fs m) \<and> list_all (safeName path allowed) (m_history m)"

lemma safeRun_attempt:
  "attempt f m = (ok, m') \<Longrightarrow> safeRun path allowed m \<Longrightarrow> safeName path allowed (f (m_fs m)) \<Longrightarrow> safeRun path allowed m'"
  by (auto simp: safeRun_def dest!: attempt_result)

lemma safeRun_became: "safeRun path allowed m \<Longrightarrow> safeName path allowed fs \<Longrightarrow> safeRun path allowed (became fs m)"
  by (simp add: safeRun_def became_def)

lemma safeRun_id: "attempt id m = (ok, m') \<Longrightarrow> safeRun path allowed m \<Longrightarrow> safeRun path allowed m'"
  using safeRun_attempt [of id m ok m' path allowed] by (simp add: safeRun_def)

lemma attemptWrite_result:
  assumes "attemptWrite i d m = (ok, m')"
  shows "\<exists>p. m_fs m' = writeData i p (m_fs m) \<and> (ok \<longrightarrow> p = d)"
    "safeRun path allowed m \<Longrightarrow> apart path i (m_fs m) \<Longrightarrow> safeRun path allowed m'"
proof -
  obtain ok' m1 where a: "attempt (writeData i d) m = (ok', m1)" by fastforce
  show "\<exists>p. m_fs m' = writeData i p (m_fs m) \<and> (ok \<longrightarrow> p = d)"
    using assms attempt_result [OF a] by (auto simp: attemptWrite_def a became_def split: bool.splits)
  assume safe: "safeRun path allowed m" "apart path i (m_fs m)"
  then have "safeName path allowed (writeData i p (m_fs m))" for p by (simp add: safeRun_def safeName_ops)
  then show "safeRun path allowed m'"
    using assms safeRun_attempt [OF a safe(1)] attempt_result [OF a]
    by (auto simp: attemptWrite_def a split: bool.splits intro: safeRun_became)
qed

lemma fillTemporary_result:
  assumes "fillTemporary i d m = (r, m')" "safeRun path allowed m" "apart path i (m_fs m)"
  shows "safeRun path allowed m' \<and> apart path i (m_fs m') \<and> fs_entries (m_fs m') = fs_entries (m_fs m) \<and>
    (r = None \<longrightarrow> fs_synced (m_fs m') i \<and> fs_data (m_fs m') i = fs_data (m_fs m) i @ d)"
proof -
  obtain ok1 m1 where 1: "attempt id m = (ok1, m1)" by fastforce
  obtain ok2 m2 where 2: "attemptWrite i d m1 = (ok2, m2)" by fastforce
  obtain ok3 m3 where 3: "attempt (syncFile i) m2 = (ok3, m3)" by fastforce
  obtain ok4 m4 where 4: "attempt id m3 = (ok4, m4)" by fastforce
  have fs1: "m_fs m1 = m_fs m" using attempt_id [OF 1] by simp
  obtain p where p: "m_fs m2 = writeData i p (m_fs m)" "ok2 \<longrightarrow> p = d" using attemptWrite_result(1) [OF 2] fs1 by auto
  have s1: "safeRun path allowed m1" using safeRun_id [OF 1 assms(2)] .
  have s2: "safeRun path allowed m2" using attemptWrite_result(2) [OF 2 s1] assms(3) fs1 by simp
  have s3: "safeRun path allowed m3" using safeRun_attempt [OF 3 s2] s2 by (simp add: safeRun_def safeName_ops)
  have s4: "safeRun path allowed m4" using safeRun_id [OF 4 s3] .
  have a2: "apart path i (m_fs m2)" using assms(3) p(1) by (simp add: apart_ops)
  have fs3: "m_fs m3 = (if ok3 then syncFile i (m_fs m2) else m_fs m2)" using attempt_result [OF 3] by simp
  have fs4: "m_fs m4 = m_fs m3" using attempt_id [OF 4] by simp
  have a3: "apart path i (m_fs m3)" using a2 fs3 by (simp add: apart_ops)
  have e: "fs_entries (m_fs m2) = fs_entries (m_fs m)" "fs_entries (m_fs m3) = fs_entries (m_fs m)"
    using p(1) fs3 by (simp_all add: writeData_def syncFile_def)
  have done': "ok2 \<Longrightarrow> ok3 \<Longrightarrow> fs_synced (m_fs m3) i \<and> fs_data (m_fs m3) i = fs_data (m_fs m) i @ d"
    using p fs3 by (simp add: writeData_def syncFile_def)
  show ?thesis
    using assms(1,3) s1 s2 s3 s4 a2 a3 fs1 fs4 e done'
    by (auto simp: fillTemporary_def 1 2 3 4 split: bool.splits)
qed

lemma cleanup_result:
  assumes "cleanup closed temporary errs m = (errs', m')" "safeRun path allowed m" "temporary \<noteq> Some path"
  shows "safeRun path allowed m' \<and> fs_entries (m_fs m') path = fs_entries (m_fs m) path \<and> (errs \<noteq> [] \<longrightarrow> errs' \<noteq> []) \<and>
    (errs' = [] \<longrightarrow> closed \<longrightarrow> temporary = None \<longrightarrow> m' = m)"
proof -
  obtain ok1 m1 where 1: "attempt id m = (ok1, m1)" by fastforce
  define m2 where "m2 = (if closed then m else m1)"
  define errs2 where "errs2 = (if closed \<or> ok1 then errs else errs @ [CloseErr])"
  have s2: "safeRun path allowed m2" "m_fs m2 = m_fs m"
    using assms(2) safeRun_id [OF 1] attempt_id [OF 1] by (simp_all add: m2_def)
  have c: "cleanup closed temporary errs m = (case temporary of None \<Rightarrow> (errs2, m2)
      | Some name \<Rightarrow> if fs_entries (m_fs m2) name = None then (errs2, m2)
          else case attempt (setEntry name None) m2 of (ok, m) \<Rightarrow> (if ok then errs2 else errs2 @ [RemoveErr], m))"
    unfolding cleanup_def 1 m2_def errs2_def by (cases closed; cases ok1; simp)
  have ne: "errs \<noteq> [] \<longrightarrow> errs2 \<noteq> []" by (simp add: errs2_def)
  show ?thesis
  proof (cases temporary)
    case None
    then show ?thesis using assms(1) c s2 ne by (auto simp: m2_def)
  next
    case (Some name)
    obtain ok m3 where 3: "attempt (setEntry name None) m2 = (ok, m3)" by fastforce
    have "safeName path allowed (setEntry name None (m_fs m2))"
      using s2(1) assms(3) Some by (simp add: safeRun_def safeName_ops)
    then have "safeRun path allowed m3" "fs_entries (m_fs m3) path = fs_entries (m_fs m2) path"
      using safeRun_attempt [OF 3 s2(1)] attempt_result [OF 3] assms(3) Some by (auto simp: setEntry_def)
    then show ?thesis using assms(1) c s2 ne Some 3 by (auto split: if_splits)
  qed
qed

lemma createTemp_result:
  assumes "createTemp temporary m = (True, m')" "temporary \<noteq> path" "safeRun path allowed m"
  shows "safeRun path allowed m'" "apart path (fs_next (m_fs m)) (m_fs m')" "fs_entries (m_fs m') temporary = Some (fs_next (m_fs m))"
    "fs_data (m_fs m') (fs_next (m_fs m)) = []" "fs_entries (m_fs m') path = fs_entries (m_fs m) path"
proof -
  have a: "attempt (createFile temporary) m = (True, m')" using assms(1) by (auto simp: createTemp_def split: if_splits)
  note fs = attempt_result [OF a]
  show "safeRun path allowed m'" using safeRun_attempt [OF a assms(3)] assms(2,3) by (simp add: safeRun_def safeName_ops)
  show "apart path (fs_next (m_fs m)) (m_fs m')" using fs apart_create [of path allowed "m_fs m" temporary] assms(2,3) by (simp add: safeRun_def)
  show "fs_entries (m_fs m') temporary = Some (fs_next (m_fs m))" "fs_data (m_fs m') (fs_next (m_fs m)) = []"
    "fs_entries (m_fs m') path = fs_entries (m_fs m) path"
    using fs assms(2) by (simp_all add: createFile_def setEntry_def Let_def)
qed

lemma createTemp_fails: "createTemp temporary m = (False, m') \<Longrightarrow> safeRun path allowed m \<Longrightarrow> safeRun path allowed m'"
  by (auto simp: createTemp_def safeRun_def dest!: attempt_result split: if_splits)

text \<open>After a successful sync of the directory, only its present entries can be found.\<close>

lemma syncParent_result:
  assumes "syncParent m = (errs, m')" "safeRun path allowed m"
  shows "safeRun path allowed m' \<and> fs_entries (m_fs m') = fs_entries (m_fs m) \<and> fs_data (m_fs m') = fs_data (m_fs m) \<and>
    (errs = [] \<longrightarrow> fs_earlier (m_fs m') path = [])"
proof -
  obtain ok1 m1 where 1: "attempt id m = (ok1, m1)" by fastforce
  obtain ok2 m2 where 2: "attempt syncDirectory m1 = (ok2, m2)" by fastforce
  obtain ok3 m3 where 3: "attempt id m2 = (ok3, m3)" by fastforce
  have s1: "safeRun path allowed m1" "m_fs m1 = m_fs m" using safeRun_id [OF 1 assms(2)] attempt_id [OF 1] by simp_all
  have s2: "safeRun path allowed m2" using safeRun_attempt [OF 2 s1(1)] s1(1) by (simp add: safeRun_def safeName_ops)
  have s3: "safeRun path allowed m3" "m_fs m3 = m_fs m2" using safeRun_id [OF 3 s2] attempt_id [OF 3] by simp_all
  have fs2: "m_fs m2 = (if ok2 then syncDirectory (m_fs m) else m_fs m)" using attempt_result [OF 2] s1(2) by simp
  show ?thesis
    using assms(1) s1 s2 s3 fs2 by (auto simp: syncParent_def 1 2 3 syncDirectory_def split: bool.splits if_splits)
qed

lemma safeRun_crashes:
  "safeRun path allowed m \<Longrightarrow> fs \<in> set (m_history m) \<Longrightarrow> crashed fs entries content \<Longrightarrow> map_option content (entries path) \<in> allowed"
  using safeName_crashed by (auto simp: safeRun_def list_all_iff)

text \<open>A temporary file that holds the content and has been synced.\<close>

definition holds :: "bytes \<Rightarrow> nat \<Rightarrow> bytes \<Rightarrow> fileSystem \<Rightarrow> bool" where
  "holds temporary i d fs \<longleftrightarrow> fs_entries fs temporary = Some i \<and> fs_synced fs i \<and> fs_data fs i = d \<and> i < fs_next fs"

lemma fillTemporary_holds:
  assumes "createTemp temporary m = (True, m1)" "temporary \<noteq> path" "safeRun path allowed m" "fillTemporary (fs_next (m_fs m)) d m1 = (r, m2)"
  shows "safeRun path allowed m2 \<and> apart path (fs_next (m_fs m)) (m_fs m2) \<and> fs_entries (m_fs m2) path = fs_entries (m_fs m) path \<and>
    (r = None \<longrightarrow> holds temporary (fs_next (m_fs m)) d (m_fs m2))"
  using createTemp_result [OF assms(1-3)] fillTemporary_result [OF assms(4), of path allowed]
  by (auto simp: holds_def apart_def)

text \<open>The end of a publication: once the name refers to the file, a successful sync leaves nothing else to be found.\<close>

lemma syncParent_published:
  assumes "syncParent m = (errs1, m1)" "cleanup True None errs1 m1 = (errs, m')" "safeRun path allowed m"
    "fs_entries (m_fs m) path = Some i" "fs_data (m_fs m) i = d"
  shows "safeRun path allowed m' \<and> (errs = [] \<longrightarrow> safeName path {Some d} (m_fs m'))"
proof -
  note p = syncParent_result [OF assms(1,3)]
  have m': "m' = m1" "errs = errs1" using assms(2) by (simp_all add: cleanup_def)
  have e: "fs_entries (m_fs m1) path = Some i" "fs_data (m_fs m1) i = d" using p assms(4,5) by simp_all
  then have "fs_synced (m_fs m1) i \<and> i < fs_next (m_fs m1)" using p by (auto simp: safeRun_def safeName_def)
  then show ?thesis using p m' e by (auto simp: safeName_def)
qed

text \<open>C22: Replacing an artifact is atomic even across a crash. Whichever operations fail, and whatever is lost of what has not been synced: if the
  machine crashes at any moment of the call, the name then refers to the complete old content or to the complete new one (or to no
  file, if there was none before); if the call has returned without an error, to the new one.\<close>

theorem replace_is_atomic:
  assumes "WriteFileAtomic random path d m = (errs, m')" "m_history m = []" "safeName path {old} (m_fs m)"
  shows "(\<forall>fs \<in> set (m_history m'). \<forall>entries content. crashed fs entries content \<longrightarrow> map_option content (entries path) \<in> {old, Some d}) \<and>
    (errs = [] \<longrightarrow> (\<forall>entries content. crashed (m_fs m') entries content \<longrightarrow> map_option content (entries path) = Some d))"
proof -
  let ?A = "{old, Some d}" and ?i = "fs_next (m_fs m)" and ?t = "tempName path random"
  have "safeName path ?A (m_fs m)" using assms(3) by (auto simp: safeName_def split: option.splits)
  then have s0: "safeRun path ?A m" using assms(2) by (simp add: safeRun_def)
  obtain created m1 where 1: "createTemp ?t m = (created, m1)" by fastforce
  obtain r m2 where 2: "fillTemporary ?i d m1 = (r, m2)" by fastforce
  obtain ok m3 where 3: "attempt (renameFile ?t path) m2 = (ok, m3)" by fastforce
  obtain errs4 m4 where 4: "syncParent m3 = (errs4, m4)" by fastforce
  note run = assms(1) [unfolded WriteFileAtomic_def Let_def 1 prod.case 2 3 4]
  have main: "safeRun path ?A m' \<and> (errs = [] \<longrightarrow> safeName path {Some d} (m_fs m'))"
  proof (cases created)
    case False
    then show ?thesis using run 1 createTemp_fails [OF _ s0] by auto
  next
    case True
    have c1: "createTemp ?t m = (True, m1)" using 1 True by simp
    note f = fillTemporary_holds [OF c1 tempName_ne(1) s0 2]
    have s3: "safeRun path ?A m3" if "r = None"
      using safeRun_attempt [OF 3] f that safeName_ops(6) [of path ?A "m_fs m2" ?t ?i] by (simp add: safeRun_def holds_def)
    have "ok \<Longrightarrow> r = None \<Longrightarrow> fs_entries (m_fs m3) path = Some ?i \<and> fs_data (m_fs m3) ?i = d"
      using attempt_result [OF 3] f by (simp add: renameFile_def setEntry_def holds_def)
    then show ?thesis
      using run True f s3 cleanup_result [where errs = "[e]" and path = path for e] syncParent_published [OF 4]
      by (fastforce split: option.splits bool.splits)
  qed
  then show ?thesis using safeRun_crashes safeName_crashed by blast
qed

text \<open>Other processes leave the temporary file alone and publish only complete files under the name.\<close>

definition polite :: "(fileSystem \<Rightarrow> fileSystem) \<Rightarrow> bytes \<Rightarrow> bytes \<Rightarrow> nat \<Rightarrow> bytes option set \<Rightarrow> bool" where
  "polite others path temporary i allowed \<longleftrightarrow> (\<forall>fs. apart path i fs \<longrightarrow> safeName path allowed fs \<longrightarrow>
     safeName path allowed (others fs) \<and> fs_entries (others fs) temporary = fs_entries fs temporary \<and>
     fs_data (others fs) i = fs_data fs i \<and> fs_synced (others fs) i = fs_synced fs i \<and> i < fs_next (others fs))"

text \<open>What a call has reached: all its states were safe, it succeeded with the new file or it gave way to the file \<open>j\<close> of another process.\<close>

definition gaveWay :: "(fileSystem \<Rightarrow> fileSystem) \<Rightarrow> bytes \<Rightarrow> bytes option set \<Rightarrow> bytes \<Rightarrow> nat \<Rightarrow> fileErr list \<Rightarrow> machine \<Rightarrow> bool" where
  "gaveWay others path allowed d j errs m \<longleftrightarrow> safeRun path allowed m \<and> (errs = [] \<longrightarrow> safeName path {Some d} (m_fs m)) \<and>
     ((\<forall>fs. fs_entries (others fs) path = Some j) \<longrightarrow> errs \<noteq> [] \<and> fs_entries (m_fs m) path \<in> {None, Some j})"

lemma cleanup_gaveWay:
  assumes "cleanup closed (Some temporary) errs m = (errs', m')" "safeRun path allowed m" "errs \<noteq> []" "temporary \<noteq> path"
    "(\<forall>fs. fs_entries (others fs) path = Some j) \<longrightarrow> fs_entries (m_fs m) path \<in> {None, Some j}"
  shows "gaveWay others path allowed d j errs' m'"
  using cleanup_result [OF assms(1,2)] assms(3-5) by (auto simp: gaveWay_def)

lemma publishNew_gaveWay:
  assumes "publishNew others temporary path m = (errs, m')" "temporary \<noteq> path" "safeRun path allowed m" "apart path i (m_fs m)"
    "holds temporary i d (m_fs m)" "polite others path temporary i allowed" "Some d \<in> allowed"
  shows "gaveWay others path allowed d j errs m'"
proof -
  define m1 where "m1 = became (others (m_fs m)) m"
  obtain ok2 m2 where 2: "attempt (linkFile temporary path) m1 = (ok2, m2)" by fastforce
  obtain ok3 m3 where 3: "attempt (setEntry temporary None) m2 = (ok3, m3)" by fastforce
  obtain errs4 m4 where 4: "syncParent m3 = (errs4, m4)" by fastforce
  note run = assms(1) [unfolded publishNew_def m1_def [symmetric] Let_def 2 prod.case 3 4]
  have fs1: "m_fs m1 = others (m_fs m)" by (simp add: m1_def became_def)
  have pol: "safeName path allowed (m_fs m1)" "holds temporary i d (m_fs m1)"
    using assms(3-6) unfolding polite_def fs1 by (auto simp: safeRun_def holds_def)
  have s1: "safeRun path allowed m1" using safeRun_became [OF assms(3)] pol(1) unfolding fs1 by (simp add: m1_def)
  have s2: "safeRun path allowed m2"
    using safeRun_attempt [OF 2 s1] pol assms(7) safeName_ops(7) [OF pol(1), of temporary i] by (simp add: holds_def)
  have s3: "safeRun path allowed m3"
    using safeRun_attempt [OF 3 s2] s2 assms(2) by (simp add: safeRun_def safeName_ops)
  show ?thesis
  proof (cases "fs_entries (m_fs m1) path")
    case (Some k)
    then show ?thesis using run s1 fs1 assms(2) by (intro cleanup_gaveWay) auto
  next
    case None
    then have none: "\<not> (\<forall>fs. fs_entries (others fs) path = Some j)" using fs1 by (metis option.distinct(1))
    have "ok2 \<Longrightarrow> ok3 \<Longrightarrow> fs_entries (m_fs m3) path = Some i \<and> fs_data (m_fs m3) i = d"
      using attempt_result [OF 2] attempt_result [OF 3] pol(2) assms(2) by (simp add: linkFile_def setEntry_def holds_def)
    then have "ok2 \<Longrightarrow> ok3 \<Longrightarrow> gaveWay others path allowed d j errs m'"
      using run None syncParent_published [OF 4 _ s3] none unfolding gaveWay_def by auto
    then show ?thesis using run None none s2 s3 assms(2) cleanup_gaveWay by (cases ok2; cases ok3) fastforce+
  qed
qed

text \<open>Publishing a new artifact never replaces one, and is atomic across a crash. Whichever operations fail and whatever other
  processes publish under the name in the meantime: a crash at any moment leaves no file, or a complete one; if the call has returned
  without an error, its own; and if another process was first, the call fails and the name goes on to refer to that file.\<close>

theorem first_publication_wins:
  assumes "WriteNewFileAtomic others random path d m = (errs, m')" "m_history m = []" "safeName path {None} (m_fs m)"
    "polite others path (tempName path random) (fs_next (m_fs m)) allowed" "{None, Some d} \<subseteq> allowed"
  shows "(\<forall>fs \<in> set (m_history m'). \<forall>entries content. crashed fs entries content \<longrightarrow> map_option content (entries path) \<in> allowed) \<and>
    (errs = [] \<longrightarrow> (\<forall>entries content. crashed (m_fs m') entries content \<longrightarrow> map_option content (entries path) = Some d)) \<and>
    ((\<forall>fs. fs_entries (others fs) path = Some j) \<longrightarrow> errs \<noteq> [] \<and> fs_entries (m_fs m') path \<in> {None, Some j})"
proof -
  let ?t = "tempName path random" and ?i = "fs_next (m_fs m)"
  obtain ok0 m0 where 0: "attempt id m = (ok0, m0)" by fastforce
  obtain created m1 where 1: "createTemp ?t m0 = (created, m1)" by fastforce
  obtain r m2 where 2: "fillTemporary ?i d m1 = (r, m2)" by fastforce
  have fs0: "m_fs m0 = m_fs m" using attempt_id [OF 0] by simp
  have absent: "fs_entries (m_fs m) path = None" using assms(3) by (auto simp: safeName_def split: option.splits)
  have "safeName path allowed (m_fs m)" using assms(3,5) by (auto simp: safeName_def split: option.splits)
  then have s0: "safeRun path allowed m0" using assms(2) safeRun_id [OF 0] by (simp add: safeRun_def)
  note run = assms(1) [unfolded WriteNewFileAtomic_def Let_def 0 prod.case fs0 1 2]
  have main: "gaveWay others path allowed d j errs m'"
  proof (cases "ok0 \<and> created")
    case False
    have "safeRun path allowed m1 \<and> fs_entries (m_fs m1) path = None" if "\<not> created"
      using 1 that fs0 absent createTemp_fails [OF _ s0] by (auto simp: createTemp_def dest!: attempt_result split: if_splits)
    then show ?thesis using run False absent fs0 s0 by (auto simp: gaveWay_def split: bool.splits)
  next
    case True
    have c1: "createTemp ?t m0 = (True, m1)" using 1 True by simp
    note f = fillTemporary_holds [OF c1 tempName_ne(1) s0, unfolded fs0, OF 2]
    show ?thesis
    proof (cases r)
      case None
      then show ?thesis using run True absent f assms(4,5) by (intro publishNew_gaveWay) auto
    next
      case (Some e)
      then show ?thesis using run True absent f by (intro cleanup_gaveWay) auto
    qed
  qed
  then show ?thesis using safeRun_crashes safeName_crashed unfolding gaveWay_def by blast
qed

text \<open>An old file of two bytes and one new byte; the last operations fail in the first run, all succeed in the second.\<close>

definition demoDisk :: "bytes option \<Rightarrow> bool list \<Rightarrow> machine" where
  "demoDisk old script = \<lparr>m_fs =
     \<lparr>fs_entries = (\<lambda>name. if name = B ''out.json'' \<and> old \<noteq> None then Some 0 else None), fs_earlier = (\<lambda>name. []),
      fs_data = (\<lambda>i. case old of None \<Rightarrow> [] | Some d \<Rightarrow> d), fs_synced = (\<lambda>i. True), fs_next = 1\<rparr>,
     m_history = [], m_script = script, m_partial = 0\<rparr>"

lemma demoDisk_safe: "safeName (B ''out.json'') {old} (m_fs (demoDisk old script))" "m_history (demoDisk old script) = []"
  by (auto simp: demoDisk_def safeName_def)

theorem replace_is_atomic_witness:
  "let (errs, m) = WriteFileAtomic (B ''1'') (B ''out.json'') [3] (demoDisk (Some [1, 2]) [])
   in errs = [] \<and> fs_data (m_fs m) (the (fs_entries (m_fs m) (B ''out.json''))) = [3]"
proof -
  obtain errs m where run: "WriteFileAtomic (B ''1'') (B ''out.json'') [3] (demoDisk (Some [1, 2]) []) = (errs, m)" by fastforce
  have errs: "errs = []"
    using run by (simp add: WriteFileAtomic_def createTemp_def fillTemporary_def attemptWrite_def syncParent_def cleanup_def attempt_def
        became_def demoDisk_def createFile_def setEntry_def renameFile_def writeData_def syncFile_def tempName_def Let_def)
  have "crashed (m_fs m) (fs_entries (m_fs m)) (fs_data (m_fs m))" by (simp add: crashed_def)
  then have "map_option (fs_data (m_fs m)) (fs_entries (m_fs m) (B ''out.json'')) = Some [3]"
    using replace_is_atomic [OF run demoDisk_safe(2,1)] errs by blast
  then show ?thesis using run errs by auto
qed

theorem first_publication_wins_witness:
  "let (errs, m) = WriteNewFileAtomic id (B ''1'') (B ''out.json'') [3] (demoDisk None [])
   in errs = [] \<and> fs_data (m_fs m) (the (fs_entries (m_fs m) (B ''out.json''))) = [3]"
proof -
  obtain errs m where run: "WriteNewFileAtomic id (B ''1'') (B ''out.json'') [3] (demoDisk None []) = (errs, m)" by fastforce
  have errs: "errs = []"
    using run by (simp add: WriteNewFileAtomic_def publishNew_def createTemp_def fillTemporary_def attemptWrite_def syncParent_def cleanup_def attempt_def
        became_def demoDisk_def createFile_def setEntry_def linkFile_def writeData_def syncFile_def tempName_def Let_def)
  have "polite id (B ''out.json'') (tempName (B ''out.json'') (B ''1'')) (fs_next (m_fs (demoDisk None []))) {None, Some [3]}"
    by (simp add: polite_def apart_def)
  then have "map_option (fs_data (m_fs m)) (fs_entries (m_fs m) (B ''out.json'')) = Some [3]"
    using first_publication_wins [OF run demoDisk_safe(2,1)] errs by (auto simp: crashed_def)
  then show ?thesis using run errs by auto
qed

end
