(* ===== verification/Host_Guard.thy ===== *)
theory Host_Guard
  imports Gows_Prelude "HOL-Library.Sublist"
begin

text \<open>
  The guard that keeps a benchmark host quiet, \<^verbatim>\<open>bench/harness/cmd/benchrun/guard.go\<close> with \<^verbatim>\<open>support/pmset.go\<close>: which processes belong to
  the measurement, which foreign ones end it, and which changes of the environment do. The output of \<^verbatim>\<open>ps\<close> is taken parsed;
  regular expressions and floating-point numbers are parameters. A Go map is a list of its keys in the order of an iteration.
\<close>

section \<open>Processes\<close>

record 'f processUsage =
  pr_PID :: int
  pr_PPID :: int
  pr_CPU :: 'f
  pr_Command :: bytes

text \<open>A later line of \<^verbatim>\<open>ps\<close> overrides an earlier one with the same PID.\<close>

definition byPID :: "'f processUsage list \<Rightarrow> int \<Rightarrow> 'f processUsage option" where
  "byPID ps = map_of (rev (map (\<lambda>p. (pr_PID p, p)) ps))"

text \<open>One pass over the processes: children of owned processes become owned.\<close>

fun expandPass :: "'f processUsage list \<Rightarrow> int set \<Rightarrow> int set" where
  "expandPass [] owned = owned"
| "expandPass (p # ps) owned =
     (if pr_PID p \<in> owned then expandPass ps owned
      else if pr_PPID p \<in> owned then expandPass ps (insert (pr_PID p) owned)
      else expandPass ps owned)"

lemma expandPass_mono: "owned \<subseteq> expandPass ps owned"
proof (induction ps arbitrary: owned)
  case (Cons p ps)
  have "owned \<subseteq> expandPass ps (insert (pr_PID p) owned)" using Cons.IH by (rule subset_trans [OF subset_insertI])
  then show ?case using Cons.IH by simp
qed simp

lemma expandPass_new: "x \<in> expandPass ps owned \<Longrightarrow> x \<in> owned \<or> x \<in> pr_PID ` set ps"
  by (induction ps arbitrary: owned) (auto split: if_splits)

function expandOwned :: "'f processUsage list \<Rightarrow> int set \<Rightarrow> int set" where
  "expandOwned ps owned = (let owned' = expandPass ps owned in if owned' = owned then owned else expandOwned ps owned')"
  by pat_completeness auto
termination
proof (relation "measure (\<lambda>(ps, owned). card (pr_PID ` set ps - owned))", goal_cases)
  case (2 ps owned owned')
  then obtain x where "x \<in> owned'" "x \<notin> owned" using expandPass_mono [of owned ps] by blast
  then have "pr_PID ` set ps - owned' \<subset> pr_PID ` set ps - owned"
    using 2(1) expandPass_mono [of owned ps] expandPass_new [of x ps owned] by auto
  then show ?case by (simp add: psubset_card_mono)
qed simp

declare expandOwned.simps [simp del]

text \<open>The chain of ancestors of one process; \<open>seen\<close> breaks a cycle.\<close>

function ownAncestors :: "'f processUsage list \<Rightarrow> int set \<Rightarrow> int \<Rightarrow> int set \<Rightarrow> int set" where
  "ownAncestors ps seen pid owned =
     (if pid > 1 \<and> pid \<notin> seen then
        case byPID ps pid of
          None \<Rightarrow> owned
        | Some p \<Rightarrow>
            if pr_PPID p \<le> 1 then owned
            else ownAncestors ps (insert pid seen) (pr_PPID p) (insert (pr_PPID p) owned)
      else owned)"
  by pat_completeness auto
termination
proof (relation "measure (\<lambda>(ps, seen, pid, owned). card (pr_PID ` set ps - seen))", goal_cases)
  case (2 ps seen pid owned p)
  then have "pid \<in> pr_PID ` set ps - seen" by (auto simp: byPID_def dest!: map_of_SomeD)
  then have "pr_PID ` set ps - insert pid seen \<subset> pr_PID ` set ps - seen" by auto
  then show ?case by (simp add: psubset_card_mono)
qed simp

declare ownAncestors.simps [simp del]

text \<open>The direct parents of the roots that are not owned.\<close>

definition controllersOf :: "'f processUsage list \<Rightarrow> int set \<Rightarrow> int list \<Rightarrow> 'f processUsage list" where
  "controllersOf ps owned roots =
     concat (map (\<lambda>root.
       case byPID ps root of
         None \<Rightarrow> []
       | Some p \<Rightarrow>
           if pr_PPID p \<le> 1 \<or> pr_PPID p \<in> owned then []
           else case byPID ps (pr_PPID p) of None \<Rightarrow> [] | Some parent \<Rightarrow> [parent]) roots)"

definition sidecarCommand :: "'f processUsage \<Rightarrow> bytes" where
  "sidecarCommand controller = B ''/usr/bin/caffeinate -dimsu '' @ pr_Command controller"

datatype hostErr =
    AmbiguousSidecars int | BadPattern bytes | ForbiddenProcess bytes | ForeignCPU
  | BootIdentity | Topology | PowerSource | Thermal | LoadDrift

text \<open>The match of one controller; 0 while there is none.\<close>

fun sidecarMatch :: "'f processUsage list \<Rightarrow> int set \<Rightarrow> 'f processUsage \<Rightarrow> int \<Rightarrow> hostErr + int" where
  "sidecarMatch [] owned controller found = Inr found"
| "sidecarMatch (p # ps) owned controller found =
     (if pr_PID p \<in> owned \<or> pr_PPID p \<noteq> pr_PID controller \<or> pr_Command p \<noteq> sidecarCommand controller
      then sidecarMatch ps owned controller found
      else if found \<noteq> 0 then Inl (AmbiguousSidecars (pr_PID controller))
      else sidecarMatch ps owned controller (pr_PID p))"

fun ownSidecars :: "'f processUsage list \<Rightarrow> 'f processUsage list \<Rightarrow> int set \<Rightarrow> hostErr + int set" where
  "ownSidecars ps [] owned = Inr owned"
| "ownSidecars ps (controller # rest) owned =
     (case sidecarMatch ps owned controller 0 of
        Inl e \<Rightarrow> Inl e
      | Inr found \<Rightarrow> ownSidecars ps rest (if found \<noteq> 0 then insert found owned else owned))"

text \<open>The map of the controllers has each of them once, and its keys are visited in their order.\<close>

definition sortedControllers :: "'f processUsage list \<Rightarrow> 'f processUsage list" where
  "sortedControllers cs = map (\<lambda>pid. the (map_of (rev (map (\<lambda>c. (pr_PID c, c)) cs)) pid)) (sort (remdups (map pr_PID cs)))"

definition ownedProcessTree :: "'f processUsage list \<Rightarrow> int list \<Rightarrow> hostErr + int set" where
  "ownedProcessTree ps roots =
     (let owned = expandOwned ps {pid \<in> set roots. byPID ps pid \<noteq> None};
          controllers = controllersOf ps owned roots;
          owned = fold (\<lambda>root owned. ownAncestors ps {} root owned) roots owned in
      ownSidecars ps (sortedControllers controllers) owned)"

section \<open>Hygiene\<close>

text \<open>\<open>matches\<close> is the compiled pattern, or \<open>None\<close> if it does not compile; \<open>add\<close> and \<open>exceeds\<close> are those of the floating-point numbers.\<close>

definition foreignCPUUsage :: "('f \<Rightarrow> 'f \<Rightarrow> 'f) \<Rightarrow> 'f \<Rightarrow> 'f processUsage list \<Rightarrow> int set \<Rightarrow> 'f" where
  "foreignCPUUsage add zero ps owned =
     fold (\<lambda>p total'. if pr_PID p \<in> owned then total' else add total' (pr_CPU p)) ps zero"

fun forbidden :: "(bytes \<Rightarrow> (bytes \<Rightarrow> bool) option) \<Rightarrow> bytes list \<Rightarrow> 'f processUsage list \<Rightarrow> int set \<Rightarrow> hostErr option" where
  "forbidden compile [] ps owned = None"
| "forbidden compile (pattern # patterns) ps owned =
     (case compile pattern of
        None \<Rightarrow> Some (BadPattern pattern)
      | Some matches \<Rightarrow>
          if list_ex (\<lambda>p. pr_PID p \<notin> owned \<and> matches (pr_Command p)) ps then Some (ForbiddenProcess pattern)
          else forbidden compile patterns ps owned)"

definition checkProcessHygiene :: "(bytes \<Rightarrow> (bytes \<Rightarrow> bool) option) \<Rightarrow> ('f \<Rightarrow> 'f \<Rightarrow> 'f) \<Rightarrow> 'f \<Rightarrow> ('f \<Rightarrow> 'f \<Rightarrow> bool) \<Rightarrow>
    bytes list \<Rightarrow> int list \<Rightarrow> 'f \<Rightarrow> 'f processUsage list \<Rightarrow> hostErr option" where
  "checkProcessHygiene compile add zero exceeds patterns excluded cpuLimit ps =
     (case ownedProcessTree ps excluded of
        Inl e \<Rightarrow> Some e
      | Inr owned \<Rightarrow>
        (case forbidden compile patterns ps owned of
           Some e \<Rightarrow> Some e
         | None \<Rightarrow> if exceeds (foreignCPUUsage add zero ps owned) cpuLimit then Some ForeignCPU else None))"

definition ownedPIDs :: "int \<Rightarrow> int list \<Rightarrow> int list" where
  "ownedPIDs self values = remdups (self # filter (\<lambda>v. v > 0) values)"

section \<open>The environment\<close>

definition PMSetPowerSource :: "bytes \<Rightarrow> bytes" where
  "PMSetPowerSource pmset =
     (let line = takeWhile (\<lambda>b. b \<noteq> 10) pmset;
          pre = B ''Now drawing from '' @ [0x27];
          trimmed = drop (length pre) line in
      if \<not> prefix pre line \<or> \<not> suffix [0x27] line then []
      else if suffix [0x27] trimmed then butlast trimmed else trimmed)"

definition PMSetThermalClean :: "bytes \<Rightarrow> bool" where
  "PMSetThermalClean pmset \<longleftrightarrow>
     sublist (B ''No thermal warning level has been recorded'') pmset \<and>
     sublist (B ''No performance warning level has been recorded'') pmset"

text \<open>The fields of \<^verbatim>\<open>EnvSnapshot\<close> the guard looks at.\<close>

record 'f EnvSnapshot =
  en_BootIdentity :: bytes
  en_LogicalCPUs :: int
  en_MemoryBytes :: int
  en_PMSetBattery :: bytes
  en_PMSetThermal :: bytes
  en_Load1 :: 'f

definition validateContinuousEnvironment :: "('f \<Rightarrow> 'f \<Rightarrow> 'f) \<Rightarrow> 'f \<Rightarrow> ('f \<Rightarrow> 'f \<Rightarrow> bool) \<Rightarrow> ('f \<Rightarrow> 'f \<Rightarrow> bool) \<Rightarrow> 'f EnvSnapshot \<Rightarrow> 'f EnvSnapshot \<Rightarrow> 'f \<Rightarrow> hostErr option" where
  "validateContinuousEnvironment sub zero notAbove exceeds baseline current maxLoad1Drift =
     (if en_BootIdentity baseline = [] \<or> en_BootIdentity current \<noteq> en_BootIdentity baseline then Some BootIdentity
      else if en_LogicalCPUs current \<noteq> en_LogicalCPUs baseline \<or> en_MemoryBytes current \<noteq> en_MemoryBytes baseline then Some Topology
      else
        let source = PMSetPowerSource (en_PMSetBattery current) in
        if source = [] \<or> source \<noteq> PMSetPowerSource (en_PMSetBattery baseline) then Some PowerSource
        else if \<not> PMSetThermalClean (en_PMSetThermal current) then Some Thermal
        else if notAbove maxLoad1Drift zero \<or> exceeds (sub (en_Load1 current) (en_Load1 baseline)) maxLoad1Drift then Some LoadDrift
        else None)"

section \<open>What is owned\<close>

text \<open>The reference: everything below the roots, and the ancestors of the roots.\<close>

inductive_set descendants :: "'f processUsage list \<Rightarrow> int set \<Rightarrow> int set" for ps roots where
  root: "r \<in> roots \<Longrightarrow> r \<in> descendants ps roots"
| child: "p \<in> set ps \<Longrightarrow> pr_PPID p \<in> descendants ps roots \<Longrightarrow> pr_PID p \<in> descendants ps roots"

inductive_set ancestors :: "'f processUsage list \<Rightarrow> int set \<Rightarrow> int set" for ps roots where
  parent: "r \<in> roots \<Longrightarrow> 1 < r \<Longrightarrow> byPID ps r = Some p \<Longrightarrow> 1 < pr_PPID p \<Longrightarrow> pr_PPID p \<in> ancestors ps roots"
| grandparent: "a \<in> ancestors ps roots \<Longrightarrow> byPID ps a = Some p \<Longrightarrow> 1 < pr_PPID p \<Longrightarrow> pr_PPID p \<in> ancestors ps roots"

lemma expandPass_sound: "set qs \<subseteq> set ps \<Longrightarrow> owned \<subseteq> descendants ps roots \<Longrightarrow> expandPass qs owned \<subseteq> descendants ps roots"
proof (induction qs arbitrary: owned)
  case (Cons q qs)
  have "pr_PID q \<in> descendants ps roots" if "pr_PPID q \<in> owned"
    using that Cons.prems by (auto intro: child)
  then show ?case using Cons.IH [of owned] Cons.IH [of "insert (pr_PID q) owned"] Cons.prems by simp
qed simp

lemma expandPass_step: "p \<in> set ps \<Longrightarrow> pr_PPID p \<in> owned \<Longrightarrow> pr_PID p \<in> expandPass ps owned"
proof (induction ps arbitrary: owned)
  case (Cons q ps)
  show ?case
  proof (cases "p = q")
    case True
    then show ?thesis using Cons.prems(2) expandPass_mono [of "insert (pr_PID q) owned" ps] expandPass_mono [of owned ps] by auto
  next
    case False
    then show ?thesis using Cons by auto
  qed
qed simp

lemma expandOwned_descendants: "expandOwned ps roots = descendants ps roots"
proof
  show "expandOwned ps roots \<subseteq> descendants ps roots"
  proof -
    have "expandOwned ps owned \<subseteq> descendants ps roots" if "owned \<subseteq> descendants ps roots" for owned
      using that
    proof (induction ps owned rule: expandOwned.induct)
      case (1 ps owned)
      then show ?case using expandPass_sound [OF subset_refl 1(2)] by (subst expandOwned.simps) (simp add: Let_def)
    qed
    then show ?thesis by (auto intro: root)
  qed
  have "owned \<subseteq> expandOwned ps owned \<and> expandPass ps (expandOwned ps owned) = expandOwned ps owned" for owned
  proof (induction ps owned rule: expandOwned.induct)
    case (1 ps owned)
    show ?case
    proof (cases "expandPass ps owned = owned")
      case True
      then show ?thesis by (simp add: expandOwned.simps [of ps owned] Let_def)
    next
      case False
      then have "expandOwned ps owned = expandOwned ps (expandPass ps owned)" by (simp add: expandOwned.simps [of ps owned] Let_def)
      then show ?thesis using 1 [OF refl False] expandPass_mono [of owned ps] by auto
    qed
  qed
  then have closed: "roots \<subseteq> expandOwned ps roots" "expandPass ps (expandOwned ps roots) = expandOwned ps roots" by simp_all
  show "descendants ps roots \<subseteq> expandOwned ps roots"
  proof
    fix x assume "x \<in> descendants ps roots"
    then show "x \<in> expandOwned ps roots"
    proof induction
      case (child p)
      then show ?case using expandPass_step closed(2) by metis
    qed (use closed(1) in blast)
  qed
qed

lemma ownAncestors_sound:
  assumes "pid \<in> roots \<or> pid \<in> ancestors ps roots"
  shows "ownAncestors ps seen pid owned \<subseteq> owned \<union> ancestors ps roots"
  using assms
proof (induction ps seen pid owned rule: ownAncestors.induct)
  case (1 ps seen pid owned)
  show ?case
  proof (cases "pid > 1 \<and> pid \<notin> seen \<and> (\<exists>p. byPID ps pid = Some p \<and> 1 < pr_PPID p)")
    case True
    then obtain p where p: "byPID ps pid = Some p" "1 < pr_PPID p" by blast
    then have up: "pr_PPID p \<in> ancestors ps roots" using True 1(2) by (auto intro: parent grandparent)
    have "ownAncestors ps seen pid owned = ownAncestors ps (insert pid seen) (pr_PPID p) (insert (pr_PPID p) owned)"
      using True p by (simp add: ownAncestors.simps [of ps seen pid owned])
    then show ?thesis using 1(1) [OF _ p(1)] True p(2) up by auto
  next
    case False
    then have "ownAncestors ps seen pid owned = owned"
      by (subst ownAncestors.simps) (auto split: option.splits)
    then show ?thesis by auto
  qed
qed

text \<open>The loop visits the whole chain: the processes it has seen, with the one it is at, are closed under taking the parent.\<close>

definition parentsIn :: "'f processUsage list \<Rightarrow> int set \<Rightarrow> int set \<Rightarrow> int set \<Rightarrow> bool" where
  "parentsIn ps xs C owned \<longleftrightarrow>
     (\<forall>x \<in> xs. \<forall>p. 1 < x \<longrightarrow> byPID ps x = Some p \<longrightarrow> 1 < pr_PPID p \<longrightarrow> pr_PPID p \<in> C \<and> pr_PPID p \<in> owned)"

lemma ownAncestors_complete:
  assumes "parentsIn ps seen (insert pid seen) owned"
  shows "owned \<subseteq> ownAncestors ps seen pid owned \<and>
    (\<exists>C. insert pid seen \<subseteq> C \<and> parentsIn ps C C (ownAncestors ps seen pid owned))"
  using assms
proof (induction ps seen pid owned rule: ownAncestors.induct)
  case (1 ps seen pid owned)
  show ?case
  proof (cases "pid > 1 \<and> pid \<notin> seen \<and> (\<exists>p. byPID ps pid = Some p \<and> 1 < pr_PPID p)")
    case True
    then obtain p where p: "byPID ps pid = Some p" "1 < pr_PPID p" by blast
    have eq: "ownAncestors ps seen pid owned = ownAncestors ps (insert pid seen) (pr_PPID p) (insert (pr_PPID p) owned)"
      using True p by (simp add: ownAncestors.simps [of ps seen pid owned])
    have "parentsIn ps (insert pid seen) (insert (pr_PPID p) (insert pid seen)) (insert (pr_PPID p) owned)"
      using 1(2) p(1) by (auto simp: parentsIn_def)
    then show ?thesis using 1(1) [OF _ p(1)] True p(2) unfolding eq by auto
  next
    case False
    then have eq: "ownAncestors ps seen pid owned = owned"
      by (subst ownAncestors.simps) (auto split: option.splits)
    have "parentsIn ps (insert pid seen) (insert pid seen) owned"
      using 1(2) False by (auto simp: parentsIn_def)
    then show ?thesis unfolding eq by blast
  qed
qed

lemma ownAncestors_eq: "ownAncestors ps {} pid owned = owned \<union> ancestors ps {pid}"
proof
  show "ownAncestors ps {} pid owned \<subseteq> owned \<union> ancestors ps {pid}" by (rule ownAncestors_sound) simp
  have "parentsIn ps {} (insert pid {}) owned" by (simp add: parentsIn_def)
  from ownAncestors_complete [OF this] obtain C where C: "owned \<subseteq> ownAncestors ps {} pid owned" "pid \<in> C"
    "parentsIn ps C C (ownAncestors ps {} pid owned)" by auto
  have "x \<in> C \<and> x \<in> ownAncestors ps {} pid owned \<and> 1 < x" if "x \<in> ancestors ps {pid}" for x
    using that
  proof induction
    case (parent r p)
    then show ?case using C(2,3) by (auto simp: parentsIn_def)
  next
    case (grandparent a p)
    then show ?case using C(3) by (auto simp: parentsIn_def)
  qed
  then show "owned \<union> ancestors ps {pid} \<subseteq> ownAncestors ps {} pid owned" using C(1) by auto
qed

lemma ancestors_mono: "x \<in> ancestors ps roots \<Longrightarrow> roots \<subseteq> roots' \<Longrightarrow> x \<in> ancestors ps roots'"
  by (induction rule: ancestors.induct) (auto intro: parent grandparent)

lemma ancestors_Un: "ancestors ps (insert r roots) = ancestors ps {r} \<union> ancestors ps roots"
proof
  show "ancestors ps (insert r roots) \<subseteq> ancestors ps {r} \<union> ancestors ps roots"
  proof
    fix x assume "x \<in> ancestors ps (insert r roots)"
    then show "x \<in> ancestors ps {r} \<union> ancestors ps roots"
      by induction (auto intro: parent grandparent)
  qed
qed (auto elim: ancestors_mono)

lemma ancestors_empty: "ancestors ps {} = {}"
proof -
  have "x \<notin> ancestors ps {}" for x
  proof
    assume "x \<in> ancestors ps {}"
    then show False by induction auto
  qed
  then show ?thesis by blast
qed

lemma ownAncestors_fold: "fold (\<lambda>root owned. ownAncestors ps {} root owned) roots owned = owned \<union> ancestors ps (set roots)"
proof (induction roots arbitrary: owned)
  case (Cons r roots)
  then show ?case by (simp add: ownAncestors_eq ancestors_Un [of ps r "set roots"] Un_assoc)
qed (simp add: ancestors_empty)

text \<open>The processes that run as the sidecar of a controller.\<close>

definition sidecars :: "'f processUsage list \<Rightarrow> int set \<Rightarrow> 'f processUsage \<Rightarrow> int set" where
  "sidecars ps owned c = pr_PID ` {p \<in> set ps. pr_PID p \<notin> owned \<and> pr_PPID p = pr_PID c \<and> pr_Command p = sidecarCommand c}"

lemma sidecarMatch_sound:
  assumes "sidecarMatch ps owned c found = Inr g" "0 \<notin> pr_PID ` set ps"
  shows "if found \<noteq> 0 then g = found \<and> sidecars ps owned c = {} else sidecars ps owned c = (if g = 0 then {} else {g})"
  using assms
proof (induction ps arbitrary: found)
  case Nil
  then show ?case by (simp add: sidecars_def)
next
  case (Cons p ps)
  let ?skip = "pr_PID p \<in> owned \<or> pr_PPID p \<noteq> pr_PID c \<or> pr_Command p \<noteq> sidecarCommand c"
  have split: "sidecars (p # ps) owned c = (if ?skip then {} else {pr_PID p}) \<union> sidecars ps owned c"
    by (auto simp: sidecars_def)
  have p: "pr_PID p \<noteq> 0" "0 \<notin> pr_PID ` set ps" using Cons.prems(2) by auto
  show ?case
  proof (cases ?skip)
    case True
    then show ?thesis using Cons.IH [of found] Cons.prems(1) p(2) split by simp
  next
    case False
    then have "found = 0" "sidecarMatch ps owned c (pr_PID p) = Inr g" using Cons.prems(1) by (auto split: if_splits)
    then show ?thesis using Cons.IH [of "pr_PID p"] p split False by (auto split: if_splits)
  qed
qed

lemma ownSidecars_sound:
  assumes "ownSidecars ps cs owned = Inr owned'" "0 \<notin> pr_PID ` set ps" "distinct (map pr_PID ps)" "distinct (map pr_PID cs)"
  shows "owned' = owned \<union> (\<Union>c \<in> set cs. sidecars ps owned c)"
  using assms
proof (induction cs arbitrary: owned)
  case (Cons c cs)
  obtain g where g: "sidecarMatch ps owned c 0 = Inr g" using Cons.prems(1) by (auto split: sum.splits)
  let ?owned = "if g \<noteq> 0 then insert g owned else owned"
  have side: "sidecars ps owned c = (if g = 0 then {} else {g})" using sidecarMatch_sound [OF g Cons.prems(2)] by simp
  then have own: "?owned = owned \<union> sidecars ps owned c" by simp
  have same: "sidecars ps ?owned d = sidecars ps owned d" if d: "d \<in> set cs" for d
  proof -
    have ne: "pr_PID c \<noteq> pr_PID d" using Cons.prems(4) d by force
    have "pr_PID p \<notin> sidecars ps owned c" if p: "p \<in> set ps" "pr_PPID p = pr_PID d" for p
    proof
      assume "pr_PID p \<in> sidecars ps owned c"
      then obtain q where q: "q \<in> set ps" "pr_PID q = pr_PID p" "pr_PPID q = pr_PID c" by (auto simp: sidecars_def)
      then have "q = p" using Cons.prems(3) p(1) by (auto simp: distinct_map dest: inj_onD)
      then show False using q(3) p(2) ne by simp
    qed
    then show ?thesis unfolding own sidecars_def [of ps _ d] by auto
  qed
  have "ownSidecars ps cs ?owned = Inr owned'" using Cons.prems(1) g by simp
  then have "owned' = ?owned \<union> (\<Union>d \<in> set cs. sidecars ps ?owned d)"
    using Cons.IH [of ?owned] Cons.prems(2-4) by simp
  then show ?case using own same by auto
qed simp

lemma byPID_PID: "byPID ps pid = Some p \<Longrightarrow> pr_PID p = pid"
  by (auto simp: byPID_def dest: map_of_SomeD)

text \<open>The controllers: parents of roots that are not themselves below a root.\<close>

definition isController :: "'f processUsage list \<Rightarrow> int set \<Rightarrow> int set \<Rightarrow> 'f processUsage \<Rightarrow> bool" where
  "isController ps owned roots c \<longleftrightarrow> (\<exists>r \<in> roots. \<exists>p. byPID ps r = Some p \<and> 1 < pr_PPID p \<and> pr_PPID p \<notin> owned \<and>
     byPID ps (pr_PPID p) = Some c)"

lemma controllersOf_set: "set (controllersOf ps owned roots) = {c. isController ps owned (set roots) c}"
proof -
  have "c \<in> set (case byPID ps r of None \<Rightarrow> [] | Some p \<Rightarrow>
      if pr_PPID p \<le> 1 \<or> pr_PPID p \<in> owned then [] else case byPID ps (pr_PPID p) of None \<Rightarrow> [] | Some parent \<Rightarrow> [parent]) \<longleftrightarrow>
    (\<exists>p. byPID ps r = Some p \<and> 1 < pr_PPID p \<and> pr_PPID p \<notin> owned \<and> byPID ps (pr_PPID p) = Some c)" for c r
    by (cases "byPID ps r") (auto split: option.split)
  then show ?thesis unfolding controllersOf_def isController_def by (simp only: set_concat set_map) auto
qed

lemma sortedControllers_set:
  assumes "\<And>c d. c \<in> set cs \<Longrightarrow> d \<in> set cs \<Longrightarrow> pr_PID c = pr_PID d \<Longrightarrow> c = d"
  shows "set (sortedControllers cs) = set cs" "distinct (map pr_PID (sortedControllers cs))"
proof -
  let ?f = "\<lambda>pid. the (map_of (rev (map (\<lambda>c. (pr_PID c, c)) cs)) pid)"
  have f: "?f (pr_PID c) = c" if c: "c \<in> set cs" for c
  proof -
    have "pr_PID c \<in> fst ` set (rev (map (\<lambda>c. (pr_PID c, c)) cs))" using c by (simp add: image_image)
    then obtain d where d: "map_of (rev (map (\<lambda>c. (pr_PID c, c)) cs)) (pr_PID c) = Some d"
      by (cases "map_of (rev (map (\<lambda>c. (pr_PID c, c)) cs)) (pr_PID c)") (auto simp: map_of_eq_None_iff)
    then have "d \<in> set cs \<and> pr_PID d = pr_PID c" by (auto dest!: map_of_SomeD)
    then show ?thesis using assms c d by auto
  qed
  have "(\<lambda>c. ?f (pr_PID c)) ` set cs = (\<lambda>c. c) ` set cs" by (rule image_cong [OF refl]) (rule f)
  then show "set (sortedControllers cs) = set cs" unfolding sortedControllers_def by (simp only: set_map set_sort set_remdups image_image) simp
  have "map pr_PID (sortedControllers cs) = sort (remdups (map pr_PID cs))"
    unfolding sortedControllers_def map_map by (rule map_idI) (auto simp: f)
  then show "distinct (map pr_PID (sortedControllers cs))" by simp
qed

text \<open>C25: The guard trusts exactly the measurement's own processes. When it finds the processes it owns, these are: everything started
  below the measuring processes, to any depth; the ancestors of these, up to but without the process 1; and of the other children of
  a controller, the parent of a root that is not below a root itself, only the one whose command is that controller's under
  \<^verbatim>\<open>/usr/bin/caffeinate -dimsu\<close>. Every other process is foreign, the siblings of the controller and the children of its
  sidecar among them.\<close>

theorem owned_exactly:
  assumes "ownedProcessTree ps roots = Inr owned" "distinct (map pr_PID ps)" "0 \<notin> pr_PID ` set ps"
  shows "owned =
    (let below = descendants ps {r \<in> set roots. r \<in> pr_PID ` set ps}; above = ancestors ps (set roots) in
     below \<union> above \<union> (\<Union>c \<in> {c. isController ps below (set roots) c}. sidecars ps (below \<union> above) c))"
proof -
  have present: "{pid \<in> set roots. byPID ps pid \<noteq> None} = {r \<in> set roots. r \<in> pr_PID ` set ps}"
  proof -
    have "byPID ps pid \<noteq> None \<longleftrightarrow> pid \<in> pr_PID ` set ps" for pid
      unfolding byPID_def by (simp add: map_of_eq_None_iff image_image)
    then show ?thesis by blast
  qed
  let ?below = "descendants ps {r \<in> set roots. r \<in> pr_PID ` set ps}"
  let ?cs = "controllersOf ps ?below roots"
  have run: "ownSidecars ps (sortedControllers ?cs) (?below \<union> ancestors ps (set roots)) = Inr owned"
    using assms(1) unfolding ownedProcessTree_def Let_def present expandOwned_descendants ownAncestors_fold .
  have "c = d" if "c \<in> set ?cs" "d \<in> set ?cs" "pr_PID c = pr_PID d" for c d
  proof -
    have "byPID ps (pr_PID x) = Some x" if x: "x \<in> set ?cs" for x
    proof -
      obtain i where "byPID ps i = Some x" using x unfolding controllersOf_set isController_def by blast
      then show ?thesis using byPID_PID by metis
    qed
    then show ?thesis using that by (metis option.inject)
  qed
  then have cs: "set (sortedControllers ?cs) = set ?cs" "distinct (map pr_PID (sortedControllers ?cs))"
    using sortedControllers_set by blast+
  show ?thesis using ownSidecars_sound [OF run assms(3,2) cs(2)] unfolding cs(1) controllersOf_set by (simp add: Let_def)
qed

text \<open>A controller 10 with its sidecar 11, an unrelated build 12, and the measurement 20 with a child.\<close>

definition demoProcesses :: "unit processUsage list" where
  "demoProcesses =
     [\<lparr>pr_PID = 10, pr_PPID = 2, pr_CPU = (), pr_Command = B ''go run''\<rparr>,
      \<lparr>pr_PID = 11, pr_PPID = 10, pr_CPU = (), pr_Command = B ''/usr/bin/caffeinate -dimsu go run''\<rparr>,
      \<lparr>pr_PID = 12, pr_PPID = 10, pr_CPU = (), pr_Command = B ''compile''\<rparr>,
      \<lparr>pr_PID = 20, pr_PPID = 10, pr_CPU = (), pr_Command = B ''benchrun''\<rparr>,
      \<lparr>pr_PID = 21, pr_PPID = 20, pr_CPU = (), pr_Command = B ''loadgen''\<rparr>]"

lemma demoProcesses_owned: "ownedProcessTree demoProcesses [20] = Inr {20, 21, 10, 2, 11}"
  by (simp add: ownedProcessTree_def demoProcesses_def expandOwned.simps ownAncestors.simps byPID_def controllersOf_def
      sortedControllers_def sidecarCommand_def Let_def insert_commute)

theorem owned_exactly_witness:
  "12 \<notin> descendants demoProcesses {r \<in> set [20]. r \<in> pr_PID ` set demoProcesses} \<and> 12 \<notin> ancestors demoProcesses (set [20])"
proof -
  have "distinct (map pr_PID demoProcesses)" "0 \<notin> pr_PID ` set demoProcesses" by (simp_all add: demoProcesses_def)
  note owned = owned_exactly [OF demoProcesses_owned this, unfolded Let_def]
  have "12 \<notin> {20, 21, 10, 2, 11 :: int}" by simp
  then show ?thesis unfolding owned by blast
qed

end
