(* ===== verification/Inference.thy ===== *)
theory Inference
  imports Load_Result "HOL-Library.AList" "HOL-Library.Multiset" "HOL-Library.Product_Lexorder"
begin

text \<open>
  Paired inference over benchmark samples, the package \<^verbatim>\<open>bench/harness/paired\<close>: the validation of a sample, the ratios of
  candidate and comparator, medians and percentiles, and the bootstrap over sessions and the blocks in them. The random
  generator of \<^verbatim>\<open>math/rand/v2\<close> is a parameter; floating-point numbers are those of \<^verbatim>\<open>Load_Result\<close>.
\<close>

section \<open>Samples\<close>

text \<open>The next call, unless the last one returned an error.\<close>

definition andThen :: "'e + 'a \<Rightarrow> ('a \<Rightarrow> 'e + 'b) \<Rightarrow> 'e + 'b" where
  "andThen x f = (case x of Inl e \<Rightarrow> Inl e | Inr v \<Rightarrow> f v)"

lemma andThen_Inr [simp]: "andThen x f = Inr w \<longleftrightarrow> (\<exists>v. x = Inr v \<and> f v = Inr w)"
  by (cases x) (simp_all add: andThen_def)

lemma andThen_simps [simp]: "andThen (Inr v) f = f v" "andThen (Inl e) f = Inl e"
  by (simp_all add: andThen_def)

definition SampleSchemaVersion :: int where "SampleSchemaVersion = 2"

definition MetricThroughput :: bytes where "MetricThroughput = B ''throughput_messages_per_second''"
definition MetricP99 :: bytes where "MetricP99 = B ''p99_nanoseconds''"
definition MetricP999 :: bytes where "MetricP999 = B ''p999_nanoseconds''"
definition MetricServerCPUPerMessage :: bytes where "MetricServerCPUPerMessage = B ''server_cpu_seconds_per_message''"
definition MetricServerRSSPerConn :: bytes where "MetricServerRSSPerConn = B ''server_rss_bytes_per_connection''"
definition MetricClientCPUPerMessage :: bytes where "MetricClientCPUPerMessage = B ''client_cpu_seconds_per_message''"

lemmas metric_defs = MetricThroughput_def MetricP99_def MetricP999_def MetricServerCPUPerMessage_def
  MetricServerRSSPerConn_def MetricClientCPUPerMessage_def

text \<open>The orders of a block, as the strings of a sample.\<close>

definition orderAB :: bytes where "orderAB = B ''AB''"
definition orderBA :: bytes where "orderBA = B ''BA''"

record 'f Sample =
  sa_LoadgenResult :: "'f LoadgenResult"
  sa_SchemaVersion :: int
  sa_SessionID :: bytes
  sa_BlockID :: bytes
  sa_Order :: bytes
  sa_BinarySHA256 :: bytes
  sa_PolicySHA256 :: bytes
  sa_AdapterSHA256 :: bytes
  sa_Scenario :: bytes
  sa_Library :: bytes
  sa_Repetition :: int
  sa_OrderIndex :: int
  sa_ServerProcessUsage :: "'f Usage"
  sa_ServerCPUSeconds :: 'f
  sa_ServerMaxRSSBytes :: int
  sa_ServerCPUSecondsPerMessage :: 'f
  sa_ServerRSSBytesPerConnection :: 'f
  sa_ClientCPUSecondsPerMessage :: 'f

datatype sampleErr =
    SampleVersionErr int | Required string | SampleOrderErr bytes | SHA256Err string | RepetitionErr int
  | RusageUnavailable | LoadgenErr resultErr | DerivedDisagree
  | UnknownMetric bytes | MissingSamples bytes nat nat | RepetitionCount bytes nat nat | ZeroComparator bytes nat

definition validateSample :: "'h hdrhistogram \<Rightarrow> 'f float64 \<Rightarrow> 'f Sample \<Rightarrow> sampleErr option" where
  "validateSample lib fl s =
     firstSome
      [firstErr
        [(sa_SchemaVersion s \<noteq> SampleSchemaVersion, SampleVersionErr (sa_SchemaVersion s)),
         (sa_SessionID s = [], Required ''session_id''),
         (sa_BlockID s = [], Required ''block_id''),
         (sa_Order s \<noteq> orderAB \<and> sa_Order s \<noteq> orderBA, SampleOrderErr (sa_Order s)),
         (\<not> ValidSHA256 (sa_BinarySHA256 s), SHA256Err ''binary''),
         (\<not> ValidSHA256 (sa_PolicySHA256 s), SHA256Err ''policy''),
         (\<not> ValidSHA256 (sa_AdapterSHA256 s), SHA256Err ''adapter''),
         (sa_Scenario s = [], Required ''scenario''),
         (sa_Library s = [], Required ''library''),
         (sa_Repetition s < 0, RepetitionErr (sa_Repetition s)),
         (\<not> us_Available (sa_ServerProcessUsage s), RusageUnavailable)],
       map_option LoadgenErr (HardFailure lib fl (sa_LoadgenResult s)),
       firstErr
        [(\<not> f_eq fl (sa_ServerCPUSeconds s) (us_CPUSeconds (r_ServerUsage (sa_LoadgenResult s))) \<or>
          sa_ServerMaxRSSBytes s \<noteq> us_MaxRSSBytes (r_ServerUsage (sa_LoadgenResult s)), DerivedDisagree)]]"

definition sampleMetricOf :: "'f float64 \<Rightarrow> 'f Sample \<Rightarrow> bytes \<Rightarrow> sampleErr + 'f" where
  "sampleMetricOf fl s name =
     (if name = MetricThroughput then Inr (r_ThroughputPerSecond (sa_LoadgenResult s))
      else if name = MetricP99 then Inr (f_ofInt fl (r_P99 (sa_LoadgenResult s)))
      else if name = MetricP999 then Inr (f_ofInt fl (r_P999 (sa_LoadgenResult s)))
      else if name = MetricServerCPUPerMessage then Inr (sa_ServerCPUSecondsPerMessage s)
      else if name = MetricServerRSSPerConn then Inr (sa_ServerRSSBytesPerConnection s)
      else if name = MetricClientCPUPerMessage then Inr (sa_ClientCPUSecondsPerMessage s)
      else Inl (UnknownMetric name))"

text \<open>\<^verbatim>\<open>slices.SortFunc\<close> is not stable; \<open>sort_key\<close> keeps the order of samples with the same repetition.\<close>

definition forScenario :: "'f Sample list \<Rightarrow> bytes \<Rightarrow> bytes \<Rightarrow> 'f Sample list" where
  "forScenario samples scenario library =
     sort_key sa_Repetition (filter (\<lambda>s. sa_Scenario s = scenario \<and> sa_Library s = library) samples)"

fun ratiosLoop :: "'f float64 \<Rightarrow> bytes \<Rightarrow> bytes \<Rightarrow> nat \<Rightarrow> 'f Sample list \<Rightarrow> 'f Sample list \<Rightarrow> sampleErr + 'f list" where
  "ratiosLoop fl scenario metric i (c # cand) (d # compared) =
     (case sampleMetricOf fl c metric of
        Inl e \<Rightarrow> Inl e
      | Inr cv \<Rightarrow>
        (case sampleMetricOf fl d metric of
           Inl e \<Rightarrow> Inl e
         | Inr dv \<Rightarrow>
             if f_eq fl dv (f_ofInt fl 0) then Inl (ZeroComparator scenario i)
             else map_sum id (\<lambda>rs. f_div fl cv dv # rs) (ratiosLoop fl scenario metric (Suc i) cand compared)))"
| "ratiosLoop fl scenario metric i _ _ = Inr []"

definition Ratios :: "'f float64 \<Rightarrow> 'f Sample list \<Rightarrow> bytes \<Rightarrow> bytes \<Rightarrow> bytes \<Rightarrow> bytes \<Rightarrow> sampleErr + 'f list" where
  "Ratios fl samples scenario candidate comparator metric =
     (let cand = forScenario samples scenario candidate; compared = forScenario samples scenario comparator in
      if length cand = 0 \<or> length compared = 0 then Inl (MissingSamples scenario (length cand) (length compared))
      else if length cand \<noteq> length compared then Inl (RepetitionCount scenario (length cand) (length compared))
      else ratiosLoop fl scenario metric 0 cand compared)"

section \<open>Order statistics\<close>

text \<open>\<^verbatim>\<open>slices.Sort\<close> puts the NaNs first.\<close>

definition cmpLess :: "'f float64 \<Rightarrow> 'f \<Rightarrow> 'f \<Rightarrow> bool" where
  "cmpLess fl x y \<longleftrightarrow> (\<not> f_eq fl x x \<and> f_eq fl y y) \<or> f_less fl x y"

primrec insertFloat :: "'f float64 \<Rightarrow> 'f \<Rightarrow> 'f list \<Rightarrow> 'f list" where
  "insertFloat fl x [] = [x]"
| "insertFloat fl x (y # ys) = (if cmpLess fl y x then y # insertFloat fl x ys else x # y # ys)"

definition sortFloats :: "'f float64 \<Rightarrow> 'f list \<Rightarrow> 'f list" where
  "sortFloats fl xs = foldr (insertFloat fl) xs []"

definition interpolate :: "'f float64 \<Rightarrow> 'f list \<Rightarrow> 'f \<Rightarrow> 'f" where
  "interpolate fl sorted' q =
     (let pos = f_mul fl q (f_ofInt fl (int (length sorted') - 1)); lo = nat (f_toInt fl pos) in
      if lo + 1 \<ge> length sorted' then sorted' ! lo
      else
        let frac = f_sub fl pos (f_ofInt fl (int lo)) in
        f_add fl (sorted' ! lo) (f_mul fl frac (f_sub fl (sorted' ! (lo + 1)) (sorted' ! lo))))"

definition percentileSorted :: "'f float64 \<Rightarrow> 'f list \<Rightarrow> 'f \<Rightarrow> 'f" where
  "percentileSorted fl sorted' q =
     (if sorted' = [] then f_ofInt fl 0
      else if f_le fl q (f_ofInt fl 0) then sorted' ! 0
      else if f_le fl (f_ofInt fl 1) q then sorted' ! (length sorted' - 1)
      else interpolate fl sorted' q)"

definition Median :: "'f float64 \<Rightarrow> 'f list \<Rightarrow> 'f" where
  "Median fl xs = (if xs = [] then f_ofInt fl 0 else percentileSorted fl (sortFloats fl xs) (f_literal fl ''0.5''))"

primrec geomeanLoop :: "'f float64 \<Rightarrow> 'f list \<Rightarrow> 'f \<Rightarrow> 'f option" where
  "geomeanLoop fl [] sumLog = Some sumLog"
| "geomeanLoop fl (x # xs) sumLog =
     (if f_le fl x (f_ofInt fl 0) then None else geomeanLoop fl xs (f_add fl sumLog (f_log fl x)))"

definition Geomean :: "'f float64 \<Rightarrow> 'f list \<Rightarrow> 'f" where
  "Geomean fl xs =
     (if xs = [] then f_ofInt fl 0
      else case geomeanLoop fl xs (f_ofInt fl 0) of
        None \<Rightarrow> f_NaN fl
      | Some sumLog \<Rightarrow> f_exp fl (f_div fl sumLog (f_ofInt fl (int (length xs)))))"

section \<open>Resampling\<close>

text \<open>A generator of \<^verbatim>\<open>math/rand/v2\<close>: \<^verbatim>\<open>rand.New(rand.NewPCG(a, b))\<close> and \<^verbatim>\<open>IntN\<close>, whose result is below its argument.\<close>

record 'g rand =
  rd_NewPCG :: "64 word \<Rightarrow> 64 word \<Rightarrow> 'g"
  rd_IntN :: "nat \<Rightarrow> 'g \<Rightarrow> nat \<times> 'g"

definition goldenGamma :: "64 word" where "goldenGamma = 0x9E3779B97F4A7C15"

definition SeededRand :: "'g rand \<Rightarrow> 64 word \<Rightarrow> 'g" where
  "SeededRand rd seed = rd_NewPCG rd seed (seed XOR goldenGamma)"

text \<open>A loop that runs \<open>n\<close> times and threads the generator.\<close>

primrec drawing :: "nat \<Rightarrow> ('g \<Rightarrow> 'a \<times> 'g) \<Rightarrow> 'g \<Rightarrow> 'a list \<times> 'g" where
  "drawing 0 f g = ([], g)"
| "drawing (Suc n) f g = (case f g of (x, g) \<Rightarrow> case drawing n f g of (xs, g) \<Rightarrow> (x # xs, g))"

definition pick :: "'g rand \<Rightarrow> 'a list \<Rightarrow> 'g \<Rightarrow> 'a \<times> 'g" where
  "pick rd xs g = (case rd_IntN rd (length xs) g of (i, g) \<Rightarrow> (xs ! i, g))"

definition percentileInterval :: "'f float64 \<Rightarrow> 'f list \<Rightarrow> 'f \<Rightarrow> 'f \<times> 'f" where
  "percentileInterval fl values confidence =
     (let sorted' = sortFloats fl values;
          alpha = f_div fl (f_sub fl (f_ofInt fl 1) confidence) (f_ofInt fl 2) in
      (percentileSorted fl sorted' alpha, percentileSorted fl sorted' (f_sub fl (f_ofInt fl 1) alpha)))"

definition bootstrapMedian :: "'g rand \<Rightarrow> 'f float64 \<Rightarrow> 'f list \<Rightarrow> int \<Rightarrow> 'f \<Rightarrow> 64 word \<Rightarrow> 'f \<times> 'f \<times> 'f" where
  "bootstrapMedian rd fl ratios replicates confidence seed =
     (let center = Median fl ratios in
      if ratios = [] \<or> replicates \<le> 0 then (center, center, center)
      else
        let medians = fst (drawing (nat replicates)
              (\<lambda>g. case drawing (length ratios) (pick rd ratios) g of (resample, g) \<Rightarrow> (Median fl resample, g)) (SeededRand rd seed)) in
        (center, percentileInterval fl medians confidence))"

section \<open>Block ratios\<close>

record 'f BlockRatio =
  br_SessionID :: bytes
  br_Scenario :: bytes
  br_BlockID :: bytes
  br_Order :: bytes
  br_Value :: 'f

record 'f InferenceConfig =
  ic_Replicates :: int
  ic_Confidence :: 'f
  ic_Seed :: "64 word"

record 'f Interval =
  iv_Center :: 'f
  iv_Lower :: 'f
  iv_Upper :: 'f

record 'f sessionRatios =
  sr_id :: bytes
  sr_blocks :: "'f BlockRatio list"

datatype inferenceErr =
    ReplicatesErr int | ConfidenceErr | NoRatios | EmptyIdentity | RatioOrderErr bytes bytes bytes | RatioValueErr bytes bytes bytes
  | DuplicateRatio bytes bytes bytes | LacksOrder bytes | InvalidInput

definition BlockKey :: "bytes \<Rightarrow> bytes \<Rightarrow> bytes \<Rightarrow> bytes" where
  "BlockKey sessionID scenario block = sessionID @ [0] @ scenario @ [0] @ block"

definition ratioKey :: "'f BlockRatio \<Rightarrow> bytes" where
  "ratioKey r = BlockKey (br_SessionID r) (br_Scenario r) (br_BlockID r)"

text \<open>The map \<^verbatim>\<open>bySession\<close> as a list of its entries; an absent entry is an empty slice.\<close>

definition blocksOf :: "(bytes \<times> 'a list) list \<Rightarrow> bytes \<Rightarrow> 'a list" where
  "blocksOf bySession id' = (case map_of bySession id' of None \<Rightarrow> [] | Some bs \<Rightarrow> bs)"

definition appendTo :: "bytes \<Rightarrow> 'a \<Rightarrow> (bytes \<times> 'a list) list \<Rightarrow> (bytes \<times> 'a list) list" where
  "appendTo id' x bySession = AList.update id' (blocksOf bySession id' @ [x]) bySession"

definition ratioErr :: "'f float64 \<Rightarrow> 'f BlockRatio \<Rightarrow> inferenceErr option" where
  "ratioErr fl r =
     firstErr
      [(br_SessionID r = [] \<or> br_Scenario r = [] \<or> br_BlockID r = [], EmptyIdentity),
       (br_Order r \<noteq> orderAB \<and> br_Order r \<noteq> orderBA, RatioOrderErr (br_SessionID r) (br_Scenario r) (br_BlockID r)),
       (f_le fl (br_Value r) (f_ofInt fl 0) \<or> \<not> f_finite fl (br_Value r), RatioValueErr (br_SessionID r) (br_Scenario r) (br_BlockID r))]"

text \<open>The loop over the ratios; \<open>check\<close> is what the caller demands of each.\<close>

primrec groupLoop ::
  "('f BlockRatio \<Rightarrow> inferenceErr option) \<Rightarrow> 'f BlockRatio list \<Rightarrow> bytes set \<Rightarrow> (bytes \<times> 'f BlockRatio list) list \<Rightarrow>
     inferenceErr + (bytes \<times> 'f BlockRatio list) list" where
  "groupLoop check [] seen bySession = Inr bySession"
| "groupLoop check (r # rs) seen bySession =
     (case check r of
        Some e \<Rightarrow> Inl e
      | None \<Rightarrow>
          if ratioKey r \<in> seen then Inl (DuplicateRatio (br_SessionID r) (br_Scenario r) (br_BlockID r))
          else groupLoop check rs (insert (ratioKey r) seen) (appendTo (br_SessionID r) r bySession))"

definition groupRatios :: "'f float64 \<Rightarrow> 'f BlockRatio list \<Rightarrow> 'f InferenceConfig \<Rightarrow> inferenceErr + 'f sessionRatios list" where
  "groupRatios fl ratios cfg =
     (if ic_Replicates cfg \<le> 0 then Inl (ReplicatesErr (ic_Replicates cfg))
      else if f_le fl (ic_Confidence cfg) (f_ofInt fl 0) \<or> f_le fl (f_ofInt fl 1) (ic_Confidence cfg) then Inl ConfidenceErr
      else if ratios = [] then Inl NoRatios
      else case groupLoop (ratioErr fl) ratios {} [] of
        Inl e \<Rightarrow> Inl e
      | Inr bySession \<Rightarrow>
          Inr (map (\<lambda>id'. \<lparr>sr_id = id', sr_blocks = sort_key (\<lambda>r. (br_Scenario r, br_BlockID r)) (blocksOf bySession id')\<rparr>)
            (sort (map fst bySession))))"

section \<open>The hierarchical bootstrap\<close>

text \<open>\<^verbatim>\<open>for \<dots> { sum += x }\<close> from zero.\<close>

definition sumFloats :: "'f float64 \<Rightarrow> 'f list \<Rightarrow> 'f" where
  "sumFloats fl xs = foldl (f_add fl) (f_ofInt fl 0) xs"

definition meanFloats :: "'f float64 \<Rightarrow> 'f list \<Rightarrow> 'f" where
  "meanFloats fl xs = f_div fl (sumFloats fl xs) (f_ofInt fl (int (length xs)))"

definition logValue :: "'f float64 \<Rightarrow> 'f BlockRatio \<Rightarrow> 'f" where
  "logValue fl r = f_log fl (br_Value r)"

definition meanLogRatios :: "'f float64 \<Rightarrow> 'f BlockRatio list \<Rightarrow> 'f" where
  "meanLogRatios fl ratios = meanFloats fl (map (logValue fl) ratios)"

definition meanSessionLogRatios :: "'f float64 \<Rightarrow> 'f sessionRatios list \<Rightarrow> 'f" where
  "meanSessionLogRatios fl sessions = meanFloats fl (map (\<lambda>s. meanLogRatios fl (sr_blocks s)) sessions)"

text \<open>The mean over as many blocks as there are, drawn with replacement.\<close>

definition resampledMean :: "'g rand \<Rightarrow> 'f float64 \<Rightarrow> 'f BlockRatio list \<Rightarrow> 'g \<Rightarrow> 'f \<times> 'g" where
  "resampledMean rd fl blocks g =
     (case drawing (length blocks) (pick rd blocks) g of (drawn, g) \<Rightarrow> (meanLogRatios fl drawn, g))"

definition HierarchicalBootstrap ::
  "'g rand \<Rightarrow> 'f float64 \<Rightarrow> 'f BlockRatio list \<Rightarrow> 'f InferenceConfig \<Rightarrow> inferenceErr + 'f Interval" where
  "HierarchicalBootstrap rd fl ratios cfg =
     (case groupRatios fl ratios cfg of
        Inl e \<Rightarrow> Inl e
      | Inr sessions \<Rightarrow>
          let replicates = fst (drawing (nat (ic_Replicates cfg))
                (\<lambda>g. case drawing (length sessions)
                        (\<lambda>g. case pick rd sessions g of (session, g) \<Rightarrow> resampledMean rd fl (sr_blocks session) g) g of
                   (means, g) \<Rightarrow> (f_exp fl (meanFloats fl means), g))
                (SeededRand rd (ic_Seed cfg)));
              (lower, upper) = percentileInterval fl replicates (ic_Confidence cfg) in
          Inr \<lparr>iv_Center = f_exp fl (meanSessionLogRatios fl sessions), iv_Lower = lower, iv_Upper = upper\<rparr>)"

section \<open>The order effect\<close>

definition splitOrders :: "'f BlockRatio list \<Rightarrow> 'f BlockRatio list \<times> 'f BlockRatio list" where
  "splitOrders ratios = partition (\<lambda>r. br_Order r = orderAB) ratios"

primrec orderEffects :: "'f float64 \<Rightarrow> 'f sessionRatios list \<Rightarrow> inferenceErr + 'f list" where
  "orderEffects fl [] = Inr []"
| "orderEffects fl (s # sessions) =
     (case splitOrders (sr_blocks s) of (ab, ba) \<Rightarrow>
        if ab = [] \<or> ba = [] then Inl (LacksOrder (sr_id s))
        else map_sum id (\<lambda>xs. f_sub fl (meanLogRatios fl ab) (meanLogRatios fl ba) # xs) (orderEffects fl sessions))"

definition meanOrderEffect :: "'f float64 \<Rightarrow> 'f sessionRatios list \<Rightarrow> inferenceErr + 'f" where
  "meanOrderEffect fl sessions = map_sum id (\<lambda>xs. f_exp fl (meanFloats fl xs)) (orderEffects fl sessions)"

definition resampledOrder :: "'g rand \<Rightarrow> 'f float64 \<Rightarrow> 'f sessionRatios list \<Rightarrow> 'g \<Rightarrow> 'f \<times> 'g" where
  "resampledOrder rd fl sessions g =
     (case pick rd sessions g of (session, g) \<Rightarrow>
        case splitOrders (sr_blocks session) of (ab, ba) \<Rightarrow>
          case resampledMean rd fl ab g of (abMean, g) \<Rightarrow>
            case resampledMean rd fl ba g of (baMean, g) \<Rightarrow> (f_sub fl abMean baMean, g))"

definition OrderEffect ::
  "'g rand \<Rightarrow> 'f float64 \<Rightarrow> 'f BlockRatio list \<Rightarrow> 'f InferenceConfig \<Rightarrow> inferenceErr + 'f Interval" where
  "OrderEffect rd fl ratios cfg =
     (case groupRatios fl ratios cfg of
        Inl e \<Rightarrow> Inl e
      | Inr sessions \<Rightarrow>
        (case meanOrderEffect fl sessions of
           Inl e \<Rightarrow> Inl e
         | Inr center \<Rightarrow>
             let replicates = fst (drawing (nat (ic_Replicates cfg))
                   (\<lambda>g. case drawing (length sessions) (resampledOrder rd fl sessions) g of
                      (effects, g) \<Rightarrow> (f_exp fl (meanFloats fl effects), g))
                   (SeededRand rd (ic_Seed cfg XOR goldenGamma)));
                 (lower, upper) = percentileInterval fl replicates (ic_Confidence cfg) in
             Inr \<lparr>iv_Center = center, iv_Lower = lower, iv_Upper = upper\<rparr>))"

section \<open>Grouping does not depend on the order\<close>

lemma blocksOf_appendTo [simp]: "blocksOf (appendTo i x al) j = blocksOf al j @ (if i = j then [x] else [])"
  by (simp add: appendTo_def blocksOf_def update_conv')

lemma appendTo_keys [simp]:
  "fst ` set (appendTo i x al) = insert i (fst ` set al)" "distinct (map fst al) \<Longrightarrow> distinct (map fst (appendTo i x al))"
  by (simp_all add: appendTo_def dom_update distinct_update)

lemma groupLoop_Inr:
  assumes "groupLoop check rs seen al = Inr al'" "distinct (map fst al)"
  shows "list_all (\<lambda>r. check r = None) rs \<and> distinct (map ratioKey rs) \<and> ratioKey ` set rs \<inter> seen = {} \<and>
    distinct (map fst al') \<and> fst ` set al' = fst ` set al \<union> br_SessionID ` set rs \<and>
    (\<forall>i. blocksOf al' i = blocksOf al i @ filter (\<lambda>r. br_SessionID r = i) rs)"
  using assms
proof (induction rs arbitrary: seen al)
  case (Cons r rs)
  then have "check r = None" "ratioKey r \<notin> seen"
    and rest: "groupLoop check rs (insert (ratioKey r) seen) (appendTo (br_SessionID r) r al) = Inr al'"
    by (auto split: option.splits if_splits)
  then show ?case using Cons.IH [OF rest] Cons.prems(2) by auto
qed simp

lemma groupLoop_accepts:
  assumes "list_all (\<lambda>r. check r = None) rs" "distinct (map ratioKey rs)" "ratioKey ` set rs \<inter> seen = {}"
  shows "\<exists>al'. groupLoop check rs seen al = Inr al'"
  using assms by (induction rs arbitrary: seen al) auto

text \<open>The sessions by their identifiers, the blocks of each by scenario and block.\<close>

definition canonicalSessions :: "'f BlockRatio list \<Rightarrow> 'f sessionRatios list" where
  "canonicalSessions ratios =
     map (\<lambda>id'. \<lparr>sr_id = id',
           sr_blocks = sort_key (\<lambda>r. (br_Scenario r, br_BlockID r)) (filter (\<lambda>r. br_SessionID r = id') ratios)\<rparr>)
       (sorted_list_of_set (br_SessionID ` set ratios))"

lemma groupRatios_Inr:
  "groupRatios fl ratios cfg = Inr sessions \<longleftrightarrow>
     0 < ic_Replicates cfg \<and> \<not> f_le fl (ic_Confidence cfg) (f_ofInt fl 0) \<and> \<not> f_le fl (f_ofInt fl 1) (ic_Confidence cfg) \<and>
     ratios \<noteq> [] \<and> list_all (\<lambda>r. ratioErr fl r = None) ratios \<and> distinct (map ratioKey ratios) \<and> sessions = canonicalSessions ratios"
proof (cases "groupLoop (ratioErr fl) ratios {} []")
  case (Inl e)
  then show ?thesis using groupLoop_accepts [of "ratioErr fl" ratios "{}" "[]"] by (auto simp: groupRatios_def)
next
  case (Inr al)
  note g = groupLoop_Inr [OF Inr]
  have "set (map fst al) = br_SessionID ` set ratios" "distinct (map fst al)" using g by simp_all
  then have "sort (map fst al) = sorted_list_of_set (br_SessionID ` set ratios)"
    using sorted_list_of_set_sort_remdups [of "map fst al"] by (simp add: distinct_remdups_id)
  moreover have "blocksOf al i = filter (\<lambda>r. br_SessionID r = i) ratios" for i using g by (simp add: blocksOf_def)
  ultimately show ?thesis using g Inr by (auto simp: groupRatios_def canonicalSessions_def)
qed

lemma canonicalSessions_permuted:
  assumes "mset ratios = mset ratios'" "distinct (map ratioKey ratios)"
  shows "canonicalSessions ratios = canonicalSessions ratios'"
proof -
  let ?k = "\<lambda>r. (br_Scenario r, br_BlockID r)"
  have inj: "inj_on ratioKey (set ratios)" using assms(2) by (simp add: distinct_map)
  have "inj_on ?k (set (filter (\<lambda>r. br_SessionID r = i) ratios))" for i
  proof (rule inj_onI)
    fix r r' assume "r \<in> set (filter (\<lambda>r. br_SessionID r = i) ratios)" "r' \<in> set (filter (\<lambda>r. br_SessionID r = i) ratios)" "?k r = ?k r'"
    then show "r = r'" by (intro inj_onD [OF inj]) (auto simp: ratioKey_def)
  qed
  then have "sort_key ?k (filter (\<lambda>r. br_SessionID r = i) ratios) = sort_key ?k (filter (\<lambda>r. br_SessionID r = i) ratios')" for i
    using assms(1) by (intro sort_key_eq_sort_key) simp_all
  moreover have "set ratios = set ratios'" using assms(1) by (rule mset_eq_setD)
  ultimately show ?thesis by (simp add: canonicalSessions_def)
qed

lemma keys_permuted: "mset ratios = mset ratios' \<Longrightarrow> distinct (map ratioKey ratios) \<longleftrightarrow> distinct (map ratioKey ratios')"
  by (rule mset_eq_imp_distinct_iff) simp

lemma groupRatios_permuted:
  assumes "mset ratios = mset ratios'"
  shows "groupRatios fl ratios cfg = Inr sessions \<longleftrightarrow> groupRatios fl ratios' cfg = Inr sessions"
proof -
  have "set ratios = set ratios'" by (rule mset_eq_setD [OF assms])
  moreover from this have "ratios = [] \<longleftrightarrow> ratios' = []" by (metis set_empty)
  ultimately show ?thesis
    using canonicalSessions_permuted [OF assms] keys_permuted [OF assms] unfolding groupRatios_Inr list_all_iff by auto
qed

text \<open>C26: An inference does not depend on the order in which the block ratios are given. Both bootstraps accept a permutation of the
  ratios exactly if they accept the ratios, and then compute the very same interval from it, whatever floating-point
  arithmetic rounds and whatever numbers the generator draws.\<close>

theorem inference_order_independent:
  assumes "mset ratios = mset ratios'"
  shows "(HierarchicalBootstrap rd fl ratios cfg = Inr i \<longleftrightarrow> HierarchicalBootstrap rd fl ratios' cfg = Inr i) \<and>
    (OrderEffect rd fl ratios cfg = Inr j \<longleftrightarrow> OrderEffect rd fl ratios' cfg = Inr j)"
proof -
  have "(\<exists>e e'. groupRatios fl ratios cfg = Inl e \<and> groupRatios fl ratios' cfg = Inl e') \<or>
      groupRatios fl ratios cfg = groupRatios fl ratios' cfg"
    using groupRatios_permuted [OF assms, of fl cfg] by (metis sumE)
  then show ?thesis by (auto simp: HierarchicalBootstrap_def OrderEffect_def)
qed

text \<open>A sample whose floating-point numbers are all the same.\<close>

definition exampleSample :: "bytes \<Rightarrow> bytes \<Rightarrow> 'f \<Rightarrow> 'f Sample" where
  "exampleSample scenario library x =
     \<lparr>sa_LoadgenResult = exampleResult x, sa_SchemaVersion = SampleSchemaVersion, sa_SessionID = B ''s1'', sa_BlockID = blockID 0,
      sa_Order = orderAB, sa_BinarySHA256 = replicate 64 48, sa_PolicySHA256 = replicate 64 48, sa_AdapterSHA256 = replicate 64 48,
      sa_Scenario = scenario, sa_Library = library, sa_Repetition = 0, sa_OrderIndex = 0, sa_ServerProcessUsage = exampleUsage x,
      sa_ServerCPUSeconds = x, sa_ServerMaxRSSBytes = 1, sa_ServerCPUSecondsPerMessage = x, sa_ServerRSSBytesPerConnection = x,
      sa_ClientCPUSecondsPerMessage = x\<rparr>"

text \<open>Tenths for the floating-point numbers and a generator that always draws the first.\<close>

definition demoFloats :: "int float64" where
  "demoFloats = \<lparr>f_ofInt = (\<lambda>n. 10 * n), f_literal = (\<lambda>s. 5), f_div = (\<lambda>a b. a * 10 div b), f_sub = (-), f_mul = (\<lambda>a b. a * b div 10),
     f_abs = abs, f_max = max, f_le = (\<le>), f_less = (<), f_eq = (=), f_finite = (\<lambda>x. True), f_add = (+), f_log = id, f_exp = id,
     f_NaN = 0, f_toInt = (\<lambda>x. x div 10)\<rparr>"

definition demoRand :: "unit rand" where
  "demoRand = \<lparr>rd_NewPCG = (\<lambda>a b. ()), rd_IntN = (\<lambda>n g. (0, g))\<rparr>"

definition demoRatio :: "bytes \<Rightarrow> bytes \<Rightarrow> int \<Rightarrow> int BlockRatio" where
  "demoRatio session block value = \<lparr>br_SessionID = session, br_Scenario = B ''echo'', br_BlockID = block, br_Order = orderAB, br_Value = value\<rparr>"

definition demoRatios :: "int BlockRatio list" where
  "demoRatios = [demoRatio (B ''s2'') (B ''b1'') 3, demoRatio (B ''s1'') (B ''b2'') 2, demoRatio (B ''s1'') (B ''b1'') 1]"

definition demoInference :: "int InferenceConfig" where
  "demoInference = \<lparr>ic_Replicates = 5, ic_Confidence = 9, ic_Seed = 7\<rparr>"

theorem inference_order_independent_witness:
  "\<exists>i. HierarchicalBootstrap demoRand demoFloats demoRatios demoInference = Inr i \<and>
     HierarchicalBootstrap demoRand demoFloats (rev demoRatios) demoInference = Inr i"
proof -
  have "groupRatios demoFloats demoRatios demoInference = Inr (canonicalSessions demoRatios)"
    by (simp add: groupRatios_Inr demoRatios_def demoRatio_def demoInference_def demoFloats_def ratioErr_def ratioKey_def BlockKey_def firstErr_None)
  then have "\<exists>i. HierarchicalBootstrap demoRand demoFloats demoRatios demoInference = Inr i"
    by (simp add: HierarchicalBootstrap_def split: prod.splits)
  moreover have "mset demoRatios = mset (rev demoRatios)" by simp
  ultimately show ?thesis using inference_order_independent by blast
qed

end
