(* ===== verification/Bench_Compare.thy ===== *)
theory Bench_Compare
  imports Inference
begin

text \<open>
  The comparison of two libraries under a diagnostic policy, \<^verbatim>\<open>evaluate\<close> of \<^verbatim>\<open>bench/harness/cmd/benchcmp/main.go\<close>. The
  floating-point numbers are those of the policy, with the operations of \<^verbatim>\<open>Load_Result\<close>.
\<close>

type_synonym policyFloat = "Bench_Policy.float64"

record ScenarioVerdict =
  sv_Name :: bytes
  sv_Primary :: bool
  sv_Repetitions :: nat
  sv_ThroughputCenter :: policyFloat
  sv_ThroughputLower :: policyFloat
  sv_ThroughputUpper :: policyFloat
  sv_ThroughputPass :: bool
  sv_P99Center :: policyFloat
  sv_P99Lower :: policyFloat
  sv_P99Upper :: policyFloat
  sv_P99Pass :: bool
  sv_P999Center :: policyFloat
  sv_P999Pass :: bool
  sv_ServerCPUPerMessageCenter :: policyFloat
  sv_ServerRSSPerConnectionCenter :: policyFloat
  sv_ClientCPUPerMessageCenter :: policyFloat

text \<open>Without the time \<^verbatim>\<open>GeneratedAt\<close>, which the caller adds.\<close>

record compareVerdict =
  cv_Pass :: bool
  cv_Candidate :: bytes
  cv_Comparator :: bytes
  cv_Geomean :: policyFloat
  cv_GeomeanPass :: bool
  cv_Scenarios :: "ScenarioVerdict list"
  cv_Thresholds :: Thresholds
  cv_PolicySHA256 :: bytes

datatype compareErr = NoPrimaryScenarios | SampleProblem sampleErr

definition validateLegacyPolicy :: "Policy \<Rightarrow> bool" where
  "validateLegacyPolicy pol \<longleftrightarrow>
     \<not> (se_RunKind (po_Series pol) \<noteq> RunKindDiagnostic \<or> se_EvidenceClass (po_Series pol) \<noteq> EvidenceClassDiagnostic)"

text \<open>The body of the loop: the statistics and gates of one scenario.\<close>

definition scenarioVerdict ::
  "'g rand \<Rightarrow> policyFloat float64 \<Rightarrow> policyFloat Sample list \<Rightarrow> Policy \<Rightarrow> Scenario \<Rightarrow> sampleErr + ScenarioVerdict" where
  "scenarioVerdict rd fl samples pol sc =
     (let ratios = Ratios fl samples (sc_Name sc) (po_Candidate pol) (po_Comparator pol);
          boot = (\<lambda>xs. bootstrapMedian rd fl xs (bs_Replicates (po_Bootstrap pol)) (bs_Confidence (po_Bootstrap pol)) (po_Seed pol));
          th = po_Thresholds pol in
      andThen (ratios MetricThroughput) (\<lambda>throughput. case boot throughput of (tCenter, tLower, tUpper) \<Rightarrow>
      andThen (ratios MetricP99) (\<lambda>p99. case boot p99 of (p99Center, p99Lower, p99Upper) \<Rightarrow>
      andThen (ratios MetricP999) (\<lambda>p999. let p999Center = Median fl p999 in
      andThen (ratios MetricServerCPUPerMessage) (\<lambda>serverCPU.
      andThen (ratios MetricServerRSSPerConn) (\<lambda>serverRSS.
      andThen (ratios MetricClientCPUPerMessage) (\<lambda>clientCPU.
        Inr \<lparr>sv_Name = sc_Name sc, sv_Primary = sc_Primary sc, sv_Repetitions = length throughput,
          sv_ThroughputCenter = tCenter, sv_ThroughputLower = tLower, sv_ThroughputUpper = tUpper,
          sv_ThroughputPass = f_less fl (th_ThroughputLowerBound th) tLower,
          sv_P99Center = p99Center, sv_P99Lower = p99Lower, sv_P99Upper = p99Upper,
          sv_P99Pass = f_le fl p99Upper (th_P99UpperBound th),
          sv_P999Center = p999Center, sv_P999Pass = f_le fl p999Center (th_P999CenterUpperBound th),
          sv_ServerCPUPerMessageCenter = Median fl serverCPU, sv_ServerRSSPerConnectionCenter = Median fl serverRSS,
          sv_ClientCPUPerMessageCenter = Median fl clientCPU\<rparr>)))))))"

definition gatesPass :: "ScenarioVerdict \<Rightarrow> bool" where
  "gatesPass v \<longleftrightarrow> sv_ThroughputPass v \<and> sv_P99Pass v \<and> sv_P999Pass v"

primrec evaluateLoop ::
  "(Scenario \<Rightarrow> sampleErr + ScenarioVerdict) \<Rightarrow> Scenario list \<Rightarrow> bool \<Rightarrow> policyFloat list \<Rightarrow> ScenarioVerdict list \<Rightarrow>
     sampleErr + bool \<times> policyFloat list \<times> ScenarioVerdict list" where
  "evaluateLoop verdict [] pass centers scenarios = Inr (pass, centers, scenarios)"
| "evaluateLoop verdict (sc # scs) pass centers scenarios =
     andThen (verdict sc) (\<lambda>v.
       evaluateLoop verdict scs (if sc_Primary sc \<and> \<not> gatesPass v then False else pass)
         (if sc_Primary sc then centers @ [sv_ThroughputCenter v] else centers) (scenarios @ [v]))"

definition evaluateComparison ::
  "'g rand \<Rightarrow> policyFloat float64 \<Rightarrow> policyFloat Sample list \<Rightarrow> Policy \<Rightarrow> bytes \<Rightarrow> compareErr + compareVerdict" where
  "evaluateComparison rd fl samples pol policySum =
     (if PrimaryScenarios pol = [] then Inl NoPrimaryScenarios
      else case evaluateLoop (scenarioVerdict rd fl samples pol) (po_Scenarios pol) True [] [] of
        Inl e \<Rightarrow> Inl (SampleProblem e)
      | Inr (pass, centers, scenarios) \<Rightarrow>
          let geomean = Geomean fl centers; geomeanPass = f_le fl (th_ThroughputGeomean (po_Thresholds pol)) geomean in
          Inr \<lparr>cv_Pass = (if \<not> geomeanPass then False else pass), cv_Candidate = po_Candidate pol, cv_Comparator = po_Comparator pol,
            cv_Geomean = geomean, cv_GeomeanPass = geomeanPass, cv_Scenarios = scenarios, cv_Thresholds = po_Thresholds pol,
            cv_PolicySHA256 = policySum\<rparr>)"

section \<open>Only primary scenarios decide\<close>

lemma scenarioVerdict_Primary: "scenarioVerdict rd fl samples pol sc = Inr v \<Longrightarrow> sv_Primary v = sc_Primary sc"
  by (auto simp: scenarioVerdict_def Let_def case_prod_unfold)

lemma scenarioVerdict_cong:
  assumes "Ratios fl samples (sc_Name sc) = Ratios fl samples' (sc_Name sc)"
  shows "scenarioVerdict rd fl samples pol sc = scenarioVerdict rd fl samples' pol sc"
  by (simp add: scenarioVerdict_def assms)

lemma Ratios_scenario:
  assumes "filter (\<lambda>s. sa_Scenario s \<in> N) samples = filter (\<lambda>s. sa_Scenario s \<in> N) samples'" "n \<in> N"
  shows "Ratios fl samples n = Ratios fl samples' n"
proof -
  have restrict: "filter (\<lambda>s. sa_Scenario s = n \<and> sa_Library s = l) xs =
      filter (\<lambda>s. sa_Scenario s = n \<and> sa_Library s = l) (filter (\<lambda>s. sa_Scenario s \<in> N) xs)" for l and xs :: "'a Sample list"
    using assms(2) by (auto intro: filter_cong)
  have "forScenario samples n l = forScenario samples' n l" for l
    unfolding forScenario_def by (subst (1 2) restrict) (simp only: assms(1))
  then show ?thesis by (intro ext) (simp add: Ratios_def)
qed

lemma evaluateLoop_Inr:
  assumes "evaluateLoop verdict scs pass centers scenarios = Inr (pass', centers', scenarios')"
    "\<And>sc v. verdict sc = Inr v \<Longrightarrow> sv_Primary v = sc_Primary sc"
  shows "\<exists>vs. list_all2 (\<lambda>sc v. verdict sc = Inr v) scs vs \<and> scenarios' = scenarios @ vs \<and>
    (pass' \<longleftrightarrow> pass \<and> (\<forall>v \<in> set vs. sv_Primary v \<longrightarrow> gatesPass v)) \<and>
    centers' = centers @ map sv_ThroughputCenter (filter sv_Primary vs)"
  using assms(1)
proof (induction scs arbitrary: pass centers scenarios)
  case (Cons sc scs)
  then obtain v where v: "verdict sc = Inr v"
    "evaluateLoop verdict scs (if sc_Primary sc \<and> \<not> gatesPass v then False else pass)
      (if sc_Primary sc then centers @ [sv_ThroughputCenter v] else centers) (scenarios @ [v]) = Inr (pass', centers', scenarios')"
    by auto
  from Cons.IH [OF v(2)] obtain vs where "list_all2 (\<lambda>sc v. verdict sc = Inr v) scs vs" "scenarios' = (scenarios @ [v]) @ vs"
    "pass' \<longleftrightarrow> (if sc_Primary sc \<and> \<not> gatesPass v then False else pass) \<and> (\<forall>v \<in> set vs. sv_Primary v \<longrightarrow> gatesPass v)"
    "centers' = (if sc_Primary sc then centers @ [sv_ThroughputCenter v] else centers) @ map sv_ThroughputCenter (filter sv_Primary vs)"
    by blast
  then show ?case using v(1) assms(2) [OF v(1)] by (intro exI [of _ "v # vs"]) auto
qed simp

lemma filter_primary:
  assumes "list_all2 (\<lambda>sc v. verdict sc = Inr v) scs vs" "\<And>sc v. verdict sc = Inr v \<Longrightarrow> sv_Primary v = sc_Primary sc"
  shows "list_all2 (\<lambda>sc v. verdict sc = Inr v) (filter sc_Primary scs) (filter sv_Primary vs)"
  using assms(1) by (induction rule: list_all2_induct) (auto dest: assms(2))

lemma verdicts_agree:
  assumes "list_all2 (\<lambda>sc v. verdict sc = Inr v) scs vs" "list_all2 (\<lambda>sc v. verdict' sc = Inr v) scs vs'"
    "\<And>sc. sc \<in> set scs \<Longrightarrow> verdict sc = verdict' sc"
  shows "vs = vs'"
  using assms by (induction scs arbitrary: vs vs') (auto simp: list_all2_Cons1)

lemma evaluations_agree:
  assumes "evaluateComparison rd fl samples pol h = Inr v" "evaluateComparison rd fl samples' pol h = Inr v'"
    "filter (\<lambda>s. sa_Scenario s \<in> sc_Name ` set (PrimaryScenarios pol)) samples =
     filter (\<lambda>s. sa_Scenario s \<in> sc_Name ` set (PrimaryScenarios pol)) samples'"
  shows "(cv_Pass v \<longleftrightarrow> cv_GeomeanPass v \<and> (\<forall>s \<in> set (cv_Scenarios v). sv_Primary s \<longrightarrow> gatesPass s)) \<and>
    cv_Pass v = cv_Pass v' \<and> cv_Geomean v = cv_Geomean v' \<and>
    filter sv_Primary (cv_Scenarios v) = filter sv_Primary (cv_Scenarios v')"
proof -
  let ?verdict = "scenarioVerdict rd fl samples pol" and ?verdict' = "scenarioVerdict rd fl samples' pol"
  obtain pass centers vs where loop: "evaluateLoop ?verdict (po_Scenarios pol) True [] [] = Inr (pass, centers, vs)"
    and v: "cv_Pass v \<longleftrightarrow> cv_GeomeanPass v \<and> pass" "cv_Geomean v = Geomean fl centers" "cv_Scenarios v = vs"
      "cv_GeomeanPass v \<longleftrightarrow> f_le fl (th_ThroughputGeomean (po_Thresholds pol)) (Geomean fl centers)"
    using assms(1) by (auto simp: evaluateComparison_def Let_def split: if_splits sum.splits)
  obtain pass' centers' vs' where loop': "evaluateLoop ?verdict' (po_Scenarios pol) True [] [] = Inr (pass', centers', vs')"
    and v': "cv_Pass v' \<longleftrightarrow> cv_GeomeanPass v' \<and> pass'" "cv_Geomean v' = Geomean fl centers'" "cv_Scenarios v' = vs'"
      "cv_GeomeanPass v' \<longleftrightarrow> f_le fl (th_ThroughputGeomean (po_Thresholds pol)) (Geomean fl centers')"
    using assms(2) by (auto simp: evaluateComparison_def Let_def split: if_splits sum.splits)
  have primary: "\<And>sc v. ?verdict sc = Inr v \<Longrightarrow> sv_Primary v = sc_Primary sc" "\<And>sc v. ?verdict' sc = Inr v \<Longrightarrow> sv_Primary v = sc_Primary sc"
    using scenarioVerdict_Primary by blast+
  have L: "list_all2 (\<lambda>sc v. ?verdict sc = Inr v) (po_Scenarios pol) vs" "pass \<longleftrightarrow> (\<forall>v \<in> set vs. sv_Primary v \<longrightarrow> gatesPass v)"
    "centers = map sv_ThroughputCenter (filter sv_Primary vs)"
    using evaluateLoop_Inr [OF loop primary(1)] by auto
  have L': "list_all2 (\<lambda>sc v. ?verdict' sc = Inr v) (po_Scenarios pol) vs'" "pass' \<longleftrightarrow> (\<forall>v \<in> set vs'. sv_Primary v \<longrightarrow> gatesPass v)"
    "centers' = map sv_ThroughputCenter (filter sv_Primary vs')"
    using evaluateLoop_Inr [OF loop' primary(2)] by auto
  have "?verdict sc = ?verdict' sc" if "sc \<in> set (filter sc_Primary (po_Scenarios pol))" for sc
    using that Ratios_scenario [OF assms(3)] by (intro scenarioVerdict_cong) (auto simp: PrimaryScenarios_def)
  then have same: "filter sv_Primary vs = filter sv_Primary vs'"
    using filter_primary [OF L(1) primary(1)] filter_primary [OF L'(1) primary(2)] verdicts_agree [of ?verdict _ _ ?verdict'] by blast
  have "(\<forall>v \<in> set vs. sv_Primary v \<longrightarrow> gatesPass v) \<longleftrightarrow> list_all gatesPass (filter sv_Primary vs)" for vs
    by (auto simp: list_all_iff)
  then have "pass \<longleftrightarrow> pass'" using same L(2) L'(2) by simp
  then show ?thesis using v v' same L L' by simp
qed

abbreviation reportedMetrics :: "bytes set" where
  "reportedMetrics \<equiv>
     {MetricThroughput, MetricP99, MetricP999, MetricServerCPUPerMessage, MetricServerRSSPerConn, MetricClientCPUPerMessage}"

text \<open>A scenario whose samples can be evaluated: each reported metric has its ratios.\<close>

definition measured :: "policyFloat float64 \<Rightarrow> policyFloat Sample list \<Rightarrow> Policy \<Rightarrow> Scenario \<Rightarrow> bool" where
  "measured fl samples pol sc \<longleftrightarrow>
     (\<forall>metric \<in> reportedMetrics. \<not> isl (Ratios fl samples (sc_Name sc) (po_Candidate pol) (po_Comparator pol) metric))"

lemma scenarioVerdict_iff: "(\<exists>v. scenarioVerdict rd fl samples pol sc = Inr v) \<longleftrightarrow> measured fl samples pol sc"
proof
  assume "\<exists>v. scenarioVerdict rd fl samples pol sc = Inr v"
  then show "measured fl samples pol sc" by (auto simp: scenarioVerdict_def measured_def Let_def case_prod_unfold)
next
  let ?r = "Ratios fl samples (sc_Name sc) (po_Candidate pol) (po_Comparator pol)"
  assume "measured fl samples pol sc"
  then have ratios: "\<exists>r. ?r metric = Inr r" if "metric \<in> reportedMetrics" for metric
    using that by (cases "?r metric") (auto simp: measured_def)
  obtain a b c d e f where "?r MetricThroughput = Inr a" "?r MetricP99 = Inr b" "?r MetricP999 = Inr c"
    "?r MetricServerCPUPerMessage = Inr d" "?r MetricServerRSSPerConn = Inr e" "?r MetricClientCPUPerMessage = Inr f"
    using ratios [of MetricThroughput] ratios [of MetricP99] ratios [of MetricP999] ratios [of MetricServerCPUPerMessage]
      ratios [of MetricServerRSSPerConn] ratios [of MetricClientCPUPerMessage] by auto
  then show "\<exists>v. scenarioVerdict rd fl samples pol sc = Inr v" unfolding scenarioVerdict_def Let_def case_prod_unfold by simp
qed

lemma evaluateLoop_iff:
  "(\<exists>y. evaluateLoop verdict scs pass centers scenarios = Inr y) \<longleftrightarrow> (\<forall>sc \<in> set scs. \<exists>v. verdict sc = Inr v)"
proof (induction scs arbitrary: pass centers scenarios)
  case (Cons sc scs)
  then show ?case by (cases "verdict sc") (auto simp del: split_paired_Ex)
qed simp

lemma evaluateComparison_iff:
  assumes "PrimaryScenarios pol \<noteq> []"
  shows "if list_all (measured fl samples pol) (po_Scenarios pol) then \<exists>v. evaluateComparison rd fl samples pol h = Inr v
    else \<exists>e. evaluateComparison rd fl samples pol h = Inl (SampleProblem e)"
  using evaluateLoop_iff [of "scenarioVerdict rd fl samples pol" "po_Scenarios pol" True "[]" "[]"] assms
  by (auto simp: evaluateComparison_def scenarioVerdict_iff list_all_iff Let_def split: sum.split)

lemma measured_scenario:
  "filter (\<lambda>s. sa_Scenario s \<in> N) samples = filter (\<lambda>s. sa_Scenario s \<in> N) samples' \<Longrightarrow> sc_Name sc \<in> N \<Longrightarrow>
    measured fl samples pol sc = measured fl samples' pol sc"
  using Ratios_scenario [of N samples samples' "sc_Name sc" fl] by (simp add: measured_def)

text \<open>C27: Only the primary scenarios decide a comparison. An evaluation that succeeds passes exactly if the throughput geomean and every
  gate of every primary scenario pass. Of two sets of samples that agree on the primary scenarios, and of which the
  first can be evaluated: if in the second each of the other scenarios can be evaluated too (the same positive number of samples for both libraries
  and, for each reported metric, a known value of each sample and no zero of the comparator), then its evaluation succeeds with the same outcome, the
  same geomean and the same verdicts on the primary scenarios, whatever was measured in the others; if one of
  them cannot, the whole evaluation fails.\<close>

theorem primary_scenarios_decide:
  assumes "evaluateComparison rd fl samples pol h = Inr v"
    "filter (\<lambda>s. sa_Scenario s \<in> sc_Name ` set (PrimaryScenarios pol)) samples =
     filter (\<lambda>s. sa_Scenario s \<in> sc_Name ` set (PrimaryScenarios pol)) samples'"
  shows "(cv_Pass v \<longleftrightarrow> cv_GeomeanPass v \<and> (\<forall>s \<in> set (cv_Scenarios v). sv_Primary s \<longrightarrow> gatesPass s)) \<and>
    (if \<forall>sc \<in> set (po_Scenarios pol). \<not> sc_Primary sc \<longrightarrow> measured fl samples' pol sc
     then \<exists>v'. evaluateComparison rd fl samples' pol h = Inr v' \<and> cv_Pass v' = cv_Pass v \<and> cv_Geomean v' = cv_Geomean v \<and>
       filter sv_Primary (cv_Scenarios v') = filter sv_Primary (cv_Scenarios v)
     else \<exists>e. evaluateComparison rd fl samples' pol h = Inl (SampleProblem e))"
proof -
  have ne: "PrimaryScenarios pol \<noteq> []" using assms(1) by (auto simp: evaluateComparison_def)
  have "list_all (measured fl samples pol) (po_Scenarios pol)"
    using evaluateComparison_iff [OF ne, of fl samples rd h] assms(1) by (auto split: if_splits)
  then have "measured fl samples' pol sc" if "sc \<in> set (po_Scenarios pol)" "sc_Primary sc" for sc
    using that measured_scenario [OF assms(2), of sc] by (auto simp: list_all_iff PrimaryScenarios_def)
  then have all: "list_all (measured fl samples' pol) (po_Scenarios pol) \<longleftrightarrow>
      (\<forall>sc \<in> set (po_Scenarios pol). \<not> sc_Primary sc \<longrightarrow> measured fl samples' pol sc)"
    by (auto simp: list_all_iff)
  have "cv_Pass v \<longleftrightarrow> cv_GeomeanPass v \<and> (\<forall>s \<in> set (cv_Scenarios v). sv_Primary s \<longrightarrow> gatesPass s)"
    using evaluations_agree [OF assms(1,1) refl] by simp
  then show ?thesis
    using evaluateComparison_iff [OF ne, of fl samples' rd h] evaluations_agree [OF assms(1) _ assms(2)] unfolding all
    by (metis (no_types, lifting))
qed

text \<open>Whole numbers with the operations rounded to them, one primary and one other scenario, measured once with each library.\<close>

definition demoOps :: "policyFloat float64" where
  "demoOps = \<lparr>f_ofInt = (\<lambda>n. Finite (of_int n)), f_literal = (\<lambda>s. Finite 0), f_div = (\<lambda>a b. a), f_sub = (\<lambda>a b. a), f_mul = (\<lambda>a b. a),
     f_abs = id, f_max = (\<lambda>a b. if fless a b then b else a), f_le = fle, f_less = fless, f_eq = (=), f_finite = (\<lambda>x. x \<noteq> NaN),
     f_add = (\<lambda>a b. a), f_log = id, f_exp = id, f_NaN = NaN, f_toInt = (\<lambda>x. 0)\<rparr>"

definition demoComparison :: Policy where
  "demoComparison = demoPolicy\<lparr>po_Scenarios := [demoScenario, demoScenario\<lparr>sc_Name := B ''extra'', sc_Primary := False\<rparr>]\<rparr>"

definition demoSamples :: "rat \<Rightarrow> policyFloat Sample list" where
  "demoSamples x =
     [exampleSample (B ''binary-1k-200'') (B ''gows'') (Finite 2), exampleSample (B ''extra'') (B ''gows-b'') (Finite x),
      exampleSample (B ''binary-1k-200'') (B ''gows-b'') (Finite 1), exampleSample (B ''extra'') (B ''gows'') (Finite 1)]"

lemma example_metric:
  "metric \<in> reportedMetrics \<Longrightarrow> sampleMetricOf demoOps (exampleSample scenario library (Finite x)) metric \<in> {Inr (Finite x), Inr (Finite 1)}"
  by (auto simp: sampleMetricOf_def exampleSample_def exampleResult_def demoOps_def)

lemma Ratios_single:
  assumes "forScenario samples scenario candidate = [s]" "forScenario samples scenario comparator = [t]"
    "sampleMetricOf fl s metric = Inr a" "sampleMetricOf fl t metric = Inr b" "\<not> f_eq fl b (f_ofInt fl 0)"
  shows "Ratios fl samples scenario candidate comparator metric = Inr [f_div fl a b]"
  using assms by (simp add: Ratios_def)

lemma demoSamples_scenarios:
  "forScenario (demoSamples x) (B ''binary-1k-200'') (B ''gows'') = [exampleSample (B ''binary-1k-200'') (B ''gows'') (Finite 2)]"
  "forScenario (demoSamples x) (B ''binary-1k-200'') (B ''gows-b'') = [exampleSample (B ''binary-1k-200'') (B ''gows-b'') (Finite 1)]"
  "forScenario (demoSamples x) (B ''extra'') (B ''gows'') = [exampleSample (B ''extra'') (B ''gows'') (Finite 1)]"
  "forScenario (demoSamples x) (B ''extra'') (B ''gows-b'') = [exampleSample (B ''extra'') (B ''gows-b'') (Finite x)]"
  by (simp_all add: forScenario_def demoSamples_def exampleSample_def)

lemma example_ratios:
  assumes "forScenario samples n candidate = [exampleSample a b (Finite u)]" "forScenario samples n comparator = [exampleSample c d (Finite w)]"
    "metric \<in> reportedMetrics" "w \<noteq> 0"
  shows "\<exists>r. Ratios demoOps samples n candidate comparator metric = Inr r"
proof -
  obtain y z where "sampleMetricOf demoOps (exampleSample a b (Finite u)) metric = Inr y"
    "sampleMetricOf demoOps (exampleSample c d (Finite w)) metric = Inr z" "\<not> f_eq demoOps z (f_ofInt demoOps 0)"
    using example_metric [OF assms(3), of a b u] example_metric [OF assms(3), of c d w] assms(4) by (auto simp: demoOps_def)
  from Ratios_single [OF assms(1,2) this] show ?thesis by blast
qed

lemma demoComparison_fields:
  "po_Candidate demoComparison = B ''gows''" "po_Comparator demoComparison = B ''gows-b''"
  "sc_Name ` set (po_Scenarios demoComparison) = {B ''binary-1k-200'', B ''extra''}"
  "sc_Name ` set (PrimaryScenarios demoComparison) = {B ''binary-1k-200''}" "PrimaryScenarios demoComparison \<noteq> []"
  by (auto simp: PrimaryScenarios_def demoComparison_def demoPolicy_def demoScenario_def Let_def)

lemma demoSamples_measured:
  assumes "x \<noteq> 0" "sc \<in> set (po_Scenarios demoComparison)"
  shows "measured demoOps (demoSamples x) demoComparison sc"
proof -
  have n: "sc_Name sc \<in> {B ''binary-1k-200'', B ''extra''}" using demoComparison_fields(3) assms(2) by blast
  have "\<exists>r. Ratios demoOps (demoSamples x) (sc_Name sc) (B ''gows'') (B ''gows-b'') metric = Inr r" if "metric \<in> reportedMetrics" for metric
    using n example_ratios [OF demoSamples_scenarios(1,2) that] example_ratios [OF demoSamples_scenarios(3,4) that assms(1)] by auto
  then show ?thesis unfolding measured_def demoComparison_fields by force
qed

text \<open>
  Two measurements of the other scenario that lead to the same outcome, and its absence, which leads to none.
\<close>

theorem primary_scenarios_decide_witness:
  "\<exists>v v' e. evaluateComparison demoRand demoOps (demoSamples 1) demoComparison [] = Inr v \<and>
     evaluateComparison demoRand demoOps (demoSamples 5) demoComparison [] = Inr v' \<and> cv_Pass v = cv_Pass v' \<and>
     evaluateComparison demoRand demoOps (filter (\<lambda>s. sa_Scenario s \<noteq> B ''extra'') (demoSamples 1)) demoComparison [] = Inl (SampleProblem e)"
proof -
  let ?only = "filter (\<lambda>s. sa_Scenario s \<noteq> B ''extra'') (demoSamples 1)"
  note m = demoSamples_measured [of 1] demoSamples_measured [of 5]
  obtain v where v: "evaluateComparison demoRand demoOps (demoSamples 1) demoComparison [] = Inr v"
    using evaluateComparison_iff [OF demoComparison_fields(5), of demoOps "demoSamples 1" demoRand "[]"] m(1) by (auto simp: list_all_iff)
  let ?N = "sc_Name ` set (PrimaryScenarios demoComparison)"
  have same: "filter (\<lambda>s. sa_Scenario s \<in> ?N) (demoSamples 1) = filter (\<lambda>s. sa_Scenario s \<in> ?N) (demoSamples 5)"
    "filter (\<lambda>s. sa_Scenario s \<in> ?N) (demoSamples 1) = filter (\<lambda>s. sa_Scenario s \<in> ?N) ?only"
    unfolding demoComparison_fields by (simp_all add: demoSamples_def exampleSample_def)
  let ?extra = "demoScenario\<lparr>sc_Name := B ''extra'', sc_Primary := False\<rparr>"
  have "?extra \<in> set (po_Scenarios demoComparison)" "\<not> sc_Primary ?extra" by (simp_all add: demoComparison_def)
  moreover have "\<not> measured demoOps ?only demoComparison ?extra"
    unfolding measured_def demoComparison_fields by (simp add: Ratios_def forScenario_def demoSamples_def exampleSample_def) blast
  ultimately show ?thesis
    using primary_scenarios_decide [OF v same(1)] primary_scenarios_decide [OF v same(2)] v m(2) by (auto split: if_splits)
qed

end
