(* ===== verification/Spec2Isabelle.thy ===== *)
theory Spec2Isabelle
  imports Session Api Serve Handshake_Spec Read_Limits Closing Upgrade_Http Guard Relay_Spec Report_Txn Bench_Policy Dial_Hop Echo_Server Load_Accounting Load_Pipeline Atomic_File Host_Guard Bench_Compare
begin

text \<open>
  A verification development for gows, a WebSocket library in Go (RFC 6455, with the permessage-deflate extension of
  RFC 7692), and for the tools kept beside it.

  \<^bold>\<open>The program.\<close> A TCP or TLS connection becomes a WebSocket by an HTTP handshake (\<^verbatim>\<open>src/dialer.go\<close> on the client,
  \<^verbatim>\<open>src/upgrader.go\<close> and \<^verbatim>\<open>src/upgrader_http.go\<close> on the server), which agrees on a subprotocol and on compression. The
  network connection is then wrapped in a \<^verbatim>\<open>Conn\<close> (\<^verbatim>\<open>src/conn.go\<close>), used in one of two modes: messages
  (\<^verbatim>\<open>src/reader.go\<close>, \<^verbatim>\<open>src/writer.go\<close>, \<^verbatim>\<open>src/serve.go\<close>, \<^verbatim>\<open>src/prepared.go\<close>) or single frames (\<^verbatim>\<open>src/relay*.go\<close>). A
  message is cut into frames (\<^verbatim>\<open>src/frame.go\<close>), masked by the client (\<^verbatim>\<open>src/internal/mask\<close>), checked to be UTF-8
  if it is text (\<^verbatim>\<open>src/internal/utf8x\<close>), compressed if that was agreed (\<^verbatim>\<open>src/compress.go\<close>), and passes through pooled
  buffers (\<^verbatim>\<open>src/internal/pool\<close>).

  \<^bold>\<open>Theories and sources.\<close> Definitions keep the names of the functions they model; a method of a second type that
  shares its name has a suffix or the type's name in it.

  \<^item> \<open>Gows_Prelude\<close>: bytes, Go's integers, \<^verbatim>\<open>encoding/binary\<close>, lemmas on lists and words.
  \<^item> \<open>Frame\<close> (\<^verbatim>\<open>frame.go\<close>), \<open>Masking\<close> (\<^verbatim>\<open>internal/mask\<close>), \<open>Utf8x\<close> (\<^verbatim>\<open>internal/utf8x\<close>), \<open>Pool\<close>
    (\<^verbatim>\<open>internal/pool\<close>), \<open>Httpx\<close> (\<^verbatim>\<open>internal/httpx\<close>), \<open>Extension\<close> (\<^verbatim>\<open>internal/extension\<close>): the codecs and helpers
    without state, each against its specification: both directions of a round trip, equality of the fast path with the
    plain one, independence of how the input is cut into chunks.
  \<^item> \<open>Negotiation\<close>: the compression offers and answers of \<^verbatim>\<open>upgrader.go\<close>, \<^verbatim>\<open>dialer.go\<close> and \<^verbatim>\<open>negotiation.go\<close>.
  \<^item> \<open>Transport\<close>: the \<^verbatim>\<open>net.Conn\<close> under a connection as two scripts, of what arrives and of how writes end. Every
    theorem holds for all scripts: any cutting of the bytes, any error, any short write.
  \<^item> \<open>Compress\<close> (\<^verbatim>\<open>compress.go\<close>), \<open>Connection\<close> (\<^verbatim>\<open>conn.go\<close>), \<open>Writer\<close> (\<^verbatim>\<open>writer.go\<close>, \<^verbatim>\<open>prepared.go\<close>, the writes of
    \<^verbatim>\<open>serve.go\<close>), \<open>Reader\<close> (\<^verbatim>\<open>reader.go\<close>, \<^verbatim>\<open>Close\<close>), \<open>Stream_Writer\<close> (\<^verbatim>\<open>NextWriter\<close>), \<open>Relay\<close> (\<^verbatim>\<open>relay*.go\<close>), \<open>Serve\<close>
    (\<^verbatim>\<open>serve.go\<close>): the connection, the record \<open>Conn\<close> with a field for each field of the struct that carries state,
    and one definition per method, from a connection to a result and the connection after it.
  \<^item> \<open>Reader_Spec\<close>, \<open>Message_Spec\<close>: a parser of the peer's byte stream that knows no buffers, and the refinement of it
    by \<^verbatim>\<open>ReadMessage\<close>. \<open>Writer_Spec\<close>: the bytes a connection has committed to its peer, as the locale
    \<open>message_sender\<close> that every way of sending interprets. \<open>Session\<close>, \<open>Relay_Spec\<close>: two connections talking, in either
    mode. \<open>Closing\<close>: the closing handshake between them. \<open>Read_Limits\<close>: what a returned message satisfies, and the
    length for which the test of the limit wraps around.
  \<^item> \<open>Lifecycle\<close>, \<open>Api\<close>: what every operation keeps, proved once for a relation in the locales \<open>read_relation\<close> and
    \<open>wire_relation\<close> and interpreted three times; the step relation of the operations that write, read, flush, close and
    relay, in any order, and the invariants of whole runs. \<open>Api\<close>'s steps include neither \<^verbatim>\<open>CloseContext\<close> nor \<^verbatim>\<open>Serve\<close>.
  \<^item> \<open>Guard\<close> (\<^verbatim>\<open>ioguard.go\<close>): context, callback and owner as a state machine, and \<^verbatim>\<open>CloseContext\<close>. The guard may close the
    transport when a context ends; the once-only closing of \<open>Api\<close> is about teardown, which may come besides.
  \<^item> \<open>Http_Header\<close> (\<^verbatim>\<open>header.go\<close>, \<^verbatim>\<open>errors.go\<close>), \<open>Upgrade\<close> (\<^verbatim>\<open>upgrader.go\<close>), \<open>Upgrade_Http\<close>
    (\<^verbatim>\<open>upgrader_http.go\<close>), \<open>Dial\<close> (\<^verbatim>\<open>dialer.go\<close>), \<open>Handshake_Read\<close>, \<open>Handshake_Spec\<close>: the opening handshake, each side,
    and the two together.
  \<^item> \<open>Report_Txn\<close> (\<^verbatim>\<open>autobahn/reporttxn\<close>, \<^verbatim>\<open>autobahn/reportctl\<close>): publishing conformance reports over a file system any
    operation of which may fail.
  \<^item> \<open>Bench_Workload\<close> (\<^verbatim>\<open>bench/harness/support\<close>, \<^verbatim>\<open>paired/order.go\<close>), \<open>Bench_Policy\<close> (\<^verbatim>\<open>bench/harness/policy\<close>): the
    inputs, schedule and admission rules of the benchmark harness.
  \<^item> \<open>Dial_Hop\<close> (\<^verbatim>\<open>dialHop\<close> of \<^verbatim>\<open>dialer.go\<close>, \<^verbatim>\<open>errors.go\<close>): one attempt of a dial with its proxy, context, TLS and
    deadlines; what closes the connection, and what the error says of the context.
  \<^item> \<open>Raw_Client\<close> (\<^verbatim>\<open>bench/harness/cmd/loadgen/raw_client.go\<close>), \<open>Echo_Server\<close>
    (\<^verbatim>\<open>bench/harness/cmd/echoserver/server_gows.go\<close>): a client that shares no code with the library, the echo server
    built on the library, and the exchange between the two.
  \<^item> \<open>Latency\<close>, \<open>Load_Result\<close> (\<^verbatim>\<open>bench/harness/support\<close>), \<open>Load_Schedule\<close>, \<open>Load_Accounting\<close>, \<open>Load_Pipeline\<close>
    (\<^verbatim>\<open>bench/harness/cmd/loadgen/main.go\<close>): the load generator, with the clock, the clients and the interleaving open; that its
    schedule is exact, that every message is accounted for in a way the validation of results accepts, and that the two goroutines of
    a pipelined connection keep their window and end.
  \<^item> \<open>Atomic_File\<close> (\<^verbatim>\<open>bench/harness/support/jsonfile.go\<close>): writing an artifact over a disk that can crash between any two steps.
  \<^item> \<open>Host_Guard\<close> (\<^verbatim>\<open>bench/harness/cmd/benchrun/guard.go\<close>, \<^verbatim>\<open>pmset.go\<close>): the processes a measurement owns, as loops and as the
    closure they compute.
  \<^item> \<open>Inference\<close> (\<^verbatim>\<open>bench/harness/paired\<close>), \<open>Bench_Compare\<close> (\<^verbatim>\<open>evaluate\<close> of \<^verbatim>\<open>bench/harness/cmd/benchcmp/main.go\<close>): the ratios
    of two libraries, the bootstraps over them, which do not depend on the order of the ratios, and the comparison, which only
    the primary scenarios decide.

  \<^bold>\<open>Conventions.\<close> A \<^verbatim>\<open>[]byte\<close> or a string is a list of 8-bit words; \<^verbatim>\<open>int\<close> and \<^verbatim>\<open>int64\<close> are \<^typ>\<open>int\<close>, reduced by
  \<open>i64\<close> where a sum can leave the range. An operation that may fail returns a sum or an optional error; error texts are
  kept only where the code acts on them. A Go map with an unspecified iteration order is the list of its entries in the
  order of the iteration, and the theorems hold for every list.

  \<^bold>\<open>Termination.\<close> Loops over a transport end because every pass consumes part of the read window or of the script
  (\<open>avail\<close> in \<open>Reader\<close>); their definitions are functions with that measure, without fuel. \<^verbatim>\<open>Serve\<close> depends on the
  program's handler and is a partial function into an option, \<^const>\<open>None\<close> for a call that never returns; it is
  proved to return. The redirect loop of \<^verbatim>\<open>Dial\<close> is bounded by the source's own limit.

  \<^bold>\<open>Parameters.\<close> The DEFLATE engine (\<open>DeflateBackend\<close>, with its documented round trip as the hypothesis of the theorems
  that need it), masking keys, the key of the handshake, SHA-256, JSON decoding, the HDR histogram, floating-point numbers, regular expressions, \<^verbatim>\<open>net/url\<close>, Unicode case folding and the random
  generator are not code of the repository: each is an argument, and the witnesses instantiate it.

  \<^bold>\<open>Not modelled.\<close> Clocks and deadlines (an expired deadline is an error of the scripted transport), locks (each exported
  operation is one step; the concurrency that is modelled is that of \<open>Guard\<close>), the assembly kernels of UTF-8 validation and the
  instruction level of the masking kernels, CPU detection, accessors that only hand out a field, the examples, the evidence package, the
  \<^verbatim>\<open>flatekp\<close> adapter, and the tools that run processes, read clocks or render reports; \<^verbatim>\<open>PROJECT.json\<close> names them one by one.
\<close>

end
